(* ===== verification/Prelude.thy ===== *)
theory Prelude
  imports Main "HOL-Library.Word" "HOL-Library.Multiset" "HOL-Library.Signed_Division"
begin

unbundle bit_operations_syntax

text \<open>
  Shared vocabulary of the development: the C integer types, the kernel error codes, flag
  words, little-endian fields, byte-buffer surgery, array stores and the one interface that
  every component with a step function shares (\<open>step_invariant\<close>).

  Conventions used by all theories.  A C \<open>int\<close> that only counts (credits, depths, lengths) is
  an \<open>int\<close> or a \<open>nat\<close>; a C value whose width matters (sequence numbers, flag words, statistics,
  bytes on the wire) is an \<open>n word\<close> or a \<open>nat\<close> with the mask written out.  A C function that
  returns \<open>0\<close> or a negative \<open>errno\<close> returns an \<open>int\<close> here, with the same sign.
\<close>

section \<open>Integers and error codes\<close>

type_synonym u8 = "8 word"
type_synonym u16 = "16 word"
type_synonym u32 = "32 word"

abbreviation ENOMEM :: int where "ENOMEM \<equiv> 12"
abbreviation EBUSY :: int where "EBUSY \<equiv> 16"
abbreviation EEXIST :: int where "EEXIST \<equiv> 17"
abbreviation EINVAL :: int where "EINVAL \<equiv> 22"
abbreviation ENOSPC :: int where "ENOSPC \<equiv> 28"
abbreviation EAGAIN :: int where "EAGAIN \<equiv> 11"
abbreviation EOPNOTSUPP :: int where "EOPNOTSUPP \<equiv> 95"
abbreviation ECANCELED :: int where "ECANCELED \<equiv> 125"

section \<open>Flag words\<close>

text \<open>\<open>w & f\<close> used as a truth value, \<open>w |= f\<close> and \<open>w &= ~f\<close>.\<close>

definition has_flag :: "'a::len word \<Rightarrow> 'a word \<Rightarrow> bool" where
  "has_flag w f \<longleftrightarrow> w AND f \<noteq> 0"

definition set_flag :: "'a::len word \<Rightarrow> 'a word \<Rightarrow> 'a word" where
  "set_flag w f = w OR f"

definition clear_flag :: "'a::len word \<Rightarrow> 'a word \<Rightarrow> 'a word" where
  "clear_flag w f = w AND NOT f"

lemma has_flag_set_flag_same [simp]: "f \<noteq> 0 \<Longrightarrow> has_flag (set_flag w f) f"
proof -
  assume "f \<noteq> 0"
  then obtain n where n: "bit f n" by (metis bit_0_eq bit_word_eqI zero_word.abs_eq bot_apply bot_bool_def)
  then have "bit ((w OR f) AND f) n" by (simp add: bit_simps)
  then show ?thesis by (auto simp: has_flag_def set_flag_def)
qed

lemma has_flag_clear_flag_same [simp]: "\<not> has_flag (clear_flag w f) f"
  by (simp add: has_flag_def clear_flag_def and.assoc)

lemma has_flag_clear_flag_other:
  "f AND g = 0 \<Longrightarrow> has_flag (clear_flag w f) g = has_flag w g"
proof -
  assume fg: "f AND g = 0"
  have "(w AND NOT f) AND g = w AND g"
  proof (rule bit_word_eqI)
    fix n assume "n < LENGTH('a)"
    have "bit (f AND g) n = False" by (simp add: fg)
    then show "bit ((w AND NOT f) AND g) n = bit (w AND g) n"
      by (auto simp: bit_simps \<open>n < LENGTH('a)\<close>)
  qed
  then show ?thesis by (simp add: has_flag_def clear_flag_def)
qed

lemma has_flag_set_flag_other:
  "f AND g = 0 \<Longrightarrow> has_flag (set_flag w f) g = has_flag w g"
  by (simp add: has_flag_def set_flag_def bit.conj_disj_distrib2)

lemma has_flag_0 [simp]: "\<not> has_flag 0 f"
  by (simp add: has_flag_def)

section \<open>Little-endian fields and byte buffers\<close>

text \<open>\<open>le16_to_cpu\<close> of two bytes, and the two bytes \<open>cpu_to_le16\<close> stores.\<close>

definition le16 :: "u8 \<Rightarrow> u8 \<Rightarrow> nat" where
  "le16 lo hi = unat lo + 256 * unat hi"

definition le16_lo :: "nat \<Rightarrow> u8" where
  "le16_lo n = of_nat n"

definition le16_hi :: "nat \<Rightarrow> u8" where
  "le16_hi n = of_nat (n div 256)"

lemma le16_round_trip: "n < 65536 \<Longrightarrow> le16 (le16_lo n) (le16_hi n) = n"
  by (simp add: le16_def le16_lo_def le16_hi_def unat_of_nat mod_less)

lemma le16_bound: "le16 lo hi < 65536"
proof -
  have "unat lo < 256" "unat hi < 256"
    using unsigned_less [of lo, where ?'a = nat] unsigned_less [of hi, where ?'a = nat] by simp_all
  then show ?thesis by (simp add: le16_def)
qed

text \<open>
  Memory is a function from addresses to bytes.  \<open>write_bytes\<close> stores a block, \<open>read_bytes\<close>
  reads one; \<open>memmove\<close> reads the whole source before it stores.
\<close>

definition read_bytes :: "(int \<Rightarrow> u8) \<Rightarrow> int \<Rightarrow> nat \<Rightarrow> u8 list" where
  "read_bytes m a n = map (\<lambda>i. m (a + int i)) [0..<n]"

definition write_bytes :: "(int \<Rightarrow> u8) \<Rightarrow> int \<Rightarrow> u8 list \<Rightarrow> (int \<Rightarrow> u8)" where
  "write_bytes m a bs = (\<lambda>x. if a \<le> x \<and> x < a + int (length bs) then bs ! nat (x - a) else m x)"

definition memmove :: "(int \<Rightarrow> u8) \<Rightarrow> int \<Rightarrow> int \<Rightarrow> nat \<Rightarrow> (int \<Rightarrow> u8)" where
  "memmove m dst src n = write_bytes m dst (read_bytes m src n)"

lemma length_read_bytes [simp]: "length (read_bytes m a n) = n"
  by (simp add: read_bytes_def)

lemma nth_read_bytes [simp]: "i < n \<Longrightarrow> read_bytes m a n ! i = m (a + int i)"
  by (simp add: read_bytes_def)

lemma read_write_same [simp]: "read_bytes (write_bytes m a bs) a (length bs) = bs"
  by (rule nth_equalityI) (simp_all add: write_bytes_def)

lemma read_write_apart:
  "b + int n \<le> a \<or> a + int (length bs) \<le> b \<Longrightarrow>
   read_bytes (write_bytes m a bs) b n = read_bytes m b n"
  by (auto intro!: nth_equalityI simp: write_bytes_def)

lemma read_memmove [simp]: "read_bytes (memmove m dst src n) dst n = read_bytes m src n"
  using read_write_same [of m dst "read_bytes m src n"] by (simp add: memmove_def)

lemma write_outside: "x < a \<or> a + int (length bs) \<le> x \<Longrightarrow> write_bytes m a bs x = m x"
  by (auto simp: write_bytes_def)

lemma read_bytes_append: "read_bytes m a (k + n) = read_bytes m a k @ read_bytes m (a + int k) n"
  by (rule nth_equalityI) (auto simp: nth_append)

text \<open>
  The kernel's \<open>__ALIGN_MASK(x, mask) = (x + mask) & ~mask\<close>.  For a mask \<open>2^k - 1\<close> it rounds
  \<open>x\<close> up to the next multiple of \<open>2^k\<close>.
\<close>

definition align_mask :: "nat \<Rightarrow> nat \<Rightarrow> nat" where
  "align_mask x m = nat ((int x + int m) AND NOT (int m))"

lemma and_not_mask_int: "(a::int) AND NOT (mask k) = a div 2 ^ k * 2 ^ k"
proof -
  have "a AND NOT (mask k) = push_bit k (drop_bit k a)"
    by (rule bit_eqI) (auto simp: bit_simps)
  then show ?thesis by (simp add: push_bit_eq_mult drop_bit_eq_div)
qed

lemma align_mask_pow2: "align_mask x (2 ^ k - 1) = (x + (2 ^ k - 1)) div 2 ^ k * 2 ^ k"
proof -
  define m :: nat where "m = 2 ^ k - 1"
  have m: "int m = mask k"
    by (simp add: m_def mask_eq_exp_minus_1 of_nat_diff)
  have "align_mask x m = nat ((int x + int m) AND NOT (mask k))"
    unfolding align_mask_def by (subst (2) m) simp
  also have "\<dots> = nat (int ((x + m) div 2 ^ k * 2 ^ k))"
    unfolding and_not_mask_int by (simp add: zdiv_int)
  finally show ?thesis by (simp only: m_def nat_int)
qed

lemma align_mask_ge: "x \<le> align_mask x (2 ^ k - 1)"
proof -
  define q :: nat where "q = 2 ^ k"
  have q: "0 < q" by (simp add: q_def)
  have "(x + (q - 1)) mod q \<le> q - 1"
    using mod_less_divisor [OF q, of "x + (q - 1)"] by linarith
  moreover have "(x + (q - 1)) div q * q + (x + (q - 1)) mod q = x + (q - 1)"
    by (rule div_mult_mod_eq)
  ultimately have "x \<le> (x + (q - 1)) div q * q" by linarith
  then show ?thesis by (simp only: align_mask_pow2 q_def)
qed

lemma align_mask_dvd: "2 ^ k dvd align_mask x (2 ^ k - 1)"
  by (simp only: align_mask_pow2) (rule dvd_triv_right)

lemma align_mask_less: "align_mask x (2 ^ k - 1) < x + 2 ^ k"
proof -
  define q :: nat where "q = 2 ^ k"
  have q: "0 < q" by (simp add: q_def)
  have "(x + (q - 1)) div q * q \<le> x + (q - 1)" by (rule div_times_less_eq_dividend)
  also have "\<dots> < x + q" using q by linarith
  finally show ?thesis by (simp only: align_mask_pow2 q_def)
qed

section \<open>List and sum facts\<close>

lemma sum_list_map_fun_upd:
  "distinct es \<Longrightarrow>
   sum_list (map (\<lambda>e. g ((f(x := v)) e)) es) =
   sum_list (map (\<lambda>e. g (f e)) es) + (if x \<in> set es then g v - g (f x) else (0::int))"
  by (induction es) auto

lemma sum_list_map_cong_set:
  "(\<And>e. e \<in> set es \<Longrightarrow> f e = g e) \<Longrightarrow> sum_list (map f es) = sum_list (map g es)"
  by (metis map_cong)

lemma partition_mset: "mset (filter P xs) + mset (filter (\<lambda>x. \<not> P x) xs) = mset xs"
  by (induction xs) auto

section \<open>The interface of a component with steps\<close>

text \<open>
  A component is a state type, a step function for its events and an invariant.  Whatever
  every step keeps, every run keeps; and a relation between two states that is reflexive,
  transitive and implied by each step relates the ends of every run.
\<close>

locale step_invariant =
  fixes step :: "'s \<Rightarrow> 'e \<Rightarrow> 's"
    and inv :: "'s \<Rightarrow> bool"
  assumes step_inv: "inv s \<Longrightarrow> inv (step s e)"
begin

lemma run_inv: "inv s \<Longrightarrow> inv (foldl step s es)"
  by (induction es arbitrary: s) (auto intro: step_inv)

lemma run_prefix_inv: "inv s \<Longrightarrow> inv (foldl step s (take n es))"
  by (rule run_inv)

end

text \<open>A component that also keeps a measured quantity constant along every step.\<close>

locale step_conserves = step_invariant step inv
  for step :: "'s \<Rightarrow> 'e \<Rightarrow> 's" and inv :: "'s \<Rightarrow> bool" +
  fixes amount :: "'s \<Rightarrow> 'm"
  assumes step_amount: "inv s \<Longrightarrow> amount (step s e) = amount s"
begin

lemma run_amount: "inv s \<Longrightarrow> amount (foldl step s es) = amount s"
  by (induction es arbitrary: s) (auto simp: step_amount step_inv)

end

text \<open>The same for a component whose steps are a relation: what a step keeps, every run keeps.\<close>

locale step_relation =
  fixes step :: "'s \<Rightarrow> 's \<Rightarrow> bool" and inv :: "'s \<Rightarrow> bool"
  assumes step_keeps: "step s s' \<Longrightarrow> inv s \<Longrightarrow> inv s'"
begin

lemma steps_keep: "step\<^sup>*\<^sup>* s s' \<Longrightarrow> inv s \<Longrightarrow> inv s'"
  by (induction rule: rtranclp_induct) (auto intro: step_keeps)

end

section \<open>The interface of a pool of objects\<close>

text \<open>
  Objects are taken from a pool and given back.  \<open>owes p out\<close>: of the objects of \<open>p\<close> those in \<open>out\<close>
  are out, the others can still be taken.  A pool never hands an object out twice.
\<close>

locale object_pool =
  fixes take_obj :: "'p \<Rightarrow> 'c option \<times> 'p" and give_obj :: "'p \<Rightarrow> 'c \<Rightarrow> 'p" and owes :: "'p \<Rightarrow> 'c list \<Rightarrow> bool"
  assumes take_owes: "owes p out \<Longrightarrow> take_obj p = (Some c, p') \<Longrightarrow> owes p' (c # out) \<and> c \<notin> set out"
    and refuse_owes: "owes p out \<Longrightarrow> take_obj p = (None, p') \<Longrightarrow> owes p' out"
    and give_owes: "owes p out \<Longrightarrow> c \<in> set out \<Longrightarrow> owes (give_obj p c) (remove1 c out)"
    and owes_perm: "owes p out \<Longrightarrow> mset out' = mset out \<Longrightarrow> owes p out'"
    and owes_distinct: "owes p out \<Longrightarrow> distinct out"
begin

lemma take_last: "owes p out \<Longrightarrow> take_obj p = (Some c, p') \<Longrightarrow> owes p' (out @ [c])"
  using take_owes owes_perm [of p' "c # out" "out @ [c]"] by simp

lemma take_give: "owes p out \<Longrightarrow> take_obj p = (Some c, p') \<Longrightarrow> owes (give_obj p' c) out"
  using take_owes [of p out c p'] give_owes [of p' "c # out" c] by simp

lemma give_all: "owes p (out @ cs) \<Longrightarrow> owes (foldl give_obj p cs) out"
proof (induction cs arbitrary: p)
  case (Cons c cs)
  have "owes p (c # out @ cs)" by (rule owes_perm [OF Cons.prems]) simp
  from give_owes [OF this, of c] have "owes (give_obj p c) (out @ cs)" by simp
  from Cons.IH [OF this] show ?case by simp
qed simp

end

end
