(* ===== verification/HtcCredit.thy ===== *)
theory HtcCredit
  imports Prelude
begin

text \<open>
  Tx credit distribution of the HTC mailbox layer (drivers/ath6kl/htc.c, the functions
  \<open>ath6kl_credit_*\<close>, on the structures of drivers/ath6kl/htc.h).

  The C code keeps one \<open>struct htc_endpoint_credit_dist\<close> inside every endpoint and links those
  of the connected services into \<open>cred_dist_list\<close>, highest priority first and endpoint 0 at
  its head.  Here the structures are a store \<open>dists\<close> indexed by the endpoint number (the
  address of the structure), and a list is the list of those indices in link order; two C
  pointers are equal exactly when the indices are.  Every operation takes and returns the
  pair of the shared pool (\<open>credit_info\<close>) and the store.
\<close>

section \<open>Data\<close>

definition HTC_CTRL_RSVD_SVC :: nat where "HTC_CTRL_RSVD_SVC = 1"
definition WMI_CONTROL_SVC :: nat where "WMI_CONTROL_SVC = 256"
definition WMI_DATA_BE_SVC :: nat where "WMI_DATA_BE_SVC = 257"
definition WMI_DATA_BK_SVC :: nat where "WMI_DATA_BK_SVC = 258"
definition WMI_DATA_VI_SVC :: nat where "WMI_DATA_VI_SVC = 259"
definition WMI_DATA_VO_SVC :: nat where "WMI_DATA_VO_SVC = 260"

lemmas svc_defs = HTC_CTRL_RSVD_SVC_def WMI_CONTROL_SVC_def WMI_DATA_BE_SVC_def
  WMI_DATA_BK_SVC_def WMI_DATA_VI_SVC_def WMI_DATA_VO_SVC_def

text \<open>\<open>HTC_EP_ACTIVE = (u32) (1u << 31)\<close>\<close>

definition HTC_EP_ACTIVE :: u32 where "HTC_EP_ACTIVE = push_bit 31 1"

lemma HTC_EP_ACTIVE_nonzero [simp]: "HTC_EP_ACTIVE \<noteq> 0"
  by (simp add: HTC_EP_ACTIVE_def)

record htc_endpoint_credit_dist =
  svc_id_cd :: nat
  endpoint_cd :: nat
  dist_flags :: u32
  cred_norm :: int
  cred_min :: int
  cred_assngd :: int
  credits :: int
  cred_to_dist :: int
  seek_cred :: int
  cred_sz :: int
  cred_per_msg :: int
  txq_depth :: int
  cred_alloc_max :: int

type_synonym dists = "nat \<Rightarrow> htc_endpoint_credit_dist"

text \<open>
  \<open>lowestpri_ep_dist\<close> is a copy of the list head taken after the whole list was walked; a
  reverse walk from it visits the same nodes, last first.  It is kept as the list itself.
\<close>

record ath6kl_htc_credit_info =
  total_avail_credits :: int
  cur_free_credits :: int
  lowestpri_ep_dist :: "nat list"

datatype htc_credit_dist_reason =
  HTC_CREDIT_DIST_SEND_COMPLETE | HTC_CREDIT_DIST_ACTIVITY_CHANGE | HTC_CREDIT_DIST_SEEK_CREDITS

type_synonym pool = "ath6kl_htc_credit_info \<times> dists"

section \<open>Operations\<close>

definition ath6kl_credit_deposit :: "ath6kl_htc_credit_info \<Rightarrow> dists \<Rightarrow> nat \<Rightarrow> int \<Rightarrow> pool" where
  "ath6kl_credit_deposit ci ds e n =
     (ci\<lparr>cur_free_credits := cur_free_credits ci - n\<rparr>,
      ds(e := (ds e)\<lparr>credits := credits (ds e) + n, cred_assngd := cred_assngd (ds e) + n\<rparr>))"

definition ath6kl_credit_reduce :: "ath6kl_htc_credit_info \<Rightarrow> dists \<Rightarrow> nat \<Rightarrow> int \<Rightarrow> pool" where
  "ath6kl_credit_reduce ci ds e limit =
     (let ds1 = ds(e := (ds e)\<lparr>cred_assngd := limit\<rparr>) in
      if credits (ds1 e) \<le> limit then (ci, ds1)
      else let n = credits (ds1 e) - limit in
        (ci\<lparr>cur_free_credits := cur_free_credits ci + n\<rparr>,
         ds1(e := (ds1 e)\<lparr>credits := credits (ds1 e) - n\<rparr>)))"

text \<open>First loop of \<open>ath6kl_credit_init\<close>: minimums, and the initial deposits.\<close>

fun credit_init_deposits :: "int \<Rightarrow> ath6kl_htc_credit_info \<Rightarrow> dists \<Rightarrow> nat list \<Rightarrow> pool" where
  "credit_init_deposits tot ci ds [] = (ci, ds)"
| "credit_init_deposits tot ci ds (e # es) =
     (if endpoint_cd (ds e) = 0 then credit_init_deposits tot ci ds es
      else
        let ds1 = ds(e := (ds e)\<lparr>cred_min := cred_per_msg (ds e)\<rparr>);
            (ci2, ds2) =
              (if 4 < tot \<and> (svc_id_cd (ds1 e) = WMI_DATA_BK_SVC \<or> svc_id_cd (ds1 e) = WMI_DATA_BE_SVC)
               then let (c, d) = ath6kl_credit_deposit ci ds1 e (cred_min (ds1 e)) in
                      (c, d(e := (d e)\<lparr>dist_flags := set_flag (dist_flags (d e)) HTC_EP_ACTIVE\<rparr>))
               else (ci, ds1));
            (ci3, ds3) =
              (if svc_id_cd (ds2 e) = WMI_CONTROL_SVC
               then let (c, d) = ath6kl_credit_deposit ci2 ds2 e (cred_min (ds2 e)) in
                      (c, d(e := (d e)\<lparr>dist_flags := set_flag (dist_flags (d e)) HTC_EP_ACTIVE\<rparr>))
               else (ci2, ds2))
        in credit_init_deposits tot ci3 ds3 es)"

text \<open>
  Second loop: the normal share.  \<open>/\<close> is C division, which truncates; \<open>>> 2\<close> is an arithmetic
  shift.
\<close>

definition credit_norm_share :: "int \<Rightarrow> int \<Rightarrow> int" where
  "credit_norm_share free per_msg =
     (let count = (free sdiv per_msg) * per_msg;
          count = drop_bit 2 (count * 3)
      in max count per_msg)"

fun credit_init_norms :: "ath6kl_htc_credit_info \<Rightarrow> dists \<Rightarrow> nat list \<Rightarrow> dists" where
  "credit_init_norms ci ds [] = ds"
| "credit_init_norms ci ds (e # es) =
     (if endpoint_cd (ds e) = 0 then credit_init_norms ci ds es
      else credit_init_norms ci
        (ds(e := (ds e)\<lparr>cred_norm :=
            (if svc_id_cd (ds e) = WMI_CONTROL_SVC then cred_per_msg (ds e)
             else credit_norm_share (cur_free_credits ci) (cred_per_msg (ds e)))\<rparr>)) es)"

definition ath6kl_credit_init :: "ath6kl_htc_credit_info \<Rightarrow> dists \<Rightarrow> nat list \<Rightarrow> int \<Rightarrow> pool" where
  "ath6kl_credit_init ci ds ep_list tot =
     (let ci0 = ci\<lparr>cur_free_credits := tot, total_avail_credits := tot\<rparr>;
          (ci1, ds1) = credit_init_deposits tot ci0 ds ep_list;
          ci2 = ci1\<lparr>lowestpri_ep_dist := ep_list\<rparr>
      in (ci2, credit_init_norms ci2 ds1 ep_list))"

text \<open>One iteration of \<open>ath6kl_credit_update\<close>.\<close>

definition credit_update_one :: "ath6kl_htc_credit_info \<Rightarrow> dists \<Rightarrow> nat \<Rightarrow> pool" where
  "credit_update_one ci ds e =
     (if endpoint_cd (ds e) = 0 then (ci, ds)
      else if cred_to_dist (ds e) > 0 then
        let ds1 = ds(e := (ds e)\<lparr>credits := credits (ds e) + cred_to_dist (ds e), cred_to_dist := 0\<rparr>);
            (ci2, ds2) = (if credits (ds1 e) > cred_assngd (ds1 e)
                          then ath6kl_credit_reduce ci ds1 e (cred_assngd (ds1 e)) else (ci, ds1));
            (ci3, ds3) = (if credits (ds2 e) > cred_norm (ds2 e)
                          then ath6kl_credit_reduce ci2 ds2 e (cred_norm (ds2 e)) else (ci2, ds2))
        in if \<not> has_flag (dist_flags (ds3 e)) HTC_EP_ACTIVE \<and> txq_depth (ds3 e) = 0
           then ath6kl_credit_reduce ci3 ds3 e 0
           else (ci3, ds3)
      else (ci, ds))"

fun ath6kl_credit_update :: "ath6kl_htc_credit_info \<Rightarrow> dists \<Rightarrow> nat list \<Rightarrow> pool" where
  "ath6kl_credit_update ci ds [] = (ci, ds)"
| "ath6kl_credit_update ci ds (e # es) =
     (let (ci1, ds1) = credit_update_one ci ds e in ath6kl_credit_update ci1 ds1 es)"

text \<open>
  The reverse walk of \<open>ath6kl_credit_seek\<close> for endpoint \<open>ep\<close>, over the nodes from lowest to
  highest priority.  Its three exits are the three \<open>break\<close>s.
\<close>

fun credit_seek_walk :: "nat \<Rightarrow> ath6kl_htc_credit_info \<Rightarrow> dists \<Rightarrow> nat list \<Rightarrow> pool" where
  "credit_seek_walk ep ci ds [] = (ci, ds)"
| "credit_seek_walk ep ci ds (c # cs) =
     (if c = ep then (ci, ds)
      else
        let need = seek_cred (ds ep) - cur_free_credits ci in
        if cred_assngd (ds c) - need \<ge> cred_min (ds c) then
          (let (ci1, ds1) = ath6kl_credit_reduce ci ds c (cred_assngd (ds c) - need) in
           if cur_free_credits ci1 \<ge> seek_cred (ds1 ep) then (ci1, ds1)
           else if endpoint_cd (ds1 c) = 0 then (ci1, ds1)
           else credit_seek_walk ep ci1 ds1 cs)
        else if endpoint_cd (ds c) = 0 then (ci, ds)
        else credit_seek_walk ep ci ds cs)"

text \<open>The label \<open>out\<close> of \<open>ath6kl_credit_seek\<close>.\<close>

definition credit_seek_out :: "ath6kl_htc_credit_info \<Rightarrow> dists \<Rightarrow> nat \<Rightarrow> int \<Rightarrow> pool" where
  "credit_seek_out ci ds ep n =
     (let (ci1, ds1) = (if n \<noteq> 0 then ath6kl_credit_deposit ci ds ep n else (ci, ds))
      in (ci1, ds1(ep := (ds1 ep)\<lparr>seek_cred := 0\<rparr>)))"

definition ath6kl_credit_seek :: "ath6kl_htc_credit_info \<Rightarrow> dists \<Rightarrow> nat \<Rightarrow> pool" where
  "ath6kl_credit_seek ci ds ep =
     (if svc_id_cd (ds ep) = WMI_CONTROL_SVC then credit_seek_out ci ds ep 0
      else if svc_id_cd (ds ep) = WMI_DATA_VI_SVC \<and> cred_alloc_max (ds ep) \<noteq> 0
              \<and> cred_assngd (ds ep) \<ge> cred_alloc_max (ds ep) then credit_seek_out ci ds ep 0
      else if svc_id_cd (ds ep) = WMI_DATA_VI_SVC \<and> cred_assngd (ds ep) \<ge> cred_norm (ds ep)
           then credit_seek_out ci ds ep 0
      else
        let n = min (cur_free_credits ci) (seek_cred (ds ep)) in
        if n \<ge> seek_cred (ds ep) then credit_seek_out ci ds ep n
        else
          let (ci1, ds1) = credit_seek_walk ep ci ds (rev (lowestpri_ep_dist ci)) in
          credit_seek_out ci1 ds1 ep (min (cur_free_credits ci1) (seek_cred (ds1 ep))))"

definition credit_redistribute_one :: "ath6kl_htc_credit_info \<Rightarrow> dists \<Rightarrow> nat \<Rightarrow> pool" where
  "credit_redistribute_one ci ds e =
     (if endpoint_cd (ds e) = 0 then (ci, ds)
      else
        let ds1 = (if svc_id_cd (ds e) = WMI_DATA_BK_SVC \<or> svc_id_cd (ds e) = WMI_DATA_BE_SVC
                   then ds(e := (ds e)\<lparr>dist_flags := set_flag (dist_flags (ds e)) HTC_EP_ACTIVE\<rparr>)
                   else ds)
        in if svc_id_cd (ds1 e) \<noteq> WMI_CONTROL_SVC \<and> \<not> has_flag (dist_flags (ds1 e)) HTC_EP_ACTIVE
           then ath6kl_credit_reduce ci ds1 e (if txq_depth (ds1 e) = 0 then 0 else cred_min (ds1 e))
           else (ci, ds1))"

fun ath6kl_credit_redistribute :: "ath6kl_htc_credit_info \<Rightarrow> dists \<Rightarrow> nat list \<Rightarrow> pool" where
  "ath6kl_credit_redistribute ci ds [] = (ci, ds)"
| "ath6kl_credit_redistribute ci ds (e # es) =
     (let (ci1, ds1) = credit_redistribute_one ci ds e in ath6kl_credit_redistribute ci1 ds1 es)"

fun ath6kl_credit_distribute ::
    "ath6kl_htc_credit_info \<Rightarrow> dists \<Rightarrow> nat list \<Rightarrow> htc_credit_dist_reason \<Rightarrow> pool" where
  "ath6kl_credit_distribute ci ds es HTC_CREDIT_DIST_SEND_COMPLETE = ath6kl_credit_update ci ds es"
| "ath6kl_credit_distribute ci ds es HTC_CREDIT_DIST_ACTIVITY_CHANGE =
     ath6kl_credit_redistribute ci ds es"
| "ath6kl_credit_distribute ci ds es HTC_CREDIT_DIST_SEEK_CREDITS = (ci, ds)"

section \<open>The credit ledger\<close>

text \<open>
  What the host owns: the free pool plus, for every endpoint of the list, the credits it may
  spend and those reported back but not yet distributed.  Credits only leave the ledger when
  a packet consumes them and only enter it when the target reports them (or a failed send
  reclaims them); moving them between endpoints never changes it.
\<close>

definition cr_of :: "htc_endpoint_credit_dist \<Rightarrow> int" where
  "cr_of d = credits d + cred_to_dist d"

definition credit_ledger :: "ath6kl_htc_credit_info \<Rightarrow> dists \<Rightarrow> nat list \<Rightarrow> int" where
  "credit_ledger ci ds es = cur_free_credits ci + (\<Sum>e\<leftarrow>es. cr_of (ds e))"

definition dist_ok :: "htc_endpoint_credit_dist \<Rightarrow> bool" where
  "dist_ok d \<longleftrightarrow> 0 \<le> credits d \<and> 0 \<le> cred_to_dist d \<and> 0 \<le> cred_min d \<and> 0 \<le> cred_assngd d \<and> 0 \<le> cred_norm d"

definition credit_ok :: "ath6kl_htc_credit_info \<Rightarrow> dists \<Rightarrow> nat list \<Rightarrow> bool" where
  "credit_ok ci ds es \<longleftrightarrow> distinct es \<and> 0 \<le> cur_free_credits ci \<and> (\<forall>e\<in>set es. dist_ok (ds e))
     \<and> set (lowestpri_ep_dist ci) \<subseteq> set es"

lemmas credit_op_defs = ath6kl_credit_deposit_def ath6kl_credit_reduce_def Let_def

lemma ledger_upd:
  "distinct es \<Longrightarrow> e \<in> set es \<Longrightarrow>
   credit_ledger ci (ds(e := d)) es = credit_ledger ci ds es + cr_of d - cr_of (ds e)"
  using sum_list_map_fun_upd [of es cr_of ds e d] by (simp add: credit_ledger_def)

lemma ledger_free:
  "credit_ledger (ci\<lparr>cur_free_credits := n\<rparr>) ds es = credit_ledger ci ds es + n - cur_free_credits ci"
  by (simp add: credit_ledger_def)

lemma credit_okD:
  assumes "credit_ok ci ds es"
  shows "distinct es" "0 \<le> cur_free_credits ci" "e \<in> set es \<Longrightarrow> dist_ok (ds e)"
    "set (lowestpri_ep_dist ci) \<subseteq> set es"
  using assms by (auto simp: credit_ok_def)

lemma credit_ok_upd:
  "credit_ok ci ds es \<Longrightarrow> dist_ok d \<Longrightarrow> credit_ok ci (ds(e := d)) es"
  by (simp add: credit_ok_def)

lemma deposit_ledger:
  assumes "distinct es" "e \<in> set es" "ath6kl_credit_deposit ci ds e n = (ci', ds')"
  shows "credit_ledger ci' ds' es = credit_ledger ci ds es"
  using assms by (auto simp: ath6kl_credit_deposit_def ledger_upd ledger_free cr_of_def)

lemma deposit_ok:
  assumes "credit_ok ci ds es" "e \<in> set es" "0 \<le> n" "n \<le> cur_free_credits ci"
    "ath6kl_credit_deposit ci ds e n = (ci', ds')"
  shows "credit_ok ci' ds' es"
  using assms by (auto simp: ath6kl_credit_deposit_def credit_ok_def dist_ok_def)

lemma reduce_ledger:
  assumes "credit_ok ci ds es" "e \<in> set es" "ath6kl_credit_reduce ci ds e limit = (ci', ds')"
  shows "credit_ledger ci' ds' es = credit_ledger ci ds es"
  using assms
  by (auto simp: ath6kl_credit_reduce_def Let_def ledger_upd ledger_free cr_of_def credit_okD
      simp del: fun_upd_apply split: if_splits) (auto simp: ledger_upd ledger_free cr_of_def credit_okD)

lemma reduce_ok:
  assumes "credit_ok ci ds es" "e \<in> set es" "0 \<le> limit" "ath6kl_credit_reduce ci ds e limit = (ci', ds')"
  shows "credit_ok ci' ds' es"
  using assms by (auto simp: ath6kl_credit_reduce_def Let_def credit_ok_def dist_ok_def split: if_splits)

text \<open>What a reduction touches: the endpoint itself, never the fields that configure it.\<close>

lemma reduce_frame:
  assumes "ath6kl_credit_reduce ci ds e limit = (ci', ds')"
  shows "f \<noteq> e \<Longrightarrow> ds' f = ds f"
    "cred_assngd (ds' e) = limit" "credits (ds' e) = min (credits (ds e)) limit"
    "cred_to_dist (ds' e) = cred_to_dist (ds e)"
    "cred_min (ds' e) = cred_min (ds e)" "cred_norm (ds' e) = cred_norm (ds e)"
    "endpoint_cd (ds' e) = endpoint_cd (ds e)" "svc_id_cd (ds' e) = svc_id_cd (ds e)"
    "seek_cred (ds' e) = seek_cred (ds e)" "dist_flags (ds' e) = dist_flags (ds e)"
    "txq_depth (ds' e) = txq_depth (ds e)"
    "cur_free_credits ci' = cur_free_credits ci + (credits (ds e) - credits (ds' e))"
    "total_avail_credits ci' = total_avail_credits ci"
    "lowestpri_ep_dist ci' = lowestpri_ep_dist ci"
  using assms by (auto simp: ath6kl_credit_reduce_def Let_def split: if_splits)

text \<open>A reduction that is only made when a test holds, as the code makes most of them.\<close>

lemma reduce_if_keeps:
  assumes ok: "credit_ok ci ds es" and e: "e \<in> set es" and lim: "c \<Longrightarrow> 0 \<le> limit"
    and r: "(if c then ath6kl_credit_reduce ci ds e limit else (ci, ds)) = (ci', ds')"
  shows "credit_ok ci' ds' es" "credit_ledger ci' ds' es = credit_ledger ci ds es"
    "cur_free_credits ci \<le> cur_free_credits ci'" "total_avail_credits ci' = total_avail_credits ci"
    "lowestpri_ep_dist ci' = lowestpri_ep_dist ci"
proof -
  show "credit_ok ci' ds' es" using r reduce_ok [OF ok e lim] ok by (auto split: if_splits)
  show "credit_ledger ci' ds' es = credit_ledger ci ds es"
    using r reduce_ledger [OF ok e] by (auto split: if_splits)
  show "cur_free_credits ci \<le> cur_free_credits ci'"
  proof (cases c)
    case True
    with r have "ath6kl_credit_reduce ci ds e limit = (ci', ds')" by simp
    from reduce_frame(12,3) [OF this] show ?thesis by simp
  qed (use r in simp)
  show "total_avail_credits ci' = total_avail_credits ci"
    using r reduce_frame(13) by (auto split: if_splits)
  show "lowestpri_ep_dist ci' = lowestpri_ep_dist ci"
    using r reduce_frame(14) by (auto split: if_splits)
qed

lemma reduce_if_frame:
  assumes "(if c then ath6kl_credit_reduce ci ds e limit else (ci, ds)) = (ci', ds')"
  shows "f \<noteq> e \<Longrightarrow> ds' f = ds f"
    "credits (ds' e) = (if c then min (credits (ds e)) limit else credits (ds e))"
    "cred_assngd (ds' e) = (if c then limit else cred_assngd (ds e))"
    "cred_to_dist (ds' e) = cred_to_dist (ds e)" "cred_norm (ds' e) = cred_norm (ds e)"
    "endpoint_cd (ds' e) = endpoint_cd (ds e)" "svc_id_cd (ds' e) = svc_id_cd (ds e)"
    "cred_min (ds' e) = cred_min (ds e)" "dist_flags (ds' e) = dist_flags (ds e)"
    "txq_depth (ds' e) = txq_depth (ds e)"
  using assms reduce_frame [of ci ds e limit ci' ds'] by (auto split: if_splits)

section \<open>Redistributing reported credits\<close>

text \<open>What one iteration of the update loop leaves behind for its endpoint.\<close>

definition updated_ok :: "htc_endpoint_credit_dist \<Rightarrow> bool" where
  "updated_ok d \<longleftrightarrow> cred_to_dist d = 0 \<and> credits d \<le> cred_assngd d \<and>
     credits d \<le> max 0 (cred_norm d) \<and>
     (\<not> has_flag (dist_flags d) HTC_EP_ACTIVE \<and> txq_depth d = 0 \<longrightarrow> credits d = 0 \<and> cred_assngd d = 0)"

lemma credit_update_one_keeps:
  assumes ok: "credit_ok ci ds es" and e: "e \<in> set es"
    and u: "credit_update_one ci ds e = (ci', ds')"
  shows "credit_ok ci' ds' es" "credit_ledger ci' ds' es = credit_ledger ci ds es"
    "total_avail_credits ci' = total_avail_credits ci"
    "f \<noteq> e \<Longrightarrow> ds' f = ds f"
    "endpoint_cd (ds e) \<noteq> 0 \<Longrightarrow> 0 < cred_to_dist (ds e) \<Longrightarrow> updated_ok (ds' e)"
    "endpoint_cd (ds e) = 0 \<or> cred_to_dist (ds e) \<le> 0 \<Longrightarrow> ci' = ci \<and> ds' = ds"
    "endpoint_cd (ds' e) = endpoint_cd (ds e)"
proof -
  have "credit_ok ci' ds' es \<and> credit_ledger ci' ds' es = credit_ledger ci ds es
      \<and> total_avail_credits ci' = total_avail_credits ci
      \<and> (f \<noteq> e \<longrightarrow> ds' f = ds f)
      \<and> (endpoint_cd (ds e) \<noteq> 0 \<and> 0 < cred_to_dist (ds e) \<longrightarrow> updated_ok (ds' e))
      \<and> endpoint_cd (ds' e) = endpoint_cd (ds e)"
  proof (cases "endpoint_cd (ds e) \<noteq> 0 \<and> 0 < cred_to_dist (ds e)")
    case False
    then have "ci' = ci \<and> ds' = ds"
      using u by (cases "endpoint_cd (ds e) = 0") (simp_all add: credit_update_one_def)
    with False ok show ?thesis by auto
  next
    case True
    define ds1 where "ds1 = ds(e := (ds e)\<lparr>credits := credits (ds e) + cred_to_dist (ds e), cred_to_dist := 0\<rparr>)"
    have d: "dist_ok (ds e)" by (rule credit_okD(3) [OF ok e])
    have ok1: "credit_ok ci ds1 es"
      unfolding ds1_def using d by (intro credit_ok_upd [OF ok]) (simp add: dist_ok_def)
    have l1: "credit_ledger ci ds1 es = credit_ledger ci ds es"
      unfolding ds1_def by (simp add: ledger_upd credit_okD(1) [OF ok] e cr_of_def)
    obtain ci2 ds2 where r2: "(if credits (ds1 e) > cred_assngd (ds1 e)
        then ath6kl_credit_reduce ci ds1 e (cred_assngd (ds1 e)) else (ci, ds1)) = (ci2, ds2)"
      by fastforce
    have d1: "dist_ok (ds1 e)" by (rule credit_okD(3) [OF ok1 e])
    have k2: "credit_ok ci2 ds2 es" "credit_ledger ci2 ds2 es = credit_ledger ci ds1 es"
        "total_avail_credits ci2 = total_avail_credits ci"
      using reduce_if_keeps [OF ok1 e _ r2] d1 by (auto simp: dist_ok_def)
    have d2: "dist_ok (ds2 e)" by (rule credit_okD(3) [OF k2(1) e])
    obtain ci3 ds3 where r3: "(if credits (ds2 e) > cred_norm (ds2 e)
        then ath6kl_credit_reduce ci2 ds2 e (cred_norm (ds2 e)) else (ci2, ds2)) = (ci3, ds3)"
      by fastforce
    have k3: "credit_ok ci3 ds3 es" "credit_ledger ci3 ds3 es = credit_ledger ci2 ds2 es"
        "total_avail_credits ci3 = total_avail_credits ci2"
      using reduce_if_keeps [OF k2(1) e _ r3] d2 by (auto simp: dist_ok_def)
    have r4: "(if \<not> has_flag (dist_flags (ds3 e)) HTC_EP_ACTIVE \<and> txq_depth (ds3 e) = 0
        then ath6kl_credit_reduce ci3 ds3 e 0 else (ci3, ds3)) = (ci', ds')"
      using u True unfolding credit_update_one_def Let_def ds1_def [symmetric] r2 prod.case r3
      by (simp only: if_True if_False simp_thms)
    have k4: "credit_ok ci' ds' es" "credit_ledger ci' ds' es = credit_ledger ci3 ds3 es"
        "total_avail_credits ci' = total_avail_credits ci3"
      using reduce_if_keeps [OF k3(1) e _ r4] by auto
    have upd: "updated_ok (ds' e)"
      unfolding updated_ok_def using d2
      by (auto simp: reduce_if_frame [OF r4] reduce_if_frame [OF r3] reduce_if_frame [OF r2] ds1_def dist_ok_def)
    have ep: "endpoint_cd (ds' e) = endpoint_cd (ds e)"
      by (simp add: reduce_if_frame [OF r4] reduce_if_frame [OF r3] reduce_if_frame [OF r2] ds1_def)
    have fr: "f \<noteq> e \<longrightarrow> ds' f = ds f"
      by (simp add: reduce_if_frame [OF r4] reduce_if_frame [OF r3] reduce_if_frame [OF r2] ds1_def)
    show ?thesis using k4 k3 k2 l1 upd ep fr by simp
  qed
  then show "credit_ok ci' ds' es" "credit_ledger ci' ds' es = credit_ledger ci ds es"
    "total_avail_credits ci' = total_avail_credits ci" "f \<noteq> e \<Longrightarrow> ds' f = ds f"
    "endpoint_cd (ds e) \<noteq> 0 \<Longrightarrow> 0 < cred_to_dist (ds e) \<Longrightarrow> updated_ok (ds' e)"
    "endpoint_cd (ds' e) = endpoint_cd (ds e)"
    by blast+
  show "endpoint_cd (ds e) = 0 \<or> cred_to_dist (ds e) \<le> 0 \<Longrightarrow> ci' = ci \<and> ds' = ds"
    using u by (cases "endpoint_cd (ds e) = 0") (simp_all add: credit_update_one_def)
qed

lemma credit_update_keeps:
  assumes "credit_ok ci ds es" "set fs \<subseteq> set es" "distinct fs" "ath6kl_credit_update ci ds fs = (ci', ds')"
  shows "credit_ok ci' ds' es \<and> credit_ledger ci' ds' es = credit_ledger ci ds es
    \<and> total_avail_credits ci' = total_avail_credits ci \<and> (\<forall>f. f \<notin> set fs \<longrightarrow> ds' f = ds f)
    \<and> (\<forall>e\<in>set fs. endpoint_cd (ds e) \<noteq> 0 \<and> 0 < cred_to_dist (ds e) \<longrightarrow> updated_ok (ds' e))
    \<and> (\<forall>e\<in>set fs. endpoint_cd (ds e) = 0 \<or> cred_to_dist (ds e) \<le> 0 \<longrightarrow> ds' e = ds e)"
  using assms
proof (induction fs arbitrary: ci ds)
  case Nil
  then show ?case by simp
next
  case (Cons e fs)
  obtain ci1 ds1 where u: "credit_update_one ci ds e = (ci1, ds1)" by fastforce
  have e: "e \<in> set es" using Cons.prems(2) by simp
  note k = credit_update_one_keeps [OF Cons.prems(1) e u]
  have rest: "ath6kl_credit_update ci1 ds1 fs = (ci', ds')" using Cons.prems(4) u by simp
  have IH: "credit_ok ci' ds' es \<and> credit_ledger ci' ds' es = credit_ledger ci1 ds1 es
    \<and> total_avail_credits ci' = total_avail_credits ci1 \<and> (\<forall>f. f \<notin> set fs \<longrightarrow> ds' f = ds1 f)
    \<and> (\<forall>e\<in>set fs. endpoint_cd (ds1 e) \<noteq> 0 \<and> 0 < cred_to_dist (ds1 e) \<longrightarrow> updated_ok (ds' e))
    \<and> (\<forall>e\<in>set fs. endpoint_cd (ds1 e) = 0 \<or> cred_to_dist (ds1 e) \<le> 0 \<longrightarrow> ds' e = ds1 e)"
    using Cons.IH [OF k(1) _ _ rest] Cons.prems(2,3) by simp
  have ne: "e \<notin> set fs" using Cons.prems(3) by simp
  then have ds'e: "ds' e = ds1 e" using IH by blast
  have other: "\<And>f. f \<noteq> e \<Longrightarrow> ds1 f = ds f" by (rule k(4))
  show ?case
    using IH k(2,3) k(5,6) ds'e other ne by (auto split: if_splits) (metis+)
qed

section \<open>Seeking credits\<close>

text \<open>
  Rule 2 of the code's comment: nothing is taken below an endpoint's floor.  The walk keeps
  \<open>cred_min \<le> cred_assngd\<close> for every endpoint that had it, lowers no other field, and only
  touches endpoints of lower priority: those that the reverse walk meets before the seeker.
\<close>

definition lower_priority :: "nat list \<Rightarrow> nat \<Rightarrow> nat set" where
  "lower_priority es ep = set (takeWhile (\<lambda>c. c \<noteq> ep) (rev es))"

lemma credit_seek_walk_keeps:
  assumes "credit_ok ci ds es" "set cs \<subseteq> set es" "cur_free_credits ci < seek_cred (ds ep)"
    "credit_seek_walk ep ci ds cs = (ci', ds')"
  shows "credit_ok ci' ds' es \<and> credit_ledger ci' ds' es = credit_ledger ci ds es
    \<and> total_avail_credits ci' = total_avail_credits ci \<and> lowestpri_ep_dist ci' = lowestpri_ep_dist ci
    \<and> cur_free_credits ci \<le> cur_free_credits ci' \<and> ds' ep = ds ep
    \<and> (\<forall>f. f \<notin> set (takeWhile (\<lambda>c. c \<noteq> ep) cs) \<longrightarrow> ds' f = ds f)
    \<and> (\<forall>f. cred_min (ds f) \<le> cred_assngd (ds f) \<longrightarrow> cred_min (ds f) \<le> cred_assngd (ds' f))
    \<and> (\<forall>f. credits (ds' f) \<le> credits (ds f) \<and> cred_to_dist (ds' f) = cred_to_dist (ds f)
          \<and> cred_min (ds' f) = cred_min (ds f) \<and> cred_norm (ds' f) = cred_norm (ds f)
          \<and> svc_id_cd (ds' f) = svc_id_cd (ds f) \<and> endpoint_cd (ds' f) = endpoint_cd (ds f))"
  using assms
proof (induction cs arbitrary: ci ds)
  case Nil
  then show ?case by simp
next
  case (Cons c cs)
  show ?case
  proof (cases "c = ep")
    case True
    with Cons.prems show ?thesis by simp
  next
    case False
    define need where "need = seek_cred (ds ep) - cur_free_credits ci"
    have c: "c \<in> set es" using Cons.prems(2) by simp
    show ?thesis
    proof (cases "cred_assngd (ds c) - need \<ge> cred_min (ds c)")
      case False
      then show ?thesis
        using Cons.prems Cons.IH [OF Cons.prems(1) _ Cons.prems(3)] \<open>c \<noteq> ep\<close>
        by (auto simp: need_def split: if_splits)
    next
      case True
      obtain ci1 ds1 where r: "ath6kl_credit_reduce ci ds c (cred_assngd (ds c) - need) = (ci1, ds1)"
        by fastforce
      have lim: "0 \<le> cred_assngd (ds c) - need"
        using True credit_okD(3) [OF Cons.prems(1) c] by (simp add: dist_ok_def)
      have ok1: "credit_ok ci1 ds1 es" by (rule reduce_ok [OF Cons.prems(1) c lim r])
      have l1: "credit_ledger ci1 ds1 es = credit_ledger ci ds es" by (rule reduce_ledger [OF Cons.prems(1) c r])
      note fr = reduce_frame [OF r]
      have ep1: "ds1 ep = ds ep" using fr(1) \<open>c \<noteq> ep\<close> by metis
      have mono: "\<And>f. credits (ds1 f) \<le> credits (ds f) \<and> cred_to_dist (ds1 f) = cred_to_dist (ds f)
          \<and> cred_min (ds1 f) = cred_min (ds f) \<and> cred_norm (ds1 f) = cred_norm (ds f)
          \<and> svc_id_cd (ds1 f) = svc_id_cd (ds f) \<and> endpoint_cd (ds1 f) = endpoint_cd (ds f)"
        using fr by (metis min.cobounded1 order_refl)
      have floor: "\<And>f. cred_min (ds f) \<le> cred_assngd (ds f) \<Longrightarrow> cred_min (ds f) \<le> cred_assngd (ds1 f)"
        using fr(1,2) True by metis
      have free1: "cur_free_credits ci \<le> cur_free_credits ci1" using fr(12) mono [of c] by linarith
      have step: "credit_seek_walk ep ci ds (c # cs) =
          (if cur_free_credits ci1 \<ge> seek_cred (ds1 ep) then (ci1, ds1)
           else if endpoint_cd (ds1 c) = 0 then (ci1, ds1) else credit_seek_walk ep ci1 ds1 cs)"
        using True \<open>c \<noteq> ep\<close> r by (simp add: need_def)
      show ?thesis
      proof (cases "cur_free_credits ci1 \<ge> seek_cred (ds1 ep) \<or> endpoint_cd (ds1 c) = 0")
        case True
        then have "ci' = ci1" "ds' = ds1" using step Cons.prems(4) by (auto split: if_splits)
        then show ?thesis using ok1 l1 fr ep1 mono floor free1 \<open>c \<noteq> ep\<close> by (simp split: if_splits)
      next
        case False
        then have w: "credit_seek_walk ep ci1 ds1 cs = (ci', ds')" using step Cons.prems(4) by simp
        have lt: "cur_free_credits ci1 < seek_cred (ds1 ep)" using False by simp
        note IH = Cons.IH [OF ok1 _ lt w]
        have IH': "credit_ok ci' ds' es" "credit_ledger ci' ds' es = credit_ledger ci1 ds1 es"
          "total_avail_credits ci' = total_avail_credits ci1" "lowestpri_ep_dist ci' = lowestpri_ep_dist ci1"
          "cur_free_credits ci1 \<le> cur_free_credits ci'" "ds' ep = ds1 ep"
          "\<And>f. f \<notin> set (takeWhile (\<lambda>c. c \<noteq> ep) cs) \<Longrightarrow> ds' f = ds1 f"
          "\<And>f. cred_min (ds1 f) \<le> cred_assngd (ds1 f) \<Longrightarrow> cred_min (ds1 f) \<le> cred_assngd (ds' f)"
          "\<And>f. credits (ds' f) \<le> credits (ds1 f) \<and> cred_to_dist (ds' f) = cred_to_dist (ds1 f)
            \<and> cred_min (ds' f) = cred_min (ds1 f) \<and> cred_norm (ds' f) = cred_norm (ds1 f)
            \<and> svc_id_cd (ds' f) = svc_id_cd (ds1 f) \<and> endpoint_cd (ds' f) = endpoint_cd (ds1 f)"
          using IH Cons.prems(2) by auto
        have F: "\<And>f. f \<notin> set (takeWhile (\<lambda>c. c \<noteq> ep) (c # cs)) \<Longrightarrow> ds' f = ds f"
          using IH'(7) fr(1) \<open>c \<noteq> ep\<close> by auto
        have M: "\<And>f. cred_min (ds f) \<le> cred_assngd (ds f) \<Longrightarrow> cred_min (ds f) \<le> cred_assngd (ds' f)"
          using IH'(8) floor mono by metis
        have Q: "\<And>f. credits (ds' f) \<le> credits (ds f) \<and> cred_to_dist (ds' f) = cred_to_dist (ds f)
            \<and> cred_min (ds' f) = cred_min (ds f) \<and> cred_norm (ds' f) = cred_norm (ds f)
            \<and> svc_id_cd (ds' f) = svc_id_cd (ds f) \<and> endpoint_cd (ds' f) = endpoint_cd (ds f)"
          using IH'(9) mono by (metis order_trans)
        show ?thesis using IH'(1-6) l1 fr(13,14) ep1 free1 F M Q by auto
      qed
    qed
  qed
qed

text \<open>
  The C walk has no test for the list head: it relies on meeting the seeker or endpoint 0.
  When the nodes hold either, what follows them is irrelevant, so the walk never runs off.
\<close>

lemma credit_seek_walk_stops:
  "\<exists>c\<in>set cs. c = ep \<or> endpoint_cd (ds c) = 0 \<Longrightarrow>
   credit_seek_walk ep ci ds (cs @ rest) = credit_seek_walk ep ci ds cs"
proof (induction cs arbitrary: ci ds)
  case Nil
  then show ?case by simp
next
  case (Cons c cs)
  have ep: "endpoint_cd (snd (ath6kl_credit_reduce ci ds d n) f) = endpoint_cd (ds f)" for d n f
    using reduce_frame(1,7) [of ci ds d n] by (metis prod.collapse)
  show ?case
  proof (cases "c = ep \<or> endpoint_cd (ds c) = 0")
    case True
    then show ?thesis
      using ep [of c "cred_assngd (ds c) - (seek_cred (ds ep) - cur_free_credits ci)" c]
      by (auto simp: Let_def split: prod.splits)
  next
    case False
    then have ex: "\<exists>c\<in>set cs. c = ep \<or> endpoint_cd (ds c) = 0" using Cons.prems by auto
    have ex': "\<exists>c\<in>set cs. c = ep \<or> endpoint_cd (snd (ath6kl_credit_reduce ci ds d n) c) = 0" for d n
      using ex ep by metis
    show ?thesis
      using False Cons.IH [OF ex] Cons.IH [OF ex', of "fst (ath6kl_credit_reduce ci ds c
          (cred_assngd (ds c) - (seek_cred (ds ep) - cur_free_credits ci)))"]
      by (auto simp: Let_def split: prod.splits) (metis fst_conv snd_conv)+
  qed
qed

lemma deposit_frame:
  assumes "ath6kl_credit_deposit ci ds e n = (ci', ds')"
  shows "f \<noteq> e \<Longrightarrow> ds' f = ds f"
    "ds' e = (ds e)\<lparr>credits := credits (ds e) + n, cred_assngd := cred_assngd (ds e) + n\<rparr>"
    "ci' = ci\<lparr>cur_free_credits := cur_free_credits ci - n\<rparr>"
  using assms by (auto simp: ath6kl_credit_deposit_def)

lemma credit_seek_out_keeps:
  assumes ok: "credit_ok ci ds es" and ep: "ep \<in> set es" and n: "0 \<le> n" "n \<le> cur_free_credits ci"
    and o: "credit_seek_out ci ds ep n = (ci', ds')"
  shows "credit_ok ci' ds' es" "credit_ledger ci' ds' es = credit_ledger ci ds es"
    "total_avail_credits ci' = total_avail_credits ci" "cur_free_credits ci' = cur_free_credits ci - n"
    "lowestpri_ep_dist ci' = lowestpri_ep_dist ci" "f \<noteq> ep \<Longrightarrow> ds' f = ds f"
    "ds' ep = (ds ep)\<lparr>credits := credits (ds ep) + n, cred_assngd := cred_assngd (ds ep) + n, seek_cred := 0\<rparr>"
proof -
  obtain ci1 ds1 where d: "(if n \<noteq> 0 then ath6kl_credit_deposit ci ds ep n else (ci, ds)) = (ci1, ds1)"
    by fastforce
  have d': "ath6kl_credit_deposit ci ds ep n = (ci1, ds1)"
    using d by (cases "n = 0") (auto simp: ath6kl_credit_deposit_def)
  have e: "ci' = ci1" "ds' = ds1(ep := (ds1 ep)\<lparr>seek_cred := 0\<rparr>)"
    using o d by (simp_all add: credit_seek_out_def)
  note fr = deposit_frame [OF d']
  have ok1: "credit_ok ci1 ds1 es" by (rule deposit_ok [OF ok ep n d'])
  show "credit_ok ci' ds' es"
    unfolding e using credit_okD(3) [OF ok1 ep] by (intro credit_ok_upd [OF ok1]) (simp add: dist_ok_def)
  have "credit_ledger ci1 ds1 es = credit_ledger ci ds es"
    by (rule deposit_ledger [OF credit_okD(1) [OF ok] ep d'])
  then show "credit_ledger ci' ds' es = credit_ledger ci ds es"
    unfolding e by (simp add: ledger_upd credit_okD(1) [OF ok] ep cr_of_def)
  show "f \<noteq> ep \<Longrightarrow> ds' f = ds f" using fr(1) by (simp add: e)
  show "total_avail_credits ci' = total_avail_credits ci" "cur_free_credits ci' = cur_free_credits ci - n"
    "lowestpri_ep_dist ci' = lowestpri_ep_dist ci"
    "ds' ep = (ds ep)\<lparr>credits := credits (ds ep) + n, cred_assngd := cred_assngd (ds ep) + n, seek_cred := 0\<rparr>"
    by (simp_all add: e fr)
qed

text \<open>When the code refuses to look for credits at all.\<close>

definition seek_denied :: "htc_endpoint_credit_dist \<Rightarrow> bool" where
  "seek_denied d \<longleftrightarrow> svc_id_cd d = WMI_CONTROL_SVC \<or>
     svc_id_cd d = WMI_DATA_VI_SVC \<and>
       (cred_alloc_max d \<noteq> 0 \<and> cred_assngd d \<ge> cred_alloc_max d \<or> cred_assngd d \<ge> cred_norm d)"

lemma ath6kl_credit_seek_cases:
  "ath6kl_credit_seek ci ds ep =
     (if seek_denied (ds ep) then credit_seek_out ci ds ep 0
      else if cur_free_credits ci \<ge> seek_cred (ds ep) then credit_seek_out ci ds ep (seek_cred (ds ep))
      else let (ci1, ds1) = credit_seek_walk ep ci ds (rev (lowestpri_ep_dist ci))
           in credit_seek_out ci1 ds1 ep (min (cur_free_credits ci1) (seek_cred (ds1 ep))))"
  by (auto simp: ath6kl_credit_seek_def seek_denied_def Let_def min_def svc_defs)

lemma credit_seek_keeps:
  assumes ok: "credit_ok ci ds es" and ep: "ep \<in> set es" and need: "0 \<le> seek_cred (ds ep)"
    and s: "ath6kl_credit_seek ci ds ep = (ci', ds')"
  shows "credit_ok ci' ds' es \<and> credit_ledger ci' ds' es = credit_ledger ci ds es
    \<and> total_avail_credits ci' = total_avail_credits ci \<and> lowestpri_ep_dist ci' = lowestpri_ep_dist ci
    \<and> (\<exists>n. 0 \<le> n \<and> n \<le> seek_cred (ds ep)
        \<and> ds' ep = (ds ep)\<lparr>credits := credits (ds ep) + n, cred_assngd := cred_assngd (ds ep) + n, seek_cred := 0\<rparr>
        \<and> (n < seek_cred (ds ep) \<longrightarrow> seek_denied (ds ep) \<or> cur_free_credits ci' = 0))
    \<and> (\<forall>f. f \<noteq> ep \<and> f \<notin> lower_priority (lowestpri_ep_dist ci) ep \<longrightarrow> ds' f = ds f)
    \<and> (\<forall>f. f \<noteq> ep \<and> cred_min (ds f) \<le> cred_assngd (ds f) \<longrightarrow> cred_min (ds f) \<le> cred_assngd (ds' f))
    \<and> (\<forall>f. f \<noteq> ep \<longrightarrow> credits (ds' f) \<le> credits (ds f) \<and> cred_to_dist (ds' f) = cred_to_dist (ds f)
          \<and> cred_min (ds' f) = cred_min (ds f) \<and> endpoint_cd (ds' f) = endpoint_cd (ds f)
          \<and> svc_id_cd (ds' f) = svc_id_cd (ds f))"
proof (cases "seek_denied (ds ep) \<or> cur_free_credits ci \<ge> seek_cred (ds ep)")
  case True
  define n where "n = (if seek_denied (ds ep) then 0 else seek_cred (ds ep))"
  have o: "credit_seek_out ci ds ep n = (ci', ds')"
    using s True by (auto simp: ath6kl_credit_seek_cases n_def split: if_splits)
  have n: "0 \<le> n" "n \<le> cur_free_credits ci" "n \<le> seek_cred (ds ep)"
    "n < seek_cred (ds ep) \<longrightarrow> seek_denied (ds ep)"
    using True need credit_okD(2) [OF ok] by (auto simp: n_def)
  note k = credit_seek_out_keeps [OF ok ep n(1,2) o]
  show ?thesis
    by (intro conjI exI [of _ n]) (use k n in auto)
next
  case False
  obtain ci1 ds1 where w: "credit_seek_walk ep ci ds (rev (lowestpri_ep_dist ci)) = (ci1, ds1)"
    by fastforce
  define n where "n = min (cur_free_credits ci1) (seek_cred (ds1 ep))"
  have o: "credit_seek_out ci1 ds1 ep n = (ci', ds')"
    using s False w by (simp add: ath6kl_credit_seek_cases n_def)
  have "set (rev (lowestpri_ep_dist ci)) \<subseteq> set es" using credit_okD(4) [OF ok] by simp
  note wk = credit_seek_walk_keeps [OF ok this _ w]
  have ok1: "credit_ok ci1 ds1 es" and l1: "credit_ledger ci1 ds1 es = credit_ledger ci ds es"
    and t1: "total_avail_credits ci1 = total_avail_credits ci"
    and p1: "lowestpri_ep_dist ci1 = lowestpri_ep_dist ci" and e1: "ds1 ep = ds ep"
    and f1: "\<And>f. f \<notin> lower_priority (lowestpri_ep_dist ci) ep \<Longrightarrow> ds1 f = ds f"
    and m1: "\<And>f. cred_min (ds f) \<le> cred_assngd (ds f) \<Longrightarrow> cred_min (ds f) \<le> cred_assngd (ds1 f)"
    and q1: "\<And>f. credits (ds1 f) \<le> credits (ds f) \<and> cred_to_dist (ds1 f) = cred_to_dist (ds f)
          \<and> cred_min (ds1 f) = cred_min (ds f) \<and> endpoint_cd (ds1 f) = endpoint_cd (ds f)
          \<and> svc_id_cd (ds1 f) = svc_id_cd (ds f)"
    using wk False by (auto simp: lower_priority_def)
  have n: "0 \<le> n" "n \<le> cur_free_credits ci1" "n \<le> seek_cred (ds ep)"
    "n < seek_cred (ds ep) \<longrightarrow> n = cur_free_credits ci1"
    using need credit_okD(2) [OF ok1] e1 by (auto simp: n_def)
  note k = credit_seek_out_keeps [OF ok1 ep n(1,2) o]
  show ?thesis
    by (intro conjI exI [of _ n]) (use k n l1 t1 p1 e1 f1 m1 q1 in auto)
qed

section \<open>Redistributing on activity changes\<close>

lemma credit_redistribute_one_keeps:
  assumes ok: "credit_ok ci ds es" and e: "e \<in> set es"
    and u: "credit_redistribute_one ci ds e = (ci', ds')"
  shows "credit_ok ci' ds' es" "credit_ledger ci' ds' es = credit_ledger ci ds es"
    "total_avail_credits ci' = total_avail_credits ci" "f \<noteq> e \<Longrightarrow> ds' f = ds f"
    "endpoint_cd (ds' e) = endpoint_cd (ds e)"
    "endpoint_cd (ds e) \<noteq> 0 \<Longrightarrow> svc_id_cd (ds e) \<noteq> WMI_CONTROL_SVC \<Longrightarrow>
       \<not> has_flag (dist_flags (ds' e)) HTC_EP_ACTIVE \<Longrightarrow>
       cred_assngd (ds' e) = (if txq_depth (ds e) = 0 then 0 else cred_min (ds e)) \<and>
       credits (ds' e) \<le> cred_assngd (ds' e)"
proof -
  define ds1 where "ds1 = (if svc_id_cd (ds e) = WMI_DATA_BK_SVC \<or> svc_id_cd (ds e) = WMI_DATA_BE_SVC
     then ds(e := (ds e)\<lparr>dist_flags := set_flag (dist_flags (ds e)) HTC_EP_ACTIVE\<rparr>) else ds)"
  define c where "c = (svc_id_cd (ds1 e) \<noteq> WMI_CONTROL_SVC \<and> \<not> has_flag (dist_flags (ds1 e)) HTC_EP_ACTIVE)"
  define l where "l = (if txq_depth (ds1 e) = 0 then 0 else cred_min (ds1 e))"
  have d: "dist_ok (ds e)" by (rule credit_okD(3) [OF ok e])
  have ok1: "credit_ok ci ds1 es"
    unfolding ds1_def using ok d by (auto intro!: credit_ok_upd simp: dist_ok_def)
  have l1: "credit_ledger ci ds1 es = credit_ledger ci ds es"
    unfolding ds1_def by (simp add: ledger_upd credit_okD(1) [OF ok] e cr_of_def)
  have same: "cred_min (ds1 e) = cred_min (ds e)" "txq_depth (ds1 e) = txq_depth (ds e)"
    "svc_id_cd (ds1 e) = svc_id_cd (ds e)" "endpoint_cd (ds1 e) = endpoint_cd (ds e)"
    by (simp_all add: ds1_def)
  have lim: "c \<Longrightarrow> 0 \<le> l" using d by (auto simp: l_def dist_ok_def same)
  have all: "credit_ok ci' ds' es \<and> credit_ledger ci' ds' es = credit_ledger ci ds es
    \<and> total_avail_credits ci' = total_avail_credits ci \<and> (f \<noteq> e \<longrightarrow> ds' f = ds f)
    \<and> endpoint_cd (ds' e) = endpoint_cd (ds e)
    \<and> (endpoint_cd (ds e) \<noteq> 0 \<and> svc_id_cd (ds e) \<noteq> WMI_CONTROL_SVC \<and>
       \<not> has_flag (dist_flags (ds' e)) HTC_EP_ACTIVE \<longrightarrow>
       cred_assngd (ds' e) = (if txq_depth (ds e) = 0 then 0 else cred_min (ds e)) \<and>
       credits (ds' e) \<le> cred_assngd (ds' e))"
  proof (cases "endpoint_cd (ds e) = 0")
    case True
    then show ?thesis using u ok by (simp add: credit_redistribute_one_def)
  next
    case False
    have r: "(if c then ath6kl_credit_reduce ci ds1 e l else (ci, ds1)) = (ci', ds')"
      using u False unfolding credit_redistribute_one_def Let_def ds1_def [symmetric]
        c_def [symmetric] l_def [symmetric] by (simp only: if_False)
    note k = reduce_if_keeps [OF ok1 e lim r]
    note fr = reduce_if_frame [OF r]
    show ?thesis using k l1 fr by (auto simp: same c_def l_def ds1_def)
  qed
  then show "credit_ok ci' ds' es" "credit_ledger ci' ds' es = credit_ledger ci ds es"
    "total_avail_credits ci' = total_avail_credits ci" "f \<noteq> e \<Longrightarrow> ds' f = ds f"
    "endpoint_cd (ds' e) = endpoint_cd (ds e)"
    "endpoint_cd (ds e) \<noteq> 0 \<Longrightarrow> svc_id_cd (ds e) \<noteq> WMI_CONTROL_SVC \<Longrightarrow>
       \<not> has_flag (dist_flags (ds' e)) HTC_EP_ACTIVE \<Longrightarrow>
       cred_assngd (ds' e) = (if txq_depth (ds e) = 0 then 0 else cred_min (ds e)) \<and>
       credits (ds' e) \<le> cred_assngd (ds' e)"
    by blast+
qed

lemma credit_redistribute_keeps:
  assumes "credit_ok ci ds es" "set fs \<subseteq> set es" "distinct fs" "ath6kl_credit_redistribute ci ds fs = (ci', ds')"
  shows "credit_ok ci' ds' es \<and> credit_ledger ci' ds' es = credit_ledger ci ds es
    \<and> total_avail_credits ci' = total_avail_credits ci \<and> (\<forall>f. f \<notin> set fs \<longrightarrow> ds' f = ds f)
    \<and> (\<forall>e\<in>set fs. endpoint_cd (ds e) \<noteq> 0 \<and> svc_id_cd (ds e) \<noteq> WMI_CONTROL_SVC \<and>
         \<not> has_flag (dist_flags (ds' e)) HTC_EP_ACTIVE \<longrightarrow>
         cred_assngd (ds' e) = (if txq_depth (ds e) = 0 then 0 else cred_min (ds e)) \<and>
         credits (ds' e) \<le> cred_assngd (ds' e))"
  using assms
proof (induction fs arbitrary: ci ds)
  case Nil
  then show ?case by simp
next
  case (Cons e fs)
  obtain ci1 ds1 where u: "credit_redistribute_one ci ds e = (ci1, ds1)" by fastforce
  have e: "e \<in> set es" using Cons.prems(2) by simp
  note k = credit_redistribute_one_keeps [OF Cons.prems(1) e u]
  have rest: "ath6kl_credit_redistribute ci1 ds1 fs = (ci', ds')" using Cons.prems(4) u by simp
  have ne: "e \<notin> set fs" using Cons.prems(3) by simp
  have same: "\<And>f. f \<in> set fs \<Longrightarrow> ds1 f = ds f" using k(4) ne by metis
  note IH = Cons.IH [OF k(1) _ _ rest]
  have ds'e: "ds' e = ds1 e" using IH ne Cons.prems(2,3) by auto
  show ?case
    using IH Cons.prems(2,3) k ds'e same by auto
qed

section \<open>Initial distribution\<close>

text \<open>Closed forms of the two loops of \<open>ath6kl_credit_init\<close>.\<close>

definition init_grant :: "int \<Rightarrow> htc_endpoint_credit_dist \<Rightarrow> int" where
  "init_grant tot d =
     (if endpoint_cd d \<noteq> 0 \<and> (svc_id_cd d = WMI_CONTROL_SVC \<or>
          4 < tot \<and> (svc_id_cd d = WMI_DATA_BK_SVC \<or> svc_id_cd d = WMI_DATA_BE_SVC))
      then cred_per_msg d else 0)"

definition init_dist :: "int \<Rightarrow> htc_endpoint_credit_dist \<Rightarrow> htc_endpoint_credit_dist" where
  "init_dist tot d =
     (if endpoint_cd d = 0 then d
      else if svc_id_cd d = WMI_CONTROL_SVC \<or>
          4 < tot \<and> (svc_id_cd d = WMI_DATA_BK_SVC \<or> svc_id_cd d = WMI_DATA_BE_SVC)
      then d\<lparr>cred_min := cred_per_msg d, credits := credits d + cred_per_msg d,
             cred_assngd := cred_assngd d + cred_per_msg d,
             dist_flags := set_flag (dist_flags d) HTC_EP_ACTIVE\<rparr>
      else d\<lparr>cred_min := cred_per_msg d\<rparr>)"

definition init_norm :: "int \<Rightarrow> htc_endpoint_credit_dist \<Rightarrow> int" where
  "init_norm free d =
     (if svc_id_cd d = WMI_CONTROL_SVC then cred_per_msg d else credit_norm_share free (cred_per_msg d))"

lemma credit_init_deposits_closed:
  "distinct es \<Longrightarrow> credit_init_deposits tot ci ds es =
     (ci\<lparr>cur_free_credits := cur_free_credits ci - (\<Sum>e\<leftarrow>es. init_grant tot (ds e))\<rparr>,
      \<lambda>e. if e \<in> set es then init_dist tot (ds e) else ds e)"
proof (induction es arbitrary: ci ds)
  case Nil
  then show ?case by simp
next
  case (Cons e es)
  have e: "e \<notin> set es" and d: "distinct es" using Cons.prems by simp_all
  have step: "credit_init_deposits tot ci ds (e # es) =
      credit_init_deposits tot (ci\<lparr>cur_free_credits := cur_free_credits ci - init_grant tot (ds e)\<rparr>)
        (ds(e := init_dist tot (ds e))) es"
    by (cases "svc_id_cd (ds e) = WMI_CONTROL_SVC")
      (auto simp: ath6kl_credit_deposit_def init_grant_def init_dist_def svc_defs)
  have "(\<Sum>f\<leftarrow>es. init_grant tot ((ds(e := v)) f)) = (\<Sum>f\<leftarrow>es. init_grant tot (ds f))" for v
    by (rule sum_list_map_cong_set) (use e in auto)
  then show ?case
    unfolding step Cons.IH [OF d] using e by (auto simp: fun_eq_iff)
qed

lemma credit_init_norms_closed:
  "distinct es \<Longrightarrow> credit_init_norms ci ds es =
     (\<lambda>e. if e \<in> set es \<and> endpoint_cd (ds e) \<noteq> 0
          then (ds e)\<lparr>cred_norm := init_norm (cur_free_credits ci) (ds e)\<rparr> else ds e)"
proof (induction es arbitrary: ds)
  case Nil
  then show ?case by simp
next
  case (Cons e es)
  then show ?case by (auto simp: init_norm_def fun_eq_iff)
qed

lemma credit_init_closed:
  assumes "distinct es"
  shows "ath6kl_credit_init ci ds es tot =
     (ci\<lparr>cur_free_credits := tot - (\<Sum>e\<leftarrow>es. init_grant tot (ds e)), total_avail_credits := tot,
         lowestpri_ep_dist := es\<rparr>,
      \<lambda>e. if e \<in> set es \<and> endpoint_cd (ds e) \<noteq> 0
          then (init_dist tot (ds e))\<lparr>cred_norm :=
                 init_norm (tot - (\<Sum>e\<leftarrow>es. init_grant tot (ds e))) (ds e)\<rparr>
          else ds e)"
proof -
  have "endpoint_cd (init_dist tot d) = endpoint_cd d" "svc_id_cd (init_dist tot d) = svc_id_cd d"
    "cred_per_msg (init_dist tot d) = cred_per_msg d"
    "endpoint_cd d = 0 \<Longrightarrow> init_dist tot d = d" for d
    by (simp_all add: init_dist_def)
  then show ?thesis
    by (auto simp: ath6kl_credit_init_def Let_def credit_init_deposits_closed [OF assms]
        credit_init_norms_closed [OF assms] init_norm_def fun_eq_iff)
qed

lemma sdiv_mult_le:
  assumes "1 \<le> (per::int)" "0 < free sdiv per"
  shows "free sdiv per * per \<le> free"
proof -
  have "0 \<le> free"
  proof (rule ccontr)
    assume "\<not> 0 \<le> free"
    then have "free sdiv per = - (\<bar>free\<bar> div per)"
      using assms(1) by (simp add: signed_divide_int_def)
    moreover have "0 \<le> \<bar>free\<bar> div per" using assms(1) by (simp add: pos_imp_zdiv_nonneg_iff)
    ultimately show False using assms(2) by simp
  qed
  then have eq: "free sdiv per = free div per"
    using assms(1) by (cases "free = 0") (simp_all add: signed_divide_int_def)
  have "free div per * per + free mod per = free" by simp
  moreover have "0 \<le> free mod per" using assms(1) by simp
  ultimately have "free div per * per \<le> free" by linarith
  then show ?thesis unfolding eq .
qed

lemma credit_norm_share_bounds:
  assumes "1 \<le> per"
  shows "per \<le> credit_norm_share free per"
    "per < credit_norm_share free per \<Longrightarrow> 4 * credit_norm_share free per \<le> 3 * free"
proof -
  show "per \<le> credit_norm_share free per" by (simp add: credit_norm_share_def Let_def)
  assume gt: "per < credit_norm_share free per"
  define q where "q = free sdiv per * per"
  have c: "credit_norm_share free per = q * 3 div 4" "0 < q"
    using gt assms by (auto simp: credit_norm_share_def Let_def drop_bit_eq_div max_def q_def split: if_splits)
  then have "0 < free sdiv per" using assms by (auto simp: q_def zero_less_mult_iff)
  from sdiv_mult_le [OF assms this] have "q \<le> free" by (simp add: q_def)
  with c(1) show "4 * credit_norm_share free per \<le> 3 * free" by linarith
qed

section \<open>The credit machine and its properties\<close>

text \<open>
  The two requests the rest of the HTC layer makes of the distribution: an endpoint of the list
  seeks \<open>n\<close> more credits, or the list is distributed for a reason.  The state carries the
  distribution list.
\<close>

datatype credit_event = CreditSeek nat int | CreditDistribute htc_credit_dist_reason

type_synonym credit_state = "ath6kl_htc_credit_info \<times> dists \<times> nat list"

fun credit_step :: "credit_state \<Rightarrow> credit_event \<Rightarrow> credit_state" where
  "credit_step (ci, ds, es) (CreditSeek ep n) =
     (if ep \<in> set es \<and> 0 \<le> n
      then let (ci', ds') = ath6kl_credit_seek ci (ds(ep := (ds ep)\<lparr>seek_cred := n\<rparr>)) ep in (ci', ds', es)
      else (ci, ds, es))"
| "credit_step (ci, ds, es) (CreditDistribute r) =
     (let (ci', ds') = ath6kl_credit_distribute ci ds es r in (ci', ds', es))"

fun credit_inv :: "credit_state \<Rightarrow> bool" where
  "credit_inv (ci, ds, es) = credit_ok ci ds es"

fun credit_total :: "credit_state \<Rightarrow> int" where
  "credit_total (ci, ds, es) = credit_ledger ci ds es"

lemma credit_distribute_keeps:
  assumes "credit_ok ci ds es" "ath6kl_credit_distribute ci ds es r = (ci', ds')"
  shows "credit_ok ci' ds' es \<and> credit_ledger ci' ds' es = credit_ledger ci ds es
    \<and> total_avail_credits ci' = total_avail_credits ci"
proof (cases r)
  case HTC_CREDIT_DIST_SEND_COMPLETE
  with assms(2) have "ath6kl_credit_update ci ds es = (ci', ds')" by simp
  from credit_update_keeps [OF assms(1) order_refl credit_okD(1) [OF assms(1)] this]
  show ?thesis by (elim conjE) (intro conjI)
next
  case HTC_CREDIT_DIST_ACTIVITY_CHANGE
  with assms(2) have "ath6kl_credit_redistribute ci ds es = (ci', ds')" by simp
  from credit_redistribute_keeps [OF assms(1) order_refl credit_okD(1) [OF assms(1)] this]
  show ?thesis by (elim conjE) (intro conjI)
next
  case HTC_CREDIT_DIST_SEEK_CREDITS
  with assms show ?thesis by simp
qed

lemma credit_step_keeps:
  assumes "credit_inv s"
  shows "credit_inv (credit_step s e) \<and> credit_total (credit_step s e) = credit_total s"
proof (cases s)
  case s: (fields ci ds es)
  have ok: "credit_ok ci ds es" using assms by (simp add: s)
  show ?thesis
  proof (cases e)
    case (CreditDistribute r)
    obtain ci' ds' where d: "ath6kl_credit_distribute ci ds es r = (ci', ds')" by fastforce
    show ?thesis using credit_distribute_keeps [OF ok d] by (simp add: s CreditDistribute d)
  next
    case (CreditSeek ep n)
    show ?thesis
    proof (cases "ep \<in> set es \<and> 0 \<le> n")
      case False
      then have "credit_step s e = s" by (simp only: s CreditSeek credit_step.simps if_False)
      then show ?thesis using assms by simp
    next
      case True
      define ds0 where "ds0 = ds(ep := (ds ep)\<lparr>seek_cred := n\<rparr>)"
      have ok0: "credit_ok ci ds0 es" and l0: "credit_ledger ci ds0 es = credit_ledger ci ds es"
        unfolding ds0_def using credit_okD(1,3) [OF ok] True
        by (auto intro!: credit_ok_upd [OF ok] simp: dist_ok_def ledger_upd cr_of_def)
      obtain ci' ds' where k: "ath6kl_credit_seek ci ds0 ep = (ci', ds')" by fastforce
      have "0 \<le> seek_cred (ds0 ep)" using True by (simp add: ds0_def)
      note kk = credit_seek_keeps [OF ok0 _ this k]
      have "credit_step s e = (ci', ds', es)"
        using True k by (simp only: s CreditSeek credit_step.simps simp_thms if_True ds0_def Let_def prod.case)
      moreover have "credit_ok ci' ds' es \<and> credit_ledger ci' ds' es = credit_ledger ci ds0 es"
        using kk True by (elim conjE) (intro conjI; simp)
      ultimately show ?thesis using l0 by (simp add: s)
    qed
  qed
qed

interpretation credit_machine: step_conserves credit_step credit_inv credit_total
  by unfold_locales (use credit_step_keeps in auto)

text \<open>
  Property C31.  Seeking credits is fair and safe.  The seeker receives between 0 and what it
  asked for; it receives less only when its service may not seek or when the free pool is left
  empty.  Endpoints of higher priority are untouched; no other endpoint is taken below its
  floor or gains credits; and the total of free and assigned credits is unchanged.
\<close>

theorem credit_seek_fair:
  assumes "credit_ok ci ds es" and "ep \<in> set es" and "0 \<le> seek_cred (ds ep)"
    and "ath6kl_credit_seek ci ds ep = (ci', ds')"
  shows "credit_ok ci' ds' es \<and> credit_ledger ci' ds' es = credit_ledger ci ds es
    \<and> (\<exists>n. 0 \<le> n \<and> n \<le> seek_cred (ds ep) \<and> credits (ds' ep) = credits (ds ep) + n
        \<and> cred_assngd (ds' ep) = cred_assngd (ds ep) + n \<and> seek_cred (ds' ep) = 0
        \<and> (n < seek_cred (ds ep) \<longrightarrow> seek_denied (ds ep) \<or> cur_free_credits ci' = 0))
    \<and> (\<forall>f. f \<noteq> ep \<and> f \<notin> lower_priority (lowestpri_ep_dist ci) ep \<longrightarrow> ds' f = ds f)
    \<and> (\<forall>f. f \<noteq> ep \<and> cred_min (ds f) \<le> cred_assngd (ds f) \<longrightarrow> cred_min (ds f) \<le> cred_assngd (ds' f))
    \<and> (\<forall>f. f \<noteq> ep \<longrightarrow> credits (ds' f) \<le> credits (ds f))"
proof -
  note k = credit_seek_keeps [OF assms]
  from k have "\<exists>n. 0 \<le> n \<and> n \<le> seek_cred (ds ep)
        \<and> ds' ep = (ds ep)\<lparr>credits := credits (ds ep) + n, cred_assngd := cred_assngd (ds ep) + n, seek_cred := 0\<rparr>
        \<and> (n < seek_cred (ds ep) \<longrightarrow> seek_denied (ds ep) \<or> cur_free_credits ci' = 0)"
    by (elim conjE) assumption
  then obtain n where n: "0 \<le> n" "n \<le> seek_cred (ds ep)"
    "ds' ep = (ds ep)\<lparr>credits := credits (ds ep) + n, cred_assngd := cred_assngd (ds ep) + n, seek_cred := 0\<rparr>"
    "n < seek_cred (ds ep) \<longrightarrow> seek_denied (ds ep) \<or> cur_free_credits ci' = 0"
    by (elim exE conjE)
  have "\<exists>n. 0 \<le> n \<and> n \<le> seek_cred (ds ep) \<and> credits (ds' ep) = credits (ds ep) + n
        \<and> cred_assngd (ds' ep) = cred_assngd (ds ep) + n \<and> seek_cred (ds' ep) = 0
        \<and> (n < seek_cred (ds ep) \<longrightarrow> seek_denied (ds ep) \<or> cur_free_credits ci' = 0)"
    by (rule exI [of _ n]) (use n in simp)
  then show ?thesis using k by (elim conjE) (intro conjI; simp)
qed

definition ex_dist :: "nat \<Rightarrow> nat \<Rightarrow> int \<Rightarrow> htc_endpoint_credit_dist" where
  "ex_dist svc e n = \<lparr>svc_id_cd = svc, endpoint_cd = e, dist_flags = 0, cred_norm = 6, cred_min = 1,
     cred_assngd = n, credits = n, cred_to_dist = 0, seek_cred = 0, cred_sz = 256, cred_per_msg = 1,
     txq_depth = 0, cred_alloc_max = 0\<rparr>"

definition ex_dists :: dists where
  "ex_dists = (\<lambda>_. ex_dist 0 0 0)(1 := ex_dist 256 1 1, 5 := (ex_dist 260 5 0)\<lparr>seek_cred := 3\<rparr>,
     4 := ex_dist 259 4 0, 2 := ex_dist 257 2 2, 3 := ex_dist 258 3 4)"

definition ex_info :: "ath6kl_htc_credit_info" where
  "ex_info = \<lparr>total_avail_credits = 8, cur_free_credits = 1, lowestpri_ep_dist = [0, 1, 5, 4, 2, 3]\<rparr>"

lemma ex_credit_ok: "credit_ok ex_info ex_dists [0, 1, 5, 4, 2, 3]"
  by (simp add: credit_ok_def dist_ok_def ex_info_def ex_dists_def ex_dist_def)

theorem credit_seek_fair_witness:
  "credits (snd (ath6kl_credit_seek ex_info ex_dists 5) 5) = 3
   \<and> credits (snd (ath6kl_credit_seek ex_info ex_dists 5) 3) = 2
   \<and> cred_min (ex_dists 3) \<le> cred_assngd (snd (ath6kl_credit_seek ex_info ex_dists 5) 3)"
proof -
  have run: "credits (snd (ath6kl_credit_seek ex_info ex_dists 5) 5) = 3"
    "credits (snd (ath6kl_credit_seek ex_info ex_dists 5) 3) = 2"
    by (simp_all add: ath6kl_credit_seek_def ex_info_def ex_dists_def ex_dist_def svc_defs
        ath6kl_credit_reduce_def credit_seek_out_def ath6kl_credit_deposit_def Let_def)
  have pre: "0 \<le> seek_cred (ex_dists 5)" "cred_min (ex_dists 3) \<le> cred_assngd (ex_dists 3)"
    by (simp_all add: ex_dists_def ex_dist_def)
  show ?thesis
    using credit_seek_fair [OF ex_credit_ok _ pre(1), of "fst (ath6kl_credit_seek ex_info ex_dists 5)"
        "snd (ath6kl_credit_seek ex_info ex_dists 5)"] run pre(2)
    by simp
qed

text \<open>
  After the credits reported by the target are distributed, every endpoint that
  had some holds no more than it was assigned and no more than its normal share, and an idle,
  inactive endpoint holds none; endpoint 0 and endpoints without a report are untouched; what
  was taken away is back in the free pool, which stays non-negative.
\<close>

theorem credit_update_returns:
  assumes "credit_ok ci ds es" and "ath6kl_credit_update ci ds es = (ci', ds')"
  shows "credit_ok ci' ds' es \<and> credit_ledger ci' ds' es = credit_ledger ci ds es
    \<and> (\<forall>e\<in>set es. if endpoint_cd (ds e) \<noteq> 0 \<and> 0 < cred_to_dist (ds e)
         then cred_to_dist (ds' e) = 0 \<and> credits (ds' e) \<le> cred_assngd (ds' e)
              \<and> credits (ds' e) \<le> max 0 (cred_norm (ds' e))
              \<and> (\<not> has_flag (dist_flags (ds' e)) HTC_EP_ACTIVE \<and> txq_depth (ds' e) = 0 \<longrightarrow> credits (ds' e) = 0)
         else ds' e = ds e)"
  using credit_update_keeps [OF assms(1) order_refl credit_okD(1) [OF assms(1)] assms(2)]
  by (auto simp: updated_ok_def)

theorem credit_update_returns_witness:
  "credits (snd (ath6kl_credit_update ex_info (ex_dists(3 := (ex_dist 258 3 4)\<lparr>cred_to_dist := 5,
       dist_flags := HTC_EP_ACTIVE\<rparr>)) [0, 1, 5, 4, 2, 3]) 3) = 4
   \<and> credits (snd (ath6kl_credit_update ex_info (ex_dists(3 := (ex_dist 258 3 4)\<lparr>cred_to_dist := 5,
       dist_flags := HTC_EP_ACTIVE\<rparr>)) [0, 1, 5, 4, 2, 3]) 3) \<le> max 0 6"
proof -
  define ds where "ds = ex_dists(3 := (ex_dist 258 3 4)\<lparr>cred_to_dist := 5, dist_flags := HTC_EP_ACTIVE\<rparr>)"
  obtain ci' ds' where u: "ath6kl_credit_update ex_info ds [0, 1, 5, 4, 2, 3] = (ci', ds')" by fastforce
  have ok: "credit_ok ex_info ds [0, 1, 5, 4, 2, 3]"
    unfolding ds_def by (intro credit_ok_upd [OF ex_credit_ok]) (simp add: dist_ok_def ex_dist_def)
  have "credits (ds' 3) = 4 \<and> cred_norm (ds' 3) = 6"
    using u by (auto simp: ds_def ex_dists_def ex_dist_def ex_info_def credit_update_one_def
        ath6kl_credit_reduce_def Let_def has_flag_def)
  then show ?thesis
    using credit_update_returns [OF ok u] u by (simp add: ds_def)
qed



text \<open>
  Property C8.  However seeks and distributions are interleaved, no credit is created or lost
  and the free pool never goes negative (the two warnings of \<open>ath6kl_credit_distribute\<close> cannot
  fire as long as the ledger is at most the total).
\<close>

theorem credit_runs_conserve:
  assumes "credit_inv s"
  shows "credit_total (foldl credit_step s es) = credit_total s
    \<and> 0 \<le> cur_free_credits (fst (foldl credit_step s es))
    \<and> cur_free_credits (fst (foldl credit_step s es)) \<le> credit_total s"
proof -
  obtain ci ds l where s': "foldl credit_step s es = (ci, ds, l)" by (metis prod.collapse)
  have inv: "credit_inv (ci, ds, l)" and tot: "credit_total (ci, ds, l) = credit_total s"
    using credit_machine.run_inv [OF assms, of es] credit_machine.run_amount [OF assms, of es] s' by simp_all
  have "0 \<le> (\<Sum>e\<leftarrow>l. cr_of (ds e))"
    using inv by (intro sum_list_nonneg) (auto simp: credit_ok_def dist_ok_def cr_of_def)
  then show ?thesis using inv tot s' by (auto simp: credit_ok_def credit_ledger_def)
qed

theorem credit_runs_conserve_witness:
  "credit_total (foldl credit_step (ex_info, ex_dists, [0, 1, 5, 4, 2, 3])
      [CreditSeek 5 3, CreditDistribute HTC_CREDIT_DIST_ACTIVITY_CHANGE, CreditSeek 2 4]) = 8"
proof -
  have "credit_total (ex_info, ex_dists, [0, 1, 5, 4, 2, 3]) = 8"
    by (simp add: credit_ledger_def cr_of_def ex_info_def ex_dists_def ex_dist_def)
  moreover have "credit_inv (ex_info, ex_dists, [0, 1, 5, 4, 2, 3])" by (simp only: credit_inv.simps ex_credit_ok)
  ultimately show ?thesis using credit_runs_conserve by metis
qed

end
