(* ===== verification/HtcTarget.thy ===== *)
theory HtcTarget
  imports HtcCredit
begin

text \<open>
  The data of the HTC mailbox layer: frames, packets, endpoints, the target and its
  surroundings (drivers/ath6kl/htc.h, plus the few fields of \<open>struct ath6kl\<close> and
  \<open>struct ath6kl_device\<close> the layer reads).

  A packet is a value with an identity (\<open>pkt_id\<close>, its address); at any time it sits on exactly
  one list, so lists of packets replace the intrusive \<open>list_head\<close>s.  The pointers \<open>buf_start\<close> and
  \<open>buf\<close> are byte addresses, and \<open>pkt_mem\<close> is the memory they point into, so that arithmetic on
  \<open>buf\<close> and writes through it are total here as they are in C; staying inside the allocation is
  something the properties state.  The union \<open>info\<close> is kept as both of its members: a packet is
  used in one direction only.

  The credit structures embedded in the endpoints are the store \<open>cred_dist\<close> of the target,
  indexed by endpoint.  What the layer asks of the bus driver and of the layer above, through
  function pointers, is the record \<open>htc_env\<close> over a device state \<open>'d\<close>; what it tells them is
  appended to the log \<open>events\<close>.
\<close>

section \<open>Constants\<close>

definition ENDPOINT_MAX :: nat where "ENDPOINT_MAX = 9"
definition WMM_NUM_AC :: nat where "WMM_NUM_AC = 4"
definition WMM_AC_BE :: nat where "WMM_AC_BE = 0"
definition WMM_AC_BK :: nat where "WMM_AC_BK = 1"

definition HTC_HDR_LENGTH :: nat where "HTC_HDR_LENGTH = 6"
definition HTC_MAX_PAYLOAD_LENGTH :: nat where "HTC_MAX_PAYLOAD_LENGTH = 4096 - HTC_HDR_LENGTH"
definition HTC_HOST_MAX_MSG_PER_BUNDLE :: int where "HTC_HOST_MAX_MSG_PER_BUNDLE = 8"
definition HTC_MIN_HTC_MSGS_TO_BUNDLE :: nat where "HTC_MIN_HTC_MSGS_TO_BUNDLE = 2"

definition HTC_FLAGS_NEED_CREDIT_UPDATE :: u8 where "HTC_FLAGS_NEED_CREDIT_UPDATE = 1"
definition HTC_FLAGS_SEND_BUNDLE :: u8 where "HTC_FLAGS_SEND_BUNDLE = 2"
definition HTC_FLG_RX_TRAILER :: u8 where "HTC_FLG_RX_TRAILER = 2"
definition HTC_FLG_RX_BNDL_CNT :: u8 where "HTC_FLG_RX_BNDL_CNT = 240"
definition HTC_FLGS_TX_BNDL_PAD_EN :: u32 where "HTC_FLGS_TX_BNDL_PAD_EN = 1"

definition HTC_RX_FLAGS_INDICATE_MORE_PKTS :: u32 where "HTC_RX_FLAGS_INDICATE_MORE_PKTS = 1"
definition HTC_RX_PKT_IGNORE_LOOKAHEAD :: u32 where "HTC_RX_PKT_IGNORE_LOOKAHEAD = 1"
definition HTC_RX_PKT_REFRESH_HDR :: u32 where "HTC_RX_PKT_REFRESH_HDR = 2"
definition HTC_RX_PKT_PART_OF_BUNDLE :: u32 where "HTC_RX_PKT_PART_OF_BUNDLE = 4"
definition HTC_RX_PKT_NO_RECYCLE :: u32 where "HTC_RX_PKT_NO_RECYCLE = 8"

definition HTC_RECV_WAIT_BUFFERS :: u32 where "HTC_RECV_WAIT_BUFFERS = 1"
definition HTC_OP_STATE_STOPPING :: u32 where "HTC_OP_STATE_STOPPING = 1"

definition HTC_TX_PACKET_TAG_ALL :: nat where "HTC_TX_PACKET_TAG_ALL = 0"
definition HTC_SERVICE_TX_PACKET_TAG :: nat where "HTC_SERVICE_TX_PACKET_TAG = 1"
definition TX_RESUME_BUNDLE_THRESHOLD :: nat where "TX_RESUME_BUNDLE_THRESHOLD = 1500"

definition ATH6KL_SCATTER_REQS :: int where "ATH6KL_SCATTER_REQS = 4"
definition MAX_DEF_COOKIE_NUM :: nat where "MAX_DEF_COOKIE_NUM = 400"
definition MAX_HI_COOKIE_NUM :: nat where "MAX_HI_COOKIE_NUM = 40"

lemmas htc_consts = ENDPOINT_MAX_def WMM_NUM_AC_def WMM_AC_BE_def WMM_AC_BK_def HTC_HDR_LENGTH_def
  HTC_MAX_PAYLOAD_LENGTH_def HTC_HOST_MAX_MSG_PER_BUNDLE_def HTC_MIN_HTC_MSGS_TO_BUNDLE_def
  TX_RESUME_BUNDLE_THRESHOLD_def ATH6KL_SCATTER_REQS_def MAX_DEF_COOKIE_NUM_def MAX_HI_COOKIE_NUM_def
  HTC_TX_PACKET_TAG_ALL_def HTC_SERVICE_TX_PACKET_TAG_def

lemmas htc_flag_defs = HTC_FLAGS_NEED_CREDIT_UPDATE_def HTC_FLAGS_SEND_BUNDLE_def HTC_FLG_RX_TRAILER_def
  HTC_FLG_RX_BNDL_CNT_def HTC_FLGS_TX_BNDL_PAD_EN_def HTC_RX_FLAGS_INDICATE_MORE_PKTS_def
  HTC_RX_PKT_IGNORE_LOOKAHEAD_def HTC_RX_PKT_REFRESH_HDR_def HTC_RX_PKT_PART_OF_BUNDLE_def
  HTC_RX_PKT_NO_RECYCLE_def HTC_RECV_WAIT_BUFFERS_def HTC_OP_STATE_STOPPING_def

section \<open>Frames on the wire\<close>

text \<open>
  \<open>struct htc_frame_hdr\<close>: endpoint, flags, a little-endian length and two control bytes.  A
  lookahead is the first four bytes, which the code moves around as a \<open>u32\<close> and reads back by
  casting to the header.
\<close>

record htc_frame_hdr =
  eid_hdr :: u8
  flags_hdr :: u8
  payld_len :: nat
  ctrl0 :: u8
  ctrl1 :: u8

definition put_hdr :: "htc_frame_hdr \<Rightarrow> u8 list" where
  "put_hdr h = [eid_hdr h, flags_hdr h, le16_lo (payld_len h), le16_hi (payld_len h), ctrl0 h, ctrl1 h]"

definition get_hdr :: "u8 list \<Rightarrow> htc_frame_hdr" where
  "get_hdr m = \<lparr>eid_hdr = m ! 0, flags_hdr = m ! 1, payld_len = le16 (m ! 2) (m ! 3),
     ctrl0 = m ! 4, ctrl1 = m ! 5\<rparr>"

lemma length_put_hdr [simp]: "length (put_hdr h) = HTC_HDR_LENGTH"
  by (simp add: put_hdr_def HTC_HDR_LENGTH_def)

lemma get_put_hdr:
  "payld_len h < 65536 \<Longrightarrow> get_hdr (put_hdr h @ m) = h"
  by (simp add: get_hdr_def put_hdr_def le16_round_trip)

datatype lkahd = LkAhd u8 u8 u8 u8

fun lk_eid :: "lkahd \<Rightarrow> nat" where "lk_eid (LkAhd a b c d) = unat a"
fun lk_flags :: "lkahd \<Rightarrow> u8" where "lk_flags (LkAhd a b c d) = b"
fun lk_payld_len :: "lkahd \<Rightarrow> nat" where "lk_payld_len (LkAhd a b c d) = le16 c d"

definition lkahd_of :: "u8 list \<Rightarrow> lkahd" where
  "lkahd_of m = LkAhd (m ! 0) (m ! 1) (m ! 2) (m ! 3)"

section \<open>Packets, endpoints, target\<close>

record htc_packet =
  pkt_id :: nat
  pkt_cntxt :: nat
  pkt_mem :: "int \<Rightarrow> u8"
  buf_start :: int
  buf :: int
  buf_len :: nat
  act_len :: nat
  endpoint_pkt :: nat
  status :: int
  tag :: nat
  cred_used :: int
  tx_flags :: u8
  seqno_tx :: nat
  exp_hdr :: lkahd
  rx_flags :: u32
  indicat_flags :: u32
  completion :: bool
  connid :: u8
  recycle_count :: u8
  pkt_vif :: "nat option"

datatype htc_send_full_action = HTC_SEND_FULL_KEEP | HTC_SEND_FULL_DROP

text \<open>Which callbacks a service registered, and its two thresholds.\<close>

record htc_ep_callbacks =
  cb_rx_refill :: bool
  cb_tx_full :: bool
  cb_rx_allocthresh :: bool
  rx_alloc_thresh :: int
  rx_refill_thresh :: int

record htc_endpoint_stats =
  cred_low_indicate :: u32
  tx_issued :: u32
  tx_pkt_bundled :: u32
  tx_bundles :: u32
  tx_dropped :: u32
  tx_cred_rpt :: u32
  cred_rpt_from_rx :: u32
  cred_rpt_from_other :: u32
  cred_rpt_ep0 :: u32
  cred_from_rx :: u32
  cred_from_other :: u32
  cred_from_ep0 :: u32
  cred_cosumd :: u32
  cred_retnd :: u32
  rx_pkts :: u32
  rx_lkahds :: u32
  rx_bundl :: u32
  rx_bundle_lkahd :: u32
  rx_bundle_from_hdr :: u32
  rx_alloc_thresh_hit :: u32
  rxalloc_thresh_byte :: u32

definition zero_stats :: htc_endpoint_stats where
  "zero_stats = \<lparr>cred_low_indicate = 0, tx_issued = 0, tx_pkt_bundled = 0, tx_bundles = 0, tx_dropped = 0,
     tx_cred_rpt = 0, cred_rpt_from_rx = 0, cred_rpt_from_other = 0, cred_rpt_ep0 = 0, cred_from_rx = 0,
     cred_from_other = 0, cred_from_ep0 = 0, cred_cosumd = 0, cred_retnd = 0, rx_pkts = 0, rx_lkahds = 0,
     rx_bundl = 0, rx_bundle_lkahd = 0, rx_bundle_from_hdr = 0, rx_alloc_thresh_hit = 0,
     rxalloc_thresh_byte = 0\<rparr>"

record htc_endpoint =
  eid :: nat
  svc_id :: nat
  txq :: "htc_packet list"
  rx_bufq :: "htc_packet list"
  ep_cb :: htc_ep_callbacks
  max_txq_depth :: int
  len_max :: nat
  tx_proc_cnt :: int
  seqno :: u8
  conn_flags :: u32
  ep_st :: htc_endpoint_stats
  tx_drop_packet_threshold :: nat
  call_by_timer :: bool
  timer_init :: bool

text \<open>
  What leaves the layer: completions and received packets handed up, packets and bundles handed
  to the bus (with the status of the call for a single packet), receive flow control, the send
  timer, and buffers released.
\<close>

datatype htc_event =
    TxComplete "htc_packet list"
  | TxWrite htc_packet nat int
  | TxBundle "(htc_packet \<times> nat) list"
  | RxDeliver nat htc_packet
  | RxControl bool
  | TimerSet nat
  | TimerDel nat
  | BufFree htc_packet

record 'd htc_target =
  endpoint :: "nat \<Rightarrow> htc_endpoint"
  cred_dist :: dists
  cred_dist_list :: "nat list"
  free_ctrl_txbuf :: "htc_packet list"
  free_ctrl_rxbuf :: "htc_packet list"
  credit_info :: ath6kl_htc_credit_info
  tgt_creds :: int
  tgt_cred_sz :: nat
  htc_flags :: u32
  rx_st_flags :: u32
  ep_waiting :: nat
  htc_tgt_ver :: nat
  msg_per_bndl_max :: int
  tx_bndl_mask :: u32
  rx_bndl_enable :: bool
  max_rx_bndl_sz :: int
  max_tx_bndl_sz :: int
  block_sz :: nat
  block_mask :: nat
  max_scat_entries :: int
  max_xfer_szper_scatreq :: int
  chk_irq_status_cnt :: int
  ac_tx_count :: "nat \<Rightarrow> nat"
  dev :: 'd
  events :: "htc_event list"

text \<open>
  The surroundings: module parameters and maps of \<open>struct ath6kl\<close>, the host interface operations
  (\<open>hif_*\<close>, \<open>ath6kl_hif_*\<close>) and the callbacks of the services.  Every function takes the device
  state and returns the next one.
\<close>

record 'd htc_env =
  low_cpu_power_tx_bundle_max :: nat
  htc_bundle_send_timer :: nat
  ep2ac_map :: "nat \<Rightarrow> nat"
  ctrl_ep :: nat
  hif_write_sync :: "'d \<Rightarrow> htc_packet \<Rightarrow> nat \<Rightarrow> int \<times> 'd"
  hif_write_async :: "'d \<Rightarrow> htc_packet \<Rightarrow> nat \<Rightarrow> int \<times> 'd"
  hif_read_sync :: "'d \<Rightarrow> htc_packet \<Rightarrow> nat \<Rightarrow> int \<times> u8 list \<times> 'd"
  hif_scatter_req_get :: "'d \<Rightarrow> int option \<times> 'd"
  hif_scatter_req_add :: "'d \<Rightarrow> 'd"
  hif_scat_write :: "'d \<Rightarrow> (htc_packet \<times> nat) list \<Rightarrow> 'd"
  hif_scat_read :: "'d \<Rightarrow> (htc_packet \<times> nat) list \<Rightarrow> int \<times> (nat \<Rightarrow> u8 list) \<times> 'd"
  hif_poll_mboxmsg_rx :: "'d \<Rightarrow> lkahd option \<times> 'd"
  hif_enable_scatter :: "'d \<Rightarrow> (int \<times> int) option \<times> 'd"
  hif_disable_intrs :: "'d \<Rightarrow> int \<times> 'd"
  hif_unmask_intrs :: "'d \<Rightarrow> int \<times> 'd"
  hif_mask_intrs :: "'d \<Rightarrow> 'd"
  hif_cleanup_scatter :: "'d \<Rightarrow> 'd"
  cb_tx_full_fn :: "'d \<Rightarrow> htc_packet \<Rightarrow> htc_send_full_action \<times> 'd"
  cb_rx_refill_fn :: "'d \<Rightarrow> nat \<Rightarrow> htc_packet list \<times> 'd"
  cb_rx_allocthresh_fn :: "'d \<Rightarrow> nat \<Rightarrow> nat \<Rightarrow> htc_packet option \<times> 'd"

section \<open>Small state helpers\<close>

definition upd_ep :: "'d htc_target \<Rightarrow> nat \<Rightarrow> (htc_endpoint \<Rightarrow> htc_endpoint) \<Rightarrow> 'd htc_target" where
  "upd_ep t e f = t\<lparr>endpoint := (endpoint t)(e := f (endpoint t e))\<rparr>"

definition upd_cd :: "'d htc_target \<Rightarrow> nat \<Rightarrow>
    (htc_endpoint_credit_dist \<Rightarrow> htc_endpoint_credit_dist) \<Rightarrow> 'd htc_target" where
  "upd_cd t e f = t\<lparr>cred_dist := (cred_dist t)(e := f (cred_dist t e))\<rparr>"

definition upd_st :: "'d htc_target \<Rightarrow> nat \<Rightarrow> (htc_endpoint_stats \<Rightarrow> htc_endpoint_stats) \<Rightarrow> 'd htc_target" where
  "upd_st t e f = upd_ep t e (\<lambda>ep. ep\<lparr>ep_st := f (ep_st ep)\<rparr>)"

definition emit :: "'d htc_target \<Rightarrow> htc_event \<Rightarrow> 'd htc_target" where
  "emit t ev = t\<lparr>events := events t @ [ev]\<rparr>"

lemma upd_ep_simps [simp]:
  "endpoint (upd_ep t e f) = (endpoint t)(e := f (endpoint t e))"
  "cred_dist (upd_ep t e f) = cred_dist t" "cred_dist_list (upd_ep t e f) = cred_dist_list t"
  "credit_info (upd_ep t e f) = credit_info t" "events (upd_ep t e f) = events t"
  "dev (upd_ep t e f) = dev t" "tgt_cred_sz (upd_ep t e f) = tgt_cred_sz t"
  "block_mask (upd_ep t e f) = block_mask t" "htc_flags (upd_ep t e f) = htc_flags t"
  "free_ctrl_rxbuf (upd_ep t e f) = free_ctrl_rxbuf t" "rx_st_flags (upd_ep t e f) = rx_st_flags t"
  "msg_per_bndl_max (upd_ep t e f) = msg_per_bndl_max t" "ep_waiting (upd_ep t e f) = ep_waiting t"
  by (simp_all add: upd_ep_def)

lemma upd_cd_simps [simp]:
  "cred_dist (upd_cd t e f) = (cred_dist t)(e := f (cred_dist t e))"
  "endpoint (upd_cd t e f) = endpoint t" "cred_dist_list (upd_cd t e f) = cred_dist_list t"
  "credit_info (upd_cd t e f) = credit_info t" "events (upd_cd t e f) = events t"
  "dev (upd_cd t e f) = dev t" "tgt_cred_sz (upd_cd t e f) = tgt_cred_sz t"
  "block_mask (upd_cd t e f) = block_mask t" "htc_flags (upd_cd t e f) = htc_flags t"
  by (simp_all add: upd_cd_def)

lemma emit_simps [simp]:
  "endpoint (emit t ev) = endpoint t" "cred_dist (emit t ev) = cred_dist t"
  "cred_dist_list (emit t ev) = cred_dist_list t" "credit_info (emit t ev) = credit_info t"
  "events (emit t ev) = events t @ [ev]" "dev (emit t ev) = dev t" "htc_flags (emit t ev) = htc_flags t"
  "tgt_cred_sz (emit t ev) = tgt_cred_sz t" "block_mask (emit t ev) = block_mask t"
  "free_ctrl_rxbuf (emit t ev) = free_ctrl_rxbuf t" "rx_st_flags (emit t ev) = rx_st_flags t"
  "msg_per_bndl_max (emit t ev) = msg_per_bndl_max t" "ep_waiting (emit t ev) = ep_waiting t"
  by (simp_all add: emit_def)

text \<open>\<open>CALC_TXRX_PADDED_LEN(dev, len)\<close>\<close>

definition CALC_TXRX_PADDED_LEN :: "'d htc_target \<Rightarrow> nat \<Rightarrow> nat" where
  "CALC_TXRX_PADDED_LEN t len = align_mask len (block_mask t)"

text \<open>The bytes the packet's \<open>buf\<close> and \<open>act_len\<close> describe.\<close>

definition payload :: "htc_packet \<Rightarrow> u8 list" where
  "payload p = read_bytes (pkt_mem p) (buf p) (act_len p)"

definition set_htc_pkt_info :: "htc_packet \<Rightarrow> nat \<Rightarrow> int \<Rightarrow> nat \<Rightarrow> nat \<Rightarrow> nat \<Rightarrow> htc_packet" where
  "set_htc_pkt_info p ctxt b len e tg =
     p\<lparr>pkt_cntxt := ctxt, buf := b, act_len := len, endpoint_pkt := e, tag := tg\<rparr>"

definition htc_rxpkt_reset :: "htc_packet \<Rightarrow> htc_packet" where
  "htc_rxpkt_reset p = p\<lparr>buf := buf_start p, act_len := 0\<rparr>"

definition set_htc_rxpkt_info :: "htc_packet \<Rightarrow> nat \<Rightarrow> int \<Rightarrow> nat \<Rightarrow> nat \<Rightarrow> htc_packet" where
  "set_htc_rxpkt_info p ctxt b len e =
     p\<lparr>pkt_cntxt := ctxt, buf := b, buf_start := b, buf_len := len, endpoint_pkt := e\<rparr>"

end
