(* ===== verification/HtcTx.thy ===== *)
theory HtcTx
  imports HtcTarget
begin

text \<open>
  The transmit half of the HTC mailbox layer (drivers/ath6kl/htc.c, from
  \<open>ath6kl_htc_tx_buf_align\<close> to \<open>htc_chk_ep_txq\<close>, and the transmit entry points further down).

  A C function that walks a target takes the target and returns it updated.  The bus calls are
  the fields of \<open>htc_env\<close>; a packet handed to the bus is logged as \<open>TxWrite\<close> (with the length
  written and the status of the call, which \<open>ath6kl_htc_tx_from_queue\<close> ignores) or, for a
  scatter request, as \<open>TxBundle\<close>.  Completions are separate steps of the bus: they run the
  completion handlers below.  Locks are not modelled: every operation is one atomic step, and
  the places where the C code drops a lock are between steps of this model.
\<close>

section \<open>Preparing a packet\<close>

definition ath6kl_htc_tx_buf_align :: "htc_packet \<Rightarrow> nat \<Rightarrow> htc_packet" where
  "ath6kl_htc_tx_buf_align p n =
     (if 4 dvd buf p then p
      else let a = (buf p - 4 + 3) div 4 * 4
           in p\<lparr>pkt_mem := memmove (pkt_mem p) a (buf p) n, buf := a\<rparr>)"

definition ath6kl_htc_tx_prep_pkt :: "htc_packet \<Rightarrow> u8 \<Rightarrow> int \<Rightarrow> int \<Rightarrow> htc_packet" where
  "ath6kl_htc_tx_prep_pkt p flags c0 c1 =
     (let b = buf p - int HTC_HDR_LENGTH
      in p\<lparr>buf := b,
           pkt_mem := write_bytes (pkt_mem p) b
             (put_hdr \<lparr>eid_hdr = of_nat (endpoint_pkt p), flags_hdr = flags, payld_len = act_len p,
                       ctrl0 = of_int c0, ctrl1 = of_int c1\<rparr>)\<rparr>)"

definition htc_reclaim_txctrl_buf :: "'d htc_target \<Rightarrow> htc_packet \<Rightarrow> 'd htc_target" where
  "htc_reclaim_txctrl_buf t p = t\<lparr>free_ctrl_txbuf := free_ctrl_txbuf t @ [p]\<rparr>"

definition htc_get_control_buf :: "'d htc_target \<Rightarrow> bool \<Rightarrow> htc_packet option \<times> 'd htc_target" where
  "htc_get_control_buf t tx =
     (if tx then
        (case free_ctrl_txbuf t of
           [] \<Rightarrow> (None, t)
         | p # ps \<Rightarrow> (Some (p\<lparr>buf := buf_start p + int HTC_HDR_LENGTH\<rparr>), t\<lparr>free_ctrl_txbuf := ps\<rparr>))
      else
        (case free_ctrl_rxbuf t of
           [] \<Rightarrow> (None, t)
         | p # ps \<Rightarrow> (Some p, t\<lparr>free_ctrl_rxbuf := ps\<rparr>)))"

section \<open>Credit operations on the target\<close>

definition distribute_t :: "'d htc_target \<Rightarrow> htc_credit_dist_reason \<Rightarrow> 'd htc_target" where
  "distribute_t t r =
     (let (ci, ds) = ath6kl_credit_distribute (credit_info t) (cred_dist t) (cred_dist_list t) r
      in t\<lparr>credit_info := ci, cred_dist := ds\<rparr>)"

definition seek_t :: "'d htc_target \<Rightarrow> nat \<Rightarrow> 'd htc_target" where
  "seek_t t e =
     (let (ci, ds) = ath6kl_credit_seek (credit_info t) (cred_dist t) e
      in t\<lparr>credit_info := ci, cred_dist := ds\<rparr>)"

section \<open>Completion\<close>

definition htc_tx_comp_update :: "'d htc_target \<Rightarrow> nat \<Rightarrow> htc_packet \<Rightarrow> htc_packet \<times> 'd htc_target" where
  "htc_tx_comp_update t e p =
     (let p' = p\<lparr>completion := False, buf := buf p + int HTC_HDR_LENGTH\<rparr> in
      if status p = 0 then (p', t)
      else
        let t1 = upd_cd t e (\<lambda>d. d\<lparr>cred_to_dist := cred_to_dist d + cred_used p,
                                   txq_depth := int (length (txq (endpoint t e)))\<rparr>)
        in (p', distribute_t t1 HTC_CREDIT_DIST_SEND_COMPLETE))"

definition htc_tx_complete :: "'d htc_target \<Rightarrow> nat \<Rightarrow> htc_packet list \<Rightarrow> 'd htc_target" where
  "htc_tx_complete t e ps = (if ps = [] then t else emit t (TxComplete ps))"

definition htc_tx_comp_handler :: "'d htc_target \<Rightarrow> htc_packet \<Rightarrow> 'd htc_target" where
  "htc_tx_comp_handler t p =
     (let (p', t1) = htc_tx_comp_update t (endpoint_pkt p) p
      in htc_tx_complete t1 (endpoint_pkt p) [p'])"

text \<open>
  The loop of \<open>htc_async_tx_scat_complete\<close>; a missing packet makes the function return at once,
  with the request neither freed nor completed (\<open>None\<close>).
\<close>

fun scat_complete_loop ::
    "'d htc_target \<Rightarrow> nat \<Rightarrow> int \<Rightarrow> htc_packet option list \<Rightarrow> (htc_packet list) option \<times> 'd htc_target" where
  "scat_complete_loop t e st [] = (Some [], t)"
| "scat_complete_loop t e st (None # ps) = (None, t)"
| "scat_complete_loop t e st (Some p # ps) =
     (let (p', t1) = htc_tx_comp_update t e (p\<lparr>status := st\<rparr>);
          (r, t2) = scat_complete_loop t1 e st ps
      in (map_option ((#) p') r, t2))"

definition htc_async_tx_scat_complete ::
    "'d htc_env \<Rightarrow> 'd htc_target \<Rightarrow> nat \<Rightarrow> int \<Rightarrow> htc_packet option list \<Rightarrow> 'd htc_target" where
  "htc_async_tx_scat_complete env t e st ps =
     (case scat_complete_loop t e st ps of
        (None, t1) \<Rightarrow> t1
      | (Some q, t1) \<Rightarrow> htc_tx_complete (t1\<lparr>dev := hif_scatter_req_add env (dev t1)\<rparr>) e q)"

definition ath6kl_htc_tx_issue ::
    "'d htc_env \<Rightarrow> 'd htc_target \<Rightarrow> htc_packet \<Rightarrow> int \<times> htc_packet \<times> 'd htc_target" where
  "ath6kl_htc_tx_issue env t p =
     (let padded = CALC_TXRX_PADDED_LEN t (act_len p + HTC_HDR_LENGTH) in
      if \<not> completion p then
        let (st, d) = hif_write_sync env (dev t) p padded
        in (st, p\<lparr>status := st, buf := buf p + int HTC_HDR_LENGTH\<rparr>, emit (t\<lparr>dev := d\<rparr>) (TxWrite p padded st))
      else
        let (st, d) = hif_write_async env (dev t) p padded
        in (st, p, emit (t\<lparr>dev := d\<rparr>) (TxWrite p padded st)))"

section \<open>Credits for a packet\<close>

text \<open>Credits a message of \<open>len\<close> bytes needs.\<close>

definition req_credits :: "'d htc_target \<Rightarrow> nat \<Rightarrow> int" where
  "req_credits t len =
     (if len > tgt_cred_sz t then int ((len + tgt_cred_sz t - 1) div tgt_cred_sz t) else 1)"

definition htc_pre_check_credits ::
    "'d htc_target \<Rightarrow> nat \<Rightarrow> nat \<Rightarrow> nat \<Rightarrow> int \<times> int \<times> 'd htc_target" where
  "htc_pre_check_credits t e pe len =
     (let req = req_credits t len in
      if credits (cred_dist t e) < req then
        if pe = 0 then (- EINVAL, req, t)
        else
          let t1 = upd_cd t e (\<lambda>d. d\<lparr>seek_cred := req - credits d\<rparr>);
              t2 = upd_cd (seek_t t1 e) e (\<lambda>d. d\<lparr>seek_cred := 0\<rparr>)
          in if credits (cred_dist t2 e) < req then (- EINVAL, req, t2) else (0, req, t2)
      else (0, req, t))"

text \<open>\<open>htc_check_credits\<close> starts with the same test, then takes the credits and asks for more.\<close>

definition htc_check_credits ::
    "'d htc_target \<Rightarrow> nat \<Rightarrow> u8 \<Rightarrow> nat \<Rightarrow> nat \<Rightarrow> int \<times> int \<times> u8 \<times> 'd htc_target" where
  "htc_check_credits t e flags pe len =
     (let (st, req, t1) = htc_pre_check_credits t e pe len in
      if st \<noteq> 0 then (st, req, flags, t1)
      else
        let t2 = upd_cd t1 e (\<lambda>d. d\<lparr>credits := credits d - req\<rparr>);
            t3 = upd_st t2 e (\<lambda>s. s\<lparr>cred_cosumd := cred_cosumd s + of_int req\<rparr>)
        in if credits (cred_dist t3 e) < cred_per_msg (cred_dist t3 e) then
             let t4 = upd_cd t3 e (\<lambda>d. d\<lparr>seek_cred := cred_per_msg d - credits d\<rparr>);
                 t5 = seek_t t4 e
             in if credits (cred_dist t5 e) < cred_per_msg (cred_dist t5 e)
                then (0, req, flags OR HTC_FLAGS_NEED_CREDIT_UPDATE,
                      upd_st t5 e (\<lambda>s. s\<lparr>cred_low_indicate := cred_low_indicate s + 1\<rparr>))
                else (0, req, flags, t5)
           else (0, req, flags, t3))"

section \<open>Taking packets off an endpoint queue\<close>

text \<open>The timer mode of \<open>ath6kl_htc_tx_pkts_get\<close> and \<open>ath6kl_htc_tx_from_queue\<close>.\<close>

definition timer_mode :: "'d htc_env \<Rightarrow> 'd htc_target \<Rightarrow> nat \<Rightarrow> bool" where
  "timer_mode env t e \<longleftrightarrow> low_cpu_power_tx_bundle_max env \<noteq> 0 \<and> htc_bundle_send_timer env \<noteq> 0
     \<and> eid (endpoint t e) = 2 \<and> \<not> call_by_timer (endpoint t e)"

text \<open>
  The loop.  \<open>lim\<close> is \<open>Some (total_credit, reserved_credit)\<close> in timer mode; \<open>used\<close> is \<open>used_credit\<close>;
  the last argument is the endpoint's queue.
\<close>

fun tx_pkts_get_loop ::
    "'d htc_target \<Rightarrow> nat \<Rightarrow> (int \<times> int) option \<Rightarrow> int \<Rightarrow> htc_packet list \<Rightarrow> htc_packet list \<times> 'd htc_target" where
  "tx_pkts_get_loop t e lim used [] = ([], t)"
| "tx_pkts_get_loop t e lim used (p # ps) =
     (if (case lim of None \<Rightarrow> False | Some (tot, resv) \<Rightarrow> tot - used = resv) then ([], t)
      else
        let (st, req, flags, t1) = htc_check_credits t e 0 (endpoint_pkt p)
                                     (CALC_TXRX_PADDED_LEN t (act_len p + HTC_HDR_LENGTH))
        in if st \<noteq> 0 then ([], t1)
           else
             let p' = p\<lparr>cred_used := req, completion := True, tx_flags := flags,
                        seqno_tx := unat (seqno (endpoint t1 e))\<rparr>;
                 t2 = upd_ep t1 e (\<lambda>ep. ep\<lparr>txq := ps, seqno := seqno ep + 1,
                        ep_st := (ep_st ep)\<lparr>tx_issued := tx_issued (ep_st ep) + 1\<rparr>\<rparr>);
                 (q, t3) = tx_pkts_get_loop t2 e lim (used + req) ps
             in (p' # q, t3))"

definition ath6kl_htc_tx_pkts_get :: "'d htc_env \<Rightarrow> 'd htc_target \<Rightarrow> nat \<Rightarrow> htc_packet list \<times> 'd htc_target" where
  "ath6kl_htc_tx_pkts_get env t e =
     (let (lim, t1) =
        (if timer_mode env t e then
           (case txq (endpoint t e) of
              [] \<Rightarrow> (None, t)
            | p # _ \<Rightarrow>
                let (_, _, t') = htc_pre_check_credits t e (endpoint_pkt p) 1500;
                    tot = credits (cred_dist t' e)
                in (Some (tot, tot smod int (low_cpu_power_tx_bundle_max env)), t'))
         else (None, t))
      in tx_pkts_get_loop t1 e lim 0 (txq (endpoint t1 e)))"

section \<open>Bundles\<close>

definition htc_get_credit_padding :: "nat \<Rightarrow> nat \<Rightarrow> u32 \<Rightarrow> int \<times> nat" where
  "htc_get_credit_padding csz len flags =
     (let rem_cred = len mod csz in
      if rem_cred = 0 then (0, len)
      else if \<not> has_flag flags HTC_FLGS_TX_BNDL_PAD_EN then (-1, len)
      else
        let cred_pad = (if len < csz then csz - len else rem_cred)
        in if cred_pad > 0 \<and> cred_pad \<le> 255 then (int cred_pad, len + cred_pad)
           else (-1, len))"

text \<open>The loop of \<open>ath6kl_htc_tx_setup_scat_list\<close>: status, entries, what is left of the queue.\<close>

fun setup_scat_loop ::
    "'d htc_target \<Rightarrow> nat \<Rightarrow> nat \<Rightarrow> int \<Rightarrow> htc_packet list \<Rightarrow> int \<times> (htc_packet \<times> nat) list \<times> htc_packet list" where
  "setup_scat_loop t e 0 rem_scat q = (0, [], q)"
| "setup_scat_loop t e (Suc n) rem_scat [] = (0, [], [])"
| "setup_scat_loop t e (Suc n) rem_scat (p # q) =
     (let (cred_pad, len) = htc_get_credit_padding (tgt_cred_sz t)
            (CALC_TXRX_PADDED_LEN t (act_len p + HTC_HDR_LENGTH)) (conn_flags (endpoint t e))
      in if cred_pad < 0 \<or> rem_scat < int len then (- ENOSPC, [], p # q)
         else
           let p1 = ath6kl_htc_tx_prep_pkt p (tx_flags p OR HTC_FLAGS_SEND_BUNDLE) cred_pad (int (seqno_tx p));
               p2 = ath6kl_htc_tx_buf_align p1 (act_len p1 + HTC_HDR_LENGTH);
               (st, ents, q') = setup_scat_loop t e n (rem_scat - int len) q
           in (st, (p2, len) # ents, q'))"

definition ath6kl_htc_tx_setup_scat_list ::
    "'d htc_target \<Rightarrow> nat \<Rightarrow> nat \<Rightarrow> htc_packet list \<Rightarrow> int \<times> (htc_packet \<times> nat) list \<times> htc_packet list" where
  "ath6kl_htc_tx_setup_scat_list t e n_scat q =
     (let (st, ents, q') = setup_scat_loop t e n_scat (max_tx_bndl_sz t) q in
      if length ents < HTC_MIN_HTC_MSGS_TO_BUNDLE
      then (- EAGAIN, [], map (\<lambda>(p, _). p\<lparr>buf := buf p + int HTC_HDR_LENGTH\<rparr>) ents @ q')
      else (st, ents, q'))"

text \<open>
  The access category of an endpoint.  The guard of the C code, \<open>svc != HTC_CTRL_RSVD_SVC ||
  svc != WMI_CONTROL_SVC\<close>, holds for every service.
\<close>

definition endpoint_ac :: "'d htc_env \<Rightarrow> 'd htc_target \<Rightarrow> nat \<Rightarrow> nat" where
  "endpoint_ac env t e =
     (if HTC_CTRL_RSVD_SVC \<noteq> svc_id (endpoint t e) \<or> WMI_CONTROL_SVC \<noteq> svc_id (endpoint t e)
      then ep2ac_map env (eid (endpoint t e)) else WMM_NUM_AC)"

definition bundle_mask :: "'d htc_target \<Rightarrow> nat \<Rightarrow> int \<Rightarrow> 'd htc_target" where
  "bundle_mask t ac depth =
     (if ac < WMM_NUM_AC \<and> ac \<noteq> WMM_AC_BK then
        let m = (if ac = WMM_AC_BE then push_bit WMM_AC_BK 1 else push_bit ac 1 - 1)
        in if depth < ATH6KL_SCATTER_REQS then t\<lparr>tx_bndl_mask := clear_flag (tx_bndl_mask t) m\<rparr>
           else t\<lparr>tx_bndl_mask := set_flag (tx_bndl_mask t) m\<rparr>
      else t)"

lemma bundle_mask_keeps [simp]:
  "endpoint (bundle_mask t ac n) = endpoint t" "cred_dist (bundle_mask t ac n) = cred_dist t"
  "cred_dist_list (bundle_mask t ac n) = cred_dist_list t" "credit_info (bundle_mask t ac n) = credit_info t"
  "events (bundle_mask t ac n) = events t" "dev (bundle_mask t ac n) = dev t"
  "block_mask (bundle_mask t ac n) = block_mask t" "tgt_cred_sz (bundle_mask t ac n) = tgt_cred_sz t"
  "max_tx_bndl_sz (bundle_mask t ac n) = max_tx_bndl_sz t"
  "msg_per_bndl_max (bundle_mask t ac n) = msg_per_bndl_max t"
  by (simp_all add: bundle_mask_def Let_def)

text \<open>Messages and sizes: a list of scatter entries and the rest of the queue are the old queue.\<close>

lemma setup_scat_loop_length:
  "setup_scat_loop t e n r q = (st, ents, q') \<Longrightarrow> length ents + length q' = length q"
  by (induction t e n r q arbitrary: st ents q' rule: setup_scat_loop.induct)
    (auto simp: Let_def split: prod.splits if_splits)

lemma setup_scat_list_length:
  assumes "ath6kl_htc_tx_setup_scat_list t e n q = (st, ents, q')"
  shows "length ents + length q' = length q" "st \<noteq> - EAGAIN \<Longrightarrow> length q' < length q"
proof -
  obtain st0 ents0 q0 where l: "setup_scat_loop t e n (max_tx_bndl_sz t) q = (st0, ents0, q0)"
    by (metis prod_cases3)
  note len = setup_scat_loop_length [OF l]
  show "length ents + length q' = length q" "st \<noteq> - EAGAIN \<Longrightarrow> length q' < length q"
    using assms l len
    by (auto simp: ath6kl_htc_tx_setup_scat_list_def HTC_MIN_HTC_MSGS_TO_BUNDLE_def split: if_splits)
qed

text \<open>
  \<open>ath6kl_htc_tx_bundle\<close>: the number of bundles sent, the number of packets in them, the rest of
  the queue.  Every bundle takes at least two packets off the queue, so the loop ends.
\<close>

function tx_bundle_loop ::
    "'d htc_env \<Rightarrow> 'd htc_target \<Rightarrow> nat \<Rightarrow> nat \<Rightarrow> htc_packet list \<Rightarrow> nat \<times> nat \<times> htc_packet list \<times> 'd htc_target" where
  "tx_bundle_loop env t e ac q =
     (let n_scat = min (int (length q)) (msg_per_bndl_max t) in
      if n_scat < int HTC_MIN_HTC_MSGS_TO_BUNDLE then (0, 0, q, t)
      else case hif_scatter_req_get env (dev t) of
             (None, d) \<Rightarrow> (0, 0, q, t\<lparr>dev := d\<rparr>)
           | (Some depth, d) \<Rightarrow>
               let t1 = bundle_mask (t\<lparr>dev := d\<rparr>) ac depth in
               (case ath6kl_htc_tx_setup_scat_list t1 e (nat n_scat) q of (st, ents, q1) \<Rightarrow>
                 if st = - EAGAIN then (0, 0, q1, t1\<lparr>dev := hif_scatter_req_add env (dev t1)\<rparr>)
                 else
                   let t2 = emit (t1\<lparr>dev := hif_scat_write env (dev t1) ents\<rparr>) (TxBundle ents) in
                   if st \<noteq> 0 then (1, length ents, q1, t2)
                   else (case tx_bundle_loop env t2 e ac q1 of (n, k, q2, t3) \<Rightarrow>
                           (n + 1, k + length ents, q2, t3))))"
  by pat_completeness auto
termination
  by (relation "measure (\<lambda>(env, t, e, ac, q). length q)") (auto dest!: setup_scat_list_length(2) [OF sym])

declare tx_bundle_loop.simps [simp del]

definition ath6kl_htc_tx_bundle ::
    "'d htc_env \<Rightarrow> 'd htc_target \<Rightarrow> nat \<Rightarrow> htc_packet list \<Rightarrow> nat \<times> nat \<times> htc_packet list \<times> 'd htc_target" where
  "ath6kl_htc_tx_bundle env t e q = tx_bundle_loop env t e (endpoint_ac env t e) q"

lemma tx_bundle_loop_length:
  "tx_bundle_loop env t e ac q = (n, k, q', t') \<Longrightarrow> length q' \<le> length q"
proof (induction env t e ac q arbitrary: n k q' t' rule: tx_bundle_loop.induct)
  case (1 env t e ac q)
  show ?case
    using 1(2)
    by (subst (asm) tx_bundle_loop.simps)
      (auto simp: Let_def split: prod.splits option.splits if_splits
        dest!: 1(1) [rotated -1] dest: setup_scat_list_length(1))
qed

section \<open>Draining an endpoint queue\<close>

text \<open>One pass of the inner loop may bundle, then sends one packet by itself.\<close>

definition tx_try_bundle ::
    "'d htc_env \<Rightarrow> 'd htc_target \<Rightarrow> nat \<Rightarrow> nat \<Rightarrow> htc_packet list \<Rightarrow> nat \<times> nat \<times> htc_packet list \<times> 'd htc_target" where
  "tx_try_bundle env t e ac q =
     (if tx_bndl_mask t \<noteq> 0 \<and> length q \<ge> HTC_MIN_HTC_MSGS_TO_BUNDLE
         \<and> has_flag (tx_bndl_mask t) (push_bit ac 1)
      then ath6kl_htc_tx_bundle env t e q else (0, 0, q, t))"

lemma tx_try_bundle_length:
  "tx_try_bundle env t e ac q = (n, k, q', t') \<Longrightarrow> length q' \<le> length q"
  by (auto simp: tx_try_bundle_def ath6kl_htc_tx_bundle_def dest: tx_bundle_loop_length split: if_splits)

function tx_send_loop ::
    "'d htc_env \<Rightarrow> 'd htc_target \<Rightarrow> nat \<Rightarrow> nat \<Rightarrow> nat \<Rightarrow> nat \<Rightarrow> htc_packet list \<Rightarrow> nat \<times> nat \<times> 'd htc_target" where
  "tx_send_loop env t e ac bundle_sent n_pkts_bundle q =
     (case tx_try_bundle env t e ac q of (b, k, q1, t1) \<Rightarrow>
        (case q1 of
           [] \<Rightarrow> (bundle_sent + b, n_pkts_bundle + k, t1)
         | p # ps \<Rightarrow>
             (case ath6kl_htc_tx_issue env t1 (ath6kl_htc_tx_prep_pkt p (tx_flags p) 0 (int (seqno_tx p))) of
                (_, _, t2) \<Rightarrow> tx_send_loop env t2 e ac (bundle_sent + b) (n_pkts_bundle + k) ps)))"
  by pat_completeness auto
termination
  by (relation "measure (\<lambda>(env, t, e, ac, b, n, q). length q)") (auto dest!: tx_try_bundle_length [OF sym])

declare tx_send_loop.simps [simp del]

text \<open>Bundling of an AC comes back after enough unbundled passes.\<close>

definition resume_bundling :: "'d htc_target \<Rightarrow> nat \<Rightarrow> nat \<Rightarrow> 'd htc_target" where
  "resume_bundling t ac bundle_sent =
     (if bundle_sent = 0 then
        (if \<not> has_flag (tx_bndl_mask t) (push_bit ac 1) \<and> ac < WMM_NUM_AC then
           let c = ac_tx_count t ac + 1 in
           if c \<ge> TX_RESUME_BUNDLE_THRESHOLD
           then t\<lparr>ac_tx_count := (ac_tx_count t)(ac := 0), tx_bndl_mask := set_flag (tx_bndl_mask t) (push_bit ac 1)\<rparr>
           else t\<lparr>ac_tx_count := (ac_tx_count t)(ac := c)\<rparr>
         else t)
      else if ac < WMM_NUM_AC then t\<lparr>ac_tx_count := (ac_tx_count t)(ac := 0)\<rparr> else t)"

subsection \<open>What the pieces leave alone\<close>

text \<open>
  \<open>tx_cfg\<close> is what no transmit operation changes; \<open>ep_core\<close> an endpoint without its statistics.
\<close>

definition tx_cfg where
  "tx_cfg t = (cred_dist_list t, block_mask t, tgt_cred_sz t, msg_per_bndl_max t, max_tx_bndl_sz t, htc_flags t,
     free_ctrl_txbuf t, free_ctrl_rxbuf t, rx_st_flags t, ep_waiting t, rx_bndl_enable t, max_rx_bndl_sz t)"

text \<open>What the receive side uses of an endpoint.\<close>

definition ep_rx :: "htc_endpoint \<Rightarrow> htc_packet list \<times> htc_ep_callbacks \<times> nat \<times> nat" where
  "ep_rx ep = (rx_bufq ep, ep_cb ep, svc_id ep, eid ep)"

definition ep_core :: "htc_endpoint \<Rightarrow> htc_endpoint" where
  "ep_core ep = ep\<lparr>ep_st := zero_stats\<rparr>"

lemma ep_core_stats [simp]: "ep_core (ep\<lparr>ep_st := s\<rparr>) = ep_core ep"
  by (simp add: ep_core_def)

lemma ep_core_eqD:
  assumes "ep_core a = ep_core b"
  shows "txq a = txq b" "seqno a = seqno b" "conn_flags a = conn_flags b" "svc_id a = svc_id b"
    "eid a = eid b" "tx_proc_cnt a = tx_proc_cnt b" "call_by_timer a = call_by_timer b"
    "max_txq_depth a = max_txq_depth b" "ep_cb a = ep_cb b" "rx_bufq a = rx_bufq b"
  using assms by (cases a; cases b; simp add: ep_core_def)+

lemma ep_core_rx:
  assumes "ep_core a = ep_core b"
  shows "ep_rx a = ep_rx b"
  using ep_core_eqD [OF assms] by (simp add: ep_rx_def)

lemma ep_rx_simps [simp]:
  "ep_rx (ep\<lparr>txq := q\<rparr>) = ep_rx ep" "ep_rx (ep\<lparr>tx_proc_cnt := n\<rparr>) = ep_rx ep" "ep_rx (ep\<lparr>ep_st := s\<rparr>) = ep_rx ep"
  "ep_rx (ep\<lparr>call_by_timer := b\<rparr>) = ep_rx ep" "ep_rx (ep\<lparr>timer_init := b\<rparr>) = ep_rx ep"
  "ep_rx (ep\<lparr>txq := q, seqno := k\<rparr>) = ep_rx ep"
  "ep_rx (ep\<lparr>txq := q, seqno := k, ep_st := s\<rparr>) = ep_rx ep"
  by (simp_all add: ep_rx_def)

lemma tx_cfg_eqD:
  assumes "tx_cfg a = tx_cfg b"
  shows "cred_dist_list a = cred_dist_list b" "block_mask a = block_mask b" "tgt_cred_sz a = tgt_cred_sz b"
    "msg_per_bndl_max a = msg_per_bndl_max b" "max_tx_bndl_sz a = max_tx_bndl_sz b" "htc_flags a = htc_flags b"
    "free_ctrl_txbuf a = free_ctrl_txbuf b" "free_ctrl_rxbuf a = free_ctrl_rxbuf b" "rx_st_flags a = rx_st_flags b"
    "ep_waiting a = ep_waiting b" "rx_bndl_enable a = rx_bndl_enable b" "max_rx_bndl_sz a = max_rx_bndl_sz b"
  using assms by (simp_all add: tx_cfg_def)

lemma tx_cfg_simps [simp]:
  "tx_cfg (upd_ep t e f) = tx_cfg t" "tx_cfg (upd_cd t e g) = tx_cfg t" "tx_cfg (emit t ev) = tx_cfg t"
  "tx_cfg (upd_st t e h) = tx_cfg t" "tx_cfg (seek_t t e) = tx_cfg t" "tx_cfg (distribute_t t r) = tx_cfg t"
  "tx_cfg (bundle_mask t ac n) = tx_cfg t" "tx_cfg (resume_bundling t ac k) = tx_cfg t"
  "tx_cfg (t\<lparr>dev := d\<rparr>) = tx_cfg t"
  by (simp_all add: tx_cfg_def upd_ep_def upd_cd_def upd_st_def emit_def seek_t_def distribute_t_def
      bundle_mask_def resume_bundling_def Let_def split: prod.split)

lemma seek_t_simps [simp]:
  "endpoint (seek_t t e) = endpoint t" "events (seek_t t e) = events t" "dev (seek_t t e) = dev t"
  "cred_dist_list (seek_t t e) = cred_dist_list t" "tx_bndl_mask (seek_t t e) = tx_bndl_mask t"
  by (simp_all add: seek_t_def split: prod.split)

lemma distribute_t_simps [simp]:
  "endpoint (distribute_t t r) = endpoint t" "events (distribute_t t r) = events t"
  "dev (distribute_t t r) = dev t" "cred_dist_list (distribute_t t r) = cred_dist_list t"
  by (simp_all add: distribute_t_def split: prod.split)

lemma resume_bundling_simps [simp]:
  "endpoint (resume_bundling t ac n) = endpoint t" "events (resume_bundling t ac n) = events t"
  "cred_dist (resume_bundling t ac n) = cred_dist t" "credit_info (resume_bundling t ac n) = credit_info t"
  by (simp_all add: resume_bundling_def Let_def)

lemma upd_st_simps [simp]:
  "cred_dist (upd_st t e f) = cred_dist t" "credit_info (upd_st t e f) = credit_info t"
  "events (upd_st t e f) = events t" "cred_dist_list (upd_st t e f) = cred_dist_list t"
  "ep_core (endpoint (upd_st t e f) x) = ep_core (endpoint t x)"
  "dev (upd_st t e f) = dev t"
  by (simp_all add: upd_st_def upd_ep_def)

lemma pre_check_credits_frame:
  assumes "htc_pre_check_credits t e pe len = (st, req, t')"
  shows "endpoint t' = endpoint t" "events t' = events t" "tx_cfg t' = tx_cfg t" "dev t' = dev t"
    "req = req_credits t len" "st = 0 \<or> st = - EINVAL"
  using assms by (auto simp: htc_pre_check_credits_def Let_def split: if_splits)

lemma check_credits_frame:
  assumes "htc_check_credits t e fl pe len = (st, req, fl', t')"
  shows "ep_core (endpoint t' x) = ep_core (endpoint t x)" "events t' = events t" "tx_cfg t' = tx_cfg t"
    "dev t' = dev t" "req = req_credits t len" "st = 0 \<or> st = - EINVAL"
proof -
  obtain st0 req0 t0 where p: "htc_pre_check_credits t e pe len = (st0, req0, t0)" by (metis prod_cases3)
  note f = pre_check_credits_frame [OF p]
  show "ep_core (endpoint t' x) = ep_core (endpoint t x)" "events t' = events t" "tx_cfg t' = tx_cfg t"
    "dev t' = dev t" "req = req_credits t len" "st = 0 \<or> st = - EINVAL"
    using assms p f by (auto simp: htc_check_credits_def Let_def split: if_splits)
qed

definition issued_pkt :: "'d htc_target \<Rightarrow> nat \<Rightarrow> htc_packet \<Rightarrow> int \<Rightarrow> u8 \<Rightarrow> htc_packet" where
  "issued_pkt t e p req flags =
     p\<lparr>cred_used := req, completion := True, tx_flags := flags, seqno_tx := unat (seqno (endpoint t e))\<rparr>"

definition issued_t :: "'d htc_target \<Rightarrow> nat \<Rightarrow> htc_packet list \<Rightarrow> 'd htc_target" where
  "issued_t t e ps = upd_ep t e (\<lambda>ep. ep\<lparr>txq := ps, seqno := seqno ep + 1,
                        ep_st := (ep_st ep)\<lparr>tx_issued := tx_issued (ep_st ep) + 1\<rparr>\<rparr>)"

lemma tx_pkts_get_loop_cases:
  assumes "tx_pkts_get_loop t e lim used (p # ps) = (q', t')"
  obtains (stop) "q' = []" "t' = t"
  | (fail) st req fl where "htc_check_credits t e 0 (endpoint_pkt p)
        (CALC_TXRX_PADDED_LEN t (act_len p + HTC_HDR_LENGTH)) = (st, req, fl, t')" "st \<noteq> 0" "q' = []"
  | (take_one) req fl t1 qs where "htc_check_credits t e 0 (endpoint_pkt p)
        (CALC_TXRX_PADDED_LEN t (act_len p + HTC_HDR_LENGTH)) = (0, req, fl, t1)"
      "tx_pkts_get_loop (issued_t t1 e ps) e lim (used + req) ps = (qs, t')"
      "q' = issued_pkt t1 e p req fl # qs"
proof -
  obtain st req fl t1 where c: "htc_check_credits t e 0 (endpoint_pkt p)
      (CALC_TXRX_PADDED_LEN t (act_len p + HTC_HDR_LENGTH)) = (st, req, fl, t1)" by (metis prod_cases4)
  obtain qs t3 where l: "tx_pkts_get_loop (issued_t t1 e ps) e lim (used + req) ps = (qs, t3)" by fastforce
  note eq = assms [unfolded tx_pkts_get_loop.simps Let_def c prod.case
      issued_pkt_def [symmetric] issued_t_def [symmetric] l]
  show ?thesis
  proof (cases "case lim of None \<Rightarrow> False | Some (tot, resv) \<Rightarrow> tot - used = resv")
    case True
    show ?thesis using eq by (intro stop) (simp_all only: True if_True prod.inject)
  next
    case False
    note eq = eq [unfolded if_not_P [OF False]]
    show ?thesis
    proof (cases "st = 0")
      case True
      have "q' = issued_pkt t1 e p req fl # qs" "t' = t3" using eq True by simp_all
      then show ?thesis using c l True by (intro take_one) simp_all
    next
      case F: False
      have "q' = []" "t' = t1" using eq F by simp_all
      then show ?thesis using c F by (intro fail) simp_all
    qed
  qed
qed

lemma issued_t_simps [simp]:
  "txq (endpoint (issued_t t e ps) e) = ps" "seqno (endpoint (issued_t t e ps) e) = seqno (endpoint t e) + 1"
  "x \<noteq> e \<Longrightarrow> endpoint (issued_t t e ps) x = endpoint t x"
  "ep_rx (endpoint (issued_t t e ps) x) = ep_rx (endpoint t x)"
  "cred_dist (issued_t t e ps) = cred_dist t" "credit_info (issued_t t e ps) = credit_info t"
  "events (issued_t t e ps) = events t" "dev (issued_t t e ps) = dev t"
  "tx_cfg (issued_t t e ps) = tx_cfg t" "cred_dist_list (issued_t t e ps) = cred_dist_list t"
  by (simp_all add: issued_t_def)

lemma tx_pkts_get_loop_frame:
  assumes "tx_pkts_get_loop t e lim used q = (q', t')" and "q = txq (endpoint t e)"
  shows "length q' + length (txq (endpoint t' e)) = length q \<and> tx_cfg t' = tx_cfg t \<and> events t' = events t
    \<and> dev t' = dev t \<and> (\<forall>x. x \<noteq> e \<longrightarrow> ep_core (endpoint t' x) = ep_core (endpoint t x))
    \<and> (\<forall>x. ep_rx (endpoint t' x) = ep_rx (endpoint t x))"
  using assms
proof (induction q arbitrary: t used q' t')
  case Nil
  then show ?case by auto
next
  case (Cons p ps)
  show ?case
    using Cons(2)
  proof (cases rule: tx_pkts_get_loop_cases)
    case stop
    then show ?thesis using Cons(3) by simp
  next
    case (fail st req fl)
    note f = check_credits_frame [OF fail(1)]
    show ?thesis using f fail Cons(3) ep_core_eqD(1) [OF f(1) [of e]] ep_core_rx [OF f(1)] by simp
  next
    case (take_one req fl t1 qs)
    note f = check_credits_frame [OF take_one(1)]
    have "ps = txq (endpoint (issued_t t1 e ps) e)" by simp
    note ih = Cons(1) [OF take_one(2) this]
    show ?thesis using ih f take_one(3) ep_core_rx [OF f(1)] by simp
  qed
qed

subsection \<open>What reaches the bus\<close>

text \<open>
  The packets an event hands to the bus.  \<open>on_wire p w\<close>: the packet \<open>w\<close> on the bus carries the
  queued packet \<open>p\<close>, i.e. the bytes from its \<open>buf\<close> on are the frame header of \<open>p\<close> followed by
  the payload of \<open>p\<close>; a bundled one is flagged and aligned.  \<open>same_msg p p'\<close>: \<open>p'\<close> is \<open>p\<close>, except
  that its payload may have been moved.
\<close>

fun ev_pkts :: "htc_event \<Rightarrow> htc_packet list" where
  "ev_pkts (TxWrite p n st) = [p]"
| "ev_pkts (TxBundle ents) = map fst ents"
| "ev_pkts _ = []"

definition sent_pkts :: "htc_event list \<Rightarrow> htc_packet list" where
  "sent_pkts evs = concat (map ev_pkts evs)"

fun is_tx_ev :: "htc_event \<Rightarrow> bool" where
  "is_tx_ev (TxWrite p n st) = True"
| "is_tx_ev (TxBundle ents) = True"
| "is_tx_ev (TimerSet e) = True"
| "is_tx_ev _ = False"

definition pkt_core :: "htc_packet \<Rightarrow> htc_packet" where
  "pkt_core p = p\<lparr>buf := 0, pkt_mem := (\<lambda>_. 0)\<rparr>"

definition same_msg :: "htc_packet \<Rightarrow> htc_packet \<Rightarrow> bool" where
  "same_msg p p' \<longleftrightarrow> pkt_core p' = pkt_core p \<and> payload p' = payload p"

definition frame_bytes :: "htc_packet \<Rightarrow> u8 list" where
  "frame_bytes w = read_bytes (pkt_mem w) (buf w) (HTC_HDR_LENGTH + act_len w)"

definition tx_header :: "htc_packet \<Rightarrow> u8 \<Rightarrow> u8 \<Rightarrow> htc_frame_hdr" where
  "tx_header p fl pad = \<lparr>eid_hdr = of_nat (endpoint_pkt p), flags_hdr = fl, payld_len = act_len p,
     ctrl0 = pad, ctrl1 = of_nat (seqno_tx p)\<rparr>"

definition on_wire :: "htc_packet \<Rightarrow> htc_packet \<Rightarrow> bool" where
  "on_wire p w \<longleftrightarrow> pkt_core w = pkt_core p
     \<and> (\<exists>fl pad. frame_bytes w = put_hdr (tx_header p fl pad) @ payload p
          \<and> (fl = tx_flags p \<and> pad = 0 \<or> fl = tx_flags p OR HTC_FLAGS_SEND_BUNDLE \<and> 4 dvd buf w))"

lemma sent_pkts_simps [simp]:
  "sent_pkts [] = []" "sent_pkts (e # es) = ev_pkts e @ sent_pkts es"
  "sent_pkts (as @ bs) = sent_pkts as @ sent_pkts bs"
  by (simp_all add: sent_pkts_def)

lemma pkt_core_simps [simp]:
  "pkt_core (p\<lparr>buf := b\<rparr>) = pkt_core p" "pkt_core (p\<lparr>pkt_mem := m\<rparr>) = pkt_core p"
  "pkt_core (p\<lparr>pkt_mem := m, buf := b\<rparr>) = pkt_core p"
  by (simp_all add: pkt_core_def)

lemma pkt_core_eqD:
  assumes "pkt_core p = pkt_core q"
  shows "act_len p = act_len q" "endpoint_pkt p = endpoint_pkt q" "tx_flags p = tx_flags q"
    "seqno_tx p = seqno_tx q" "cred_used p = cred_used q" "pkt_id p = pkt_id q" "tag p = tag q"
    "status p = status q" "completion p = completion q" "buf_len p = buf_len q"
  using assms by (cases p; cases q; simp add: pkt_core_def)+

lemma prep_pkt_core [simp]: "pkt_core (ath6kl_htc_tx_prep_pkt p fl c0 c1) = pkt_core p"
  by (simp add: ath6kl_htc_tx_prep_pkt_def Let_def)

lemma buf_align_core [simp]: "pkt_core (ath6kl_htc_tx_buf_align p n) = pkt_core p"
  by (simp add: ath6kl_htc_tx_buf_align_def Let_def)

lemma same_msg_refl [simp]: "same_msg p p"
  by (simp add: same_msg_def)

lemma same_msg_trans: "same_msg p q \<Longrightarrow> same_msg q r \<Longrightarrow> same_msg p r"
  by (simp add: same_msg_def)

lemma on_wire_same_msg:
  assumes "same_msg p p'" "on_wire p' w"
  shows "on_wire p w"
proof -
  have c: "pkt_core p' = pkt_core p" and pl: "payload p' = payload p" using assms(1) by (auto simp: same_msg_def)
  note d = pkt_core_eqD [OF c]
  have h: "tx_header p' fl pad = tx_header p fl pad" for fl pad by (simp add: tx_header_def d)
  show ?thesis using assms(2) unfolding on_wire_def h c pl d(3) .
qed

lemma prep_pkt_frame:
  "frame_bytes (ath6kl_htc_tx_prep_pkt p fl c0 (int (seqno_tx p))) = put_hdr (tx_header p fl (of_int c0)) @ payload p"
proof -
  let ?h = "put_hdr (tx_header p fl (of_int c0))" and ?b = "buf p - int HTC_HDR_LENGTH"
  let ?w = "ath6kl_htc_tx_prep_pkt p fl c0 (int (seqno_tx p))"
  have w: "pkt_mem ?w = write_bytes (pkt_mem p) ?b ?h" "buf ?w = ?b" "act_len ?w = act_len p"
    by (simp_all add: ath6kl_htc_tx_prep_pkt_def tx_header_def Let_def)
  have "read_bytes (write_bytes (pkt_mem p) ?b ?h) ?b HTC_HDR_LENGTH = ?h"
    using read_write_same [of "pkt_mem p" ?b ?h] by simp
  moreover have "read_bytes (write_bytes (pkt_mem p) ?b ?h) (buf p) (act_len p) = payload p"
    unfolding payload_def by (rule read_write_apart) simp
  ultimately show "frame_bytes ?w = ?h @ payload p"
    by (simp add: frame_bytes_def w read_bytes_append)
qed

lemma buf_align_frame:
  "frame_bytes (ath6kl_htc_tx_buf_align w (act_len w + HTC_HDR_LENGTH)) = frame_bytes w"
  "4 dvd buf (ath6kl_htc_tx_buf_align w n)"
  by (auto simp: frame_bytes_def ath6kl_htc_tx_buf_align_def Let_def add.commute)

lemma prep_on_wire:
  "on_wire p (ath6kl_htc_tx_prep_pkt p (tx_flags p) 0 (int (seqno_tx p)))"
  using prep_pkt_frame [of p "tx_flags p" 0] by (auto simp: on_wire_def)

lemma prep_align_on_wire:
  fixes p c0
  defines "w \<equiv> ath6kl_htc_tx_prep_pkt p (tx_flags p OR HTC_FLAGS_SEND_BUNDLE) c0 (int (seqno_tx p))"
  shows "on_wire p (ath6kl_htc_tx_buf_align w (act_len w + HTC_HDR_LENGTH))"
  unfolding on_wire_def buf_align_frame(1)
  using prep_pkt_frame [of p "tx_flags p OR HTC_FLAGS_SEND_BUNDLE" c0]
  by (auto simp: w_def buf_align_frame(2))

text \<open>Rolling a prepared packet back gives the same message.\<close>

lemma rollback_same_msg:
  assumes "on_wire p w"
  shows "same_msg p (w\<lparr>buf := buf w + int HTC_HDR_LENGTH\<rparr>)"
proof -
  obtain fl pad where f: "frame_bytes w = put_hdr (tx_header p fl pad) @ payload p"
    using assms by (auto simp: on_wire_def)
  have "drop HTC_HDR_LENGTH (frame_bytes w) = read_bytes (pkt_mem w) (buf w + int HTC_HDR_LENGTH) (act_len w)"
    by (simp add: frame_bytes_def read_bytes_append)
  then have "payload (w\<lparr>buf := buf w + int HTC_HDR_LENGTH\<rparr>) = payload p"
    by (simp add: payload_def [of "w\<lparr>buf := _\<rparr>"] f)
  then show ?thesis using assms by (simp add: same_msg_def on_wire_def)
qed

subsection \<open>A send step\<close>

text \<open>
  \<open>sends t q t' q'\<close>: going from \<open>t\<close> with local queue \<open>q\<close> to \<open>t'\<close> with \<open>q'\<close>, a prefix of \<open>q\<close> was
  handed to the bus in order, the rest is still queued with its messages intact, and neither
  the endpoints nor the credits were touched.
\<close>

definition sends :: "'d htc_target \<Rightarrow> htc_packet list \<Rightarrow> 'd htc_target \<Rightarrow> htc_packet list \<Rightarrow> bool" where
  "sends t q t' q' \<longleftrightarrow>
     endpoint t' = endpoint t \<and> cred_dist t' = cred_dist t \<and> credit_info t' = credit_info t \<and> tx_cfg t' = tx_cfg t
     \<and> (\<exists>evs qa qb. events t' = events t @ evs \<and> list_all is_tx_ev evs \<and> q = qa @ qb
          \<and> list_all2 on_wire qa (sent_pkts evs) \<and> list_all2 same_msg qb q')"

lemma sends_refl: "sends t q t q"
  unfolding sends_def by (intro conjI exI [of _ "[]"] exI [of _ q]) (simp_all add: list.rel_refl)

lemma sends_trans:
  assumes "sends t q t1 q1" "sends t1 q1 t2 q2"
  shows "sends t q t2 q2"
proof -
  obtain e1 a1 b1 where 1: "events t1 = events t @ e1" "q = a1 @ b1" "list_all2 on_wire a1 (sent_pkts e1)"
    "list_all2 same_msg b1 q1" "list_all is_tx_ev e1" using assms(1) by (auto simp: sends_def)
  obtain e2 a2 b2 where 2: "events t2 = events t1 @ e2" "q1 = a2 @ b2" "list_all2 on_wire a2 (sent_pkts e2)"
    "list_all2 same_msg b2 q2" "list_all is_tx_ev e2" using assms(2) by (auto simp: sends_def)
  obtain c d where b1: "b1 = c @ d" "list_all2 same_msg c a2" "list_all2 same_msg d b2"
    using 1(4) unfolding 2(2) list_all2_append2 by blast
  have "list_all2 on_wire c (sent_pkts e2)"
    using list_all2_trans [OF on_wire_same_msg b1(2) 2(3)] .
  moreover have "list_all2 same_msg d q2"
    using list_all2_trans [OF same_msg_trans b1(3) 2(4)] .
  ultimately have "events t2 = events t @ (e1 @ e2) \<and> list_all is_tx_ev (e1 @ e2) \<and> q = (a1 @ c) @ d
      \<and> list_all2 on_wire (a1 @ c) (sent_pkts (e1 @ e2)) \<and> list_all2 same_msg d q2"
    using 1 2 b1(1) by (simp add: list_all2_appendI)
  then show ?thesis using assms unfolding sends_def by metis
qed

lemma sends_silent:
  assumes "endpoint t' = endpoint t" "cred_dist t' = cred_dist t" "credit_info t' = credit_info t"
    "tx_cfg t' = tx_cfg t" "events t' = events t" "list_all2 same_msg q q'"
  shows "sends t q t' q'"
  unfolding sends_def using assms by (intro conjI exI [of _ "[]"] exI [of _ q]) simp_all

lemma sends_event:
  assumes "endpoint t' = endpoint t" "cred_dist t' = cred_dist t" "credit_info t' = credit_info t"
    "tx_cfg t' = tx_cfg t" "events t' = events t @ [ev]" "q = qa @ q'" "list_all2 on_wire qa (ev_pkts ev)"
    "is_tx_ev ev"
  shows "sends t q t' q'"
  unfolding sends_def using assms
  by (intro conjI exI [of _ "[ev]"] exI [of _ qa] exI [of _ q']) (simp_all add: list.rel_refl)

lemma setup_scat_loop_sends:
  "setup_scat_loop t e n r q = (st, ents, q') \<Longrightarrow> \<exists>qa. q = qa @ q' \<and> list_all2 on_wire qa (map fst ents)"
proof (induction t e n r q arbitrary: st ents q' rule: setup_scat_loop.induct)
  case (3 t e n r p q)
  obtain pad len where c: "htc_get_credit_padding (tgt_cred_sz t)
      (CALC_TXRX_PADDED_LEN t (act_len p + HTC_HDR_LENGTH)) (conn_flags (endpoint t e)) = (pad, len)" by fastforce
  show ?case
  proof (cases "pad < 0 \<or> r < int len")
    case True
    then show ?thesis using 3(2) c by auto
  next
    case False
    obtain st1 ents1 q1 where l: "setup_scat_loop t e n (r - int len) q = (st1, ents1, q1)" by (metis prod_cases3)
    define w where "w = ath6kl_htc_tx_prep_pkt p (tx_flags p OR HTC_FLAGS_SEND_BUNDLE) pad (int (seqno_tx p))"
    have r: "st = st1" "q' = q1" "ents = (ath6kl_htc_tx_buf_align w (act_len w + HTC_HDR_LENGTH), len) # ents1"
      using 3(2) c False l by (auto simp: Let_def w_def)
    obtain qa where qa: "q = qa @ q1" "list_all2 on_wire qa (map fst ents1)"
      using 3(1) [OF c [symmetric] refl False refl refl l] by blast
    have "on_wire p (ath6kl_htc_tx_buf_align w (act_len w + HTC_HDR_LENGTH))"
      unfolding w_def by (rule prep_align_on_wire)
    then have "p # q = (p # qa) @ q' \<and> list_all2 on_wire (p # qa) (map fst ents)" using qa r by simp
    then show ?thesis by blast
  qed
qed auto

lemma setup_scat_loop_status:
  "setup_scat_loop t e n r q = (st, ents, q') \<Longrightarrow> st = 0 \<or> st = - ENOSPC"
  by (induction t e n r q arbitrary: st ents q' rule: setup_scat_loop.induct)
    (auto simp: Let_def split: prod.splits if_splits)

lemma setup_scat_list_sends:
  assumes "ath6kl_htc_tx_setup_scat_list t e n q = (st, ents, q')"
  shows "st = - EAGAIN \<Longrightarrow> list_all2 same_msg q q'"
    "st \<noteq> - EAGAIN \<Longrightarrow> \<exists>qa. q = qa @ q' \<and> list_all2 on_wire qa (map fst ents)"
proof -
  obtain st0 ents0 q0 where l: "setup_scat_loop t e n (max_tx_bndl_sz t) q = (st0, ents0, q0)" by (metis prod_cases3)
  obtain qa where qa: "q = qa @ q0" "list_all2 on_wire qa (map fst ents0)"
    using setup_scat_loop_sends [OF l] by blast
  note st0 = setup_scat_loop_status [OF l]
  have rolled: "list_all2 same_msg q (map (\<lambda>(p, _). p\<lparr>buf := buf p + int HTC_HDR_LENGTH\<rparr>) ents0 @ q0)"
  proof -
    have "list_all2 same_msg qa (map (\<lambda>(p, _). p\<lparr>buf := buf p + int HTC_HDR_LENGTH\<rparr>) ents0)"
      using qa(2) by (auto simp: list.rel_map split_def elim!: list.rel_mono_strong intro: rollback_same_msg)
    then show ?thesis unfolding qa(1) by (intro list_all2_appendI) (simp_all add: list.rel_refl)
  qed
  show "st = - EAGAIN \<Longrightarrow> list_all2 same_msg q q'"
    using assms l rolled st0 by (auto simp: ath6kl_htc_tx_setup_scat_list_def split: if_splits)
  show "st \<noteq> - EAGAIN \<Longrightarrow> \<exists>qa. q = qa @ q' \<and> list_all2 on_wire qa (map fst ents)"
    using assms l qa by (auto simp: ath6kl_htc_tx_setup_scat_list_def split: if_splits)
qed

lemma tx_bundle_loop_sends:
  "tx_bundle_loop env t e ac q = (n, k, q', t') \<Longrightarrow> sends t q t' q'"
proof (induction env t e ac q arbitrary: n k q' t' rule: tx_bundle_loop.induct)
  case (1 env t e ac q)
  let ?n = "min (int (length q)) (msg_per_bndl_max t)"
  note eq = 1(2) [unfolded tx_bundle_loop.simps [of env t e ac q] Let_def]
  show ?case
  proof (cases "?n < int HTC_MIN_HTC_MSGS_TO_BUNDLE")
    case True
    then show ?thesis using eq by (simp add: sends_refl)
  next
    case F: False
    note eq = eq [unfolded if_not_P [OF F]]
    obtain r d where g: "hif_scatter_req_get env (dev t) = (r, d)" by fastforce
    show ?thesis
    proof (cases r)
      case None
      then show ?thesis using eq g by (auto intro!: sends_silent list.rel_refl simp: tx_cfg_def)
    next
      case (Some depth)
      define t1 where "t1 = bundle_mask (t\<lparr>dev := d\<rparr>) ac depth"
      have t1: "endpoint t1 = endpoint t" "cred_dist t1 = cred_dist t" "credit_info t1 = credit_info t"
        "tx_cfg t1 = tx_cfg t" "events t1 = events t" by (simp_all add: t1_def)
      obtain st ents q1 where l: "ath6kl_htc_tx_setup_scat_list t1 e (nat ?n) q = (st, ents, q1)"
        by (metis prod_cases3)
      note eq = eq [unfolded g Some prod.case option.case t1_def [symmetric] l]
      note ss = setup_scat_list_sends [OF l]
      show ?thesis
      proof (cases "st = - EAGAIN")
        case True
        then show ?thesis using eq ss(1) t1 by (auto intro!: sends_silent simp: tx_cfg_def)
      next
        case F2: False
        obtain qa where qa: "q = qa @ q1" "list_all2 on_wire qa (map fst ents)" using ss(2) F2 by blast
        define t2 where "t2 = emit (t1\<lparr>dev := hif_scat_write env (dev t1) ents\<rparr>) (TxBundle ents)"
        note eq = eq [unfolded if_not_P [OF F2] t2_def [symmetric]]
        have s2: "sends t q t2 q1"
          by (rule sends_event [of _ _ "TxBundle ents" _ qa]) (use t1 qa in \<open>auto simp: t2_def\<close>)
        obtain n1 k1 q2 t3 where r: "tx_bundle_loop env t2 e ac q1 = (n1, k1, q2, t3)" by (metis prod_cases4)
        show ?thesis
        proof (cases "st = 0")
          case False
          then show ?thesis using eq s2 by simp
        next
          case True
          have st: "\<not> st \<noteq> 0" using True by simp
          have "sends t2 q1 t3 q2"
            using 1(1) [OF refl F g [symmetric] Some t1_def l [symmetric] refl F2 t2_def st r] .
          then show ?thesis using eq r True sends_trans [OF s2] by simp
        qed
      qed
    qed
  qed
qed

lemma tx_try_bundle_sends:
  "tx_try_bundle env t e ac q = (n, k, q', t') \<Longrightarrow> sends t q t' q'"
  by (auto simp: tx_try_bundle_def ath6kl_htc_tx_bundle_def sends_refl dest: tx_bundle_loop_sends split: if_splits)

lemma tx_issue_event:
  assumes "ath6kl_htc_tx_issue env t p = (st, p', t')"
  shows "endpoint t' = endpoint t" "cred_dist t' = cred_dist t" "credit_info t' = credit_info t"
    "tx_cfg t' = tx_cfg t" "\<exists>n s. events t' = events t @ [TxWrite p n s]"
  using assms by (auto simp: ath6kl_htc_tx_issue_def Let_def split: if_splits prod.splits)

lemma tx_send_loop_sends:
  "tx_send_loop env t e ac b n q = (b', n', t') \<Longrightarrow> sends t q t' []"
proof (induction env t e ac b n q arbitrary: b' n' t' rule: tx_send_loop.induct)
  case (1 env t e ac b n q)
  obtain b1 k1 q1 t1 where t: "tx_try_bundle env t e ac q = (b1, k1, q1, t1)" by (metis prod_cases4)
  note s1 = tx_try_bundle_sends [OF t]
  note eq = 1(2) [unfolded tx_send_loop.simps [of env t e ac b n q] t prod.case]
  show ?case
  proof (cases q1)
    case Nil
    then show ?thesis using eq s1 by simp
  next
    case (Cons p ps)
    obtain st p2 t2 where i: "ath6kl_htc_tx_issue env t1 (ath6kl_htc_tx_prep_pkt p (tx_flags p) 0 (int (seqno_tx p)))
       = (st, p2, t2)" by (metis prod_cases3)
    note f = tx_issue_event [OF i]
    have s2: "sends t1 q1 t2 ps"
    proof -
      obtain m s where ev: "events t2 = events t1 @
          [TxWrite (ath6kl_htc_tx_prep_pkt p (tx_flags p) 0 (int (seqno_tx p))) m s]" using f(5) by blast
      show ?thesis by (rule sends_event [OF f(1-4) ev, of _ "[p]"]) (simp_all add: Cons prep_on_wire)
    qed
    have "sends t2 ps t' []"
      using 1(1) [OF t [symmetric] refl refl Cons i [symmetric] refl] eq Cons i by simp
    then show ?thesis using sends_trans [OF s1 sends_trans [OF s2]] by blast
  qed
qed

lemma tx_pkts_get_frame:
  assumes "ath6kl_htc_tx_pkts_get env t e = (q', t')"
  shows "length q' + length (txq (endpoint t' e)) = length (txq (endpoint t e))" "tx_cfg t' = tx_cfg t"
    "events t' = events t" "dev t' = dev t" "x \<noteq> e \<Longrightarrow> ep_core (endpoint t' x) = ep_core (endpoint t x)"
    "ep_rx (endpoint t' x) = ep_rx (endpoint t x)"
proof -
  obtain lim t1 where l: "(if timer_mode env t e then
           (case txq (endpoint t e) of
              [] \<Rightarrow> (None, t)
            | p # _ \<Rightarrow>
                let (_, _, t') = htc_pre_check_credits t e (endpoint_pkt p) 1500;
                    tot = credits (cred_dist t' e)
                in (Some (tot, tot smod int (low_cpu_power_tx_bundle_max env)), t'))
         else (None, t)) = (lim, t1)" by fastforce
  have t1: "endpoint t1 = endpoint t" "events t1 = events t" "tx_cfg t1 = tx_cfg t" "dev t1 = dev t"
    using l by (auto simp: Let_def dest: pre_check_credits_frame split: if_splits list.splits prod.splits)
  have r: "tx_pkts_get_loop t1 e lim 0 (txq (endpoint t1 e)) = (q', t')"
    using assms unfolding ath6kl_htc_tx_pkts_get_def l by simp
  note f = tx_pkts_get_loop_frame [OF r refl]
  show "length q' + length (txq (endpoint t' e)) = length (txq (endpoint t e))" "tx_cfg t' = tx_cfg t"
    "events t' = events t" "dev t' = dev t" "x \<noteq> e \<Longrightarrow> ep_core (endpoint t' x) = ep_core (endpoint t x)"
    "ep_rx (endpoint t' x) = ep_rx (endpoint t x)"
    using f t1 by simp_all
qed

lemma txq_upd_st [simp]: "txq (endpoint (upd_st t e f) x) = txq (endpoint t x)"
  by (rule ep_core_eqD(1)) simp

lemma from_queue_step_less:
  assumes "(q, t1) = ath6kl_htc_tx_pkts_get env t e" "q \<noteq> []"
    "(b, n, t2) = tx_send_loop env t1 e ac 0 0 q"
  shows "length (txq (endpoint t2 e)) < length (txq (endpoint t e))"
proof -
  have "endpoint t2 = endpoint t1"
    using tx_send_loop_sends [OF assms(3) [symmetric]] by (simp add: sends_def)
  moreover have "length q + length (txq (endpoint t1 e)) = length (txq (endpoint t e))"
    using tx_pkts_get_frame(1) [OF assms(1) [symmetric]] .
  ultimately show ?thesis using assms(2) by (cases q) auto
qed

section \<open>The transmit entry points\<close>

text \<open>The outer loop: every turn takes at least one packet off the endpoint queue.\<close>

function tx_from_queue_loop :: "'d htc_env \<Rightarrow> 'd htc_target \<Rightarrow> nat \<Rightarrow> nat \<Rightarrow> 'd htc_target" where
  "tx_from_queue_loop env t e ac =
     (if txq (endpoint t e) = [] then t
      else if htc_bundle_send_timer env \<noteq> 0 \<and> eid (endpoint t e) = 2 \<and> \<not> call_by_timer (endpoint t e)
              \<and> length (txq (endpoint t e)) < low_cpu_power_tx_bundle_max env then t
      else
        (case ath6kl_htc_tx_pkts_get env t e of (q, t1) \<Rightarrow>
          if q = [] then t1
          else
            (case tx_send_loop env t1 e ac 0 0 q of (bundle_sent, n_pkts_bundle, t2) \<Rightarrow>
              let t3 = upd_st t2 e (\<lambda>s. s\<lparr>tx_bundles := tx_bundles s + of_nat bundle_sent,
                                         tx_pkt_bundled := tx_pkt_bundled s + of_nat n_pkts_bundle\<rparr>)
              in tx_from_queue_loop env (resume_bundling t3 ac bundle_sent) e ac)))"
  by pat_completeness auto
termination
  by (relation "measure (\<lambda>(env, t, e, ac). length (txq (endpoint t e)))") (auto intro: from_queue_step_less)

declare tx_from_queue_loop.simps [simp del]

definition ath6kl_htc_tx_from_queue :: "'d htc_env \<Rightarrow> 'd htc_target \<Rightarrow> nat \<Rightarrow> 'd htc_target" where
  "ath6kl_htc_tx_from_queue env t e =
     (let t0 = upd_ep t e (\<lambda>ep. ep\<lparr>tx_proc_cnt := tx_proc_cnt ep + 1\<rparr>) in
      if tx_proc_cnt (endpoint t0 e) > 1 then upd_ep t0 e (\<lambda>ep. ep\<lparr>tx_proc_cnt := tx_proc_cnt ep - 1\<rparr>)
      else
        let t1 = (if htc_bundle_send_timer env \<noteq> 0 \<and> eid (endpoint t0 e) = 2 \<and> \<not> timer_init (endpoint t0 e)
                  then emit (upd_ep t0 e (\<lambda>ep. ep\<lparr>timer_init := True\<rparr>)) (TimerSet e) else t0);
            t2 = tx_from_queue_loop env t1 e (endpoint_ac env t1 e)
        in upd_ep t2 e (\<lambda>ep. ep\<lparr>tx_proc_cnt := 0\<rparr>))"

definition htc_tx_bundle_timer_handler :: "'d htc_env \<Rightarrow> 'd htc_target \<Rightarrow> 'd htc_target" where
  "htc_tx_bundle_timer_handler env t =
     (let t1 = upd_ep t 2 (\<lambda>ep. ep\<lparr>call_by_timer := True\<rparr>);
          t2 = ath6kl_htc_tx_from_queue env t1 2;
          t3 = upd_ep t2 2 (\<lambda>ep. ep\<lparr>call_by_timer := False\<rparr>)
      in emit t3 (TimerSet 2))"

definition ath6kl_htc_tx_try :: "'d htc_env \<Rightarrow> 'd htc_target \<Rightarrow> nat \<Rightarrow> htc_packet \<Rightarrow> bool \<times> 'd htc_target" where
  "ath6kl_htc_tx_try env t e p =
     (let overflow = (int (length (txq (endpoint t e))) \<ge> max_txq_depth (endpoint t e));
          (dropped, t1) =
            (if overflow \<and> cb_tx_full (ep_cb (endpoint t e))
             then (case cb_tx_full_fn env (dev t) p of
                     (HTC_SEND_FULL_DROP, d) \<Rightarrow>
                        (True, upd_st (t\<lparr>dev := d\<rparr>) e (\<lambda>s. s\<lparr>tx_dropped := tx_dropped s + 1\<rparr>))
                   | (HTC_SEND_FULL_KEEP, d) \<Rightarrow> (False, t\<lparr>dev := d\<rparr>))
             else (False, t))
      in if dropped then (False, t1)
         else (True, ath6kl_htc_tx_from_queue env (upd_ep t1 e (\<lambda>ep. ep\<lparr>txq := txq ep @ [p]\<rparr>)) e))"

definition ath6kl_htc_mbox_tx :: "'d htc_env \<Rightarrow> 'd htc_target \<Rightarrow> htc_packet \<Rightarrow> int \<times> 'd htc_target" where
  "ath6kl_htc_mbox_tx env t p =
     (if endpoint_pkt p \<ge> ENDPOINT_MAX then (- EINVAL, t)
      else
        let e = endpoint_pkt p; (queued, t1) = ath6kl_htc_tx_try env t e p
        in if \<not> queued then
             (0, htc_tx_complete t1 e
                   [p\<lparr>status := (if has_flag (htc_flags t1) HTC_OP_STATE_STOPPING then - ECANCELED else - ENOSPC)\<rparr>])
           else (0, t1))"

fun chk_ep_txq_walk :: "'d htc_env \<Rightarrow> 'd htc_target \<Rightarrow> nat list \<Rightarrow> 'd htc_target" where
  "chk_ep_txq_walk env t [] = t"
| "chk_ep_txq_walk env t (e # es) =
     chk_ep_txq_walk env (if txq (endpoint t e) \<noteq> [] then ath6kl_htc_tx_from_queue env t e else t) es"

definition htc_chk_ep_txq :: "'d htc_env \<Rightarrow> 'd htc_target \<Rightarrow> 'd htc_target" where
  "htc_chk_ep_txq env t = chk_ep_txq_walk env t (cred_dist_list t)"

text \<open>
  Flushing takes the packets with the tag (or all) off the queue and completes them one by one
  as cancelled.
\<close>

definition ath6kl_htc_mbox_flush_txep :: "'d htc_target \<Rightarrow> nat \<Rightarrow> nat \<Rightarrow> 'd htc_target" where
  "ath6kl_htc_mbox_flush_txep t e tg =
     (if svc_id (endpoint t e) = 0 then t
      else
        let hit = (\<lambda>p. tg = HTC_TX_PACKET_TAG_ALL \<or> tg = tag p);
            discard = filter hit (txq (endpoint t e));
            t1 = upd_ep t e (\<lambda>ep. ep\<lparr>txq := filter (\<lambda>p. \<not> hit p) (txq ep)\<rparr>)
        in foldl (\<lambda>t p. htc_tx_complete t e [p\<lparr>status := - ECANCELED\<rparr>]) t1 discard)"

definition ath6kl_htc_flush_txep_all :: "'d htc_target \<Rightarrow> 'd htc_target" where
  "ath6kl_htc_flush_txep_all t =
     foldl (\<lambda>t e. if svc_id (endpoint t e) = 0 then t else ath6kl_htc_mbox_flush_txep t e HTC_TX_PACKET_TAG_ALL)
       t [0..<ENDPOINT_MAX]"

definition ath6kl_htc_mbox_indicate_activity_change ::
    "'d htc_env \<Rightarrow> 'd htc_target \<Rightarrow> nat \<Rightarrow> bool \<Rightarrow> 'd htc_target" where
  "ath6kl_htc_mbox_indicate_activity_change env t e active =
     (if svc_id (endpoint t e) = 0 then t
      else
        let is = has_flag (dist_flags (cred_dist t e)) HTC_EP_ACTIVE;
            dist = (active \<noteq> is);
            t1 = (if dist then
                    let t' = upd_cd t e (\<lambda>d. d\<lparr>dist_flags := (if active then set_flag (dist_flags d) HTC_EP_ACTIVE
                                                             else clear_flag (dist_flags d) HTC_EP_ACTIVE),
                                              txq_depth := int (length (txq (endpoint t e)))\<rparr>)
                    in distribute_t t' HTC_CREDIT_DIST_ACTIVITY_CHANGE
                  else t)
        in if dist \<and> \<not> active then htc_chk_ep_txq env t1 else t1)"

fun wmm_schedule_walk :: "bool \<Rightarrow> 'd htc_target \<Rightarrow> nat list \<Rightarrow> 'd htc_target" where
  "wmm_schedule_walk change t [] = t"
| "wmm_schedule_walk change t (e # es) =
     (let t1 = upd_cd t e (\<lambda>d. d\<lparr>cred_alloc_max := 0\<rparr>);
          t2 = (if svc_id_cd (cred_dist t1 e) = WMI_DATA_VI_SVC then
                  (if change
                   then upd_ep (upd_cd t1 e (\<lambda>d. d\<lparr>cred_alloc_max := cred_norm d - 2\<rparr>)) e
                          (\<lambda>ep. ep\<lparr>tx_drop_packet_threshold := MAX_DEF_COOKIE_NUM div 4\<rparr>)
                   else upd_ep t1 e (\<lambda>ep. ep\<lparr>tx_drop_packet_threshold := MAX_DEF_COOKIE_NUM div 6\<rparr>))
                else t1)
      in wmm_schedule_walk change t2 es)"

definition ath6kl_htc_mbox_wmm_schedule_change :: "'d htc_target \<Rightarrow> bool \<Rightarrow> int \<times> 'd htc_target" where
  "ath6kl_htc_mbox_wmm_schedule_change t change = (1, wmm_schedule_walk change t (cred_dist_list t))"

definition ath6kl_htc_mbox_change_credit_bypass :: "nat \<Rightarrow> int" where
  "ath6kl_htc_mbox_change_credit_bypass traffic_class = (if traffic_class = WMM_AC_BK then 1 else 0)"

section \<open>Nothing is lost, reordered or corrupted on the way to the bus\<close>

text \<open>
  \<open>queued_as p p'\<close>: \<open>p'\<close> is \<open>p\<close> as \<open>ath6kl_htc_tx_pkts_get\<close> moves it to the local queue.
  \<open>delivered p w\<close>: the bytes of \<open>w\<close> on the bus are a header for \<open>p\<close> followed by its payload.
\<close>

definition queued_as :: "htc_packet \<Rightarrow> htc_packet \<Rightarrow> bool" where
  "queued_as p p' \<longleftrightarrow> (\<exists>c f n. p' = p\<lparr>cred_used := c, completion := True, tx_flags := f, seqno_tx := n\<rparr>)"

definition delivered :: "htc_packet \<Rightarrow> htc_packet \<Rightarrow> bool" where
  "delivered p w \<longleftrightarrow> pkt_id w = pkt_id p \<and> completion w
     \<and> (\<exists>fl pad. frame_bytes w = put_hdr \<lparr>eid_hdr = of_nat (endpoint_pkt p), flags_hdr = fl,
            payld_len = act_len p, ctrl0 = pad, ctrl1 = of_nat (seqno_tx w)\<rparr> @ payload p)"

fun seq_from :: "u8 \<Rightarrow> nat \<Rightarrow> nat list" where
  "seq_from s 0 = []"
| "seq_from s (Suc n) = unat s # seq_from (s + 1) n"

lemma seq_from_add: "seq_from s (m + n) = seq_from s m @ seq_from (s + of_nat m) n"
  by (induction m arbitrary: s) (simp_all add: algebra_simps)

lemma queued_on_wire_delivered:
  assumes "queued_as p p'" "on_wire p' w"
  shows "delivered p w"
proof -
  obtain c f n where p': "p' = p\<lparr>cred_used := c, completion := True, tx_flags := f, seqno_tx := n\<rparr>"
    using assms(1) by (auto simp: queued_as_def)
  have core: "pkt_core w = pkt_core p'" using assms(2) by (simp add: on_wire_def)
  have "seqno_tx w = n" "pkt_id w = pkt_id p" "completion w"
    using pkt_core_eqD(4,6,9) [OF core] by (simp_all add: p')
  moreover obtain fl pad where "frame_bytes w = put_hdr (tx_header p' fl pad) @ payload p'"
    using assms(2) by (auto simp: on_wire_def)
  ultimately show ?thesis by (auto simp: delivered_def tx_header_def p' payload_def)
qed

lemma tx_pkts_get_loop_taken:
  assumes "tx_pkts_get_loop t e lim used q = (q', t')" and "q = txq (endpoint t e)"
  shows "\<exists>qa. q = qa @ txq (endpoint t' e) \<and> list_all2 queued_as qa q'
    \<and> map seqno_tx q' = seq_from (seqno (endpoint t e)) (length q')
    \<and> seqno (endpoint t' e) = seqno (endpoint t e) + of_nat (length q')"
  using assms
proof (induction q arbitrary: t used q' t')
  case Nil
  then show ?case by auto
next
  case (Cons p ps)
  show ?case
    using Cons(2)
  proof (cases rule: tx_pkts_get_loop_cases)
    case stop
    then show ?thesis using Cons(3) by simp
  next
    case (fail st req fl)
    note f = check_credits_frame(1) [OF fail(1), of e]
    show ?thesis using fail Cons(3) ep_core_eqD(1,2) [OF f] by simp
  next
    case (take_one req fl t1 qs)
    note f = ep_core_eqD(2) [OF check_credits_frame(1) [OF take_one(1), of e]]
    have "ps = txq (endpoint (issued_t t1 e ps) e)" by simp
    from Cons(1) [OF take_one(2) this] obtain qa where qa: "ps = qa @ txq (endpoint t' e)"
      "list_all2 queued_as qa qs" "map seqno_tx qs = seq_from (seqno (endpoint t e) + 1) (length qs)"
      "seqno (endpoint t' e) = seqno (endpoint t e) + 1 + of_nat (length qs)"
      using f by auto
    have "queued_as p (issued_pkt t1 e p req fl)" by (auto simp: queued_as_def issued_pkt_def)
    then have "p # ps = (p # qa) @ txq (endpoint t' e) \<and> list_all2 queued_as (p # qa) q'
      \<and> map seqno_tx q' = seq_from (seqno (endpoint t e)) (length q')
      \<and> seqno (endpoint t' e) = seqno (endpoint t e) + of_nat (length q')"
      using qa take_one(3) f by (simp add: issued_pkt_def algebra_simps)
    then show ?thesis by blast
  qed
qed

lemma tx_pkts_get_taken:
  assumes "ath6kl_htc_tx_pkts_get env t e = (q', t')"
  shows "\<exists>qa. txq (endpoint t e) = qa @ txq (endpoint t' e) \<and> list_all2 queued_as qa q'
    \<and> map seqno_tx q' = seq_from (seqno (endpoint t e)) (length q')
    \<and> seqno (endpoint t' e) = seqno (endpoint t e) + of_nat (length q')"
proof -
  obtain lim t1 where l: "(if timer_mode env t e then
           (case txq (endpoint t e) of
              [] \<Rightarrow> (None, t)
            | p # _ \<Rightarrow>
                let (_, _, t') = htc_pre_check_credits t e (endpoint_pkt p) 1500;
                    tot = credits (cred_dist t' e)
                in (Some (tot, tot smod int (low_cpu_power_tx_bundle_max env)), t'))
         else (None, t)) = (lim, t1)" by fastforce
  have t1: "endpoint t1 = endpoint t"
    using l by (auto simp: Let_def dest: pre_check_credits_frame split: if_splits list.splits prod.splits)
  have r: "tx_pkts_get_loop t1 e lim 0 (txq (endpoint t1 e)) = (q', t')"
    using assms unfolding ath6kl_htc_tx_pkts_get_def l by simp
  show ?thesis using tx_pkts_get_loop_taken [OF r refl] t1 by simp
qed

lemma sends_all:
  assumes "sends t q t' []"
  shows "\<exists>evs. events t' = events t @ evs \<and> list_all is_tx_ev evs \<and> list_all2 on_wire q (sent_pkts evs)"
  using assms by (auto simp: sends_def)

lemma on_wire_seqnos: "list_all2 on_wire q ws \<Longrightarrow> map seqno_tx ws = map seqno_tx q"
  by (induction q ws rule: list_all2_induct) (auto simp: on_wire_def dest: pkt_core_eqD(4))

text \<open>What a run of the outer loop does to the queue and the log.\<close>

definition drained :: "'d htc_target \<Rightarrow> nat \<Rightarrow> 'd htc_target \<Rightarrow> bool" where
  "drained t e t' \<longleftrightarrow>
     (\<exists>evs qa. events t' = events t @ evs \<and> list_all is_tx_ev evs \<and> txq (endpoint t e) = qa @ txq (endpoint t' e)
        \<and> list_all2 delivered qa (sent_pkts evs)
        \<and> map seqno_tx (sent_pkts evs) = seq_from (seqno (endpoint t e)) (length qa)
        \<and> seqno (endpoint t' e) = seqno (endpoint t e) + of_nat (length qa))
     \<and> (\<forall>x. x \<noteq> e \<longrightarrow> ep_core (endpoint t' x) = ep_core (endpoint t x)) \<and> tx_cfg t' = tx_cfg t
     \<and> (\<forall>x. ep_rx (endpoint t' x) = ep_rx (endpoint t x))"

lemma drained_refl: "drained t e t"
  unfolding drained_def by (intro conjI exI [of _ "[]"]) simp_all

lemma drained_trans:
  assumes "drained t e t1" "drained t1 e t2"
  shows "drained t e t2"
proof -
  obtain e1 q1 where 1: "events t1 = events t @ e1" "txq (endpoint t e) = q1 @ txq (endpoint t1 e)"
    "list_all2 delivered q1 (sent_pkts e1)" "map seqno_tx (sent_pkts e1) = seq_from (seqno (endpoint t e)) (length q1)"
    "seqno (endpoint t1 e) = seqno (endpoint t e) + of_nat (length q1)" "list_all is_tx_ev e1"
    using assms(1) unfolding drained_def by blast
  obtain e2 q2 where 2: "events t2 = events t1 @ e2" "txq (endpoint t1 e) = q2 @ txq (endpoint t2 e)"
    "list_all2 delivered q2 (sent_pkts e2)" "map seqno_tx (sent_pkts e2) = seq_from (seqno (endpoint t1 e)) (length q2)"
    "seqno (endpoint t2 e) = seqno (endpoint t1 e) + of_nat (length q2)" "list_all is_tx_ev e2"
    using assms(2) unfolding drained_def by blast
  have "events t2 = events t @ (e1 @ e2) \<and> list_all is_tx_ev (e1 @ e2) \<and> txq (endpoint t e) = (q1 @ q2) @ txq (endpoint t2 e)
    \<and> list_all2 delivered (q1 @ q2) (sent_pkts (e1 @ e2))
    \<and> map seqno_tx (sent_pkts (e1 @ e2)) = seq_from (seqno (endpoint t e)) (length (q1 @ q2))
    \<and> seqno (endpoint t2 e) = seqno (endpoint t e) + of_nat (length (q1 @ q2))"
    using 1 2 by (simp add: list_all2_appendI seq_from_add algebra_simps)
  then show ?thesis using assms unfolding drained_def by metis
qed

lemma drained_same:
  assumes "events t' = events t" "\<And>x. ep_core (endpoint t' x) = ep_core (endpoint t x)" "tx_cfg t' = tx_cfg t"
  shows "drained t e t'"
  unfolding drained_def using assms ep_core_eqD(1,2) [OF assms(2) [of e]] ep_core_rx [OF assms(2)]
  by (intro conjI exI [of _ "[]"]) simp_all

lemma tx_from_queue_loop_drained:
  "drained t e (tx_from_queue_loop env t e ac)"
proof (induction env t e ac rule: tx_from_queue_loop.induct)
  case (1 env t e ac)
  obtain q t1 where g: "ath6kl_htc_tx_pkts_get env t e = (q, t1)" by fastforce
  obtain b n t2 where l: "tx_send_loop env t1 e ac 0 0 q = (b, n, t2)" by (metis prod_cases3)
  define t3 where "t3 = upd_st t2 e (\<lambda>s. s\<lparr>tx_bundles := tx_bundles s + of_nat b,
                                         tx_pkt_bundled := tx_pkt_bundled s + of_nat n\<rparr>)"
  note tk = tx_pkts_get_taken [OF g]
  note fr = tx_pkts_get_frame [OF g]
  note sn = tx_send_loop_sends [OF l]
  note step = tx_from_queue_loop.simps [of env t e ac, unfolded g prod.case l Let_def, folded t3_def]
  show ?case
  proof (cases "txq (endpoint t e) = [] \<or> htc_bundle_send_timer env \<noteq> 0 \<and> eid (endpoint t e) = 2
      \<and> \<not> call_by_timer (endpoint t e) \<and> length (txq (endpoint t e)) < low_cpu_power_tx_bundle_max env")
    case True
    then show ?thesis using step by (auto simp: drained_refl)
  next
    case run: False
    obtain qa where qa: "txq (endpoint t e) = qa @ txq (endpoint t1 e)" "list_all2 queued_as qa q"
      "map seqno_tx q = seq_from (seqno (endpoint t e)) (length q)"
      "seqno (endpoint t1 e) = seqno (endpoint t e) + of_nat (length q)" using tk by blast
    have len: "length qa = length q" using qa(2) by (rule list_all2_lengthD)
    show ?thesis
    proof (cases "q = []")
      case True
      have "drained t e t1" unfolding drained_def
        by (intro conjI exI [of _ "[]"]) (use qa fr True len in simp_all)
      then show ?thesis using step run True by (simp add: drained_refl)
    next
      case False
      let ?t4 = "resume_bundling t3 ac b"
      have t4: "tx_from_queue_loop env t e ac = tx_from_queue_loop env ?t4 e ac"
        using step run False by (auto split: if_splits)
      obtain evs where ev: "events t2 = events t1 @ evs" "list_all2 on_wire q (sent_pkts evs)" "list_all is_tx_ev evs"
        using sends_all [OF sn] by blast
      have ep2: "endpoint t2 = endpoint t1" "tx_cfg t2 = tx_cfg t1" using sn by (auto simp: sends_def)
      have core: "ep_core (endpoint ?t4 x) = ep_core (endpoint t1 x)" for x by (simp add: t3_def ep2)
      have "drained t e ?t4"
        unfolding drained_def
      proof (intro conjI exI [of _ evs] exI [of _ qa] allI impI)
        show "list_all2 delivered qa (sent_pkts evs)"
          using list_all2_trans [OF queued_on_wire_delivered qa(2) ev(2)] .
        show "map seqno_tx (sent_pkts evs) = seq_from (seqno (endpoint t e)) (length qa)"
          using on_wire_seqnos [OF ev(2)] qa(3) len by simp
        show "txq (endpoint t e) = qa @ txq (endpoint ?t4 e)" using qa(1) ep_core_eqD(1) [OF core] by simp
        show "seqno (endpoint ?t4 e) = seqno (endpoint t e) + of_nat (length qa)"
          using qa(4) len ep_core_eqD(2) [OF core [of e]] by simp
        show "events ?t4 = events t @ evs" "list_all is_tx_ev evs" using ev fr by (simp_all add: t3_def)
        show "ep_core (endpoint ?t4 x) = ep_core (endpoint t x)" if "x \<noteq> e" for x using core fr(5) that by simp
        show "tx_cfg ?t4 = tx_cfg t" using ep2 fr(2) by (simp add: t3_def)
        show "ep_rx (endpoint ?t4 x) = ep_rx (endpoint t x)" for x using ep_core_rx [OF core] fr(6) by simp
      qed
      moreover have "drained ?t4 e (tx_from_queue_loop env ?t4 e ac)"
        using 1 [OF _ _ g [symmetric] False l [symmetric] refl t3_def] run by blast
      ultimately show ?thesis unfolding t4 by (rule drained_trans)
    qed
  qed
qed

section \<open>Credits along the way\<close>

definition credit_ok_t :: "'d htc_target \<Rightarrow> bool" where
  "credit_ok_t t \<longleftrightarrow> credit_ok (credit_info t) (cred_dist t) (cred_dist_list t)"

definition ledger_t :: "'d htc_target \<Rightarrow> int" where
  "ledger_t t = credit_ledger (credit_info t) (cred_dist t) (cred_dist_list t)"

lemma ledger_t_frame [simp]:
  "ledger_t (upd_ep t e f) = ledger_t t" "ledger_t (upd_st t e g) = ledger_t t" "ledger_t (emit t ev) = ledger_t t"
  "ledger_t (t\<lparr>dev := d\<rparr>) = ledger_t t" "ledger_t (issued_t t e ps) = ledger_t t"
  "ledger_t (resume_bundling t ac n) = ledger_t t"
  "credit_ok_t (upd_ep t e f) = credit_ok_t t" "credit_ok_t (upd_st t e g) = credit_ok_t t"
  "credit_ok_t (emit t ev) = credit_ok_t t" "credit_ok_t (t\<lparr>dev := d\<rparr>) = credit_ok_t t"
  "credit_ok_t (issued_t t e ps) = credit_ok_t t" "credit_ok_t (resume_bundling t ac n) = credit_ok_t t"
  by (simp_all add: ledger_t_def credit_ok_t_def)
    (simp_all add: resume_bundling_def Let_def)

lemma upd_cd_credit:
  assumes "credit_ok_t t" "e \<in> set (cred_dist_list t)"
  shows "ledger_t (upd_cd t e f) = ledger_t t + cr_of (f (cred_dist t e)) - cr_of (cred_dist t e)"
    "dist_ok (f (cred_dist t e)) \<Longrightarrow> credit_ok_t (upd_cd t e f)"
  using assms credit_okD(1) [of "credit_info t" "cred_dist t" "cred_dist_list t"]
  by (auto simp: ledger_t_def credit_ok_t_def ledger_upd intro: credit_ok_upd)

lemma seek_t_credit:
  assumes "credit_ok_t t" "e \<in> set (cred_dist_list t)" "0 \<le> seek_cred (cred_dist t e)"
  shows "credit_ok_t (seek_t t e)" "ledger_t (seek_t t e) = ledger_t t"
    "credits (cred_dist t e) \<le> credits (cred_dist (seek_t t e) e)"
    "cred_per_msg (cred_dist (seek_t t e) e) = cred_per_msg (cred_dist t e)"
proof -
  obtain ci ds where k: "ath6kl_credit_seek (credit_info t) (cred_dist t) e = (ci, ds)" by fastforce
  note kk = credit_seek_keeps [OF assms(1) [unfolded credit_ok_t_def] assms(2,3) k]
  obtain n where n: "0 \<le> n" "ds e = (cred_dist t e)\<lparr>credits := credits (cred_dist t e) + n,
      cred_assngd := cred_assngd (cred_dist t e) + n, seek_cred := 0\<rparr>"
    using kk by (elim conjE exE) simp
  have kk2: "credit_ok ci ds (cred_dist_list t)"
    "credit_ledger ci ds (cred_dist_list t) = credit_ledger (credit_info t) (cred_dist t) (cred_dist_list t)"
    using kk by (elim conjE, simp)+
  show "credit_ok_t (seek_t t e)" "ledger_t (seek_t t e) = ledger_t t"
    using kk2 by (simp_all add: credit_ok_t_def ledger_t_def seek_t_def k)
  show "credits (cred_dist t e) \<le> credits (cred_dist (seek_t t e) e)"
    "cred_per_msg (cred_dist (seek_t t e) e) = cred_per_msg (cred_dist t e)"
    using n by (simp_all add: seek_t_def k)
qed

lemma dist_ok_t: "credit_ok_t t \<Longrightarrow> e \<in> set (cred_dist_list t) \<Longrightarrow> dist_ok (cred_dist t e)"
  by (auto simp: credit_ok_t_def dest: credit_okD(3))

lemma pre_check_credit:
  assumes "credit_ok_t t" "e \<in> set (cred_dist_list t)" "htc_pre_check_credits t e pe len = (st, req, t')"
  shows "credit_ok_t t' \<and> ledger_t t' = ledger_t t \<and> (st = 0 \<longrightarrow> req \<le> credits (cred_dist t' e))"
proof (cases "credits (cred_dist t e) < req_credits t len \<and> pe \<noteq> 0")
  case False
  then show ?thesis using assms by (auto simp: htc_pre_check_credits_def Let_def split: if_splits)
next
  case True
  define t1 where "t1 = upd_cd t e (\<lambda>d. d\<lparr>seek_cred := req_credits t len - credits d\<rparr>)"
  define t2 where "t2 = seek_t t1 e"
  have d: "dist_ok (cred_dist t e)" using dist_ok_t assms(1,2) .
  have t1: "credit_ok_t t1" "ledger_t t1 = ledger_t t" "e \<in> set (cred_dist_list t1)" "0 \<le> seek_cred (cred_dist t1 e)"
    unfolding t1_def using upd_cd_credit [OF assms(1,2)] d True assms(2) by (simp_all add: dist_ok_def cr_of_def)
  note t2 = seek_t_credit [OF t1(1,3,4), folded t2_def]
  have e2: "e \<in> set (cred_dist_list t2)" using t1(3) by (simp add: t2_def)
  have t': "t' = upd_cd t2 e (\<lambda>d. d\<lparr>seek_cred := 0\<rparr>)"
    "st = 0 \<longrightarrow> req \<le> credits (cred_dist t' e)"
    using assms(3) True by (auto simp: htc_pre_check_credits_def Let_def t1_def t2_def split: if_splits)
  have "dist_ok (cred_dist t2 e)" using dist_ok_t [OF t2(1) e2] .
  then show ?thesis using t'(2) t1(2) t2(2) upd_cd_credit [OF t2(1) e2] by (simp add: t'(1) dist_ok_def cr_of_def)
qed

lemma req_credits_nonneg [simp]: "0 \<le> req_credits t len"
  by (simp add: req_credits_def)

text \<open>
  Asking for credits either fails and costs nothing, or takes exactly the credits the message
  needs off the ledger.
\<close>

lemma check_credit:
  assumes "credit_ok_t t" "e \<in> set (cred_dist_list t)"
    "htc_check_credits t e fl pe len = (st, req, fl', t')"
  shows "credit_ok_t t' \<and> ledger_t t' = ledger_t t - (if st = 0 then req_credits t len else 0)"
proof -
  obtain st0 req0 t1 where p: "htc_pre_check_credits t e pe len = (st0, req0, t1)" by (metis prod_cases3)
  note c = pre_check_credit [OF assms(1,2) p]
  note f = pre_check_credits_frame [OF p]
  have e1: "e \<in> set (cred_dist_list t1)" using assms(2) tx_cfg_eqD(1) [OF f(3)] by simp
  show ?thesis
  proof (cases "st0 = 0")
    case False
    then show ?thesis using assms(3) p c by (auto simp: htc_check_credits_def)
  next
    case True
    define t2 where "t2 = upd_cd t1 e (\<lambda>d. d\<lparr>credits := credits d - req0\<rparr>)"
    define t3 where "t3 = upd_st t2 e (\<lambda>s. s\<lparr>cred_cosumd := cred_cosumd s + of_int req0\<rparr>)"
    have r0: "req0 = req_credits t len" "0 \<le> req0" "req0 \<le> credits (cred_dist t1 e)"
      using f(5) c True by simp_all
    have d1: "dist_ok (cred_dist t1 e)" using dist_ok_t c e1 by blast
    have t3: "credit_ok_t t3" "ledger_t t3 = ledger_t t - req0" "e \<in> set (cred_dist_list t3)"
      unfolding t3_def t2_def using c upd_cd_credit [OF _ e1] d1 r0 e1 by (simp_all add: dist_ok_def cr_of_def)
    note eq = assms(3) [unfolded htc_check_credits_def p prod.case Let_def True simp_thms if_False,
        folded t2_def, folded t3_def]
    show ?thesis
    proof (cases "credits (cred_dist t3 e) < cred_per_msg (cred_dist t3 e)")
      case False
      show ?thesis using eq [unfolded if_not_P [OF False]] t3(1,2) r0(1) by auto
    next
      case low: True
      define t4 where "t4 = upd_cd t3 e (\<lambda>d. d\<lparr>seek_cred := cred_per_msg d - credits d\<rparr>)"
      have d3: "dist_ok (cred_dist t3 e)" using dist_ok_t t3(1,3) .
      have t4: "credit_ok_t t4" "ledger_t t4 = ledger_t t3" "e \<in> set (cred_dist_list t4)"
        "0 \<le> seek_cred (cred_dist t4 e)"
        unfolding t4_def using upd_cd_credit [OF t3(1,3)] d3 low t3(3) by (simp_all add: dist_ok_def cr_of_def)
      note t5 = seek_t_credit [OF t4(1,3,4)]
      show ?thesis using eq [unfolded if_P [OF low], folded t4_def] t3(2) t4(2) t5(1,2) r0(1)
        by (auto split: if_splits)
    qed
  qed
qed

text \<open>What one message costs: its padded frame, in credits.\<close>

definition msg_cost :: "'d htc_target \<Rightarrow> htc_packet \<Rightarrow> int" where
  "msg_cost t p = req_credits t (CALC_TXRX_PADDED_LEN t (act_len p + HTC_HDR_LENGTH))"

lemma msg_cost_cfg: "tx_cfg t' = tx_cfg t \<Longrightarrow> msg_cost t' = msg_cost t"
  by (rule ext) (simp add: msg_cost_def req_credits_def CALC_TXRX_PADDED_LEN_def tx_cfg_def)

definition spent :: "htc_packet list \<Rightarrow> int" where
  "spent ps = (\<Sum>p\<leftarrow>ps. cred_used p)"

lemma spent_simps [simp]: "spent [] = 0" "spent (p # ps) = cred_used p + spent ps"
  "spent (ps @ qs) = spent ps + spent qs"
  by (simp_all add: spent_def)

lemma tx_pkts_get_loop_credit:
  assumes "tx_pkts_get_loop t e lim used q = (q', t')" "credit_ok_t t" "e \<in> set (cred_dist_list t)"
  shows "credit_ok_t t' \<and> ledger_t t' = ledger_t t - spent q' \<and> (\<forall>p\<in>set q'. cred_used p = msg_cost t p)"
  using assms
proof (induction q arbitrary: t used q' t')
  case Nil
  then show ?case by auto
next
  case (Cons p ps)
  show ?case
    using Cons(2)
  proof (cases rule: tx_pkts_get_loop_cases)
    case stop
    then show ?thesis using Cons by simp
  next
    case (fail st req fl)
    show ?thesis using check_credit [OF Cons(3,4) fail(1)] fail by simp
  next
    case (take_one req fl t1 qs)
    let ?t2 = "issued_t t1 e ps"
    note f = check_credits_frame [OF take_one(1)]
    have c: "credit_ok_t t1 \<and> ledger_t t1 = ledger_t t - msg_cost t p"
      using check_credit [OF Cons(3,4) take_one(1)] by (simp add: msg_cost_def)
    have cfg: "tx_cfg ?t2 = tx_cfg t" using f(3) by simp
    have e: "e \<in> set (cred_dist_list ?t2)" using Cons(4) tx_cfg_eqD(1) [OF cfg] by simp
    have req: "req = msg_cost t p" using f(5) by (simp add: msg_cost_def)
    have "credit_ok_t t' \<and> ledger_t t' = ledger_t ?t2 - spent qs \<and> (\<forall>p\<in>set qs. cred_used p = msg_cost t p)"
      using Cons(1) [OF take_one(2) _ e] c msg_cost_cfg [OF cfg] by simp
    moreover have "cred_used (issued_pkt t1 e p req fl) = req" "act_len (issued_pkt t1 e p req fl) = act_len p"
      by (simp_all add: issued_pkt_def)
    ultimately show ?thesis using c take_one(3) req by (simp add: msg_cost_def)
  qed
qed

lemma tx_pkts_get_credit:
  assumes "ath6kl_htc_tx_pkts_get env t e = (q', t')" "credit_ok_t t" "e \<in> set (cred_dist_list t)"
  shows "credit_ok_t t' \<and> ledger_t t' = ledger_t t - spent q' \<and> (\<forall>p\<in>set q'. cred_used p = msg_cost t p)"
proof -
  obtain lim t1 where l: "(if timer_mode env t e then
           (case txq (endpoint t e) of
              [] \<Rightarrow> (None, t)
            | p # _ \<Rightarrow>
                let (_, _, t') = htc_pre_check_credits t e (endpoint_pkt p) 1500;
                    tot = credits (cred_dist t' e)
                in (Some (tot, tot smod int (low_cpu_power_tx_bundle_max env)), t'))
         else (None, t)) = (lim, t1)" by fastforce
  have t1: "credit_ok_t t1 \<and> ledger_t t1 = ledger_t t \<and> tx_cfg t1 = tx_cfg t"
  proof (cases "timer_mode env t e \<and> txq (endpoint t e) \<noteq> []")
    case True
    then obtain p ps where tq: "txq (endpoint t e) = p # ps" by (cases "txq (endpoint t e)") auto
    obtain st req t0 where pc: "htc_pre_check_credits t e (endpoint_pkt p) 1500 = (st, req, t0)" by (metis prod_cases3)
    have "t1 = t0" using l True tq pc by (auto simp: Let_def)
    then show ?thesis using pre_check_credit [OF assms(2,3) pc] pre_check_credits_frame(3) [OF pc] by simp
  next
    case False
    then show ?thesis using l assms(2) by (auto split: if_splits)
  qed
  have e1: "e \<in> set (cred_dist_list t1)" using assms(3) t1 tx_cfg_eqD(1) by metis
  have r: "tx_pkts_get_loop t1 e lim 0 (txq (endpoint t1 e)) = (q', t')"
    using assms(1) unfolding ath6kl_htc_tx_pkts_get_def l by simp
  show ?thesis using tx_pkts_get_loop_credit [OF r _ e1] t1 msg_cost_cfg [of t1 t] by simp
qed

definition charged :: "'d htc_target \<Rightarrow> 'd htc_target \<Rightarrow> bool" where
  "charged t t' \<longleftrightarrow> credit_ok_t t' \<and> tx_cfg t' = tx_cfg t
     \<and> (\<exists>evs. events t' = events t @ evs \<and> ledger_t t' = ledger_t t - spent (sent_pkts evs)
          \<and> (\<forall>w\<in>set (sent_pkts evs). cred_used w = msg_cost t w))"

lemma charged_silent:
  "credit_ok_t t' \<Longrightarrow> tx_cfg t' = tx_cfg t \<Longrightarrow> events t' = events t \<Longrightarrow> ledger_t t' = ledger_t t \<Longrightarrow> charged t t'"
  unfolding charged_def by (intro conjI exI [of _ "[]"]) simp_all

lemma charged_trans:
  assumes "charged t t1" "charged t1 t2"
  shows "charged t t2"
proof -
  obtain e1 where 1: "events t1 = events t @ e1" "ledger_t t1 = ledger_t t - spent (sent_pkts e1)"
    "\<forall>w\<in>set (sent_pkts e1). cred_used w = msg_cost t w" using assms(1) unfolding charged_def by blast
  obtain e2 where 2: "events t2 = events t1 @ e2" "ledger_t t2 = ledger_t t1 - spent (sent_pkts e2)"
    "\<forall>w\<in>set (sent_pkts e2). cred_used w = msg_cost t1 w" using assms(2) unfolding charged_def by blast
  have "msg_cost t1 = msg_cost t" using assms(1) by (intro msg_cost_cfg) (simp add: charged_def)
  with 1 2 have "events t2 = events t @ (e1 @ e2) \<and> ledger_t t2 = ledger_t t - spent (sent_pkts (e1 @ e2))
    \<and> (\<forall>w\<in>set (sent_pkts (e1 @ e2)). cred_used w = msg_cost t w)" by auto
  then show ?thesis using assms unfolding charged_def by metis
qed

lemma on_wire_fields:
  assumes "on_wire p w"
  shows "cred_used w = cred_used p" "act_len w = act_len p" "msg_cost t w = msg_cost t p"
proof -
  have c: "pkt_core w = pkt_core p" using assms by (simp add: on_wire_def)
  show "cred_used w = cred_used p" "act_len w = act_len p" "msg_cost t w = msg_cost t p"
    using pkt_core_eqD(1,5) [OF c] by (simp_all add: msg_cost_def)
qed

lemma on_wire_spent: "list_all2 on_wire q ws \<Longrightarrow> spent ws = spent q"
  by (induction q ws rule: list_all2_induct) (auto simp: on_wire_fields(1))

lemma on_wire_cost:
  "list_all2 on_wire q ws \<Longrightarrow> \<forall>p\<in>set q. cred_used p = msg_cost t p \<Longrightarrow> \<forall>w\<in>set ws. cred_used w = msg_cost t w"
  by (induction q ws rule: list_all2_induct) (auto simp: on_wire_fields)

lemma tx_from_queue_loop_charged:
  assumes "credit_ok_t t" "e \<in> set (cred_dist_list t)"
  shows "charged t (tx_from_queue_loop env t e ac)"
  using assms
proof (induction env t e ac rule: tx_from_queue_loop.induct)
  case (1 env t e ac)
  obtain q t1 where g: "ath6kl_htc_tx_pkts_get env t e = (q, t1)" by fastforce
  obtain b n t2 where l: "tx_send_loop env t1 e ac 0 0 q = (b, n, t2)" by (metis prod_cases3)
  define t3 where "t3 = upd_st t2 e (\<lambda>s. s\<lparr>tx_bundles := tx_bundles s + of_nat b,
                                         tx_pkt_bundled := tx_pkt_bundled s + of_nat n\<rparr>)"
  note cr = tx_pkts_get_credit [OF g 1(2,3)]
  note fr = tx_pkts_get_frame [OF g]
  note sn = tx_send_loop_sends [OF l]
  note step = tx_from_queue_loop.simps [of env t e ac, unfolded g prod.case l Let_def, folded t3_def]
  show ?case
  proof (cases "txq (endpoint t e) = [] \<or> htc_bundle_send_timer env \<noteq> 0 \<and> eid (endpoint t e) = 2
      \<and> \<not> call_by_timer (endpoint t e) \<and> length (txq (endpoint t e)) < low_cpu_power_tx_bundle_max env")
    case True
    then show ?thesis using step 1(2) by (auto intro!: charged_silent)
  next
    case run: False
    show ?thesis
    proof (cases "q = []")
      case True
      have "charged t t1" using cr fr True by (intro charged_silent) simp_all
      then show ?thesis using step run True 1(2) by (simp add: charged_silent)
    next
      case False
      let ?t4 = "resume_bundling t3 ac b"
      have t4: "tx_from_queue_loop env t e ac = tx_from_queue_loop env ?t4 e ac"
        using step run False by (auto split: if_splits)
      obtain evs where ev: "events t2 = events t1 @ evs" "list_all2 on_wire q (sent_pkts evs)"
        using sends_all [OF sn] by blast
      have s2: "cred_dist t2 = cred_dist t1" "credit_info t2 = credit_info t1" "tx_cfg t2 = tx_cfg t1"
        using sn by (auto simp: sends_def)
      have "credit_ok_t t2 = credit_ok_t t1" "ledger_t t2 = ledger_t t1"
        using s2 tx_cfg_eqD(1) [OF s2(3)] by (simp_all add: credit_ok_t_def ledger_t_def)
      then have ok4: "credit_ok_t ?t4" and l4: "ledger_t ?t4 = ledger_t t - spent (sent_pkts evs)"
        using cr on_wire_spent [OF ev(2)] by (simp_all add: t3_def)
      have cfg4: "tx_cfg ?t4 = tx_cfg t" using s2(3) fr(2) by (simp add: t3_def)
      have "\<forall>w\<in>set (sent_pkts evs). cred_used w = msg_cost t w"
        using on_wire_cost [OF ev(2)] cr by blast
      then have "charged t ?t4" unfolding charged_def
        using ok4 l4 cfg4 ev fr(3)
        by (intro conjI exI [of _ evs]) (simp_all add: t3_def)
      moreover have "e \<in> set (cred_dist_list ?t4)" using 1(3) tx_cfg_eqD(1) [OF cfg4] by simp
      then have "charged ?t4 (tx_from_queue_loop env ?t4 e ac)"
        using 1(1) [OF _ _ g [symmetric] False l [symmetric] refl t3_def ok4] run by blast
      ultimately show ?thesis unfolding t4 by (rule charged_trans)
    qed
  qed
qed

text \<open>\<open>ath6kl_htc_tx_from_queue\<close> as a whole.\<close>

lemma timer_event_pkts [simp]: "ev_pkts (TimerSet e) = []"
  by simp

lemma endpoint_simps_core [simp]:
  "ep_core ((endpoint t x)\<lparr>tx_proc_cnt := n\<rparr>) = (ep_core (endpoint t x))\<lparr>tx_proc_cnt := n\<rparr>"
  by (simp add: ep_core_def)

definition from_queue_start :: "'d htc_env \<Rightarrow> 'd htc_target \<Rightarrow> nat \<Rightarrow> 'd htc_target" where
  "from_queue_start env t e =
     (let t0 = upd_ep t e (\<lambda>ep. ep\<lparr>tx_proc_cnt := tx_proc_cnt ep + 1\<rparr>) in
      if htc_bundle_send_timer env \<noteq> 0 \<and> eid (endpoint t0 e) = 2 \<and> \<not> timer_init (endpoint t0 e)
      then emit (upd_ep t0 e (\<lambda>ep. ep\<lparr>timer_init := True\<rparr>)) (TimerSet e) else t0)"

lemma from_queue_start_frame:
  "txq (endpoint (from_queue_start env t e) x) = txq (endpoint t x)"
  "seqno (endpoint (from_queue_start env t e) x) = seqno (endpoint t x)"
  "x \<noteq> e \<Longrightarrow> endpoint (from_queue_start env t e) x = endpoint t x"
  "ep_rx (endpoint (from_queue_start env t e) x) = ep_rx (endpoint t x)"
  "tx_cfg (from_queue_start env t e) = tx_cfg t" "ledger_t (from_queue_start env t e) = ledger_t t"
  "credit_ok_t (from_queue_start env t e) = credit_ok_t t"
  "\<exists>evs. events (from_queue_start env t e) = events t @ evs \<and> list_all is_tx_ev evs \<and> sent_pkts evs = []"
  by (auto simp: from_queue_start_def Let_def)

lemma from_queue_runs:
  assumes "tx_proc_cnt (endpoint t e) \<le> 0"
  shows "ath6kl_htc_tx_from_queue env t e =
    upd_ep (tx_from_queue_loop env (from_queue_start env t e) e (endpoint_ac env (from_queue_start env t e) e)) e
      (\<lambda>ep. ep\<lparr>tx_proc_cnt := 0\<rparr>)"
  using assms by (simp add: ath6kl_htc_tx_from_queue_def from_queue_start_def Let_def)

lemma from_queue_busy:
  assumes "0 < tx_proc_cnt (endpoint t e)"
  shows "ath6kl_htc_tx_from_queue env t e = t"
  using assms by (simp add: ath6kl_htc_tx_from_queue_def Let_def upd_ep_def)

lemma from_queue_drains:
  assumes "tx_proc_cnt (endpoint t e) \<le> 0"
  shows "\<exists>evs qa. events (ath6kl_htc_tx_from_queue env t e) = events t @ evs \<and> list_all is_tx_ev evs
      \<and> txq (endpoint t e) = qa @ txq (endpoint (ath6kl_htc_tx_from_queue env t e) e)
      \<and> list_all2 delivered qa (sent_pkts evs)
      \<and> map seqno_tx (sent_pkts evs) = seq_from (seqno (endpoint t e)) (length qa)
      \<and> seqno (endpoint (ath6kl_htc_tx_from_queue env t e) e) = seqno (endpoint t e) + of_nat (length qa)"
    "x \<noteq> e \<Longrightarrow> ep_core (endpoint (ath6kl_htc_tx_from_queue env t e) x) = ep_core (endpoint t x)"
    "tx_cfg (ath6kl_htc_tx_from_queue env t e) = tx_cfg t"
    "tx_proc_cnt (endpoint (ath6kl_htc_tx_from_queue env t e) e) = 0"
    "ep_rx (endpoint (ath6kl_htc_tx_from_queue env t e) x) = ep_rx (endpoint t x)"
proof -
  let ?s = "from_queue_start env t e"
  have d: "drained ?s e (tx_from_queue_loop env ?s e (endpoint_ac env ?s e))" by (rule tx_from_queue_loop_drained)
  obtain evs0 where ev0: "events ?s = events t @ evs0" "sent_pkts evs0 = []" "list_all is_tx_ev evs0" using from_queue_start_frame(8) by blast
  obtain evs qa where "events (tx_from_queue_loop env ?s e (endpoint_ac env ?s e)) = events ?s @ evs"
    "txq (endpoint ?s e) = qa @ txq (endpoint (tx_from_queue_loop env ?s e (endpoint_ac env ?s e)) e)"
    "list_all2 delivered qa (sent_pkts evs)" "list_all is_tx_ev evs"
    "map seqno_tx (sent_pkts evs) = seq_from (seqno (endpoint ?s e)) (length qa)"
    "seqno (endpoint (tx_from_queue_loop env ?s e (endpoint_ac env ?s e)) e) = seqno (endpoint ?s e) + of_nat (length qa)"
    using d unfolding drained_def by blast
  then show "\<exists>evs qa. events (ath6kl_htc_tx_from_queue env t e) = events t @ evs \<and> list_all is_tx_ev evs
      \<and> txq (endpoint t e) = qa @ txq (endpoint (ath6kl_htc_tx_from_queue env t e) e)
      \<and> list_all2 delivered qa (sent_pkts evs)
      \<and> map seqno_tx (sent_pkts evs) = seq_from (seqno (endpoint t e)) (length qa)
      \<and> seqno (endpoint (ath6kl_htc_tx_from_queue env t e) e) = seqno (endpoint t e) + of_nat (length qa)"
    using ev0 by (intro exI [of _ "evs0 @ evs"] exI [of _ qa])
      (simp add: from_queue_runs [OF assms] from_queue_start_frame)
  show "x \<noteq> e \<Longrightarrow> ep_core (endpoint (ath6kl_htc_tx_from_queue env t e) x) = ep_core (endpoint t x)"
    "tx_cfg (ath6kl_htc_tx_from_queue env t e) = tx_cfg t"
    "tx_proc_cnt (endpoint (ath6kl_htc_tx_from_queue env t e) e) = 0"
    "ep_rx (endpoint (ath6kl_htc_tx_from_queue env t e) x) = ep_rx (endpoint t x)"
    using d by (simp_all add: from_queue_runs [OF assms] drained_def from_queue_start_frame)
qed

lemma from_queue_charged:
  assumes "credit_ok_t t" "e \<in> set (cred_dist_list t)"
  shows "charged t (ath6kl_htc_tx_from_queue env t e)"
proof (cases "0 < tx_proc_cnt (endpoint t e)")
  case True
  then show ?thesis using assms(1) by (simp add: from_queue_busy charged_silent)
next
  case False
  let ?t0 = "upd_ep t e (\<lambda>ep. ep\<lparr>tx_proc_cnt := tx_proc_cnt ep + 1\<rparr>)"
  let ?s = "from_queue_start env t e"
  have run: "ath6kl_htc_tx_from_queue env t e =
    upd_ep (tx_from_queue_loop env ?s e (endpoint_ac env ?s e)) e (\<lambda>ep. ep\<lparr>tx_proc_cnt := 0\<rparr>)"
    using False by (simp add: ath6kl_htc_tx_from_queue_def from_queue_start_def Let_def)
  have "charged t ?s" unfolding charged_def
    using assms(1) from_queue_start_frame by (metis diff_zero empty_iff list.set(1) spent_simps(1))
  moreover have "e \<in> set (cred_dist_list ?s)"
    using assms(2) by (simp add: tx_cfg_eqD(1) [OF from_queue_start_frame(5)])
  then have "charged ?s (tx_from_queue_loop env ?s e (endpoint_ac env ?s e))"
    using assms(1) by (intro tx_from_queue_loop_charged) (simp_all add: from_queue_start_frame)
  moreover have "charged (tx_from_queue_loop env ?s e (endpoint_ac env ?s e)) (ath6kl_htc_tx_from_queue env t e)"
    unfolding run using calculation(2) by (intro charged_silent) (simp_all add: charged_def)
  ultimately show ?thesis using charged_trans by blast
qed

lemma from_queue_accounts:
  "\<exists>evs qa. events (ath6kl_htc_tx_from_queue env t e) = events t @ evs \<and> list_all is_tx_ev evs
      \<and> txq (endpoint t e) = qa @ txq (endpoint (ath6kl_htc_tx_from_queue env t e) e)
      \<and> list_all2 delivered qa (sent_pkts evs)
      \<and> map seqno_tx (sent_pkts evs) = seq_from (seqno (endpoint t e)) (length qa)
      \<and> seqno (endpoint (ath6kl_htc_tx_from_queue env t e) e) = seqno (endpoint t e) + of_nat (length qa)"
  "x \<noteq> e \<Longrightarrow> ep_core (endpoint (ath6kl_htc_tx_from_queue env t e) x) = ep_core (endpoint t x)"
  "tx_cfg (ath6kl_htc_tx_from_queue env t e) = tx_cfg t"
  "ep_rx (endpoint (ath6kl_htc_tx_from_queue env t e) x) = ep_rx (endpoint t x)"
proof -
  show "\<exists>evs qa. events (ath6kl_htc_tx_from_queue env t e) = events t @ evs \<and> list_all is_tx_ev evs
      \<and> txq (endpoint t e) = qa @ txq (endpoint (ath6kl_htc_tx_from_queue env t e) e)
      \<and> list_all2 delivered qa (sent_pkts evs)
      \<and> map seqno_tx (sent_pkts evs) = seq_from (seqno (endpoint t e)) (length qa)
      \<and> seqno (endpoint (ath6kl_htc_tx_from_queue env t e) e) = seqno (endpoint t e) + of_nat (length qa)"
  proof (cases "0 < tx_proc_cnt (endpoint t e)")
    case True
    show ?thesis unfolding from_queue_busy [OF True] by (intro exI [of _ "[]"]) simp
  next
    case False
    then show ?thesis by (intro from_queue_drains(1)) simp
  qed
  show "x \<noteq> e \<Longrightarrow> ep_core (endpoint (ath6kl_htc_tx_from_queue env t e) x) = ep_core (endpoint t x)"
    "tx_cfg (ath6kl_htc_tx_from_queue env t e) = tx_cfg t"
    "ep_rx (endpoint (ath6kl_htc_tx_from_queue env t e) x) = ep_rx (endpoint t x)"
    using from_queue_busy [of t e env] from_queue_drains(2,3,5) [of t e] by (metis linorder_not_less)+
qed

text \<open>The loop only stops on an empty queue or for lack of credits.\<close>

lemma pre_check_short:
  assumes "htc_pre_check_credits t e pe len = (st, req, t')" "st \<noteq> 0"
  shows "credits (cred_dist t' e) < req_credits t len"
  using assms by (auto simp: htc_pre_check_credits_def Let_def split: if_splits)

lemma check_credits_short:
  assumes "htc_check_credits t e fl pe len = (st, req, fl', t')" "st \<noteq> 0"
  shows "credits (cred_dist t' e) < req_credits t len"
proof -
  obtain st0 req0 t1 where p: "htc_pre_check_credits t e pe len = (st0, req0, t1)" by (metis prod_cases3)
  have "st0 \<noteq> 0 \<and> t' = t1" using assms by (auto simp: htc_check_credits_def p Let_def split: if_splits)
  then show ?thesis using pre_check_short [OF p] by simp
qed

lemma tx_pkts_get_starved:
  assumes "ath6kl_htc_tx_pkts_get env t e = ([], t')" "\<not> timer_mode env t e"
    "txq (endpoint t e) \<noteq> []"
  shows "credits (cred_dist t' e) < msg_cost t' (hd (txq (endpoint t' e)))"
proof -
  obtain p ps where q: "txq (endpoint t e) = p # ps" using assms(3) by (cases "txq (endpoint t e)") auto
  have l: "tx_pkts_get_loop t e None 0 (p # ps) = ([], t')"
    using assms(1,2) by (simp add: ath6kl_htc_tx_pkts_get_def q)
  obtain st req fl t1 where c: "htc_check_credits t e 0 (endpoint_pkt p)
      (CALC_TXRX_PADDED_LEN t (act_len p + HTC_HDR_LENGTH)) = (st, req, fl, t1)" by (metis prod_cases4)
  have "st \<noteq> 0 \<and> t' = t1" using l c by (auto simp: Let_def split: if_splits prod.splits)
  moreover have "txq (endpoint t1 e) = p # ps" using check_credits_frame(1) [OF c, of e] q ep_core_eqD(1) by metis
  ultimately show ?thesis
    using check_credits_short [OF c] msg_cost_cfg [OF check_credits_frame(3) [OF c]] by (simp add: msg_cost_def)
qed

lemma timer_mode_core:
  assumes "ep_core (endpoint t' e) = ep_core (endpoint t e)"
  shows "timer_mode env t' e = timer_mode env t e"
  using ep_core_eqD(5,7) [OF assms] by (simp add: timer_mode_def)

lemma tx_pkts_get_timer_mode:
  assumes "ath6kl_htc_tx_pkts_get env t e = (q, t1)" "\<not> timer_mode env t e"
  shows "\<not> timer_mode env t1 e"
proof -
  have l: "tx_pkts_get_loop t e None 0 (txq (endpoint t e)) = (q, t1)"
    using assms by (simp add: ath6kl_htc_tx_pkts_get_def)
  have "\<not> timer_mode env t' e" if "tx_pkts_get_loop t e lim used q = (q', t')" "\<not> timer_mode env t e"
    for t lim used q q' t'
    using that
  proof (induction q arbitrary: t used q' t')
    case Nil
    then show ?case by simp
  next
    case (Cons p ps)
    show ?case using Cons(2)
    proof (cases rule: tx_pkts_get_loop_cases)
      case stop
      then show ?thesis using Cons by simp
    next
      case (fail st req fl)
      then show ?thesis using timer_mode_core [OF check_credits_frame(1) [OF fail(1)]] Cons(3) by simp
    next
      case (take_one req fl t2 qs)
      have "\<not> timer_mode env (issued_t t2 e ps) e"
        using timer_mode_core [OF check_credits_frame(1) [OF take_one(1)]] Cons(3)
        by (simp add: timer_mode_def issued_t_def)
      then show ?thesis using Cons(1) [OF take_one(2)] by blast
    qed
  qed
  then show ?thesis using l assms(2) by blast
qed

lemma tx_from_queue_loop_starved:
  assumes "\<not> timer_mode env t e"
  shows "txq (endpoint (tx_from_queue_loop env t e ac) e) = []
    \<or> credits (cred_dist (tx_from_queue_loop env t e ac) e)
        < msg_cost (tx_from_queue_loop env t e ac) (hd (txq (endpoint (tx_from_queue_loop env t e ac) e)))"
  using assms
proof (induction env t e ac rule: tx_from_queue_loop.induct)
  case (1 env t e ac)
  obtain q t1 where g: "ath6kl_htc_tx_pkts_get env t e = (q, t1)" by fastforce
  obtain b n t2 where l: "tx_send_loop env t1 e ac 0 0 q = (b, n, t2)" by (metis prod_cases3)
  define t3 where "t3 = upd_st t2 e (\<lambda>s. s\<lparr>tx_bundles := tx_bundles s + of_nat b,
                                         tx_pkt_bundled := tx_pkt_bundled s + of_nat n\<rparr>)"
  note step = tx_from_queue_loop.simps [of env t e ac, unfolded g prod.case l Let_def, folded t3_def]
  have go: "\<not> (htc_bundle_send_timer env \<noteq> 0 \<and> eid (endpoint t e) = 2
      \<and> \<not> call_by_timer (endpoint t e) \<and> length (txq (endpoint t e)) < low_cpu_power_tx_bundle_max env)"
    using 1(2) by (auto simp: timer_mode_def)
  show ?case
  proof (cases "txq (endpoint t e) = []")
    case True
    then show ?thesis using step by simp
  next
    case run: False
    show ?thesis
    proof (cases "q = []")
      case True
      have "tx_from_queue_loop env t e ac = t1" using step run go True by (auto split: if_splits)
      then show ?thesis using tx_pkts_get_starved [OF g [unfolded True] 1(2) run] by simp
    next
      case False
      have t4: "tx_from_queue_loop env t e ac = tx_from_queue_loop env (resume_bundling t3 ac b) e ac"
        using step run go False by (auto split: if_splits)
      have "endpoint t2 = endpoint t1" using tx_send_loop_sends [OF l] by (simp add: sends_def)
      then have "\<not> timer_mode env (resume_bundling t3 ac b) e"
        using timer_mode_core [of "resume_bundling t3 ac b" e t1 env] tx_pkts_get_timer_mode [OF g 1(2)]
        by (simp add: t3_def)
      then show ?thesis unfolding t4 using 1(1) [OF run go g [symmetric] False l [symmetric] refl t3_def] by blast
    qed
  qed
qed

lemma from_queue_starved:
  assumes "tx_proc_cnt (endpoint t e) \<le> 0" "\<not> timer_mode env t e"
    and t': "t' = ath6kl_htc_tx_from_queue env t e"
  shows "txq (endpoint t' e) = [] \<or> credits (cred_dist t' e) < msg_cost t' (hd (txq (endpoint t' e)))"
proof -
  let ?s = "from_queue_start env t e" and ?ac = "endpoint_ac env (from_queue_start env t e) e"
  have "\<not> timer_mode env ?s e"
    using assms(2) by (auto simp: timer_mode_def from_queue_start_def Let_def)
  from tx_from_queue_loop_starved [OF this, of ?ac] show ?thesis
    by (simp add: t' from_queue_runs [OF assms(1)] msg_cost_cfg [OF tx_cfg_simps(1)])
qed

text \<open>How full a scatter request may get.\<close>

lemma padding_bounds:
  assumes "htc_get_credit_padding csz len fl = (pad, len')" "0 \<le> pad"
  shows "len \<le> len'" "len' \<le> len + 255" "int len' = int len + pad"
    "\<not> has_flag fl HTC_FLGS_TX_BNDL_PAD_EN \<Longrightarrow> csz dvd len'"
  using assms by (auto simp: htc_get_credit_padding_def Let_def split: if_splits)

lemma setup_scat_loop_bounds:
  assumes "setup_scat_loop t e n r q = (st, ents, q')" "0 \<le> r" "block_mask t = 2 ^ k - 1"
  shows "length ents \<le> n \<and> int (\<Sum>x\<leftarrow>ents. snd x) \<le> r
    \<and> (\<forall>x\<in>set ents. act_len (fst x) + HTC_HDR_LENGTH \<le> snd x
         \<and> (\<not> has_flag (conn_flags (endpoint t e)) HTC_FLGS_TX_BNDL_PAD_EN \<longrightarrow> tgt_cred_sz t dvd snd x))"
  using assms(1,2)
proof (induction n arbitrary: r q st ents q')
  case 0
  then show ?case by simp
next
  case (Suc n)
  show ?case
  proof (cases q)
    case Nil
    then show ?thesis using Suc(2,3) by simp
  next
    case (Cons p ps)
    let ?l = "CALC_TXRX_PADDED_LEN t (act_len p + HTC_HDR_LENGTH)"
    obtain pad len where c: "htc_get_credit_padding (tgt_cred_sz t) ?l (conn_flags (endpoint t e)) = (pad, len)"
      by fastforce
    show ?thesis
    proof (cases "pad < 0 \<or> r < int len")
      case True
      then show ?thesis using Suc(2,3) c Cons by auto
    next
      case False
      obtain st1 ents1 q1 where l: "setup_scat_loop t e n (r - int len) ps = (st1, ents1, q1)" by (metis prod_cases3)
      define w where "w = ath6kl_htc_tx_prep_pkt p (tx_flags p OR HTC_FLAGS_SEND_BUNDLE) pad (int (seqno_tx p))"
      have ents: "ents = (ath6kl_htc_tx_buf_align w (act_len w + HTC_HDR_LENGTH), len) # ents1"
        using Suc(2) c False l Cons by (auto simp: Let_def w_def)
      have al: "act_len (ath6kl_htc_tx_buf_align w (act_len w + HTC_HDR_LENGTH)) = act_len p"
        using pkt_core_eqD(1) [of "ath6kl_htc_tx_buf_align w (act_len w + HTC_HDR_LENGTH)" p] by (simp add: w_def)
      have "act_len p + HTC_HDR_LENGTH \<le> ?l"
        unfolding CALC_TXRX_PADDED_LEN_def assms(3) by (rule align_mask_ge)
      note pb = padding_bounds [OF c]
      from Suc(1) [OF l] False have "length ents1 \<le> n \<and> int (\<Sum>x\<leftarrow>ents1. snd x) \<le> r - int len
        \<and> (\<forall>x\<in>set ents1. act_len (fst x) + HTC_HDR_LENGTH \<le> snd x
         \<and> (\<not> has_flag (conn_flags (endpoint t e)) HTC_FLGS_TX_BNDL_PAD_EN \<longrightarrow> tgt_cred_sz t dvd snd x))" by simp
      then show ?thesis using ents al pb(1,4) False \<open>act_len p + HTC_HDR_LENGTH \<le> ?l\<close> by simp
    qed
  qed
qed

section \<open>Properties\<close>

subsection \<open>A concrete target\<close>

definition ex_pkt :: "nat \<Rightarrow> nat \<Rightarrow> nat \<Rightarrow> htc_packet" where
  "ex_pkt i e n = \<lparr>pkt_id = i, pkt_cntxt = i, pkt_mem = (\<lambda>a. of_int a), buf_start = 0, buf = 17, buf_len = 2048,
     act_len = n, endpoint_pkt = e, status = 0, tag = 5, cred_used = 0, tx_flags = 0, seqno_tx = 0,
     exp_hdr = LkAhd 0 0 0 0, rx_flags = 0, indicat_flags = 0, completion = False, connid = 0, recycle_count = 0, pkt_vif = None\<rparr>"

definition ex_ep :: "nat \<Rightarrow> nat \<Rightarrow> htc_endpoint" where
  "ex_ep e svc = \<lparr>eid = e, svc_id = svc, txq = [], rx_bufq = [],
     ep_cb = \<lparr>cb_rx_refill = False, cb_tx_full = True, cb_rx_allocthresh = False, rx_alloc_thresh = 0,
              rx_refill_thresh = 0\<rparr>,
     max_txq_depth = 2, len_max = 1500, tx_proc_cnt = 0, seqno = 254, conn_flags = 0, ep_st = zero_stats,
     tx_drop_packet_threshold = 0, call_by_timer = False, timer_init = False\<rparr>"

definition ex_target :: "unit htc_target" where
  "ex_target = \<lparr>endpoint = (\<lambda>e. ex_ep e 0)(0 := ex_ep 0 1, 1 := ex_ep 1 256, 2 := ex_ep 2 257,
       3 := (ex_ep 3 258)\<lparr>txq := [ex_pkt 7 3 100, ex_pkt 8 3 300]\<rparr>, 4 := ex_ep 4 259, 5 := ex_ep 5 260),
     cred_dist = ex_dists, cred_dist_list = [0, 1, 5, 4, 2, 3], free_ctrl_txbuf = [], free_ctrl_rxbuf = [],
     credit_info = ex_info, tgt_creds = 8, tgt_cred_sz = 256, htc_flags = 0, rx_st_flags = 0,
     ep_waiting = ENDPOINT_MAX, htc_tgt_ver = 1, msg_per_bndl_max = 8, tx_bndl_mask = 15, rx_bndl_enable = True,
     max_rx_bndl_sz = 4096, max_tx_bndl_sz = 4096, block_sz = 128, block_mask = 127, max_scat_entries = 16,
     max_xfer_szper_scatreq = 4096, chk_irq_status_cnt = 0, ac_tx_count = (\<lambda>_. 0), dev = (), events = []\<rparr>"

definition ex_env :: "unit htc_env" where
  "ex_env = \<lparr>low_cpu_power_tx_bundle_max = 0, htc_bundle_send_timer = 0, ep2ac_map = (\<lambda>e. e - 2), ctrl_ep = 1,
     hif_write_sync = (\<lambda>d p n. (0, d)), hif_write_async = (\<lambda>d p n. (0, d)), hif_read_sync = (\<lambda>d p n. (0, [], d)),
     hif_scatter_req_get = (\<lambda>d. (Some 4, d)), hif_scatter_req_add = (\<lambda>d. d), hif_scat_write = (\<lambda>d es. d),
     hif_scat_read = (\<lambda>d es. (0, \<lambda>_. [], d)), hif_poll_mboxmsg_rx = (\<lambda>d. (None, d)),
     hif_enable_scatter = (\<lambda>d. (Some (16, 4096), d)), hif_disable_intrs = (\<lambda>d. (0, d)),
     hif_unmask_intrs = (\<lambda>d. (0, d)), hif_mask_intrs = (\<lambda>d. d), hif_cleanup_scatter = (\<lambda>d. d),
     cb_tx_full_fn = (\<lambda>d p. (HTC_SEND_FULL_DROP, d)), cb_rx_refill_fn = (\<lambda>d e. ([], d)),
     cb_rx_allocthresh_fn = (\<lambda>d e n. (None, d))\<rparr>"

lemma ex_target_ok: "credit_ok_t ex_target" "cred_dist_list ex_target = [0, 1, 5, 4, 2, 3]"
  "tx_proc_cnt (endpoint ex_target 3) = 0" "tgt_cred_sz ex_target = 256" "block_mask ex_target = 127"
  "txq (endpoint ex_target 3) = [ex_pkt 7 3 100, ex_pkt 8 3 300]"
  using ex_credit_ok by (simp_all add: credit_ok_t_def ex_target_def ex_ep_def)

subsection \<open>Sending\<close>


text \<open>
  Property C9.  Every packet sent is paid for exactly once: the credits on the ledger drop by
  the sum of what the packets record as \<open>cred_used\<close>, each of which is the number of credits its
  padded frame occupies; no endpoint and not the free pool is overdrawn, however many seeks the
  sending needed.
\<close>

theorem tx_from_queue_pays:
  assumes "credit_ok_t t" and "e \<in> set (cred_dist_list t)"
  shows "credit_ok_t (ath6kl_htc_tx_from_queue env t e)
    \<and> (\<exists>evs. events (ath6kl_htc_tx_from_queue env t e) = events t @ evs
         \<and> ledger_t (ath6kl_htc_tx_from_queue env t e) = ledger_t t - spent (sent_pkts evs)
         \<and> (\<forall>w\<in>set (sent_pkts evs). cred_used w = msg_cost t w))"
  using from_queue_charged [OF assms, of env] by (simp add: charged_def)

theorem tx_from_queue_pays_witness:
  "credit_ok_t (ath6kl_htc_tx_from_queue ex_env ex_target 3)"
  using tx_from_queue_pays [OF ex_target_ok(1), of 3 ex_env] by (simp add: ex_target_ok(2))

text \<open>
  Property C18.  Sending does not stall: when \<open>ath6kl_htc_tx_from_queue\<close> runs (it is not already
  running for the endpoint) outside the timed bundling mode, it returns with the queue empty or
  with fewer credits than the first queued packet needs.
\<close>

theorem tx_from_queue_no_stall:
  assumes "tx_proc_cnt (endpoint t e) \<le> 0" and "\<not> timer_mode env t e"
    and "t' = ath6kl_htc_tx_from_queue env t e"
  shows "txq (endpoint t' e) = [] \<or> credits (cred_dist t' e) < msg_cost t' (hd (txq (endpoint t' e)))"
  by (rule from_queue_starved [OF assms])

theorem tx_from_queue_no_stall_witness:
  "txq (endpoint (ath6kl_htc_tx_from_queue ex_env ex_target 3) 3) = []
   \<or> credits (cred_dist (ath6kl_htc_tx_from_queue ex_env ex_target 3) 3)
       < msg_cost (ath6kl_htc_tx_from_queue ex_env ex_target 3)
           (hd (txq (endpoint (ath6kl_htc_tx_from_queue ex_env ex_target 3) 3)))"
  by (rule tx_from_queue_no_stall [OF _ _ refl]) (simp_all add: ex_target_ok timer_mode_def ex_env_def)

text \<open>
  Property C30.  A scatter request that is submitted holds at least two and at most \<open>n_scat\<close>
  packets, its entries together stay within the transmit bundle limit, every entry has room for
  the frame, and, for an endpoint without bundle padding, every entry is a whole number of
  credits; a request that could not be filled leaves the queue with every message intact.
\<close>

theorem tx_scat_list_bounds:
  assumes "ath6kl_htc_tx_setup_scat_list t e n_scat q = (st, ents, q')"
    and "0 \<le> max_tx_bndl_sz t" and "block_mask t = 2 ^ k - 1"
  shows "if st = - EAGAIN then ents = [] \<and> list_all2 same_msg q q'
    else 2 \<le> length ents \<and> length ents \<le> n_scat \<and> int (\<Sum>x\<leftarrow>ents. snd x) \<le> max_tx_bndl_sz t
      \<and> (\<forall>x\<in>set ents. act_len (fst x) + HTC_HDR_LENGTH \<le> snd x
           \<and> (\<not> has_flag (conn_flags (endpoint t e)) HTC_FLGS_TX_BNDL_PAD_EN \<longrightarrow> tgt_cred_sz t dvd snd x))
      \<and> (\<exists>qa. q = qa @ q' \<and> list_all2 on_wire qa (map fst ents))"
proof -
  obtain st0 ents0 q0 where l: "setup_scat_loop t e n_scat (max_tx_bndl_sz t) q = (st0, ents0, q0)" by (metis prod_cases3)
  note b = setup_scat_loop_bounds [OF l assms(2,3)]
  note eq = assms(1) [unfolded ath6kl_htc_tx_setup_scat_list_def l prod.case Let_def]
  show ?thesis
  proof (cases "length ents0 < HTC_MIN_HTC_MSGS_TO_BUNDLE")
    case True
    then show ?thesis using eq setup_scat_list_sends(1) [OF assms(1)] by auto
  next
    case False
    have "st \<noteq> - EAGAIN" using eq False setup_scat_loop_status [OF l] by auto
    moreover have "ents = ents0" using eq False by simp
    ultimately show ?thesis using b False setup_scat_list_sends(2) [OF assms(1)]
      by (simp add: HTC_MIN_HTC_MSGS_TO_BUNDLE_def)
  qed
qed

theorem tx_scat_list_bounds_witness:
  "case ath6kl_htc_tx_setup_scat_list ex_target 3 2 [ex_pkt 7 3 200, ex_pkt 8 3 500] of
     (st, ents, q') \<Rightarrow> st \<noteq> - EAGAIN \<and> length ents = 2 \<and> int (\<Sum>x\<leftarrow>ents. snd x) \<le> 4096"
proof -
  obtain st ents q' where s: "ath6kl_htc_tx_setup_scat_list ex_target 3 2 [ex_pkt 7 3 200, ex_pkt 8 3 500]
      = (st, ents, q')" by (metis prod_cases3)
  have "st = 0"
    using s by (simp add: ath6kl_htc_tx_setup_scat_list_def ex_target_def ex_ep_def ex_pkt_def numeral_2_eq_2
        CALC_TXRX_PADDED_LEN_def align_mask_def htc_get_credit_padding_def Let_def HTC_HDR_LENGTH_def
        HTC_MIN_HTC_MSGS_TO_BUNDLE_def)
  moreover have "0 \<le> max_tx_bndl_sz ex_target" "block_mask ex_target = 2 ^ 7 - 1" "max_tx_bndl_sz ex_target = 4096"
    by (simp_all add: ex_target_def)
  ultimately show ?thesis using tx_scat_list_bounds [OF s, of 7] s by simp
qed

subsection \<open>Credits for a message, refunds, and queue management\<close>

lemma distribute_t_credit:
  assumes "credit_ok_t t"
  shows "credit_ok_t (distribute_t t r)" "ledger_t (distribute_t t r) = ledger_t t"
proof -
  obtain ci ds where d: "ath6kl_credit_distribute (credit_info t) (cred_dist t) (cred_dist_list t) r = (ci, ds)"
    by fastforce
  note k = credit_distribute_keeps [OF assms [unfolded credit_ok_t_def] d]
  show "credit_ok_t (distribute_t t r)" "ledger_t (distribute_t t r) = ledger_t t"
    using k by (simp_all add: credit_ok_t_def ledger_t_def distribute_t_def d)
qed

lemma comp_update_credit:
  assumes "credit_ok_t t" "e \<in> set (cred_dist_list t)" "0 \<le> cred_used p"
    "htc_tx_comp_update t e p = (p', t')"
  shows "credit_ok_t t' \<and> ledger_t t' = ledger_t t + (if status p = 0 then 0 else cred_used p)
    \<and> tx_cfg t' = tx_cfg t \<and> endpoint t' = endpoint t \<and> events t' = events t
    \<and> p' = p\<lparr>completion := False, buf := buf p + int HTC_HDR_LENGTH\<rparr>"
proof (cases "status p = 0")
  case True
  then show ?thesis using assms by (auto simp: htc_tx_comp_update_def Let_def)
next
  case False
  let ?f = "\<lambda>d. d\<lparr>cred_to_dist := cred_to_dist d + cred_used p, txq_depth := int (length (txq (endpoint t e)))\<rparr>"
  have d: "dist_ok (cred_dist t e)" using dist_ok_t assms(1,2) .
  have "credit_ok_t (upd_cd t e ?f)" "ledger_t (upd_cd t e ?f) = ledger_t t + cred_used p"
    using upd_cd_credit [OF assms(1,2), of ?f] d assms(3) by (simp_all add: dist_ok_def cr_of_def)
  then show ?thesis using assms(4) False
    by (auto simp: htc_tx_comp_update_def Let_def distribute_t_credit)
qed

lemma scat_complete_loop_credit:
  assumes "credit_ok_t t" "e \<in> set (cred_dist_list t)" "\<forall>p\<in>set ps. 0 \<le> cred_used p"
    "scat_complete_loop t e st (map Some ps) = (r, t')"
  shows "credit_ok_t t' \<and> ledger_t t' = ledger_t t + (if st = 0 then 0 else spent ps)
    \<and> tx_cfg t' = tx_cfg t \<and> endpoint t' = endpoint t \<and> events t' = events t
    \<and> r = Some (map (\<lambda>p. p\<lparr>status := st, completion := False, buf := buf p + int HTC_HDR_LENGTH\<rparr>) ps)"
  using assms
proof (induction ps arbitrary: t r t')
  case Nil
  then show ?case by simp
next
  case (Cons p ps)
  obtain p1 t1 where u: "htc_tx_comp_update t e (p\<lparr>status := st\<rparr>) = (p1, t1)" by fastforce
  obtain r1 t2 where l: "scat_complete_loop t1 e st (map Some ps) = (r1, t2)" by fastforce
  have uu: "credit_ok_t t1 \<and> ledger_t t1 = ledger_t t + (if st = 0 then 0 else cred_used p)
    \<and> tx_cfg t1 = tx_cfg t \<and> endpoint t1 = endpoint t \<and> events t1 = events t
    \<and> p1 = p\<lparr>status := st, completion := False, buf := buf p + int HTC_HDR_LENGTH\<rparr>"
    using comp_update_credit [OF Cons(2,3) _ u] Cons(4) by simp
  have "e \<in> set (cred_dist_list t1)" using Cons(3) uu tx_cfg_eqD(1) by metis
  with Cons(1) [OF _ this _ l] uu Cons(4,5) show ?case by (auto simp: u l)
qed



text \<open>
  Property C39.  A failed scatter request gives back exactly what its packets had paid and
  completes all of them, with the bus status and the payload pointer back on the payload; a
  successful one refunds nothing.
\<close>

theorem tx_scat_complete_refunds:
  assumes "credit_ok_t t" and "e \<in> set (cred_dist_list t)" and "\<forall>p\<in>set ps. 0 \<le> cred_used p" and "ps \<noteq> []"
    and "t' = htc_async_tx_scat_complete env t e st (map Some ps)"
  shows "credit_ok_t t' \<and> ledger_t t' = ledger_t t + (if st = 0 then 0 else spent ps)
    \<and> events t' = events t
        @ [TxComplete (map (\<lambda>p. p\<lparr>status := st, completion := False, buf := buf p + int HTC_HDR_LENGTH\<rparr>) ps)]"
proof -
  obtain r t1 where l: "scat_complete_loop t e st (map Some ps) = (r, t1)" by fastforce
  note k = scat_complete_loop_credit [OF assms(1-3) l]
  show ?thesis using k assms(4,5) l by (simp add: htc_async_tx_scat_complete_def htc_tx_complete_def)
qed

theorem tx_scat_complete_refunds_witness:
  "ledger_t (htc_async_tx_scat_complete ex_env ex_target 3 (- 5)
      (map Some [(ex_pkt 7 3 100)\<lparr>cred_used := 1\<rparr>, (ex_pkt 8 3 300)\<lparr>cred_used := 2\<rparr>])) = ledger_t ex_target + 3"
  using tx_scat_complete_refunds [OF ex_target_ok(1), of 3
      "[(ex_pkt 7 3 100)\<lparr>cred_used := 1\<rparr>, (ex_pkt 8 3 300)\<lparr>cred_used := 2\<rparr>]", OF _ _ _ refl, of ex_env "- 5"]
  by (simp add: ex_target_ok(2))

text \<open>The packets an event gives back to the layer above.\<close>

fun ev_completed :: "htc_event \<Rightarrow> htc_packet list" where
  "ev_completed (TxComplete ps) = ps"
| "ev_completed _ = []"

definition completed_pkts :: "htc_event list \<Rightarrow> htc_packet list" where
  "completed_pkts evs = concat (map ev_completed evs)"

lemma completed_pkts_simps [simp]:
  "completed_pkts [] = []" "completed_pkts (e # es) = ev_completed e @ completed_pkts es"
  "completed_pkts (as @ bs) = completed_pkts as @ completed_pkts bs"
  by (simp_all add: completed_pkts_def)

lemma delivered_ids: "list_all2 delivered q ws \<Longrightarrow> map pkt_id ws = map pkt_id q"
  by (induction q ws rule: list_all2_induct) (auto simp: delivered_def)



lemma flush_fold:
  "foldl (\<lambda>t p. htc_tx_complete t e [p\<lparr>status := - ECANCELED\<rparr>]) t ps =
   t\<lparr>events := events t @ map (\<lambda>p. TxComplete [p\<lparr>status := - ECANCELED\<rparr>]) ps\<rparr>"
  by (induction ps arbitrary: t) (simp_all add: htc_tx_complete_def emit_def)

lemma completed_singles: "completed_pkts (map (\<lambda>p. TxComplete [f p]) ps) = map f ps"
  by (induction ps) simp_all

text \<open>
  Property C34.  Flushing an endpoint completes exactly the queued packets with the tag (all of
  them for \<open>HTC_TX_PACKET_TAG_ALL\<close>), in order, each once and as cancelled; the others stay queued
  in order; an unconnected endpoint is left alone.
\<close>

theorem flush_txep_partition:
  "\<exists>evs. events (ath6kl_htc_mbox_flush_txep t e tg) = events t @ evs
     \<and> (if svc_id (endpoint t e) = 0 then evs = [] \<and> ath6kl_htc_mbox_flush_txep t e tg = t
        else completed_pkts evs = map (\<lambda>p. p\<lparr>status := - ECANCELED\<rparr>) (filter (\<lambda>p. tg = 0 \<or> tg = tag p) (txq (endpoint t e)))
          \<and> txq (endpoint (ath6kl_htc_mbox_flush_txep t e tg) e) = filter (\<lambda>p. tg \<noteq> 0 \<and> tg \<noteq> tag p) (txq (endpoint t e))
          \<and> mset (map pkt_id (completed_pkts evs)) + mset (map pkt_id (txq (endpoint (ath6kl_htc_mbox_flush_txep t e tg) e)))
            = mset (map pkt_id (txq (endpoint t e))))"
proof (cases "svc_id (endpoint t e) = 0")
  case True
  then show ?thesis by (simp add: ath6kl_htc_mbox_flush_txep_def)
next
  case False
  let ?hit = "\<lambda>p. tg = HTC_TX_PACKET_TAG_ALL \<or> tg = tag p" and ?q = "txq (endpoint t e)"
  have f: "ath6kl_htc_mbox_flush_txep t e tg = (upd_ep t e (\<lambda>ep. ep\<lparr>txq := filter (\<lambda>p. \<not> ?hit p) (txq ep)\<rparr>))
      \<lparr>events := events t @ map (\<lambda>p. TxComplete [p\<lparr>status := - ECANCELED\<rparr>]) (filter ?hit ?q)\<rparr>"
    using False by (simp add: ath6kl_htc_mbox_flush_txep_def flush_fold Let_def)
  have c: "completed_pkts (map (\<lambda>p. TxComplete [p\<lparr>status := - ECANCELED\<rparr>]) (filter ?hit ?q))
      = map (\<lambda>p. p\<lparr>status := - ECANCELED\<rparr>) (filter ?hit ?q)" by (rule completed_singles)
  have m: "mset (map pkt_id (filter ?hit ?q)) + mset (map pkt_id (filter (\<lambda>p. \<not> ?hit p) ?q)) = mset (map pkt_id ?q)"
    using partition_mset [of ?hit ?q] by (metis image_mset_union mset_map)
  show ?thesis
    using False c m by (intro exI [of _ "map (\<lambda>p. TxComplete [p\<lparr>status := - ECANCELED\<rparr>]) (filter ?hit ?q)"])
      (simp add: f HTC_TX_PACKET_TAG_ALL_def o_def)
qed

end
