(* ===== verification/HtcRx.thy ===== *)
theory HtcRx
  imports HtcTx "HOL-Library.Sublist"
begin

text \<open>
  The receive half of the HTC mailbox layer (drivers/ath6kl/htc.c, from
  \<open>ath6kl_htc_rx_update_stats\<close> to \<open>ath6kl_htc_mbox_flush_rx_buf\<close>).

  The target announces a frame by its first four bytes, the lookahead; the host allocates a
  packet for it, fetches it (several at once where the bus allows) and processes its header,
  which may carry a trailer with credit reports and further lookaheads.  The array of next
  lookaheads with its counter is the list of the valid ones.  A received packet is handed up
  as \<open>RxDeliver\<close>; the callback of endpoint 0 is \<open>htc_ctrl_rx\<close> of this layer and is called
  directly.
\<close>

section \<open>Buffers\<close>

definition ATH6KL_BUFFER_SIZE :: nat where "ATH6KL_BUFFER_SIZE = 1664"
definition ATH6KL_AMSDU_BUFFER_SIZE :: nat where "ATH6KL_AMSDU_BUFFER_SIZE = 3840 + 6 + 14 + 8 + 128"

definition ath6kl_htc_rx_update_stats :: "'d htc_target \<Rightarrow> nat \<Rightarrow> nat \<Rightarrow> 'd htc_target" where
  "ath6kl_htc_rx_update_stats t e n =
     upd_st t e (\<lambda>s. let s1 = s\<lparr>rx_pkts := rx_pkts s + 1\<rparr> in
       if n = 1 then s1\<lparr>rx_lkahds := rx_lkahds s1 + 1\<rparr>
       else if n > 1 then s1\<lparr>rx_bundle_lkahd := rx_bundle_lkahd s1 + 1\<rparr> else s1)"

definition htc_valid_rx_frame_len :: "'d htc_env \<Rightarrow> nat \<Rightarrow> nat \<Rightarrow> bool" where
  "htc_valid_rx_frame_len env e len =
     (if e = ctrl_ep env then len \<le> ATH6KL_BUFFER_SIZE else len \<le> ATH6KL_AMSDU_BUFFER_SIZE)"

definition reclaim_rx_ctrl_buf :: "'d htc_target \<Rightarrow> htc_packet \<Rightarrow> 'd htc_target" where
  "reclaim_rx_ctrl_buf t p = t\<lparr>free_ctrl_rxbuf := free_ctrl_rxbuf t @ [p]\<rparr>"

text \<open>
  The callback of an endpoint on a cancelled packet: for endpoint 0 the first two branches of
  \<open>htc_ctrl_rx\<close> (see \<open>ctrl_rx_cancelled\<close> below).
\<close>

definition rx_cancel :: "'d htc_target \<Rightarrow> nat \<Rightarrow> htc_packet \<Rightarrow> 'd htc_target" where
  "rx_cancel t e p =
     (let p1 = p\<lparr>status := - ECANCELED\<rparr> in
      if e = 0 then (if endpoint_pkt p1 \<noteq> 0 then t else reclaim_rx_ctrl_buf t p1)
      else emit t (RxDeliver e p1))"

definition ath6kl_htc_mbox_add_rxbuf_multiple :: "'d htc_target \<Rightarrow> htc_packet list \<Rightarrow> int \<times> 'd htc_target" where
  "ath6kl_htc_mbox_add_rxbuf_multiple t q =
     (case q of
        [] \<Rightarrow> (- ENOMEM, t)
      | first_pkt # _ \<Rightarrow>
          let e = endpoint_pkt first_pkt in
          if e \<ge> ENDPOINT_MAX then (0, t)
          else if has_flag (htc_flags t) HTC_OP_STATE_STOPPING
          then (0, foldl (\<lambda>t p. rx_cancel t e p) t q)
          else
            let t1 = upd_ep t e (\<lambda>ep. ep\<lparr>rx_bufq := rx_bufq ep @ q\<rparr>);
                rx_unblock = (has_flag (rx_st_flags t1) HTC_RECV_WAIT_BUFFERS \<and> ep_waiting t1 = e);
                t2 = (if rx_unblock
                      then t1\<lparr>rx_st_flags := clear_flag (rx_st_flags t1) HTC_RECV_WAIT_BUFFERS, ep_waiting := ENDPOINT_MAX\<rparr>
                      else t1)
            in (0, if rx_unblock \<and> \<not> has_flag (htc_flags t2) HTC_OP_STATE_STOPPING then emit t2 (RxControl True) else t2))"

definition htc_add_rxbuf :: "'d htc_target \<Rightarrow> htc_packet \<Rightarrow> int \<times> 'd htc_target" where
  "htc_add_rxbuf t p = ath6kl_htc_mbox_add_rxbuf_multiple t [p]"

definition htc_reclaim_rxbuf :: "'d htc_target \<Rightarrow> htc_packet \<Rightarrow> nat \<Rightarrow> 'd htc_target" where
  "htc_reclaim_rxbuf t p e =
     (if has_flag (rx_flags p) HTC_RX_PKT_NO_RECYCLE then rx_cancel t e (htc_rxpkt_reset p)
      else snd (htc_add_rxbuf t (htc_rxpkt_reset p)))"

definition htc_ctrl_rx :: "'d htc_target \<Rightarrow> htc_packet \<Rightarrow> 'd htc_target" where
  "htc_ctrl_rx t p =
     (if endpoint_pkt p \<noteq> 0 then t
      else if status p = - ECANCELED then reclaim_rx_ctrl_buf t p
      else htc_reclaim_rxbuf t p 0)"

lemma ctrl_rx_cancelled: "rx_cancel t 0 p = htc_ctrl_rx t (p\<lparr>status := - ECANCELED\<rparr>)"
  by (simp add: rx_cancel_def htc_ctrl_rx_def)

definition ath6kl_htc_rx_complete :: "'d htc_target \<Rightarrow> nat \<Rightarrow> htc_packet \<Rightarrow> 'd htc_target" where
  "ath6kl_htc_rx_complete t e p = (if e = 0 then htc_ctrl_rx t p else emit t (RxDeliver e p))"

text \<open>The refill callback of a service provides buffers through \<open>add_rxbuf_multiple\<close>.\<close>

definition rx_refill :: "'d htc_env \<Rightarrow> 'd htc_target \<Rightarrow> nat \<Rightarrow> 'd htc_target" where
  "rx_refill env t e =
     (case cb_rx_refill_fn env (dev t) (eid (endpoint t e)) of
        (ps, d) \<Rightarrow> if ps = [] then t\<lparr>dev := d\<rparr> else snd (ath6kl_htc_mbox_add_rxbuf_multiple (t\<lparr>dev := d\<rparr>) ps))"

definition ath6kl_htc_rx_chk_water_mark :: "'d htc_env \<Rightarrow> 'd htc_target \<Rightarrow> nat \<Rightarrow> 'd htc_target" where
  "ath6kl_htc_rx_chk_water_mark env t e =
     (if rx_refill_thresh (ep_cb (endpoint t e)) > 0
         \<and> int (length (rx_bufq (endpoint t e))) < rx_refill_thresh (ep_cb (endpoint t e))
      then rx_refill env t e else t)"

definition ath6kl_htc_mbox_get_rxbuf_num :: "'d htc_target \<Rightarrow> nat \<Rightarrow> nat" where
  "ath6kl_htc_mbox_get_rxbuf_num t e = length (rx_bufq (endpoint t e))"

section \<open>Allocating packets for lookaheads\<close>

text \<open>One buffer: from the service's allocator for long frames, else from the endpoint's list.\<close>

definition rx_take_buffer ::
    "'d htc_env \<Rightarrow> 'd htc_target \<Rightarrow> nat \<Rightarrow> lkahd \<Rightarrow> nat \<Rightarrow> htc_packet option \<times> bool \<times> 'd htc_target" where
  "rx_take_buffer env t e lk full_len =
     (let cb = ep_cb (endpoint t e) in
      if cb_rx_allocthresh cb \<and> int full_len > rx_alloc_thresh cb then
        let t1 = upd_st t e (\<lambda>s. s\<lparr>rx_alloc_thresh_hit := rx_alloc_thresh_hit s + 1,
                                   rxalloc_thresh_byte := rxalloc_thresh_byte s + of_nat (lk_payld_len lk)\<rparr>);
            (p, d) = cb_rx_allocthresh_fn env (dev t1) (eid (endpoint t1 e)) full_len
        in (p, True, t1\<lparr>dev := d\<rparr>)
      else
        let t1 = (if rx_bufq (endpoint t e) = [] \<and> cb_rx_refill cb then rx_refill env t e else t)
        in case rx_bufq (endpoint t1 e) of
             [] \<Rightarrow> (None, False, t1)
           | p # ps \<Rightarrow> (Some p, False, upd_ep t1 e (\<lambda>ep. ep\<lparr>rx_bufq := ps\<rparr>)))"

text \<open>\<open>j\<close> counts up, the last argument is how many messages are left.\<close>

fun rx_setup_loop ::
    "'d htc_env \<Rightarrow> 'd htc_target \<Rightarrow> nat \<Rightarrow> lkahd \<Rightarrow> nat \<Rightarrow> nat \<Rightarrow> nat \<Rightarrow> int \<times> htc_packet list \<times> 'd htc_target" where
  "rx_setup_loop env t e lk full_len j 0 = (0, [], t)"
| "rx_setup_loop env t e lk full_len j (Suc n) =
     (case rx_take_buffer env t e lk full_len of
        (None, _, t1) \<Rightarrow>
          (- ENOSPC, [], t1\<lparr>rx_st_flags := set_flag (rx_st_flags t1) HTC_RECV_WAIT_BUFFERS,
                            ep_waiting := eid (endpoint t1 e)\<rparr>)
      | (Some p, no_recycle, t1) \<Rightarrow>
          let p1 = p\<lparr>rx_flags := (if no_recycle then HTC_RX_PKT_NO_RECYCLE else 0), indicat_flags := 0, status := 0\<rparr> in
          if has_flag (htc_flags t1) HTC_OP_STATE_STOPPING then (- ECANCELED, [p1], t1)
          else
            let p2 = (if j \<noteq> 0 then p1\<lparr>rx_flags := set_flag (rx_flags p1) HTC_RX_PKT_REFRESH_HDR,
                                      exp_hdr := LkAhd (-1) (-1) (-1) (-1)\<rparr>
                      else p1\<lparr>exp_hdr := lk\<rparr>);
                p3 = p2\<lparr>act_len := lk_payld_len lk + HTC_HDR_LENGTH\<rparr>;
                (st, q, t2) = rx_setup_loop env t1 e lk full_len (Suc j) n
            in (st, p3 # q, t2))"

definition ath6kl_htc_rx_setup ::
    "'d htc_env \<Rightarrow> 'd htc_target \<Rightarrow> nat \<Rightarrow> lkahd \<Rightarrow> nat \<Rightarrow> int \<times> htc_packet list \<times> 'd htc_target" where
  "ath6kl_htc_rx_setup env t e lk n_msg =
     (let full_len = CALC_TXRX_PADDED_LEN t (lk_payld_len lk + HTC_HDR_LENGTH) in
      if \<not> htc_valid_rx_frame_len env (eid (endpoint t e)) full_len then (- EINVAL, [], t)
      else rx_setup_loop env t e lk full_len 0 n_msg)"

text \<open>How many messages a lookahead announces.\<close>

definition rx_n_msg :: "lkahd \<Rightarrow> nat" where
  "rx_n_msg lk = (if has_flag (lk_flags lk) HTC_FLG_RX_BNDL_CNT
                  then unat (drop_bit 4 (lk_flags lk AND HTC_FLG_RX_BNDL_CNT)) + 1 else 1)"

fun rx_alloc_loop ::
    "'d htc_env \<Rightarrow> 'd htc_target \<Rightarrow> nat \<Rightarrow> lkahd list \<Rightarrow> int \<times> htc_packet list \<times> 'd htc_target" where
  "rx_alloc_loop env t e [] = (0, [], t)"
| "rx_alloc_loop env t e (lk # lks) =
     (if lk_eid lk \<ge> ENDPOINT_MAX then (- ENOMEM, [], t)
      else if lk_eid lk \<noteq> eid (endpoint t e) then (- ENOMEM, [], t)
      else if lk_payld_len lk > HTC_MAX_PAYLOAD_LENGTH then (- ENOMEM, [], t)
      else if svc_id (endpoint t e) = 0 then (- ENOMEM, [], t)
      else
        let bundled = has_flag (lk_flags lk) HTC_FLG_RX_BNDL_CNT; n_msg = rx_n_msg lk in
        if bundled \<and> int n_msg > msg_per_bndl_max t then (- ENOMEM, [], t)
        else
          let t0 = (if bundled then upd_st t e (\<lambda>s. s\<lparr>rx_bundle_from_hdr := rx_bundle_from_hdr s + 1\<rparr>) else t);
              (st, q1, t1) = ath6kl_htc_rx_setup env t0 e lk n_msg
          in if st \<noteq> 0 then (st, q1, t1)
             else let (st2, q2, t2) = rx_alloc_loop env t1 e lks in (st2, q1 @ q2, t2))"

definition ath6kl_htc_rx_alloc ::
    "'d htc_env \<Rightarrow> 'd htc_target \<Rightarrow> nat \<Rightarrow> lkahd list \<Rightarrow> int \<times> htc_packet list \<times> 'd htc_target" where
  "ath6kl_htc_rx_alloc env t e lks =
     (let (st, q, t1) = rx_alloc_loop env t e lks in
      if st = - ENOSPC then (0, q, t1)
      else if st \<noteq> 0 then (st, [], foldl (\<lambda>t p. htc_reclaim_rxbuf t p (endpoint_pkt p)) t1 q)
      else (0, q, t1))"

section \<open>Trailers\<close>

text \<open>
  One entry of a credit report: the statistics, by where the report arrived, and the credits,
  which endpoint 0 gets at once and every other endpoint through the distribution.
\<close>

definition cred_rpt_stats :: "nat \<Rightarrow> nat \<Rightarrow> u32 \<Rightarrow> htc_endpoint_stats \<Rightarrow> htc_endpoint_stats" where
  "cred_rpt_stats from_ep e w s =
     (let s1 = s\<lparr>tx_cred_rpt := tx_cred_rpt s + 1, cred_retnd := cred_retnd s + w\<rparr> in
      if from_ep = e then s1\<lparr>cred_from_rx := cred_from_rx s1 + w, cred_rpt_from_rx := cred_rpt_from_rx s1 + 1\<rparr>
      else if from_ep = 0 then s1\<lparr>cred_from_ep0 := cred_from_ep0 s1 + w, cred_rpt_ep0 := cred_rpt_ep0 s1 + 1\<rparr>
      else s1\<lparr>cred_from_other := cred_from_other s1 + w, cred_rpt_from_other := cred_rpt_from_other s1 + 1\<rparr>)"

definition cred_rpt_one :: "'d htc_target \<Rightarrow> nat \<Rightarrow> nat \<Rightarrow> nat \<Rightarrow> 'd htc_target" where
  "cred_rpt_one t from_ep e c =
     (let t1 = upd_st t e (cred_rpt_stats from_ep e (of_nat c))
      in upd_cd t1 e (\<lambda>d. (if e = 0 then d\<lparr>credits := credits d + int c\<rparr>
                           else d\<lparr>cred_to_dist := cred_to_dist d + int c\<rparr>)
                          \<lparr>txq_depth := int (length (txq (endpoint t1 e)))\<rparr>))"

text \<open>The loop: whether every entry was accepted, \<open>dist\<close> and \<open>tot_credits\<close>.\<close>

fun cred_rpt_loop ::
    "'d htc_target \<Rightarrow> nat \<Rightarrow> (u8 \<times> u8) list \<Rightarrow> bool \<times> bool \<times> int \<times> 'd htc_target" where
  "cred_rpt_loop t from_ep [] = (True, False, 0, t)"
| "cred_rpt_loop t from_ep ((rid, rcr) # rs) =
     (if unat rid \<ge> ENDPOINT_MAX then (False, False, 0, t)
      else
        let (ok, dist, tot, t1) = cred_rpt_loop (cred_rpt_one t from_ep (unat rid) (unat rcr)) from_ep rs
        in (ok, dist \<or> unat rid \<noteq> 0, tot + int (unat rcr), t1))"

definition htc_proc_cred_rpt :: "'d htc_env \<Rightarrow> 'd htc_target \<Rightarrow> (u8 \<times> u8) list \<Rightarrow> nat \<Rightarrow> 'd htc_target" where
  "htc_proc_cred_rpt env t rpt from_ep =
     (let (ok, dist, tot, t1) = cred_rpt_loop t from_ep rpt in
      if \<not> ok then t1
      else
        let t2 = (if dist then distribute_t t1 HTC_CREDIT_DIST_SEND_COMPLETE else t1)
        in if tot \<noteq> 0 then htc_chk_ep_txq env t2 else t2)"

fun byte_pairs :: "u8 list \<Rightarrow> (u8 \<times> u8) list" where
  "byte_pairs (a # b # r) = (a, b) # byte_pairs r"
| "byte_pairs _ = []"

fun byte_lkahds :: "u8 list \<Rightarrow> lkahd list" where
  "byte_lkahds (a # b # c # d # r) = LkAhd a b c d # byte_lkahds r"
| "byte_lkahds _ = []"

text \<open>
  \<open>use\<close> says that \<open>next_lk_ahds\<close> is not \<open>NULL\<close>; \<open>lks\<close> are the lookaheads recorded so far; \<open>rec\<close> is
  the record, as many bytes as its header says.
\<close>

definition htc_parse_trailer ::
    "'d htc_env \<Rightarrow> 'd htc_target \<Rightarrow> u8 \<Rightarrow> u8 list \<Rightarrow> bool \<Rightarrow> lkahd list \<Rightarrow> nat \<Rightarrow> int \<times> lkahd list \<times> 'd htc_target" where
  "htc_parse_trailer env t rid rec use lks e =
     (if rid = 1 then
        (if length rec div 2 = 0 then (- EINVAL, lks, t)
         else (0, lks, htc_proc_cred_rpt env t (byte_pairs rec) e))
      else if rid = 2 then
        (if length rec div 6 = 0 then (- EINVAL, lks, t)
         else if rec ! 0 = NOT (rec ! 5) \<and> use then (0, [LkAhd (rec ! 1) (rec ! 2) (rec ! 3) (rec ! 4)], t)
         else (0, lks, t))
      else if rid = 3 then
        (if length rec div 4 = 0 \<or> length rec div 4 > nat HTC_HOST_MAX_MSG_PER_BUNDLE then (- EINVAL, lks, t)
         else if use then (0, byte_lkahds rec, t) else (0, lks, t))
      else (0, lks, t))"

function htc_proc_trailer ::
    "'d htc_env \<Rightarrow> 'd htc_target \<Rightarrow> u8 list \<Rightarrow> bool \<Rightarrow> lkahd list \<Rightarrow> nat \<Rightarrow> int \<times> lkahd list \<times> 'd htc_target" where
  "htc_proc_trailer env t [] use lks e = (0, lks, t)"
| "htc_proc_trailer env t [b] use lks e = (- ENOMEM, lks, t)"
| "htc_proc_trailer env t (rid # rlen # bs) use lks e =
     (if unat rlen > length bs then (- ENOMEM, lks, t)
      else
        (case htc_parse_trailer env t rid (take (unat rlen) bs) use lks e of (st, lks1, t1) \<Rightarrow>
          if st \<noteq> 0 then (st, lks1, t1)
          else htc_proc_trailer env t1 (drop (unat rlen) bs) use lks1 e))"
  by pat_completeness auto
termination
  by (relation "measure (\<lambda>(env, t, bs, use, lks, e). length bs)") auto

section \<open>Received packets\<close>

text \<open>
  \<open>ath6kl_htc_rx_process_hdr\<close>.  \<open>look\<close> says that the caller passed a lookahead array; its counter
  is then reset first, so the lookaheads start empty.  The trailer is the last \<open>ctrl[0]\<close> bytes of
  the payload.
\<close>

definition ath6kl_htc_rx_process_hdr ::
    "'d htc_env \<Rightarrow> 'd htc_target \<Rightarrow> htc_packet \<Rightarrow> bool \<Rightarrow> int \<times> htc_packet \<times> lkahd list \<times> 'd htc_target" where
  "ath6kl_htc_rx_process_hdr env t p look =
     (let hb = read_bytes (pkt_mem p) (buf p) HTC_HDR_LENGTH;
          hdr = get_hdr hb; plen = payld_len hdr; lk = lkahd_of hb;
          refresh = has_flag (rx_flags p) HTC_RX_PKT_REFRESH_HDR;
          p1 = (if refresh then p\<lparr>exp_hdr := lk, act_len := plen + HTC_HDR_LENGTH\<rparr> else p)
      in if refresh \<and> act_len p1 > buf_len p1
         then (- ENOMEM, p1\<lparr>act_len := min (act_len p1) (buf_len p1)\<rparr>, [], t)
         else if refresh \<and> endpoint_pkt p1 \<noteq> unat (eid_hdr hdr) then (- ENOMEM, p1, [], t)
         else if lk \<noteq> exp_hdr p1 then (- ENOMEM, p1, [], t)
         else if has_flag (flags_hdr hdr) HTC_FLG_RX_TRAILER then
           (let n = unat (ctrl0 hdr) in
            if n < 2 \<or> n > plen then (- ENOMEM, p1, [], t)
            else
              (case htc_proc_trailer env t
                      (read_bytes (pkt_mem p1) (buf p1 + int HTC_HDR_LENGTH + int plen - int n) n)
                      (look \<and> \<not> has_flag (rx_flags p1) HTC_RX_PKT_IGNORE_LOOKAHEAD) [] (endpoint_pkt p1) of
                 (st, lks, t1) \<Rightarrow>
                   if st \<noteq> 0 then (st, p1, lks, t1)
                   else (0, p1\<lparr>buf := buf p1 + int HTC_HDR_LENGTH, act_len := act_len p1 - n - HTC_HDR_LENGTH\<rparr>, lks, t1)))
         else (0, p1\<lparr>buf := buf p1 + int HTC_HDR_LENGTH, act_len := act_len p1 - HTC_HDR_LENGTH\<rparr>, [], t))"

definition ath6kl_htc_rx_set_indicate :: "'d htc_target \<Rightarrow> lkahd \<Rightarrow> nat \<Rightarrow> htc_packet \<Rightarrow> htc_packet" where
  "ath6kl_htc_rx_set_indicate t lk e p =
     (if lk_eid lk = endpoint_pkt p \<and> rx_bufq (endpoint t e) \<noteq> []
      then p\<lparr>indicat_flags := set_flag (indicat_flags p) HTC_RX_FLAGS_INDICATE_MORE_PKTS\<rparr> else p)"

text \<open>Processing the fetched packets: status, packets left over, lookaheads of the last one.\<close>

fun ath6kl_htc_rx_process_packets ::
    "'d htc_env \<Rightarrow> 'd htc_target \<Rightarrow> htc_packet list \<Rightarrow> lkahd list \<Rightarrow> int \<times> htc_packet list \<times> lkahd list \<times> 'd htc_target" where
  "ath6kl_htc_rx_process_packets env t [] lks = (0, [], lks, t)"
| "ath6kl_htc_rx_process_packets env t (p # ps) lks =
     (let e = endpoint_pkt p in
      case ath6kl_htc_rx_process_hdr env t p True of (st, p1, lks1, t1) \<Rightarrow>
        if st \<noteq> 0 then (st, p1 # ps, lks1, t1)
        else
          let p2 = (if ps = [] then (case lks1 of [] \<Rightarrow> p1 | lk # _ \<Rightarrow> ath6kl_htc_rx_set_indicate t1 lk e p1)
                    else p1\<lparr>indicat_flags := set_flag (indicat_flags p1) HTC_RX_FLAGS_INDICATE_MORE_PKTS\<rparr>);
              t2 = ath6kl_htc_rx_update_stats t1 e (length lks1);
              t3 = (if has_flag (rx_flags p2) HTC_RX_PKT_PART_OF_BUNDLE
                    then upd_st t2 e (\<lambda>s. s\<lparr>rx_bundl := rx_bundl s + 1\<rparr>) else t2)
          in ath6kl_htc_rx_process_packets env (ath6kl_htc_rx_complete t3 e p2) ps lks1)"

section \<open>Fetching\<close>

definition ath6kl_htc_rx_packet ::
    "'d htc_env \<Rightarrow> 'd htc_target \<Rightarrow> htc_packet \<Rightarrow> nat \<Rightarrow> int \<times> htc_packet \<times> 'd htc_target" where
  "ath6kl_htc_rx_packet env t p rx_len =
     (let padded = CALC_TXRX_PADDED_LEN t rx_len in
      if padded > buf_len p then (- ENOMEM, p, t)
      else (case hif_read_sync env (dev t) p padded of (st, bs, d) \<Rightarrow>
              (st, p\<lparr>pkt_mem := write_bytes (pkt_mem p) (buf p) (take padded bs), status := st\<rparr>, t\<lparr>dev := d\<rparr>)))"

text \<open>
  The loop that fills the scatter list: the packets taken and what is left of the queue.  A
  packet is flagged to ignore its lookahead unless it is the last of a whole bundle.
\<close>

fun rx_bundle_loop ::
    "'d htc_target \<Rightarrow> bool \<Rightarrow> nat \<Rightarrow> int \<Rightarrow> htc_packet list \<Rightarrow> htc_packet list \<times> htc_packet list" where
  "rx_bundle_loop t part 0 rem_space q = ([], q)"
| "rx_bundle_loop t part (Suc n) rem_space [] = ([], [])"
| "rx_bundle_loop t part (Suc n) rem_space (p # q) =
     (let pad_len = CALC_TXRX_PADDED_LEN t (act_len p) in
      if rem_space - int pad_len < 0 then ([], p # q)
      else
        let p1 = (if part \<or> n \<noteq> 0 then p\<lparr>rx_flags := set_flag (rx_flags p) HTC_RX_PKT_IGNORE_LOOKAHEAD\<rparr> else p);
            p2 = p1\<lparr>rx_flags := set_flag (rx_flags p1) HTC_RX_PKT_PART_OF_BUNDLE\<rparr>;
            (xs, q') = rx_bundle_loop t part n (rem_space - int pad_len) q
        in (p2 # xs, q'))"

definition fill_pkts :: "'d htc_target \<Rightarrow> htc_packet list \<Rightarrow> (nat \<Rightarrow> u8 list) \<Rightarrow> htc_packet list" where
  "fill_pkts t ps f =
     map (\<lambda>(i, p). p\<lparr>pkt_mem := write_bytes (pkt_mem p) (buf p) (take (CALC_TXRX_PADDED_LEN t (act_len p)) (f i))\<rparr>)
       (enumerate 0 ps)"

text \<open>Status, packets of the bundle, rest of the queue, number fetched.\<close>

definition ath6kl_htc_rx_bundle ::
    "'d htc_env \<Rightarrow> 'd htc_target \<Rightarrow> htc_packet list \<Rightarrow> bool \<Rightarrow>
     int \<times> htc_packet list \<times> htc_packet list \<times> nat \<times> 'd htc_target" where
  "ath6kl_htc_rx_bundle env t rxq part_bundle =
     (let n_scat = nat (min (int (length rxq)) (msg_per_bndl_max t));
          part = (part_bundle \<or> length rxq > n_scat)
      in case hif_scatter_req_get env (dev t) of
           (None, d) \<Rightarrow> (0, [], rxq, 0, t\<lparr>dev := d\<rparr>)
         | (Some _, d) \<Rightarrow>
             (case rx_bundle_loop t part n_scat (max_rx_bndl_sz t) rxq of (xs, rest) \<Rightarrow>
               (case hif_scat_read env d (map (\<lambda>p. (p, CALC_TXRX_PADDED_LEN t (act_len p))) xs) of (st, f, d1) \<Rightarrow>
                 (st, fill_pkts t xs f, rest, if st = 0 then length xs else 0,
                  t\<lparr>dev := hif_scatter_req_add env d1\<rparr>))))"

lemma rx_bundle_loop_length:
  "rx_bundle_loop t part n r q = (xs, q') \<Longrightarrow> length xs + length q' = length q"
  by (induction t part n r q arbitrary: xs q' rule: rx_bundle_loop.induct)
    (auto simp: Let_def split: prod.splits if_splits)

lemma length_fill_pkts [simp]: "length (fill_pkts t ps f) = length ps"
  by (simp add: fill_pkts_def)

lemma rx_bundle_length:
  assumes "ath6kl_htc_rx_bundle env t q part = (st, xs, q', n, t')"
  shows "length xs + length q' = length q \<and> (0 < n \<longrightarrow> n = length xs)"
  using assms by (auto simp: ath6kl_htc_rx_bundle_def Let_def dest!: rx_bundle_loop_length
      split: prod.splits option.splits if_splits)

definition reclaim_all :: "'d htc_target \<Rightarrow> htc_packet list \<Rightarrow> 'd htc_target" where
  "reclaim_all t ps = foldl (\<lambda>t p. htc_reclaim_rxbuf t p (endpoint_pkt p)) t ps"

text \<open>
  The fetch of one packet by itself, then the loop of \<open>ath6kl_htc_rx_fetch\<close>; \<open>cq\<close> is the
  completion queue built so far.  On failure the packets not yet fetched are reclaimed, those of
  the failing transfer last.
\<close>

definition rx_single ::
    "'d htc_env \<Rightarrow> 'd htc_target \<Rightarrow> htc_packet \<Rightarrow> htc_packet list \<Rightarrow> int \<times> htc_packet \<times> 'd htc_target" where
  "rx_single env t p ps =
     (let p1 = p\<lparr>completion := False\<rparr>;
          p2 = (if ps \<noteq> [] then p1\<lparr>rx_flags := set_flag (rx_flags p1) HTC_RX_PKT_IGNORE_LOOKAHEAD\<rparr> else p1)
      in ath6kl_htc_rx_packet env t p2 (act_len p2))"

function rx_fetch_loop ::
    "'d htc_env \<Rightarrow> 'd htc_target \<Rightarrow> bool \<Rightarrow> htc_packet list \<Rightarrow> htc_packet list \<Rightarrow>
     int \<times> htc_packet list \<times> 'd htc_target" where
  "rx_fetch_loop env t part [] cq = (0, cq, t)"
| "rx_fetch_loop env t part (p # ps) cq =
     (let bundle = rx_bndl_enable t \<and> length (p # ps) > 1 in
      case (if bundle then ath6kl_htc_rx_bundle env t (p # ps) part else (0, [], p # ps, 0, t)) of
        (st, xs, q1, fetched, t1) \<Rightarrow>
          if bundle \<and> st \<noteq> 0 then (st, cq, reclaim_all (reclaim_all t1 q1) xs)
          else
            let part1 = (part \<or> bundle \<and> q1 \<noteq> []); cq1 = cq @ xs in
            if fetched \<noteq> 0 then rx_fetch_loop env t1 part1 q1 cq1
            else
              (case rx_single env t1 p ps of (st2, p2, t2) \<Rightarrow>
                if st2 \<noteq> 0 then (st2, cq1, reclaim_all (reclaim_all t2 ps) [p2])
                else rx_fetch_loop env t2 part1 ps (cq1 @ [p2])))"
  by pat_completeness auto
termination
  by (relation "measure (\<lambda>(env, t, part, q, cq). length q)")
    (auto simp: neq_Nil_conv split: if_splits dest!: rx_bundle_length [OF sym])

declare rx_fetch_loop.simps(2) [simp del]

definition ath6kl_htc_rx_fetch ::
    "'d htc_env \<Rightarrow> 'd htc_target \<Rightarrow> htc_packet list \<Rightarrow> htc_packet list \<Rightarrow> int \<times> htc_packet list \<times> 'd htc_target" where
  "ath6kl_htc_rx_fetch env t rxq cq = rx_fetch_loop env t False rxq cq"

section \<open>The message-pending handler\<close>

text \<open>
  \<open>ath6kl_htc_rxmsg_pending_handler\<close> loops as long as the packets it fetches announce more, so
  it is a partial function: not returning is \<open>None\<close>.  \<open>comp_pktq\<close> lives on the stack and is
  initialised after the endpoint check of each turn, but walked in the clean-up; \<open>None\<close> in the
  loop's argument is the list before its first initialisation, and the outcome
  \<open>UninitList\<close> a walk over it.
\<close>

datatype 'd rx_outcome = UninitList "'d htc_target" | RxReturn int nat "'d htc_target"

definition rx_pending_exit ::
    "'d htc_target \<Rightarrow> int \<Rightarrow> nat \<Rightarrow> htc_packet list option \<Rightarrow> 'd rx_outcome" where
  "rx_pending_exit t st n_fetched cq =
     (case (st \<noteq> 0, cq) of
        (True, None) \<Rightarrow> UninitList t
      | _ \<Rightarrow>
          let t1 = (if st \<noteq> 0 then
                      let t' = reclaim_all t (case cq of None \<Rightarrow> [] | Some q \<Rightarrow> q)
                      in if has_flag (htc_flags t') HTC_OP_STATE_STOPPING then emit t' (RxControl False) else t'
                    else t);
              t2 = (if has_flag (rx_st_flags t1) HTC_RECV_WAIT_BUFFERS then emit t1 (RxControl False) else t1)
          in RxReturn st n_fetched t2)"

text \<open>One turn: either the loop is left (\<open>Inl\<close> the outcome) or the next lookaheads (\<open>Inr\<close>).\<close>

definition rx_pending_turn ::
    "'d htc_env \<Rightarrow> 'd htc_target \<Rightarrow> lkahd list \<Rightarrow> nat \<Rightarrow> htc_packet list option \<Rightarrow>
     'd rx_outcome + 'd htc_target \<times> lkahd list \<times> nat \<times> htc_packet list option" where
  "rx_pending_turn env t lks n_fetched cq =
     (let e = lk_eid (hd lks) in
      if e \<ge> ENDPOINT_MAX then Inl (rx_pending_exit t (- ENOMEM) n_fetched cq)
      else
        (case ath6kl_htc_rx_alloc env t e lks of (st, rxq, t1) \<Rightarrow>
          if st \<noteq> 0 then Inl (rx_pending_exit t1 st n_fetched (Some []))
          else
            let t2 = (if length rxq \<ge> 2 then t1\<lparr>chk_irq_status_cnt := 1\<rparr> else t1);
                n = n_fetched + length rxq
            in (case ath6kl_htc_rx_fetch env t2 rxq [] of (st3, cq3, t3) \<Rightarrow>
                 let t4 = (if st3 = 0 then ath6kl_htc_rx_chk_water_mark env t3 e else t3) in
                 (case ath6kl_htc_rx_process_packets env t4 cq3 [] of (st5, cq5, lks5, t5) \<Rightarrow>
                   if lks5 = [] \<or> st5 \<noteq> 0 then Inl (rx_pending_exit t5 st5 n (Some cq5))
                   else Inr (t5\<lparr>chk_irq_status_cnt := 1\<rparr>, lks5, n, Some cq5)))))"

partial_function (option) rx_pending_loop ::
    "'d htc_env \<Rightarrow> 'd htc_target \<Rightarrow> lkahd list \<Rightarrow> nat \<Rightarrow> htc_packet list option \<Rightarrow> 'd rx_outcome option" where
  [code]: "rx_pending_loop env t lks n_fetched cq =
     (case rx_pending_turn env t lks n_fetched cq of
        Inl r \<Rightarrow> Some r
      | Inr (t1, lks1, n1, cq1) \<Rightarrow> rx_pending_loop env t1 lks1 n1 cq1)"

definition ath6kl_htc_rxmsg_pending_handler :: "'d htc_env \<Rightarrow> 'd htc_target \<Rightarrow> lkahd \<Rightarrow> 'd rx_outcome option" where
  "ath6kl_htc_rxmsg_pending_handler env t lk = rx_pending_loop env t [lk] 0 None"

section \<open>Control messages and flushing\<close>

definition htc_wait_for_ctrl_msg :: "'d htc_env \<Rightarrow> 'd htc_target \<Rightarrow> htc_packet option \<times> 'd htc_target" where
  "htc_wait_for_ctrl_msg env t =
     (case hif_poll_mboxmsg_rx env (dev t) of
        (None, d) \<Rightarrow> (None, t\<lparr>dev := d\<rparr>)
      | (Some lk, d) \<Rightarrow>
          let t0 = t\<lparr>dev := d\<rparr> in
          if lk_eid lk \<noteq> 0 then (None, t0)
          else (case htc_get_control_buf t0 False of
                  (None, t1) \<Rightarrow> (None, t1)
                | (Some p, t1) \<Rightarrow>
                    let p1 = p\<lparr>rx_flags := 0, exp_hdr := lk, act_len := lk_payld_len lk + HTC_HDR_LENGTH\<rparr> in
                    if act_len p1 > buf_len p1 then (None, reclaim_rx_ctrl_buf t1 (htc_rxpkt_reset p1))
                    else
                      (case ath6kl_htc_rx_packet env t1 (p1\<lparr>completion := False\<rparr>) (act_len p1) of (st, p2, t2) \<Rightarrow>
                        if st \<noteq> 0 then (None, reclaim_rx_ctrl_buf t2 (htc_rxpkt_reset p2))
                        else
                          (case ath6kl_htc_rx_process_hdr env t2 p2 False of (st3, p3, lks, t3) \<Rightarrow>
                            let p4 = p3\<lparr>status := st3\<rparr> in
                            if st3 \<noteq> 0 then (None, reclaim_rx_ctrl_buf t3 (htc_rxpkt_reset p4))
                            else (Some p4, t3)))))"

definition ath6kl_htc_mbox_flush_rx_buf :: "'d htc_target \<Rightarrow> 'd htc_target" where
  "ath6kl_htc_mbox_flush_rx_buf t =
     foldl (\<lambda>t e. if svc_id (endpoint t e) = 0 then t
                  else (upd_ep t e (\<lambda>ep. ep\<lparr>rx_bufq := []\<rparr>))
                         \<lparr>events := events t @ map BufFree (rx_bufq (endpoint t e))\<rparr>)
       t [0..<ENDPOINT_MAX]"

section \<open>Credit reports\<close>

text \<open>The credits a report gives to endpoints of the distribution list.\<close>

definition rpt_sum :: "nat list \<Rightarrow> (u8 \<times> u8) list \<Rightarrow> int" where
  "rpt_sum es rs = (\<Sum>r\<leftarrow>rs. if unat (fst r) \<in> set es then int (unat (snd r)) else 0)"

lemma rpt_sum_simps [simp]: "rpt_sum es [] = 0"
  "rpt_sum es (r # rs) = (if unat (fst r) \<in> set es then int (unat (snd r)) else 0) + rpt_sum es rs"
  by (simp_all add: rpt_sum_def)

lemma upd_cd_outside:
  assumes "e \<notin> set (cred_dist_list t)"
  shows "ledger_t (upd_cd t e f) = ledger_t t" "credit_ok_t (upd_cd t e f) = credit_ok_t t"
proof -
  have "(\<Sum>x\<leftarrow>cred_dist_list t. cr_of (((cred_dist t)(e := f (cred_dist t e))) x))
      = (\<Sum>x\<leftarrow>cred_dist_list t. cr_of (cred_dist t x))"
    using assms by (intro sum_list_map_cong_set) auto
  then show "ledger_t (upd_cd t e f) = ledger_t t" by (simp add: ledger_t_def credit_ledger_def)
  show "credit_ok_t (upd_cd t e f) = credit_ok_t t"
    using assms by (auto simp: credit_ok_t_def credit_ok_def)
qed

lemma cred_rpt_one_frame:
  "tx_cfg (cred_rpt_one t fe e c) = tx_cfg t" "events (cred_rpt_one t fe e c) = events t"
  "ep_core (endpoint (cred_rpt_one t fe e c) x) = ep_core (endpoint t x)"
  by (simp_all add: cred_rpt_one_def Let_def)

lemma cred_rpt_one_credit:
  assumes "credit_ok_t t"
  shows "credit_ok_t (cred_rpt_one t fe e c)"
    "ledger_t (cred_rpt_one t fe e c) = ledger_t t + (if e \<in> set (cred_dist_list t) then int c else 0)"
proof -
  define t1 where "t1 = upd_st t e (cred_rpt_stats fe e (of_nat c))"
  define g where "g = (\<lambda>d :: htc_endpoint_credit_dist. (if e = 0 then d\<lparr>credits := credits d + int c\<rparr>
                           else d\<lparr>cred_to_dist := cred_to_dist d + int c\<rparr>)
                          \<lparr>txq_depth := int (length (txq (endpoint t1 e)))\<rparr>)"
  have one: "cred_rpt_one t fe e c = upd_cd t1 e g" by (simp add: cred_rpt_one_def Let_def t1_def g_def)
  have c1: "credit_ok_t t1" "ledger_t t1 = ledger_t t" "cred_dist_list t1 = cred_dist_list t"
    using assms by (simp_all add: t1_def)
  have "credit_ok_t (upd_cd t1 e g) \<and> ledger_t (upd_cd t1 e g)
      = ledger_t t + (if e \<in> set (cred_dist_list t) then int c else 0)"
  proof (cases "e \<in> set (cred_dist_list t)")
    case True
    then have e1: "e \<in> set (cred_dist_list t1)" by (simp add: c1)
    have "dist_ok (g (cred_dist t1 e))" using dist_ok_t [OF c1(1) e1] by (cases "e = 0") (simp_all add: g_def dist_ok_def)
    moreover have "cr_of (g (cred_dist t1 e)) = cr_of (cred_dist t1 e) + int c" by (simp add: g_def cr_of_def)
    ultimately show ?thesis using upd_cd_credit [OF c1(1) e1, of g] c1(2) True by simp
  next
    case False
    then show ?thesis using upd_cd_outside [of e t1 g] c1 by simp
  qed
  then show "credit_ok_t (cred_rpt_one t fe e c)"
    "ledger_t (cred_rpt_one t fe e c) = ledger_t t + (if e \<in> set (cred_dist_list t) then int c else 0)"
    by (simp_all only: one)
qed

lemma cred_rpt_loop_credit:
  assumes "credit_ok_t t" "\<forall>r\<in>set rs. unat (fst r) < ENDPOINT_MAX" "cred_rpt_loop t fe rs = (ok, dist, tot, t')"
  shows "ok \<and> credit_ok_t t' \<and> ledger_t t' = ledger_t t + rpt_sum (cred_dist_list t) rs
    \<and> tot = (\<Sum>r\<leftarrow>rs. int (unat (snd r))) \<and> (dist \<longleftrightarrow> (\<exists>r\<in>set rs. fst r \<noteq> 0))"
  using assms
proof (induction t fe rs arbitrary: ok dist tot t' rule: cred_rpt_loop.induct)
  case (1 t fe)
  then show ?case by simp
next
  case (2 t fe rid rcr rs)
  let ?t1 = "cred_rpt_one t fe (unat rid) (unat rcr)"
  obtain ok' dist' tot' t3 where l: "cred_rpt_loop ?t1 fe rs = (ok', dist', tot', t3)" by (metis prod_cases4)
  have e: "\<not> unat rid \<ge> ENDPOINT_MAX" using 2(3) by simp
  note one = cred_rpt_one_credit [OF 2(2), of fe "unat rid" "unat rcr"]
  have cl: "cred_dist_list ?t1 = cred_dist_list t" using tx_cfg_eqD(1) [OF cred_rpt_one_frame(1)] .
  have "ok' \<and> credit_ok_t t3 \<and> ledger_t t3 = ledger_t ?t1 + rpt_sum (cred_dist_list t) rs
    \<and> tot' = (\<Sum>r\<leftarrow>rs. int (unat (snd r))) \<and> (dist' \<longleftrightarrow> (\<exists>r\<in>set rs. fst r \<noteq> 0))"
    using 2(1) [OF e one(1) _ l] 2(3) cl by simp
  then show ?case using 2(4) e l one(2) by (auto simp: unat_eq_0)
qed

lemma chk_walk_charged:
  "credit_ok_t t \<Longrightarrow> set es \<subseteq> set (cred_dist_list t) \<Longrightarrow> charged t (chk_ep_txq_walk env t es)"
proof (induction es arbitrary: t)
  case Nil
  then show ?case by (simp add: charged_silent)
next
  case (Cons e es)
  define t1 where "t1 = (if txq (endpoint t e) \<noteq> [] then ath6kl_htc_tx_from_queue env t e else t)"
  have c: "charged t t1" using from_queue_charged [OF Cons(2), of e env] Cons(2,3) by (simp add: t1_def charged_silent)
  then have ok: "credit_ok_t t1" and cfg: "tx_cfg t1 = tx_cfg t" by (simp_all add: charged_def)
  have "charged t1 (chk_ep_txq_walk env t1 es)"
    using ok Cons(3) tx_cfg_eqD(1) [OF cfg] by (intro Cons(1)) simp_all
  then show ?case using charged_trans [OF c] by (simp add: t1_def)
qed

text \<open>What a transmit step leaves alone on the receive side.\<close>

definition rx_frame :: "'d htc_target \<Rightarrow> 'd htc_target \<Rightarrow> bool" where
  "rx_frame t t' \<longleftrightarrow> tx_cfg t' = tx_cfg t \<and> (\<forall>x. ep_rx (endpoint t' x) = ep_rx (endpoint t x))
     \<and> (\<exists>evs. events t' = events t @ evs \<and> list_all is_tx_ev evs)"

lemma rx_frame_silent:
  "tx_cfg t' = tx_cfg t \<Longrightarrow> (\<And>x. ep_rx (endpoint t' x) = ep_rx (endpoint t x)) \<Longrightarrow> events t' = events t \<Longrightarrow> rx_frame t t'"
  unfolding rx_frame_def by (intro conjI exI [of _ "[]"]) simp_all

lemma rx_frame_refl [simp]: "rx_frame t t"
  by (rule rx_frame_silent) simp_all

lemma rx_frame_trans:
  assumes "rx_frame t t1" "rx_frame t1 t2"
  shows "rx_frame t t2"
proof -
  obtain e1 e2 where "events t1 = events t @ e1" "list_all is_tx_ev e1" "events t2 = events t1 @ e2" "list_all is_tx_ev e2"
    using assms unfolding rx_frame_def by blast
  then have "events t2 = events t @ (e1 @ e2) \<and> list_all is_tx_ev (e1 @ e2)" by simp
  then show ?thesis using assms unfolding rx_frame_def by metis
qed

lemma from_queue_rx_frame: "rx_frame t (ath6kl_htc_tx_from_queue env t e)"
  unfolding rx_frame_def using from_queue_accounts(1,3,4) by blast

lemma chk_walk_rx_frame: "rx_frame t (chk_ep_txq_walk env t es)"
proof (induction es arbitrary: t)
  case Nil
  show ?case by simp
next
  case (Cons e es)
  have "rx_frame t (if txq (endpoint t e) \<noteq> [] then ath6kl_htc_tx_from_queue env t e else t)"
    by (simp add: from_queue_rx_frame)
  from rx_frame_trans [OF this Cons] show ?case by simp
qed

lemma cred_rpt_loop_rx_frame:
  "cred_rpt_loop t fe rs = (ok, dist, tot, t') \<Longrightarrow> rx_frame t t'"
proof (induction t fe rs arbitrary: ok dist tot t' rule: cred_rpt_loop.induct)
  case (1 t fe)
  then show ?case by simp
next
  case (2 t fe rid rcr rs)
  let ?t1 = "cred_rpt_one t fe (unat rid) (unat rcr)"
  obtain ok1 d1 n1 t1 where l: "cred_rpt_loop ?t1 fe rs = (ok1, d1, n1, t1)" by (metis prod_cases4)
  have "rx_frame t ?t1" by (rule rx_frame_silent) (simp_all only: cred_rpt_one_frame ep_core_rx [OF cred_rpt_one_frame(3)])
  note one = this
  show ?case
  proof (cases "unat rid \<ge> ENDPOINT_MAX")
    case True
    then show ?thesis using 2(2) by simp
  next
    case False
    then have "t' = t1" using 2(2) l by simp
    then show ?thesis using rx_frame_trans [OF one 2(1) [OF False l]] by simp
  qed
qed

lemma proc_cred_rpt_rx_frame: "rx_frame t (htc_proc_cred_rpt env t rs fe)"
proof -
  obtain ok dist tot t1 where l: "cred_rpt_loop t fe rs = (ok, dist, tot, t1)" by (metis prod_cases4)
  let ?t2 = "if dist then distribute_t t1 HTC_CREDIT_DIST_SEND_COMPLETE else t1"
  note f1 = cred_rpt_loop_rx_frame [OF l]
  have "rx_frame t1 ?t2" by (intro rx_frame_silent) simp_all
  moreover have "rx_frame ?t2 (htc_chk_ep_txq env ?t2)" unfolding htc_chk_ep_txq_def by (rule chk_walk_rx_frame)
  ultimately have "rx_frame t ?t2" "rx_frame t (htc_chk_ep_txq env ?t2)"
    using rx_frame_trans [OF f1] rx_frame_trans [OF rx_frame_trans [OF f1]] by simp_all
  then show ?thesis using f1 by (simp add: htc_proc_cred_rpt_def l Let_def)
qed

lemma cred_rpt_loop_events:
  "cred_rpt_loop t fe rs = (ok, dist, tot, t') \<Longrightarrow> events t' = events t"
proof (induction t fe rs arbitrary: ok dist tot t' rule: cred_rpt_loop.induct)
  case (1 t fe)
  then show ?case by simp
next
  case (2 t fe rid rcr rs)
  obtain ok1 d1 n1 t1 where l: "cred_rpt_loop (cred_rpt_one t fe (unat rid) (unat rcr)) fe rs = (ok1, d1, n1, t1)"
    by (metis prod_cases4)
  show ?case
  proof (cases "unat rid \<ge> ENDPOINT_MAX")
    case True
    then show ?thesis using 2(2) by simp
  next
    case False
    then have "t' = t1" using 2(2) l by simp
    then show ?thesis using 2(1) [OF False l] by (simp add: cred_rpt_one_frame)
  qed
qed

lemma proc_cred_rpt_charged:
  assumes "credit_ok_t t" "\<forall>r\<in>set rs. unat (fst r) < ENDPOINT_MAX" and t': "t' = htc_proc_cred_rpt env t rs fe"
  shows "credit_ok_t t' \<and> (\<exists>evs. events t' = events t @ evs
    \<and> ledger_t t' = ledger_t t + rpt_sum (cred_dist_list t) rs - spent (sent_pkts evs))"
proof -
  obtain ok dist tot t1 where l: "cred_rpt_loop t fe rs = (ok, dist, tot, t1)" by (metis prod_cases4)
  define t2 where "t2 = (if dist then distribute_t t1 HTC_CREDIT_DIST_SEND_COMPLETE else t1)"
  note c = cred_rpt_loop_credit [OF assms(1,2) l]
  note f = cred_rpt_loop_events [OF l]
  have c2: "credit_ok_t t2 \<and> ledger_t t2 = ledger_t t + rpt_sum (cred_dist_list t) rs \<and> events t2 = events t"
    using c f by (simp add: t2_def distribute_t_credit)
  have t'2: "t' = (if tot \<noteq> 0 then htc_chk_ep_txq env t2 else t2)"
    using t' c by (simp add: htc_proc_cred_rpt_def l Let_def t2_def)
  have "charged t2 t'"
  proof (cases "tot = 0")
    case True
    then have "t' = t2" using t'2 by simp
    then show ?thesis using c2 by (intro charged_silent) simp_all
  next
    case False
    have "charged t2 (chk_ep_txq_walk env t2 (cred_dist_list t2))" using c2 by (intro chk_walk_charged) simp_all
    then show ?thesis using False t'2 by (simp add: htc_chk_ep_txq_def)
  qed
  then show ?thesis using c2 by (auto simp: charged_def)
qed

section \<open>No receive buffer is lost\<close>

text \<open>
  Where a receive packet can be between calls: on the buffer list of an endpoint, on the list of
  free control buffers, or handed up.  \<open>rx_pool\<close> is the multiset of the identities of all of
  them; \<open>rx_homed\<close> says that a buffer sits on the list of its own endpoint.
\<close>

fun ev_up :: "htc_event \<Rightarrow> htc_packet list" where
  "ev_up (RxDeliver e p) = [p]"
| "ev_up _ = []"

definition up_pkts :: "htc_event list \<Rightarrow> htc_packet list" where
  "up_pkts evs = concat (map ev_up evs)"

definition pids :: "htc_packet list \<Rightarrow> nat multiset" where
  "pids ps = image_mset pkt_id (mset ps)"

definition rx_pool :: "'d htc_target \<Rightarrow> nat multiset" where
  "rx_pool t = (\<Sum>e<ENDPOINT_MAX. pids (rx_bufq (endpoint t e))) + pids (free_ctrl_rxbuf t) + pids (up_pkts (events t))"

definition rx_homed :: "'d htc_target \<Rightarrow> bool" where
  "rx_homed t \<longleftrightarrow> (\<forall>e<ENDPOINT_MAX. \<forall>p\<in>set (rx_bufq (endpoint t e)). endpoint_pkt p = e)"

definition homed_list :: "htc_packet list \<Rightarrow> bool" where
  "homed_list ps \<longleftrightarrow> (\<forall>p\<in>set ps. endpoint_pkt p < ENDPOINT_MAX)"

definition ep_conf :: "htc_endpoint \<Rightarrow> htc_ep_callbacks \<times> nat \<times> nat" where
  "ep_conf ep = (ep_cb ep, svc_id ep, eid ep)"

definition rx_moves :: "'d htc_target \<Rightarrow> htc_packet list \<Rightarrow> 'd htc_target \<Rightarrow> htc_packet list \<Rightarrow> bool" where
  "rx_moves t a t' b \<longleftrightarrow> rx_homed t' \<and> rx_pool t' + pids b = rx_pool t + pids a
     \<and> (\<forall>x. ep_conf (endpoint t' x) = ep_conf (endpoint t x))"

lemma pids_simps [simp]:
  "pids [] = {#}" "pids (p # ps) = {#pkt_id p#} + pids ps" "pids (ps @ qs) = pids ps + pids qs"
  by (simp_all add: pids_def)

lemma up_pkts_simps [simp]:
  "up_pkts [] = []" "up_pkts (e # es) = ev_up e @ up_pkts es" "up_pkts (as @ bs) = up_pkts as @ up_pkts bs"
  by (simp_all add: up_pkts_def)

lemma up_pkts_tx: "list_all is_tx_ev evs \<Longrightarrow> up_pkts evs = []"
proof (induction evs)
  case (Cons ev evs)
  then show ?case by (cases ev) simp_all
qed simp

lemma rx_moves_refl: "rx_homed t \<Longrightarrow> rx_moves t a t a"
  by (simp add: rx_moves_def)

lemma rx_moves_trans: "rx_moves t a t1 b \<Longrightarrow> rx_moves t1 b t2 c \<Longrightarrow> rx_moves t a t2 c"
  by (simp add: rx_moves_def)

lemma rx_moves_more: "rx_moves t a t' b \<Longrightarrow> rx_moves t (c @ a) t' (c @ b)"
  by (simp add: rx_moves_def ac_simps)

lemma rx_moves_pids:
  "rx_moves t a t' b \<Longrightarrow> pids a' = pids a \<Longrightarrow> pids b' = pids b \<Longrightarrow> rx_moves t a' t' b'"
  by (simp add: rx_moves_def)

lemma ep_rx_eqD:
  assumes "ep_rx a = ep_rx b"
  shows "rx_bufq a = rx_bufq b" "ep_conf a = ep_conf b"
  using assms by (simp_all add: ep_rx_def ep_conf_def)

lemma rx_moves_frame:
  assumes "rx_frame t t'" "rx_homed t"
  shows "rx_moves t a t' a"
proof -
  have x: "ep_rx (endpoint t' x) = ep_rx (endpoint t x)" for x using assms(1) by (simp add: rx_frame_def)
  note r = ep_rx_eqD [OF x]
  have f: "free_ctrl_rxbuf t' = free_ctrl_rxbuf t" using assms(1) tx_cfg_eqD(8) unfolding rx_frame_def by blast
  have "up_pkts (events t') = up_pkts (events t)" using assms(1) up_pkts_tx by (auto simp: rx_frame_def)
  then show ?thesis using assms(2) r f by (simp add: rx_moves_def rx_pool_def rx_homed_def)
qed

text \<open>Changing one buffer list, the free control buffers or the log.\<close>

lemma pool_bufq:
  assumes "e < ENDPOINT_MAX" "\<And>x. pids (rx_bufq (endpoint t' x)) = pids (rx_bufq (endpoint t x)) + (if x = e then m else {#})"
  shows "(\<Sum>x<ENDPOINT_MAX. pids (rx_bufq (endpoint t' x))) = (\<Sum>x<ENDPOINT_MAX. pids (rx_bufq (endpoint t x))) + m"
proof -
  have "(\<Sum>x<ENDPOINT_MAX. pids (rx_bufq (endpoint t' x)))
      = (\<Sum>x<ENDPOINT_MAX. pids (rx_bufq (endpoint t x))) + (\<Sum>x<ENDPOINT_MAX. if x = e then m else {#})"
    unfolding assms(2) by (rule sum.distrib)
  also have "(\<Sum>x<ENDPOINT_MAX. if x = e then m else {#}) = m"
    using assms(1) by (subst sum.delta) auto
  finally show ?thesis .
qed

lemma cancel_moves:
  assumes "rx_homed t" "e = endpoint_pkt p" "e < ENDPOINT_MAX"
  shows "rx_moves t [p] (rx_cancel t e p) []"
proof (cases "e = 0")
  case True
  then show ?thesis using assms by (simp add: rx_moves_def rx_cancel_def Let_def reclaim_rx_ctrl_buf_def rx_pool_def rx_homed_def)
next
  case False
  then show ?thesis using assms by (simp add: rx_moves_def rx_cancel_def Let_def rx_pool_def rx_homed_def)
qed

lemma add_rxbuf_moves:
  assumes "rx_homed t" "endpoint_pkt p < ENDPOINT_MAX"
  shows "rx_moves t [p] (snd (htc_add_rxbuf t p)) []"
proof (cases "has_flag (htc_flags t) HTC_OP_STATE_STOPPING")
  case True
  then show ?thesis using assms cancel_moves [OF assms(1) refl assms(2)]
    by (simp add: htc_add_rxbuf_def ath6kl_htc_mbox_add_rxbuf_multiple_def Let_def)
next
  case False
  define e where "e = endpoint_pkt p"
  define t1 where "t1 = upd_ep t e (\<lambda>ep. ep\<lparr>rx_bufq := rx_bufq ep @ [p]\<rparr>)"
  let ?t' = "snd (htc_add_rxbuf t p)"
  have t': "endpoint ?t' = endpoint t1 \<and> free_ctrl_rxbuf ?t' = free_ctrl_rxbuf t1 \<and> up_pkts (events ?t') = up_pkts (events t1)"
    using False assms(2)
    by (simp add: htc_add_rxbuf_def ath6kl_htc_mbox_add_rxbuf_multiple_def Let_def e_def [symmetric] t1_def [symmetric])
  have "rx_homed t1" using assms by (auto simp: rx_homed_def t1_def e_def)
  moreover have "pids (rx_bufq (endpoint t1 x)) = pids (rx_bufq (endpoint t x)) + (if x = e then pids [p] else {#})" for x
    by (simp add: t1_def)
  then have "rx_pool t1 = rx_pool t + pids [p]"
    using pool_bufq [of e t1 t "pids [p]"] assms(2) unfolding rx_pool_def by (simp add: e_def) (simp add: t1_def)
  moreover have "ep_conf (endpoint t1 x) = ep_conf (endpoint t x)" for x by (simp add: t1_def ep_conf_def)
  ultimately show ?thesis using t' by (simp add: rx_moves_def rx_homed_def rx_pool_def)
qed

lemma rxpkt_reset_simps [simp]: "endpoint_pkt (htc_rxpkt_reset p) = endpoint_pkt p" "pkt_id (htc_rxpkt_reset p) = pkt_id p"
  by (simp_all add: htc_rxpkt_reset_def)

lemma reclaim_moves:
  assumes "rx_homed t" "endpoint_pkt p < ENDPOINT_MAX"
  shows "rx_moves t [p] (htc_reclaim_rxbuf t p (endpoint_pkt p)) []"
proof (cases "has_flag (rx_flags p) HTC_RX_PKT_NO_RECYCLE")
  case True
  have "rx_moves t [htc_rxpkt_reset p] (rx_cancel t (endpoint_pkt p) (htc_rxpkt_reset p)) []"
    using assms by (intro cancel_moves) simp_all
  then show ?thesis using True by (simp add: htc_reclaim_rxbuf_def rx_moves_def)
next
  case False
  have "rx_moves t [htc_rxpkt_reset p] (snd (htc_add_rxbuf t (htc_rxpkt_reset p))) []"
    using assms by (intro add_rxbuf_moves) simp_all
  then show ?thesis using False by (simp add: htc_reclaim_rxbuf_def rx_moves_def)
qed

lemma reclaim_all_moves:
  assumes "rx_homed t" "homed_list ps"
  shows "rx_moves t (ps @ a) (reclaim_all t ps) a"
  using assms
proof (induction ps arbitrary: t)
  case Nil
  then show ?case by (simp add: reclaim_all_def rx_moves_refl)
next
  case (Cons p ps)
  let ?t1 = "htc_reclaim_rxbuf t p (endpoint_pkt p)"
  have m: "rx_moves t [p] ?t1 []" using Cons(2,3) by (intro reclaim_moves) (simp_all add: homed_list_def)
  then have "rx_moves ?t1 (ps @ a) (reclaim_all ?t1 ps) a"
    using Cons(3) by (intro Cons(1)) (simp_all add: rx_moves_def homed_list_def)
  then show ?case using m by (simp add: rx_moves_def reclaim_all_def ac_simps)
qed

lemma complete_moves:
  assumes "rx_homed t" "e = endpoint_pkt p" "e < ENDPOINT_MAX"
  shows "rx_moves t [p] (ath6kl_htc_rx_complete t e p) []"
proof (cases "e = 0")
  case False
  then show ?thesis using assms by (simp add: ath6kl_htc_rx_complete_def rx_moves_def rx_pool_def rx_homed_def)
next
  case True
  show ?thesis
  proof (cases "status p = - ECANCELED")
    case True
    then show ?thesis using assms \<open>e = 0\<close>
      by (simp add: ath6kl_htc_rx_complete_def htc_ctrl_rx_def rx_moves_def reclaim_rx_ctrl_buf_def rx_pool_def rx_homed_def)
  next
    case False
    then show ?thesis using assms \<open>e = 0\<close> reclaim_moves [OF assms(1), of p]
      by (simp add: ath6kl_htc_rx_complete_def htc_ctrl_rx_def)
  qed
qed

lemma parse_trailer_rx_frame:
  "htc_parse_trailer env t rid rec use lks e = (st, lks', t') \<Longrightarrow> rx_frame t t'"
  by (auto simp: htc_parse_trailer_def proc_cred_rpt_rx_frame split: if_splits)

lemma proc_trailer_rx_frame:
  "htc_proc_trailer env t bs use lks e = (st, lks', t') \<Longrightarrow> rx_frame t t'"
proof (induction env t bs use lks e arbitrary: st lks' t' rule: htc_proc_trailer.induct)
  case (3 env t rid rlen bs use lks e)
  obtain st1 lks1 t1 where p: "htc_parse_trailer env t rid (take (unat rlen) bs) use lks e = (st1, lks1, t1)"
    by (metis prod_cases3)
  note f = parse_trailer_rx_frame [OF p]
  show ?case
  proof (cases "unat rlen > length bs")
    case True
    then show ?thesis using 3(2) by simp
  next
    case F: False
    show ?thesis
    proof (cases "st1 = 0")
      case False
      then show ?thesis using 3(2) F p f by simp
    next
      case True
      then have r: "htc_proc_trailer env t1 (drop (unat rlen) bs) use lks1 e = (st, lks', t')"
        using 3(2) F p by simp
      have "rx_frame t1 t'" using 3(1) [OF F p [symmetric] refl _ r] True by simp
      then show ?thesis using rx_frame_trans [OF f] by blast
    qed
  qed
qed simp_all

lemma process_hdr_frame:
  assumes "ath6kl_htc_rx_process_hdr env t p look = (st, p', lks, t')"
  shows "rx_frame t t'" "pkt_id p' = pkt_id p" "endpoint_pkt p' = endpoint_pkt p"
  using assms
  by (auto simp: ath6kl_htc_rx_process_hdr_def Let_def dest: proc_trailer_rx_frame split: if_splits prod.splits)

lemma stats_moves: "rx_homed t \<Longrightarrow> rx_moves t a (upd_st t e f) a"
  by (intro rx_moves_frame rx_frame_silent) (simp_all add: ep_core_rx [OF upd_st_simps(5)])

lemma process_packets_moves:
  assumes "ath6kl_htc_rx_process_packets env t ps lks = (st, left, lks', t')" "rx_homed t" "homed_list ps"
  shows "rx_moves t ps t' left \<and> homed_list left"
  using assms
proof (induction env t ps lks arbitrary: st left lks' t' rule: ath6kl_htc_rx_process_packets.induct)
  case (1 env t lks)
  then show ?case by (simp add: rx_moves_refl)
next
  case (2 env t p ps lks)
  define e where "e = endpoint_pkt p"
  have e: "e < ENDPOINT_MAX" using 2(4) by (simp add: homed_list_def e_def)
  obtain st1 p1 lks1 t1 where h: "ath6kl_htc_rx_process_hdr env t p True = (st1, p1, lks1, t1)" by (metis prod_cases4)
  note hf = process_hdr_frame [OF h]
  have m1: "rx_moves t (p # ps) t1 (p1 # ps)"
    using rx_moves_frame [OF hf(1) 2(3)] hf(2) by (simp add: rx_moves_def)
  show ?case
  proof (cases "st1 = 0")
    case False
    then show ?thesis using 2(2,4) h m1 hf(3) by (auto simp: homed_list_def Let_def)
  next
    case True
    define p2 where "p2 = (if ps = [] then (case lks1 of [] \<Rightarrow> p1 | lk # _ \<Rightarrow> ath6kl_htc_rx_set_indicate t1 lk e p1)
                    else p1\<lparr>indicat_flags := set_flag (indicat_flags p1) HTC_RX_FLAGS_INDICATE_MORE_PKTS\<rparr>)"
    define t2 where "t2 = ath6kl_htc_rx_update_stats t1 e (length lks1)"
    define t3 where "t3 = (if has_flag (rx_flags p2) HTC_RX_PKT_PART_OF_BUNDLE
                    then upd_st t2 e (\<lambda>s. s\<lparr>rx_bundl := rx_bundl s + 1\<rparr>) else t2)"
    let ?t4 = "ath6kl_htc_rx_complete t3 e p2"
    have r: "ath6kl_htc_rx_process_packets env ?t4 ps lks1 = (st, left, lks', t')"
      using 2(2) [unfolded ath6kl_htc_rx_process_packets.simps Let_def, folded e_def, unfolded h prod.case] True
      unfolding t3_def t2_def p2_def by simp
    have p2: "pkt_id p2 = pkt_id p" "endpoint_pkt p2 = e"
      using hf(2,3) by (simp_all add: p2_def e_def ath6kl_htc_rx_set_indicate_def split: list.split)
    have h1: "rx_homed t1" using m1 by (simp add: rx_moves_def)
    have m2: "rx_moves t1 [p] t2 [p]" unfolding t2_def ath6kl_htc_rx_update_stats_def by (rule stats_moves [OF h1])
    then have h2: "rx_homed t2" by (simp add: rx_moves_def)
    have m3: "rx_moves t2 [p] t3 [p]" unfolding t3_def using stats_moves [OF h2] rx_moves_refl [OF h2] by simp
    then have h3: "rx_homed t3" by (simp add: rx_moves_def)
    have m4: "rx_moves t3 [p2] ?t4 []" using complete_moves [OF h3 p2(2) [symmetric] e] .
    have "rx_moves ?t4 ps t' left \<and> homed_list left"
      using 2(1) [OF e_def h [symmetric] refl refl _ p2_def t2_def t3_def r] True m4 2(4)
      by (simp add: rx_moves_def homed_list_def)
    then show ?thesis using m1 m2 m3 m4 p2 hf(2) by (simp add: rx_moves_def)
  qed
qed

lemma rx_bundle_loop_ids:
  "rx_bundle_loop t part n r q = (xs, q') \<Longrightarrow> map pkt_id xs @ map pkt_id q' = map pkt_id q
    \<and> map endpoint_pkt xs @ map endpoint_pkt q' = map endpoint_pkt q"
  by (induction t part n r q arbitrary: xs q' rule: rx_bundle_loop.induct)
    (auto simp: Let_def split: prod.splits if_splits)

lemma fill_pkts_ids [simp]:
  "map pkt_id (fill_pkts t ps f) = map pkt_id ps" "map endpoint_pkt (fill_pkts t ps f) = map endpoint_pkt ps"
  "map rx_flags (fill_pkts t ps f) = map rx_flags ps" "map buf_len (fill_pkts t ps f) = map buf_len ps"
  by (simp_all add: fill_pkts_def list_eq_iff_nth_eq nth_enumerate_eq)

lemma rx_bundle_frame:
  assumes "ath6kl_htc_rx_bundle env t q part = (st, xs, q', n, t')"
  shows "map pkt_id xs @ map pkt_id q' = map pkt_id q \<and> map endpoint_pkt xs @ map endpoint_pkt q' = map endpoint_pkt q
    \<and> rx_frame t t' \<and> (n = 0 \<or> n = length xs) \<and> (st = 0 \<and> n = 0 \<longrightarrow> xs = []) \<and> (st \<noteq> 0 \<longrightarrow> n = 0)"
proof -
  define n_scat where "n_scat = nat (min (int (length q)) (msg_per_bndl_max t))"
  define part1 where "part1 = (part \<or> length q > n_scat)"
  obtain r d where g: "hif_scatter_req_get env (dev t) = (r, d)" by fastforce
  note eq = assms [unfolded ath6kl_htc_rx_bundle_def Let_def g, folded n_scat_def, folded part1_def]
  show ?thesis
  proof (cases r)
    case None
    then show ?thesis using eq by (auto intro: rx_frame_silent simp: tx_cfg_def)
  next
    case (Some k)
    obtain ys rest where l: "rx_bundle_loop t part1 n_scat (max_rx_bndl_sz t) q = (ys, rest)" by fastforce
    obtain st1 f d1 where sr: "hif_scat_read env d (map (\<lambda>p. (p, CALC_TXRX_PADDED_LEN t (act_len p))) ys) = (st1, f, d1)"
      by (metis prod_cases3)
    have "st = st1" "xs = fill_pkts t ys f" "q' = rest" "n = (if st1 = 0 then length ys else 0)"
      "t' = t\<lparr>dev := hif_scatter_req_add env d1\<rparr>"
      using eq by (auto simp: Some l sr)
    moreover have "rx_frame t (t\<lparr>dev := hif_scatter_req_add env d1\<rparr>)" by (intro rx_frame_silent) (simp_all add: tx_cfg_def)
    moreover have "fill_pkts t [] f = []" by (simp add: fill_pkts_def)
    ultimately show ?thesis using rx_bundle_loop_ids [OF l] by auto
  qed
qed

lemma ids_pids: "map pkt_id a = map pkt_id b \<Longrightarrow> pids a = pids b"
  by (simp add: pids_def flip: mset_map)

lemma homed_list_map: "map endpoint_pkt a = map endpoint_pkt b \<Longrightarrow> homed_list a = homed_list b"
proof -
  assume "map endpoint_pkt a = map endpoint_pkt b"
  then have "endpoint_pkt ` set a = endpoint_pkt ` set b" by (metis list.set_map)
  moreover have h: "homed_list ps \<longleftrightarrow> (\<forall>x\<in>endpoint_pkt ` set ps. x < ENDPOINT_MAX)" for ps by (simp add: homed_list_def)
  ultimately show ?thesis by (simp only: h)
qed

lemma homed_list_simps [simp]:
  "homed_list []" "homed_list (p # ps) \<longleftrightarrow> endpoint_pkt p < ENDPOINT_MAX \<and> homed_list ps"
  "homed_list (as @ bs) \<longleftrightarrow> homed_list as \<and> homed_list bs"
  by (auto simp: homed_list_def)

lemma rx_single_frame:
  assumes "rx_single env t p ps = (st, p', t')"
  shows "rx_frame t t'" "pkt_id p' = pkt_id p" "endpoint_pkt p' = endpoint_pkt p"
proof -
  have "rx_frame t (t\<lparr>dev := d\<rparr>)" for d by (intro rx_frame_silent) (simp_all add: tx_cfg_def)
  then show "rx_frame t t'" "pkt_id p' = pkt_id p" "endpoint_pkt p' = endpoint_pkt p"
    using assms by (auto simp: rx_single_def ath6kl_htc_rx_packet_def Let_def split: if_splits prod.splits)
qed

text \<open>One turn of the fetch loop: it fails, or moves a non-empty prefix of the queue over.\<close>

lemma rx_fetch_turn:
  assumes "rx_fetch_loop env t part (p # ps) cq = (st, cq', t')"
  obtains (fail) q1 xs ys t1 where "st \<noteq> 0" "cq' = cq @ ys" "t' = reclaim_all (reclaim_all t1 q1) xs" "rx_frame t t1"
      "map pkt_id ys @ map pkt_id xs @ map pkt_id q1 = map pkt_id (p # ps)"
      "map endpoint_pkt ys @ map endpoint_pkt xs @ map endpoint_pkt q1 = map endpoint_pkt (p # ps)"
  | (more) part1 q1 xs t1 where "rx_fetch_loop env t1 part1 q1 (cq @ xs) = (st, cq', t')" "rx_frame t t1" "length q1 \<le> length ps"
      "map pkt_id xs @ map pkt_id q1 = map pkt_id (p # ps)"
      "map endpoint_pkt xs @ map endpoint_pkt q1 = map endpoint_pkt (p # ps)"
proof -
  define bn where "bn = (rx_bndl_enable t \<and> length (p # ps) > 1)"
  obtain st1 xs q1 n t1 where b: "(if bn then ath6kl_htc_rx_bundle env t (p # ps) part else (0, [], p # ps, 0, t))
      = (st1, xs, q1, n, t1)" by (metis prod_cases5)
  have bf: "map pkt_id xs @ map pkt_id q1 = map pkt_id (p # ps) \<and> map endpoint_pkt xs @ map endpoint_pkt q1 = map endpoint_pkt (p # ps)
    \<and> rx_frame t t1 \<and> (n = 0 \<or> n = length xs) \<and> (st1 = 0 \<and> n = 0 \<longrightarrow> xs = []) \<and> (\<not> bn \<longrightarrow> st1 = 0)"
    using b rx_bundle_frame [of env t "p # ps" part st1 xs q1 n t1] by (cases bn) auto
  note eq = assms [unfolded rx_fetch_loop.simps(2) Let_def, folded bn_def, unfolded b prod.case]
  show ?thesis
  proof (cases "bn \<and> st1 \<noteq> 0")
    case True
    show ?thesis
    proof (rule fail [of "[]" t1 q1 xs])
      show "st \<noteq> 0" "cq' = cq @ []" "t' = reclaim_all (reclaim_all t1 q1) xs" using eq True by simp_all
    qed (use bf in simp_all)
  next
    case F: False
    note eq = eq [unfolded if_not_P [OF F]]
    show ?thesis
    proof (cases "n = 0")
      case False
      have "length xs + length q1 = Suc (length ps)" using bf by (metis length_append length_map length_Cons)
      then have "length q1 \<le> length ps" using bf False by (cases xs) auto
      then show ?thesis using more [of t1 _ q1 xs] eq False bf by auto
    next
      case True
      have xs: "xs = []" "q1 = q1" using bf True F by auto
      obtain st2 p2 t2 where sg: "rx_single env t1 p ps = (st2, p2, t2)" by (metis prod_cases3)
      note sf = rx_single_frame [OF sg]
      have fr: "rx_frame t t2" using bf sf(1) rx_frame_trans by blast
      show ?thesis
      proof (cases "st2 = 0")
        case False
        show ?thesis
        proof (rule fail [of "[]" t2 ps "[p2]"])
          show "st \<noteq> 0" "cq' = cq @ []" "t' = reclaim_all (reclaim_all t2 ps) [p2]"
            using eq True False sg xs by simp_all
        qed (use fr sf in simp_all)
      next
        case ok: True
        have "rx_fetch_loop env t2 (part \<or> bn \<and> q1 \<noteq> []) ps (cq @ [p2]) = (st, cq', t')"
          using eq True ok sg xs by simp
        then show ?thesis using more [of t2 _ ps "[p2]"] fr sf by simp
      qed
    qed
  qed
qed

lemma rx_fetch_loop_moves:
  assumes "rx_fetch_loop env t part q cq = (st, cq', t')" "rx_homed t" "homed_list q" "homed_list cq"
  shows "rx_moves t (q @ cq) t' cq' \<and> homed_list cq' \<and> (\<exists>zs. map pkt_id cq' = map pkt_id cq @ zs
    \<and> (if st = 0 then zs = map pkt_id q \<and> rx_frame t t' else prefix zs (map pkt_id q)))"
  using assms
proof (induction "length q" arbitrary: t part q cq rule: less_induct)
  case less
  show ?case
  proof (cases q)
    case Nil
    then show ?thesis using less(2-5) by (simp add: rx_moves_refl)
  next
    case (Cons p ps)
    show ?thesis using less(2) [unfolded Cons]
    proof (cases rule: rx_fetch_turn)
      case (fail q1 xs ys t1)
      have h: "homed_list (ys @ xs @ q1)" using less(4) fail(6) homed_list_map [of "ys @ xs @ q1" q] by (simp add: Cons)
      note m1 = rx_moves_frame [OF fail(4) less(3), of "(q1 @ xs) @ (cq @ ys)"]
      have h1: "rx_homed t1" using m1 by (simp add: rx_moves_def)
      have m2: "rx_moves t1 (q1 @ (xs @ cq @ ys)) (reclaim_all t1 q1) (xs @ cq @ ys)"
        using h by (intro reclaim_all_moves [OF h1]) simp
      have h2: "rx_homed (reclaim_all t1 q1)" using m2 by (simp add: rx_moves_def)
      have m3: "rx_moves (reclaim_all t1 q1) (xs @ cq @ ys) t' (cq @ ys)"
        unfolding fail(3) using h by (intro reclaim_all_moves [OF h2]) simp
      have "pids q = pids ys + pids xs + pids q1"
        using ids_pids [of "ys @ xs @ q1" q] fail(5) by (simp add: Cons ac_simps)
      then have "rx_moves t (q @ cq) t' cq'"
        using rx_moves_trans [OF rx_moves_trans [OF m1 [simplified] m2 [simplified]] m3]
        by (simp add: rx_moves_def fail(2) ac_simps)
      moreover have "map pkt_id q = map pkt_id ys @ (map pkt_id xs @ map pkt_id q1)" using fail(5) by (simp add: Cons)
      then have "prefix (map pkt_id ys) (map pkt_id q)" by (metis prefixI)
      ultimately show ?thesis using fail(1,2) h less(5) by simp
    next
      case (more part1 q1 xs t1)
      have h: "homed_list (xs @ q1)" using less(4) more(5) homed_list_map [of "xs @ q1" q] by (simp add: Cons)
      note m1 = rx_moves_frame [OF more(2) less(3), of "q @ cq"]
      have h1: "rx_homed t1" using m1 by (simp add: rx_moves_def)
      have "length q1 < length q" using more(3) by (simp add: Cons)
      from less(1) [OF this more(1) h1] h less(5)
      obtain zs where ih: "rx_moves t1 (q1 @ (cq @ xs)) t' cq'" "homed_list cq'"
        "map pkt_id cq' = map pkt_id (cq @ xs) @ zs"
        "if st = 0 then zs = map pkt_id q1 \<and> rx_frame t1 t' else prefix zs (map pkt_id q1)" by auto
      have "pids q = pids xs + pids q1" using ids_pids [of "xs @ q1" q] more(4) by (simp add: Cons ac_simps)
      then have "rx_moves t (q @ cq) t' cq'" using m1 ih(1) by (simp add: rx_moves_def ac_simps)
      moreover have "map pkt_id q = map pkt_id xs @ map pkt_id q1" using more(4) by (simp add: Cons)
      then have "if st = 0 then map pkt_id xs @ zs = map pkt_id q \<and> rx_frame t t'
          else prefix (map pkt_id xs @ zs) (map pkt_id q)"
        using ih(4) rx_frame_trans [OF more(2)] by (auto split: if_splits)
      ultimately show ?thesis using ih(2,3) by auto
    qed
  qed
qed

text \<open>No callback of the layer above brings in new buffers.\<close>

definition rx_quiet :: "'d htc_env \<Rightarrow> 'd htc_target \<Rightarrow> bool" where
  "rx_quiet env t \<longleftrightarrow> (\<forall>x. \<not> cb_rx_allocthresh (ep_cb (endpoint t x))) \<and> (\<forall>d x. fst (cb_rx_refill_fn env d x) = [])"

lemma rx_quiet_moves: "rx_moves t a t' b \<Longrightarrow> rx_quiet env t' = rx_quiet env t"
  by (simp add: rx_moves_def rx_quiet_def ep_conf_def)

lemma dev_moves: "rx_homed t \<Longrightarrow> rx_moves t a (t\<lparr>dev := d\<rparr>) a"
  by (intro rx_moves_frame rx_frame_silent) (simp_all add: tx_cfg_def)

lemma refill_moves:
  assumes "rx_quiet env t" "rx_homed t"
  shows "rx_moves t a (rx_refill env t e) a"
proof -
  have "rx_refill env t e = t\<lparr>dev := snd (cb_rx_refill_fn env (dev t) (eid (endpoint t e)))\<rparr>"
    using assms(1) by (simp add: rx_refill_def rx_quiet_def split: prod.split) (metis fst_conv)
  then show ?thesis using dev_moves [OF assms(2)] by simp
qed

lemma take_buffer_moves:
  assumes "rx_quiet env t" "rx_homed t" "e < ENDPOINT_MAX" "rx_take_buffer env t e lk n = (r, no_rec, t')"
  shows "case r of None \<Rightarrow> rx_moves t [] t' [] | Some p \<Rightarrow> rx_moves t [] t' [p] \<and> endpoint_pkt p = e"
proof -
  define t1 where "t1 = (if rx_bufq (endpoint t e) = [] \<and> cb_rx_refill (ep_cb (endpoint t e)) then rx_refill env t e else t)"
  have m1: "rx_moves t [] t1 []" using refill_moves [OF assms(1,2)] rx_moves_refl [OF assms(2)] by (simp add: t1_def)
  have eq: "(case rx_bufq (endpoint t1 e) of [] \<Rightarrow> (None, False, t1)
           | p # ps \<Rightarrow> (Some p, False, upd_ep t1 e (\<lambda>ep. ep\<lparr>rx_bufq := ps\<rparr>))) = (r, no_rec, t')"
    using assms(1,4) by (simp add: rx_take_buffer_def rx_quiet_def t1_def [symmetric] Let_def)
  show ?thesis
  proof (cases "rx_bufq (endpoint t1 e)")
    case Nil
    then show ?thesis using eq m1 by auto
  next
    case (Cons p ps)
    define t2 where "t2 = upd_ep t1 e (\<lambda>ep. ep\<lparr>rx_bufq := ps\<rparr>)"
    have r: "r = Some p" "t' = t2" using eq Cons by (simp_all add: t2_def)
    have h1: "rx_homed t1" using m1 by (simp add: rx_moves_def)
    then have p: "endpoint_pkt p = e" and h2: "rx_homed t2"
      using Cons assms(3) by (auto simp: rx_homed_def t2_def)
    have "pids (rx_bufq (endpoint t1 x)) = pids (rx_bufq (endpoint t2 x)) + (if x = e then {#pkt_id p#} else {#})" for x
      using Cons by (simp add: t2_def)
    from pool_bufq [OF assms(3) this] have "rx_pool t1 = rx_pool t2 + {#pkt_id p#}"
      unfolding rx_pool_def by (simp add: t2_def)
    moreover have "ep_conf (endpoint t2 x) = ep_conf (endpoint t1 x)" for x by (simp add: t2_def ep_conf_def)
    ultimately show ?thesis using m1 h2 p r by (simp add: rx_moves_def)
  qed
qed

lemma rx_setup_loop_moves:
  assumes "rx_setup_loop env t e lk full j n = (st, q, t')" "rx_quiet env t" "rx_homed t" "e < ENDPOINT_MAX"
  shows "rx_moves t [] t' q \<and> homed_list q"
  using assms
proof (induction n arbitrary: t j st q t')
  case 0
  then show ?case by (simp add: rx_moves_refl)
next
  case (Suc n)
  obtain r nr t1 where b: "rx_take_buffer env t e lk full = (r, nr, t1)" by (metis prod_cases3)
  note m = take_buffer_moves [OF Suc(3-5) b]
  show ?case
  proof (cases r)
    case None
    let ?t2 = "t1\<lparr>rx_st_flags := set_flag (rx_st_flags t1) HTC_RECV_WAIT_BUFFERS, ep_waiting := eid (endpoint t1 e)\<rparr>"
    have "t' = ?t2" "q = []" using Suc(2) b None by simp_all
    then show ?thesis using m None by (simp add: rx_moves_def rx_homed_def rx_pool_def)
  next
    case (Some p)
    have p: "rx_moves t [] t1 [p]" "endpoint_pkt p = e" using m Some by simp_all
    show ?thesis
    proof (cases "has_flag (htc_flags t1) HTC_OP_STATE_STOPPING")
      case True
      then show ?thesis using Suc(2,5) b Some p by (auto simp: rx_moves_def Let_def)
    next
      case False
      obtain st1 q1 t2 where l: "rx_setup_loop env t1 e lk full (Suc j) n = (st1, q1, t2)" by (metis prod_cases3)
      obtain p3 where q: "q = p3 # q1" "pkt_id p3 = pkt_id p" "endpoint_pkt p3 = e" "t' = t2"
        using Suc(2) b Some False l p(2) by (auto simp: Let_def)
      have "rx_quiet env t1" "rx_homed t1" using rx_quiet_moves [OF p(1)] Suc(3) p(1) by (simp_all add: rx_moves_def)
      then have "rx_moves t1 [] t2 q1 \<and> homed_list q1" using Suc(1) [OF l] Suc(5) by blast
      then show ?thesis using p q Suc(5) by (simp add: rx_moves_def)
    qed
  qed
qed

lemma rx_alloc_loop_moves:
  assumes "rx_alloc_loop env t e lks = (st, q, t')" "rx_quiet env t" "rx_homed t" "e < ENDPOINT_MAX"
  shows "rx_moves t [] t' q \<and> homed_list q"
  using assms
proof (induction lks arbitrary: t st q t')
  case Nil
  then show ?case by (simp add: rx_moves_refl)
next
  case (Cons lk lks)
  let ?b = "has_flag (lk_flags lk) HTC_FLG_RX_BNDL_CNT"
  define t0 where "t0 = (if ?b then upd_st t e (\<lambda>s. s\<lparr>rx_bundle_from_hdr := rx_bundle_from_hdr s + 1\<rparr>) else t)"
  obtain st1 q1 t1 where s1: "ath6kl_htc_rx_setup env t0 e lk (rx_n_msg lk) = (st1, q1, t1)" by (metis prod_cases3)
  obtain st2 q2 t2 where l2: "rx_alloc_loop env t1 e lks = (st2, q2, t2)" by (metis prod_cases3)
  have m0: "rx_moves t [] t0 []" using stats_moves [OF Cons(4)] rx_moves_refl [OF Cons(4)] by (simp add: t0_def)
  have t0: "rx_quiet env t0" "rx_homed t0" using rx_quiet_moves [OF m0] Cons(3) m0 by (simp_all add: rx_moves_def)
  have m1: "rx_moves t0 [] t1 q1 \<and> homed_list q1"
    using s1 rx_setup_loop_moves [OF _ t0 Cons(5)] rx_moves_refl [OF t0(2)]
    by (auto simp: ath6kl_htc_rx_setup_def Let_def split: if_splits)
  have t1: "rx_quiet env t1" "rx_homed t1"
    using rx_quiet_moves [of t0 "[]" t1 q1 env] m1 t0(1) by (simp_all add: rx_moves_def)
  have m2: "rx_moves t1 [] t2 q2 \<and> homed_list q2" using Cons(1) [OF l2 t1 Cons(5)] .
  have "st \<noteq> 0 \<and> q = [] \<and> t' = t \<or> q = q1 \<and> t' = t1 \<or> q = q1 @ q2 \<and> t' = t2"
    using Cons(2) by (auto simp: Let_def t0_def [symmetric] s1 l2 split: if_splits)
  then show ?case using m0 m1 m2 rx_moves_refl [OF Cons(4)] by (auto simp: rx_moves_def ac_simps)
qed

lemma rx_alloc_moves:
  assumes "ath6kl_htc_rx_alloc env t e lks = (st, q, t')" "rx_quiet env t" "rx_homed t" "e < ENDPOINT_MAX"
  shows "rx_moves t [] t' q \<and> homed_list q \<and> (st \<noteq> 0 \<longrightarrow> q = [])"
proof -
  obtain st1 q1 t1 where l: "rx_alloc_loop env t e lks = (st1, q1, t1)" by (metis prod_cases3)
  have m: "rx_moves t [] t1 q1 \<and> homed_list q1" using rx_alloc_loop_moves [OF l assms(2-4)] .
  have "rx_moves t1 (q1 @ []) (reclaim_all t1 q1) []" using m by (intro reclaim_all_moves) (simp_all add: rx_moves_def)
  then have "rx_moves t [] (reclaim_all t1 q1) []" using m rx_moves_trans [of t "[]" t1 q1] by simp
  then show ?thesis using assms(1) m
    by (auto simp: ath6kl_htc_rx_alloc_def l Let_def reclaim_all_def [symmetric] split: if_splits)
qed

text \<open>The handler: a turn either ends with every buffer back, or goes on with none outstanding.\<close>

lemma exit_moves:
  assumes "rx_pending_exit t st n (Some cq) = RxReturn st' n' t'" "rx_homed t" "homed_list cq"
  shows "rx_moves t (if st \<noteq> 0 then cq else []) t' []"
proof -
  have "rx_moves t (cq @ []) (reclaim_all t cq) []" by (rule reclaim_all_moves [OF assms(2,3)])
  then have r: "rx_moves t cq (reclaim_all t cq) []" by simp
  have e: "rx_moves t a (emit t1 (RxControl b)) c = rx_moves t a t1 c" for a c t1 b
    by (simp add: rx_moves_def rx_homed_def rx_pool_def)
  show ?thesis
    using assms(1) r rx_moves_refl [OF assms(2)]
    by (auto simp: rx_pending_exit_def Let_def e split: if_splits)
qed

lemma process_packets_done:
  "ath6kl_htc_rx_process_packets env t ps lks = (0, left, lks', t') \<Longrightarrow> left = []"
proof (induction ps arbitrary: t lks)
  case (Cons p ps)
  obtain st1 p1 lks1 t1 where h: "ath6kl_htc_rx_process_hdr env t p True = (st1, p1, lks1, t1)" by (metis prod_cases4)
  note eq = Cons(2) [unfolded ath6kl_htc_rx_process_packets.simps Let_def h prod.case]
  have s: "\<not> st1 \<noteq> 0" using eq by (metis prod.inject)
  from eq [unfolded if_not_P [OF s]] show ?case by (rule Cons(1))
qed simp

lemma rx_pending_turn_moves:
  assumes "rx_quiet env t" "rx_homed t" "cq = None \<or> cq = Some []"
  shows "case rx_pending_turn env t lks n cq of
      Inl (RxReturn st n' t') \<Rightarrow> rx_moves t [] t' []
    | Inl (UninitList t') \<Rightarrow> cq = None \<and> ENDPOINT_MAX \<le> lk_eid (hd lks)
    | Inr (t', lks', n', cq') \<Rightarrow> rx_moves t [] t' [] \<and> cq' = Some []"
proof -
  define e where "e = lk_eid (hd lks)"
  have exit0: "case rx_pending_exit t1 st1 m (Some q) of RxReturn st n' t' \<Rightarrow> rx_moves t [] t' [] | UninitList t' \<Rightarrow> False"
    if "rx_moves t [] t1 q" "st1 \<noteq> 0 \<or> q = []" "homed_list q" for t1 st1 m q
  proof -
    obtain st n' t' where r: "rx_pending_exit t1 st1 m (Some q) = RxReturn st n' t'"
      by (cases "rx_pending_exit t1 st1 m (Some q)") (auto simp: rx_pending_exit_def Let_def split: bool.splits)
    have "rx_moves t1 q t' []"
      using exit_moves [OF r _ that(3)] that(1,2) by (cases "st1 = 0") (auto simp: rx_moves_def)
    then show ?thesis using r rx_moves_trans [OF that(1)] by simp
  qed
  show ?thesis
  proof (cases "e \<ge> ENDPOINT_MAX")
    case True
    then have turn: "rx_pending_turn env t lks n cq = Inl (rx_pending_exit t (- ENOMEM) n cq)"
      by (simp add: rx_pending_turn_def e_def)
    show ?thesis
    proof (cases cq)
      case None
      then show ?thesis using turn True by (simp add: rx_pending_exit_def e_def)
    next
      case (Some q)
      have "rx_moves t [] t []" using rx_moves_refl [OF assms(2)] .
      with exit0 [of t q "- ENOMEM" n] assms(3) Some show ?thesis
        unfolding turn by (simp split: rx_outcome.split rx_outcome.split_asm)
    qed
  next
    case e: False
    obtain st rxq t1 where al: "ath6kl_htc_rx_alloc env t e lks = (st, rxq, t1)" by (metis prod_cases3)
    have m1: "rx_moves t [] t1 rxq \<and> homed_list rxq \<and> (st \<noteq> 0 \<longrightarrow> rxq = [])"
      using rx_alloc_moves [OF al assms(1,2)] e by simp
    define t2 where "t2 = (if length rxq \<ge> 2 then t1\<lparr>chk_irq_status_cnt := 1\<rparr> else t1)"
    obtain st3 cq3 t3 where fe: "ath6kl_htc_rx_fetch env t2 rxq [] = (st3, cq3, t3)" by (metis prod_cases3)
    define t4 where "t4 = (if st3 = 0 then ath6kl_htc_rx_chk_water_mark env t3 e else t3)"
    obtain st5 cq5 lks5 t5 where pp: "ath6kl_htc_rx_process_packets env t4 cq3 [] = (st5, cq5, lks5, t5)"
      by (metis prod_cases4)
    have turn: "rx_pending_turn env t lks n cq = (if st \<noteq> 0 then Inl (rx_pending_exit t1 st n (Some []))
        else if lks5 = [] \<or> st5 \<noteq> 0 then Inl (rx_pending_exit t5 st5 (n + length rxq) (Some cq5))
        else Inr (t5\<lparr>chk_irq_status_cnt := 1\<rparr>, lks5, n + length rxq, Some cq5))"
      using e by (simp add: rx_pending_turn_def Let_def e_def [symmetric] al t2_def [symmetric] fe t4_def [symmetric] pp)
    have chk: "rx_moves t a (u\<lparr>chk_irq_status_cnt := k\<rparr>) b = rx_moves t a u b" for a u k b
      by (simp add: rx_moves_def rx_homed_def rx_pool_def)
    have m2: "rx_moves t [] t2 rxq" using m1 by (simp add: t2_def chk)
    then have h2: "rx_homed t2" by (simp add: rx_moves_def)
    have m3: "rx_moves t2 (rxq @ []) t3 cq3" "homed_list cq3"
      using rx_fetch_loop_moves [OF fe [unfolded ath6kl_htc_rx_fetch_def] h2] m1 by simp_all
    have q3: "rx_quiet env t3" "rx_homed t3"
      using rx_quiet_moves [OF m3(1)] rx_quiet_moves [OF m2] assms(1) m3(1) by (simp_all add: rx_moves_def)
    have m4: "rx_moves t3 cq3 t4 cq3"
      using refill_moves [OF q3] rx_moves_refl [OF q3(2)] by (simp add: t4_def ath6kl_htc_rx_chk_water_mark_def)
    then have h4: "rx_homed t4" by (simp add: rx_moves_def)
    note m5 = process_packets_moves [OF pp h4 m3(2)]
    have all: "rx_moves t [] t5 cq5" using m2 m3(1) m4 m5 by (simp add: rx_moves_def)
    have fin: "st5 = 0 \<Longrightarrow> cq5 = []" using process_packets_done pp by blast
    show ?thesis
    proof (cases "st = 0")
      case False
      then show ?thesis using exit0 [of t1 "[]" st n] m1 turn
        by (cases "rx_pending_exit t1 st n (Some [])") auto
    next
      case st: True
      show ?thesis
      proof (cases "lks5 = [] \<or> st5 \<noteq> 0")
        case True
        have "st5 \<noteq> 0 \<or> cq5 = []" using fin by blast
        with True show ?thesis using exit0 [of t5 cq5 st5 "n + length rxq", OF all] m5 turn st
          by (cases "rx_pending_exit t5 st5 (n + length rxq) (Some cq5)") auto
      next
        case False
        then show ?thesis using all fin turn st by (simp add: chk)
      qed
    qed
  qed
qed

lemma rx_pending_loop_moves:
  assumes "rx_pending_loop env t lks n cq = Some r"
  shows "rx_quiet env t \<longrightarrow> rx_homed t \<longrightarrow> cq = None \<or> cq = Some [] \<longrightarrow>
    (case r of RxReturn st n' t' \<Rightarrow> rx_moves t [] t' [] | UninitList t' \<Rightarrow> cq = None \<and> ENDPOINT_MAX \<le> lk_eid (hd lks))"
  using assms
proof (induction rule: rx_pending_loop.raw_induct [rotated, consumes 1, case_names 1])
  case (1 loop env t lks n cq r)
  show ?case
  proof (intro impI)
    assume a: "rx_quiet env t" "rx_homed t" "cq = None \<or> cq = Some []"
    note turn = rx_pending_turn_moves [OF a, of lks n]
    show "case r of RxReturn st n' t' \<Rightarrow> rx_moves t [] t' [] | UninitList t' \<Rightarrow> cq = None \<and> ENDPOINT_MAX \<le> lk_eid (hd lks)"
    proof (cases "rx_pending_turn env t lks n cq")
      case (Inl o')
      then show ?thesis using 1(2) turn by (cases o') simp_all
    next
      case (Inr z)
      obtain t1 lks1 n1 cq1 where z: "z = (t1, lks1, n1, cq1)" by (metis prod_cases4)
      have m: "rx_moves t [] t1 []" "cq1 = Some []" using turn Inr z by simp_all
      have l: "loop env t1 lks1 n1 cq1 = Some r" using 1(2) Inr z by simp
      have "rx_quiet env t1" "rx_homed t1" using rx_quiet_moves [OF m(1)] a(1) m(1) by (simp_all add: rx_moves_def)
      then have "case r of RxReturn st n' t' \<Rightarrow> rx_moves t1 [] t' [] | UninitList t' \<Rightarrow> cq1 = None \<and> ENDPOINT_MAX \<le> lk_eid (hd lks1)"
        using 1(1) [OF l] m(2) by blast
      then show ?thesis using m by (cases r) (auto simp: rx_moves_def)
    qed
  qed
qed

section \<open>Properties\<close>



text \<open>Records on the wire, and the records of a trailer processed one after the other.\<close>

fun enc_rec :: "u8 \<times> u8 list \<Rightarrow> u8 list" where
  "enc_rec (rid, body) = rid # of_nat (length body) # body"

fun run_records ::
    "'d htc_env \<Rightarrow> 'd htc_target \<Rightarrow> bool \<Rightarrow> lkahd list \<Rightarrow> nat \<Rightarrow> (u8 \<times> u8 list) list \<Rightarrow> int \<times> lkahd list \<times> 'd htc_target" where
  "run_records env t use lks e [] = (0, lks, t)"
| "run_records env t use lks e ((rid, body) # rs) =
     (case htc_parse_trailer env t rid body use lks e of (st, lks1, t1) \<Rightarrow>
        if st \<noteq> 0 then (st, lks1, t1) else run_records env t1 use lks1 e rs)"

lemma proc_trailer_encoded:
  assumes "\<forall>r\<in>set rs. length (snd r) < 256"
  shows "htc_proc_trailer env t (concat (map enc_rec rs)) use lks e = run_records env t use lks e rs"
  using assms
proof (induction rs arbitrary: t lks)
  case (Cons r rs)
  obtain rid body where r: "r = (rid, body)" by fastforce
  have "unat (of_nat (length body) :: u8) = length body"
    using Cons(2) r by (simp add: unat_of_nat take_bit_nat_eq_self unsigned_of_nat)
  moreover obtain st lks1 t1 where "htc_parse_trailer env t rid body use lks e = (st, lks1, t1)" by (metis prod_cases3)
  ultimately show ?case using Cons by (simp add: r)
qed simp

lemma proc_trailer_accepts:
  "htc_proc_trailer env t bs use lks e = (0, lks', t') \<Longrightarrow>
   \<exists>rs. bs = concat (map enc_rec rs) \<and> (\<forall>r\<in>set rs. length (snd r) < 256)"
proof (induction env t bs use lks e arbitrary: lks' t' rule: htc_proc_trailer.induct)
  case (3 env t rid rlen bs use lks e)
  have F: "\<not> unat rlen > length bs" using 3(2) by (auto split: if_splits)
  obtain st lks1 t1 where p: "htc_parse_trailer env t rid (take (unat rlen) bs) use lks e = (st, lks1, t1)"
    by (metis prod_cases3)
  have st: "\<not> st \<noteq> 0" using 3(2) F p by (auto split: if_splits)
  have r: "htc_proc_trailer env t1 (drop (unat rlen) bs) use lks1 e = (0, lks', t')" using 3(2) F p st by simp
  obtain rs where rs: "drop (unat rlen) bs = concat (map enc_rec rs)" "\<forall>r\<in>set rs. length (snd r) < 256"
    using 3(1) [OF F p [symmetric] refl st r] by blast
  have len: "unat rlen < 256" using unsigned_less [of rlen, where ?'a = nat] by simp
  have "rid # rlen # bs = concat (map enc_rec ((rid, take (unat rlen) bs) # rs))"
    using F rs(1) append_take_drop_id [of "unat rlen" bs] by (simp add: min_def)
  moreover have "\<forall>r\<in>set ((rid, take (unat rlen) bs) # rs). length (snd r) < 256" using rs(2) len by simp
  ultimately show ?case by blast
qed (auto intro: exI [of _ "[]"])

text \<open>
  Property C35.  The trailer parser is the reader of the record format: on the encoding of any
  list of records it does exactly what processing these records one after the other does
  (stopping at the first bad one), and it accepts no byte string that is not such an encoding;
  so it never reads past the trailer and always comes to an end.
\<close>

theorem trailer_reads_records:
  "((\<forall>r\<in>set rs. length (snd r) < 256) \<longrightarrow>
      htc_proc_trailer env t (concat (map enc_rec rs)) use lks e = run_records env t use lks e rs)
   \<and> (fst (htc_proc_trailer env t bs use lks e) = 0 \<longrightarrow>
      (\<exists>rs. bs = concat (map enc_rec rs) \<and> (\<forall>r\<in>set rs. length (snd r) < 256)))"
  using proc_trailer_encoded [of rs env t use lks e] proc_trailer_accepts [of env t bs use lks e]
  by (metis prod.collapse)

theorem trailer_reads_records_witness:
  "htc_proc_trailer ex_env ex_target [2, 6, 1, 5, 0, 100, 0, 254] True [] 1 = (0, [LkAhd 5 0 100 0], ex_target)"
proof -
  have "concat (map enc_rec [(2, [1, 5, 0, 100, 0, 254])]) = [2, 6, 1, 5, 0, 100, 0, 254]" by simp
  then show ?thesis
    using trailer_reads_records [of "[(2, [1, 5, 0, 100, 0, 254])]" ex_env ex_target True "[]" 1]
    by (simp add: htc_parse_trailer_def)
qed

text \<open>
  Property C10.  A well-formed frame comes out as it went in.  If the fetched bytes are a header,
  data and a trailer of the sizes the header says, and the frame is the one announced (or, for a
  later packet of a bundle, names the packet's endpoint and fits its buffer), then
  \<open>ath6kl_htc_rx_process_hdr\<close> processes exactly the trailer bytes and, if they are accepted, leaves
  the packet describing exactly the data.
\<close>

theorem rx_frame_roundtrip:
  assumes "read_bytes (pkt_mem p) (buf p) (HTC_HDR_LENGTH + length data + length tr) = put_hdr h @ data @ tr"
    and "payld_len h = length data + length tr" and "payld_len h < 65536"
    and "has_flag (flags_hdr h) HTC_FLG_RX_TRAILER \<longleftrightarrow> tr \<noteq> []"
    and "tr \<noteq> [] \<longrightarrow> unat (ctrl0 h) = length tr \<and> 2 \<le> length tr"
    and "if has_flag (rx_flags p) HTC_RX_PKT_REFRESH_HDR
         then payld_len h + HTC_HDR_LENGTH \<le> buf_len p \<and> endpoint_pkt p = unat (eid_hdr h)
         else exp_hdr p = lkahd_of (put_hdr h) \<and> act_len p = payld_len h + HTC_HDR_LENGTH"
    and "htc_proc_trailer env t tr (look \<and> \<not> has_flag (rx_flags p) HTC_RX_PKT_IGNORE_LOOKAHEAD) [] (endpoint_pkt p)
         = (st, lks, t')"
  shows "\<exists>p'. ath6kl_htc_rx_process_hdr env t p look = (st, p', lks, t')
    \<and> (st = 0 \<longrightarrow> payload p' = data \<and> act_len p' = length data)"
proof -
  let ?n = "length tr" and ?k = "length data"
  have split: "read_bytes (pkt_mem p) (buf p) (HTC_HDR_LENGTH + ?k + ?n)
      = read_bytes (pkt_mem p) (buf p) HTC_HDR_LENGTH @ read_bytes (pkt_mem p) (buf p + int HTC_HDR_LENGTH) ?k
        @ read_bytes (pkt_mem p) (buf p + int HTC_HDR_LENGTH + int ?k) ?n"
    by (simp add: read_bytes_append add.assoc)
  have hb: "read_bytes (pkt_mem p) (buf p) HTC_HDR_LENGTH = put_hdr h"
    and dt: "read_bytes (pkt_mem p) (buf p + int HTC_HDR_LENGTH) ?k = data"
    and tb: "read_bytes (pkt_mem p) (buf p + int HTC_HDR_LENGTH + int ?k) ?n = tr"
    using assms(1) unfolding split by simp_all
  have hdr: "get_hdr (put_hdr h) = h" using get_put_hdr [of h "[]"] assms(3) by simp
  have off: "buf p + int HTC_HDR_LENGTH + int (payld_len h) - int ?n = buf p + int HTC_HDR_LENGTH + int ?k"
    by (simp add: assms(2))
  define p1 where "p1 = (if has_flag (rx_flags p) HTC_RX_PKT_REFRESH_HDR
     then p\<lparr>exp_hdr := lkahd_of (put_hdr h), act_len := payld_len h + HTC_HDR_LENGTH\<rparr> else p)"
  have p1: "pkt_mem p1 = pkt_mem p" "buf p1 = buf p" "rx_flags p1 = rx_flags p" "endpoint_pkt p1 = endpoint_pkt p"
    "exp_hdr p1 = lkahd_of (put_hdr h)" "act_len p1 = payld_len h + HTC_HDR_LENGTH" "buf_len p1 = buf_len p"
    using assms(6) by (simp_all add: p1_def split: if_splits)
  have ok: "\<not> (has_flag (rx_flags p) HTC_RX_PKT_REFRESH_HDR \<and> act_len p1 > buf_len p1)"
    "\<not> (has_flag (rx_flags p) HTC_RX_PKT_REFRESH_HDR \<and> endpoint_pkt p1 \<noteq> unat (eid_hdr h))"
    "\<not> lkahd_of (put_hdr h) \<noteq> exp_hdr p1"
    using assms(6) p1 by (simp_all split: if_splits)
  note def = ath6kl_htc_rx_process_hdr_def [of env t p look, unfolded Let_def hb hdr, folded p1_def,
      unfolded if_not_P [OF ok(1)] if_not_P [OF ok(2)] if_not_P [OF ok(3)]]
  show ?thesis
  proof (cases "tr = []")
    case True
    have "\<not> has_flag (flags_hdr h) HTC_FLG_RX_TRAILER" using assms(4) True by simp
    moreover have z: "st = 0" "lks = []" "t' = t" using assms(7) True by simp_all
    ultimately show ?thesis unfolding def z using assms(2) True dt by (simp add: payload_def p1)
  next
    case False
    have n: "has_flag (flags_hdr h) HTC_FLG_RX_TRAILER" "unat (ctrl0 h) = ?n" "2 \<le> ?n" "?n \<le> payld_len h"
      using assms(2,4,5) False by simp_all
    show ?thesis using n assms(2,7) dt by (simp add: def p1 off tb tb [unfolded add.assoc] payload_def)
  qed
qed

definition ex_rx_mem :: "int \<Rightarrow> u8" where
  "ex_rx_mem a = (if 0 \<le> a \<and> a < 18 then [5, 2, 12, 0, 8, 0, 11, 22, 33, 44, 2, 6, 1, 3, 0, 100, 0, 254] ! nat a else 0)"

theorem rx_frame_roundtrip_witness:
  "\<exists>p'. ath6kl_htc_rx_process_hdr ex_env ex_target
      ((ex_pkt 1 5 18)\<lparr>pkt_mem := ex_rx_mem, buf := 0, exp_hdr := LkAhd 5 2 12 0\<rparr>) True
      = (0, p', [LkAhd 3 0 100 0], ex_target) \<and> payload p' = [11, 22, 33, 44]"
proof -
  let ?p = "(ex_pkt 1 5 18)\<lparr>pkt_mem := ex_rx_mem, buf := 0, exp_hdr := LkAhd 5 2 12 0\<rparr>"
  let ?h = "\<lparr>eid_hdr = 5, flags_hdr = 2, payld_len = 12, ctrl0 = 8, ctrl1 = 0\<rparr>"
  let ?tr = "[2, 6, 1, 3, 0, 100, 0, 254] :: u8 list"
  have r: "read_bytes (pkt_mem ?p) (buf ?p) (HTC_HDR_LENGTH + length [11, 22, 33, 44 :: u8] + length ?tr)
      = put_hdr ?h @ [11, 22, 33, 44] @ ?tr"
    by (simp add: read_bytes_def ex_rx_mem_def put_hdr_def le16_lo_def le16_hi_def HTC_HDR_LENGTH_def upt_rec)
  have t: "htc_proc_trailer ex_env ex_target ?tr (True \<and> \<not> has_flag (rx_flags ?p) HTC_RX_PKT_IGNORE_LOOKAHEAD) []
      (endpoint_pkt ?p) = (0, [LkAhd 3 0 100 0], ex_target)"
    by (simp add: htc_parse_trailer_def ex_pkt_def)
  show ?thesis
    using rx_frame_roundtrip [OF r _ _ _ _ _ t] by (simp add: ex_pkt_def lkahd_of_def put_hdr_def le16_lo_def
        le16_hi_def HTC_HDR_LENGTH_def has_flag_def HTC_FLG_RX_TRAILER_def) blast
qed

text \<open>
  Property C16.  Fetching loses no buffer.  On success the completion queue gains exactly the
  requested packets, in order; on failure it gains some prefix of them, and every other packet
  is back in its endpoint's buffers (or handed back), each exactly once.
\<close>

theorem rx_fetch_accounts:
  assumes "ath6kl_htc_rx_fetch env t q cq = (st, cq', t')" and "rx_homed t" and "homed_list q" and "homed_list cq"
  shows "rx_pool t' + pids cq' = rx_pool t + pids q + pids cq
    \<and> (\<exists>zs. map pkt_id cq' = map pkt_id cq @ zs \<and> (if st = 0 then zs = map pkt_id q else prefix zs (map pkt_id q)))"
  using rx_fetch_loop_moves [OF assms(1) [unfolded ath6kl_htc_rx_fetch_def] assms(2-4)]
  by (auto simp: rx_moves_def ac_simps split: if_splits)

lemma ex_target_homed: "rx_homed ex_target"
proof -
  have "rx_bufq (endpoint ex_target x) = []" for x by (simp add: ex_target_def ex_ep_def)
  then show ?thesis by (simp add: rx_homed_def)
qed

theorem rx_fetch_accounts_witness:
  "\<exists>st cq' t'. ath6kl_htc_rx_fetch ex_env ex_target [ex_pkt 1 3 40, ex_pkt 2 3 40] [] = (st, cq', t')
     \<and> rx_pool t' + pids cq' = rx_pool ex_target + {#1, 2#}"
proof -
  obtain st cq' t' where f: "ath6kl_htc_rx_fetch ex_env ex_target [ex_pkt 1 3 40, ex_pkt 2 3 40] [] = (st, cq', t')"
    by (metis prod_cases3)
  have "pids [ex_pkt 1 3 40, ex_pkt 2 3 40] = {#1, 2#}" by (simp add: ex_pkt_def)
  then show ?thesis
    using rx_fetch_accounts [OF f ex_target_homed] f by (simp add: ex_pkt_def ENDPOINT_MAX_def del: pids_simps(2))
qed



text \<open>
  Property C36.  Returning buffers restarts the receiver exactly when it must: the wait flag is
  cleared and the receiver enabled if and only if the layer was out of buffers for this very
  endpoint; otherwise the buffers are just appended.  While stopping every buffer is handed back
  as cancelled.
\<close>

theorem rx_add_unblocks:
  assumes "ath6kl_htc_mbox_add_rxbuf_multiple t (p # ps) = (st, t')" and "e = endpoint_pkt p" and "e < ENDPOINT_MAX"
  shows "st = 0
    \<and> (if has_flag (htc_flags t) HTC_OP_STATE_STOPPING
       then endpoint t' = endpoint t \<and> (e \<noteq> 0 \<longrightarrow>
              events t' = events t @ map (\<lambda>q. RxDeliver e (q\<lparr>status := - ECANCELED\<rparr>)) (p # ps))
       else rx_bufq (endpoint t' e) = rx_bufq (endpoint t e) @ p # ps
         \<and> (if has_flag (rx_st_flags t) HTC_RECV_WAIT_BUFFERS \<and> ep_waiting t = e
            then \<not> has_flag (rx_st_flags t') HTC_RECV_WAIT_BUFFERS \<and> ep_waiting t' = ENDPOINT_MAX
              \<and> events t' = events t @ [RxControl True]
            else rx_st_flags t' = rx_st_flags t \<and> ep_waiting t' = ep_waiting t \<and> events t' = events t))"
proof -
  have cancel: "endpoint (foldl (\<lambda>t p. rx_cancel t e p) t qs) = endpoint t
      \<and> (e \<noteq> 0 \<longrightarrow> events (foldl (\<lambda>t p. rx_cancel t e p) t qs)
           = events t @ map (\<lambda>q. RxDeliver e (q\<lparr>status := - ECANCELED\<rparr>)) qs)" for qs
  proof (induction qs arbitrary: t)
    case (Cons q qs)
    have "endpoint (rx_cancel t e q) = endpoint t" by (simp add: rx_cancel_def Let_def reclaim_rx_ctrl_buf_def)
    then show ?case using Cons [of "rx_cancel t e q"] by (auto simp: rx_cancel_def Let_def)
  qed simp
  show ?thesis
  proof (cases "has_flag (htc_flags t) HTC_OP_STATE_STOPPING")
    case True
    have "st = 0" "t' = foldl (\<lambda>t p. rx_cancel t e p) t (p # ps)"
      using assms True by (simp_all add: ath6kl_htc_mbox_add_rxbuf_multiple_def Let_def)
    then show ?thesis using True cancel [of "p # ps"] by simp
  next
    case False
    then show ?thesis using assms by (auto simp: ath6kl_htc_mbox_add_rxbuf_multiple_def Let_def)
  qed
qed

theorem rx_add_unblocks_witness:
  "events (snd (ath6kl_htc_mbox_add_rxbuf_multiple
      (ex_target\<lparr>rx_st_flags := HTC_RECV_WAIT_BUFFERS, ep_waiting := 3\<rparr>) [ex_pkt 1 3 0])) = [RxControl True]"
proof -
  let ?t = "ex_target\<lparr>rx_st_flags := HTC_RECV_WAIT_BUFFERS, ep_waiting := 3\<rparr>"
  obtain st t' where a: "ath6kl_htc_mbox_add_rxbuf_multiple ?t [ex_pkt 1 3 0] = (st, t')" by fastforce
  have "endpoint_pkt (ex_pkt 1 3 0) = 3" "\<not> has_flag (htc_flags ?t) HTC_OP_STATE_STOPPING" "events ?t = []"
    "has_flag (rx_st_flags ?t) HTC_RECV_WAIT_BUFFERS"
    by (simp_all add: ex_pkt_def ex_target_def has_flag_def HTC_RECV_WAIT_BUFFERS_def)
  then show ?thesis using rx_add_unblocks [OF a refl] a by (simp add: ENDPOINT_MAX_def)
qed

end
