(* ===== verification/HtcSetup.thy ===== *)
theory HtcSetup
  imports HtcRx
begin

text \<open>
  Bringing the HTC mailbox layer up and down (drivers/ath6kl/htc.c: the credit set-up, the service
  connections, \<open>ath6kl_htc_mbox_wait_target\<close>, \<open>start\<close>, \<open>stop\<close>, \<open>create\<close> and \<open>cleanup\<close>;
  drivers/ath6kl/hif.c: \<open>ath6kl_hif_setup\<close>).

  Control messages are exchanged on endpoint 0 with packets from the two free lists of control
  buffers; the model keeps their bytes, so that what is read from a reply is what the target put
  there.  Memory for the control buffers comes from \<open>alloc\<close>: the address of the i-th packet with
  its buffer, or nothing.
\<close>

section \<open>Constants and messages\<close>

definition HTC_MSG_READY_ID :: nat where "HTC_MSG_READY_ID = 1"
definition HTC_MSG_CONN_SVC_ID :: nat where "HTC_MSG_CONN_SVC_ID = 2"
definition HTC_MSG_CONN_SVC_RESP_ID :: nat where "HTC_MSG_CONN_SVC_RESP_ID = 3"
definition HTC_MSG_SETUP_COMPLETE_ID :: nat where "HTC_MSG_SETUP_COMPLETE_ID = 4"
definition HTC_MSG_SETUP_COMPLETE_EX_ID :: nat where "HTC_MSG_SETUP_COMPLETE_EX_ID = 5"
definition HTC_MAX_CTRL_MSG_LEN :: nat where "HTC_MAX_CTRL_MSG_LEN = 256"
definition HTC_VERSION_2P0 :: nat where "HTC_VERSION_2P0 = 0"
definition HTC_VERSION_2P1 :: nat where "HTC_VERSION_2P1 = 1"
definition HTC_SERVICE_SUCCESS :: u8 where "HTC_SERVICE_SUCCESS = 0"
definition HTC_SETUP_COMP_FLG_RX_BNDL_EN :: u8 where "HTC_SETUP_COMP_FLG_RX_BNDL_EN = 1"
definition NUM_CONTROL_BUFFERS :: nat where "NUM_CONTROL_BUFFERS = 8"
definition NUM_CONTROL_TX_BUFFERS :: nat where "NUM_CONTROL_TX_BUFFERS = 2"
definition NUM_CONTROL_RX_BUFFERS :: nat where "NUM_CONTROL_RX_BUFFERS = NUM_CONTROL_BUFFERS - NUM_CONTROL_TX_BUFFERS"
definition HIF_MBOX0_EXT_WIDTH :: int where "HIF_MBOX0_EXT_WIDTH = 12 * 1024"

lemmas htc_setup_consts = HTC_MSG_READY_ID_def HTC_MSG_CONN_SVC_ID_def HTC_MSG_CONN_SVC_RESP_ID_def
  HTC_MSG_SETUP_COMPLETE_ID_def HTC_MSG_SETUP_COMPLETE_EX_ID_def HTC_MAX_CTRL_MSG_LEN_def
  HTC_VERSION_2P0_def HTC_VERSION_2P1_def HTC_SERVICE_SUCCESS_def NUM_CONTROL_BUFFERS_def
  NUM_CONTROL_TX_BUFFERS_def NUM_CONTROL_RX_BUFFERS_def HIF_MBOX0_EXT_WIDTH_def

text \<open>\<open>struct htc_service_connect_req\<close> and \<open>struct htc_service_connect_resp\<close>\<close>

record htc_service_connect_req =
  req_svc_id :: nat
  req_conn_flags :: nat
  req_ep_cb :: htc_ep_callbacks
  req_max_txq_depth :: int
  req_flags :: u32
  req_max_rxmsg_sz :: nat

record htc_service_connect_resp =
  resp_endpoint :: nat
  resp_len_max :: nat
  resp_code :: u8

text \<open>
  The messages, byte by byte: \<open>struct htc_ready_msg\<close>, \<open>htc_ready_ext_msg\<close>, \<open>htc_conn_service_msg\<close>,
  \<open>htc_conn_service_resp\<close>, \<open>htc_setup_comp_msg\<close> and \<open>htc_setup_comp_ext_msg\<close>.  The last takes the two
  fields the host sets.
\<close>

definition put_ready :: "nat \<Rightarrow> nat \<Rightarrow> nat \<Rightarrow> u8 \<Rightarrow> u8 list" where
  "put_ready i cnt sz maxep = [le16_lo i, le16_hi i, le16_lo cnt, le16_hi cnt, le16_lo sz, le16_hi sz, maxep, 0]"

definition put_conn_msg :: "nat \<Rightarrow> nat \<Rightarrow> u8 list" where
  "put_conn_msg svc fl = [le16_lo HTC_MSG_CONN_SVC_ID, le16_hi HTC_MSG_CONN_SVC_ID, le16_lo svc, le16_hi svc,
     le16_lo fl, le16_hi fl, 0, 0]"

definition put_conn_resp :: "nat \<Rightarrow> nat \<Rightarrow> u8 \<Rightarrow> u8 \<Rightarrow> nat \<Rightarrow> u8 list" where
  "put_conn_resp i svc st e sz = [le16_lo i, le16_hi i, le16_lo svc, le16_hi svc, st, e, le16_lo sz, le16_hi sz, 0, 0]"

definition put_setup_comp :: "u8 list" where
  "put_setup_comp = [le16_lo HTC_MSG_SETUP_COMPLETE_ID, le16_hi HTC_MSG_SETUP_COMPLETE_ID]"

definition put_setup_comp_ext :: "u8 \<Rightarrow> u8 \<Rightarrow> u8 list" where
  "put_setup_comp_ext fl n = [le16_lo HTC_MSG_SETUP_COMPLETE_EX_ID, le16_hi HTC_MSG_SETUP_COMPLETE_EX_ID,
     fl, 0, 0, 0, n, 0, 0, 0]"

text \<open>Reading a field of the message a control packet holds.\<close>

definition msg8 :: "htc_packet \<Rightarrow> nat \<Rightarrow> u8" where
  "msg8 p i = pkt_mem p (buf p + int i)"

definition msg16 :: "htc_packet \<Rightarrow> nat \<Rightarrow> nat" where
  "msg16 p i = le16 (msg8 p i) (msg8 p (i + 1))"

definition put_msg :: "htc_packet \<Rightarrow> u8 list \<Rightarrow> htc_packet" where
  "put_msg p bs = p\<lparr>pkt_mem := write_bytes (pkt_mem p) (buf p) bs\<rparr>"

section \<open>Credit set-up\<close>

text \<open>
  \<open>ath6kl_htc_set_credit_dist\<close>: endpoint 0 first, then for every service of the priority list the
  first endpoint connected to it; a service without an endpoint ends the list there.
\<close>

fun set_credit_dist_walk :: "(nat \<Rightarrow> htc_endpoint) \<Rightarrow> nat list \<Rightarrow> nat list" where
  "set_credit_dist_walk eps [] = []"
| "set_credit_dist_walk eps (s # ss) =
     (case find (\<lambda>e. svc_id (eps e) = s) [1..<ENDPOINT_MAX] of
        None \<Rightarrow> []
      | Some e \<Rightarrow> e # set_credit_dist_walk eps ss)"

definition ath6kl_htc_set_credit_dist ::
    "'d htc_target \<Rightarrow> ath6kl_htc_credit_info \<Rightarrow> nat list \<Rightarrow> 'd htc_target" where
  "ath6kl_htc_set_credit_dist t ci srvc_pri_order =
     t\<lparr>credit_info := ci,
       cred_dist_list := cred_dist_list t @ [0] @ set_credit_dist_walk (endpoint t) srvc_pri_order\<rparr>"

definition service_priority :: "nat list" where
  "service_priority = [WMI_CONTROL_SVC, WMI_DATA_VO_SVC, WMI_DATA_VI_SVC, WMI_DATA_BE_SVC, WMI_DATA_BK_SVC]"

definition ath6kl_htc_mbox_credit_setup :: "'d htc_target \<Rightarrow> int \<times> 'd htc_target" where
  "ath6kl_htc_mbox_credit_setup t =
     (0, ath6kl_htc_set_credit_dist t
           \<lparr>total_avail_credits = 0, cur_free_credits = 0, lowestpri_ep_dist = []\<rparr> service_priority)"

text \<open>\<open>htc_setup_tx_complete\<close>: a control message, sent synchronously.\<close>

definition ctrl_msg :: "htc_packet \<Rightarrow> u8 list \<Rightarrow> htc_packet" where
  "ctrl_msg p m = ath6kl_htc_tx_prep_pkt
     ((set_htc_pkt_info (put_msg p m) 0 (buf p) (length m) 0 HTC_SERVICE_TX_PACKET_TAG)\<lparr>completion := False\<rparr>) 0 0 0"

definition htc_setup_tx_complete :: "'d htc_env \<Rightarrow> 'd htc_target \<Rightarrow> int \<times> 'd htc_target" where
  "htc_setup_tx_complete env t =
     (case htc_get_control_buf t True of
        (None, t1) \<Rightarrow> (- ENOMEM, t1)
      | (Some p, t1) \<Rightarrow>
          let bndl = msg_per_bndl_max t1 > 0;
              m = (if htc_tgt_ver t1 \<ge> HTC_VERSION_2P1
                   then put_setup_comp_ext (if bndl then HTC_SETUP_COMP_FLG_RX_BNDL_EN else 0)
                          (if bndl then of_int (msg_per_bndl_max t1) else 0)
                   else put_setup_comp);
              (st, p', t2) = ath6kl_htc_tx_issue env t1 (ctrl_msg p m)
          in (st, htc_reclaim_txctrl_buf t2 p'))"

section \<open>Connecting a service\<close>

text \<open>
  The message exchange of \<open>ath6kl_htc_mbox_conn_service\<close>: status, response, endpoint and message
  size the target assigned, and the two control packets still held.
\<close>

definition conn_exchange ::
    "'d htc_env \<Rightarrow> 'd htc_target \<Rightarrow> htc_service_connect_req \<Rightarrow> htc_service_connect_resp \<Rightarrow>
     int \<times> htc_service_connect_resp \<times> nat \<times> nat \<times> htc_packet option \<times> htc_packet option \<times> 'd htc_target" where
  "conn_exchange env t req resp =
     (case htc_get_control_buf t True of
        (None, t1) \<Rightarrow> (- ENOMEM, resp, ENDPOINT_MAX, 0, None, None, t1)
      | (Some p, t1) \<Rightarrow>
          (case ath6kl_htc_tx_issue env t1 (ctrl_msg p (put_conn_msg (req_svc_id req) (req_conn_flags req))) of
             (st, tx, t2) \<Rightarrow>
               if st \<noteq> 0 then (st, resp, ENDPOINT_MAX, 0, Some tx, None, t2)
               else
                 (case htc_wait_for_ctrl_msg env t2 of
                    (None, t3) \<Rightarrow> (- ENOMEM, resp, ENDPOINT_MAX, 0, Some tx, None, t3)
                  | (Some rx, t3) \<Rightarrow>
                      if msg16 rx 0 \<noteq> HTC_MSG_CONN_SVC_RESP_ID \<or> act_len rx < length (put_conn_resp 0 0 0 0 0)
                      then (- ENOMEM, resp, ENDPOINT_MAX, 0, Some tx, Some rx, t3)
                      else
                        let resp1 = resp\<lparr>resp_code := msg8 rx 4\<rparr> in
                        if msg8 rx 4 \<noteq> HTC_SERVICE_SUCCESS
                        then (- ENOMEM, resp1, ENDPOINT_MAX, 0, Some tx, Some rx, t3)
                        else (0, resp1, unat (msg8 rx 5), msg16 rx 6, Some tx, Some rx, t3))))"

definition drop_threshold :: "nat \<Rightarrow> nat" where
  "drop_threshold svc =
     (if svc = WMI_DATA_BK_SVC then MAX_DEF_COOKIE_NUM div 3
      else if svc = WMI_DATA_BE_SVC then MAX_DEF_COOKIE_NUM div 4
      else if svc = WMI_DATA_VI_SVC then MAX_DEF_COOKIE_NUM div 6
      else MAX_HI_COOKIE_NUM)"

text \<open>
  The rest of \<open>ath6kl_htc_mbox_conn_service\<close>, from the check of the assigned endpoint on.  The
  endpoint is an unsigned byte here, so the test against \<open>ENDPOINT_UNUSED\<close> (-1) never succeeds.
\<close>

definition conn_assign ::
    "'d htc_target \<Rightarrow> htc_service_connect_req \<Rightarrow> htc_service_connect_resp \<Rightarrow> nat \<Rightarrow> nat \<Rightarrow>
     int \<times> htc_service_connect_resp \<times> 'd htc_target" where
  "conn_assign t req resp e max_msg_sz =
     (if e \<ge> ENDPOINT_MAX \<or> max_msg_sz = 0 then (- ENOMEM, resp, t)
      else
        let t1 = upd_ep t e (\<lambda>ep. ep\<lparr>eid := e\<rparr>) in
        if svc_id (endpoint t1 e) \<noteq> 0 then (- ENOMEM, resp, t1)
        else
          let resp1 = resp\<lparr>resp_endpoint := e, resp_len_max := max_msg_sz\<rparr>;
              t2 = upd_ep t1 e (\<lambda>ep. ep\<lparr>svc_id := req_svc_id req, max_txq_depth := req_max_txq_depth req,
                     len_max := max_msg_sz, ep_cb := req_ep_cb req,
                     tx_drop_packet_threshold := drop_threshold (req_svc_id req)\<rparr>);
              t3 = upd_cd t2 e (\<lambda>d. d\<lparr>svc_id_cd := req_svc_id req, endpoint_cd := e, cred_sz := int (tgt_cred_sz t2)\<rparr>)
          in if req_max_rxmsg_sz req \<noteq> 0 \<and> req_max_rxmsg_sz req > max_msg_sz then (- ENOMEM, resp1, t3)
             else
               let n = (if req_max_rxmsg_sz req \<noteq> 0 then req_max_rxmsg_sz req div tgt_cred_sz t3
                        else max_msg_sz div tgt_cred_sz t3);
                   t4 = upd_cd t3 e (\<lambda>d. d\<lparr>cred_per_msg := if n = 0 then 1 else int n\<rparr>)
               in (0, resp1, upd_ep t4 e (\<lambda>ep. ep\<lparr>conn_flags := req_flags req\<rparr>)))"

definition conn_release :: "'d htc_target \<Rightarrow> htc_packet option \<Rightarrow> htc_packet option \<Rightarrow> 'd htc_target" where
  "conn_release t tx rx =
     (let t1 = (case tx of None \<Rightarrow> t | Some p \<Rightarrow> htc_reclaim_txctrl_buf t p)
      in case rx of None \<Rightarrow> t1 | Some p \<Rightarrow> reclaim_rx_ctrl_buf t1 (htc_rxpkt_reset p))"

definition ath6kl_htc_mbox_conn_service ::
    "'d htc_env \<Rightarrow> 'd htc_target \<Rightarrow> htc_service_connect_req \<Rightarrow> htc_service_connect_resp \<Rightarrow>
     int \<times> htc_service_connect_resp \<times> 'd htc_target" where
  "ath6kl_htc_mbox_conn_service env t req resp =
     (if req_svc_id req = HTC_CTRL_RSVD_SVC then conn_assign t req resp 0 HTC_MAX_CTRL_MSG_LEN
      else
        (case conn_exchange env t req resp of
           (st, resp1, e, sz, tx, rx, t1) \<Rightarrow>
             if st \<noteq> 0 then (st, resp1, conn_release t1 tx rx)
             else (case conn_assign t1 req resp1 e sz of
                     (st2, resp2, t2) \<Rightarrow> (st2, resp2, conn_release t2 tx rx))))"

section \<open>Limits of bundling\<close>

definition htc_setup_msg_bndl :: "'d htc_env \<Rightarrow> 'd htc_target \<Rightarrow> 'd htc_target" where
  "htc_setup_msg_bndl env t =
     (let n = min HTC_HOST_MAX_MSG_PER_BUNDLE (msg_per_bndl_max t) in
      case hif_enable_scatter env (dev t) of
        (None, d) \<Rightarrow> t\<lparr>msg_per_bndl_max := 0, dev := d\<rparr>
      | (Some (entries, sz), d) \<Rightarrow>
          let tx_sz = min HIF_MBOX0_EXT_WIDTH sz;
              mask = (if tx_sz \<noteq> 0 then 2 ^ WMM_NUM_AC - 1 else tx_bndl_mask t)
          in t\<lparr>msg_per_bndl_max := min entries n, dev := d, max_scat_entries := entries, max_xfer_szper_scatreq := sz,
               max_rx_bndl_sz := sz, max_tx_bndl_sz := tx_sz,
               rx_bndl_enable := (sz \<noteq> 0 \<or> rx_bndl_enable t),
               tx_bndl_mask := (if tgt_cred_sz t mod block_sz t \<noteq> 0 then 0 else mask)\<rparr>)"

section \<open>Waiting for the target\<close>

definition no_callbacks :: htc_ep_callbacks where
  "no_callbacks = \<lparr>cb_rx_refill = False, cb_tx_full = False, cb_rx_allocthresh = False,
     rx_alloc_thresh = 0, rx_refill_thresh = 0\<rparr>"

definition ctrl_conn_req :: htc_service_connect_req where
  "ctrl_conn_req = \<lparr>req_svc_id = HTC_CTRL_RSVD_SVC, req_conn_flags = 0, req_ep_cb = no_callbacks,
     req_max_txq_depth = int NUM_CONTROL_BUFFERS, req_flags = 0, req_max_rxmsg_sz = 0\<rparr>"

definition zero_resp :: htc_service_connect_resp where
  "zero_resp = \<lparr>resp_endpoint = 0, resp_len_max = 0, resp_code = 0\<rparr>"

text \<open>\<open>usb\<close> is the test for a USB bus at the start of \<open>ath6kl_htc_mbox_wait_target\<close>.\<close>

definition ath6kl_htc_mbox_wait_target :: "bool \<Rightarrow> 'd htc_env \<Rightarrow> 'd htc_target \<Rightarrow> int \<times> 'd htc_target" where
  "ath6kl_htc_mbox_wait_target usb env t =
     (if usb then (- EOPNOTSUPP, t)
      else
        (case htc_wait_for_ctrl_msg env t of
           (None, t1) \<Rightarrow> (- ENOMEM, t1)
         | (Some p, t1) \<Rightarrow>
             let release = (\<lambda>t. reclaim_rx_ctrl_buf t (htc_rxpkt_reset p)) in
             if msg16 p 0 \<noteq> HTC_MSG_READY_ID \<or> act_len p < length (put_ready 0 0 0 0) then (- ENOMEM, release t1)
             else if msg16 p 2 = 0 \<or> msg16 p 4 = 0 then (- ENOMEM, release t1)
             else
               let t2 = t1\<lparr>tgt_creds := int (msg16 p 2), tgt_cred_sz := msg16 p 4\<rparr>;
                   ext = act_len p \<ge> length (put_ready 0 0 0 0) + 2;
                   t3 = t2\<lparr>htc_tgt_ver := if ext then unat (msg8 p 8) else HTC_VERSION_2P0,
                           msg_per_bndl_max := if ext then int (unat (msg8 p 9)) else 0\<rparr>;
                   t4 = (if msg_per_bndl_max t3 > 0 then htc_setup_msg_bndl env t3 else t3);
                   (st, resp, t5) = ath6kl_htc_mbox_conn_service env t4 ctrl_conn_req zero_resp;
                   t6 = (if st \<noteq> 0 then t5\<lparr>dev := hif_cleanup_scatter env (dev t5)\<rparr> else t5)
               in (st, release t6)))"

section \<open>Reset, stop and start\<close>

definition zero_cd :: htc_endpoint_credit_dist where
  "zero_cd = \<lparr>svc_id_cd = 0, endpoint_cd = 0, dist_flags = 0, cred_norm = 0, cred_min = 0, cred_assngd = 0,
     credits = 0, cred_to_dist = 0, seek_cred = 0, cred_sz = 0, cred_per_msg = 0, txq_depth = 0, cred_alloc_max = 0\<rparr>"

definition reset_one_ep :: "'d htc_target \<Rightarrow> nat \<Rightarrow> 'd htc_target" where
  "reset_one_ep t e =
     (let t1 = upd_cd t e (\<lambda>_. zero_cd);
          t2 = upd_ep t1 e (\<lambda>ep. ep\<lparr>svc_id := 0, len_max := 0, max_txq_depth := 0, ep_st := zero_stats,
                 rx_bufq := [], txq := []\<rparr>)
      in if timer_init (endpoint t2 e)
         then emit (upd_ep t2 e (\<lambda>ep. ep\<lparr>call_by_timer := False, timer_init := False\<rparr>)) (TimerDel e)
         else t2)"

definition reset_ep_state :: "'d htc_target \<Rightarrow> 'd htc_target" where
  "reset_ep_state t = (foldl reset_one_ep t [0..<ENDPOINT_MAX])\<lparr>cred_dist_list := []\<rparr>"

text \<open>A packet and its buffer, fresh from \<open>kzalloc\<close>.\<close>

definition zero_pkt :: "nat \<Rightarrow> int \<Rightarrow> htc_packet" where
  "zero_pkt i b = \<lparr>pkt_id = i, pkt_cntxt = 0, pkt_mem = (\<lambda>_. 0), buf_start = b, buf = 0, buf_len = 0, act_len = 0,
     endpoint_pkt = 0, status = 0, tag = 0, cred_used = 0, tx_flags = 0, seqno_tx = 0, exp_hdr = LkAhd 0 0 0 0,
     rx_flags = 0, indicat_flags = 0, completion = False, connid = 0, recycle_count = 0, pkt_vif = None\<rparr>"

fun reset_alloc_loop :: "(nat \<Rightarrow> (nat \<times> int) option) \<Rightarrow> nat \<Rightarrow> 'd htc_target \<Rightarrow> nat list \<Rightarrow> int \<times> 'd htc_target" where
  "reset_alloc_loop alloc sz t [] = (0, t)"
| "reset_alloc_loop alloc sz t (i # js) =
     (case alloc i of
        None \<Rightarrow> (- ENOMEM, t)
      | Some (a, b) \<Rightarrow>
          let p = (zero_pkt a b)\<lparr>buf_len := sz\<rparr> in
          reset_alloc_loop alloc sz
            (if i < NUM_CONTROL_RX_BUFFERS
             then t\<lparr>free_ctrl_rxbuf := free_ctrl_rxbuf t @ [p\<lparr>act_len := 0, buf := buf_start p, endpoint_pkt := 0\<rparr>]\<rparr>
             else t\<lparr>free_ctrl_txbuf := free_ctrl_txbuf t @ [p]\<rparr>) js)"

text \<open>\<open>bs\<close> is the mailbox block size the bus driver announces (\<open>ar->mbox_info.block_size\<close>).\<close>

definition ath6kl_htc_reset ::
    "(nat \<Rightarrow> (nat \<times> int) option) \<Rightarrow> nat \<Rightarrow> 'd htc_target \<Rightarrow> int \<times> 'd htc_target" where
  "ath6kl_htc_reset alloc bs t =
     reset_alloc_loop alloc
       (if bs > HTC_MAX_CTRL_MSG_LEN then bs + HTC_HDR_LENGTH else HTC_MAX_CTRL_MSG_LEN + HTC_HDR_LENGTH)
       (reset_ep_state t) [0..<NUM_CONTROL_BUFFERS]"

definition ath6kl_htc_mbox_stop ::
    "(nat \<Rightarrow> (nat \<times> int) option) \<Rightarrow> nat \<Rightarrow> 'd htc_env \<Rightarrow> 'd htc_target \<Rightarrow> 'd htc_target" where
  "ath6kl_htc_mbox_stop alloc bs env t =
     (let t1 = t\<lparr>htc_flags := set_flag (htc_flags t) HTC_OP_STATE_STOPPING\<rparr>;
          t2 = t1\<lparr>dev := hif_mask_intrs env (dev t1)\<rparr>
      in snd (ath6kl_htc_reset alloc bs (ath6kl_htc_mbox_flush_rx_buf (ath6kl_htc_flush_txep_all t2))))"

text \<open>
  The loop of \<open>ath6kl_htc_mbox_start\<close> that pushes every control receive buffer into endpoint 0.  While
  the layer is stopping, a pushed buffer comes straight back, and the loop would not end.
\<close>

partial_function (option) start_push_loop :: "'d htc_target \<Rightarrow> (int \<times> 'd htc_target) option" where
  "start_push_loop t =
     (case htc_get_control_buf t False of
        (None, t1) \<Rightarrow> Some (0, t1)
      | (Some p, t1) \<Rightarrow>
          (case htc_add_rxbuf t1 p of (st, t2) \<Rightarrow>
             if st \<noteq> 0 then Some (st, t2) else start_push_loop t2))"

definition credit_init_t :: "'d htc_target \<Rightarrow> 'd htc_target" where
  "credit_init_t t =
     (case ath6kl_credit_init (credit_info t) (cred_dist t) (cred_dist_list t) (tgt_creds t) of
        (ci, ds) \<Rightarrow> t\<lparr>credit_info := ci, cred_dist := ds\<rparr>)"

definition ath6kl_htc_mbox_start ::
    "(nat \<Rightarrow> (nat \<times> int) option) \<Rightarrow> nat \<Rightarrow> 'd htc_env \<Rightarrow> 'd htc_target \<Rightarrow> (int \<times> 'd htc_target) option" where
  "ath6kl_htc_mbox_start alloc bs env t =
     (let t1 = t\<lparr>dev := snd (hif_disable_intrs env (dev t)), htc_flags := 0, rx_st_flags := 0\<rparr> in
      case start_push_loop t1 of
        None \<Rightarrow> None
      | Some (st, t2) \<Rightarrow>
          if st \<noteq> 0 then Some (st, t2)
          else
            (case htc_setup_tx_complete env (credit_init_t t2) of (st3, t3) \<Rightarrow>
               if st3 \<noteq> 0 then Some (st3, t3)
               else
                 (case hif_unmask_intrs env (dev t3) of (st4, d) \<Rightarrow>
                    let t4 = t3\<lparr>dev := d\<rparr> in
                    Some (st4, if st4 \<noteq> 0 then ath6kl_htc_mbox_stop alloc bs env t4 else t4))))"

section \<open>Creation and clean-up\<close>

definition ath6kl_hif_setup :: "bool \<Rightarrow> u32 \<Rightarrow> 'd htc_env \<Rightarrow> 'd htc_target \<Rightarrow> int \<times> 'd htc_target" where
  "ath6kl_hif_setup usb block_size env t =
     (let t1 = t\<lparr>block_sz := unat block_size\<rparr> in
      if block_size AND (block_size - 1) \<noteq> 0 then (- EINVAL, t1)
      else
        let t2 = t1\<lparr>block_mask := unat (block_size - 1)\<rparr> in
        if usb then (0, t2)
        else (case hif_disable_intrs env (dev t2) of (st, d) \<Rightarrow> (st, t2\<lparr>dev := d\<rparr>)))"

definition zero_endpoint :: htc_endpoint where
  "zero_endpoint = \<lparr>eid = 0, svc_id = 0, txq = [], rx_bufq = [], ep_cb = no_callbacks, max_txq_depth = 0,
     len_max = 0, tx_proc_cnt = 0, seqno = 0, conn_flags = 0, ep_st = zero_stats, tx_drop_packet_threshold = 0,
     call_by_timer = False, timer_init = False\<rparr>"

definition zero_target :: "'d \<Rightarrow> 'd htc_target" where
  "zero_target d = \<lparr>endpoint = (\<lambda>_. zero_endpoint), cred_dist = (\<lambda>_. zero_cd), cred_dist_list = [],
     free_ctrl_txbuf = [], free_ctrl_rxbuf = [],
     credit_info = \<lparr>total_avail_credits = 0, cur_free_credits = 0, lowestpri_ep_dist = []\<rparr>,
     tgt_creds = 0, tgt_cred_sz = 0, htc_flags = 0, rx_st_flags = 0, ep_waiting = 0, htc_tgt_ver = 0,
     msg_per_bndl_max = 0, tx_bndl_mask = 0, rx_bndl_enable = False, max_rx_bndl_sz = 0, max_tx_bndl_sz = 0,
     block_sz = 0, block_mask = 0, max_scat_entries = 0, max_xfer_szper_scatreq = 0, chk_irq_status_cnt = 0,
     ac_tx_count = (\<lambda>_. 0), dev = d, events = []\<rparr>"

text \<open>What \<open>ath6kl_htc_mbox_cleanup\<close> leaves: the device state and the packets freed.\<close>

definition ath6kl_htc_mbox_cleanup :: "bool \<Rightarrow> 'd htc_env \<Rightarrow> 'd htc_target \<Rightarrow> 'd \<times> htc_packet list" where
  "ath6kl_htc_mbox_cleanup usb env t =
     (if usb then dev t else hif_cleanup_scatter env (dev t), free_ctrl_txbuf t @ free_ctrl_rxbuf t)"

text \<open>\<open>ath6kl_htc_mbox_create\<close>, once the two structures are allocated.\<close>

definition ath6kl_htc_mbox_create ::
    "bool \<Rightarrow> u32 \<Rightarrow> (nat \<Rightarrow> (nat \<times> int) option) \<Rightarrow> 'd htc_env \<Rightarrow> 'd \<Rightarrow> ('d \<times> htc_packet list) + 'd htc_target" where
  "ath6kl_htc_mbox_create usb block_size alloc env d =
     (case ath6kl_hif_setup usb block_size env ((zero_target d)\<lparr>ep_waiting := ENDPOINT_MAX\<rparr>) of (st, t1) \<Rightarrow>
        if st \<noteq> 0 then Inl (ath6kl_htc_mbox_cleanup usb env t1)
        else
          (case ath6kl_htc_reset alloc (unat block_size) t1 of (st2, t2) \<Rightarrow>
             if st2 \<noteq> 0 then Inl (ath6kl_htc_mbox_cleanup usb env t2) else Inr t2))"

section \<open>How endpoints are wired\<close>

text \<open>
  The fields of a credit structure that a connection sets.  No credit operation, transmission or
  credit report changes them.
\<close>

definition wiring :: "dists \<Rightarrow> nat \<Rightarrow> nat \<times> nat \<times> int \<times> int" where
  "wiring ds e = (svc_id_cd (ds e), endpoint_cd (ds e), cred_sz (ds e), cred_per_msg (ds e))"

lemma wiring_upd:
  assumes "\<And>d. svc_id_cd (f d) = svc_id_cd d \<and> endpoint_cd (f d) = endpoint_cd d \<and> cred_sz (f d) = cred_sz d
    \<and> cred_per_msg (f d) = cred_per_msg d"
  shows "wiring (ds(e := f (ds e))) = wiring ds"
  using assms by (auto simp: wiring_def fun_eq_iff)

lemma wiring_fields [simp]:
  "wiring (ds(e := (ds e)\<lparr>credits := a\<rparr>)) = wiring ds" "wiring (ds(e := (ds e)\<lparr>cred_assngd := a\<rparr>)) = wiring ds"
  "wiring (ds(e := (ds e)\<lparr>seek_cred := a\<rparr>)) = wiring ds" "wiring (ds(e := (ds e)\<lparr>dist_flags := w\<rparr>)) = wiring ds"
  "wiring (ds(e := (ds e)\<lparr>credits := a, cred_to_dist := b\<rparr>)) = wiring ds"
  "wiring (ds(e := (ds e)\<lparr>credits := a, cred_assngd := b\<rparr>)) = wiring ds"
  "wiring (ds(e := (ds e)\<lparr>cred_assngd := b, credits := a\<rparr>)) = wiring ds"
  "wiring (ds(e := (ds e)\<lparr>credits := a, seek_cred := b\<rparr>)) = wiring ds"
  by (rule wiring_upd; simp)+

lemma reduce_wiring: "ath6kl_credit_reduce ci ds e n = (ci', ds') \<Longrightarrow> wiring ds' = wiring ds"
  by (auto simp: ath6kl_credit_reduce_def Let_def split: if_splits)

lemma deposit_wiring: "ath6kl_credit_deposit ci ds e n = (ci', ds') \<Longrightarrow> wiring ds' = wiring ds"
  by (auto simp: ath6kl_credit_deposit_def Let_def)

lemma update_one_wiring: "credit_update_one ci ds e = (ci', ds') \<Longrightarrow> wiring ds' = wiring ds"
  by (auto simp: credit_update_one_def Let_def dest!: reduce_wiring split: if_splits prod.splits)

lemma update_wiring: "ath6kl_credit_update ci ds es = (ci', ds') \<Longrightarrow> wiring ds' = wiring ds"
proof (induction es arbitrary: ci ds)
  case (Cons e es)
  obtain c1 d1 where "credit_update_one ci ds e = (c1, d1)" by fastforce
  then show ?case using Cons update_one_wiring by (metis (no_types, lifting) ath6kl_credit_update.simps(2) case_prod_conv)
qed simp

lemma redistribute_one_wiring: "credit_redistribute_one ci ds e = (ci', ds') \<Longrightarrow> wiring ds' = wiring ds"
  by (auto simp: credit_redistribute_one_def Let_def dest!: reduce_wiring split: if_splits)

lemma redistribute_wiring: "ath6kl_credit_redistribute ci ds es = (ci', ds') \<Longrightarrow> wiring ds' = wiring ds"
proof (induction es arbitrary: ci ds)
  case (Cons e es)
  obtain c1 d1 where "credit_redistribute_one ci ds e = (c1, d1)" by fastforce
  then show ?case using Cons redistribute_one_wiring by (metis (no_types, lifting) ath6kl_credit_redistribute.simps(2) case_prod_conv)
qed simp

lemma seek_walk_wiring: "credit_seek_walk ep ci ds cs = (ci', ds') \<Longrightarrow> wiring ds' = wiring ds"
proof (induction cs arbitrary: ci ds)
  case (Cons c cs)
  obtain c1 d1 where r: "ath6kl_credit_reduce ci ds c (cred_assngd (ds c) - (seek_cred (ds ep) - cur_free_credits ci)) = (c1, d1)"
    by fastforce
  show ?case using Cons.prems Cons.IH [of c1 d1] Cons.IH [of ci ds] reduce_wiring [OF r]
    by (auto simp: Let_def r split: if_splits)
qed simp

lemma seek_out_wiring: "credit_seek_out ci ds ep n = (ci', ds') \<Longrightarrow> wiring ds' = wiring ds"
  by (auto simp: credit_seek_out_def Let_def dest!: deposit_wiring split: if_splits prod.splits)

lemma seek_wiring: "ath6kl_credit_seek ci ds ep = (ci', ds') \<Longrightarrow> wiring ds' = wiring ds"
  by (auto simp: ath6kl_credit_seek_def Let_def dest!: seek_walk_wiring seek_out_wiring split: if_splits prod.splits)

lemma wiring_t [simp]:
  "wiring (cred_dist (distribute_t t r)) = wiring (cred_dist t)" "wiring (cred_dist (seek_t t e)) = wiring (cred_dist t)"
proof -
  show "wiring (cred_dist (distribute_t t r)) = wiring (cred_dist t)"
    by (cases r) (auto simp: distribute_t_def dest: update_wiring redistribute_wiring split: prod.splits)
  show "wiring (cred_dist (seek_t t e)) = wiring (cred_dist t)"
    by (auto simp: seek_t_def dest: seek_wiring split: prod.splits)
qed

abbreviation wired :: "'d htc_target \<Rightarrow> nat \<Rightarrow> nat \<times> nat \<times> int \<times> int" where
  "wired t \<equiv> wiring (cred_dist t)"

lemma pre_check_wired: "htc_pre_check_credits t e pe len = (st, req, t') \<Longrightarrow> wired t' = wired t"
  by (auto simp: htc_pre_check_credits_def Let_def split: if_splits)

lemma check_credits_wired: "htc_check_credits t e fl pe len = (st, req, fl', t') \<Longrightarrow> wired t' = wired t"
  by (auto simp: htc_check_credits_def Let_def dest!: pre_check_wired split: if_splits prod.splits)

lemma tx_pkts_get_loop_wired: "tx_pkts_get_loop t e lim used q = (q', t') \<Longrightarrow> wired t' = wired t"
proof (induction q arbitrary: t used q' t')
  case (Cons p ps)
  show ?case
  proof (cases "case lim of None \<Rightarrow> False | Some (tot, resv) \<Rightarrow> tot - used = resv")
    case True
    then show ?thesis using Cons.prems by simp
  next
    case False
    note eq = Cons.prems [unfolded tx_pkts_get_loop.simps if_not_P [OF False]]
    obtain st req fl t1 where c: "htc_check_credits t e 0 (endpoint_pkt p)
        (CALC_TXRX_PADDED_LEN t (act_len p + HTC_HDR_LENGTH)) = (st, req, fl, t1)" by (metis prod_cases4)
    show ?thesis using eq check_credits_wired [OF c] by (auto simp: c Let_def dest!: Cons.IH split: if_splits prod.splits)
  qed
qed simp

lemma tx_pkts_get_wired: "ath6kl_htc_tx_pkts_get env t e = (q, t') \<Longrightarrow> wired t' = wired t"
  by (auto simp: ath6kl_htc_tx_pkts_get_def Let_def dest!: tx_pkts_get_loop_wired dest: pre_check_wired
      split: if_splits list.splits prod.splits)

lemma tx_from_queue_loop_wired: "wired (tx_from_queue_loop env t e ac) = wired t"
proof (induction env t e ac rule: tx_from_queue_loop.induct)
  case (1 env t e ac)
  obtain q t1 where g: "ath6kl_htc_tx_pkts_get env t e = (q, t1)" by fastforce
  obtain b n t2 where s: "tx_send_loop env t1 e ac 0 0 q = (b, n, t2)" by (metis prod_cases3)
  have w: "wired t1 = wired t" "wired t2 = wired t1"
    using tx_pkts_get_wired [OF g] tx_send_loop_sends [OF s] by (simp_all add: sends_def)
  have r: "wired (resume_bundling (upd_st t2 e f) ac b) = wired t2" for f by (simp add: upd_st_def)
  show ?case
    by (subst tx_from_queue_loop.simps) (use 1 g s w r in \<open>auto simp: Let_def\<close>)
qed

lemma from_queue_wired [simp]: "wired (ath6kl_htc_tx_from_queue env t e) = wired t"
  by (simp add: ath6kl_htc_tx_from_queue_def Let_def tx_from_queue_loop_wired)

lemma chk_walk_wired [simp]: "wired (chk_ep_txq_walk env t es) = wired t"
  by (induction es arbitrary: t) simp_all

lemma cred_rpt_one_wired [simp]: "wired (cred_rpt_one t fe e c) = wired t"
  by (auto simp: cred_rpt_one_def upd_st_def Let_def intro!: wiring_upd)

lemma cred_rpt_loop_wired: "cred_rpt_loop t fe rs = (ok, d, n, t') \<Longrightarrow> wired t' = wired t"
  by (induction t fe rs arbitrary: ok d n t' rule: cred_rpt_loop.induct) (auto simp: Let_def split: if_splits prod.splits)

lemma proc_cred_rpt_wired [simp]: "wired (htc_proc_cred_rpt env t rs fe) = wired t"
  by (auto simp: htc_proc_cred_rpt_def htc_chk_ep_txq_def Let_def dest!: cred_rpt_loop_wired split: prod.splits)

lemma proc_trailer_wired: "htc_proc_trailer env t bs use lks e = (st, lks', t') \<Longrightarrow> wired t' = wired t"
proof (induction env t bs use lks e arbitrary: st lks' t' rule: htc_proc_trailer.induct)
  case (3 env t rid rlen bs use lks e)
  obtain st1 lks1 t1 where p: "htc_parse_trailer env t rid (take (unat rlen) bs) use lks e = (st1, lks1, t1)"
    by (metis prod_cases3)
  have "wired t1 = wired t" using p by (auto simp: htc_parse_trailer_def split: if_splits)
  then show ?case using 3 p by (auto split: if_splits)
qed simp_all

lemma process_hdr_wired: "ath6kl_htc_rx_process_hdr env t p look = (st, p', lks, t') \<Longrightarrow> wired t' = wired t"
  by (auto simp: ath6kl_htc_rx_process_hdr_def Let_def dest: proc_trailer_wired split: if_splits prod.splits)

section \<open>The control exchange\<close>

text \<open>What exchanging control messages leaves alone: everything but the control buffers.\<close>

definition ctrl_frame :: "'d htc_target \<Rightarrow> 'd htc_target \<Rightarrow> bool" where
  "ctrl_frame t t' \<longleftrightarrow> wired t' = wired t
     \<and> rx_frame (t\<lparr>free_ctrl_txbuf := free_ctrl_txbuf t', free_ctrl_rxbuf := free_ctrl_rxbuf t'\<rparr>) t'"

lemma ctrl_frameI:
  assumes "wired t' = wired t" "rx_frame t t'"
  shows "ctrl_frame t t'"
  using assms by (simp add: ctrl_frame_def rx_frame_def tx_cfg_def)

lemma ctrl_frame_silent:
  assumes "endpoint t' = endpoint t" "cred_dist t' = cred_dist t" "events t' = events t"
    "tx_cfg (t'\<lparr>free_ctrl_txbuf := [], free_ctrl_rxbuf := []\<rparr>) = tx_cfg (t\<lparr>free_ctrl_txbuf := [], free_ctrl_rxbuf := []\<rparr>)"
  shows "ctrl_frame t t'"
  unfolding ctrl_frame_def using assms by (intro conjI rx_frame_silent) (simp_all add: tx_cfg_def)

lemma ctrl_frame_refl [simp]: "ctrl_frame t t"
  by (rule ctrl_frame_silent) simp_all

lemma ctrl_frame_trans:
  assumes "ctrl_frame t t1" "ctrl_frame t1 t2"
  shows "ctrl_frame t t2"
proof -
  let ?f = "\<lambda>t. t\<lparr>free_ctrl_txbuf := free_ctrl_txbuf t2, free_ctrl_rxbuf := free_ctrl_rxbuf t2\<rparr>"
  have "rx_frame (?f t) (?f t1)" using assms(1) by (simp add: ctrl_frame_def rx_frame_def tx_cfg_def)
  moreover have "rx_frame (?f t1) t2" using assms(2) by (simp add: ctrl_frame_def)
  ultimately have "rx_frame (?f t) t2" by (rule rx_frame_trans)
  then show ?thesis using assms by (simp add: ctrl_frame_def)
qed

lemma ctrl_frameD:
  assumes "ctrl_frame t t'"
  shows "tgt_cred_sz t' = tgt_cred_sz t" "svc_id (endpoint t' x) = svc_id (endpoint t x)"
    "eid (endpoint t' x) = eid (endpoint t x)" "ep_cb (endpoint t' x) = ep_cb (endpoint t x)"
    "rx_bufq (endpoint t' x) = rx_bufq (endpoint t x)"
    "cred_dist_list t' = cred_dist_list t" "wired t' = wired t" "msg_per_bndl_max t' = msg_per_bndl_max t"
    "block_mask t' = block_mask t" "max_tx_bndl_sz t' = max_tx_bndl_sz t"
  using assms by (simp_all add: ctrl_frame_def rx_frame_def tx_cfg_def ep_rx_def)

definition held :: "htc_packet option \<Rightarrow> nat multiset" where
  "held r = (case r of None \<Rightarrow> {#} | Some p \<Rightarrow> {#pkt_id p#})"

lemma held_simps [simp]: "held None = {#}" "held (Some p) = {#pkt_id p#}"
  by (simp_all add: held_def)

lemma rx_packet_frame:
  assumes "ath6kl_htc_rx_packet env t p n = (st, p', t')"
  shows "ctrl_frame t t'" "pkt_id p' = pkt_id p" "free_ctrl_rxbuf t' = free_ctrl_rxbuf t"
    "free_ctrl_txbuf t' = free_ctrl_txbuf t"
  using assms by (auto simp: ath6kl_htc_rx_packet_def Let_def tx_cfg_def intro!: ctrl_frame_silent split: if_splits prod.splits)

lemma rxpkt_reset_pids [simp]: "pids [htc_rxpkt_reset p] = {#pkt_id p#}"
  by simp

lemma wait_ctrl_frame:
  assumes "htc_wait_for_ctrl_msg env t = (r, t')"
  shows "ctrl_frame t t'" "free_ctrl_txbuf t' = free_ctrl_txbuf t"
    "pids (free_ctrl_rxbuf t') + held r = pids (free_ctrl_rxbuf t)"
proof -
  obtain lk d where po: "hif_poll_mboxmsg_rx env (dev t) = (lk, d)" by fastforce
  have s0: "ctrl_frame t (t\<lparr>dev := d\<rparr>)" "ctrl_frame t (t\<lparr>dev := d, free_ctrl_rxbuf := ps\<rparr>)" for ps
    by (rule ctrl_frame_silent; simp add: tx_cfg_def)+
  have rc: "ctrl_frame a (reclaim_rx_ctrl_buf a p)" for a :: "'d htc_target" and p
    by (rule ctrl_frame_silent) (simp_all add: tx_cfg_def reclaim_rx_ctrl_buf_def)
  have "ctrl_frame t t' \<and> free_ctrl_txbuf t' = free_ctrl_txbuf t \<and> pids (free_ctrl_rxbuf t') + held r = pids (free_ctrl_rxbuf t)"
  proof (cases "lk = None \<or> lk_eid (the lk) \<noteq> 0 \<or> free_ctrl_rxbuf t = []")
    case True
    then show ?thesis using assms s0
      by (auto simp: htc_wait_for_ctrl_msg_def po htc_get_control_buf_def Let_def split: option.splits if_splits)
  next
    case False
    then obtain l p ps where l: "lk = Some l" "lk_eid l = 0" "free_ctrl_rxbuf t = p # ps" by (cases "free_ctrl_rxbuf t") auto
    let ?t1 = "t\<lparr>dev := d, free_ctrl_rxbuf := ps\<rparr>"
    let ?p1 = "p\<lparr>rx_flags := 0, exp_hdr := l, act_len := lk_payld_len l + HTC_HDR_LENGTH\<rparr>"
    obtain st p2 t2 where r2: "ath6kl_htc_rx_packet env ?t1 (?p1\<lparr>completion := False\<rparr>) (act_len ?p1) = (st, p2, t2)"
      by (metis prod_cases3)
    obtain st3 p3 lks t3 where r3: "ath6kl_htc_rx_process_hdr env t2 p2 False = (st3, p3, lks, t3)" by (metis prod_cases4)
    note f2 = rx_packet_frame [OF r2] and f3 = process_hdr_frame [OF r3]
    have c3: "ctrl_frame t2 t3" using ctrl_frameI process_hdr_wired [OF r3] f3(1) by blast
    have l3: "free_ctrl_rxbuf t3 = ps" "free_ctrl_txbuf t3 = free_ctrl_txbuf t"
      using f2(3,4) f3(1) by (simp_all add: rx_frame_def tx_cfg_def)
    note c = ctrl_frame_trans [OF s0(2) f2(1)] ctrl_frame_trans [OF ctrl_frame_trans [OF s0(2) f2(1)] c3]
    have eq: "(r, t') = (if buf_len p < act_len ?p1 then (None, reclaim_rx_ctrl_buf ?t1 (htc_rxpkt_reset ?p1))
        else if st \<noteq> 0 then (None, reclaim_rx_ctrl_buf t2 (htc_rxpkt_reset p2))
        else if st3 \<noteq> 0 then (None, reclaim_rx_ctrl_buf t3 (htc_rxpkt_reset (p3\<lparr>status := st3\<rparr>)))
        else (Some (p3\<lparr>status := st3\<rparr>), t3))"
      using assms r3 by (simp add: htc_wait_for_ctrl_msg_def po l htc_get_control_buf_def Let_def r2 r2 [simplified] split: if_split_asm)
    have rel: "free_ctrl_txbuf (reclaim_rx_ctrl_buf a q) = free_ctrl_txbuf a"
      "pids (free_ctrl_rxbuf (reclaim_rx_ctrl_buf a (htc_rxpkt_reset q))) = pids (free_ctrl_rxbuf a) + {#pkt_id q#}"
      for a :: "'d htc_target" and q
      by (simp_all add: reclaim_rx_ctrl_buf_def)
    note cs = ctrl_frame_trans [OF s0(2) rc] ctrl_frame_trans [OF c(1) rc] ctrl_frame_trans [OF c(2) rc]
    show ?thesis using eq cs c f2(2-4) f3(2) l3 l(3) by (simp add: rel split: if_splits)
  qed
  then show "ctrl_frame t t'" "free_ctrl_txbuf t' = free_ctrl_txbuf t"
    "pids (free_ctrl_rxbuf t') + held r = pids (free_ctrl_rxbuf t)" by blast+
qed

lemma ctrl_msg_id [simp]: "pkt_id (ctrl_msg p m) = pkt_id p"
  by (simp add: ctrl_msg_def ath6kl_htc_tx_prep_pkt_def Let_def set_htc_pkt_info_def put_msg_def)

lemma tx_issue_frame:
  assumes "ath6kl_htc_tx_issue env t p = (st, p', t')"
  shows "ctrl_frame t t'" "pkt_id p' = pkt_id p" "free_ctrl_rxbuf t' = free_ctrl_rxbuf t"
    "free_ctrl_txbuf t' = free_ctrl_txbuf t"
proof -
  note e = tx_issue_event [OF assms]
  have "rx_frame t t'" using e unfolding rx_frame_def by force
  then show "ctrl_frame t t'" using e(2) by (intro ctrl_frameI) simp_all
  show "free_ctrl_rxbuf t' = free_ctrl_rxbuf t" "free_ctrl_txbuf t' = free_ctrl_txbuf t"
    using tx_cfg_eqD [OF e(4)] by simp_all
  show "pkt_id p' = pkt_id p"
    using assms by (auto simp: ath6kl_htc_tx_issue_def Let_def split: if_splits prod.splits)
qed

lemma exchange_frame:
  assumes "conn_exchange env t req resp = (st, resp', e, sz, tx, rx, t')"
  shows "ctrl_frame t t'" "pids (free_ctrl_txbuf t') + held tx = pids (free_ctrl_txbuf t)"
    "pids (free_ctrl_rxbuf t') + held rx = pids (free_ctrl_rxbuf t)"
proof -
  have "ctrl_frame t t' \<and> pids (free_ctrl_txbuf t') + held tx = pids (free_ctrl_txbuf t)
    \<and> pids (free_ctrl_rxbuf t') + held rx = pids (free_ctrl_rxbuf t)"
  proof (cases "free_ctrl_txbuf t")
    case Nil
    then show ?thesis using assms by (simp add: conn_exchange_def htc_get_control_buf_def)
  next
    case (Cons p ps)
    let ?t1 = "t\<lparr>free_ctrl_txbuf := ps\<rparr>" and ?p = "p\<lparr>buf := buf_start p + int HTC_HDR_LENGTH\<rparr>"
    obtain st1 tx1 t2 where i: "ath6kl_htc_tx_issue env ?t1
        (ctrl_msg ?p (put_conn_msg (req_svc_id req) (req_conn_flags req))) = (st1, tx1, t2)" by (metis prod_cases3)
    obtain r t3 where w: "htc_wait_for_ctrl_msg env t2 = (r, t3)" by fastforce
    note fi = tx_issue_frame [OF i] and fw = wait_ctrl_frame [OF w]
    have c0: "ctrl_frame t ?t1" by (rule ctrl_frame_silent) (simp_all add: tx_cfg_def)
    note c2 = ctrl_frame_trans [OF c0 fi(1)]
    note c3 = ctrl_frame_trans [OF c2 fw(1)]
    have l2: "free_ctrl_txbuf t2 = ps" "free_ctrl_rxbuf t2 = free_ctrl_rxbuf t" "pkt_id tx1 = pkt_id p"
      using fi by simp_all
    show ?thesis
    proof (cases "st1 = 0")
      case False
      then show ?thesis using assms c2 l2
        by (auto simp: conn_exchange_def htc_get_control_buf_def Cons i)
    next
      case True
      then have eq: "(case r of None \<Rightarrow> (- ENOMEM, resp, ENDPOINT_MAX, 0, Some tx1, None, t3)
         | Some rx \<Rightarrow>
             if msg16 rx 0 \<noteq> HTC_MSG_CONN_SVC_RESP_ID \<or> act_len rx < length (put_conn_resp 0 0 0 0 0)
             then (- ENOMEM, resp, ENDPOINT_MAX, 0, Some tx1, Some rx, t3)
             else let resp1 = resp\<lparr>resp_code := msg8 rx 4\<rparr>
                  in if msg8 rx 4 \<noteq> HTC_SERVICE_SUCCESS
                     then (- ENOMEM, resp1, ENDPOINT_MAX, 0, Some tx1, Some rx, t3)
                     else (0, resp1, unat (msg8 rx 5), msg16 rx 6, Some tx1, Some rx, t3))
          = (st, resp', e, sz, tx, rx, t')"
        using assms unfolding conn_exchange_def htc_get_control_buf_def Cons by (simp add: i w)
      have "t' = t3" "tx = Some tx1" "rx = r" using eq by (auto simp: Let_def split: option.splits if_splits)
      then show ?thesis using c3 fw(2,3) l2 by (simp add: Cons)
    qed
  qed
  then show "ctrl_frame t t'" "pids (free_ctrl_txbuf t') + held tx = pids (free_ctrl_txbuf t)"
    "pids (free_ctrl_rxbuf t') + held rx = pids (free_ctrl_rxbuf t)" by blast+
qed

lemma release_frame:
  "pids (free_ctrl_txbuf (conn_release t tx rx)) = pids (free_ctrl_txbuf t) + held tx"
  "pids (free_ctrl_rxbuf (conn_release t tx rx)) = pids (free_ctrl_rxbuf t) + held rx"
  "endpoint (conn_release t tx rx) = endpoint t" "cred_dist (conn_release t tx rx) = cred_dist t"
  "tgt_cred_sz (conn_release t tx rx) = tgt_cred_sz t"
  by (simp_all add: conn_release_def htc_reclaim_txctrl_buf_def reclaim_rx_ctrl_buf_def held_def split: option.split)

lemma upd_free_lists [simp]:
  "free_ctrl_txbuf (upd_ep t e f) = free_ctrl_txbuf t" "free_ctrl_txbuf (upd_cd t e g) = free_ctrl_txbuf t"
  "free_ctrl_rxbuf (upd_cd t e g) = free_ctrl_rxbuf t"
  by (simp_all add: upd_ep_def upd_cd_def)

lemma assign_ok:
  assumes "conn_assign t req resp e sz = (st, resp', t')"
  shows "st = 0 \<longleftrightarrow> e < ENDPOINT_MAX \<and> sz \<noteq> 0 \<and> svc_id (endpoint t e) = 0 \<and> req_max_rxmsg_sz req \<le> sz"
    "free_ctrl_txbuf t' = free_ctrl_txbuf t" "free_ctrl_rxbuf t' = free_ctrl_rxbuf t" "tgt_cred_sz t' = tgt_cred_sz t"
    "\<And>x. x \<noteq> e \<Longrightarrow> endpoint t' x = endpoint t x \<and> cred_dist t' x = cred_dist t x"
    "svc_id (endpoint t e) \<noteq> 0 \<Longrightarrow> svc_id (endpoint t' e) = svc_id (endpoint t e)
       \<and> ep_cb (endpoint t' e) = ep_cb (endpoint t e) \<and> cred_dist t' = cred_dist t"
    "st \<noteq> 0 \<Longrightarrow> svc_id (endpoint t' e) = svc_id (endpoint t e)
       \<or> req_max_rxmsg_sz req > sz \<and> resp_len_max resp' = sz"
  using assms by (auto simp: conn_assign_def Let_def split: if_splits)

lemma assign_sets:
  assumes "conn_assign t req resp e sz = (0, resp', t')"
  shows "resp_endpoint resp' = e" "resp_len_max resp' = sz"
    "svc_id (endpoint t' e) = req_svc_id req" "eid (endpoint t' e) = e" "ep_cb (endpoint t' e) = req_ep_cb req"
    "conn_flags (endpoint t' e) = req_flags req" "max_txq_depth (endpoint t' e) = req_max_txq_depth req"
    "wired t' e = (req_svc_id req, e, int (tgt_cred_sz t),
       max 1 (int ((if req_max_rxmsg_sz req \<noteq> 0 then req_max_rxmsg_sz req else sz) div tgt_cred_sz t)))"
    "rx_bufq (endpoint t' e) = rx_bufq (endpoint t e)" "txq (endpoint t' e) = txq (endpoint t e)"
  using assms by (auto simp: conn_assign_def Let_def wiring_def split: if_splits)

section \<open>Connection properties\<close>


section \<open>What the target said\<close>

text \<open>
  \<open>ctrl_bytes m\<close> is the frame on endpoint 0 with message \<open>m\<close>; \<open>announces env t m\<close> says that the
  target has this frame next: its lookahead is there, and a read returns it.
\<close>

definition ctrl_bytes :: "u8 list \<Rightarrow> u8 list" where
  "ctrl_bytes m = put_hdr \<lparr>eid_hdr = 0, flags_hdr = 0, payld_len = length m, ctrl0 = 0, ctrl1 = 0\<rparr> @ m"

definition announces :: "'d htc_env \<Rightarrow> 'd htc_target \<Rightarrow> u8 list \<Rightarrow> bool" where
  "announces env t m \<longleftrightarrow>
     fst (hif_poll_mboxmsg_rx env (dev t)) = Some (lkahd_of (ctrl_bytes m))
     \<and> (\<forall>p n. let r = hif_read_sync env (snd (hif_poll_mboxmsg_rx env (dev t))) p n
              in fst r = 0 \<and> fst (snd r) = ctrl_bytes m)"

lemma wait_ctrl_delivers:
  fixes env :: "'d htc_env"
  assumes a: "announces env t m" and p: "free_ctrl_rxbuf t = p # ps" and m: "length m < 65536"
    and big: "length m + HTC_HDR_LENGTH \<le> CALC_TXRX_PADDED_LEN t (length m + HTC_HDR_LENGTH)"
      "CALC_TXRX_PADDED_LEN t (length m + HTC_HDR_LENGTH) \<le> buf_len p"
  shows "\<exists>p' d. htc_wait_for_ctrl_msg env t = (Some p', t\<lparr>dev := d, free_ctrl_rxbuf := ps\<rparr>)
    \<and> payload p' = m \<and> act_len p' = length m \<and> pkt_id p' = pkt_id p"
proof -
  let ?h = "\<lparr>eid_hdr = 0, flags_hdr = 0, payld_len = length m, ctrl0 = 0, ctrl1 = 0\<rparr>"
  obtain d where po: "hif_poll_mboxmsg_rx env (dev t) = (Some (lkahd_of (ctrl_bytes m)), d)"
    using a unfolding announces_def by (metis prod.collapse)
  have lk: "lkahd_of (ctrl_bytes m) = lkahd_of (put_hdr ?h)" "lk_eid (lkahd_of (put_hdr ?h)) = 0"
    "lk_payld_len (lkahd_of (put_hdr ?h)) = length m"
    using m by (simp_all add: ctrl_bytes_def lkahd_of_def put_hdr_def le16_round_trip)
  let ?p1 = "p\<lparr>rx_flags := 0, exp_hdr := lkahd_of (put_hdr ?h), act_len := length m + HTC_HDR_LENGTH, completion := False\<rparr>"
  let ?n = "CALC_TXRX_PADDED_LEN t (length m + HTC_HDR_LENGTH)"
  let ?t1 = "t\<lparr>dev := d, free_ctrl_rxbuf := ps\<rparr>"
  obtain d' where rd: "hif_read_sync env d ?p1 ?n = (0, ctrl_bytes m, d')"
    using a unfolding announces_def po Let_def by (metis prod.collapse snd_conv)
  have n1: "CALC_TXRX_PADDED_LEN ?t1 k = CALC_TXRX_PADDED_LEN t k" for k by (simp add: CALC_TXRX_PADDED_LEN_def)
  have len: "length (ctrl_bytes m) = HTC_HDR_LENGTH + length m" by (simp add: ctrl_bytes_def)
  then have tk: "take ?n (ctrl_bytes m) = ctrl_bytes m" using big by simp
  define p2 where "p2 = ?p1\<lparr>pkt_mem := write_bytes (pkt_mem p) (buf p) (ctrl_bytes m), status := 0\<rparr>"
  have pk: "ath6kl_htc_rx_packet env ?t1 ?p1 (act_len ?p1) = (0, p2, ?t1\<lparr>dev := d'\<rparr>)"
    using big rd by (simp add: ath6kl_htc_rx_packet_def Let_def n1 tk p2_def)
  have "read_bytes (pkt_mem p2) (buf p2) (HTC_HDR_LENGTH + length m) = ctrl_bytes m"
    using read_write_same [of "pkt_mem p" "buf p" "ctrl_bytes m"] by (simp add: p2_def len)
  then have rb: "read_bytes (pkt_mem p2) (buf p2) HTC_HDR_LENGTH = put_hdr ?h"
    "read_bytes (pkt_mem p2) (buf p2 + int HTC_HDR_LENGTH) (length m) = m"
    unfolding read_bytes_append by (simp_all add: ctrl_bytes_def)
  have hd: "get_hdr (put_hdr ?h) = ?h" using get_put_hdr [of ?h "[]"] m by simp
  have f2: "rx_flags p2 = 0" "exp_hdr p2 = lkahd_of (put_hdr ?h)" "act_len p2 = length m + HTC_HDR_LENGTH"
    by (simp_all add: p2_def)
  have ph: "ath6kl_htc_rx_process_hdr env t2 p2 False = (0, p2\<lparr>buf := buf p2 + int HTC_HDR_LENGTH,
      act_len := act_len p2 - HTC_HDR_LENGTH\<rparr>, [], t2)" for t2 :: "'d htc_target"
    by (simp add: ath6kl_htc_rx_process_hdr_def Let_def rb(1) hd f2 has_flag_def)
  let ?p3 = "p2\<lparr>buf := buf p2 + int HTC_HDR_LENGTH, act_len := act_len p2 - HTC_HDR_LENGTH, status := 0\<rparr>"
  have "htc_wait_for_ctrl_msg env t = (Some ?p3, t\<lparr>dev := d', free_ctrl_rxbuf := ps\<rparr>)"
    using big lk by (simp add: htc_wait_for_ctrl_msg_def po htc_get_control_buf_def p Let_def ph pk [simplified])
  moreover have "payload ?p3 = m" "act_len ?p3 = length m" "pkt_id ?p3 = pkt_id p"
    using rb(2) f2(3) by (simp_all add: payload_def) (simp add: p2_def)
  ultimately show ?thesis by blast
qed

text \<open>Fields of a message in the payload.\<close>

lemma msg8_payload: "i < act_len p \<Longrightarrow> msg8 p i = payload p ! i"
  by (simp add: msg8_def payload_def)

lemma msg16_payload: "i + 1 < act_len p \<Longrightarrow> msg16 p i = le16 (payload p ! i) (payload p ! (i + 1))"
  by (simp add: msg16_def msg8_payload)

subsection \<open>A target that answers\<close>

text \<open>
  For the examples: a device whose state is the list of frames it has waiting, and a layer with
  one control buffer in each direction that has learned the credit size.
\<close>

definition ex_hs_env :: "u8 list list htc_env" where
  "ex_hs_env = \<lparr>low_cpu_power_tx_bundle_max = 0, htc_bundle_send_timer = 0, ep2ac_map = (\<lambda>e. e - 2), ctrl_ep = 1,
     hif_write_sync = (\<lambda>d p n. (0, d)), hif_write_async = (\<lambda>d p n. (0, d)),
     hif_read_sync = (\<lambda>d p n. case d of [] \<Rightarrow> (- 5, [], d) | f # fs \<Rightarrow> (0, f, fs)),
     hif_scatter_req_get = (\<lambda>d. (Some 4, d)), hif_scatter_req_add = (\<lambda>d. d), hif_scat_write = (\<lambda>d es. d),
     hif_scat_read = (\<lambda>d es. (0, \<lambda>_. [], d)),
     hif_poll_mboxmsg_rx = (\<lambda>d. case d of [] \<Rightarrow> (None, d) | f # fs \<Rightarrow> (Some (lkahd_of f), d)),
     hif_enable_scatter = (\<lambda>d. (Some (16, 16384), d)), hif_disable_intrs = (\<lambda>d. (0, d)),
     hif_unmask_intrs = (\<lambda>d. (0, d)), hif_mask_intrs = (\<lambda>d. d), hif_cleanup_scatter = (\<lambda>d. d),
     cb_tx_full_fn = (\<lambda>d p. (HTC_SEND_FULL_DROP, d)), cb_rx_refill_fn = (\<lambda>d e. ([], d)),
     cb_rx_allocthresh_fn = (\<lambda>d e n. (None, d))\<rparr>"

definition ex_alloc :: "nat \<Rightarrow> (nat \<times> int) option" where
  "ex_alloc i = Some (i, 0)"

definition ex_hs_target :: "u8 list list \<Rightarrow> u8 list list htc_target" where
  "ex_hs_target d = (zero_target d)\<lparr>free_ctrl_rxbuf := [(zero_pkt 0 0)\<lparr>buf_len := 262\<rparr>],
     free_ctrl_txbuf := [(zero_pkt 6 0)\<lparr>buf_len := 262\<rparr>], block_sz := 128, block_mask := 127, tgt_cred_sz := 256\<rparr>"

definition ex_conn_req :: htc_service_connect_req where
  "ex_conn_req = \<lparr>req_svc_id = WMI_CONTROL_SVC, req_conn_flags = 0, req_ep_cb = no_callbacks, req_max_txq_depth = 100,
     req_flags = 0, req_max_rxmsg_sz = 0\<rparr>"

lemma upt_max: "[0..<ENDPOINT_MAX] = [0, 1, 2, 3, 4, 5, 6, 7, 8]"
  by (simp add: ENDPOINT_MAX_def upt_rec)

lemma ex_announces: "dev t = [ctrl_bytes m] \<Longrightarrow> announces ex_hs_env t m"
  by (simp add: announces_def ex_hs_env_def)

lemma ex_padded: "CALC_TXRX_PADDED_LEN (ex_hs_target d) 16 = 128" "CALC_TXRX_PADDED_LEN (ex_hs_target d) 14 = 128"
  by (simp_all add: CALC_TXRX_PADDED_LEN_def ex_hs_target_def align_mask_def)


section \<open>The handshake\<close>

lemma setup_msg_bndl_frame [simp]:
  "endpoint (htc_setup_msg_bndl env t) = endpoint t" "cred_dist (htc_setup_msg_bndl env t) = cred_dist t"
  "tgt_cred_sz (htc_setup_msg_bndl env t) = tgt_cred_sz t" "tgt_creds (htc_setup_msg_bndl env t) = tgt_creds t"
  "free_ctrl_rxbuf (htc_setup_msg_bndl env t) = free_ctrl_rxbuf t" "htc_tgt_ver (htc_setup_msg_bndl env t) = htc_tgt_ver t"
  "block_sz (htc_setup_msg_bndl env t) = block_sz t" "cred_dist_list (htc_setup_msg_bndl env t) = cred_dist_list t"
  by (simp_all add: htc_setup_msg_bndl_def Let_def split: option.split prod.split)

lemma setup_msg_bndl_limits:
  assumes "0 < msg_per_bndl_max t"
  shows "msg_per_bndl_max (htc_setup_msg_bndl env t) \<le> min HTC_HOST_MAX_MSG_PER_BUNDLE (msg_per_bndl_max t)"
    "tx_bndl_mask t = 0 \<Longrightarrow> tx_bndl_mask (htc_setup_msg_bndl env t) \<noteq> 0 \<Longrightarrow> tgt_cred_sz t mod block_sz t = 0
        \<and> max_tx_bndl_sz (htc_setup_msg_bndl env t) \<le> HIF_MBOX0_EXT_WIDTH"
proof -
  obtain r d where e: "hif_enable_scatter env (dev t) = (r, d)" by fastforce
  note def = htc_setup_msg_bndl_def [of env t, unfolded e Let_def prod.case]
  have "msg_per_bndl_max (htc_setup_msg_bndl env t) \<le> min HTC_HOST_MAX_MSG_PER_BUNDLE (msg_per_bndl_max t)
    \<and> (tx_bndl_mask t = 0 \<and> tx_bndl_mask (htc_setup_msg_bndl env t) \<noteq> 0 \<longrightarrow> tgt_cred_sz t mod block_sz t = 0
        \<and> max_tx_bndl_sz (htc_setup_msg_bndl env t) \<le> HIF_MBOX0_EXT_WIDTH)"
    using assms by (cases r) (auto simp: def HTC_HOST_MAX_MSG_PER_BUNDLE_def split: prod.split)
  then show "msg_per_bndl_max (htc_setup_msg_bndl env t) \<le> min HTC_HOST_MAX_MSG_PER_BUNDLE (msg_per_bndl_max t)"
    "tx_bndl_mask t = 0 \<Longrightarrow> tx_bndl_mask (htc_setup_msg_bndl env t) \<noteq> 0 \<Longrightarrow> tgt_cred_sz t mod block_sz t = 0
        \<and> max_tx_bndl_sz (htc_setup_msg_bndl env t) \<le> HIF_MBOX0_EXT_WIDTH" by blast+
qed

lemma conn_ctrl:
  assumes "ath6kl_htc_mbox_conn_service env t ctrl_conn_req zero_resp = (st, resp, t')"
  shows "st = 0 \<longleftrightarrow> svc_id (endpoint t 0) = 0" "free_ctrl_rxbuf t' = free_ctrl_rxbuf t" "tgt_cred_sz t' = tgt_cred_sz t"
    "st = 0 \<Longrightarrow> svc_id (endpoint t' 0) = HTC_CTRL_RSVD_SVC
       \<and> wired t' 0 = (HTC_CTRL_RSVD_SVC, 0, int (tgt_cred_sz t), max 1 (int (HTC_MAX_CTRL_MSG_LEN div tgt_cred_sz t)))"
    "tgt_creds t' = tgt_creds t" "msg_per_bndl_max t' = msg_per_bndl_max t" "tx_bndl_mask t' = tx_bndl_mask t"
    "max_tx_bndl_sz t' = max_tx_bndl_sz t" "htc_tgt_ver t' = htc_tgt_ver t" "block_sz t' = block_sz t"
proof -
  have a: "conn_assign t ctrl_conn_req zero_resp 0 HTC_MAX_CTRL_MSG_LEN = (st, resp, t')"
    using assms by (simp add: ath6kl_htc_mbox_conn_service_def ctrl_conn_req_def)
  have c: "req_svc_id ctrl_conn_req = HTC_CTRL_RSVD_SVC" "req_max_rxmsg_sz ctrl_conn_req = 0"
    by (simp_all add: ctrl_conn_req_def)
  show "st = 0 \<longleftrightarrow> svc_id (endpoint t 0) = 0" "free_ctrl_rxbuf t' = free_ctrl_rxbuf t" "tgt_cred_sz t' = tgt_cred_sz t"
    using assign_ok [OF a] by (simp_all add: c ENDPOINT_MAX_def HTC_MAX_CTRL_MSG_LEN_def)
  show "tgt_creds t' = tgt_creds t" "msg_per_bndl_max t' = msg_per_bndl_max t" "tx_bndl_mask t' = tx_bndl_mask t"
    "max_tx_bndl_sz t' = max_tx_bndl_sz t" "htc_tgt_ver t' = htc_tgt_ver t" "block_sz t' = block_sz t"
    using a by (auto simp: conn_assign_def Let_def upd_ep_def upd_cd_def split: if_splits)
  assume "st = 0"
  then show "svc_id (endpoint t' 0) = HTC_CTRL_RSVD_SVC
       \<and> wired t' 0 = (HTC_CTRL_RSVD_SVC, 0, int (tgt_cred_sz t), max 1 (int (HTC_MAX_CTRL_MSG_LEN div tgt_cred_sz t)))"
    using assign_sets [of t ctrl_conn_req zero_resp 0 HTC_MAX_CTRL_MSG_LEN resp t'] a by (simp add: c)
qed

text \<open>What \<open>ath6kl_htc_mbox_wait_target\<close> does with a message it has received.\<close>

definition ready_next :: "'d htc_env \<Rightarrow> 'd htc_target \<Rightarrow> htc_packet \<Rightarrow> 'd htc_target" where
  "ready_next env t p =
     (let ext = act_len p \<ge> 10;
          t3 = t\<lparr>tgt_creds := int (msg16 p 2), tgt_cred_sz := msg16 p 4,
                 htc_tgt_ver := if ext then unat (msg8 p 8) else HTC_VERSION_2P0,
                 msg_per_bndl_max := if ext then int (unat (msg8 p 9)) else 0\<rparr>
      in if msg_per_bndl_max t3 > 0 then htc_setup_msg_bndl env t3 else t3)"

definition ready_msg :: "htc_packet \<Rightarrow> bool" where
  "ready_msg p \<longleftrightarrow> msg16 p 0 = HTC_MSG_READY_ID \<and> 8 \<le> act_len p \<and> msg16 p 2 \<noteq> 0 \<and> msg16 p 4 \<noteq> 0"

lemma ready_next_frame [simp]:
  "endpoint (ready_next env t p) = endpoint t" "free_ctrl_rxbuf (ready_next env t p) = free_ctrl_rxbuf t"
  "tgt_creds (ready_next env t p) = int (msg16 p 2)" "tgt_cred_sz (ready_next env t p) = msg16 p 4"
  "htc_tgt_ver (ready_next env t p) = (if 10 \<le> act_len p then unat (msg8 p 8) else HTC_VERSION_2P0)"
  "block_sz (ready_next env t p) = block_sz t"
  by (simp_all add: ready_next_def Let_def)

lemma ready_next_limits:
  "msg_per_bndl_max (ready_next env t p) \<le> (if 10 \<le> act_len p then min HTC_HOST_MAX_MSG_PER_BUNDLE (int (unat (msg8 p 9))) else 0)"
  "tx_bndl_mask t = 0 \<Longrightarrow> tx_bndl_mask (ready_next env t p) \<noteq> 0 \<Longrightarrow>
     msg16 p 4 mod block_sz t = 0 \<and> max_tx_bndl_sz (ready_next env t p) \<le> HIF_MBOX0_EXT_WIDTH"
proof -
  let ?t3 = "t\<lparr>tgt_creds := int (msg16 p 2), tgt_cred_sz := msg16 p 4,
      htc_tgt_ver := if 10 \<le> act_len p then unat (msg8 p 8) else HTC_VERSION_2P0,
      msg_per_bndl_max := if 10 \<le> act_len p then int (unat (msg8 p 9)) else 0\<rparr>"
  show "msg_per_bndl_max (ready_next env t p) \<le> (if 10 \<le> act_len p then min HTC_HOST_MAX_MSG_PER_BUNDLE (int (unat (msg8 p 9))) else 0)"
    using setup_msg_bndl_limits(1) [of ?t3 env]
    by (cases "10 \<le> act_len p") (simp_all add: ready_next_def Let_def HTC_HOST_MAX_MSG_PER_BUNDLE_def)
  show "tx_bndl_mask t = 0 \<Longrightarrow> tx_bndl_mask (ready_next env t p) \<noteq> 0 \<Longrightarrow>
     msg16 p 4 mod block_sz t = 0 \<and> max_tx_bndl_sz (ready_next env t p) \<le> HIF_MBOX0_EXT_WIDTH"
    using setup_msg_bndl_limits(2) [of ?t3 env] by (simp add: ready_next_def Let_def split: if_split_asm)
qed

lemma wait_target_eq:
  assumes "htc_wait_for_ctrl_msg env t = (Some p, t1)"
  shows "ath6kl_htc_mbox_wait_target False env t =
    (if \<not> ready_msg p then (- ENOMEM, reclaim_rx_ctrl_buf t1 (htc_rxpkt_reset p))
     else (case ath6kl_htc_mbox_conn_service env (ready_next env t1 p) ctrl_conn_req zero_resp of (st, resp, t5) \<Rightarrow>
       (st, reclaim_rx_ctrl_buf (if st \<noteq> 0 then t5\<lparr>dev := hif_cleanup_scatter env (dev t5)\<rparr> else t5) (htc_rxpkt_reset p))))"
  unfolding ath6kl_htc_mbox_wait_target_def assms ready_msg_def ready_next_def
  by (simp add: put_ready_def Let_def)



section \<open>Starting\<close>

lemma credit_dist_walk:
  "distinct ss \<Longrightarrow> distinct (set_credit_dist_walk eps ss) \<and> set (set_credit_dist_walk eps ss) \<subseteq> {1..<ENDPOINT_MAX}
     \<and> (\<exists>n. map (\<lambda>e. svc_id (eps e)) (set_credit_dist_walk eps ss) = take n ss)
     \<and> ((\<forall>s\<in>set ss. \<exists>e\<in>{1..<ENDPOINT_MAX}. svc_id (eps e) = s) \<longrightarrow>
          map (\<lambda>e. svc_id (eps e)) (set_credit_dist_walk eps ss) = ss)"
proof (induction ss)
  case (Cons s ss)
  note IH = Cons.IH [OF distinct_tl [OF Cons.prems, simplified]]
  show ?case
  proof (cases "find (\<lambda>e. svc_id (eps e) = s) [1..<ENDPOINT_MAX]")
    case None
    then have "\<not> (\<exists>e\<in>{1..<ENDPOINT_MAX}. svc_id (eps e) = s)" by (auto simp: find_None_iff)
    then show ?thesis using None by (auto intro: exI [of _ 0])
  next
    case (Some e)
    then have e: "svc_id (eps e) = s" "e \<in> {1..<ENDPOINT_MAX}" by (auto simp: find_Some_iff)
    obtain n where n: "map (\<lambda>e. svc_id (eps e)) (set_credit_dist_walk eps ss) = take n ss" using IH by blast
    have "e \<notin> set (set_credit_dist_walk eps ss)"
    proof
      assume "e \<in> set (set_credit_dist_walk eps ss)"
      then have "s \<in> set (take n ss)" unfolding n [symmetric] e(1) [symmetric] by simp
      then show False using Cons.prems by (meson distinct.simps(2) in_set_takeD)
    qed
    then show ?thesis using IH e n Some by (auto intro: exI [of _ "Suc n"])
  qed
qed simp

lemma credit_init_establishes:
  assumes "distinct es" and "\<forall>e\<in>set es. dist_ok (ds e) \<and> 1 \<le> cred_per_msg (ds e)"
    and "(\<Sum>e\<leftarrow>es. init_grant tot (ds e)) \<le> tot" and "ath6kl_credit_init ci ds es tot = (ci', ds')"
  shows "credit_ok ci' ds' es" "credit_ledger ci' ds' es = tot + (\<Sum>e\<leftarrow>es. cr_of (ds e))"
proof -
  define g where "g = (\<Sum>e\<leftarrow>es. init_grant tot (ds e))"
  note r = assms(4) [unfolded credit_init_closed [OF assms(1)], folded g_def]
  have ci': "ci' = ci\<lparr>cur_free_credits := tot - g, total_avail_credits := tot, lowestpri_ep_dist := es\<rparr>" using r by simp
  have D: "ds' e = (if endpoint_cd (ds e) \<noteq> 0
      then (init_dist tot (ds e))\<lparr>cred_norm := init_norm (tot - g) (ds e)\<rparr> else ds e)" if "e \<in> set es" for e
    using r that by auto
  have nn: "0 \<le> init_norm (tot - g) (ds e)" if "e \<in> set es" for e
    using credit_norm_share_bounds(1) [of "cred_per_msg (ds e)" "tot - g"] assms(2) that by (force simp: init_norm_def)
  have ok: "dist_ok (ds' e)" if "e \<in> set es" for e
    using D [OF that] assms(2) that nn [OF that] by (auto simp: dist_ok_def init_dist_def)
  have cr: "cr_of (ds' e) = init_grant tot (ds e) + cr_of (ds e)" if "e \<in> set es" for e
    using D [OF that] by (cases "endpoint_cd (ds e) = 0") (auto simp: cr_of_def init_grant_def init_dist_def)
  have "(\<Sum>e\<leftarrow>es. cr_of (ds' e)) = (\<Sum>e\<leftarrow>es. init_grant tot (ds e) + cr_of (ds e))"
    by (rule sum_list_map_cong_set) (rule cr)
  also have "\<dots> = g + (\<Sum>e\<leftarrow>es. cr_of (ds e))" by (simp add: g_def sum_list_addf)
  finally show "credit_ledger ci' ds' es = tot + (\<Sum>e\<leftarrow>es. cr_of (ds e))" by (simp add: credit_ledger_def ci')
  show "credit_ok ci' ds' es" using assms(1,3) ok by (auto simp: credit_ok_def ci' g_def)
qed

lemma add_one_rxbuf:
  assumes "\<not> has_flag (htc_flags t) HTC_OP_STATE_STOPPING" "\<not> has_flag (rx_st_flags t) HTC_RECV_WAIT_BUFFERS"
    "endpoint_pkt p = 0"
  shows "htc_add_rxbuf t p = (0, upd_ep t 0 (\<lambda>ep. ep\<lparr>rx_bufq := rx_bufq ep @ [p]\<rparr>))"
  using assms by (simp add: htc_add_rxbuf_def ath6kl_htc_mbox_add_rxbuf_multiple_def Let_def ENDPOINT_MAX_def)

lemma start_push:
  assumes "\<not> has_flag (htc_flags t) HTC_OP_STATE_STOPPING" "\<not> has_flag (rx_st_flags t) HTC_RECV_WAIT_BUFFERS"
    "free_ctrl_rxbuf t = q" "\<forall>p\<in>set q. endpoint_pkt p = 0"
  shows "start_push_loop t = Some (0, (upd_ep t 0 (\<lambda>ep. ep\<lparr>rx_bufq := rx_bufq ep @ q\<rparr>))\<lparr>free_ctrl_rxbuf := []\<rparr>)"
  using assms
proof (induction q arbitrary: t)
  case Nil
  have "upd_ep t 0 (\<lambda>ep. ep\<lparr>rx_bufq := rx_bufq ep @ []\<rparr>)\<lparr>free_ctrl_rxbuf := []\<rparr> = t"
    using Nil(3) by (simp add: upd_ep_def)
  then show ?case using Nil(3) by (subst start_push_loop.simps) (simp add: htc_get_control_buf_def)
next
  case (Cons p ps)
  let ?t1 = "t\<lparr>free_ctrl_rxbuf := ps\<rparr>"
  let ?t2 = "upd_ep ?t1 0 (\<lambda>ep. ep\<lparr>rx_bufq := rx_bufq ep @ [p]\<rparr>)"
  have a: "htc_add_rxbuf ?t1 p = (0, ?t2)" using Cons.prems by (intro add_one_rxbuf) simp_all
  have "start_push_loop t = start_push_loop ?t2"
    using Cons.prems(3) a by (subst start_push_loop.simps) (simp add: htc_get_control_buf_def)
  also have "\<dots> = Some (0, (upd_ep ?t2 0 (\<lambda>ep. ep\<lparr>rx_bufq := rx_bufq ep @ ps\<rparr>))\<lparr>free_ctrl_rxbuf := []\<rparr>)"
    using Cons.prems by (intro Cons.IH) simp_all
  also have "(upd_ep ?t2 0 (\<lambda>ep. ep\<lparr>rx_bufq := rx_bufq ep @ ps\<rparr>))\<lparr>free_ctrl_rxbuf := []\<rparr>
      = (upd_ep t 0 (\<lambda>ep. ep\<lparr>rx_bufq := rx_bufq ep @ p # ps\<rparr>))\<lparr>free_ctrl_rxbuf := []\<rparr>"
    by (simp add: upd_ep_def)
  finally show ?case .
qed

lemma setup_tx_complete_frame:
  assumes "htc_setup_tx_complete env t = (st, t')"
  shows "endpoint t' = endpoint t" "cred_dist t' = cred_dist t" "credit_info t' = credit_info t"
    "cred_dist_list t' = cred_dist_list t" "htc_flags t' = htc_flags t" "free_ctrl_rxbuf t' = free_ctrl_rxbuf t"
    "pids (free_ctrl_txbuf t') = pids (free_ctrl_txbuf t)"
proof -
  have "endpoint t' = endpoint t \<and> cred_dist t' = cred_dist t \<and> credit_info t' = credit_info t
    \<and> cred_dist_list t' = cred_dist_list t \<and> htc_flags t' = htc_flags t \<and> free_ctrl_rxbuf t' = free_ctrl_rxbuf t
    \<and> pids (free_ctrl_txbuf t') = pids (free_ctrl_txbuf t)"
  proof (cases "free_ctrl_txbuf t")
    case Nil
    then show ?thesis using assms by (simp add: htc_setup_tx_complete_def htc_get_control_buf_def)
  next
    case (Cons p ps)
    obtain m st1 p' t2 where i: "ath6kl_htc_tx_issue env (t\<lparr>free_ctrl_txbuf := ps\<rparr>)
        (ctrl_msg (p\<lparr>buf := buf_start p + int HTC_HDR_LENGTH\<rparr>) m) = (st1, p', t2)" and t': "t' = htc_reclaim_txctrl_buf t2 p'"
      using assms by (auto simp: htc_setup_tx_complete_def htc_get_control_buf_def Cons Let_def split: prod.splits)
    show ?thesis using tx_issue_event(1-4) [OF i] tx_issue_frame(2-4) [OF i]
      by (simp add: t' htc_reclaim_txctrl_buf_def Cons tx_cfg_def)
  qed
  then show "endpoint t' = endpoint t" "cred_dist t' = cred_dist t" "credit_info t' = credit_info t"
    "cred_dist_list t' = cred_dist_list t" "htc_flags t' = htc_flags t" "free_ctrl_rxbuf t' = free_ctrl_rxbuf t"
    "pids (free_ctrl_txbuf t') = pids (free_ctrl_txbuf t)" by blast+
qed


text \<open>For the example: the five services connected on endpoints 1 to 5.\<close>

definition ex_svc :: "nat \<Rightarrow> nat" where
  "ex_svc e = (if e = 0 then HTC_CTRL_RSVD_SVC else if e \<le> 5 then 255 + e else 0)"

definition ex_up :: "unit htc_target" where
  "ex_up = (zero_target ())\<lparr>endpoint := (\<lambda>e. zero_endpoint\<lparr>eid := e, svc_id := ex_svc e\<rparr>),
     cred_dist := (\<lambda>e. ex_dist (ex_svc e) e 0), tgt_creds := 20, tgt_cred_sz := 256, block_mask := 127,
     free_ctrl_rxbuf := [(zero_pkt 0 0)\<lparr>buf_len := 262\<rparr>], free_ctrl_txbuf := [(zero_pkt 6 0)\<lparr>buf_len := 262\<rparr>]\<rparr>"

lemma ex_up_walk: "set_credit_dist_walk (endpoint ex_up) service_priority = [1, 5, 4, 2, 3]"
  by (simp add: service_priority_def ex_up_def ex_svc_def svc_defs ENDPOINT_MAX_def upt_rec)


section \<open>Stopping\<close>

text \<open>
  Walking over distinct endpoints with a step that changes one endpoint and its credits and logs
  what happened to it: the result in closed form.
\<close>

definition ep_walk :: "(htc_endpoint \<Rightarrow> htc_endpoint) \<Rightarrow> (htc_endpoint_credit_dist \<Rightarrow> htc_endpoint_credit_dist) \<Rightarrow>
    (nat \<Rightarrow> htc_endpoint \<Rightarrow> htc_event list) \<Rightarrow> 'd htc_target \<Rightarrow> nat list \<Rightarrow> 'd htc_target" where
  "ep_walk g c h t es = t\<lparr>endpoint := (\<lambda>e. if e \<in> set es then g (endpoint t e) else endpoint t e),
     cred_dist := (\<lambda>e. if e \<in> set es then c (cred_dist t e) else cred_dist t e),
     events := events t @ concat (map (\<lambda>e. h e (endpoint t e)) es)\<rparr>"

lemma ep_walk_fold:
  assumes "\<And>t e. f t e = t\<lparr>endpoint := (endpoint t)(e := g (endpoint t e)),
      cred_dist := (cred_dist t)(e := c (cred_dist t e)), events := events t @ h e (endpoint t e)\<rparr>"
  shows "distinct es \<Longrightarrow> foldl f t es = ep_walk g c h t es"
proof (induction es rule: rev_induct)
  case Nil
  show ?case by (simp add: ep_walk_def)
next
  case (snoc e es)
  then have ne: "e \<notin> set es" and IH: "foldl f t es = ep_walk g c h t es" by simp_all
  have fx: "(\<lambda>x. if x \<in> set es then p x else q x)(e := p e) = (\<lambda>x. if x = e \<or> x \<in> set es then p x else q x)"
    for p q :: "nat \<Rightarrow> 'x" by (auto simp: fun_eq_iff)
  have "foldl f t (es @ [e]) = f (ep_walk g c h t es) e" by (simp only: foldl_append foldl_Cons foldl_Nil IH)
  also have "\<dots> = ep_walk g c h t (es @ [e])" unfolding assms using ne by (simp add: ep_walk_def fx [of "\<lambda>x. g (endpoint t x)" "endpoint t"] fx [of "\<lambda>x. c (cred_dist t x)" "cred_dist t"])
  finally show ?case .
qed

definition cancel_evs :: "htc_endpoint \<Rightarrow> htc_event list" where
  "cancel_evs ep = (if svc_id ep = 0 then [] else map (\<lambda>p. TxComplete [p\<lparr>status := - ECANCELED\<rparr>]) (txq ep))"

definition free_evs :: "htc_endpoint \<Rightarrow> htc_event list" where
  "free_evs ep = (if svc_id ep = 0 then [] else map BufFree (rx_bufq ep))"

definition reset_ep :: "htc_endpoint \<Rightarrow> htc_endpoint" where
  "reset_ep ep =
     (let ep1 = ep\<lparr>svc_id := 0, len_max := 0, max_txq_depth := 0, ep_st := zero_stats, rx_bufq := [], txq := []\<rparr>
      in if timer_init ep then ep1\<lparr>call_by_timer := False, timer_init := False\<rparr> else ep1)"

lemma flush_txep_all_walk:
  "ath6kl_htc_flush_txep_all t
   = ep_walk (\<lambda>ep. if svc_id ep = 0 then ep else ep\<lparr>txq := []\<rparr>) (\<lambda>d. d) (\<lambda>e. cancel_evs) t [0..<ENDPOINT_MAX]"
  unfolding ath6kl_htc_flush_txep_all_def
  by (rule ep_walk_fold)
    (simp_all add: ath6kl_htc_mbox_flush_txep_def Let_def flush_fold upd_ep_def cancel_evs_def)

lemma flush_rx_buf_walk:
  "ath6kl_htc_mbox_flush_rx_buf t
   = ep_walk (\<lambda>ep. if svc_id ep = 0 then ep else ep\<lparr>rx_bufq := []\<rparr>) (\<lambda>d. d) (\<lambda>e. free_evs) t [0..<ENDPOINT_MAX]"
  unfolding ath6kl_htc_mbox_flush_rx_buf_def
  by (rule ep_walk_fold) (simp_all add: upd_ep_def free_evs_def)

lemma reset_ep_state_walk:
  "reset_ep_state t = (ep_walk reset_ep (\<lambda>_. zero_cd) (\<lambda>e ep. if timer_init ep then [TimerDel e] else []) t [0..<ENDPOINT_MAX])
     \<lparr>cred_dist_list := []\<rparr>"
proof -
  have "foldl reset_one_ep t [0..<ENDPOINT_MAX]
      = ep_walk reset_ep (\<lambda>_. zero_cd) (\<lambda>e ep. if timer_init ep then [TimerDel e] else []) t [0..<ENDPOINT_MAX]"
    by (rule ep_walk_fold) (simp_all add: reset_one_ep_def Let_def upd_ep_def upd_cd_def emit_def reset_ep_def)
  then show ?thesis by (simp add: reset_ep_state_def)
qed

text \<open>\<open>a\<close> and \<open>b\<close> are the receive and transmit buffers allocated for the indices.\<close>

definition grown :: "(nat \<Rightarrow> (nat \<times> int) option) \<Rightarrow> nat \<Rightarrow> nat list \<Rightarrow> int \<Rightarrow> htc_packet list \<Rightarrow> htc_packet list \<Rightarrow> bool" where
  "grown alloc sz js st a b \<longleftrightarrow>
     length a \<le> length (filter (\<lambda>i. i < NUM_CONTROL_RX_BUFFERS) js)
     \<and> length b \<le> length (filter (\<lambda>i. \<not> i < NUM_CONTROL_RX_BUFFERS) js)
     \<and> (\<forall>p\<in>set a. endpoint_pkt p = 0 \<and> buf p = buf_start p \<and> buf_len p = sz)
     \<and> (st = 0 \<longleftrightarrow> (\<forall>i\<in>set js. alloc i \<noteq> None))
     \<and> (st = 0 \<longrightarrow> length a = length (filter (\<lambda>i. i < NUM_CONTROL_RX_BUFFERS) js)
           \<and> length b = length (filter (\<lambda>i. \<not> i < NUM_CONTROL_RX_BUFFERS) js))"

lemma reset_alloc:
  assumes "reset_alloc_loop alloc sz t js = (st, t')"
  shows "\<exists>a b. t' = t\<lparr>free_ctrl_rxbuf := free_ctrl_rxbuf t @ a, free_ctrl_txbuf := free_ctrl_txbuf t @ b\<rparr>
    \<and> grown alloc sz js st a b"
  using assms
proof (induction js arbitrary: t)
  case Nil
  then show ?case by (intro exI [of _ "[]"]) (simp add: grown_def)
next
  case (Cons i js)
  show ?case
  proof (cases "alloc i")
    case None
    then show ?thesis using Cons.prems by (intro exI [of _ "[]"]) (auto simp: grown_def)
  next
    case (Some ab)
    obtain x y where ab: "ab = (x, y)" by fastforce
    show ?thesis
    proof (cases "i < NUM_CONTROL_RX_BUFFERS")
      case True
      let ?p = "(zero_pkt x y)\<lparr>buf_len := sz, act_len := 0, buf := buf_start ((zero_pkt x y)\<lparr>buf_len := sz\<rparr>), endpoint_pkt := 0\<rparr>"
      have "reset_alloc_loop alloc sz (t\<lparr>free_ctrl_rxbuf := free_ctrl_rxbuf t @ [?p]\<rparr>) js = (st, t')"
        using Cons.prems True Some ab by simp
      from Cons.IH [OF this] obtain a b where r:
        "t' = t\<lparr>free_ctrl_rxbuf := free_ctrl_rxbuf t @ [?p]\<rparr>
          \<lparr>free_ctrl_rxbuf := free_ctrl_rxbuf (t\<lparr>free_ctrl_rxbuf := free_ctrl_rxbuf t @ [?p]\<rparr>) @ a,
           free_ctrl_txbuf := free_ctrl_txbuf (t\<lparr>free_ctrl_rxbuf := free_ctrl_rxbuf t @ [?p]\<rparr>) @ b\<rparr>"
        and n: "grown alloc sz js st a b" by blast
      have "grown alloc sz (i # js) st (?p # a) b" using n True Some by (simp add: grown_def)
      moreover have "t' = t\<lparr>free_ctrl_rxbuf := free_ctrl_rxbuf t @ ?p # a, free_ctrl_txbuf := free_ctrl_txbuf t @ b\<rparr>"
        using r by simp
      ultimately show ?thesis by blast
    next
      case False
      let ?p = "(zero_pkt x y)\<lparr>buf_len := sz\<rparr>"
      have "reset_alloc_loop alloc sz (t\<lparr>free_ctrl_txbuf := free_ctrl_txbuf t @ [?p]\<rparr>) js = (st, t')"
        using Cons.prems False Some ab by simp
      from Cons.IH [OF this] obtain a b where r:
        "t' = t\<lparr>free_ctrl_txbuf := free_ctrl_txbuf t @ [?p]\<rparr>
          \<lparr>free_ctrl_rxbuf := free_ctrl_rxbuf (t\<lparr>free_ctrl_txbuf := free_ctrl_txbuf t @ [?p]\<rparr>) @ a,
           free_ctrl_txbuf := free_ctrl_txbuf (t\<lparr>free_ctrl_txbuf := free_ctrl_txbuf t @ [?p]\<rparr>) @ b\<rparr>"
        and n: "grown alloc sz js st a b" by blast
      have "grown alloc sz (i # js) st a (?p # b)" using n False Some by (simp add: grown_def)
      moreover have "t' = t\<lparr>free_ctrl_rxbuf := free_ctrl_rxbuf t @ a, free_ctrl_txbuf := free_ctrl_txbuf t @ ?p # b\<rparr>"
        using r by simp
      ultimately show ?thesis by blast
    qed
  qed
qed

lemma ep_walk_simps [simp]:
  "endpoint (ep_walk g c h t es) = (\<lambda>e. if e \<in> set es then g (endpoint t e) else endpoint t e)"
  "cred_dist (ep_walk g c h t es) = (\<lambda>e. if e \<in> set es then c (cred_dist t e) else cred_dist t e)"
  "events (ep_walk g c h t es) = events t @ concat (map (\<lambda>e. h e (endpoint t e)) es)"
  "htc_flags (ep_walk g c h t es) = htc_flags t" "free_ctrl_rxbuf (ep_walk g c h t es) = free_ctrl_rxbuf t"
  "free_ctrl_txbuf (ep_walk g c h t es) = free_ctrl_txbuf t"
  by (simp_all add: ep_walk_def)

text \<open>
  Property C40.  Stopping leaves nothing behind.  \<open>ath6kl_htc_mbox_stop\<close> completes every queued
  packet of every connected endpoint as cancelled, in order and once, then frees every queued
  receive buffer once, then deletes timers; afterwards no endpoint carries a service, a packet,
  a buffer or a credit, and the distribution list is empty.  The control buffers that were free
  stay and a fresh set of at most six and two is added, exactly that many if memory allows.
\<close>

theorem stop_empties:
  assumes "t' = ath6kl_htc_mbox_stop alloc bs env t"
  shows "(\<forall>e<ENDPOINT_MAX. svc_id (endpoint t' e) = 0 \<and> txq (endpoint t' e) = [] \<and> rx_bufq (endpoint t' e) = []
            \<and> cred_dist t' e = zero_cd \<and> \<not> timer_init (endpoint t' e))
    \<and> cred_dist_list t' = [] \<and> has_flag (htc_flags t') HTC_OP_STATE_STOPPING
    \<and> (\<exists>evs. events t' = events t @ concat (map (\<lambda>e. cancel_evs (endpoint t e)) [0..<ENDPOINT_MAX])
             @ concat (map (\<lambda>e. free_evs (endpoint t e)) [0..<ENDPOINT_MAX]) @ evs
           \<and> evs = concat (map (\<lambda>e. if timer_init (endpoint t e) then [TimerDel e] else []) [0..<ENDPOINT_MAX]))
    \<and> (\<exists>a b. free_ctrl_rxbuf t' = free_ctrl_rxbuf t @ a \<and> free_ctrl_txbuf t' = free_ctrl_txbuf t @ b
           \<and> length a \<le> 6 \<and> length b \<le> 2 \<and> ((\<forall>i<8. alloc i \<noteq> None) \<longrightarrow> length a = 6 \<and> length b = 2))"
proof -
  let ?t1 = "t\<lparr>htc_flags := set_flag (htc_flags t) HTC_OP_STATE_STOPPING\<rparr>"
  let ?t2 = "?t1\<lparr>dev := hif_mask_intrs env (dev ?t1)\<rparr>"
  define t3 where "t3 = ath6kl_htc_flush_txep_all ?t2"
  define t4 where "t4 = ath6kl_htc_mbox_flush_rx_buf t3"
  define t5 where "t5 = reset_ep_state t4"
  note walks = flush_txep_all_walk flush_rx_buf_walk reset_ep_state_walk
  have ft: "has_flag (set_flag (htc_flags t) HTC_OP_STATE_STOPPING) HTC_OP_STATE_STOPPING"
    by (simp add: has_flag_def set_flag_def HTC_OP_STATE_STOPPING_def bit_eq_iff) (auto simp: bit_simps)
  have m: "map f [0..<ENDPOINT_MAX] = map g [0..<ENDPOINT_MAX]" if "\<And>e. e < ENDPOINT_MAX \<Longrightarrow> f e = g e" for f g :: "nat \<Rightarrow> htc_event list"
    using that by simp
  have ev: "events t5 = events t @ concat (map (\<lambda>e. cancel_evs (endpoint t e)) [0..<ENDPOINT_MAX])
       @ concat (map (\<lambda>e. free_evs (endpoint t e)) [0..<ENDPOINT_MAX])
       @ concat (map (\<lambda>e. if timer_init (endpoint t e) then [TimerDel e] else []) [0..<ENDPOINT_MAX])"
    by (simp add: t5_def t4_def t3_def walks) (intro arg_cong2 [of _ _ _ _ "(@)"] arg_cong [of _ _ concat] m; simp add: free_evs_def)
  have ep: "endpoint t5 e = reset_ep (endpoint t4 e) \<and> cred_dist t5 e = zero_cd" if "e < ENDPOINT_MAX" for e
    using that by (simp add: t5_def walks)
  have rs: "svc_id (reset_ep ep) = 0 \<and> txq (reset_ep ep) = [] \<and> rx_bufq (reset_ep ep) = [] \<and> \<not> timer_init (reset_ep ep)" for ep
    by (simp add: reset_ep_def Let_def)
  have fl: "htc_flags t5 = set_flag (htc_flags t) HTC_OP_STATE_STOPPING" "free_ctrl_rxbuf t5 = free_ctrl_rxbuf t"
    "free_ctrl_txbuf t5 = free_ctrl_txbuf t" "cred_dist_list t5 = []"
    by (simp_all add: t5_def t4_def t3_def walks)
  obtain st r where al: "reset_alloc_loop alloc (if bs > HTC_MAX_CTRL_MSG_LEN then bs + HTC_HDR_LENGTH
      else HTC_MAX_CTRL_MSG_LEN + HTC_HDR_LENGTH) t5 [0..<NUM_CONTROL_BUFFERS] = (st, r)" by fastforce
  have t': "t' = r"
    using assms al by (simp add: ath6kl_htc_mbox_stop_def ath6kl_htc_reset_def t5_def t4_def t3_def)
  obtain a b where r: "r = t5\<lparr>free_ctrl_rxbuf := free_ctrl_rxbuf t5 @ a, free_ctrl_txbuf := free_ctrl_txbuf t5 @ b\<rparr>"
    and g: "grown alloc (if bs > HTC_MAX_CTRL_MSG_LEN then bs + HTC_HDR_LENGTH
      else HTC_MAX_CTRL_MSG_LEN + HTC_HDR_LENGTH) [0..<NUM_CONTROL_BUFFERS] st a b"
    using reset_alloc [OF al] by blast
  have u: "[0..<NUM_CONTROL_BUFFERS] = [0, 1, 2, 3, 4, 5, 6, 7]" "NUM_CONTROL_RX_BUFFERS = 6"
    by (simp_all add: NUM_CONTROL_BUFFERS_def NUM_CONTROL_RX_BUFFERS_def NUM_CONTROL_TX_BUFFERS_def upt_rec)
  have len: "length a \<le> 6" "length b \<le> 2" "(\<forall>i<8. alloc i \<noteq> None) \<longrightarrow> length a = 6 \<and> length b = 2"
    using g by (auto simp: grown_def u)
  show ?thesis using ep rs fl ft ev len by (simp add: t' r)
qed

theorem stop_empties_witness:
  "txq (endpoint (ath6kl_htc_mbox_stop ex_alloc 128 ex_env ex_target) 3) = []
   \<and> length (free_ctrl_txbuf (ath6kl_htc_mbox_stop ex_alloc 128 ex_env ex_target)) = length (free_ctrl_txbuf ex_target) + 2"
proof -
  have "\<forall>i<8. ex_alloc i \<noteq> None" by (simp add: ex_alloc_def)
  then show ?thesis using stop_empties [OF refl, of ex_alloc 128 ex_env ex_target] by (auto simp: ENDPOINT_MAX_def)
qed

end
