(* ===== verification/HtcSystem.thy ===== *)
theory HtcSystem
  imports HtcSetup
begin

text \<open>
  The mailbox layer as a whole: the operations the rest of the driver, the bus and the target may
  start, in any order, as an inductive step relation, and what every reachable state satisfies.

  A state is the layer together with a ghost number: the credits that are out, paid for packets
  handed to the bus and not yet returned.  The guards of the steps say what the surroundings
  promise: packets go to endpoints of the distribution list, a completion brings back a packet
  with what it paid, and the target returns no more credits than it holds.
\<close>

section \<open>Steps\<close>

datatype htc_op =
    OpTx htc_packet
  | OpTimer
  | OpDone htc_packet
  | OpScatDone nat int "htc_packet list"
  | OpReport "(u8 \<times> u8) list" nat
  | OpActivity nat bool
  | OpFlush nat nat
  | OpAddRx "htc_packet list"

type_synonym 'd htc_sys = "'d htc_target \<times> int"

text \<open>The packets handed to the bus on the way from \<open>t\<close> to \<open>t'\<close>.\<close>

definition new_sent :: "'d htc_target \<Rightarrow> 'd htc_target \<Rightarrow> htc_packet list" where
  "new_sent t t' = sent_pkts (drop (length (events t)) (events t'))"

inductive htc_step :: "'d htc_env \<Rightarrow> 'd htc_sys \<Rightarrow> htc_op \<Rightarrow> 'd htc_sys \<Rightarrow> bool" for env where
  step_tx: "endpoint_pkt p \<in> set (cred_dist_list t) \<Longrightarrow> t' = snd (ath6kl_htc_mbox_tx env t p) \<Longrightarrow>
     htc_step env (t, out) (OpTx p) (t', out + spent (new_sent t t'))"
| step_timer: "2 \<in> set (cred_dist_list t) \<Longrightarrow> t' = htc_tx_bundle_timer_handler env t \<Longrightarrow>
     htc_step env (t, out) OpTimer (t', out + spent (new_sent t t'))"
| step_done: "endpoint_pkt p \<in> set (cred_dist_list t) \<Longrightarrow> 0 \<le> cred_used p \<Longrightarrow> cred_used p \<le> out \<Longrightarrow>
     t' = htc_tx_comp_handler t p \<Longrightarrow>
     htc_step env (t, out) (OpDone p) (t', out - (if status p = 0 then 0 else cred_used p))"
| step_scat_done: "e \<in> set (cred_dist_list t) \<Longrightarrow> \<forall>p\<in>set ps. 0 \<le> cred_used p \<Longrightarrow> spent ps \<le> out \<Longrightarrow>
     t' = htc_async_tx_scat_complete env t e st (map Some ps) \<Longrightarrow>
     htc_step env (t, out) (OpScatDone e st ps) (t', out - (if st = 0 then 0 else spent ps))"
| step_report: "\<forall>r\<in>set rs. unat (fst r) < ENDPOINT_MAX \<Longrightarrow> rpt_sum (cred_dist_list t) rs \<le> out \<Longrightarrow>
     t' = htc_proc_cred_rpt env t rs fe \<Longrightarrow>
     htc_step env (t, out) (OpReport rs fe) (t', out - rpt_sum (cred_dist_list t) rs + spent (new_sent t t'))"
| step_activity: "e \<in> set (cred_dist_list t) \<Longrightarrow> t' = ath6kl_htc_mbox_indicate_activity_change env t e active \<Longrightarrow>
     htc_step env (t, out) (OpActivity e active) (t', out + spent (new_sent t t'))"
| step_flush: "t' = ath6kl_htc_mbox_flush_txep t e tg \<Longrightarrow> htc_step env (t, out) (OpFlush e tg) (t', out)"
| step_add_rx: "t' = snd (ath6kl_htc_mbox_add_rxbuf_multiple t q) \<Longrightarrow> htc_step env (t, out) (OpAddRx q) (t', out)"

inductive htc_reach :: "'d htc_env \<Rightarrow> int \<Rightarrow> 'd htc_sys \<Rightarrow> bool" for env tot where
  reach_start: "credit_ok_t t \<Longrightarrow> ledger_t t = tot \<Longrightarrow> htc_reach env tot (t, 0)"
| reach_step: "htc_reach env tot s \<Longrightarrow> htc_step env s oper s' \<Longrightarrow> htc_reach env tot s'"

inductive_cases htc_step_elim [consumes 1, case_names tx timer finished scattered report activity flush add_rx]:
  "htc_step env (t, out) oper s'"

section \<open>Each operation on the ledger\<close>

fun htc_inv :: "int \<Rightarrow> 'd htc_sys \<Rightarrow> bool" where
  "htc_inv tot (t, out) \<longleftrightarrow> credit_ok_t t \<and> ledger_t t + out = tot \<and> 0 \<le> out"

lemma new_sent_append [simp]: "events t' = events t @ evs \<Longrightarrow> new_sent t t' = sent_pkts evs"
  by (simp add: new_sent_def)

lemma spent_nonneg: "\<forall>w\<in>set ws. 0 \<le> cred_used w \<Longrightarrow> 0 \<le> spent ws"
  by (induction ws) simp_all

lemma charged_sys:
  assumes "charged t t'"
  shows "credit_ok_t t'" "ledger_t t' = ledger_t t - spent (new_sent t t')" "0 \<le> spent (new_sent t t')"
proof -
  obtain evs where e: "events t' = events t @ evs" "ledger_t t' = ledger_t t - spent (sent_pkts evs)"
    "\<forall>w\<in>set (sent_pkts evs). cred_used w = msg_cost t w" using assms by (auto simp: charged_def)
  have "0 \<le> spent (sent_pkts evs)" using e(3) by (intro spent_nonneg) (simp add: msg_cost_def)
  then show "credit_ok_t t'" "ledger_t t' = ledger_t t - spent (new_sent t t')" "0 \<le> spent (new_sent t t')"
    using assms e by (simp_all add: charged_def)
qed

lemma mbox_tx_charged:
  assumes "credit_ok_t t" "endpoint_pkt p \<in> set (cred_dist_list t)"
  shows "charged t (snd (ath6kl_htc_mbox_tx env t p))"
proof (cases "endpoint_pkt p \<ge> ENDPOINT_MAX")
  case True
  then show ?thesis using assms(1) by (simp add: ath6kl_htc_mbox_tx_def charged_silent)
next
  case False
  let ?e = "endpoint_pkt p"
  have quiet: "charged t (htc_tx_complete (upd_st (t\<lparr>dev := d\<rparr>) ?e f) ?e [q])" for d f q
    unfolding charged_def using assms(1)
    by (intro conjI exI [of _ "[TxComplete [q]]"]) (simp_all add: htc_tx_complete_def)
  have q: "charged t (ath6kl_htc_tx_from_queue env (upd_ep t1 ?e (\<lambda>ep. ep\<lparr>txq := txq ep @ [p]\<rparr>)) ?e)"
    if "t1 = t \<or> (\<exists>d. t1 = t\<lparr>dev := d\<rparr>)" for t1
  proof -
    let ?t2 = "upd_ep t1 ?e (\<lambda>ep. ep\<lparr>txq := txq ep @ [p]\<rparr>)"
    have c: "charged t ?t2" using that assms(1) by (intro charged_silent) auto
    have "charged ?t2 (ath6kl_htc_tx_from_queue env ?t2 ?e)"
      using that assms by (intro from_queue_charged) auto
    then show ?thesis by (rule charged_trans [OF c])
  qed
  show ?thesis
    using False q quiet
    by (auto simp: ath6kl_htc_mbox_tx_def ath6kl_htc_tx_try_def Let_def split: prod.splits htc_send_full_action.splits if_splits)
qed

lemma upd_ep_charged: "credit_ok_t t \<Longrightarrow> charged t (upd_ep t e f)"
  by (intro charged_silent) simp_all

lemma timer_charged:
  assumes "credit_ok_t t" "2 \<in> set (cred_dist_list t)"
  shows "charged t (htc_tx_bundle_timer_handler env t)"
proof -
  let ?t1 = "upd_ep t 2 (\<lambda>ep. ep\<lparr>call_by_timer := True\<rparr>)"
  let ?t2 = "ath6kl_htc_tx_from_queue env ?t1 2"
  have c1: "charged t ?t1" by (rule upd_ep_charged [OF assms(1)])
  have c2: "charged ?t1 ?t2" using assms by (intro from_queue_charged) simp_all
  have ok: "credit_ok_t ?t2" using c2 by (simp add: charged_def)
  have "charged ?t2 (htc_tx_bundle_timer_handler env t)"
    unfolding htc_tx_bundle_timer_handler_def Let_def charged_def using ok
    by (intro conjI exI [of _ "[TimerSet 2]"]) simp_all
  then show ?thesis using charged_trans [OF charged_trans [OF c1 c2]] by blast
qed

lemma activity_charged:
  assumes "credit_ok_t t" "e \<in> set (cred_dist_list t)"
  shows "charged t (ath6kl_htc_mbox_indicate_activity_change env t e active)"
proof -
  define f where "f = (\<lambda>d :: htc_endpoint_credit_dist. d\<lparr>dist_flags := (if active then set_flag (dist_flags d) HTC_EP_ACTIVE
      else clear_flag (dist_flags d) HTC_EP_ACTIVE), txq_depth := int (length (txq (endpoint t e)))\<rparr>)"
  let ?t1 = "distribute_t (upd_cd t e f) HTC_CREDIT_DIST_ACTIVITY_CHANGE"
  have d: "dist_ok (cred_dist t e)" using dist_ok_t assms .
  have u: "credit_ok_t (upd_cd t e f)" "ledger_t (upd_cd t e f) = ledger_t t"
    using upd_cd_credit [OF assms, of f] d by (simp_all add: f_def dist_ok_def cr_of_def)
  have c1: "charged t ?t1" using u by (intro charged_silent) (simp_all add: distribute_t_credit)
  have c2: "charged ?t1 (htc_chk_ep_txq env ?t1)"
    unfolding htc_chk_ep_txq_def using c1 by (intro chk_walk_charged) (simp_all add: charged_def)
  have r: "charged t t" using assms(1) by (intro charged_silent) simp_all
  show ?thesis
    unfolding ath6kl_htc_mbox_indicate_activity_change_def Let_def f_def [symmetric]
    using r c1 charged_trans [OF c1 c2] by simp
qed

lemma proc_cred_rpt_sys:
  assumes "credit_ok_t t" "\<forall>r\<in>set rs. unat (fst r) < ENDPOINT_MAX" "t' = htc_proc_cred_rpt env t rs fe"
  shows "credit_ok_t t'" "ledger_t t' = ledger_t t + rpt_sum (cred_dist_list t) rs - spent (new_sent t t')"
    "0 \<le> spent (new_sent t t')"
proof -
  obtain ok dist tot t1 where l: "cred_rpt_loop t fe rs = (ok, dist, tot, t1)" by (metis prod_cases4)
  define t2 where "t2 = (if dist then distribute_t t1 HTC_CREDIT_DIST_SEND_COMPLETE else t1)"
  note c = cred_rpt_loop_credit [OF assms(1,2) l] and f = cred_rpt_loop_events [OF l]
  have c2: "credit_ok_t t2 \<and> ledger_t t2 = ledger_t t + rpt_sum (cred_dist_list t) rs \<and> events t2 = events t"
    using c f by (simp add: t2_def distribute_t_credit)
  have t': "t' = (if tot \<noteq> 0 then htc_chk_ep_txq env t2 else t2)"
    using assms(3) c by (simp add: htc_proc_cred_rpt_def l Let_def t2_def)
  have "charged t2 t'"
    using c2 chk_walk_charged [of t2 "cred_dist_list t2" env] charged_silent [of t2 t2]
    by (simp add: t' htc_chk_ep_txq_def)
  note k = charged_sys [OF this]
  have "new_sent t2 t' = new_sent t t'" using c2 by (simp add: new_sent_def)
  then show "credit_ok_t t'" "ledger_t t' = ledger_t t + rpt_sum (cred_dist_list t) rs - spent (new_sent t t')"
    "0 \<le> spent (new_sent t t')" using k c2 by simp_all
qed

lemma flush_keeps:
  "credit_ok_t (ath6kl_htc_mbox_flush_txep t e tg) = credit_ok_t t" "ledger_t (ath6kl_htc_mbox_flush_txep t e tg) = ledger_t t"
  by (simp_all add: ath6kl_htc_mbox_flush_txep_def Let_def flush_fold credit_ok_t_def ledger_t_def)

lemma rx_cancel_fold_keeps:
  "credit_ok_t (foldl (\<lambda>t p. rx_cancel t e p) t q) = credit_ok_t t \<and> ledger_t (foldl (\<lambda>t p. rx_cancel t e p) t q) = ledger_t t"
  by (induction q arbitrary: t) (simp_all add: rx_cancel_def Let_def reclaim_rx_ctrl_buf_def credit_ok_t_def ledger_t_def)

lemma add_rx_keeps:
  "credit_ok_t (snd (ath6kl_htc_mbox_add_rxbuf_multiple t q)) = credit_ok_t t"
  "ledger_t (snd (ath6kl_htc_mbox_add_rxbuf_multiple t q)) = ledger_t t"
  by (auto simp: ath6kl_htc_mbox_add_rxbuf_multiple_def Let_def rx_cancel_fold_keeps split: list.split)
    (simp_all add: credit_ok_t_def ledger_t_def)

section \<open>Flow control\<close>

lemma htc_step_keeps:
  assumes "htc_step env s oper s'" and "htc_inv tot s"
  shows "htc_inv tot s'"
  using assms
proof (cases rule: htc_step.cases)
  case (step_tx p t t' out)
  then have ok: "credit_ok_t t" using assms(2) by simp
  have "charged t t'" using mbox_tx_charged [OF ok] step_tx by simp
  from charged_sys [OF this] show ?thesis using step_tx assms(2) by simp
next
  case (step_timer t t' out)
  then have ok: "credit_ok_t t" using assms(2) by simp
  have "charged t t'" using timer_charged [OF ok] step_timer by simp
  from charged_sys [OF this] show ?thesis using step_timer assms(2) by simp
next
  case (step_done p t out t')
  obtain p' t1 where u: "htc_tx_comp_update t (endpoint_pkt p) p = (p', t1)" by fastforce
  have "credit_ok_t t" using step_done assms(2) by simp
  note k = comp_update_credit [OF this _ _ u]
  have "t' = emit t1 (TxComplete [p'])" using step_done u by (simp add: htc_tx_comp_handler_def htc_tx_complete_def)
  then show ?thesis using step_done assms(2) k by (auto split: if_splits)
next
  case (step_scat_done e t ps out t' st)
  obtain r t1 where l: "scat_complete_loop t e st (map Some ps) = (r, t1)" by fastforce
  have "credit_ok_t t" using step_scat_done assms(2) by simp
  note k = scat_complete_loop_credit [OF this _ _ l]
  have "0 \<le> spent ps" using step_scat_done by (simp add: spent_nonneg)
  moreover have "credit_ok_t t' = credit_ok_t t1 \<and> ledger_t t' = ledger_t t1"
    using step_scat_done k by (simp add: htc_async_tx_scat_complete_def l htc_tx_complete_def)
  ultimately show ?thesis using step_scat_done assms(2) k by (auto split: if_splits)
next
  case (step_report rs t out t' fe)
  then have "credit_ok_t t" using assms(2) by simp
  from proc_cred_rpt_sys [OF this] show ?thesis using step_report assms(2) by simp
next
  case (step_activity e t t' active out)
  then have ok: "credit_ok_t t" using assms(2) by simp
  have "charged t t'" using activity_charged [OF ok] step_activity by simp
  from charged_sys [OF this] show ?thesis using step_activity assms(2) by simp
next
  case (step_flush t' t e tg out)
  then show ?thesis using assms(2) by (simp add: flush_keeps)
next
  case (step_add_rx t' t q out)
  then show ?thesis using assms(2) by (simp add: add_rx_keeps)
qed

interpretation htc_machine: step_relation "\<lambda>s s'. \<exists>oper. htc_step env s oper s'" "htc_inv tot" for env tot
  by unfold_locales (use htc_step_keeps in blast)

lemma htc_reach_inv: "htc_reach env tot s \<Longrightarrow> htc_inv tot s"
  by (induction rule: htc_reach.induct) (auto intro: htc_machine.step_keeps)

lemma ledger_nonneg:
  assumes "credit_ok_t t"
  shows "0 \<le> ledger_t t"
proof -
  have "0 \<le> (\<Sum>e\<leftarrow>cred_dist_list t. cr_of (cred_dist t e))"
    using assms by (intro sum_list_nonneg) (auto simp: credit_ok_t_def credit_ok_def dist_ok_def cr_of_def)
  then show ?thesis using assms by (simp add: ledger_t_def credit_ledger_def credit_ok_t_def credit_ok_def)
qed

text \<open>
  Property C1.  Flow control, for the layer as a whole.  From a started layer with \<open>tot\<close> credits,
  in whatever order packets are submitted, timers fire, the bus completes or fails requests,
  the target reports credits, services change activity, queues are flushed and buffers added:
  the credits on the host and the credits out at the target always add up to \<open>tot\<close>, neither is
  negative, and so the target never holds more than the \<open>tot\<close> messages' worth it offered room for.
\<close>

theorem htc_flow_control:
  assumes "htc_reach env tot (t, out)"
  shows "credit_ok_t t \<and> ledger_t t + out = tot \<and> 0 \<le> out \<and> out \<le> tot \<and> ledger_t t \<le> tot
    \<and> (\<forall>e\<in>set (cred_dist_list t). 0 \<le> credits (cred_dist t e) \<and> credits (cred_dist t e) \<le> tot)"
proof -
  have i: "credit_ok_t t" "ledger_t t + out = tot" "0 \<le> out" using htc_reach_inv [OF assms] by simp_all
  have "credits (cred_dist t e) \<le> ledger_t t" if e: "e \<in> set (cred_dist_list t)" for e
  proof -
    have nn: "\<forall>x\<in>set (cred_dist_list t). 0 \<le> cr_of (cred_dist t x)"
      using i(1) by (auto simp: credit_ok_t_def credit_ok_def dist_ok_def cr_of_def)
    have "cr_of (cred_dist t e) \<le> (\<Sum>x\<leftarrow>cred_dist_list t. cr_of (cred_dist t x))"
      by (rule member_le_sum_list) (use e nn in auto)
    then show ?thesis using dist_ok_t [OF i(1) e] i(1)
      by (simp add: ledger_t_def credit_ledger_def credit_ok_t_def credit_ok_def dist_ok_def cr_of_def)
  qed
  then show ?thesis using i ledger_nonneg [OF i(1)] dist_ok_t [OF i(1)] by (force simp: dist_ok_def)
qed

theorem htc_flow_control_witness:
  "let t' = snd (ath6kl_htc_mbox_tx ex_env ex_target (ex_pkt 9 3 50))
   in credit_ok_t t' \<and> ledger_t t' + spent (new_sent ex_target t') = ledger_t ex_target"
proof -
  have r: "htc_reach ex_env (ledger_t ex_target) (ex_target, 0)" by (rule reach_start [OF ex_target_ok(1) refl])
  have "endpoint_pkt (ex_pkt 9 3 50) \<in> set (cred_dist_list ex_target)" by (simp add: ex_target_ok(2) ex_pkt_def)
  from htc_flow_control [OF reach_step [OF r step_tx [OF this refl]]] show ?thesis by (simp add: Let_def)
qed

text \<open>Inversion of the steps that leave the bus alone.\<close>

inductive_simps htc_step_flush_iff: "htc_step env (t, out) (OpFlush e tg) s'"
inductive_simps htc_step_add_rx_iff: "htc_step env (t, out) (OpAddRx q) s'"

lemma quiet_steps_pay_nothing:
  "htc_step env (t, out) (OpFlush e tg) (t', out') \<Longrightarrow> out' = out"
  "htc_step env (t, out) (OpAddRx q) (t', out') \<Longrightarrow> out' = out"
  by (simp_all only: htc_step_flush_iff htc_step_add_rx_iff) auto

end
