(* ===== verification/RxReorder.thy ===== *)
theory RxReorder
  imports Prelude "HOL-Library.Monad_Syntax"
begin

text \<open>
  Receive reordering (drivers/ath6kl/txrx.c: \<open>aggr_slice_amsdu\<close>, \<open>aggr_deque_frms\<close>,
  \<open>aggr_process_recv_frm\<close>, \<open>aggr_timeout\<close>, \<open>aggr_delete_tid_state\<close>, the ADDBA and DELBA events and
  \<open>aggr_init_conn\<close>; wmi.c: \<open>ath6kl_wmi_dot3_2_dix\<close>).

  Each traffic identifier has a window of sequence numbers modulo 4096; frames wait in the slot of
  their number until the numbers before them have arrived, a later frame pushes the window, or a
  timer gives up on them.  Frames handed to the network stack are logged as \<open>RxUp\<close>, frames freed as
  \<open>RxFree\<close>.

  A result \<open>None\<close> stands for code that does not return normally: a division by a window size of
  zero, a slot beyond the allocated array, or a loop that never ends.  Memory for fresh buffers
  comes from \<open>can\<close>, which says whether the n-th allocation succeeds.
\<close>

section \<open>Data\<close>

definition ATH6KL_MAX_SEQ_NO :: nat where "ATH6KL_MAX_SEQ_NO = 4095"
definition AGGR_WIN_SZ_MIN :: nat where "AGGR_WIN_SZ_MIN = 2"
definition AGGR_WIN_SZ_MAX :: nat where "AGGR_WIN_SZ_MAX = 8"
definition NUM_OF_TIDS :: nat where "NUM_OF_TIDS = 8"
definition AGGR_NUM_OF_FREE_NETBUFS :: nat where "AGGR_NUM_OF_FREE_NETBUFS = 16"
definition AGGR_RX_TIMEOUT :: nat where "AGGR_RX_TIMEOUT = 100"
definition AGGR_RX_TIMEOUT_VO :: nat where "AGGR_RX_TIMEOUT_VO = 50"
definition ATH6KL_MAX_WAIT_CONTINUOUS_PKT :: nat where "ATH6KL_MAX_WAIT_CONTINUOUS_PKT = 3"
definition MIN_MSDU_SUBFRAME_PAYLOAD_LEN :: nat where "MIN_MSDU_SUBFRAME_PAYLOAD_LEN = 36"
definition MAX_MSDU_SUBFRAME_PAYLOAD_LEN :: nat where "MAX_MSDU_SUBFRAME_PAYLOAD_LEN = 1508"
definition ETH_HDR_LEN :: nat where "ETH_HDR_LEN = 14"

lemmas rx_consts = AGGR_WIN_SZ_MIN_def AGGR_WIN_SZ_MAX_def ATH6KL_MAX_SEQ_NO_def NUM_OF_TIDS_def AGGR_NUM_OF_FREE_NETBUFS_def AGGR_RX_TIMEOUT_def
  AGGR_RX_TIMEOUT_VO_def ATH6KL_MAX_WAIT_CONTINUOUS_PKT_def MIN_MSDU_SUBFRAME_PAYLOAD_LEN_def
  MAX_MSDU_SUBFRAME_PAYLOAD_LEN_def ETH_HDR_LEN_def

text \<open>
  Sequence arithmetic.  The C code computes in 32 bits and masks with \<open>0xFFF\<close>; as \<open>2^32\<close> is a
  multiple of 4096 this is arithmetic modulo 4096, also when a difference goes below zero.
\<close>

definition seq_mask :: "int \<Rightarrow> nat" where
  "seq_mask x = nat (x mod 4096)"

definition ATH6KL_NEXT_SEQ_NO :: "nat \<Rightarrow> nat" where
  "ATH6KL_NEXT_SEQ_NO x = seq_mask (int x + 1)"

definition AGGR_WIN_IDX :: "nat \<Rightarrow> nat \<Rightarrow> nat" where
  "AGGR_WIN_IDX x y = x mod y"

definition TID_WINDOW_SZ :: "nat \<Rightarrow> nat" where
  "TID_WINDOW_SZ x = x * 2"

text \<open>
  A socket buffer: memory, data pointer and length, the start of its memory (so \<open>skb_headroom\<close> is
  \<open>skb_ptr - skb_head\<close>), its protocol, and whether it is a clone.  Frames that arrive from the target
  or the network stack have an identity, which a copy made of them keeps; buffers filled by slicing
  an aggregate have none.  The allocator leaves at least \<open>NET_SKB_PAD\<close> bytes in front.
\<close>

record skb =
  skb_id :: "nat option"
  skb_mem :: "int \<Rightarrow> u8"
  skb_ptr :: int
  skb_len :: nat
  skb_head :: int
  skb_protocol :: nat
  skb_cloned :: bool

definition NET_SKB_PAD :: nat where "NET_SKB_PAD = 32"

definition skb_bytes :: "skb \<Rightarrow> u8 list" where
  "skb_bytes s = read_bytes (skb_mem s) (skb_ptr s) (skb_len s)"

definition skb_of :: "u8 list \<Rightarrow> skb" where
  "skb_of bs = \<lparr>skb_id = None, skb_mem = write_bytes (\<lambda>_. 0) 0 bs, skb_ptr = 0, skb_len = length bs,
     skb_head = - int NET_SKB_PAD, skb_protocol = 0, skb_cloned = False\<rparr>"

lemma skb_bytes_of [simp]: "skb_bytes (skb_of bs) = bs"
  by (simp add: skb_bytes_def skb_of_def)

record skb_hold_q =
  hq_skb :: "skb option"
  hq_amsdu :: bool
  hq_seq :: nat

text \<open>\<open>hold_q\<close> is empty for a null pointer; \<open>tid_timer\<close> is the delay of the pending timer, if any.\<close>

record rxtid =
  aggr :: bool
  win_sz :: nat
  seq_next :: nat
  hold_q_sz :: nat
  hold_q :: "skb_hold_q list"
  rxq :: "skb list"
  timerwait_seq_num :: nat
  sync_next_seq :: bool
  tid_timer :: "nat option"
  tid_timer_scheduled :: bool
  issue_timer_seq :: nat
  continuous_count :: u8

record rxtid_stats =
  num_into_aggr :: u32
  num_dups :: u32
  num_oow :: u32
  num_mpdu :: u32
  num_amsdu :: u32
  num_delivered :: u32
  num_timeouts :: u32
  num_hole :: u32
  num_bar :: u32

definition zero_rxstats :: rxtid_stats where
  "zero_rxstats = \<lparr>num_into_aggr = 0, num_dups = 0, num_oow = 0, num_mpdu = 0, num_amsdu = 0,
     num_delivered = 0, num_timeouts = 0, num_hole = 0, num_bar = 0\<rparr>"

datatype rx_event = RxUp skb | RxFree skb

text \<open>
  The receive half of \<open>struct aggr_conn_info\<close>, with the queue of free buffers of the \<open>aggr_info\<close> it
  points to (a count: they are blank) and the number of allocations tried so far.
\<close>

record aggr_conn =
  rx_tid :: "nat \<Rightarrow> rxtid"
  rx_stat :: "nat \<Rightarrow> rxtid_stats"
  tid_timeout_setting :: "nat \<Rightarrow> nat"
  free_q :: nat
  n_alloc :: nat
  rx_events :: "rx_event list"

definition upd_rx :: "aggr_conn \<Rightarrow> nat \<Rightarrow> (rxtid \<Rightarrow> rxtid) \<Rightarrow> aggr_conn" where
  "upd_rx c i f = c\<lparr>rx_tid := (rx_tid c)(i := f (rx_tid c i))\<rparr>"

definition upd_rxst :: "aggr_conn \<Rightarrow> nat \<Rightarrow> (rxtid_stats \<Rightarrow> rxtid_stats) \<Rightarrow> aggr_conn" where
  "upd_rxst c i f = c\<lparr>rx_stat := (rx_stat c)(i := f (rx_stat c i))\<rparr>"

definition rx_log :: "aggr_conn \<Rightarrow> rx_event list \<Rightarrow> aggr_conn" where
  "rx_log c evs = c\<lparr>rx_events := rx_events c @ evs\<rparr>"

lemma upd_rx_simps [simp]:
  "rx_tid (upd_rx c i f) = (rx_tid c)(i := f (rx_tid c i))" "rx_events (upd_rx c i f) = rx_events c"
  "rx_stat (upd_rx c i f) = rx_stat c" "tid_timeout_setting (upd_rx c i f) = tid_timeout_setting c"
  "free_q (upd_rx c i f) = free_q c" "n_alloc (upd_rx c i f) = n_alloc c"
  by (simp_all add: upd_rx_def)

lemma upd_rxst_simps [simp]:
  "rx_tid (upd_rxst c i g) = rx_tid c" "rx_events (upd_rxst c i g) = rx_events c"
  "tid_timeout_setting (upd_rxst c i g) = tid_timeout_setting c"
  "free_q (upd_rxst c i g) = free_q c" "n_alloc (upd_rxst c i g) = n_alloc c"
  by (simp_all add: upd_rxst_def)

lemma rx_log_simps [simp]:
  "rx_tid (rx_log c evs) = rx_tid c" "rx_events (rx_log c evs) = rx_events c @ evs"
  "rx_stat (rx_log c evs) = rx_stat c" "tid_timeout_setting (rx_log c evs) = tid_timeout_setting c"
  "free_q (rx_log c evs) = free_q c" "n_alloc (rx_log c evs) = n_alloc c"
  by (simp_all add: rx_log_def)

section \<open>Slicing an aggregate\<close>

fun ath6kl_alloc_netbufs :: "(nat \<Rightarrow> bool) \<Rightarrow> aggr_conn \<Rightarrow> nat \<Rightarrow> aggr_conn" where
  "ath6kl_alloc_netbufs can c 0 = c"
| "ath6kl_alloc_netbufs can c (Suc num) =
     (let c1 = c\<lparr>n_alloc := n_alloc c + 1\<rparr> in
      if can (n_alloc c) then ath6kl_alloc_netbufs can (c1\<lparr>free_q := free_q c1 + 1\<rparr>) num else c1)"

definition aggr_get_free_skb :: "(nat \<Rightarrow> bool) \<Rightarrow> aggr_conn \<Rightarrow> bool \<times> aggr_conn" where
  "aggr_get_free_skb can c =
     (let c1 = (if free_q c < AGGR_NUM_OF_FREE_NETBUFS div 4
                then ath6kl_alloc_netbufs can c AGGR_NUM_OF_FREE_NETBUFS else c)
      in if free_q c1 = 0 then (False, c1) else (True, c1\<lparr>free_q := free_q c1 - 1\<rparr>))"

text \<open>
  \<open>ath6kl_wmi_dot3_2_dix\<close>: the LLC/SNAP header after the Ethernet header goes, its type field
  becomes the type of the frame.
\<close>

definition ath6kl_wmi_dot3_2_dix :: "u8 list \<Rightarrow> u8 list" where
  "ath6kl_wmi_dot3_2_dix bs = take 12 bs @ take 2 (drop 20 bs) @ drop 22 bs"

text \<open>
  The loop of \<open>aggr_slice_amsdu\<close>: \<open>fp\<close> is \<open>framep\<close>, \<open>len\<close> the 16-bit \<open>amsdu_len\<close>, \<open>q\<close> the queue the
  frames are appended to.  A length field is in network order.
\<close>

partial_function (option) aggr_slice_loop ::
    "(nat \<Rightarrow> bool) \<Rightarrow> aggr_conn \<Rightarrow> (int \<Rightarrow> u8) \<Rightarrow> int \<Rightarrow> u16 \<Rightarrow> skb list \<Rightarrow> (skb list \<times> aggr_conn) option" where
  "aggr_slice_loop can c mem fp len q =
     (if \<not> unat len > ETH_HDR_LEN then Some (q, c)
      else
        let plen = le16 (mem (fp + 13)) (mem (fp + 12)) in
        if plen < MIN_MSDU_SUBFRAME_PAYLOAD_LEN \<or> plen > MAX_MSDU_SUBFRAME_PAYLOAD_LEN then Some (q, c)
        else
          let flen = plen + ETH_HDR_LEN in
          case aggr_get_free_skb can c of (ok, c1) \<Rightarrow>
            if \<not> ok then Some (q, c1)
            else
              let q1 = q @ [skb_of (ath6kl_wmi_dot3_2_dix (read_bytes mem fp flen))] in
              if unat len = flen then Some (q1, c1)
              else
                let flen4 = (flen + 3) div 4 * 4 in
                aggr_slice_loop can c1 mem (fp + int flen4) (len - of_nat flen4) q1)"

definition aggr_slice_amsdu :: "(nat \<Rightarrow> bool) \<Rightarrow> aggr_conn \<Rightarrow> nat \<Rightarrow> skb \<Rightarrow> aggr_conn option" where
  "aggr_slice_amsdu can c tid s =
     (case aggr_slice_loop can c (skb_mem s) (skb_ptr s + int ETH_HDR_LEN)
             (of_int (int (skb_len s) - int ETH_HDR_LEN)) (rxq (rx_tid c tid)) of
        None \<Rightarrow> None
      | Some (q, c1) \<Rightarrow> Some (rx_log (upd_rx c1 tid (\<lambda>r. r\<lparr>rxq := q\<rparr>)) [RxFree s]))"

text \<open>Handing the queue up.\<close>

definition deliver_rxq :: "aggr_conn \<Rightarrow> nat \<Rightarrow> aggr_conn" where
  "deliver_rxq c tid =
     rx_log (upd_rx c tid (\<lambda>r. r\<lparr>rxq := []\<rparr>)) (map RxUp (rxq (rx_tid c tid)))"

section \<open>Moving the window\<close>

text \<open>
  The loop of \<open>aggr_deque_frms\<close>: leave slot \<open>idx\<close> (that of \<open>seq_next\<close>) and go on to the next number,
  until the slot is \<open>idx_end\<close>; in order, only while there is a frame.
\<close>

definition deque_slot :: "(nat \<Rightarrow> bool) \<Rightarrow> aggr_conn \<Rightarrow> nat \<Rightarrow> nat \<Rightarrow> aggr_conn option" where
  "deque_slot can c tid idx =
     (let node = hold_q (rx_tid c tid) ! idx in
      case hq_skb node of
        None \<Rightarrow> Some (upd_rxst c tid (\<lambda>s. s\<lparr>num_hole := num_hole s + 1\<rparr>))
      | Some s \<Rightarrow>
          map_option (\<lambda>c1. upd_rx c1 tid (\<lambda>r. r\<lparr>hold_q := (hold_q r)[idx := node\<lparr>hq_skb := None\<rparr>]\<rparr>))
            (if hq_amsdu node then aggr_slice_amsdu can c tid s
             else Some (upd_rx c tid (\<lambda>r. r\<lparr>rxq := rxq r @ [s]\<rparr>))))"

partial_function (option) aggr_deque_loop ::
    "(nat \<Rightarrow> bool) \<Rightarrow> aggr_conn \<Rightarrow> nat \<Rightarrow> bool \<Rightarrow> nat \<Rightarrow> nat \<Rightarrow> aggr_conn option" where
  "aggr_deque_loop can c tid inorder idx idx_end =
     (if idx \<ge> length (hold_q (rx_tid c tid)) then None
      else if inorder \<and> hq_skb (hold_q (rx_tid c tid) ! idx) = None then Some c
      else
        (case deque_slot can c tid idx of
           None \<Rightarrow> None
         | Some c1 \<Rightarrow>
             let c2 = upd_rx c1 tid (\<lambda>r. r\<lparr>seq_next := ATH6KL_NEXT_SEQ_NO (seq_next r)\<rparr>);
                 idx' = AGGR_WIN_IDX (seq_next (rx_tid c2 tid)) (hold_q_sz (rx_tid c2 tid))
             in if idx' = idx_end then Some c2 else aggr_deque_loop can c2 tid inorder idx' idx_end))"

definition aggr_deque_frms :: "(nat \<Rightarrow> bool) \<Rightarrow> aggr_conn \<Rightarrow> nat \<Rightarrow> nat \<Rightarrow> bool \<Rightarrow> aggr_conn option" where
  "aggr_deque_frms can c tid seq_no inorder =
     (let r = rx_tid c tid in
      if hold_q_sz r = 0 then None
      else
        let seq_end = (if seq_no \<noteq> 0 then seq_no else seq_next r) in
        case aggr_deque_loop can c tid inorder (AGGR_WIN_IDX (seq_next r) (hold_q_sz r))
               (AGGR_WIN_IDX seq_end (hold_q_sz r)) of
          None \<Rightarrow> None
        | Some c1 \<Rightarrow>
            Some (deliver_rxq (upd_rxst c1 tid (\<lambda>s. s\<lparr>num_delivered := num_delivered s + of_nat (length (rxq (rx_tid c1 tid)))\<rparr>)) tid))"

section \<open>A received frame\<close>

text \<open>The window test: a circular interval from \<open>st\<close> to \<open>end\<close> does not contain \<open>cur\<close>.\<close>

definition outside :: "nat \<Rightarrow> nat \<Rightarrow> nat \<Rightarrow> bool" where
  "outside st en cur \<longleftrightarrow> st < en \<and> (cur < st \<or> cur > en) \<or> st > en \<and> cur > en \<and> cur < st"

text \<open>
  The first part of \<open>aggr_process_recv_frm\<close> for an aggregated traffic identifier: take over the
  first sequence number, then test it against the window \<open>st .. end\<close> and the next window
  \<open>end .. extended_end\<close>.  A number beyond the window but within the next one pushes the window; one
  that is far away empties it and moves it behind the number; both that and an old number ask for
  the frame to be dropped (\<open>drop_it\<close>).
\<close>

definition recv_sync :: "aggr_conn \<Rightarrow> nat \<Rightarrow> nat \<Rightarrow> aggr_conn" where
  "recv_sync c tid seq_no =
     (if sync_next_seq (rx_tid c tid)
      then upd_rx c tid (\<lambda>r. r\<lparr>seq_next := seq_no, sync_next_seq := False\<rparr>) else c)"

definition recv_window :: "(nat \<Rightarrow> bool) \<Rightarrow> aggr_conn \<Rightarrow> nat \<Rightarrow> nat \<Rightarrow> (bool \<times> aggr_conn) option" where
  "recv_window can c tid cur =
     (let r = rx_tid c tid; st = seq_next r; sz = int (hold_q_sz r);
          en = seq_mask (int st + sz - 1); oow = (\<lambda>s. s\<lparr>num_oow := num_oow s + 1\<rparr>)
      in if outside st en cur then
           if outside en (seq_mask (int en + sz)) cur then
             let range_val = int (seq_mask (int cur - int st)) in
             if range_val \<ge> 2 * sz \<and> range_val \<le> int ATH6KL_MAX_SEQ_NO - 2 * sz + 1 then
               (case aggr_deque_frms can c tid 0 False of
                  None \<Rightarrow> None
                | Some c1 \<Rightarrow> Some (True, upd_rxst (upd_rx c1 tid (\<lambda>r. r\<lparr>seq_next := seq_mask (int cur - sz)\<rparr>)) tid oow))
             else Some (True, upd_rxst c tid oow)
           else
             (case aggr_deque_frms can c tid (seq_mask (int cur - (sz - 1))) False of
                None \<Rightarrow> None
              | Some c1 \<Rightarrow> Some (False, upd_rxst c1 tid oow))
         else Some (False, c))"

text \<open>The frame goes into the slot of its number; what was there is freed.\<close>

definition recv_store :: "aggr_conn \<Rightarrow> nat \<Rightarrow> nat \<Rightarrow> bool \<Rightarrow> skb \<Rightarrow> aggr_conn option" where
  "recv_store c tid seq_no is_amsdu frame =
     (let r = rx_tid c tid; idx = AGGR_WIN_IDX seq_no (hold_q_sz r) in
      if hold_q_sz r = 0 \<or> idx \<ge> length (hold_q r) then None
      else Some (upd_rxst
        (upd_rx (rx_log c (case hq_skb (hold_q r ! idx) of None \<Rightarrow> [] | Some s \<Rightarrow> [RxFree s])) tid
          (\<lambda>r. r\<lparr>hold_q := (hold_q r)[idx := \<lparr>hq_skb = Some frame, hq_amsdu = is_amsdu, hq_seq = seq_no\<rparr>]\<rparr>))
        tid (\<lambda>s. if is_amsdu then s\<lparr>num_dups := num_dups s + 1, num_amsdu := num_amsdu s + 1\<rparr>
             else s\<lparr>num_dups := num_dups s + 1, num_mpdu := num_mpdu s + 1\<rparr>)))"

text \<open>
  The loops over \<open>hold_q\<close> that look for a waiting frame: the first in the first \<open>n\<close> slots, \<open>None\<close>
  if the loop leaves the array.
\<close>

fun scan_held :: "skb_hold_q list \<Rightarrow> nat \<Rightarrow> skb_hold_q option option" where
  "scan_held q 0 = Some None"
| "scan_held [] (Suc n) = None"
| "scan_held (nd # q) (Suc n) = (if hq_skb nd \<noteq> None then Some (Some nd) else scan_held q n)"

definition arm_rx :: "skb_hold_q \<Rightarrow> rxtid \<Rightarrow> rxtid" where
  "arm_rx nd r = r\<lparr>issue_timer_seq := hq_seq nd, tid_timer_scheduled := True, timerwait_seq_num := seq_next r,
     continuous_count := continuous_count r + 1\<rparr>"

definition recv_timer :: "aggr_conn \<Rightarrow> nat \<Rightarrow> aggr_conn option" where
  "recv_timer c tid =
     (let r = rx_tid c tid;
          r1 = (if tid_timer_scheduled r \<and> timerwait_seq_num r \<noteq> seq_next r
                then r\<lparr>tid_timer := None, tid_timer_scheduled := False, continuous_count := 0\<rparr> else r)
      in if tid_timer_scheduled r1 then Some (upd_rx c tid (\<lambda>_. r1))
         else
           (case scan_held (hold_q r1) (hold_q_sz r1) of
              None \<Rightarrow> None
            | Some None \<Rightarrow> Some (upd_rx c tid (\<lambda>_. r1))
            | Some (Some nd) \<Rightarrow>
                Some (upd_rx c tid (\<lambda>_. (arm_rx nd r1)\<lparr>tid_timer := Some (tid_timeout_setting c tid)\<rparr>))))"

text \<open>
  \<open>aggr_process_recv_frm\<close>: the result says whether the frame was taken (\<open>is_queued\<close>).  \<open>no_drop\<close> is
  the configuration flag \<open>ATH6KL_CONF_DISABLE_RX_AGGR_DROP\<close>.
\<close>

definition aggr_process_recv_frm ::
    "(nat \<Rightarrow> bool) \<Rightarrow> bool \<Rightarrow> aggr_conn \<Rightarrow> nat \<Rightarrow> nat \<Rightarrow> bool \<Rightarrow> skb \<Rightarrow> (bool \<times> aggr_conn) option" where
  "aggr_process_recv_frm can no_drop c tid seq_no is_amsdu frame =
     (let c0 = upd_rxst c tid (\<lambda>s. s\<lparr>num_into_aggr := num_into_aggr s + 1\<rparr>) in
      if \<not> aggr (rx_tid c0 tid) then
        if is_amsdu then
          (case aggr_slice_amsdu can c0 tid frame of
             None \<Rightarrow> None
           | Some c1 \<Rightarrow> Some (True, deliver_rxq (upd_rxst c1 tid (\<lambda>s. s\<lparr>num_amsdu := num_amsdu s + 1\<rparr>)) tid))
        else Some (False, c0)
      else
        do {
          (drop_it, c1) \<leftarrow> recv_window can (recv_sync c0 tid seq_no) tid seq_no;
          if drop_it \<and> \<not> no_drop then Some (True, rx_log c1 [RxFree frame])
          else do {
            c2 \<leftarrow> recv_store c1 tid seq_no is_amsdu frame;
            c3 \<leftarrow> aggr_deque_frms can c2 tid 0 True;
            c4 \<leftarrow> recv_timer c3 tid;
            Some (True, c4)
          }
        })"

section \<open>The timer\<close>

text \<open>
  \<open>aggr_timeout\<close>, run when the timer has fired and so is pending no more.  The index of its scan is 8 bits wide: with more than 255 slots and no frame in
  the first 256 it does not end.
\<close>

definition timeout_skip :: "(nat \<Rightarrow> bool) \<Rightarrow> aggr_conn \<Rightarrow> nat \<Rightarrow> aggr_conn option" where
  "timeout_skip can c tid =
     (let wait = timerwait_seq_num (rx_tid c tid); next = seq_mask (int wait + 1) in do {
        c1 \<leftarrow> aggr_deque_frms can (upd_rxst c tid (\<lambda>s. s\<lparr>num_timeouts := num_timeouts s + 1\<rparr>)) tid next False;
        c2 \<leftarrow> aggr_deque_frms can c1 tid 0 True;
        if seq_next (rx_tid c2 tid) = next then
          if unat (continuous_count (rx_tid c2 tid)) \<ge> ATH6KL_MAX_WAIT_CONTINUOUS_PKT then do {
            c3 \<leftarrow> aggr_deque_frms can c2 tid (seq_mask (int (issue_timer_seq (rx_tid c2 tid)) + 1)) False;
            c4 \<leftarrow> aggr_deque_frms can c3 tid 0 True;
            Some (upd_rx c4 tid (\<lambda>r. r\<lparr>continuous_count := 0\<rparr>))
          }
          else Some c2
        else Some (upd_rx c2 tid (\<lambda>r. r\<lparr>continuous_count := 0\<rparr>))
      })"

definition timeout_scan :: "rxtid \<Rightarrow> skb_hold_q option option" where
  "timeout_scan r =
     (if hold_q_sz r \<le> 255 then scan_held (hold_q r) (hold_q_sz r)
      else case scan_held (hold_q r) 256 of Some None \<Rightarrow> None | x \<Rightarrow> x)"

definition timeout_rearm :: "nat \<Rightarrow> rxtid \<Rightarrow> rxtid" where
  "timeout_rearm setting r =
     (let cc = unat (continuous_count r);
          next = (if cc > 1 \<and> cc \<le> ATH6KL_MAX_WAIT_CONTINUOUS_PKT then setting div ((cc - 1) * 2) else setting);
          r1 = (if cc > 1 \<and> \<not> cc \<le> ATH6KL_MAX_WAIT_CONTINUOUS_PKT then r\<lparr>continuous_count := 0\<rparr> else r)
      in if tid_timer_scheduled r1 then r1\<lparr>tid_timer := Some next\<rparr> else r1)"

definition aggr_timeout :: "(nat \<Rightarrow> bool) \<Rightarrow> aggr_conn \<Rightarrow> nat \<Rightarrow> aggr_conn option" where
  "aggr_timeout can c0 tid =
     (let c = upd_rx c0 tid (\<lambda>r. r\<lparr>tid_timer := None\<rparr>); r = rx_tid c tid in
      if \<not> aggr r \<or> \<not> tid_timer_scheduled r then Some c
      else do {
        c1 \<leftarrow> (if timerwait_seq_num r = seq_next r then timeout_skip can c tid else Some c);
        let c2 = upd_rx c1 tid (\<lambda>r. r\<lparr>tid_timer_scheduled := False\<rparr>);
        nd \<leftarrow> timeout_scan (rx_tid c2 tid);
        let c3 = (case nd of None \<Rightarrow> c2 | Some x \<Rightarrow> upd_rx c2 tid (arm_rx x));
        Some (upd_rx c3 tid (timeout_rearm (tid_timeout_setting c3 tid)))
      })"

section \<open>Setting up and tearing down a block ack agreement\<close>

definition aggr_delete_tid_state :: "(nat \<Rightarrow> bool) \<Rightarrow> aggr_conn \<Rightarrow> nat \<Rightarrow> aggr_conn option" where
  "aggr_delete_tid_state can c tid =
     (if tid \<ge> NUM_OF_TIDS then Some c
      else
        map_option (\<lambda>c1. c1\<lparr>rx_tid := (rx_tid c1)(tid := (rx_tid c1 tid)\<lparr>aggr := False, win_sz := 0, seq_next := 0,
            hold_q_sz := 0, hold_q := []\<rparr>), rx_stat := (rx_stat c1)(tid := zero_rxstats)\<rparr>)
          (if aggr (rx_tid c tid) then aggr_deque_frms can c tid 0 False else Some c))"

definition AGGR_BA_EVT_GET_CONNID :: "nat \<Rightarrow> nat" where "AGGR_BA_EVT_GET_CONNID x = x div 16"
definition AGGR_BA_EVT_GET_TID :: "nat \<Rightarrow> nat" where "AGGR_BA_EVT_GET_TID x = x mod 16"

text \<open>
  \<open>aggr_recv_addba_req_evt\<close> for the station the event names, if there is one: \<open>find_sta\<close> is
  \<open>ath6kl_find_sta_by_aid\<close>, \<open>conns\<close> the aggregation state per station slot, \<open>kz\<close> whether the array
  can be allocated.
\<close>

definition addba_setup :: "(nat \<Rightarrow> bool) \<Rightarrow> bool \<Rightarrow> aggr_conn \<Rightarrow> nat \<Rightarrow> nat \<Rightarrow> nat \<Rightarrow> aggr_conn option" where
  "addba_setup can kz c tid seq_no winsz =
     map_option (\<lambda>c1.
         let c2 = upd_rx c1 tid (\<lambda>r. r\<lparr>seq_next := seq_no, hold_q := []\<rparr>) in
         if \<not> kz then c2
         else
           let c3 = upd_rx c2 tid (\<lambda>r. r\<lparr>hold_q := replicate (TID_WINDOW_SZ winsz)
                      \<lparr>hq_skb = None, hq_amsdu = False, hq_seq = 0\<rparr>,
                    win_sz := winsz, hold_q_sz := TID_WINDOW_SZ winsz\<rparr>)
           in if rxq (rx_tid c3 tid) \<noteq> [] then c3
              else upd_rx c3 tid (\<lambda>r. r\<lparr>aggr := True, sync_next_seq := True\<rparr>))
       (if aggr (rx_tid c tid) then aggr_delete_tid_state can c tid else Some c)"

definition aggr_recv_addba_req_evt ::
    "(nat \<Rightarrow> bool) \<Rightarrow> bool \<Rightarrow> (nat \<Rightarrow> nat option) \<Rightarrow> (nat \<Rightarrow> aggr_conn) \<Rightarrow> nat \<Rightarrow> nat \<Rightarrow> nat \<Rightarrow> (nat \<Rightarrow> aggr_conn) option" where
  "aggr_recv_addba_req_evt can kz find_sta conns tid seq_no winsz =
     (let conn_tid = AGGR_BA_EVT_GET_TID tid in
      if conn_tid \<ge> NUM_OF_TIDS then Some conns
      else case find_sta (AGGR_BA_EVT_GET_CONNID tid) of
        None \<Rightarrow> Some conns
      | Some s \<Rightarrow> map_option (\<lambda>c. conns(s := c)) (addba_setup can kz (conns s) conn_tid seq_no winsz))"

section \<open>What slicing yields\<close>

text \<open>
  The frames in an aggregate, without the shortage of buffers: the specification the loop is
  compared with.  The relation also says that the loop ends.
\<close>

definition sub_len :: "(int \<Rightarrow> u8) \<Rightarrow> int \<Rightarrow> nat" where
  "sub_len mem fp = le16 (mem (fp + 13)) (mem (fp + 12))"

definition sub_frame :: "(int \<Rightarrow> u8) \<Rightarrow> int \<Rightarrow> skb" where
  "sub_frame mem fp = skb_of (ath6kl_wmi_dot3_2_dix (read_bytes mem fp (sub_len mem fp + ETH_HDR_LEN)))"

definition sub_ok :: "(int \<Rightarrow> u8) \<Rightarrow> int \<Rightarrow> bool" where
  "sub_ok mem fp \<longleftrightarrow> MIN_MSDU_SUBFRAME_PAYLOAD_LEN \<le> sub_len mem fp \<and> sub_len mem fp \<le> MAX_MSDU_SUBFRAME_PAYLOAD_LEN"

definition sub_step :: "(int \<Rightarrow> u8) \<Rightarrow> int \<Rightarrow> nat" where
  "sub_step mem fp = (sub_len mem fp + ETH_HDR_LEN + 3) div 4 * 4"

inductive slices :: "(int \<Rightarrow> u8) \<Rightarrow> int \<Rightarrow> u16 \<Rightarrow> skb list \<Rightarrow> bool" for mem where
  slices_end: "unat len \<le> ETH_HDR_LEN \<or> \<not> sub_ok mem fp \<Longrightarrow> slices mem fp len []"
| slices_last: "ETH_HDR_LEN < unat len \<Longrightarrow> sub_ok mem fp \<Longrightarrow> unat len = sub_len mem fp + ETH_HDR_LEN \<Longrightarrow>
    slices mem fp len [sub_frame mem fp]"
| slices_more: "ETH_HDR_LEN < unat len \<Longrightarrow> sub_ok mem fp \<Longrightarrow> unat len \<noteq> sub_len mem fp + ETH_HDR_LEN \<Longrightarrow>
    slices mem (fp + int (sub_step mem fp)) (len - of_nat (sub_step mem fp)) fs \<Longrightarrow>
    slices mem fp len (sub_frame mem fp # fs)"

definition slices_of :: "skb \<Rightarrow> skb list \<Rightarrow> bool" where
  "slices_of s fs \<longleftrightarrow> slices (skb_mem s) (skb_ptr s + int ETH_HDR_LEN) (of_int (int (skb_len s) - int ETH_HDR_LEN)) fs"

text \<open>Buffers come and go in \<open>free_q\<close> only.\<close>

definition buf_moved :: "aggr_conn \<Rightarrow> aggr_conn \<Rightarrow> bool" where
  "buf_moved c c' \<longleftrightarrow> c' = c\<lparr>free_q := free_q c', n_alloc := n_alloc c'\<rparr>"

lemma buf_moved_refl [simp]: "buf_moved c c" by (simp add: buf_moved_def)

lemma buf_moved_trans: "buf_moved a b \<Longrightarrow> buf_moved b c \<Longrightarrow> buf_moved a c"
  unfolding buf_moved_def by (cases a; cases b; cases c) simp

lemma buf_moved_set [simp]: "buf_moved c (c\<lparr>free_q := a\<rparr>)" "buf_moved c (c\<lparr>n_alloc := b\<rparr>)"
  "buf_moved c (c\<lparr>free_q := a, n_alloc := b\<rparr>)"
  by (simp_all add: buf_moved_def)

lemma buf_moved_fields:
  assumes "buf_moved c c'"
  shows "rx_tid c' = rx_tid c" "rx_stat c' = rx_stat c" "tid_timeout_setting c' = tid_timeout_setting c"
    "rx_events c' = rx_events c"
  using assms unfolding buf_moved_def by (cases c; cases c'; simp)+

lemma alloc_netbufs_moved: "buf_moved c (ath6kl_alloc_netbufs can c n)"
proof (induction n arbitrary: c)
  case 0 then show ?case by simp
next
  case (Suc n)
  show ?case
  proof (cases "can (n_alloc c)")
    case True
    have "buf_moved c (c\<lparr>n_alloc := n_alloc c + 1, free_q := free_q c + 1\<rparr>)" by (simp add: buf_moved_def)
    then show ?thesis using True buf_moved_trans [OF _ Suc.IH] by (simp add: Let_def)
  next
    case False then show ?thesis by (simp add: Let_def)
  qed
qed

lemma alloc_netbufs_grows: "\<forall>n. can n \<Longrightarrow> free_q (ath6kl_alloc_netbufs can c n) = free_q c + n"
  by (induction n arbitrary: c) (simp_all add: Let_def)

lemma get_free_skb:
  assumes "aggr_get_free_skb can c = (ok, c')"
  shows "buf_moved c c'" "\<forall>n. can n \<Longrightarrow> ok"
proof -
  define c1 where "c1 = (if free_q c < AGGR_NUM_OF_FREE_NETBUFS div 4 then ath6kl_alloc_netbufs can c AGGR_NUM_OF_FREE_NETBUFS else c)"
  have m: "buf_moved c c1" by (simp add: c1_def alloc_netbufs_moved)
  have e: "(ok, c') = (if free_q c1 = 0 then (False, c1) else (True, c1\<lparr>free_q := free_q c1 - 1\<rparr>))"
    using assms [symmetric] unfolding aggr_get_free_skb_def c1_def [symmetric] Let_def .
  show "buf_moved c c'" using e m buf_moved_trans [OF m] by (auto split: if_split_asm)
  assume "\<forall>n. can n"
  then have "free_q c1 \<noteq> 0"
    by (cases "free_q c < AGGR_NUM_OF_FREE_NETBUFS div 4") (auto simp: c1_def rx_consts alloc_netbufs_grows)
  then show ok using e by simp
qed

lemma slice_loop:
  assumes "slices mem fp len fs"
  shows "\<exists>m c1. aggr_slice_loop can c mem fp len q = Some (q @ take m fs, c1) \<and> buf_moved c c1
    \<and> ((\<forall>n. can n) \<longrightarrow> take m fs = fs)"
  using assms
proof (induction arbitrary: c q)
  case (slices_end len fp)
  then have "aggr_slice_loop can c mem fp len q = Some (q, c)"
    by (subst aggr_slice_loop.simps) (auto simp: Let_def sub_ok_def sub_len_def not_le)
  then show ?case by (intro exI [of _ 0] exI [of _ c]) simp
next
  case (slices_last len fp)
  obtain ok c1 where g: "aggr_get_free_skb can c = (ok, c1)" by (cases "aggr_get_free_skb can c")
  have "aggr_slice_loop can c mem fp len q = (if ok then Some (q @ [sub_frame mem fp], c1) else Some (q, c1))"
    using slices_last by (subst aggr_slice_loop.simps) (simp add: Let_def g sub_ok_def sub_len_def sub_frame_def not_less)
  then show ?case using get_free_skb [OF g] by (intro exI [of _ "if ok then 1 else 0"] exI [of _ c1]) auto
next
  case (slices_more len fp fs)
  obtain ok c1 where g: "aggr_get_free_skb can c = (ok, c1)" by (cases "aggr_get_free_skb can c")
  have e: "aggr_slice_loop can c mem fp len q = (if ok then aggr_slice_loop can c1 mem (fp + int (sub_step mem fp))
      (len - of_nat (sub_step mem fp)) (q @ [sub_frame mem fp]) else Some (q, c1))"
    using slices_more.hyps(1-3) by (subst aggr_slice_loop.simps)
      (simp add: Let_def g sub_ok_def sub_len_def sub_frame_def sub_step_def not_less)
  show ?case
  proof (cases ok)
    case False
    then show ?thesis using e get_free_skb [OF g] by (intro exI [of _ 0] exI [of _ c1]) auto
  next
    case True
    obtain m c2 where "aggr_slice_loop can c1 mem (fp + int (sub_step mem fp)) (len - of_nat (sub_step mem fp))
        (q @ [sub_frame mem fp]) = Some ((q @ [sub_frame mem fp]) @ take m fs, c2)"
      "buf_moved c1 c2" "(\<forall>n. can n) \<longrightarrow> take m fs = fs" using slices_more.IH by blast
    then show ?thesis using e True get_free_skb(1) [OF g] buf_moved_trans
      by (intro exI [of _ "Suc m"] exI [of _ c2]) auto
  qed
qed

text \<open>
  A sender's view: an MSDU is a destination, a source, a type and a payload; on the air it is a
  802.3 frame with a LLC/SNAP header, padded to a word unless it is the last.
\<close>

record msdu =
  ms_dst :: "u8 list"
  ms_src :: "u8 list"
  ms_snap :: "u8 list"
  ms_type :: "u8 list"
  ms_data :: "u8 list"

definition msdu_ok :: "msdu \<Rightarrow> bool" where
  "msdu_ok m \<longleftrightarrow> length (ms_dst m) = 6 \<and> length (ms_src m) = 6 \<and> length (ms_snap m) = 6 \<and> length (ms_type m) = 2
     \<and> MIN_MSDU_SUBFRAME_PAYLOAD_LEN \<le> 8 + length (ms_data m) \<and> 8 + length (ms_data m) \<le> MAX_MSDU_SUBFRAME_PAYLOAD_LEN"

definition put_sub :: "msdu \<Rightarrow> u8 list" where
  "put_sub m = ms_dst m @ ms_src m @ [le16_hi (8 + length (ms_data m)), le16_lo (8 + length (ms_data m))]
     @ ms_snap m @ ms_type m @ ms_data m"

definition ether_frame :: "msdu \<Rightarrow> u8 list" where
  "ether_frame m = ms_dst m @ ms_src m @ ms_type m @ ms_data m"

fun put_subs :: "msdu list \<Rightarrow> u8 list" where
  "put_subs [] = []"
| "put_subs [m] = put_sub m"
| "put_subs (m # ms) = put_sub m @ replicate ((length (put_sub m) + 3) div 4 * 4 - length (put_sub m)) 0 @ put_subs ms"

lemma length_put_sub: "msdu_ok m \<Longrightarrow> length (put_sub m) = 22 + length (ms_data m)"
  by (simp add: msdu_ok_def put_sub_def)

lemma dix_put_sub: "msdu_ok m \<Longrightarrow> ath6kl_wmi_dot3_2_dix (put_sub m) = ether_frame m"
  by (simp add: msdu_ok_def put_sub_def ether_frame_def ath6kl_wmi_dot3_2_dix_def)

lemma read_put_sub:
  assumes ok: "msdu_ok m" and rd: "read_bytes mem fp (length (put_sub m)) = put_sub m"
  shows "sub_len mem fp = 8 + length (ms_data m)" "sub_ok mem fp" "sub_frame mem fp = skb_of (ether_frame m)"
    "sub_len mem fp + ETH_HDR_LEN = length (put_sub m)"
proof -
  have at: "mem (fp + int i) = put_sub m ! i" if "i < length (put_sub m)" for i
    using arg_cong [OF rd, of "\<lambda>l. l ! i"] that by simp
  have "mem (fp + 12) = le16_hi (8 + length (ms_data m))" "mem (fp + 13) = le16_lo (8 + length (ms_data m))"
    using at [of 12] at [of 13] ok by (simp_all add: length_put_sub) (simp_all add: put_sub_def msdu_ok_def nth_append)
  moreover have "8 + length (ms_data m) < 65536" using ok by (simp add: msdu_ok_def rx_consts)
  ultimately show l: "sub_len mem fp = 8 + length (ms_data m)" by (simp add: sub_len_def le16_round_trip)
  then show "sub_ok mem fp" using ok by (simp add: sub_ok_def msdu_ok_def)
  show n: "sub_len mem fp + ETH_HDR_LEN = length (put_sub m)" using ok by (simp add: l length_put_sub rx_consts)
  show "sub_frame mem fp = skb_of (ether_frame m)" by (simp add: sub_frame_def n rd dix_put_sub ok)
qed

lemma unat_minus_of_nat:
  fixes x :: "'a::len word"
  assumes "unat x = n + r"
  shows "unat (x - of_nat n) = r"
proof -
  have "n < 2 ^ LENGTH('a)" using assms unsigned_less [of x, where ?'a = nat] by linarith
  then have u: "unat (of_nat n :: 'a word) = n" by (simp add: unat_of_nat)
  then have "of_nat n \<le> x" using assms by (simp add: word_le_nat_alt)
  then show ?thesis using assms u by (simp add: unat_sub)
qed

lemma slices_put_subs:
  "\<forall>m\<in>set ms. msdu_ok m \<Longrightarrow> read_bytes mem fp (length (put_subs ms)) = put_subs ms \<Longrightarrow> unat len = length (put_subs ms) \<Longrightarrow>
   slices mem fp len (map (\<lambda>m. skb_of (ether_frame m)) ms)"
proof (induction ms arbitrary: fp len rule: put_subs.induct)
  case 1
  then show ?case by (simp add: slices_end)
next
  case (2 m)
  then have p: "msdu_ok m" "read_bytes mem fp (length (put_sub m)) = put_sub m" by simp_all
  show ?case using slices_last [of len mem fp] read_put_sub [OF p] 2(3) by (simp add: length_put_sub p(1))
next
  case (3 m m' ms)
  let ?rest = "put_subs (m' # ms)" and ?n = "(length (put_sub m) + 3) div 4 * 4"
  have ok: "msdu_ok m" using 3(2) by simp
  have n: "length (put_sub m) \<le> ?n" by presburger
  have split: "length (put_subs (m # m' # ms)) = ?n + length ?rest" using n by simp
  have rd: "read_bytes mem fp ?n @ read_bytes mem (fp + int ?n) (length ?rest)
      = (put_sub m @ replicate (?n - length (put_sub m)) 0) @ ?rest"
    using 3(3) unfolding split read_bytes_append by simp
  then have rd2: "read_bytes mem (fp + int ?n) (length ?rest) = ?rest"
    and rd1: "read_bytes mem fp ?n = put_sub m @ replicate (?n - length (put_sub m)) 0"
    using append_eq_append_conv [THEN iffD1, OF disjI1, OF _ rd] n by simp_all
  have p: "read_bytes mem fp (length (put_sub m)) = put_sub m"
    using arg_cong [OF rd1, of "take (length (put_sub m))"] read_bytes_append [of mem fp "length (put_sub m)" "?n - length (put_sub m)"] n
    by simp
  note f = read_put_sub [OF ok p]
  have st: "sub_step mem fp = ?n" by (simp add: sub_step_def f(4))
  have "0 < length (put_sub m')" using 3(2) by (simp add: length_put_sub)
  then have r: "0 < length ?rest" by (cases ms) (auto simp: div_greater_zero_iff Suc_le_eq)
  have u: "unat len = ?n + length ?rest" using 3(4) split by simp
  have "unat (len - of_nat ?n) = length ?rest" by (rule unat_minus_of_nat [OF u])
  then have "slices mem (fp + int ?n) (len - of_nat ?n) (map (\<lambda>m. skb_of (ether_frame m)) (m' # ms))"
    using 3(1) 3(2) rd2 by simp
  then have "slices mem fp len (sub_frame mem fp # map (\<lambda>m. skb_of (ether_frame m)) (m' # ms))"
  proof (intro slices_more)
    show "ETH_HDR_LEN < unat len" using u r f(4) n by linarith
    show "unat len \<noteq> sub_len mem fp + ETH_HDR_LEN" using u r f(4) n by linarith
  qed (simp_all only: f(2) st)
  then show ?case by (simp add: f(3))
qed


lemma slice_amsdu:
  assumes "slices_of s fs"
  shows "\<exists>m c'. aggr_slice_amsdu can c tid s = Some c' \<and> ((\<forall>n. can n) \<longrightarrow> take m fs = fs)
    \<and> c' = rx_log (upd_rx c tid (\<lambda>r. r\<lparr>rxq := rxq r @ take m fs\<rparr>)) [RxFree s]\<lparr>free_q := free_q c', n_alloc := n_alloc c'\<rparr>"
proof -
  obtain m c1 where l: "aggr_slice_loop can c (skb_mem s) (skb_ptr s + int ETH_HDR_LEN)
      (of_int (int (skb_len s) - int ETH_HDR_LEN)) (rxq (rx_tid c tid)) = Some (rxq (rx_tid c tid) @ take m fs, c1)"
      "buf_moved c c1" "(\<forall>n. can n) \<longrightarrow> take m fs = fs"
    using slice_loop [OF assms [unfolded slices_of_def]] by blast
  let ?c' = "rx_log (upd_rx c1 tid (\<lambda>r. r\<lparr>rxq := rxq (rx_tid c tid) @ take m fs\<rparr>)) [RxFree s]"
  have "aggr_slice_amsdu can c tid s = Some ?c'" unfolding aggr_slice_amsdu_def l(1) by simp
  moreover have "?c' = rx_log (upd_rx c tid (\<lambda>r. r\<lparr>rxq := rxq r @ take m fs\<rparr>)) [RxFree s]\<lparr>free_q := free_q ?c', n_alloc := n_alloc ?c'\<rparr>"
    using buf_moved_fields [OF l(2)] by (cases c; cases c1) (simp add: rx_log_def upd_rx_def)
  ultimately show ?thesis using l(3) by blast
qed

text \<open>
  Property C20.  A-MSDU round trip.  If the payload of a received frame is what a sender makes of a
  list of MSDUs (802.3 subframes, LLC/SNAP headers, padded to words), slicing it always returns,
  appends to the queue the Ethernet frames of a first part of the list, in order and byte for
  byte, all of them when buffers can be had, and frees the aggregate once.
\<close>

theorem slice_amsdu_round_trip:
  assumes "skb_bytes s = eh @ put_subs ms" and "length eh = ETH_HDR_LEN" and "skb_len s < 65536"
    and "\<forall>m\<in>set ms. msdu_ok m"
  shows "\<exists>k c'. aggr_slice_amsdu can c tid s = Some c' \<and> ((\<forall>n. can n) \<longrightarrow> take k ms = ms)
    \<and> map skb_bytes (rxq (rx_tid c' tid)) = map skb_bytes (rxq (rx_tid c tid)) @ map ether_frame (take k ms)
    \<and> rx_events c' = rx_events c @ [RxFree s]
    \<and> (\<forall>x. x \<noteq> tid \<longrightarrow> rx_tid c' x = rx_tid c x) \<and> hold_q (rx_tid c' tid) = hold_q (rx_tid c tid)
    \<and> seq_next (rx_tid c' tid) = seq_next (rx_tid c tid)"
proof -
  have len: "skb_len s = 14 + length (put_subs ms)"
    using arg_cong [OF assms(1), of length] assms(2) by (simp add: skb_bytes_def rx_consts)
  have "read_bytes (skb_mem s) (skb_ptr s) 14 @ read_bytes (skb_mem s) (skb_ptr s + 14) (length (put_subs ms)) = eh @ put_subs ms"
    using assms(1) unfolding skb_bytes_def len read_bytes_append by simp
  then have rd: "read_bytes (skb_mem s) (skb_ptr s + 14) (length (put_subs ms)) = put_subs ms"
    using append_eq_append_conv assms(2) by (simp add: rx_consts)
  have "unat (of_int (int (skb_len s) - 14) :: u16) = length (put_subs ms)"
    using len assms(3) by (simp add: unat_of_nat)
  then have "slices_of s (map (\<lambda>m. skb_of (ether_frame m)) ms)"
    using slices_put_subs [OF assms(4) rd] by (simp add: slices_of_def rx_consts)
  from slice_amsdu [OF this, of can c tid] obtain k c' where k:
    "aggr_slice_amsdu can c tid s = Some c'" "(\<forall>n. can n) \<longrightarrow> take k (map (\<lambda>m. skb_of (ether_frame m)) ms) = map (\<lambda>m. skb_of (ether_frame m)) ms"
    and c': "c' = rx_log (upd_rx c tid (\<lambda>r. r\<lparr>rxq := rxq r @ take k (map (\<lambda>m. skb_of (ether_frame m)) ms)\<rparr>)) [RxFree s]\<lparr>free_q := free_q c', n_alloc := n_alloc c'\<rparr>"
    by blast
  have "rx_tid c' = (rx_tid c)(tid := (rx_tid c tid)\<lparr>rxq := rxq (rx_tid c tid) @ take k (map (\<lambda>m. skb_of (ether_frame m)) ms)\<rparr>)"
    by (subst c') simp
  moreover have "rx_events c' = rx_events c @ [RxFree s]" by (subst c') simp
  moreover have "(\<forall>n. can n) \<longrightarrow> take k ms = ms" using k(2) by (metis length_map length_take min_def take_all take_map nat_le_linear)
  ultimately show ?thesis using k(1) by (intro exI [of _ k] exI [of _ c']) (simp add: take_map o_def)
qed

text \<open>
  The loop trusts the length field of a subframe: if it says more than the aggregate has left, the
  frame made from it contains memory from behind the received buffer.
\<close>

lemma slice_reads_past_end:
  assumes "slices_of s fs" and "28 < skb_len s" and "skb_len s < 65536"
    and "sub_ok (skb_mem s) (skb_ptr s + 14)" and "skb_len s < sub_len (skb_mem s) (skb_ptr s + 14) + 28"
  shows "\<exists>n. fs \<noteq> [] \<and> skb_bytes (fs ! 0) = ath6kl_wmi_dot3_2_dix (read_bytes (skb_mem s) (skb_ptr s + 14) n)
    \<and> skb_ptr s + int (skb_len s) < skb_ptr s + 14 + int n"
proof -
  have u: "unat (of_int (int (skb_len s) - 14) :: u16) = skb_len s - 14"
    using assms(2,3) unat_minus_of_nat [of "of_nat (skb_len s) :: u16" 14 "skb_len s - 14"] by (simp add: unat_of_nat)
  show ?thesis
    using assms(1) unfolding slices_of_def
    by (cases rule: slices.cases) (use assms u in \<open>auto simp: rx_consts sub_frame_def\<close>)
qed

section \<open>The window\<close>

text \<open>
  The abstract view of a traffic identifier: the slots from \<open>seq_next\<close> on, as a list.  With a window
  size that divides 4096 the slot of a sequence number does not change when the numbers wrap.
\<close>

definition win_ok :: "rxtid \<Rightarrow> bool" where
  "win_ok r \<longleftrightarrow> 0 < hold_q_sz r \<and> hold_q_sz r dvd 4096 \<and> length (hold_q r) = hold_q_sz r \<and> seq_next r < 4096"

definition win :: "rxtid \<Rightarrow> skb_hold_q list" where
  "win r = map (\<lambda>k. hold_q r ! ((seq_next r + k) mod hold_q_sz r)) [0..<hold_q_sz r]"

definition clear_slot :: "skb_hold_q \<Rightarrow> skb_hold_q" where
  "clear_slot nd = nd\<lparr>hq_skb := None\<rparr>"

lemma clear_slot_simps [simp]: "hq_skb (clear_slot nd) = None" "hq_amsdu (clear_slot nd) = hq_amsdu nd" "hq_seq (clear_slot nd) = hq_seq nd"
  by (simp_all add: clear_slot_def)

lemma length_win [simp]: "length (win r) = hold_q_sz r"
  by (simp add: win_def)

lemma win_nth: "k < hold_q_sz r \<Longrightarrow> win r ! k = hold_q r ! ((seq_next r + k) mod hold_q_sz r)"
  by (simp add: win_def)

lemma slot_inj:
  fixes s :: nat
  assumes "(s + k) mod z = (s + j) mod z" "k < z" "j < z"
  shows "k = j"
proof (rule ccontr)
  assume "k \<noteq> j"
  then have "z dvd (s + max k j) - (s + min k j)"
    using assms(1) mod_eq_dvd_iff_nat [of "s + min k j" "s + max k j" z] by (auto simp: max_def min_def)
  then show False using assms(2,3) \<open>k \<noteq> j\<close> by (auto simp: max_def min_def dest: dvd_imp_le split: if_split_asm)
qed

lemma seq_mask_nat: "seq_mask (int n) = n mod 4096"
  by (simp add: seq_mask_def nat_mod_distrib)

lemma next_seq [simp]: "ATH6KL_NEXT_SEQ_NO n = (n + 1) mod 4096"
  using seq_mask_nat [of "n + 1"] by (simp add: ATH6KL_NEXT_SEQ_NO_def add.commute)

lemma win_turn:
  assumes ok: "win_ok r" and seq: "seq_next r' = (seq_next r + 1) mod 4096" and sz: "hold_q_sz r' = hold_q_sz r"
    and q: "hold_q r' = (hold_q r)[seq_next r mod hold_q_sz r := nd]"
  shows "win_ok r'" "win r' = tl (win r) @ [nd]"
proof -
  let ?z = "hold_q_sz r" and ?s = "seq_next r"
  have z: "0 < ?z" "?z dvd 4096" "length (hold_q r) = ?z" using ok by (simp_all add: win_ok_def)
  show "win_ok r'" using ok seq sz q by (simp add: win_ok_def)
  show "win r' = tl (win r) @ [nd]"
  proof (rule nth_equalityI)
    show "length (win r') = length (tl (win r) @ [nd])" using z sz by simp
    fix k assume "k < length (win r')"
    then have k: "k < ?z" by (simp add: sz)
    have m: "((?s + 1) mod 4096 + k) mod ?z = (?s + Suc k) mod ?z"
      by (metis add.assoc add_Suc_right mod_add_left_eq mod_mod_cancel plus_1_eq_Suc z(2))
    then have w: "win r' ! k = (hold_q r)[?s mod ?z := nd] ! ((?s + Suc k) mod ?z)"
      using k by (simp add: win_nth sz seq q)
    show "win r' ! k = (tl (win r) @ [nd]) ! k"
    proof (cases "Suc k = ?z")
      case True
      then have "(?s + Suc k) mod ?z = ?s mod ?z" by simp
      then show ?thesis using w z True by (simp add: nth_append)
    next
      case False
      then have "(?s + Suc k) mod ?z \<noteq> ?s mod ?z" using slot_inj [of ?s "Suc k" ?z 0] k by auto
      then show ?thesis using w k False by (simp add: nth_append nth_tl win_nth)
    qed
  qed
qed

text \<open>What leaving a slot hands up and frees.\<close>

definition node_ok :: "skb_hold_q \<Rightarrow> bool" where
  "node_ok nd \<longleftrightarrow> (\<forall>s. hq_skb nd = Some s \<and> hq_amsdu nd \<longrightarrow> (\<exists>fs. slices_of s fs))"

definition out_of :: "(nat \<Rightarrow> bool) \<Rightarrow> skb_hold_q \<Rightarrow> skb list \<Rightarrow> bool" where
  "out_of can nd fs \<longleftrightarrow> (case hq_skb nd of
      None \<Rightarrow> fs = []
    | Some s \<Rightarrow> if hq_amsdu nd then \<exists>m all. slices_of s all \<and> fs = take m all \<and> ((\<forall>n. can n) \<longrightarrow> fs = all) else fs = [s])"

definition freed :: "skb_hold_q \<Rightarrow> rx_event list" where
  "freed nd = (case hq_skb nd of Some s \<Rightarrow> if hq_amsdu nd then [RxFree s] else [] | None \<Rightarrow> [])"

text \<open>The first \<open>n\<close> slots have been left, nothing else of the traffic identifier has changed.\<close>

definition moved_only :: "rxtid \<Rightarrow> rxtid \<Rightarrow> bool" where
  "moved_only r r' \<longleftrightarrow> r\<lparr>seq_next := seq_next r', hold_q := hold_q r', rxq := rxq r'\<rparr> = r'"

lemma moved_only_refl [simp]: "moved_only r r" by (simp add: moved_only_def)

lemma moved_only_trans: "moved_only a b \<Longrightarrow> moved_only b c \<Longrightarrow> moved_only a c"
  unfolding moved_only_def by (cases a; cases b; cases c) simp

lemma moved_only_fields:
  assumes "moved_only r r'"
  shows "aggr r' = aggr r" "win_sz r' = win_sz r" "hold_q_sz r' = hold_q_sz r" "timerwait_seq_num r' = timerwait_seq_num r"
    "sync_next_seq r' = sync_next_seq r" "tid_timer r' = tid_timer r" "tid_timer_scheduled r' = tid_timer_scheduled r"
    "issue_timer_seq r' = issue_timer_seq r" "continuous_count r' = continuous_count r"
  using assms unfolding moved_only_def by (cases r; cases r'; simp)+

definition dequeued :: "(nat \<Rightarrow> bool) \<Rightarrow> nat \<Rightarrow> nat \<Rightarrow> skb list list \<Rightarrow> aggr_conn \<Rightarrow> aggr_conn \<Rightarrow> bool" where
  "dequeued can tid n outs c c' \<longleftrightarrow>
     (let r = rx_tid c tid; r' = rx_tid c' tid; w = win r in
      list_all2 (out_of can) (take n w) outs
      \<and> moved_only r r' \<and> (\<forall>x. x \<noteq> tid \<longrightarrow> rx_tid c' x = rx_tid c x)
      \<and> seq_next r' = (seq_next r + n) mod 4096 \<and> rxq r' = rxq r @ concat outs
      \<and> win_ok r' \<and> win r' = drop n w @ map clear_slot (take n w)
      \<and> rx_events c' = rx_events c @ concat (map freed (take n w))
      \<and> tid_timeout_setting c' = tid_timeout_setting c)"

lemma win_hd: "win_ok r \<Longrightarrow> win r = hold_q r ! (seq_next r mod hold_q_sz r) # tl (win r)"
  by (rule nth_equalityI) (auto simp: win_ok_def win_nth nth_Cons nth_tl split: nat.split)

lemma deque_slot_step:
  assumes ok: "win_ok (rx_tid c tid)" and nd: "node_ok (hd (win (rx_tid c tid)))"
  shows "\<exists>c1 out. deque_slot can c tid (seq_next (rx_tid c tid) mod hold_q_sz (rx_tid c tid)) = Some c1
    \<and> dequeued can tid 1 [out] c (upd_rx c1 tid (\<lambda>r. r\<lparr>seq_next := ATH6KL_NEXT_SEQ_NO (seq_next r)\<rparr>))"
proof -
  define r where "r = rx_tid c tid"
  define i where "i = seq_next r mod hold_q_sz r"
  define node where "node = hold_q r ! i"
  have okr: "win_ok r" using ok by (simp add: r_def)
  have i: "i < length (hold_q r)" using okr by (simp add: i_def win_ok_def)
  have w: "win r = node # tl (win r)" using win_hd [OF okr] by (simp add: node_def i_def)
  have nd': "node_ok node" using nd w by (metis list.sel(1) r_def)
  have self: "(hold_q r)[i := clear_slot node] = hold_q r" if "hq_skb node = None"
    using that by (cases node) (simp add: node_def clear_slot_def list_update_same_conv i)
  have turn: "dequeued can tid 1 [out] c c2"
    if "rx_tid c2 = (rx_tid c)(tid := r\<lparr>seq_next := (seq_next r + 1) mod 4096, hold_q := (hold_q r)[i := clear_slot node], rxq := rxq r @ out\<rparr>)"
      "rx_events c2 = rx_events c @ freed node" "tid_timeout_setting c2 = tid_timeout_setting c" "out_of can node out" for out c2
  proof -
    have "win_ok (rx_tid c2 tid)" "win (rx_tid c2 tid) = tl (win r) @ [clear_slot node]"
      using win_turn [OF okr, of "rx_tid c2 tid" "clear_slot node"] that(1) by (simp_all add: i_def)
    moreover have "take 1 (win r) = [node]" "drop 1 (win r) = tl (win r)"
      using w by (metis One_nat_def take_Suc_Cons take_0, metis drop_Suc One_nat_def drop_0)
    ultimately show ?thesis using that by (simp add: dequeued_def Let_def moved_only_def flip: r_def)
  qed
  show ?thesis
  proof (cases "hq_skb node")
    case None
    let ?c1 = "upd_rxst c tid (\<lambda>s. s\<lparr>num_hole := num_hole s + 1\<rparr>)"
    have "deque_slot can c tid i = Some ?c1" using None by (simp add: deque_slot_def Let_def node_def r_def)
    moreover have "dequeued can tid 1 [[]] c (upd_rx ?c1 tid (\<lambda>r. r\<lparr>seq_next := ATH6KL_NEXT_SEQ_NO (seq_next r)\<rparr>))"
      by (rule turn) (use None self in \<open>auto simp: freed_def out_of_def r_def\<close>)
    ultimately show ?thesis unfolding i_def r_def by blast
  next
    case (Some s)
    show ?thesis
    proof (cases "hq_amsdu node")
      case False
      let ?c1 = "upd_rx (upd_rx c tid (\<lambda>r. r\<lparr>rxq := rxq r @ [s]\<rparr>)) tid (\<lambda>r. r\<lparr>hold_q := (hold_q r)[i := node\<lparr>hq_skb := None\<rparr>]\<rparr>)"
      have "deque_slot can c tid i = Some ?c1" using Some False by (simp add: deque_slot_def Let_def node_def r_def)
      moreover have "dequeued can tid 1 [[s]] c (upd_rx ?c1 tid (\<lambda>r. r\<lparr>seq_next := ATH6KL_NEXT_SEQ_NO (seq_next r)\<rparr>))"
        by (rule turn) (use Some False in \<open>auto simp: freed_def out_of_def r_def clear_slot_def\<close>)
      ultimately show ?thesis unfolding i_def r_def by blast
    next
      case True
      obtain fs where fs: "slices_of s fs" using nd' Some True by (auto simp: node_ok_def)
      obtain m c' where sl: "aggr_slice_amsdu can c tid s = Some c'" "(\<forall>n. can n) \<longrightarrow> take m fs = fs"
        and c': "c' = rx_log (upd_rx c tid (\<lambda>r. r\<lparr>rxq := rxq r @ take m fs\<rparr>)) [RxFree s]\<lparr>free_q := free_q c', n_alloc := n_alloc c'\<rparr>"
        using slice_amsdu [OF fs, of can c tid] by blast
      let ?c1 = "upd_rx c' tid (\<lambda>r. r\<lparr>hold_q := (hold_q r)[i := node\<lparr>hq_skb := None\<rparr>]\<rparr>)"
      have fields: "rx_tid c' = (rx_tid c)(tid := r\<lparr>rxq := rxq r @ take m fs\<rparr>)" "rx_events c' = rx_events c @ [RxFree s]"
        "tid_timeout_setting c' = tid_timeout_setting c"
        by (subst c', simp add: r_def)+
      have "deque_slot can c tid i = Some ?c1" using Some True sl by (simp add: deque_slot_def Let_def node_def r_def)
      moreover have "out_of can node (take m fs)" using Some True fs sl(2) by (auto simp: out_of_def)
      moreover have "dequeued can tid 1 [take m fs] c (upd_rx ?c1 tid (\<lambda>r. r\<lparr>seq_next := ATH6KL_NEXT_SEQ_NO (seq_next r)\<rparr>))"
        by (rule turn) (use Some True fields calculation(2) in \<open>auto simp: freed_def r_def clear_slot_def\<close>)
      ultimately show ?thesis unfolding i_def r_def by blast
    qed
  qed
qed

lemma dequeued_0: "win_ok (rx_tid c tid) \<Longrightarrow> dequeued can tid 0 [] c c"
  by (simp add: dequeued_def Let_def win_ok_def)

lemma dequeuedD:
  assumes "dequeued can tid n os c c'"
  shows "list_all2 (out_of can) (take n (win (rx_tid c tid))) os" "moved_only (rx_tid c tid) (rx_tid c' tid)"
    "x \<noteq> tid \<Longrightarrow> rx_tid c' x = rx_tid c x" "seq_next (rx_tid c' tid) = (seq_next (rx_tid c tid) + n) mod 4096"
    "rxq (rx_tid c' tid) = rxq (rx_tid c tid) @ concat os" "win_ok (rx_tid c' tid)"
    "win (rx_tid c' tid) = drop n (win (rx_tid c tid)) @ map clear_slot (take n (win (rx_tid c tid)))"
    "rx_events c' = rx_events c @ concat (map freed (take n (win (rx_tid c tid))))"
    "tid_timeout_setting c' = tid_timeout_setting c"
  using assms by (simp_all add: dequeued_def Let_def)

lemma dequeued_trans:
  assumes a: "dequeued can tid n os c c1" and b: "dequeued can tid m ps c1 c2" and le: "n + m \<le> hold_q_sz (rx_tid c tid)"
  shows "dequeued can tid (n + m) (os @ ps) c c2"
proof -
  note A = dequeuedD [OF a] and B = dequeuedD [OF b]
  define w where "w = win (rx_tid c tid)"
  have lw: "length w = hold_q_sz (rx_tid c tid)" by (simp add: w_def)
  have t: "take m (win (rx_tid c1 tid)) = take m (drop n w)" using le lw by (simp add: A(7) flip: w_def)
  have d: "drop m (win (rx_tid c1 tid)) = drop (n + m) w @ map clear_slot (take n w)"
    using le lw by (simp add: A(7) add.commute flip: w_def)
  have tk: "take (n + m) w = take n w @ take m (drop n w)" by (simp add: take_add)
  have "list_all2 (out_of can) (take (n + m) w) (os @ ps)"
    unfolding tk using A(1) B(1) by (intro list_all2_appendI) (simp_all only: t w_def [symmetric])
  moreover have "seq_next (rx_tid c2 tid) = (seq_next (rx_tid c tid) + (n + m)) mod 4096"
    by (simp add: A(4) B(4) mod_simps add.assoc)
  moreover have "win (rx_tid c2 tid) = drop (n + m) w @ map clear_slot (take (n + m) w)" unfolding B(7) d t tk by simp
  moreover have "rx_events c2 = rx_events c @ concat (map freed (take (n + m) w))"
    unfolding B(8) A(8) t tk w_def [symmetric] by simp
  ultimately show ?thesis using A(2,3,5,9) B(2,3,5,6,9) moved_only_trans by (simp add: dequeued_def Let_def w_def)
qed

lemma seq_slot:
  fixes s :: nat
  assumes "z dvd 4096"
  shows "((s + 1) mod 4096 + k) mod z = (s + Suc k) mod z"
  by (metis assms add.assoc add_Suc_right mod_add_left_eq mod_mod_cancel plus_1_eq_Suc)

abbreviation filled :: "skb_hold_q list \<Rightarrow> nat" where
  "filled w \<equiv> length (takeWhile (\<lambda>nd. hq_skb nd \<noteq> None) w)"

lemma deque_loop:
  assumes "win_ok (rx_tid c tid)" and "0 < m" and "m \<le> hold_q_sz (rx_tid c tid)"
    and "\<forall>nd\<in>set (take m (win (rx_tid c tid))). node_ok nd"
    and "idx_end = (seq_next (rx_tid c tid) + m) mod hold_q_sz (rx_tid c tid)"
  shows "\<exists>os c1. aggr_deque_loop can c tid inorder (seq_next (rx_tid c tid) mod hold_q_sz (rx_tid c tid)) idx_end = Some c1
    \<and> dequeued can tid (if inorder then filled (take m (win (rx_tid c tid))) else m) os c c1"
  using assms
proof (induction m arbitrary: c)
  case 0
  then show ?case by simp
next
  case (Suc m)
  define r where "r = rx_tid c tid"
  define i where "i = seq_next r mod hold_q_sz r"
  have ok: "win_ok r" using Suc.prems(1) by (simp add: r_def)
  have z: "hold_q_sz r dvd 4096" "Suc m \<le> hold_q_sz r" "i < length (hold_q r)"
    using ok Suc.prems(3) by (simp_all add: win_ok_def i_def r_def)
  have w: "win r = hold_q r ! i # tl (win r)" using win_hd [OF ok] by (simp add: i_def)
  have tw: "take (Suc m) (win r) = hold_q r ! i # take m (tl (win r))" by (subst w) simp
  have nd: "node_ok (hd (win r))" using Suc.prems(4) tw w by (metis list.sel(1) list.set_intros(1) r_def)
  show ?case
  proof (cases "inorder \<and> hq_skb (hold_q r ! i) = None")
    case True
    then have "aggr_deque_loop can c tid inorder i idx_end = Some c"
      using z(3) by (subst aggr_deque_loop.simps) (simp add: r_def)
    moreover have "filled (take (Suc m) (win r)) = 0" using True by (simp add: tw)
    ultimately show ?thesis using True dequeued_0 [of c tid can] ok unfolding i_def r_def by auto
  next
    case False
    obtain c1 o1 where s: "deque_slot can c tid i = Some c1"
      and d: "dequeued can tid 1 [o1] c (upd_rx c1 tid (\<lambda>r. r\<lparr>seq_next := ATH6KL_NEXT_SEQ_NO (seq_next r)\<rparr>))"
      using deque_slot_step [of c tid can] ok nd unfolding i_def r_def by blast
    define c2 where "c2 = upd_rx c1 tid (\<lambda>r. r\<lparr>seq_next := ATH6KL_NEXT_SEQ_NO (seq_next r)\<rparr>)"
    note d2 = d [folded c2_def]
    note D = dequeuedD [OF d2, folded r_def]
    have sz2: "hold_q_sz (rx_tid c2 tid) = hold_q_sz r" using moved_only_fields(3) [OF D(2)] .
    define i2 where "i2 = seq_next (rx_tid c2 tid) mod hold_q_sz (rx_tid c2 tid)"
    have i2: "i2 = (seq_next r + 1) mod hold_q_sz r" using seq_slot [OF z(1), of "seq_next r" 0] by (simp add: i2_def sz2 D(4))
    have unf: "aggr_deque_loop can c tid inorder i idx_end
        = (if i2 = idx_end then Some c2 else aggr_deque_loop can c2 tid inorder i2 idx_end)"
      using False z(3) by (subst aggr_deque_loop.simps)
        (auto simp: s Let_def AGGR_WIN_IDX_def i2_def c2_def [symmetric] r_def [symmetric] simp del: upd_rx_simps next_seq)
    have fl: "inorder \<Longrightarrow> filled (take (Suc m) (win r)) = Suc (filled (take m (tl (win r))))" using False by (simp add: tw)
    have last: "i2 = idx_end \<longleftrightarrow> m = 0"
      using slot_inj [of "seq_next r + 1" 0 "hold_q_sz r" m] z(2) Suc.prems(5) by (auto simp: i2 r_def)
    show ?thesis
    proof (cases "m = 0")
      case True
      then have "(if inorder then filled (take (Suc m) (win r)) else Suc m) = 1" using fl by simp
      then show ?thesis using unf last True d2 unfolding i_def r_def by auto
    next
      case m: False
      have tl2: "take m (win (rx_tid c2 tid)) = take m (tl (win r))"
        using z(2) D(7) by (simp add: drop_Suc)
      have "\<forall>nd\<in>set (take m (win (rx_tid c2 tid))). node_ok nd"
        unfolding tl2 using Suc.prems(4) tw by (simp add: r_def)
      moreover have "idx_end = (seq_next (rx_tid c2 tid) + m) mod hold_q_sz (rx_tid c2 tid)"
        using seq_slot [OF z(1), of "seq_next r" m] Suc.prems(5) by (simp add: sz2 D(4) r_def)
      ultimately obtain os c3 where c3: "aggr_deque_loop can c2 tid inorder i2 idx_end = Some c3"
        "dequeued can tid (if inorder then filled (take m (tl (win r))) else m) os c2 c3"
        using Suc.IH [of c2] D(6) m z(2) sz2 unfolding i2_def tl2 by auto
      define n where "n = (if inorder then filled (take m (tl (win r))) else m)"
      have "filled (take m (tl (win r))) \<le> m"
        by (rule order_trans [OF length_takeWhile_le]) simp
      then have "1 + n \<le> hold_q_sz (rx_tid c tid)" using z(2) by (simp add: n_def r_def)
      from dequeued_trans [OF d2 c3(2) [folded n_def] this]
      have "dequeued can tid (1 + n) ([o1] @ os) c c3" .
      moreover have "1 + n = (if inorder then filled (take (Suc m) (win r)) else Suc m)" using fl by (simp add: n_def)
      ultimately show ?thesis using unf last m c3(1) unfolding i_def r_def by auto
    qed
  qed
qed

text \<open>
  How many slots a call leaves: those before \<open>seq_no\<close>, the whole window if \<open>seq_no\<close> is 0 or its slot
  is the first one, and in order only up to the first hole.
\<close>

definition deque_count :: "rxtid \<Rightarrow> nat \<Rightarrow> nat" where
  "deque_count r seq_no =
     (let d = (if seq_no = 0 then 0 else (seq_no + 4096 - seq_next r) mod hold_q_sz r) in if d = 0 then hold_q_sz r else d)"

lemma deque_count:
  assumes "win_ok r" "seq_no < 4096"
  shows "0 < deque_count r seq_no" "deque_count r seq_no \<le> hold_q_sz r"
    "(if seq_no \<noteq> 0 then seq_no else seq_next r) mod hold_q_sz r = (seq_next r + deque_count r seq_no) mod hold_q_sz r"
proof -
  have z: "0 < hold_q_sz r" "hold_q_sz r dvd 4096" "seq_next r < 4096" using assms(1) by (simp_all add: win_ok_def)
  have d: "(seq_no + 4096 - seq_next r) mod hold_q_sz r < hold_q_sz r" using z by simp
  show "0 < deque_count r seq_no" "deque_count r seq_no \<le> hold_q_sz r"
    using z(1) d by (auto simp: deque_count_def Let_def intro: less_imp_le)
  have "(seq_next r + (seq_no + 4096 - seq_next r) mod hold_q_sz r) mod hold_q_sz r = (seq_no + 4096) mod hold_q_sz r"
    using z(3) by (simp add: mod_simps)
  also have "\<dots> = seq_no mod hold_q_sz r" using z(2) by (metis mod_add_right_eq mod_0_imp_dvd dvd_imp_mod_0 add_0_right)
  finally have e: "(seq_next r + (seq_no + 4096 - seq_next r) mod hold_q_sz r) mod hold_q_sz r = seq_no mod hold_q_sz r" .
  show "(if seq_no \<noteq> 0 then seq_no else seq_next r) mod hold_q_sz r = (seq_next r + deque_count r seq_no) mod hold_q_sz r"
    using e by (auto simp: deque_count_def Let_def)
qed

text \<open>A whole call: the slots are left and the queue has gone up.\<close>

definition passed :: "(nat \<Rightarrow> bool) \<Rightarrow> nat \<Rightarrow> nat \<Rightarrow> skb list list \<Rightarrow> aggr_conn \<Rightarrow> aggr_conn \<Rightarrow> bool" where
  "passed can tid n outs c c' \<longleftrightarrow>
     (let r = rx_tid c tid; r' = rx_tid c' tid; w = win r in
      list_all2 (out_of can) (take n w) outs
      \<and> moved_only r r' \<and> (\<forall>x. x \<noteq> tid \<longrightarrow> rx_tid c' x = rx_tid c x)
      \<and> seq_next r' = (seq_next r + n) mod 4096 \<and> rxq r' = []
      \<and> win_ok r' \<and> win r' = drop n w @ map clear_slot (take n w)
      \<and> rx_events c' = rx_events c @ concat (map freed (take n w)) @ map RxUp (rxq r @ concat outs)
      \<and> tid_timeout_setting c' = tid_timeout_setting c)"

lemma passedD:
  assumes "passed can tid n os c c'"
  shows "list_all2 (out_of can) (take n (win (rx_tid c tid))) os" "moved_only (rx_tid c tid) (rx_tid c' tid)"
    "x \<noteq> tid \<Longrightarrow> rx_tid c' x = rx_tid c x" "seq_next (rx_tid c' tid) = (seq_next (rx_tid c tid) + n) mod 4096"
    "rxq (rx_tid c' tid) = []" "win_ok (rx_tid c' tid)"
    "win (rx_tid c' tid) = drop n (win (rx_tid c tid)) @ map clear_slot (take n (win (rx_tid c tid)))"
    "rx_events c' = rx_events c @ concat (map freed (take n (win (rx_tid c tid)))) @ map RxUp (rxq (rx_tid c tid) @ concat os)"
    "tid_timeout_setting c' = tid_timeout_setting c"
  using assms by (simp_all add: passed_def Let_def)

lemma win_rxq [simp]: "win (r\<lparr>rxq := q\<rparr>) = win r" "win_ok (r\<lparr>rxq := q\<rparr>) = win_ok r"
  by (simp_all add: win_def win_ok_def)

lemma deque_frms:
  assumes ok: "win_ok (rx_tid c tid)" and seq: "seq_no < 4096" and m: "m = deque_count (rx_tid c tid) seq_no"
    and nd: "\<forall>nd\<in>set (take m (win (rx_tid c tid))). node_ok nd"
  shows "\<exists>os c'. aggr_deque_frms can c tid seq_no inorder = Some c'
    \<and> passed can tid (if inorder then filled (take m (win (rx_tid c tid))) else m) os c c'"
proof -
  define r where "r = rx_tid c tid"
  define n where "n = (if inorder then filled (take m (win r)) else m)"
  have okr: "win_ok r" using ok by (simp add: r_def)
  obtain os c1 where l: "aggr_deque_loop can c tid inorder (seq_next r mod hold_q_sz r)
      ((if seq_no \<noteq> 0 then seq_no else seq_next r) mod hold_q_sz r) = Some c1" "dequeued can tid n os c c1"
    using deque_loop [of c tid m _ can inorder] ok deque_count [OF okr seq] nd unfolding n_def r_def m by metis
  let ?c2 = "upd_rxst c1 tid (\<lambda>s. s\<lparr>num_delivered := num_delivered s + of_nat (length (rxq (rx_tid c1 tid)))\<rparr>)"
  have z: "hold_q_sz r \<noteq> 0" using okr by (simp add: win_ok_def)
  have "aggr_deque_frms can c tid seq_no inorder = Some (deliver_rxq ?c2 tid)"
    using l(1) z by (simp add: aggr_deque_frms_def Let_def AGGR_WIN_IDX_def flip: r_def)
  moreover have "passed can tid n os c (deliver_rxq ?c2 tid)"
  proof -
    note D = dequeuedD [OF l(2)]
    have "moved_only (rx_tid c tid) ((rx_tid c1 tid)\<lparr>rxq := []\<rparr>)"
      by (rule moved_only_trans [OF D(2)]) (simp add: moved_only_def)
    then show ?thesis using D by (simp add: passed_def Let_def deliver_rxq_def)
  qed
  ultimately show ?thesis unfolding n_def r_def by blast
qed

text \<open>
  Property C19.  Moving the window refines a list.  Seen as the list of slots from \<open>seq_next\<close> on,
  \<open>aggr_deque_frms\<close> takes a first part of the list off, puts as many empty slots at its end and
  advances \<open>seq_next\<close> by as many numbers modulo 4096; it hands up what was queued and then the
  frames of that part in the order of their numbers, aggregates sliced, and nothing stays queued.
  In order the part ends at the first hole; else it reaches up to \<open>seq_no\<close>, or is the whole
  window when \<open>seq_no\<close> is 0.  The call always returns, and other traffic identifiers are untouched.
\<close>

theorem deque_refines_list:
  assumes "win_ok (rx_tid c tid)" and "seq_no < 4096"
    and "m = deque_count (rx_tid c tid) seq_no"
    and "\<forall>nd\<in>set (take m (win (rx_tid c tid))). node_ok nd"
    and "n = (if inorder then filled (take m (win (rx_tid c tid))) else m)"
  shows "\<exists>os c'. aggr_deque_frms can c tid seq_no inorder = Some c'
    \<and> win_ok (rx_tid c' tid)
    \<and> win (rx_tid c' tid) = drop n (win (rx_tid c tid)) @ map clear_slot (take n (win (rx_tid c tid)))
    \<and> seq_next (rx_tid c' tid) = (seq_next (rx_tid c tid) + n) mod 4096
    \<and> list_all2 (out_of can) (take n (win (rx_tid c tid))) os
    \<and> rx_events c' = rx_events c @ concat (map freed (take n (win (rx_tid c tid))))
        @ map RxUp (rxq (rx_tid c tid) @ concat os)
    \<and> rxq (rx_tid c' tid) = [] \<and> (\<forall>x. x \<noteq> tid \<longrightarrow> rx_tid c' x = rx_tid c x)"
proof -
  obtain os c' where "aggr_deque_frms can c tid seq_no inorder = Some c'" "passed can tid n os c c'"
    using deque_frms [OF assms(1-4), of can inorder] unfolding assms(5) by blast
  then show ?thesis using passedD [of can tid n os c c'] by (intro exI [of _ os] exI [of _ c']) simp
qed

definition ex_skb :: "nat \<Rightarrow> skb" where
  "ex_skb i = \<lparr>skb_id = Some i, skb_mem = (\<lambda>_. 0), skb_ptr = 0, skb_len = 60,
     skb_head = - int NET_SKB_PAD, skb_protocol = 0, skb_cloned = False\<rparr>"

definition ex_rxtid :: "nat \<Rightarrow> (nat \<times> nat) list \<Rightarrow> rxtid" where
  "ex_rxtid st held = \<lparr>aggr = True, win_sz = 2, seq_next = st, hold_q_sz = 4,
     hold_q = map (\<lambda>i. case find (\<lambda>p. fst p mod 4 = i) held of
                None \<Rightarrow> \<lparr>hq_skb = None, hq_amsdu = False, hq_seq = 0\<rparr>
              | Some p \<Rightarrow> \<lparr>hq_skb = Some (ex_skb (snd p)), hq_amsdu = False, hq_seq = fst p\<rparr>) [0..<4],
     rxq = [], timerwait_seq_num = st, sync_next_seq = False, tid_timer = None, tid_timer_scheduled = False,
     issue_timer_seq = 0, continuous_count = 0\<rparr>"

definition ex_conn :: "nat \<Rightarrow> (nat \<times> nat) list \<Rightarrow> aggr_conn" where
  "ex_conn st held = \<lparr>rx_tid = (\<lambda>_. ex_rxtid st held), rx_stat = (\<lambda>_. zero_rxstats),
     tid_timeout_setting = (\<lambda>_. 100), free_q = 0, n_alloc = 0, rx_events = []\<rparr>"

lemma upt_0_4: "[0..<4] = [0, 1, 2, 3::nat]" by (simp add: upt_rec)

lemma ex_win_ok: "st < 4096 \<Longrightarrow> win_ok (ex_rxtid st held)"
  by (simp add: win_ok_def ex_rxtid_def)

lemma deque_refines_list_witness:
  "\<exists>os c'. aggr_deque_frms (\<lambda>_. True) (ex_conn 4095 [(0, 7)]) 0 1 False = Some c'
    \<and> seq_next (rx_tid c' 0) = 1 \<and> rxq (rx_tid c' 0) = []"
proof -
  have w: "win (rx_tid (ex_conn 4095 [(0, 7)]) 0) =
      [\<lparr>hq_skb = None, hq_amsdu = False, hq_seq = 0\<rparr>, \<lparr>hq_skb = Some (ex_skb 7), hq_amsdu = False, hq_seq = 0\<rparr>,
       \<lparr>hq_skb = None, hq_amsdu = False, hq_seq = 0\<rparr>, \<lparr>hq_skb = None, hq_amsdu = False, hq_seq = 0\<rparr>]"
    by (simp add: win_def ex_conn_def ex_rxtid_def upt_0_4)
  have m: "deque_count (rx_tid (ex_conn 4095 [(0, 7)]) 0) 1 = 2" by (simp add: deque_count_def ex_conn_def ex_rxtid_def)
  have ok: "win_ok (rx_tid (ex_conn 4095 [(0, 7)]) 0)" by (simp add: ex_conn_def ex_win_ok)
  have s: "seq_next (rx_tid (ex_conn 4095 [(0, 7)]) 0) = 4095" by (simp add: ex_conn_def ex_rxtid_def)
  show ?thesis
    using deque_refines_list [OF ok _ m [symmetric], of 2 False "\<lambda>_. True"] w s by (auto simp: node_ok_def)
qed

section \<open>The window test\<close>

definition seq_dist :: "nat \<Rightarrow> nat \<Rightarrow> nat" where
  "seq_dist st cur = (cur + 4096 - st) mod 4096"

lemma seq_dist_less [simp]: "seq_dist st cur < 4096" by (simp add: seq_dist_def)

lemma seq_mask_diff: "st \<le> 4096 \<Longrightarrow> seq_mask (int cur - int st) = seq_dist st cur"
proof -
  assume st: "st \<le> 4096"
  have "(int cur - int st) mod 4096 = (int cur - int st + 4096) mod 4096" by simp
  also have "int cur - int st + 4096 = int (cur + 4096 - st)" using st by (simp add: of_nat_diff)
  finally show ?thesis using seq_mask_nat [of "cur + 4096 - st"] by (simp add: seq_mask_def seq_dist_def)
qed

lemma seq_dist_cases:
  assumes "st < 4096" "cur < 4096"
  shows "seq_dist st cur = (if st \<le> cur then cur - st else cur + 4096 - st)"
proof (cases "st \<le> cur")
  case True
  then have "cur + 4096 - st = (cur - st) + 4096" by simp
  then have "seq_dist st cur = (cur - st) mod 4096" unfolding seq_dist_def by (simp only: mod_add_self2)
  then show ?thesis using True assms by simp
next
  case False then show ?thesis using assms by (simp add: seq_dist_def)
qed

lemma seq_dist_add: "st < 4096 \<Longrightarrow> d < 4096 \<Longrightarrow> seq_dist st ((st + d) mod 4096) = d"
  by (cases "st + d < 4096") (auto simp: seq_dist_cases mod_if)

lemma seq_dist_back: "st < 4096 \<Longrightarrow> cur < 4096 \<Longrightarrow> (st + seq_dist st cur) mod 4096 = cur"
  by (simp add: seq_dist_cases)

lemma outside_dist:
  assumes "st < 4096" "cur < 4096" "0 < z" "z < 4096"
  shows "outside st ((st + z) mod 4096) cur \<longleftrightarrow> z < seq_dist st cur"
proof (cases "st + z < 4096")
  case True
  then show ?thesis using assms by (auto simp: outside_def seq_dist_cases)
next
  case False
  then have "(st + z) mod 4096 = st + z - 4096" using assms by (simp add: mod_if)
  then show ?thesis using assms False by (auto simp: outside_def seq_dist_cases)
qed

lemma outside_next:
  assumes "st < 4096" "cur < 4096" "0 < z" "2 * z < 4096" "z \<le> seq_dist st cur"
  shows "outside ((st + (z - 1)) mod 4096) (((st + (z - 1)) mod 4096 + z) mod 4096) cur \<longleftrightarrow> 2 * z \<le> seq_dist st cur"
proof -
  let ?e = "(st + (z - 1)) mod 4096"
  have "seq_dist ?e cur = seq_dist st cur - (z - 1)"
  proof -
    have "?e = (if st + (z - 1) < 4096 then st + (z - 1) else st + (z - 1) - 4096)" using assms by (simp add: mod_if)
    then show ?thesis using assms by (auto simp: seq_dist_cases split: if_splits)
  qed
  then show ?thesis using outside_dist [of ?e cur z] assms by auto
qed

text \<open>
  What the window test does, by the distance of the number from the start of the window: nothing
  inside the window; up to twice its size ahead the window is pushed so that the number is its
  last, or by its full size when its new start would be 0; further ahead it is emptied and placed
  before the number; numbers from behind are old.
\<close>

definition push_count :: "nat \<Rightarrow> nat \<Rightarrow> nat \<Rightarrow> nat" where
  "push_count z st cur = (if seq_dist (z - 1) cur = 0 then z else seq_dist st cur - (z - 1))"

lemma recv_window_cases:
  assumes ok: "win_ok (rx_tid c tid)" and z2: "2 \<le> z" "z \<le> 1024" and z: "z = hold_q_sz (rx_tid c tid)" and cur: "cur < 4096"
    and nd: "\<forall>nd\<in>set (win (rx_tid c tid)). node_ok nd" and d: "d = seq_dist (seq_next (rx_tid c tid)) cur"
  shows "d < z \<Longrightarrow> recv_window can c tid cur = Some (False, c)"
    "z \<le> d \<Longrightarrow> d < 2 * z \<Longrightarrow> \<exists>os c1. passed can tid (push_count z (seq_next (rx_tid c tid)) cur) os c c1
       \<and> recv_window can c tid cur = Some (False, upd_rxst c1 tid (\<lambda>s. s\<lparr>num_oow := num_oow s + 1\<rparr>))"
    "2 * z \<le> d \<Longrightarrow> d \<le> 4096 - 2 * z \<Longrightarrow> \<exists>os c1. passed can tid z os c c1
       \<and> recv_window can c tid cur = Some (True, upd_rxst (upd_rx c1 tid (\<lambda>r. r\<lparr>seq_next := seq_dist z cur\<rparr>)) tid (\<lambda>s. s\<lparr>num_oow := num_oow s + 1\<rparr>))"
    "4096 - 2 * z < d \<Longrightarrow> recv_window can c tid cur = Some (True, upd_rxst c tid (\<lambda>s. s\<lparr>num_oow := num_oow s + 1\<rparr>))"
proof -
  define r where "r = rx_tid c tid"
  define st where "st = seq_next r"
  have okr: "win_ok r" using ok by (simp add: r_def)
  have st: "st < 4096" using okr by (simp add: st_def win_ok_def)
  have dd: "d = seq_dist st cur" by (simp add: d st_def r_def)
  have en: "seq_mask (int (seq_next r) + int (hold_q_sz r) - 1) = (st + (z - 1)) mod 4096"
    using z2 seq_mask_nat [of "st + (z - 1)"] by (simp add: st_def z r_def of_nat_diff)
  have ext: "seq_mask (int ((st + (z - 1)) mod 4096) + int (hold_q_sz r)) = ((st + (z - 1)) mod 4096 + z) mod 4096"
    using seq_mask_nat [of "(st + (z - 1)) mod 4096 + z"] by (simp add: z r_def)
  have rv: "seq_mask (int cur - int (seq_next r)) = d" using seq_mask_diff [of st cur] st by (simp add: dd st_def)
  have o1: "outside (seq_next r) ((st + (z - 1)) mod 4096) cur \<longleftrightarrow> z \<le> d"
    using outside_dist [OF st cur, of "z - 1"] z2 by (auto simp: st_def [symmetric] dd)
  have o2: "z \<le> d \<Longrightarrow> outside ((st + (z - 1)) mod 4096) (((st + (z - 1)) mod 4096 + z) mod 4096) cur \<longleftrightarrow> 2 * z \<le> d"
    using outside_next [OF st cur, of z] z2 by (simp add: dd)
  note unf = recv_window_def [of can c tid cur, folded r_def, unfolded Let_def en ext rv o1]
  show "d < z \<Longrightarrow> recv_window can c tid cur = Some (False, c)" by (simp add: unf)
  have zr: "hold_q_sz r = z" by (simp add: z r_def)
  show "4096 - 2 * z < d \<Longrightarrow> recv_window can c tid cur = Some (True, upd_rxst c tid (\<lambda>s. s\<lparr>num_oow := num_oow s + 1\<rparr>))"
  proof -
    assume a: "4096 - 2 * z < d"
    then have "z \<le> d" "2 * z \<le> d" "\<not> int d \<le> int ATH6KL_MAX_SEQ_NO - 2 * int z + 1" using z2 by (simp_all add: rx_consts)
    then show ?thesis using o2 by (simp add: unf zr)
  qed
  have full: "\<exists>os c1. passed can tid z os c c1 \<and> aggr_deque_frms can c tid 0 False = Some c1"
    using deque_frms [OF ok, of 0 _ can False] nd zr by (auto simp: deque_count_def r_def dest: in_set_takeD)
  show "\<exists>os c1. passed can tid z os c c1
       \<and> recv_window can c tid cur = Some (True, upd_rxst (upd_rx c1 tid (\<lambda>r. r\<lparr>seq_next := seq_dist z cur\<rparr>)) tid (\<lambda>s. s\<lparr>num_oow := num_oow s + 1\<rparr>))"
    if a: "2 * z \<le> d" "d \<le> 4096 - 2 * z"
  proof -
    obtain os c1 where "passed can tid z os c c1" "aggr_deque_frms can c tid 0 False = Some c1" using full by blast
    then show ?thesis using a o2 z2 by (auto simp: unf zr rx_consts of_nat_diff seq_mask_diff)
  qed
  show "\<exists>os c1. passed can tid (push_count z (seq_next (rx_tid c tid)) cur) os c c1
       \<and> recv_window can c tid cur = Some (False, upd_rxst c1 tid (\<lambda>s. s\<lparr>num_oow := num_oow s + 1\<rparr>))"
    if a: "z \<le> d" "d < 2 * z"
  proof -
    have "int cur - (int z - 1) = int cur - int (z - 1)" using z2 by (simp add: of_nat_diff)
    then have sm: "seq_mask (int cur - (int z - 1)) = seq_dist (z - 1) cur" using seq_mask_diff [of "z - 1" cur] z2 by (simp add: of_nat_diff)
    have cnt: "deque_count r (seq_dist (z - 1) cur) = push_count z st cur"
    proof (cases "seq_dist (z - 1) cur = 0")
      case True then show ?thesis by (simp add: deque_count_def push_count_def zr)
    next
      case False
      have "(seq_dist (z - 1) cur + 4096 - st) mod z = (d - (z - 1)) mod z"
      proof -
        have dv: "4096 mod z = 0" using okr by (simp add: win_ok_def zr)
        have "(seq_dist (z - 1) cur + 4096 - st) = d - (z - 1) \<or> (seq_dist (z - 1) cur + 4096 - st) = d - (z - 1) + 4096"
          using a st cur z2 by (auto simp: seq_dist_cases dd split: if_splits)
        then show ?thesis using dv by (metis mod_add_right_eq add.right_neutral)
      qed
      moreover have "(d - (z - 1)) mod z = (if d - (z - 1) = z then 0 else d - (z - 1))" using a z2 by auto
      ultimately show ?thesis using False a z2 by (auto simp: deque_count_def push_count_def zr Let_def st_def [symmetric] dd [symmetric])
    qed
    obtain os c1 where "passed can tid (push_count z st cur) os c c1" "aggr_deque_frms can c tid (seq_dist (z - 1) cur) False = Some c1"
      using deque_frms [OF ok _ cnt [symmetric, unfolded r_def], of can False] nd by (auto dest: in_set_takeD)
    then show ?thesis using a o2 z2 unfolding unf zr sm by (auto simp: st_def r_def)
  qed
qed

section \<open>The invariant of a window\<close>

definition empty_win :: "rxtid \<Rightarrow> bool" where
  "empty_win r \<longleftrightarrow> (\<forall>nd\<in>set (win r). hq_skb nd = None)"

definition held_seq :: "rxtid \<Rightarrow> bool" where
  "held_seq r \<longleftrightarrow> (\<forall>k<hold_q_sz r. hq_skb (win r ! k) \<noteq> None \<longrightarrow> hq_seq (win r ! k) = (seq_next r + k) mod 4096)"

definition win_inv :: "rxtid \<Rightarrow> bool" where
  "win_inv r \<longleftrightarrow> win_ok r \<and> 2 \<le> hold_q_sz r \<and> hold_q_sz r \<le> 128 \<and> held_seq r \<and> (\<forall>nd\<in>set (win r). node_ok nd)
     \<and> rxq r = [] \<and> (sync_next_seq r \<longrightarrow> empty_win r)"

definition timer_ok :: "rxtid \<Rightarrow> bool" where
  "timer_ok r \<longleftrightarrow> (tid_timer_scheduled r \<longrightarrow> tid_timer r \<noteq> None) \<and> (\<not> empty_win r \<longrightarrow> tid_timer_scheduled r \<and> timerwait_seq_num r = seq_next r)"

definition rx_inv :: "rxtid \<Rightarrow> bool" where
  "rx_inv r \<longleftrightarrow> win_inv r \<and> hq_skb (hd (win r)) = None \<and> timer_ok r"

text \<open>Nothing in the invariant looks at the counters, and of the slots only those with frames matter.\<close>

lemma win_cong: "seq_next r' = seq_next r \<Longrightarrow> hold_q_sz r' = hold_q_sz r \<Longrightarrow> hold_q r' = hold_q r \<Longrightarrow> win r' = win r"
  by (simp add: win_def)

lemma win_inv_cong:
  "seq_next r' = seq_next r \<Longrightarrow> hold_q_sz r' = hold_q_sz r \<Longrightarrow> hold_q r' = hold_q r \<Longrightarrow> rxq r' = rxq r \<Longrightarrow>
   sync_next_seq r' = sync_next_seq r \<Longrightarrow> win_inv r' = win_inv r"
  using win_cong [of r' r] by (simp add: win_inv_def win_ok_def held_seq_def empty_win_def)

lemma slot_surj:
  fixes s :: nat
  assumes "i < z"
  shows "\<exists>k<z. (s + k) mod z = i"
proof -
  have m: "s mod z < z" using assms by simp
  show ?thesis
  proof (cases "s mod z \<le> i")
    case True
    have "(s + (i - s mod z)) mod z = (s mod z + (i - s mod z)) mod z" by (rule mod_add_left_eq [symmetric])
    then show ?thesis using True assms by (intro exI [of _ "i - s mod z"]) simp
  next
    case False
    have "(s + (z + i - s mod z)) mod z = (s mod z + (z + i - s mod z)) mod z" by (rule mod_add_left_eq [symmetric])
    then show ?thesis using False assms m by (intro exI [of _ "z + i - s mod z"]) simp
  qed
qed

lemma empty_win_seq:
  assumes ok: "win_ok r" and e: "empty_win r" and s: "s < 4096"
  shows "empty_win (r\<lparr>seq_next := s, sync_next_seq := b\<rparr>)"
proof -
  have z: "0 < hold_q_sz r" "length (hold_q r) = hold_q_sz r" using ok by (simp_all add: win_ok_def)
  have all: "hq_skb (hold_q r ! i) = None" if i: "i < hold_q_sz r" for i
  proof -
    obtain k where k: "k < hold_q_sz r" "(seq_next r + k) mod hold_q_sz r = i" using slot_surj [OF i] by blast
    then have "hold_q r ! i = win r ! k" by (simp add: win_nth)
    then show ?thesis using e k(1) by (simp add: empty_win_def)
  qed
  show ?thesis unfolding empty_win_def win_def using all z(1) by auto
qed

lemma win_inv_empty_seq:
  assumes "win_inv r" "empty_win r" "s < 4096"
  shows "win_inv (r\<lparr>seq_next := s, sync_next_seq := b\<rparr>)"
proof -
  have ok: "win_ok r" using assms(1) by (simp add: win_inv_def)
  note e = empty_win_seq [OF ok assms(2,3), of b]
  have "held_seq (r\<lparr>seq_next := s, sync_next_seq := b\<rparr>)" using e by (auto simp: held_seq_def empty_win_def)
  moreover have "\<forall>nd\<in>set (win (r\<lparr>seq_next := s, sync_next_seq := b\<rparr>)). node_ok nd"
    using e by (auto simp: empty_win_def node_ok_def)
  ultimately show ?thesis using assms e by (cases b) (simp_all add: win_inv_def win_ok_def)
qed

lemma passed_win_inv:
  assumes p: "passed can tid n os c c'" and inv: "win_inv (rx_tid c tid)" and n: "n \<le> hold_q_sz (rx_tid c tid)"
  shows "win_inv (rx_tid c' tid)" "empty_win (rx_tid c tid) \<Longrightarrow> empty_win (rx_tid c' tid)"
    "n = hold_q_sz (rx_tid c tid) \<Longrightarrow> empty_win (rx_tid c' tid)"
    "n = filled (win (rx_tid c tid)) \<Longrightarrow> hq_skb (hd (win (rx_tid c' tid))) = None"
proof -
  note P = passedD [OF p] and M = moved_only_fields [OF passedD(2) [OF p]]
  define r where "r = rx_tid c tid"
  define r' where "r' = rx_tid c' tid"
  have w: "win r' = drop n (win r) @ map clear_slot (take n (win r))" using P(7) by (simp add: r_def r'_def)
  have z: "hold_q_sz r' = hold_q_sz r" "0 < hold_q_sz r" using M(3) inv by (simp_all add: r_def r'_def win_inv_def)
  show e: "empty_win (rx_tid c tid) \<Longrightarrow> empty_win (rx_tid c' tid)"
    using w by (auto simp: empty_win_def r_def [symmetric] r'_def [symmetric] dest: in_set_dropD)
  show "n = hold_q_sz (rx_tid c tid) \<Longrightarrow> empty_win (rx_tid c' tid)"
    using w by (auto simp: empty_win_def r_def [symmetric] r'_def [symmetric])
  have hs: "held_seq r'"
    unfolding held_seq_def
  proof (intro allI impI)
    fix k assume k: "k < hold_q_sz r'" and h: "hq_skb (win r' ! k) \<noteq> None"
    have "k < hold_q_sz r - n"
    proof (rule ccontr)
      assume "\<not> k < hold_q_sz r - n"
      then have "win r' ! k = clear_slot (win r ! (k - (hold_q_sz r - n)))"
        using k z n by (simp add: w nth_append r_def)
      then show False using h by simp
    qed
    then have e: "win r' ! k = win r ! (n + k)" and nk: "n + k < hold_q_sz r" by (simp_all add: w nth_append)
    then have "hq_seq (win r ! (n + k)) = (seq_next r + (n + k)) mod 4096"
      using inv h by (simp add: win_inv_def held_seq_def r_def)
    then show "hq_seq (win r' ! k) = (seq_next r' + k) mod 4096"
      using P(4) by (simp add: e [unfolded r_def r'_def] r_def r'_def mod_simps add.assoc)
  qed
  have "\<forall>nd\<in>set (win r'). node_ok nd"
    using inv by (auto simp: w win_inv_def r_def node_ok_def dest: in_set_dropD)
  then show "win_inv (rx_tid c' tid)"
    using inv hs P(5,6) M(3,5) e by (simp add: win_inv_def r_def r'_def)
  show "hq_skb (hd (win (rx_tid c' tid))) = None" if f: "n = filled (win (rx_tid c tid))"
  proof (cases "n < hold_q_sz r")
    case True
    then have "hd (win r') = win r ! n" using True by (simp add: w hd_append hd_drop_conv_nth)
    moreover have "hq_skb (win r ! n) = None"
      using nth_length_takeWhile [of "\<lambda>nd. hq_skb nd \<noteq> None" "win r"] True by (simp add: f r_def)
    ultimately show ?thesis by (simp add: r'_def)
  next
    case False
    then have "n = hold_q_sz r" using n by (simp add: r_def)
    then have "win r' = map clear_slot (win r)" by (simp add: w)
    then show ?thesis using z(2) by (cases "win r") (simp_all add: r'_def flip: length_0_conv)
  qed
qed

lemma filled_le: "filled (take m w) \<le> length w"
  by (rule order_trans [OF length_takeWhile_le]) simp

lemma passed_0: "win_ok (rx_tid c tid) \<Longrightarrow> rxq (rx_tid c tid) = [] \<Longrightarrow> passed can tid 0 [] c c"
  by (simp add: passed_def Let_def win_ok_def)

lemma passed_stat [simp]: "passed can tid n os (upd_rxst c t f) c' = passed can tid n os c c'"
  "passed can tid n os c (upd_rxst c' t f) = passed can tid n os c c'"
  by (simp_all add: passed_def Let_def)

section \<open>A received frame keeps the invariant\<close>

definition held_node :: "skb \<Rightarrow> bool \<Rightarrow> nat \<Rightarrow> skb_hold_q" where
  "held_node s am seq = \<lparr>hq_skb = Some s, hq_amsdu = am, hq_seq = seq\<rparr>"

lemma win_store:
  assumes "win_ok r" "seq < 4096" "d = seq_dist (seq_next r) seq" "d < hold_q_sz r"
  shows "win (r\<lparr>hold_q := (hold_q r)[seq mod hold_q_sz r := nd]\<rparr>) = (win r)[d := nd]"
proof (rule nth_equalityI)
  have z: "0 < hold_q_sz r" "hold_q_sz r dvd 4096" "length (hold_q r) = hold_q_sz r" "seq_next r < 4096"
    using assms(1) by (simp_all add: win_ok_def)
  have "seq = (seq_next r + d) mod 4096" using seq_dist_back [of "seq_next r" seq] z assms(2,3) by simp
  then have slot: "seq mod hold_q_sz r = (seq_next r + d) mod hold_q_sz r" using z(2) by (simp add: mod_mod_cancel)
  fix k assume "k < length (win (r\<lparr>hold_q := (hold_q r)[seq mod hold_q_sz r := nd]\<rparr>))"
  then have k: "k < hold_q_sz r" by simp
  show "win (r\<lparr>hold_q := (hold_q r)[seq mod hold_q_sz r := nd]\<rparr>) ! k = (win r)[d := nd] ! k"
    using slot_inj [of "seq_next r" k "hold_q_sz r" d] k assms(4) z by (auto simp: win_nth slot nth_list_update)
qed simp

lemma recv_store_eq:
  assumes ok: "win_ok (rx_tid c tid)" and seq: "seq < 4096" and d: "d = seq_dist (seq_next (rx_tid c tid)) seq"
    and lt: "d < hold_q_sz (rx_tid c tid)"
  shows "\<exists>c'. recv_store c tid seq am s = Some c' \<and> win (rx_tid c' tid) = (win (rx_tid c tid))[d := held_node s am seq]
    \<and> (\<exists>q. length q = length (hold_q (rx_tid c tid)) \<and> rx_tid c' = (rx_tid c)(tid := (rx_tid c tid)\<lparr>hold_q := q\<rparr>))
    \<and> rx_events c' = rx_events c @ (case hq_skb (win (rx_tid c tid) ! d) of None \<Rightarrow> [] | Some x \<Rightarrow> [RxFree x])
    \<and> tid_timeout_setting c' = tid_timeout_setting c"
proof -
  let ?r = "rx_tid c tid"
  have z: "0 < hold_q_sz ?r" "hold_q_sz ?r dvd 4096" "length (hold_q ?r) = hold_q_sz ?r" "seq_next ?r < 4096"
    using ok by (simp_all add: win_ok_def)
  have "seq = (seq_next ?r + d) mod 4096" using seq_dist_back [of "seq_next ?r" seq] z seq d by simp
  then have "win ?r ! d = hold_q ?r ! (seq mod hold_q_sz ?r)" using lt z(2) by (simp add: win_nth mod_mod_cancel)
  then show ?thesis using z win_store [OF ok seq d lt, of "held_node s am seq"]
    by (auto simp: recv_store_def Let_def AGGR_WIN_IDX_def held_node_def intro!: exI [of _ "(hold_q ?r)[seq mod hold_q_sz ?r := held_node s am seq]"]
        simp flip: not_less)
qed

lemma win_inv_update:
  assumes inv: "win_inv r" and w: "win r' = (win r)[d := held_node s am seq]" and q: "r' = r\<lparr>hold_q := q\<rparr>" "length q = length (hold_q r)"
    and seq: "seq < 4096" and d: "d = seq_dist (seq_next r) seq" "d < hold_q_sz r" and nd: "node_ok (held_node s am seq)"
    and sy: "\<not> sync_next_seq r"
  shows "win_inv r'"
proof -
  have "seq_next r < 4096" using inv by (simp add: win_inv_def win_ok_def)
  then have sd: "(seq_next r + d) mod 4096 = seq" using seq_dist_back d(1) seq by simp
  have h: "held_seq r'"
    unfolding held_seq_def
  proof (intro allI impI)
    fix k assume "k < hold_q_sz r'" "hq_skb (win r' ! k) \<noteq> None"
    then show "hq_seq (win r' ! k) = (seq_next r' + k) mod 4096"
      using inv sd d(2) unfolding w by (cases "k = d") (simp_all add: q(1) held_node_def win_inv_def held_seq_def)
  qed
  have "\<forall>nd\<in>set (win r'). node_ok nd"
    using inv nd unfolding w by (auto simp: win_inv_def dest: set_update_subset_insert [THEN subsetD])
  then show ?thesis using inv h sy q(2) by (simp add: win_inv_def win_ok_def q(1))
qed

lemma recv_window_passed:
  assumes inv: "win_inv (rx_tid c tid)" and cur: "cur < 4096"
  shows "\<exists>drop_it n os c0 c1 s. recv_window can c tid cur = Some (drop_it, c1) \<and> passed can tid n os c c0
    \<and> n \<le> hold_q_sz (rx_tid c tid) \<and> s < 4096
    \<and> rx_tid c1 = (rx_tid c0)(tid := (rx_tid c0 tid)\<lparr>seq_next := s\<rparr>) \<and> rx_events c1 = rx_events c0
    \<and> tid_timeout_setting c1 = tid_timeout_setting c0
    \<and> (s = seq_next (rx_tid c0 tid) \<or> drop_it \<and> n = hold_q_sz (rx_tid c tid))
    \<and> (drop_it \<or> s = seq_next (rx_tid c0 tid) \<and> seq_dist s cur < hold_q_sz (rx_tid c tid))
    \<and> (drop_it \<longleftrightarrow> 2 * hold_q_sz (rx_tid c tid) \<le> seq_dist (seq_next (rx_tid c tid)) cur)
    \<and> (seq_dist (seq_next (rx_tid c tid)) cur < hold_q_sz (rx_tid c tid) \<longrightarrow> n = 0)
    \<and> (drop_it \<longrightarrow> n = 0 \<and> s = seq_next (rx_tid c tid) \<or> n = hold_q_sz (rx_tid c tid))"
proof -
  define r where "r = rx_tid c tid"
  define z where "z = hold_q_sz r"
  define st where "st = seq_next r"
  define d where "d = seq_dist st cur"
  have ok: "win_ok r" "rxq r = []" "\<forall>nd\<in>set (win r). node_ok nd" and z: "2 \<le> z" "z \<le> 128" and st: "st < 4096"
    using inv by (simp_all add: win_inv_def win_ok_def r_def z_def st_def)
  have z1: "z \<le> 1024" using z by simp
  note W = recv_window_cases [of c tid z cur d can, folded r_def, OF ok(1) z(1) z1 z_def cur ok(3), folded st_def, OF d_def]
  have p0: "passed can tid 0 [] c c" using passed_0 [of c tid can] ok by (simp add: r_def)
  consider "d < z" | "z \<le> d" "d < 2 * z" | "2 * z \<le> d" "d \<le> 4096 - 2 * z" | "4096 - 2 * z < d" by linarith
  then show ?thesis
  proof cases
    case 1
    then show ?thesis using W(1) p0 z st unfolding d_def z_def st_def r_def
      by (intro exI [of _ False] exI [of _ 0] exI [of _ "[]"] exI [of _ c] exI [of _ c] exI [of _ "seq_next (rx_tid c tid)"]) simp
  next
    case 2
    obtain os c0 where p: "passed can tid (push_count z st cur) os c c0"
      and e: "recv_window can c tid cur = Some (False, upd_rxst c0 tid (\<lambda>s. s\<lparr>num_oow := num_oow s + 1\<rparr>))" using W(2) 2 by blast
    have n: "push_count z st cur \<le> z" using 2 z by (auto simp: push_count_def d_def)
    have s: "seq_next (rx_tid c0 tid) = (st + push_count z st cur) mod 4096" using passedD(4) [OF p] by (simp add: st_def r_def)
    have "seq_dist (seq_next (rx_tid c0 tid)) cur = d - push_count z st cur"
    proof -
      have "cur = (st + d) mod 4096" using seq_dist_back [OF st cur] by (simp add: d_def)
      moreover have "push_count z st cur \<le> d" using n 2 by simp
      ultimately have "cur = (st + push_count z st cur + (d - push_count z st cur)) mod 4096" by (metis add.assoc le_add_diff_inverse)
      then have "cur = (seq_next (rx_tid c0 tid) + (d - push_count z st cur)) mod 4096" unfolding s mod_add_left_eq .
      then show ?thesis using seq_dist_add [of "seq_next (rx_tid c0 tid)" "d - push_count z st cur"] 2 z by (simp add: s)
    qed
    moreover have "d - push_count z st cur < z" using 2 z by (auto simp: push_count_def d_def)
    ultimately show ?thesis using e p n 2 z unfolding d_def z_def st_def r_def
      by (intro exI [of _ False] exI [of _ "push_count (hold_q_sz (rx_tid c tid)) (seq_next (rx_tid c tid)) cur"] exI [of _ os] exI [of _ c0]
          exI [of _ "upd_rxst c0 tid (\<lambda>s. s\<lparr>num_oow := num_oow s + 1\<rparr>)"] exI [of _ "seq_next (rx_tid c0 tid)"])
        (auto simp: s)
  next
    case 3
    obtain os c0 where p: "passed can tid z os c c0" and e: "recv_window can c tid cur
        = Some (True, upd_rxst (upd_rx c0 tid (\<lambda>r. r\<lparr>seq_next := seq_dist z cur\<rparr>)) tid (\<lambda>s. s\<lparr>num_oow := num_oow s + 1\<rparr>))"
      using W(3) 3 by blast
    show ?thesis using e p 3 z unfolding d_def z_def st_def r_def
      by (intro exI [of _ True] exI [of _ "hold_q_sz (rx_tid c tid)"] exI [of _ os] exI [of _ c0] exI exI [of _ "seq_dist (hold_q_sz (rx_tid c tid)) cur"])
        auto
  next
    case 4
    then show ?thesis using W(4) p0 z st unfolding d_def z_def st_def r_def
      by (intro exI [of _ True] exI [of _ 0] exI [of _ "[]"] exI [of _ c] exI exI [of _ "seq_next (rx_tid c tid)"]) auto
  qed
qed

lemma set_win: "win_ok r \<Longrightarrow> set (win r) = set (hold_q r)"
proof -
  assume ok: "win_ok r"
  then have z: "0 < hold_q_sz r" "length (hold_q r) = hold_q_sz r" by (simp_all add: win_ok_def)
  show ?thesis
  proof
    show "set (win r) \<subseteq> set (hold_q r)" using z by (auto simp: win_def)
    show "set (hold_q r) \<subseteq> set (win r)"
    proof
      fix x assume "x \<in> set (hold_q r)"
      then obtain i where i: "i < hold_q_sz r" "x = hold_q r ! i" using z by (auto simp: in_set_conv_nth)
      then obtain k where "k < hold_q_sz r" "(seq_next r + k) mod hold_q_sz r = i" using slot_surj by blast
      then show "x \<in> set (win r)" using i by (metis length_win nth_mem win_nth)
    qed
  qed
qed

lemma scan_held: "length q = n \<Longrightarrow> scan_held q n = Some (find (\<lambda>nd. hq_skb nd \<noteq> None) q)"
  by (induction q n rule: scan_held.induct) auto

text \<open>Only the timer fields differ.\<close>

definition timer_only :: "rxtid \<Rightarrow> rxtid \<Rightarrow> bool" where
  "timer_only r r' \<longleftrightarrow> r\<lparr>timerwait_seq_num := timerwait_seq_num r', tid_timer := tid_timer r',
     tid_timer_scheduled := tid_timer_scheduled r', issue_timer_seq := issue_timer_seq r',
     continuous_count := continuous_count r'\<rparr> = r'"

lemma timer_only_trans: "timer_only a b \<Longrightarrow> timer_only b c \<Longrightarrow> timer_only a c"
  unfolding timer_only_def by (cases a; cases b; cases c) simp

lemma timer_only_fields:
  assumes "timer_only r r'"
  shows "aggr r' = aggr r" "win_sz r' = win_sz r" "hold_q_sz r' = hold_q_sz r" "hold_q r' = hold_q r" "seq_next r' = seq_next r"
    "sync_next_seq r' = sync_next_seq r" "rxq r' = rxq r" "win r' = win r" "win_inv r' = win_inv r" "empty_win r' = empty_win r"
proof -
  show a: "aggr r' = aggr r" "win_sz r' = win_sz r" "hold_q_sz r' = hold_q_sz r" "hold_q r' = hold_q r" "seq_next r' = seq_next r"
    "sync_next_seq r' = sync_next_seq r" "rxq r' = rxq r"
    using assms unfolding timer_only_def by (cases r; cases r'; simp)+
  show "win r' = win r" by (rule win_cong) (simp_all add: a)
  then show "win_inv r' = win_inv r" "empty_win r' = empty_win r"
    using win_inv_cong [of r' r] a by (simp_all add: empty_win_def)
qed

lemma find_held: "find (\<lambda>nd. hq_skb nd \<noteq> None) q = None \<longleftrightarrow> (\<forall>nd\<in>set q. hq_skb nd = None)"
  by (induction q) auto

lemma recv_timer_ok:
  assumes ok: "win_ok (rx_tid c tid)" and t: "tid_timer_scheduled (rx_tid c tid) \<longrightarrow> tid_timer (rx_tid c tid) \<noteq> None"
  shows "\<exists>c'. recv_timer c tid = Some c' \<and> timer_only (rx_tid c tid) (rx_tid c' tid) \<and> timer_ok (rx_tid c' tid)
    \<and> (\<forall>x. x \<noteq> tid \<longrightarrow> rx_tid c' x = rx_tid c x) \<and> rx_events c' = rx_events c \<and> tid_timeout_setting c' = tid_timeout_setting c"
proof -
  define r where "r = rx_tid c tid"
  define r1 where "r1 = (if tid_timer_scheduled r \<and> timerwait_seq_num r \<noteq> seq_next r
      then r\<lparr>tid_timer := None, tid_timer_scheduled := False, continuous_count := 0\<rparr> else r)"
  have t1: "timer_only r r1" "tid_timer_scheduled r1 \<longrightarrow> tid_timer r1 \<noteq> None \<and> timerwait_seq_num r1 = seq_next r1"
    using t by (simp_all add: r1_def timer_only_def r_def)
  have lq: "length (hold_q r1) = hold_q_sz r1" using ok t1(1) by (simp add: timer_only_fields win_ok_def r_def)
  define f where "f = find (\<lambda>nd. hq_skb nd \<noteq> None) (hold_q r1)"
  define r2 where "r2 = (if tid_timer_scheduled r1 then r1 else case f of None \<Rightarrow> r1
      | Some nd \<Rightarrow> (arm_rx nd r1)\<lparr>tid_timer := Some (tid_timeout_setting c tid)\<rparr>)"
  have e: "recv_timer c tid = Some (upd_rx c tid (\<lambda>_. r2))"
    unfolding recv_timer_def Let_def r_def [symmetric] r1_def [symmetric] scan_held [OF lq] f_def [symmetric]
    by (simp add: r2_def split: option.split)
  have "timer_only r1 r2" by (simp add: r2_def timer_only_def arm_rx_def split: option.split)
  then have to: "timer_only r r2" by (rule timer_only_trans [OF t1(1)])
  have emp: "empty_win r2 \<longleftrightarrow> f = None"
    using ok to t1(1) find_held [of "hold_q r1", folded f_def] by (simp add: set_win timer_only_fields empty_win_def r_def)
  have "timer_ok r2"
    using t1(2) emp by (auto simp: timer_ok_def r2_def arm_rx_def split: option.splits)
  then show ?thesis using e to by (simp add: r_def)
qed

text \<open>Taking over the first sequence number.\<close>

definition synced :: "nat \<Rightarrow> nat \<Rightarrow> aggr_conn \<Rightarrow> aggr_conn \<Rightarrow> bool" where
  "synced tid cur c c0 \<longleftrightarrow> win_inv (rx_tid c0 tid) \<and> \<not> sync_next_seq (rx_tid c0 tid)
     \<and> (rx_tid c tid)\<lparr>seq_next := seq_next (rx_tid c0 tid), sync_next_seq := False\<rparr> = rx_tid c0 tid
     \<and> (\<forall>x. x \<noteq> tid \<longrightarrow> rx_tid c0 x = rx_tid c x) \<and> rx_events c0 = rx_events c
     \<and> tid_timeout_setting c0 = tid_timeout_setting c
     \<and> (if sync_next_seq (rx_tid c tid) then empty_win (rx_tid c tid) \<and> empty_win (rx_tid c0 tid) \<and> seq_next (rx_tid c0 tid) = cur
        else rx_tid c0 tid = rx_tid c tid)"

lemma recv_sync_synced:
  assumes "win_inv (rx_tid c tid)" "cur < 4096"
  shows "synced tid cur c (recv_sync (upd_rxst c tid f) tid cur)"
proof (cases "sync_next_seq (rx_tid c tid)")
  case True
  then have "empty_win (rx_tid c tid)" "win_ok (rx_tid c tid)" using assms by (simp_all add: win_inv_def)
  then show ?thesis using True win_inv_empty_seq [OF assms(1) _ assms(2), of False] empty_win_seq [OF _ _ assms(2), of "rx_tid c tid" False]
    by (simp add: synced_def recv_sync_def)
next
  case False
  then have "(rx_tid c tid)\<lparr>sync_next_seq := False\<rparr> = rx_tid c tid" by (cases "rx_tid c tid") simp
  then show ?thesis using False assms by (simp add: synced_def recv_sync_def)
qed

text \<open>The two ways an aggregated frame can go: dropped or stored.\<close>

definition recv_drops :: "(nat \<Rightarrow> bool) \<Rightarrow> nat \<Rightarrow> nat \<Rightarrow> skb \<Rightarrow> aggr_conn \<Rightarrow> aggr_conn \<Rightarrow> bool" where
  "recv_drops can tid cur frame c0 c' \<longleftrightarrow> (\<exists>n os c1 s. passed can tid n os c0 c1
     \<and> (n = 0 \<and> s = seq_next (rx_tid c0 tid) \<or> n = hold_q_sz (rx_tid c0 tid)) \<and> s < 4096
     \<and> rx_tid c' = (rx_tid c1)(tid := (rx_tid c1 tid)\<lparr>seq_next := s\<rparr>) \<and> rx_events c' = rx_events c1 @ [RxFree frame])"

definition recv_keeps :: "(nat \<Rightarrow> bool) \<Rightarrow> nat \<Rightarrow> nat \<Rightarrow> bool \<Rightarrow> skb \<Rightarrow> aggr_conn \<Rightarrow> aggr_conn \<Rightarrow> bool" where
  "recv_keeps can tid cur am frame c0 c' \<longleftrightarrow> (\<exists>n os c1 d c2 q ps c3. passed can tid n os c0 c1
     \<and> n \<le> hold_q_sz (rx_tid c0 tid) \<and> (seq_dist (seq_next (rx_tid c0 tid)) cur < hold_q_sz (rx_tid c0 tid) \<longrightarrow> n = 0)
     \<and> d = seq_dist (seq_next (rx_tid c1 tid)) cur \<and> d < hold_q_sz (rx_tid c1 tid)
     \<and> win (rx_tid c2 tid) = (win (rx_tid c1 tid))[d := held_node frame am cur]
     \<and> rx_tid c2 = (rx_tid c1)(tid := (rx_tid c1 tid)\<lparr>hold_q := q\<rparr>) \<and> win_inv (rx_tid c2 tid)
     \<and> rx_events c2 = rx_events c1 @ (case hq_skb (win (rx_tid c1 tid) ! d) of None \<Rightarrow> [] | Some x \<Rightarrow> [RxFree x])
     \<and> passed can tid (filled (win (rx_tid c2 tid))) ps c2 c3
     \<and> timer_only (rx_tid c3 tid) (rx_tid c' tid) \<and> timer_ok (rx_tid c' tid)
     \<and> (\<forall>x. x \<noteq> tid \<longrightarrow> rx_tid c' x = rx_tid c3 x) \<and> rx_events c' = rx_events c3)"

lemma process_chain:
  assumes inv: "win_inv (rx_tid c tid)" and ag: "aggr (rx_tid c tid)" and cur: "cur < 4096"
    and nd: "node_ok (held_node frame am cur)" and t: "tid_timer_scheduled (rx_tid c tid) \<longrightarrow> tid_timer (rx_tid c tid) \<noteq> None"
  shows "\<exists>c0 c'. synced tid cur c c0 \<and> aggr_process_recv_frm can False c tid cur am frame = Some (True, c')
    \<and> (if 2 * hold_q_sz (rx_tid c0 tid) \<le> seq_dist (seq_next (rx_tid c0 tid)) cur
       then recv_drops can tid cur frame c0 c' else recv_keeps can tid cur am frame c0 c')"
proof -
  define c0 where "c0 = recv_sync (upd_rxst c tid (\<lambda>s. s\<lparr>num_into_aggr := num_into_aggr s + 1\<rparr>)) tid cur"
  have sy: "synced tid cur c c0" unfolding c0_def by (rule recv_sync_synced [OF inv cur])
  note S = sy [unfolded synced_def]
  have i0: "win_inv (rx_tid c0 tid)" "\<not> sync_next_seq (rx_tid c0 tid)" using S by blast+
  have t0: "tid_timer_scheduled (rx_tid c0 tid) \<longrightarrow> tid_timer (rx_tid c0 tid) \<noteq> None"
    using S t by (metis rxtid.select_convs(9,10) rxtid.update_convs(3,8) rxtid.surjective)
  obtain drop_it n os c1 c1' s where w: "recv_window can c0 tid cur = Some (drop_it, c1')" "passed can tid n os c0 c1"
      "n \<le> hold_q_sz (rx_tid c0 tid)" "s < 4096" "rx_tid c1' = (rx_tid c1)(tid := (rx_tid c1 tid)\<lparr>seq_next := s\<rparr>)"
      "rx_events c1' = rx_events c1" "tid_timeout_setting c1' = tid_timeout_setting c1"
      "drop_it \<or> s = seq_next (rx_tid c1 tid) \<and> seq_dist s cur < hold_q_sz (rx_tid c0 tid)"
      "drop_it \<longleftrightarrow> 2 * hold_q_sz (rx_tid c0 tid) \<le> seq_dist (seq_next (rx_tid c0 tid)) cur"
      "seq_dist (seq_next (rx_tid c0 tid)) cur < hold_q_sz (rx_tid c0 tid) \<longrightarrow> n = 0"
      "drop_it \<longrightarrow> n = 0 \<and> s = seq_next (rx_tid c0 tid) \<or> n = hold_q_sz (rx_tid c0 tid)"
    using recv_window_passed [of c0 tid cur can, OF i0(1) cur] by blast
  have proc: "aggr_process_recv_frm can False c tid cur am frame = (if drop_it then Some (True, rx_log c1' [RxFree frame])
      else do { c2 \<leftarrow> recv_store c1' tid cur am frame; c3 \<leftarrow> aggr_deque_frms can c2 tid 0 True; c4 \<leftarrow> recv_timer c3 tid; Some (True, c4) })"
    using ag by (simp add: aggr_process_recv_frm_def Let_def c0_def [symmetric] w(1))
  note P = passedD [OF w(2)] and M = moved_only_fields [OF passedD(2) [OF w(2)]]
  show ?thesis
  proof (cases drop_it)
    case True
    have "recv_drops can tid cur frame c0 (rx_log c1' [RxFree frame])"
      unfolding recv_drops_def using True w by (intro exI [of _ n] exI [of _ os] exI [of _ c1] exI [of _ s]) simp
    then show ?thesis using True proc sy w(9) by (intro exI [of _ c0] exI [of _ "rx_log c1' [RxFree frame]"]) simp
  next
    case False
    define d where "d = seq_dist (seq_next (rx_tid c1 tid)) cur"
    have c1': "rx_tid c1' = rx_tid c1" using w(5,8) False by simp
    have i1: "win_inv (rx_tid c1' tid)" using passed_win_inv(1) [OF w(2) i0(1) w(3)] by (simp add: c1')
    then have ok1: "win_ok (rx_tid c1' tid)" by (simp add: win_inv_def)
    have d: "d = seq_dist (seq_next (rx_tid c1' tid)) cur" "d < hold_q_sz (rx_tid c1' tid)"
      using w(8) False M(3) by (auto simp: d_def c1')
    obtain c2 q where st: "recv_store c1' tid cur am frame = Some c2"
      "win (rx_tid c2 tid) = (win (rx_tid c1' tid))[d := held_node frame am cur]"
      "length q = length (hold_q (rx_tid c1' tid))" "rx_tid c2 = (rx_tid c1')(tid := (rx_tid c1' tid)\<lparr>hold_q := q\<rparr>)"
      "rx_events c2 = rx_events c1' @ (case hq_skb (win (rx_tid c1' tid) ! d) of None \<Rightarrow> [] | Some x \<Rightarrow> [RxFree x])"
      "tid_timeout_setting c2 = tid_timeout_setting c1'"
      using recv_store_eq [OF ok1 cur d] by blast
    have i2: "win_inv (rx_tid c2 tid)"
      by (rule win_inv_update [OF i1 st(2) _ st(3) cur d nd]) (use st(4) i0(2) M(5) in \<open>simp_all add: c1'\<close>)
    then have ok2: "win_ok (rx_tid c2 tid)" "\<forall>nd\<in>set (win (rx_tid c2 tid)). node_ok nd" "rxq (rx_tid c2 tid) = []" by (simp_all add: win_inv_def)
    have all: "take (hold_q_sz (rx_tid c2 tid)) (win (rx_tid c2 tid)) = win (rx_tid c2 tid)" by simp
    obtain ps c3 where p3: "aggr_deque_frms can c2 tid 0 True = Some c3" "passed can tid (filled (win (rx_tid c2 tid))) ps c2 c3"
      using deque_frms [OF ok2(1), of 0 "hold_q_sz (rx_tid c2 tid)" can True, unfolded all] ok2(2) by (auto simp: deque_count_def)
    note M3 = moved_only_fields [OF passedD(2) [OF p3(2)]]
    have "tid_timer_scheduled (rx_tid c3 tid) \<longrightarrow> tid_timer (rx_tid c3 tid) \<noteq> None"
      using t0 M(6,7) M3(6,7) st(4) c1' by simp
    from recv_timer_ok [OF passedD(6) [OF p3(2)] this] obtain c4 where
      t4: "recv_timer c3 tid = Some c4" "timer_only (rx_tid c3 tid) (rx_tid c4 tid)" "timer_ok (rx_tid c4 tid)"
      "\<forall>x. x \<noteq> tid \<longrightarrow> rx_tid c4 x = rx_tid c3 x" "rx_events c4 = rx_events c3" by blast
    have "recv_keeps can tid cur am frame c0 c4"
      unfolding recv_keeps_def using w(2,3,6,10) st i2 p3(2) t4 d c1'
      by (intro exI [of _ n] exI [of _ os] exI [of _ c1] exI [of _ d] exI [of _ c2] exI [of _ q] exI [of _ ps] exI [of _ c3]) simp
    moreover have "aggr_process_recv_frm can False c tid cur am frame = Some (True, c4)"
      using proc False st(1) p3(1) t4(1) by simp
    ultimately show ?thesis using False sy w(9) by (intro exI [of _ c0] exI [of _ c4]) simp
  qed
qed

section \<open>Frames are neither lost nor doubled\<close>

definition id_ms :: "skb \<Rightarrow> nat multiset" where
  "id_ms s = (case skb_id s of None \<Rightarrow> {#} | Some i \<Rightarrow> {#i#})"

definition ev_ids :: "rx_event list \<Rightarrow> nat multiset" where
  "ev_ids evs = (\<Sum>e\<leftarrow>evs. case e of RxUp s \<Rightarrow> id_ms s | RxFree s \<Rightarrow> id_ms s)"

definition node_ids :: "skb_hold_q \<Rightarrow> nat multiset" where
  "node_ids nd = (case hq_skb nd of None \<Rightarrow> {#} | Some s \<Rightarrow> id_ms s)"

definition held_ids :: "skb_hold_q list \<Rightarrow> nat multiset" where
  "held_ids w = (\<Sum>nd\<leftarrow>w. node_ids nd)"

lemma ev_ids_simps [simp]: "ev_ids [] = {#}" "ev_ids (RxUp s # es) = id_ms s + ev_ids es" "ev_ids (RxFree s # es) = id_ms s + ev_ids es"
  "ev_ids (es @ fs) = ev_ids es + ev_ids fs"
  by (simp_all add: ev_ids_def)

lemma held_ids_simps [simp]: "held_ids [] = {#}" "held_ids (nd # w) = node_ids nd + held_ids w" "held_ids (v @ w) = held_ids v + held_ids w"
  by (simp_all add: held_ids_def)

lemma node_ids_simps [simp]: "node_ids (clear_slot nd) = {#}" "node_ids (held_node s am seq) = id_ms s" "hq_skb nd = None \<Longrightarrow> node_ids nd = {#}"
  by (simp_all add: node_ids_def clear_slot_def held_node_def)

lemma held_ids_clear [simp]: "held_ids (map clear_slot w) = {#}"
  by (induction w) simp_all

lemma held_ids_empty: "\<forall>nd\<in>set w. hq_skb nd = None \<Longrightarrow> held_ids w = {#}"
  by (induction w) simp_all

lemma held_ids_update: "d < length w \<Longrightarrow> held_ids (w[d := nd]) + node_ids (w ! d) = held_ids w + node_ids nd"
  by (induction w arbitrary: d) (auto split: nat.split simp: ac_simps)

lemma slices_no_id: "slices mem fp len fs \<Longrightarrow> s \<in> set fs \<Longrightarrow> skb_id s = None"
  by (induction rule: slices.induct) (auto simp: sub_frame_def skb_of_def)

lemma no_ids: "\<forall>s\<in>set fs. skb_id s = None \<Longrightarrow> ev_ids (map RxUp fs) = {#}"
  by (induction fs) (auto simp: id_ms_def)

lemma out_of_ids: "out_of can nd fs \<Longrightarrow> ev_ids (freed nd) + ev_ids (map RxUp fs) = node_ids nd"
proof (cases "hq_skb nd")
  case (Some s)
  assume o: "out_of can nd fs"
  show ?thesis
  proof (cases "hq_amsdu nd")
    case True
    then obtain m all where a: "slices_of s all" "fs = take m all" using o Some by (auto simp: out_of_def)
    then have "\<forall>x\<in>set fs. skb_id x = None" by (auto simp: slices_of_def dest: slices_no_id in_set_takeD)
    then show ?thesis using no_ids Some True by (simp add: freed_def node_ids_def)
  next
    case False then show ?thesis using o Some by (simp add: out_of_def freed_def node_ids_def)
  qed
qed (simp add: out_of_def freed_def node_ids_def)

lemma outs_ids: "list_all2 (out_of can) w os \<Longrightarrow> ev_ids (concat (map freed w)) + ev_ids (map RxUp (concat os)) = held_ids w"
proof (induction rule: list_all2_induct)
  case (Cons nd w fs os)
  from out_of_ids [OF Cons.hyps(1)] Cons.IH show ?case by (simp add: ac_simps)
qed simp

lemma passed_ids:
  assumes p: "passed can tid n os c c'" and q: "rxq (rx_tid c tid) = []"
  shows "ev_ids (rx_events c') + held_ids (win (rx_tid c' tid)) = ev_ids (rx_events c) + held_ids (win (rx_tid c tid))"
proof -
  note P = passedD [OF p]
  have "held_ids (win (rx_tid c tid)) = held_ids (take n (win (rx_tid c tid))) + held_ids (drop n (win (rx_tid c tid)))"
    by (metis append_take_drop_id held_ids_simps(3))
  then show ?thesis using outs_ids [OF P(1)] q by (simp add: P(7,8) ac_simps)
qed

lemma synced_facts:
  assumes sy: "synced tid cur c c0" and inv: "rx_inv (rx_tid c tid)"
  shows "rx_inv (rx_tid c0 tid)" "aggr (rx_tid c0 tid) = aggr (rx_tid c tid)" "held_ids (win (rx_tid c0 tid)) = held_ids (win (rx_tid c tid))"
    "rx_events c0 = rx_events c" "x \<noteq> tid \<Longrightarrow> rx_tid c0 x = rx_tid c x"
proof -
  note S = sy [unfolded synced_def]
  have r: "(rx_tid c tid)\<lparr>seq_next := seq_next (rx_tid c0 tid), sync_next_seq := False\<rparr> = rx_tid c0 tid" using S by blast
  have f: "aggr (rx_tid c0 tid) = aggr (rx_tid c tid)" "tid_timer (rx_tid c0 tid) = tid_timer (rx_tid c tid)"
    "tid_timer_scheduled (rx_tid c0 tid) = tid_timer_scheduled (rx_tid c tid)" "hold_q_sz (rx_tid c0 tid) = hold_q_sz (rx_tid c tid)"
    by (subst r [symmetric], simp)+
  show "aggr (rx_tid c0 tid) = aggr (rx_tid c tid)" "rx_events c0 = rx_events c" "x \<noteq> tid \<Longrightarrow> rx_tid c0 x = rx_tid c x" using f S by auto
  show "rx_inv (rx_tid c0 tid)"
  proof (cases "sync_next_seq (rx_tid c tid)")
    case True
    then have e: "empty_win (rx_tid c0 tid)" "win_inv (rx_tid c0 tid)" using S by simp_all
    moreover have "win (rx_tid c0 tid) \<noteq> []" using e(2) by (auto simp: win_inv_def win_ok_def simp flip: length_0_conv)
    ultimately show ?thesis using inv f by (auto simp: rx_inv_def timer_ok_def empty_win_def)
  next
    case False then show ?thesis using S inv by simp
  qed
  show "held_ids (win (rx_tid c0 tid)) = held_ids (win (rx_tid c tid))"
    using S held_ids_empty unfolding empty_win_def by (cases "sync_next_seq (rx_tid c tid)") auto
qed

lemma empty_win_ids: "empty_win r \<Longrightarrow> held_ids (win r) = {#}"
  by (simp add: empty_win_def held_ids_empty)

lemma recv_drops_inv:
  assumes sy: "synced tid cur c c0" and inv: "rx_inv (rx_tid c tid)" and ag: "aggr (rx_tid c tid)"
    and dr: "recv_drops can tid cur frame c0 c'"
  shows "rx_inv (rx_tid c' tid) \<and> aggr (rx_tid c' tid) \<and> (\<forall>x. x \<noteq> tid \<longrightarrow> rx_tid c' x = rx_tid c x)
    \<and> ev_ids (rx_events c') + held_ids (win (rx_tid c' tid)) = ev_ids (rx_events c) + held_ids (win (rx_tid c tid)) + id_ms frame"
proof -
  note S = synced_facts [OF sy inv]
  obtain n os c1 s where d: "passed can tid n os c0 c1" "n = 0 \<and> s = seq_next (rx_tid c0 tid) \<or> n = hold_q_sz (rx_tid c0 tid)" "s < 4096"
      "rx_tid c' = (rx_tid c1)(tid := (rx_tid c1 tid)\<lparr>seq_next := s\<rparr>)" "rx_events c' = rx_events c1 @ [RxFree frame]"
    using dr by (auto simp: recv_drops_def)
  have wi: "win_inv (rx_tid c0 tid)" and q0: "rxq (rx_tid c0 tid) = []" using S(1) by (simp_all add: rx_inv_def win_inv_def)
  have n: "n \<le> hold_q_sz (rx_tid c0 tid)" using d(2) by auto
  note P = passedD [OF d(1)] and M = moved_only_fields [OF passedD(2) [OF d(1)]]
  note wi1 = passed_win_inv [OF d(1) wi n]
  have ids: "ev_ids (rx_events c1) + held_ids (win (rx_tid c1 tid)) = ev_ids (rx_events c) + held_ids (win (rx_tid c tid))"
    using passed_ids [OF d(1) q0] S(3,4) by simp
  have "rx_inv (rx_tid c' tid) \<and> held_ids (win (rx_tid c' tid)) = held_ids (win (rx_tid c1 tid))"
  proof (cases "n = 0 \<and> s = seq_next (rx_tid c0 tid)")
    case True
    have s4: "seq_next (rx_tid c0 tid) < 4096" using wi by (simp add: win_inv_def win_ok_def)
    then have "(rx_tid c1 tid)\<lparr>seq_next := s\<rparr> = rx_tid c1 tid" using True P(4) by (cases "rx_tid c1 tid") simp
    then have e: "rx_tid c' tid = rx_tid c1 tid" using d(4) by simp
    have "win (rx_tid c1 tid) = win (rx_tid c0 tid)" using P(7) True by simp
    then show ?thesis using S(1) wi1(1) M P(4) True s4 unfolding e rx_inv_def timer_ok_def empty_win_def by simp
  next
    case False
    then have e: "empty_win (rx_tid c1 tid)" using d(2) wi1(3) by blast
    define r' where "r' = (rx_tid c1 tid)\<lparr>seq_next := s\<rparr>"
    have ns: "\<not> sync_next_seq (rx_tid c1 tid)" using sy M(5) by (simp add: synced_def)
    then have "(rx_tid c1 tid)\<lparr>seq_next := s, sync_next_seq := False\<rparr> = r'" unfolding r'_def by (cases "rx_tid c1 tid") simp
    then have w: "win_inv r'" "empty_win r'"
      using win_inv_empty_seq [OF wi1(1) e d(3), of False] empty_win_seq [OF P(6) e d(3), of False] by simp_all
    have "win r' \<noteq> []" using w(1) by (auto simp: win_inv_def win_ok_def simp flip: length_0_conv)
    then have "hq_skb (hd (win r')) = None" using w(2) by (simp add: empty_win_def)
    moreover have "tid_timer_scheduled r' \<longrightarrow> tid_timer r' \<noteq> None" using S(1) M(6,7) by (simp add: r'_def rx_inv_def timer_ok_def)
    ultimately have "rx_inv r'" using w by (simp add: rx_inv_def timer_ok_def)
    then show ?thesis using empty_win_ids [OF e] empty_win_ids [OF w(2)] d(4) by (simp add: r'_def)
  qed
  then show ?thesis using ids d(4,5) P(3) S(2,5) M(1) ag by (simp add: ac_simps)
qed

lemma recv_keeps_inv:
  assumes sy: "synced tid cur c c0" and inv: "rx_inv (rx_tid c tid)" and ag: "aggr (rx_tid c tid)"
    and kp: "recv_keeps can tid cur am frame c0 c'"
  shows "rx_inv (rx_tid c' tid) \<and> aggr (rx_tid c' tid) \<and> (\<forall>x. x \<noteq> tid \<longrightarrow> rx_tid c' x = rx_tid c x)
    \<and> ev_ids (rx_events c') + held_ids (win (rx_tid c' tid)) = ev_ids (rx_events c) + held_ids (win (rx_tid c tid)) + id_ms frame"
proof -
  note S = synced_facts [OF sy inv]
  obtain n os c1 d c2 q ps c3 where k: "passed can tid n os c0 c1" "n \<le> hold_q_sz (rx_tid c0 tid)"
     "d < hold_q_sz (rx_tid c1 tid)"
     "win (rx_tid c2 tid) = (win (rx_tid c1 tid))[d := held_node frame am cur]"
     "rx_tid c2 = (rx_tid c1)(tid := (rx_tid c1 tid)\<lparr>hold_q := q\<rparr>)" "win_inv (rx_tid c2 tid)"
     "rx_events c2 = rx_events c1 @ (case hq_skb (win (rx_tid c1 tid) ! d) of None \<Rightarrow> [] | Some x \<Rightarrow> [RxFree x])"
     "passed can tid (filled (win (rx_tid c2 tid))) ps c2 c3"
     "timer_only (rx_tid c3 tid) (rx_tid c' tid)" "timer_ok (rx_tid c' tid)"
     "\<forall>x. x \<noteq> tid \<longrightarrow> rx_tid c' x = rx_tid c3 x" "rx_events c' = rx_events c3"
    using kp unfolding recv_keeps_def by blast
  have q0: "rxq (rx_tid c0 tid) = []" "rxq (rx_tid c2 tid) = []" using S(1) k(6) by (simp_all add: rx_inv_def win_inv_def)
  note P1 = passedD [OF k(1)] and M1 = moved_only_fields [OF passedD(2) [OF k(1)]]
  note P3 = passedD [OF k(8)] and M3 = moved_only_fields [OF passedD(2) [OF k(8)]]
  have le: "filled (win (rx_tid c2 tid)) \<le> hold_q_sz (rx_tid c2 tid)"
    using length_takeWhile_le [of "\<lambda>nd. hq_skb nd \<noteq> None" "win (rx_tid c2 tid)"] by simp
  note W3 = passed_win_inv [OF k(8,6) le]
  have stored: "ev_ids (rx_events c2) + held_ids (win (rx_tid c2 tid)) = ev_ids (rx_events c1) + held_ids (win (rx_tid c1 tid)) + id_ms frame"
  proof -
    have "ev_ids (case hq_skb (win (rx_tid c1 tid) ! d) of None \<Rightarrow> [] | Some x \<Rightarrow> [RxFree x]) = node_ids (win (rx_tid c1 tid) ! d)"
      by (simp add: node_ids_def split: option.split)
    then show ?thesis using held_ids_update [of d "win (rx_tid c1 tid)" "held_node frame am cur"] k(3) unfolding k(4,7)
      by (simp add: ac_simps)
  qed
  have "ev_ids (rx_events c') + held_ids (win (rx_tid c' tid)) = ev_ids (rx_events c) + held_ids (win (rx_tid c tid)) + id_ms frame"
    using passed_ids [OF k(8) q0(2)] passed_ids [OF k(1) q0(1)] stored S(3,4) timer_only_fields(8) [OF k(9)] k(12) by (simp add: ac_simps)
  moreover have "rx_inv (rx_tid c' tid)"
    using W3(1,4) k(10) timer_only_fields(8,9) [OF k(9)] by (simp add: rx_inv_def)
  moreover have "aggr (rx_tid c' tid)" using ag S(2) M1(1) M3(1) k(5) timer_only_fields(1) [OF k(9)] by simp
  moreover have "\<forall>x. x \<noteq> tid \<longrightarrow> rx_tid c' x = rx_tid c x" using k(5,11) P1(3) P3(3) S(5) by simp
  ultimately show ?thesis by blast
qed


lemma ex_empty: "st < 4096 \<Longrightarrow> rx_inv (ex_rxtid st [])" "held_ids (win (ex_rxtid st [])) = {#}"
proof -
  have e: "empty_win (ex_rxtid st [])"
    by (simp add: empty_win_def win_def ex_rxtid_def)
  have w: "win (ex_rxtid st []) \<noteq> []" by (simp add: win_def ex_rxtid_def)
  have f: "hold_q_sz (ex_rxtid st []) = 4" "rxq (ex_rxtid st []) = []" "\<not> sync_next_seq (ex_rxtid st [])"
    "\<not> tid_timer_scheduled (ex_rxtid st [])" by (simp_all add: ex_rxtid_def)
  assume "st < 4096"
  then show "rx_inv (ex_rxtid st [])" using e w f ex_win_ok [of st "[]"]
    by (simp add: rx_inv_def win_inv_def timer_ok_def held_seq_def node_ok_def empty_win_def)
qed (rule held_ids_empty, simp add: win_def ex_rxtid_def)


section \<open>Frames of a window come out in order\<close>

text \<open>Receiving the frames \<open>is\<close>, numbered from \<open>st\<close>, one after the other.\<close>

fun recv_run :: "(nat \<Rightarrow> bool) \<Rightarrow> nat \<Rightarrow> (nat \<Rightarrow> skb) \<Rightarrow> nat \<Rightarrow> aggr_conn \<Rightarrow> nat list \<Rightarrow> aggr_conn option" where
  "recv_run can tid f st c [] = Some c"
| "recv_run can tid f st c (i # is) =
     (case aggr_process_recv_frm can False c tid ((st + i) mod 4096) False (f i) of
        None \<Rightarrow> None
      | Some (_, c1) \<Rightarrow> recv_run can tid f st c1 is)"

text \<open>After the frames in \<open>R\<close>: those before the first missing one \<open>k\<close> are up, the others wait.\<close>

definition waits :: "(nat \<Rightarrow> skb) \<Rightarrow> nat set \<Rightarrow> nat \<Rightarrow> skb_hold_q list \<Rightarrow> bool" where
  "waits f R k w \<longleftrightarrow> (\<forall>j<length w. if k + j \<in> R then hq_skb (w ! j) = Some (f (k + j)) \<and> \<not> hq_amsdu (w ! j)
     else hq_skb (w ! j) = None)"

definition run_state :: "nat \<Rightarrow> (nat \<Rightarrow> skb) \<Rightarrow> nat \<Rightarrow> aggr_conn \<Rightarrow> nat set \<Rightarrow> nat \<Rightarrow> aggr_conn \<Rightarrow> bool" where
  "run_state tid f st a R k c \<longleftrightarrow> rx_inv (rx_tid c tid) \<and> aggr (rx_tid c tid) \<and> \<not> sync_next_seq (rx_tid c tid)
     \<and> hold_q_sz (rx_tid c tid) = hold_q_sz (rx_tid a tid)
     \<and> {0..<k} \<subseteq> R \<and> k \<notin> R \<and> seq_next (rx_tid c tid) = (st + k) mod 4096 \<and> waits f R k (win (rx_tid c tid))
     \<and> rx_events c = rx_events a @ map (\<lambda>i. RxUp (f i)) [0..<k]"

lemma filled_char:
  assumes "p = filled w"
  shows "p \<le> length w" "j < p \<Longrightarrow> hq_skb (w ! j) \<noteq> None" "p < length w \<Longrightarrow> hq_skb (w ! p) = None"
proof -
  show "p \<le> length w" unfolding assms by (rule length_takeWhile_le)
  show "hq_skb (w ! j) \<noteq> None" if "j < p"
    using that nth_mem [of j "takeWhile (\<lambda>nd. hq_skb nd \<noteq> None) w"] by (metis assms set_takeWhileD takeWhile_nth)
  show "p < length w \<Longrightarrow> hq_skb (w ! p) = None" using nth_length_takeWhile assms by blast
qed

lemma waits_outs:
  assumes w: "waits f R k w" and p: "p \<le> length w" "\<forall>j<p. k + j \<in> R" and o: "list_all2 (out_of can) (take p w) os"
  shows "concat os = map f [k..<k + p]" "concat (map freed (take p w)) = []"
proof -
  have nd: "hq_skb (w ! j) = Some (f (k + j))" "\<not> hq_amsdu (w ! j)" if "j < p" for j
    using w p that by (auto simp: waits_def)
  have lo: "length os = p" using o p by (simp add: list_all2_lengthD [symmetric])
  have "os ! j = [f (k + j)]" if "j < p" for j
    using list_all2_nthD [OF o, of j] that p nd [OF that] by (simp add: out_of_def)
  then have "os = map (\<lambda>i. [f i]) [k..<k + p]" using lo by (intro nth_equalityI) simp_all
  then show "concat os = map f [k..<k + p]" by (simp add: concat_map_singleton)
  have "map freed (take p w) = replicate p []"
    using nd p by (intro nth_equalityI) (simp_all add: freed_def)
  then show "concat (map freed (take p w)) = []" by simp
qed

lemma run_step:
  assumes st: "run_state tid f st a R k c" and i: "i \<notin> R" "i < m" and R: "R \<subseteq> {0..<m}" and m: "m \<le> hold_q_sz (rx_tid a tid)"
  shows "\<exists>k' c'. aggr_process_recv_frm can False c tid ((st + i) mod 4096) False (f i) = Some (True, c')
    \<and> run_state tid f st a (insert i R) k' c'"
proof -
  define z where "z = hold_q_sz (rx_tid a tid)"
  define cur where "cur = (st + i) mod 4096"
  have inv: "rx_inv (rx_tid c tid)" and ag: "aggr (rx_tid c tid)" and ns: "\<not> sync_next_seq (rx_tid c tid)"
    and zz: "hold_q_sz (rx_tid c tid) = z" and k: "{0..<k} \<subseteq> R" "k \<notin> R" and sq: "seq_next (rx_tid c tid) = (st + k) mod 4096"
    and w: "waits f R k (win (rx_tid c tid))" and ev: "rx_events c = rx_events a @ map (\<lambda>i. RxUp (f i)) [0..<k]"
    using st by (simp_all add: run_state_def z_def)
  have z: "z \<le> 128" using inv by (simp add: rx_inv_def win_inv_def flip: zz)
  have ki: "k \<le> i" using k(1) i(1) by (metis atLeastLessThan_iff le0 linorder_not_le subsetD)
  have dist: "seq_dist (seq_next (rx_tid c tid)) cur = i - k"
  proof -
    have "((st + k) mod 4096 + (i - k)) mod 4096 = cur" unfolding mod_add_left_eq using ki by (simp add: cur_def)
    then show ?thesis using seq_dist_add [of "(st + k) mod 4096" "i - k"] i(2) m z by (simp add: sq z_def)
  qed
  have near: "i - k < z" using i(2) m by (simp add: z_def)
  obtain c0 c' where sy: "synced tid cur c c0" and pr: "aggr_process_recv_frm can False c tid cur False (f i) = Some (True, c')"
    and how: "if 2 * hold_q_sz (rx_tid c0 tid) \<le> seq_dist (seq_next (rx_tid c0 tid)) cur
       then recv_drops can tid cur (f i) c0 c' else recv_keeps can tid cur False (f i) c0 c'"
    using process_chain [of c tid cur "f i" False can] inv ag by (auto simp: rx_inv_def timer_ok_def node_ok_def held_node_def cur_def)
  have c0: "rx_tid c0 tid = rx_tid c tid" "rx_events c0 = rx_events c" using sy ns by (simp_all add: synced_def)
  have kp: "recv_keeps can tid cur False (f i) c0 c'" using how near by (simp add: c0 dist zz)
  note fin = recv_keeps_inv [OF sy inv ag kp]
  obtain n os c1 d c2 q ps c3 where e: "passed can tid n os c0 c1" "n = 0"
     "d = seq_dist (seq_next (rx_tid c1 tid)) cur"
     "win (rx_tid c2 tid) = (win (rx_tid c1 tid))[d := held_node (f i) False cur]"
     "rx_tid c2 = (rx_tid c1)(tid := (rx_tid c1 tid)\<lparr>hold_q := q\<rparr>)" "win_inv (rx_tid c2 tid)"
     "rx_events c2 = rx_events c1 @ (case hq_skb (win (rx_tid c1 tid) ! d) of None \<Rightarrow> [] | Some x \<Rightarrow> [RxFree x])"
     "passed can tid (filled (win (rx_tid c2 tid))) ps c2 c3"
     "timer_only (rx_tid c3 tid) (rx_tid c' tid)" "rx_events c' = rx_events c3"
    using kp near unfolding recv_keeps_def c0 dist zz by blast
  note P1 = passedD [OF e(1)] and M1 = moved_only_fields [OF passedD(2) [OF e(1)]]
  note M3 = moved_only_fields [OF passedD(2) [OF e(8)]]
  have q0: "rxq (rx_tid c0 tid) = []" using inv c0 by (simp add: rx_inv_def win_inv_def)
  have s1: "seq_next (rx_tid c1 tid) = (st + k) mod 4096" "win (rx_tid c1 tid) = win (rx_tid c tid)" "rx_events c1 = rx_events c"
    using P1(1,4,7,8) e(2) sq q0 by (simp_all add: c0)
  have d: "d = i - k" using dist e(3) s1(1) sq by simp
  have slot: "hq_skb (win (rx_tid c tid) ! d) = None" using w near i(1) ki by (simp add: waits_def d zz)
  define w2 where "w2 = win (rx_tid c2 tid)"
  define p where "p = filled w2"
  note P3 = passedD [OF e(8), folded w2_def, folded p_def]
  have lw: "length w2 = z" using e(4) s1(2) zz by (simp add: w2_def)
  have ww: "waits f (insert i R) k w2"
    unfolding waits_def
  proof (intro allI impI)
    fix j assume "j < length w2"
    then show "if k + j \<in> insert i R then hq_skb (w2 ! j) = Some (f (k + j)) \<and> \<not> hq_amsdu (w2 ! j) else hq_skb (w2 ! j) = None"
      using w ki lw zz by (cases "j = d") (auto simp: w2_def e(4) s1(2) d waits_def held_node_def)
  qed
  have full: "k + j \<in> insert i R" if "j < p" for j
    using filled_char(1,2) [OF p_def] that ww by (metis order_less_le_trans waits_def)
  have stop: "k + p \<notin> insert i R"
  proof (cases "p < length w2")
    case True then show ?thesis using filled_char(3) [OF p_def] ww by (metis option.distinct(1) waits_def)
  next
    case False
    then have "p = z" using filled_char(1) [OF p_def] lw by simp
    then show ?thesis using R i(2) m by (auto simp: z_def)
  qed
  have o: "concat ps = map f [k..<k + p]" "concat (map freed (take p w2)) = []"
    using waits_outs [OF ww filled_char(1) [OF p_def] _ P3(1)] full by blast+
  have "rx_events c' = rx_events a @ map (\<lambda>i. RxUp (f i)) [0..<k + p]"
  proof -
    have "rxq (rx_tid c2 tid) = []" using e(6) by (simp add: win_inv_def)
    then have "rx_events c' = rx_events a @ map (\<lambda>i. RxUp (f i)) [0..<k] @ map (\<lambda>i. RxUp (f i)) [k..<k + p]"
      using e(7,10) P3(8) o s1(3) slot [folded s1(2)] ev by (simp add: o_def)
    then show ?thesis using upt_add_eq_append [of 0 k p] by simp
  qed
  moreover have "waits f (insert i R) (k + p) (win (rx_tid c' tid))"
    unfolding waits_def timer_only_fields(8) [OF e(9)] P3(7)
  proof (intro allI impI)
    fix j assume j: "j < length (drop p w2 @ map clear_slot (take p w2))"
    have pw: "p \<le> length w2" by (rule filled_char(1) [OF p_def])
    show "if k + p + j \<in> insert i R then hq_skb ((drop p w2 @ map clear_slot (take p w2)) ! j) = Some (f (k + p + j))
          \<and> \<not> hq_amsdu ((drop p w2 @ map clear_slot (take p w2)) ! j)
        else hq_skb ((drop p w2 @ map clear_slot (take p w2)) ! j) = None"
    proof (cases "p + j < length w2")
      case True
      moreover from True have "j < length w2 - p" by linarith
      ultimately show ?thesis using ww pw by (simp add: nth_append waits_def add.assoc)
    next
      case False
      then have "k + p + j \<notin> insert i R" using R i(2) m lw by (auto simp: z_def)
      moreover have "\<not> j < length w2 - p" using False by linarith
      ultimately show ?thesis using j pw by (simp add: nth_append)
    qed
  qed
  moreover have "{0..<k + p} \<subseteq> insert i R"
  proof
    fix j assume "j \<in> {0..<k + p}"
    then show "j \<in> insert i R" using k(1) full [of "j - k"] by (cases "j < k") auto
  qed
  moreover have "seq_next (rx_tid c' tid) = (st + (k + p)) mod 4096"
    using timer_only_fields(5) [OF e(9)] P3(4) e(5) s1(1) by (simp add: mod_simps add.assoc)
  moreover have "hold_q_sz (rx_tid c' tid) = hold_q_sz (rx_tid a tid)" "\<not> sync_next_seq (rx_tid c' tid)"
    using timer_only_fields(3,6) [OF e(9)] M3(3,5) M1(3,5) e(5) c0 zz ns by (simp_all add: z_def)
  ultimately have "run_state tid f st a (insert i R) (k + p) c'" using fin stop by (simp add: run_state_def)
  then show ?thesis using pr unfolding cur_def by blast
qed

text \<open>
  Property C5.  Delivery in order.  Let no frame wait, and let the next \<open>m\<close> frames, at most a window,
  arrive in any order whatever: they are handed up exactly once each, in the order of their
  sequence numbers, also across the wrap from 4095 to 0, none is freed, none waits at the end.
\<close>

theorem window_delivered_in_order:
  assumes "rx_inv (rx_tid c tid)" and "aggr (rx_tid c tid)" and "\<not> sync_next_seq (rx_tid c tid)" and "empty_win (rx_tid c tid)"
    and "m \<le> hold_q_sz (rx_tid c tid)" and "mset arrivals = mset [0..<m]" and "st = seq_next (rx_tid c tid)"
  shows "\<exists>c'. recv_run can tid f st c arrivals = Some c' \<and> rx_events c' = rx_events c @ map (\<lambda>i. RxUp (f i)) [0..<m]
    \<and> seq_next (rx_tid c' tid) = (st + m) mod 4096 \<and> empty_win (rx_tid c' tid)"
proof -
  have run: "\<exists>k' c'. recv_run can tid f st c1 is = Some c' \<and> run_state tid f st c (R \<union> set is) k' c'"
    if "run_state tid f st c R k c1" "distinct is" "R \<inter> set is = {}" "R \<union> set is \<subseteq> {0..<m}" for c1 R k "is"
    using that
  proof (induction "is" arbitrary: c1 R k)
    case Nil then show ?case by auto
  next
    case (Cons i "is")
    obtain k1 c2 where s: "aggr_process_recv_frm can False c1 tid ((st + i) mod 4096) False (f i) = Some (True, c2)"
      "run_state tid f st c (insert i R) k1 c2"
      using run_step [OF Cons.prems(1) _ _ _ assms(5), of i can] Cons.prems(3,4) by auto
    from Cons.IH [OF s(2)] Cons.prems s(1) show ?case by auto
  qed
  have set: "distinct arrivals" "set arrivals = {0..<m}"
    using assms(6) by (metis distinct_upt mset_eq_imp_distinct_iff, metis mset_eq_setD set_upt)
  have s4: "st < 4096" using assms(1,7) by (simp add: rx_inv_def win_inv_def win_ok_def)
  have "waits f {} 0 (win (rx_tid c tid))" using assms(4) by (auto simp: waits_def empty_win_def)
  then have "run_state tid f st c {} 0 c" using assms s4 by (simp add: run_state_def)
  from run [OF this set(1)] obtain k' c' where r: "recv_run can tid f st c arrivals = Some c'"
    "run_state tid f st c {0..<m} k' c'" using set(2) by auto
  have k: "k' = m"
  proof -
    have "{0..<k'} \<subseteq> {0..<m}" "k' \<notin> {0..<m}" using r(2) by (simp_all only: run_state_def simp_thms)
    then show ?thesis by auto
  qed
  have "empty_win (rx_tid c' tid)"
    using r(2) by (auto simp: run_state_def waits_def k empty_win_def in_set_conv_nth split: if_split_asm)
  then show ?thesis using r k by (auto simp: run_state_def)
qed

lemma window_delivered_in_order_witness:
  "\<exists>c'. recv_run (\<lambda>_. True) 0 ex_skb 4094 (ex_conn 4094 []) [2, 0, 3, 1] = Some c'
    \<and> rx_events c' = [RxUp (ex_skb 0), RxUp (ex_skb 1), RxUp (ex_skb 2), RxUp (ex_skb 3)]"
proof -
  have c: "rx_tid (ex_conn 4094 []) 0 = ex_rxtid 4094 []" "rx_events (ex_conn 4094 []) = []" by (simp_all add: ex_conn_def)
  have f: "aggr (ex_rxtid 4094 [])" "\<not> sync_next_seq (ex_rxtid 4094 [])" "hold_q_sz (ex_rxtid 4094 []) = 4" "seq_next (ex_rxtid 4094 []) = 4094"
    by (simp_all add: ex_rxtid_def)
  have e: "empty_win (ex_rxtid 4094 [])" by (simp add: empty_win_def win_def ex_rxtid_def)
  have "mset [2, 0, 3, 1] = mset [0..<4::nat]" by (simp add: upt_0_4)
  from window_delivered_in_order [of "ex_conn 4094 []" 0 4 "[2, 0, 3, 1]" 4094 "\<lambda>_. True" ex_skb, unfolded c f(3,4),
      OF ex_empty(1) f(1,2) e _ this]
  show ?thesis by (auto simp: upt_0_4)
qed

section \<open>The timer releases what waits\<close>

text \<open>The window has moved on by \<open>N\<close> slots.\<close>

definition slid :: "nat \<Rightarrow> skb_hold_q list \<Rightarrow> skb_hold_q list \<Rightarrow> bool" where
  "slid N w w' \<longleftrightarrow> length w' = length w
     \<and> (\<forall>k<length w. hq_skb (w' ! k) = (if k + N < length w then hq_skb (w ! (k + N)) else None))"

lemma slid_0 [simp]: "slid 0 w w" by (simp add: slid_def)

lemma slid_trans: "slid N a b \<Longrightarrow> slid M b c \<Longrightarrow> slid (N + M) a c"
  by (auto simp: slid_def add.assoc add.commute add.left_commute)

definition moved_on :: "nat \<Rightarrow> nat \<Rightarrow> aggr_conn \<Rightarrow> aggr_conn \<Rightarrow> bool" where
  "moved_on tid N c c' \<longleftrightarrow> win_inv (rx_tid c' tid) \<and> slid N (win (rx_tid c tid)) (win (rx_tid c' tid))
     \<and> ev_ids (rx_events c') + held_ids (win (rx_tid c' tid)) = ev_ids (rx_events c) + held_ids (win (rx_tid c tid))
     \<and> aggr (rx_tid c' tid) = aggr (rx_tid c tid) \<and> hold_q_sz (rx_tid c' tid) = hold_q_sz (rx_tid c tid)
     \<and> (\<forall>x. x \<noteq> tid \<longrightarrow> rx_tid c' x = rx_tid c x)"

lemma moved_on_trans: "moved_on tid N a b \<Longrightarrow> moved_on tid M b c \<Longrightarrow> moved_on tid (N + M) a c"
  using slid_trans by (auto simp: moved_on_def)

lemma moved_on_timer:
  assumes "win_inv (rx_tid c tid)" "timer_only (rx_tid c tid) (rx_tid c' tid)" "rx_events c' = rx_events c"
    "\<forall>x. x \<noteq> tid \<longrightarrow> rx_tid c' x = rx_tid c x"
  shows "moved_on tid 0 c c'"
  using assms timer_only_fields [OF assms(2)] by (simp add: moved_on_def)

lemma passed_slid: "passed can tid n os c c' \<Longrightarrow> n \<le> hold_q_sz (rx_tid c tid) \<Longrightarrow> slid n (win (rx_tid c tid)) (win (rx_tid c' tid))"
proof -
  assume p: "passed can tid n os c c'" and n: "n \<le> hold_q_sz (rx_tid c tid)"
  show ?thesis
    unfolding slid_def passedD(7) [OF p]
  proof (intro conjI allI impI)
    fix k assume k: "k < length (win (rx_tid c tid))"
    show "hq_skb ((drop n (win (rx_tid c tid)) @ map clear_slot (take n (win (rx_tid c tid)))) ! k)
        = (if k + n < length (win (rx_tid c tid)) then hq_skb (win (rx_tid c tid) ! (k + n)) else None)"
      using k n by (cases "k < hold_q_sz (rx_tid c tid) - n") (auto simp: nth_append add.commute)
  qed (use n in simp)
qed

lemma deque_moves:
  assumes inv: "win_inv (rx_tid c tid)" and seq: "seq_no < 4096"
  shows "\<exists>N c'. aggr_deque_frms can c tid seq_no inorder = Some c' \<and> moved_on tid N c c' \<and> (\<not> inorder \<longrightarrow> 0 < N)
    \<and> (inorder \<and> seq_no = 0 \<longrightarrow> hq_skb (hd (win (rx_tid c' tid))) = None) \<and> moved_only (rx_tid c tid) (rx_tid c' tid)"
proof -
  define r where "r = rx_tid c tid"
  define m where "m = deque_count r seq_no"
  define n where "n = (if inorder then filled (take m (win r)) else m)"
  have ok: "win_ok r" "\<forall>nd\<in>set (take m (win r)). node_ok nd" "rxq r = []" using inv by (auto simp: win_inv_def r_def dest: in_set_takeD)
  obtain os c' where d: "aggr_deque_frms can c tid seq_no inorder = Some c'" "passed can tid n os c c'"
    using deque_frms [OF ok(1) [unfolded r_def] seq m_def [unfolded r_def], folded r_def, OF ok(2), of can inorder] unfolding n_def by blast
  have m: "0 < m" "m \<le> hold_q_sz r" using deque_count [OF ok(1) seq] by (simp_all add: m_def)
  have "filled (take m (win r)) \<le> m" by (rule order_trans [OF length_takeWhile_le]) simp
  then have n: "n \<le> hold_q_sz r" using m by (simp add: n_def)
  have "moved_on tid n c c'"
    using passed_win_inv(1) [OF d(2) inv] passed_slid [OF d(2)] passed_ids [OF d(2)] passedD(3) [OF d(2)]
      moved_only_fields(1,3) [OF passedD(2) [OF d(2)]] n ok(3) by (simp add: moved_on_def r_def)
  moreover have "hq_skb (hd (win (rx_tid c' tid))) = None" if "inorder" "seq_no = 0"
  proof -
    have "m = hold_q_sz r" using that by (simp add: m_def deque_count_def)
    then have "n = filled (win (rx_tid c tid))" using that by (simp add: n_def r_def)
    then show ?thesis using passed_win_inv(4) [OF d(2) inv] n by (simp add: r_def)
  qed
  ultimately show ?thesis using d m(1) passedD(2) [OF d(2)] by (intro exI [of _ n] exI [of _ c']) (auto simp: n_def)
qed

lemma seq_mask_less [simp]: "seq_mask x < 4096"
  by (simp add: seq_mask_def nat_less_iff)

lemma timeout_skip_moves:
  assumes inv: "win_inv (rx_tid c tid)"
  shows "\<exists>N c'. timeout_skip can c tid = Some c' \<and> moved_on tid N c c' \<and> 0 < N \<and> hq_skb (hd (win (rx_tid c' tid))) = None
    \<and> tid_timer (rx_tid c' tid) = tid_timer (rx_tid c tid)"
proof -
  define next_no where "next_no = seq_mask (int (timerwait_seq_num (rx_tid c tid)) + 1)"
  define ca where "ca = upd_rxst c tid (\<lambda>s. s\<lparr>num_timeouts := num_timeouts s + 1\<rparr>)"
  have a: "rx_tid ca = rx_tid c" "rx_events ca = rx_events c" "win_inv (rx_tid ca tid)" using inv by (simp_all add: ca_def)
  obtain N1 c1 where d1: "aggr_deque_frms can ca tid next_no False = Some c1" "moved_on tid N1 ca c1" "0 < N1"
      "moved_only (rx_tid ca tid) (rx_tid c1 tid)"
    using deque_moves [OF a(3), of next_no can False] by (auto simp: next_no_def)
  obtain N2 c2 where d2: "aggr_deque_frms can c1 tid 0 True = Some c2" "moved_on tid N2 c1 c2"
      "hq_skb (hd (win (rx_tid c2 tid))) = None" "moved_only (rx_tid c1 tid) (rx_tid c2 tid)"
    using deque_moves [of c1 tid 0 can True] d1(2) by (auto simp: moved_on_def)
  have m2: "moved_on tid (N1 + N2) c c2"
    using moved_on_trans [OF d1(2) d2(2)] a by (simp add: moved_on_def)
  have t2: "tid_timer (rx_tid c2 tid) = tid_timer (rx_tid c tid)"
    using moved_only_fields(6) [OF d1(4)] moved_only_fields(6) [OF d2(4)] a by simp
  define skip where "skip \<longleftrightarrow> seq_next (rx_tid c2 tid) = next_no \<and> unat (continuous_count (rx_tid c2 tid)) \<ge> ATH6KL_MAX_WAIT_CONTINUOUS_PKT"
  define clr :: "rxtid \<Rightarrow> rxtid" where "clr = (\<lambda>r. r\<lparr>continuous_count := 0\<rparr>)"
  have clr: "timer_only r (clr r)" "tid_timer (clr r) = tid_timer r" for r by (simp_all add: timer_only_def clr_def)
  show ?thesis
  proof (cases skip)
    case False
    have e: "timeout_skip can c tid = Some c2 \<or> timeout_skip can c tid = Some (upd_rx c2 tid clr)"
      using False by (simp add: timeout_skip_def Let_def next_no_def [symmetric] ca_def [symmetric] d1(1) d2(1) skip_def clr_def)
    have wi: "win_inv (rx_tid c2 tid)" using m2 by (simp add: moved_on_def)
    have "moved_on tid 0 c2 (upd_rx c2 tid clr)" by (rule moved_on_timer [OF wi]) (simp_all add: clr)
    from moved_on_trans [OF m2 this] have m3: "moved_on tid (N1 + N2) c (upd_rx c2 tid clr)" by simp
    have "hq_skb (hd (win (rx_tid (upd_rx c2 tid clr) tid))) = None" using d2(3) timer_only_fields(8) [OF clr(1)] by simp
    then show ?thesis using e m2 m3 d1(3) d2(3) t2 clr(2) by (elim disjE) (intro exI [of _ "N1 + N2"], force)+
  next
    case True
    define iss where "iss = seq_mask (int (issue_timer_seq (rx_tid c2 tid)) + 1)"
    obtain N3 c3 where d3: "aggr_deque_frms can c2 tid iss False = Some c3" "moved_on tid N3 c2 c3" "moved_only (rx_tid c2 tid) (rx_tid c3 tid)"
      using deque_moves [of c2 tid iss can False] m2 by (auto simp: moved_on_def iss_def)
    obtain N4 c4 where d4: "aggr_deque_frms can c3 tid 0 True = Some c4" "moved_on tid N4 c3 c4"
      "hq_skb (hd (win (rx_tid c4 tid))) = None" "moved_only (rx_tid c3 tid) (rx_tid c4 tid)"
      using deque_moves [of c3 tid 0 can True] d3(2) by (auto simp: moved_on_def)
    have e: "timeout_skip can c tid = Some (upd_rx c4 tid clr)"
      using True by (simp add: timeout_skip_def Let_def next_no_def [symmetric] ca_def [symmetric] d1(1) d2(1) skip_def clr_def
        iss_def [symmetric] d3(1) d4(1))
    have m4: "moved_on tid (N1 + N2 + (N3 + N4)) c c4" using moved_on_trans [OF m2 moved_on_trans [OF d3(2) d4(2)]] .
    have wi: "win_inv (rx_tid c4 tid)" using m4 by (simp add: moved_on_def)
    have "moved_on tid 0 c4 (upd_rx c4 tid clr)" by (rule moved_on_timer [OF wi]) (simp_all add: clr)
    from moved_on_trans [OF m4 this] have m5: "moved_on tid (N1 + N2 + (N3 + N4)) c (upd_rx c4 tid clr)" by simp
    have "hq_skb (hd (win (rx_tid (upd_rx c4 tid clr) tid))) = None" using d4(3) timer_only_fields(8) [OF clr(1)] by simp
    moreover have "tid_timer (rx_tid (upd_rx c4 tid clr) tid) = tid_timer (rx_tid c tid)"
      using moved_only_fields(6) [OF d3(3)] moved_only_fields(6) [OF d4(4)] t2 clr(2) by simp
    ultimately show ?thesis using e m5 d1(3) by (intro exI [of _ "N1 + N2 + (N3 + N4)"] exI [of _ "upd_rx c4 tid clr"]) simp
  qed
qed

lemma timeout_scan: "hold_q_sz r \<le> 255 \<Longrightarrow> length (hold_q r) = hold_q_sz r \<Longrightarrow>
   timeout_scan r = Some (find (\<lambda>nd. hq_skb nd \<noteq> None) (hold_q r))"
  by (simp add: timeout_scan_def scan_held)

lemma rearm_fields:
  "timer_only r (timeout_rearm s r)" "tid_timer_scheduled (timeout_rearm s r) = tid_timer_scheduled r"
  "timerwait_seq_num (timeout_rearm s r) = timerwait_seq_num r" "tid_timer_scheduled r \<Longrightarrow> tid_timer (timeout_rearm s r) \<noteq> None"
  by (auto simp: timeout_rearm_def Let_def timer_only_def)

lemma timeout_step:
  assumes inv: "rx_inv (rx_tid c tid)" and en: "aggr (rx_tid c tid) \<or> \<not> tid_timer_scheduled (rx_tid c tid)"
  shows "\<exists>N c'. aggr_timeout can c tid = Some c' \<and> moved_on tid N c c' \<and> rx_inv (rx_tid c' tid)
    \<and> (aggr (rx_tid c tid) \<and> \<not> empty_win (rx_tid c tid) \<longrightarrow> 0 < N)"
proof -
  define c0 where "c0 = upd_rx c tid (\<lambda>r. r\<lparr>tid_timer := None\<rparr>)"
  define r where "r = rx_tid c tid"
  have t0: "timer_only r (rx_tid c0 tid)" by (simp add: c0_def timer_only_def r_def)
  have wi: "win_inv r" "hq_skb (hd (win r)) = None" and tm: "timer_ok r" using inv by (simp_all add: rx_inv_def r_def)
  have wi0: "win_inv (rx_tid c0 tid)" using wi(1) timer_only_fields(9) [OF t0] by simp
  have m0: "moved_on tid 0 c c0" by (rule moved_on_timer) (use wi t0 in \<open>simp_all add: c0_def r_def\<close>)
  have same: "aggr (rx_tid c0 tid) = aggr r" "tid_timer_scheduled (rx_tid c0 tid) = tid_timer_scheduled r"
    "timerwait_seq_num (rx_tid c0 tid) = timerwait_seq_num r" "seq_next (rx_tid c0 tid) = seq_next r"
    by (simp_all add: c0_def r_def)
  show ?thesis
  proof (cases "aggr r \<and> tid_timer_scheduled r")
    case False
    then have ns: "\<not> tid_timer_scheduled r" using en by (auto simp: r_def)
    have "rx_inv (rx_tid c0 tid)"
      using wi wi0 tm ns same timer_only_fields(8,10) [OF t0] by (simp add: rx_inv_def timer_ok_def)
    moreover have "aggr_timeout can c tid = Some c0" using False same by (auto simp: aggr_timeout_def Let_def c0_def [symmetric])
    moreover have "empty_win r" using tm ns by (auto simp: timer_ok_def)
    ultimately show ?thesis using m0 by (intro exI [of _ 0] exI [of _ c0]) (simp add: r_def)
  next
    case True
    have "\<exists>N c1. (if timerwait_seq_num r = seq_next r then timeout_skip can c0 tid else Some c0) = Some c1 \<and> moved_on tid N c0 c1
        \<and> hq_skb (hd (win (rx_tid c1 tid))) = None \<and> (timerwait_seq_num r = seq_next r \<longrightarrow> 0 < N)"
    proof (cases "timerwait_seq_num r = seq_next r")
      case True
      then show ?thesis using timeout_skip_moves [OF wi0, of can] by auto
    next
      case False
      have "moved_on tid 0 c0 c0" using wi0 by (simp add: moved_on_def)
      then show ?thesis using False wi(2) timer_only_fields(8) [OF t0] by auto
    qed
    then obtain N c1 where c1: "(if timerwait_seq_num r = seq_next r then timeout_skip can c0 tid else Some c0) = Some c1"
        "moved_on tid N c0 c1" "hq_skb (hd (win (rx_tid c1 tid))) = None" "timerwait_seq_num r = seq_next r \<longrightarrow> 0 < N" by blast
    have wi1: "win_inv (rx_tid c1 tid)" using c1(2) by (simp add: moved_on_def)
    define c2 where "c2 = upd_rx c1 tid (\<lambda>r. r\<lparr>tid_timer_scheduled := False\<rparr>)"
    have t2: "timer_only (rx_tid c1 tid) (rx_tid c2 tid)" by (simp add: c2_def timer_only_def)
    define f where "f = find (\<lambda>nd. hq_skb nd \<noteq> None) (hold_q (rx_tid c2 tid))"
    have sc: "timeout_scan (rx_tid c2 tid) = Some f"
      unfolding f_def by (rule timeout_scan) (use wi1 in \<open>simp_all add: c2_def win_inv_def win_ok_def\<close>)
    define c3 where "c3 = (case f of None \<Rightarrow> c2 | Some x \<Rightarrow> upd_rx c2 tid (arm_rx x))"
    have t3: "timer_only (rx_tid c2 tid) (rx_tid c3 tid)" by (simp add: c3_def arm_rx_def timer_only_def split: option.split)
    define c4 where "c4 = upd_rx c3 tid (timeout_rearm (tid_timeout_setting c3 tid))"
    have t4: "timer_only (rx_tid c3 tid) (rx_tid c4 tid)" by (simp add: c4_def rearm_fields)
    note t14 = timer_only_trans [OF t2 timer_only_trans [OF t3 t4]]
    have ev: "rx_events c4 = rx_events c1" "\<forall>x. x \<noteq> tid \<longrightarrow> rx_tid c4 x = rx_tid c1 x"
      by (simp_all add: c4_def c3_def c2_def split: option.split)
    have "aggr_timeout can c tid = Some c4"
      using True same c1(1) sc [unfolded c2_def] unfolding aggr_timeout_def Let_def c0_def [symmetric]
      by (cases f) (simp_all add: c2_def c3_def c4_def del: upd_rx_simps)
    moreover have "moved_on tid N c c4"
      using moved_on_trans [OF moved_on_trans [OF m0 c1(2)] moved_on_timer [OF wi1 t14 ev]] by simp
    moreover have "rx_inv (rx_tid c4 tid)"
    proof -
      have emp: "empty_win (rx_tid c4 tid) \<longleftrightarrow> f = None"
        using wi1 find_held [of "hold_q (rx_tid c2 tid)", folded f_def] timer_only_fields(4) [OF t2] timer_only_fields(10) [OF t14]
        by (simp add: empty_win_def set_win win_inv_def)
      have "timer_ok (rx_tid c4 tid)"
      proof (cases f)
        case None
        then have "\<not> tid_timer_scheduled (rx_tid c4 tid)" by (simp add: c4_def rearm_fields c3_def c2_def)
        then show ?thesis using emp None by (simp add: timer_ok_def)
      next
        case (Some x)
        then have "tid_timer_scheduled (rx_tid c3 tid)" "timerwait_seq_num (rx_tid c3 tid) = seq_next (rx_tid c3 tid)"
          by (simp_all add: c3_def arm_rx_def)
        then show ?thesis using rearm_fields(4) timer_only_fields(5) [OF t4] by (simp add: timer_ok_def c4_def rearm_fields)
      qed
      then show ?thesis using c1(3) wi1 timer_only_fields(8,9) [OF t14] by (simp add: rx_inv_def)
    qed
    moreover have "\<not> empty_win r \<longrightarrow> 0 < N" using c1(4) tm by (auto simp: timer_ok_def)
    ultimately show ?thesis by (intro exI [of _ N] exI [of _ c4]) (simp add: r_def)
  qed
qed

lemma slid_empty:
  assumes "slid N w w'" "(\<forall>nd\<in>set w. hq_skb nd = None) \<or> length w \<le> N"
  shows "\<forall>nd\<in>set w'. hq_skb nd = None"
proof
  fix nd assume "nd \<in> set w'"
  then obtain k where "k < length w" "nd = w' ! k" using assms(1) by (auto simp: slid_def in_set_conv_nth)
  then show "hq_skb nd = None" using assms by (auto simp: slid_def)
qed

lemma moved_empty:
  "moved_on tid N c c' \<Longrightarrow> empty_win (rx_tid c tid) \<or> hold_q_sz (rx_tid c tid) \<le> N \<Longrightarrow> empty_win (rx_tid c' tid)"
  using slid_empty [of N "win (rx_tid c tid)" "win (rx_tid c' tid)"] by (simp add: moved_on_def empty_win_def)

text \<open>The timer fires \<open>n\<close> times with no frame in between.\<close>

fun timeouts :: "(nat \<Rightarrow> bool) \<Rightarrow> nat \<Rightarrow> nat \<Rightarrow> aggr_conn \<Rightarrow> aggr_conn option" where
  "timeouts can tid 0 c = Some c"
| "timeouts can tid (Suc n) c = (case aggr_timeout can c tid of None \<Rightarrow> None | Some c1 \<Rightarrow> timeouts can tid n c1)"

lemma timeouts_move:
  assumes "rx_inv (rx_tid c tid)" "aggr (rx_tid c tid)"
  shows "\<exists>N c'. timeouts can tid n c = Some c' \<and> moved_on tid N c c' \<and> rx_inv (rx_tid c' tid)
    \<and> (empty_win (rx_tid c' tid) \<or> n \<le> N)"
  using assms
proof (induction n arbitrary: c)
  case 0
  then have "moved_on tid 0 c c" by (simp add: moved_on_def rx_inv_def)
  then show ?case using 0 by (intro exI [of _ 0] exI [of _ c]) simp
next
  case (Suc n)
  obtain N c1 where c1: "aggr_timeout can c tid = Some c1" "moved_on tid N c c1" "rx_inv (rx_tid c1 tid)"
    "\<not> empty_win (rx_tid c tid) \<longrightarrow> 0 < N" using timeout_step [OF Suc.prems(1), of can] Suc.prems(2) by auto
  obtain M c2 where c2: "timeouts can tid n c1 = Some c2" "moved_on tid M c1 c2" "rx_inv (rx_tid c2 tid)"
    "empty_win (rx_tid c2 tid) \<or> n \<le> M" using Suc.IH [OF c1(3)] c1(2) Suc.prems(2) by (auto simp: moved_on_def)
  have "empty_win (rx_tid c2 tid)" if "empty_win (rx_tid c tid)"
    using moved_empty [OF moved_on_trans [OF c1(2) c2(2)]] that by blast
  then have "empty_win (rx_tid c2 tid) \<or> Suc n \<le> N + M" using c1(4) c2(4) by auto
  then show ?case using c1(1) c2 moved_on_trans [OF c1(2) c2(2)] by (intro exI [of _ "N + M"] exI [of _ c2]) simp
qed

text \<open>
  Property C22.  No frame waits for ever.  From any state the reordering keeps, the timer routine
  always returns, and after it has fired as often as the window has slots, with no further frame
  arriving, no frame waits: each that waited has been handed up or freed exactly once.
\<close>

theorem timer_drains_window:
  assumes "rx_inv (rx_tid c tid)" and "aggr (rx_tid c tid)"
  shows "\<exists>c'. timeouts can tid (hold_q_sz (rx_tid c tid)) c = Some c' \<and> empty_win (rx_tid c' tid) \<and> rx_inv (rx_tid c' tid)
    \<and> ev_ids (rx_events c') = ev_ids (rx_events c) + held_ids (win (rx_tid c tid))
    \<and> (\<forall>x. x \<noteq> tid \<longrightarrow> rx_tid c' x = rx_tid c x)"
proof -
  obtain N c' where t: "timeouts can tid (hold_q_sz (rx_tid c tid)) c = Some c'" "moved_on tid N c c'" "rx_inv (rx_tid c' tid)"
    "empty_win (rx_tid c' tid) \<or> hold_q_sz (rx_tid c tid) \<le> N" using timeouts_move [OF assms, of can] by blast
  have "empty_win (rx_tid c' tid)" using moved_empty [OF t(2)] t(4) by blast
  then show ?thesis using t(1-3) empty_win_ids [of "rx_tid c' tid"] by (simp add: moved_on_def)
qed

definition ex_held :: rxtid where
  "ex_held = (ex_rxtid 4095 [(1, 7)])\<lparr>tid_timer := Some 100, tid_timer_scheduled := True\<rparr>"

lemma ex_held_win: "win ex_held = [\<lparr>hq_skb = None, hq_amsdu = False, hq_seq = 0\<rparr>, \<lparr>hq_skb = None, hq_amsdu = False, hq_seq = 0\<rparr>,
    \<lparr>hq_skb = Some (ex_skb 7), hq_amsdu = False, hq_seq = 1\<rparr>, \<lparr>hq_skb = None, hq_amsdu = False, hq_seq = 0\<rparr>]"
  by (simp add: ex_held_def win_def ex_rxtid_def upt_0_4)

lemma ex_held_inv: "rx_inv ex_held"
proof -
  have f: "hold_q_sz ex_held = 4" "rxq ex_held = []" "\<not> sync_next_seq ex_held" "tid_timer_scheduled ex_held" "tid_timer ex_held = Some 100"
    "timerwait_seq_num ex_held = 4095" "seq_next ex_held = 4095" "win_ok ex_held"
    by (simp_all add: ex_held_def ex_rxtid_def win_ok_def)
  have "held_seq ex_held"
    unfolding held_seq_def f ex_held_win
  proof (intro allI impI)
    fix k :: nat assume "k < 4"
    then have "k = 0 \<or> k = 1 \<or> k = 2 \<or> k = 3" by linarith
    moreover assume "hq_skb ([\<lparr>hq_skb = None, hq_amsdu = False, hq_seq = 0\<rparr>, \<lparr>hq_skb = None, hq_amsdu = False, hq_seq = 0\<rparr>,
      \<lparr>hq_skb = Some (ex_skb 7), hq_amsdu = False, hq_seq = 1\<rparr>, \<lparr>hq_skb = None, hq_amsdu = False, hq_seq = 0\<rparr>] ! k) \<noteq> None"
    ultimately show "hq_seq ([\<lparr>hq_skb = None, hq_amsdu = False, hq_seq = 0\<rparr>, \<lparr>hq_skb = None, hq_amsdu = False, hq_seq = 0\<rparr>,
      \<lparr>hq_skb = Some (ex_skb 7), hq_amsdu = False, hq_seq = 1\<rparr>, \<lparr>hq_skb = None, hq_amsdu = False, hq_seq = 0\<rparr>] ! k) = (4095 + k) mod 4096"
      by auto
  qed
  then show ?thesis using f by (simp add: rx_inv_def win_inv_def timer_ok_def ex_held_win node_ok_def empty_win_def)
qed

lemma timer_drains_window_witness:
  "\<exists>c'. timeouts (\<lambda>_. True) 0 4 ((ex_conn 4095 [])\<lparr>rx_tid := (\<lambda>_. ex_held)\<rparr>) = Some c' \<and> ev_ids (rx_events c') = {#7#}"
proof -
  have f: "rx_tid ((ex_conn 4095 [])\<lparr>rx_tid := (\<lambda>_. ex_held)\<rparr>) 0 = ex_held" "rx_events ((ex_conn 4095 [])\<lparr>rx_tid := (\<lambda>_. ex_held)\<rparr>) = []"
    by (simp_all add: ex_conn_def)
  have g: "hold_q_sz ex_held = 4" "aggr ex_held" "held_ids (win ex_held) = {#7#}"
    by (simp_all add: ex_held_win node_ids_def id_ms_def ex_skb_def) (simp_all add: ex_held_def ex_rxtid_def)
  show ?thesis
    using timer_drains_window [of "(ex_conn 4095 [])\<lparr>rx_tid := (\<lambda>_. ex_held)\<rparr>" 0 "\<lambda>_. True"] ex_held_inv g(2)
    unfolding f g(1,3) by auto
qed

section \<open>Setting up a window\<close>

lemma delete_tid_state:
  assumes "aggr (rx_tid c tid) \<longrightarrow> rx_inv (rx_tid c tid)" and "\<not> aggr (rx_tid c tid) \<longrightarrow> rxq (rx_tid c tid) = []" and "tid < NUM_OF_TIDS"
  shows "\<exists>c'. aggr_delete_tid_state can c tid = Some c' \<and> \<not> aggr (rx_tid c' tid) \<and> hold_q (rx_tid c' tid) = []
    \<and> hold_q_sz (rx_tid c' tid) = 0 \<and> rxq (rx_tid c' tid) = [] \<and> (\<forall>x. x \<noteq> tid \<longrightarrow> rx_tid c' x = rx_tid c x)
    \<and> tid_timer (rx_tid c' tid) = tid_timer (rx_tid c tid) \<and> tid_timer_scheduled (rx_tid c' tid) = tid_timer_scheduled (rx_tid c tid)
    \<and> ev_ids (rx_events c') = ev_ids (rx_events c) + (if aggr (rx_tid c tid) then held_ids (win (rx_tid c tid)) else {#})"
proof (cases "aggr (rx_tid c tid)")
  case True
  then have wi: "win_inv (rx_tid c tid)" using assms(1) by (simp add: rx_inv_def)
  then have ok: "win_ok (rx_tid c tid)" "rxq (rx_tid c tid) = []" "\<forall>nd\<in>set (win (rx_tid c tid)). node_ok nd" by (simp_all add: win_inv_def)
  obtain os c1 where d: "aggr_deque_frms can c tid 0 False = Some c1" "passed can tid (hold_q_sz (rx_tid c tid)) os c c1"
    using deque_frms [OF ok(1), of 0 _ can False] ok(3) by (auto simp: deque_count_def)
  have "held_ids (win (rx_tid c1 tid)) = {#}" by (rule empty_win_ids, rule passed_win_inv(3) [OF d(2) wi]) simp_all
  then have "ev_ids (rx_events c1) = ev_ids (rx_events c) + held_ids (win (rx_tid c tid))" using passed_ids [OF d(2) ok(2)] by simp
  then show ?thesis
    using True d(1) assms(3) passedD(3,5) [OF d(2)] moved_only_fields(6,7) [OF passedD(2) [OF d(2)]]
    by (simp add: aggr_delete_tid_state_def)
next
  case False
  then show ?thesis using assms by (simp add: aggr_delete_tid_state_def)
qed

lemma addba_setup_run:
  assumes "t < NUM_OF_TIDS" and "seq_no < 4096" and "0 < winsz" and "winsz \<le> 64" and "2 * winsz dvd 4096"
    and "aggr (rx_tid c t) \<longrightarrow> rx_inv (rx_tid c t)" and "\<not> aggr (rx_tid c t) \<longrightarrow> rxq (rx_tid c t) = []"
    and "tid_timer_scheduled (rx_tid c t) \<longrightarrow> tid_timer (rx_tid c t) \<noteq> None"
  shows "\<exists>c'. addba_setup can kz c t seq_no winsz = Some c'
    \<and> (let r' = rx_tid c' t in
        (if kz then aggr r' \<and> rx_inv r' \<and> empty_win r' \<and> hold_q_sz r' = 2 * winsz \<and> seq_next r' = seq_no \<and> sync_next_seq r'
         else \<not> aggr r' \<and> hold_q r' = []) \<and> rxq r' = [] \<and> (tid_timer_scheduled r' \<longrightarrow> tid_timer r' \<noteq> None))
    \<and> ev_ids (rx_events c') = ev_ids (rx_events c) + (if aggr (rx_tid c t) then held_ids (win (rx_tid c t)) else {#})
    \<and> (\<forall>x. x \<noteq> t \<longrightarrow> rx_tid c' x = rx_tid c x)"
proof -
  define r where "r = rx_tid c t"
  have "\<exists>c1. (if aggr (rx_tid c t) then aggr_delete_tid_state can c t else Some c) = Some c1 \<and> \<not> aggr (rx_tid c1 t) \<and> rxq (rx_tid c1 t) = []
    \<and> (\<forall>x. x \<noteq> t \<longrightarrow> rx_tid c1 x = rx_tid c x)
    \<and> tid_timer (rx_tid c1 t) = tid_timer r \<and> tid_timer_scheduled (rx_tid c1 t) = tid_timer_scheduled r
    \<and> ev_ids (rx_events c1) = ev_ids (rx_events c) + (if aggr r then held_ids (win r) else {#})"
    using delete_tid_state [of c t can] assms(1,6,7) by (auto simp: r_def)
  then obtain c1 where c1: "(if aggr (rx_tid c t) then aggr_delete_tid_state can c t else Some c) = Some c1" "\<not> aggr (rx_tid c1 t)"
    "rxq (rx_tid c1 t) = []" "\<forall>x. x \<noteq> t \<longrightarrow> rx_tid c1 x = rx_tid c x"
    "tid_timer (rx_tid c1 t) = tid_timer r" "tid_timer_scheduled (rx_tid c1 t) = tid_timer_scheduled r"
    "ev_ids (rx_events c1) = ev_ids (rx_events c) + (if aggr r then held_ids (win r) else {#})" by blast
  define q where "q = replicate (2 * winsz) \<lparr>hq_skb = None, hq_amsdu = False, hq_seq = 0\<rparr>"
  define r' where "r' = (rx_tid c1 t)\<lparr>seq_next := seq_no, hold_q := q, win_sz := winsz, hold_q_sz := 2 * winsz, aggr := True, sync_next_seq := True\<rparr>"
  have ok: "win_ok r'" using assms(2-5) by (simp add: win_ok_def r'_def q_def)
  have e: "empty_win r'" unfolding empty_win_def set_win [OF ok] by (simp add: r'_def q_def)
  have inv: "rx_inv r'"
  proof -
    have "win r' \<noteq> []" using ok by (auto simp: win_ok_def simp flip: length_0_conv)
    then show ?thesis using ok e assms(3,4,8) c1(3,5,6)
      by (auto simp: rx_inv_def win_inv_def timer_ok_def held_seq_def node_ok_def empty_win_def r'_def r_def)
  qed
  define c' where "c' = (if kz then upd_rx c1 t (\<lambda>_. r') else upd_rx c1 t (\<lambda>r. r\<lparr>seq_next := seq_no, hold_q := []\<rparr>))"
  have "addba_setup can kz c t seq_no winsz = Some c'"
    using c1(1,3) by (simp add: addba_setup_def Let_def TID_WINDOW_SZ_def r'_def q_def upd_rx_def mult.commute c'_def)
  moreover have "aggr r'" "hold_q_sz r' = 2 * winsz" "seq_next r' = seq_no" "sync_next_seq r'" "rxq r' = []"
    "tid_timer_scheduled r' \<longrightarrow> tid_timer r' \<noteq> None" using c1(3,5,6) assms(8) by (simp_all add: r'_def r_def)
  ultimately show ?thesis
    using inv e c1(2,3,4,5,6,7) assms(8) by (intro exI [of _ c']) (simp add: Let_def r_def [symmetric] c'_def upd_rx_def)
qed



definition ex_msdu :: msdu where
  "ex_msdu = \<lparr>ms_dst = replicate 6 1, ms_src = replicate 6 2, ms_snap = replicate 6 3, ms_type = [8, 0], ms_data = replicate 29 7\<rparr>"

lemma slice_amsdu_round_trip_witness:
  "\<exists>k c'. aggr_slice_amsdu (\<lambda>_. True) (ex_conn 0 []) 3 (skb_of (replicate 14 9 @ put_subs [ex_msdu, ex_msdu])) = Some c'
    \<and> map skb_bytes (rxq (rx_tid c' 3)) = [ether_frame ex_msdu, ether_frame ex_msdu]"
proof -
  have ok: "msdu_ok ex_msdu" "length (put_sub ex_msdu) = 51"
    by (simp_all add: ex_msdu_def msdu_ok_def rx_consts put_sub_def)
  have l: "skb_len (skb_of bs) = length bs" for bs by (simp add: skb_of_def)
  have q: "rxq (rx_tid (ex_conn 0 []) 3) = []" by (simp add: ex_conn_def ex_rxtid_def)
  show ?thesis
    using slice_amsdu_round_trip [of "skb_of (replicate 14 9 @ put_subs [ex_msdu, ex_msdu])" "replicate 14 9" "[ex_msdu, ex_msdu]" "\<lambda>_. True" "ex_conn 0 []" 3]
    ok by (auto simp: l q rx_consts)
qed

text \<open>
  Corners of the window code.  A window pushed so that it starts at number 0 is emptied instead; a
  window size of zero, which the request does not refuse, makes the first stored frame divide by
  zero; with 256 slots or more the timer's scan never ends on an empty window.
\<close>

lemma push_at_zero:
  assumes "seq_dist (z - 1) cur = 0" "z \<le> seq_dist st cur" "seq_dist st cur < 2 * z - 1"
  shows "push_count z st cur = z" "seq_dist st cur - (z - 1) < z"
  using assms by (simp_all add: push_count_def)

lemma zero_window_fails: "hold_q_sz (rx_tid c tid) = 0 \<Longrightarrow> recv_store c tid seq_no am frame = None"
  by (simp add: recv_store_def Let_def)

lemma scan_none_held: "n \<le> length q \<Longrightarrow> \<forall>nd\<in>set q. hq_skb nd = None \<Longrightarrow> scan_held q n = Some None"
  by (induction q n rule: scan_held.induct) auto

lemma wide_window_never_ends:
  assumes "hold_q_sz r = length (hold_q r)" "256 \<le> hold_q_sz r" "\<forall>nd\<in>set (hold_q r). hq_skb nd = None"
  shows "timeout_scan r = None"
  using assms scan_none_held [of 256 "hold_q r"] by (simp add: timeout_scan_def)

end
