(* ===== verification/PsQueue.thy ===== *)
theory PsQueue
  imports RxReorder
begin

text \<open>
  The power-save queues of an access point (drivers/ath6kl/main.c, \<open>ath6kl_ps_queue_*\<close>): frames for
  sleeping stations wait in a list with a depth limit, counters, and an age per frame.

  The interface the rest of the access point relies on is a first-in first-out queue that may refuse
  a frame (\<open>fifo_queue\<close>); the queues of the code are an interpretation of it, with the list of the
  waiting frames, without their ages, as its content.
\<close>

section \<open>Data\<close>

definition ATH6KL_PS_QUEUE_CHECK_AGE :: nat where "ATH6KL_PS_QUEUE_CHECK_AGE = 1000"
definition ATH6KL_PS_QUEUE_MAX_AGE :: nat where "ATH6KL_PS_QUEUE_MAX_AGE = 5"
definition ATH6KL_PS_QUEUE_NO_AGE :: nat where "ATH6KL_PS_QUEUE_NO_AGE = 0"
definition ATH6KL_PS_QUEUE_MAX_DEPTH :: nat where "ATH6KL_PS_QUEUE_MAX_DEPTH = 65535"
definition ATH6KL_PS_QUEUE_NO_DEPTH :: nat where "ATH6KL_PS_QUEUE_NO_DEPTH = 0"

lemmas psq_consts = ATH6KL_PS_QUEUE_CHECK_AGE_def ATH6KL_PS_QUEUE_MAX_AGE_def ATH6KL_PS_QUEUE_NO_AGE_def
  ATH6KL_PS_QUEUE_MAX_DEPTH_def ATH6KL_PS_QUEUE_NO_DEPTH_def

datatype ps_queue_type = PS_QUEUE_TYPE_NONE | PS_QUEUE_TYPE_STA_UNICAST | PS_QUEUE_TYPE_STA_MGMT | PS_QUEUE_TYPE_AP_MULTICAST

record ps_buf_desc =
  psb_age :: u32
  psb_len :: nat
  psb_skb :: "skb option"
  psb_freq :: u32
  psb_wait :: u32
  psb_id :: u32
  psb_no_cck :: bool
  psb_no_ack :: bool
  psb_buf :: "u8 list"

record ps_buf_head =
  psq_list :: "ps_buf_desc list"
  psq_type :: ps_queue_type
  psq_depth :: int
  psq_age_cycle :: nat
  psq_max_depth :: nat
  psq_enqueued :: u32
  psq_enqueued_err :: u32
  psq_dequeued :: u32
  psq_aged :: u32

text \<open>The number of waiting frames is the size of a queue.\<close>

instantiation ps_buf_head_ext :: (type) size
begin

definition size_ps_buf_head_ext :: "'a ps_buf_head_scheme \<Rightarrow> nat" where
  "size_ps_buf_head_ext q = length (psq_list q)"

instance ..

end

section \<open>Operations\<close>

definition ath6kl_ps_queue_init :: "ps_buf_head \<Rightarrow> ps_queue_type \<Rightarrow> nat \<Rightarrow> nat \<Rightarrow> ps_buf_head" where
  "ath6kl_ps_queue_init q ty age_cycle max_depth =
     \<lparr>psq_list = [], psq_type = ty, psq_depth = 0, psq_age_cycle = age_cycle, psq_max_depth = max_depth,
      psq_enqueued = 0, psq_enqueued_err = 0, psq_dequeued = 0, psq_aged = 0\<rparr>"

definition skbs_of :: "ps_buf_desc list \<Rightarrow> skb list" where
  "skbs_of ds = concat (map (\<lambda>d. case psb_skb d of None \<Rightarrow> [] | Some s \<Rightarrow> [s]) ds)"

text \<open>\<open>ath6kl_ps_queue_purge\<close>; the socket buffers that are freed come first.\<close>

definition ath6kl_ps_queue_purge :: "ps_buf_head \<Rightarrow> skb list \<times> ps_buf_head" where
  "ath6kl_ps_queue_purge q =
     (if psq_depth q = 0 then ([], q)
      else (skbs_of (psq_list q), q\<lparr>psq_list := [], psq_depth := 0, psq_enqueued := 0, psq_enqueued_err := 0,
              psq_dequeued := 0, psq_aged := 0\<rparr>))"

definition ath6kl_ps_queue_empty :: "ps_buf_head \<Rightarrow> bool" where
  "ath6kl_ps_queue_empty q \<longleftrightarrow> psq_depth q = 0"

definition ath6kl_ps_queue_depth :: "ps_buf_head \<Rightarrow> int" where
  "ath6kl_ps_queue_depth q = psq_depth q"

definition ath6kl_ps_queue_stat :: "ps_buf_head \<Rightarrow> int \<times> u32 \<times> u32 \<times> u32 \<times> u32" where
  "ath6kl_ps_queue_stat q = (psq_depth q, psq_enqueued q, psq_enqueued_err q, psq_dequeued q, psq_aged q)"

text \<open>
  Taking the first frame.  With a depth that is not 0 and an empty list the code would take the list
  head for a frame; \<open>psq_ok\<close> below excludes that, and the model then takes nothing.
\<close>

definition ath6kl_ps_queue_dequeue :: "ps_buf_head \<Rightarrow> ps_buf_desc option \<times> ps_buf_head" where
  "ath6kl_ps_queue_dequeue q =
     (if psq_depth q = 0 then (None, q)
      else case psq_list q of
        [] \<Rightarrow> (None, q)
      | d # ds \<Rightarrow> (Some d, q\<lparr>psq_list := ds, psq_depth := psq_depth q - 1, psq_dequeued := psq_dequeued q + 1\<rparr>))"

text \<open>
  Adding a frame: the depth is checked before the new frame is counted, and with \<open>>\<close>.  \<open>can\<close> says
  whether the descriptor can be allocated.
\<close>

definition psq_push :: "bool \<Rightarrow> ps_buf_head \<Rightarrow> ps_buf_desc \<Rightarrow> int \<times> ps_buf_head" where
  "psq_push can q d =
     (if psq_max_depth q \<noteq> ATH6KL_PS_QUEUE_NO_DEPTH \<and> psq_depth q > int (psq_max_depth q)
      then (- EBUSY, q\<lparr>psq_enqueued_err := psq_enqueued_err q + 1\<rparr>)
      else if \<not> can then (- ENOMEM, q\<lparr>psq_enqueued_err := psq_enqueued_err q + 1\<rparr>)
      else (0, q\<lparr>psq_list := psq_list q @ [d], psq_depth := psq_depth q + 1, psq_enqueued := psq_enqueued q + 1\<rparr>))"

definition ath6kl_ps_queue_enqueue_mgmt ::
    "bool \<Rightarrow> ps_buf_head \<Rightarrow> u8 list \<Rightarrow> u32 \<Rightarrow> u32 \<Rightarrow> u32 \<Rightarrow> bool \<Rightarrow> bool \<Rightarrow> int \<times> ps_buf_head" where
  "ath6kl_ps_queue_enqueue_mgmt can q buf i freq w no_cck no_ack =
     psq_push can q \<lparr>psb_age = 0, psb_len = length buf, psb_skb = None, psb_freq = freq, psb_wait = w, psb_id = i,
       psb_no_cck = no_cck, psb_no_ack = no_ack, psb_buf = buf\<rparr>"

text \<open>The fields for management frames keep what the allocator left there; 0 stands for it.\<close>

definition ath6kl_ps_queue_enqueue_data :: "bool \<Rightarrow> ps_buf_head \<Rightarrow> skb \<Rightarrow> int \<times> ps_buf_head" where
  "ath6kl_ps_queue_enqueue_data can q s =
     psq_push can q \<lparr>psb_age = 0, psb_len = skb_len s, psb_skb = Some s, psb_freq = 0, psb_wait = 0, psb_id = 0,
       psb_no_cck = False, psb_no_ack = False, psb_buf = []\<rparr>"

text \<open>\<open>ath6kl_ps_queue_aging\<close>: the loop over the list, with the frames it frees.\<close>

definition ath6kl_ps_queue_get_age :: "ps_buf_desc \<Rightarrow> u32" where
  "ath6kl_ps_queue_get_age d = psb_age d"

definition ath6kl_ps_queue_set_age :: "ps_buf_desc \<Rightarrow> u32 \<Rightarrow> ps_buf_desc" where
  "ath6kl_ps_queue_set_age d a = d\<lparr>psb_age := a\<rparr>"

fun aging_loop :: "ps_buf_head \<Rightarrow> ps_buf_desc list \<Rightarrow> skb list \<times> ps_buf_desc list \<times> ps_buf_head" where
  "aging_loop q [] = ([], [], q)"
| "aging_loop q (d # ds) =
     (let age = ath6kl_ps_queue_get_age d + 1 in
      if psq_age_cycle q \<noteq> ATH6KL_PS_QUEUE_NO_AGE \<and> unat age \<ge> psq_age_cycle q
      then case aging_loop (q\<lparr>psq_aged := psq_aged q + 1, psq_dequeued := psq_dequeued q + 1, psq_depth := psq_depth q - 1\<rparr>) ds of
             (fr, ks, q1) \<Rightarrow> (skbs_of [d] @ fr, ks, q1)
      else case aging_loop q ds of (fr, ks, q1) \<Rightarrow> (fr, ath6kl_ps_queue_set_age d age # ks, q1))"

definition ath6kl_ps_queue_aging :: "ps_buf_head \<Rightarrow> bool \<times> skb list \<times> ps_buf_head" where
  "ath6kl_ps_queue_aging q =
     (if psq_depth q = 0 then (True, [], q)
      else case aging_loop q (psq_list q) of
        (fr, ks, q1) \<Rightarrow> (psq_depth q1 = 0, fr, q1\<lparr>psq_list := ks\<rparr>))"

section \<open>The interface: a queue that may refuse\<close>

locale fifo_queue =
  fixes enq :: "'a \<Rightarrow> 'q \<Rightarrow> bool \<times> 'q"
    and deq :: "'q \<Rightarrow> 'a option \<times> 'q"
    and emp :: "'q \<Rightarrow> bool"
    and items :: "'q \<Rightarrow> 'a list"
    and inv :: "'q \<Rightarrow> bool"
  assumes emp: "inv q \<Longrightarrow> emp q \<longleftrightarrow> items q = []"
    and enq: "inv q \<Longrightarrow> enq a q = (ok, q') \<Longrightarrow> inv q' \<and> items q' = items q @ (if ok then [a] else [])"
    and deq: "inv q \<Longrightarrow> deq q = (x, q') \<Longrightarrow>
      inv q' \<and> (case x of None \<Rightarrow> items q = [] \<and> items q' = [] | Some a \<Rightarrow> items q = a # items q')"
begin

lemma deq_none: "inv q \<Longrightarrow> deq q = (None, q') \<Longrightarrow> inv q' \<and> emp q \<and> emp q'"
  using deq [of q None q'] emp [of q] emp [of q'] by simp

lemma deq_some: "inv q \<Longrightarrow> deq q = (Some a, q') \<Longrightarrow> inv q' \<and> items q = a # items q' \<and> \<not> emp q"
  using deq [of q "Some a" q'] emp [of q] by simp

lemma deq_emp: "inv q \<Longrightarrow> fst (deq q) = None \<longleftrightarrow> emp q"
  using deq_none [of q "snd (deq q)"] deq_some [of q _ "snd (deq q)"] by (cases "deq q"; cases "fst (deq q)") auto

end

text \<open>A history of a queue: what was taken out and what was let in.\<close>

datatype 'a qop = QEnq 'a | QDeq

fun run_queue :: "('a \<Rightarrow> 'q \<Rightarrow> bool \<times> 'q) \<Rightarrow> ('q \<Rightarrow> 'a option \<times> 'q) \<Rightarrow> 'a qop list \<Rightarrow> 'q \<Rightarrow> 'a list \<times> 'a list \<times> 'q" where
  "run_queue enq deq [] q = ([], [], q)"
| "run_queue enq deq (QEnq a # ops) q =
     (case enq a q of (ok, q1) \<Rightarrow> case run_queue enq deq ops q1 of (outs, ins, q2) \<Rightarrow>
        (outs, (if ok then a # ins else ins), q2))"
| "run_queue enq deq (QDeq # ops) q =
     (case deq q of (x, q1) \<Rightarrow> case run_queue enq deq ops q1 of (outs, ins, q2) \<Rightarrow>
        ((case x of None \<Rightarrow> outs | Some a \<Rightarrow> a # outs), ins, q2))"

text \<open>Taking frames until there is none, at most \<open>n\<close>.\<close>

fun drain :: "('q \<Rightarrow> 'a option \<times> 'q) \<Rightarrow> nat \<Rightarrow> 'q \<Rightarrow> 'a list \<times> 'q" where
  "drain deq 0 q = ([], q)"
| "drain deq (Suc n) q =
     (case deq q of (None, q1) \<Rightarrow> ([], q1)
      | (Some a, q1) \<Rightarrow> case drain deq n q1 of (as, q2) \<Rightarrow> (a # as, q2))"

context fifo_queue
begin

lemma run_fifo:
  "inv q \<Longrightarrow> run_queue enq deq ops q = (outs, ins, q') \<Longrightarrow> inv q' \<and> items q @ ins = outs @ items q'"
proof (induction ops arbitrary: q outs ins q')
  case Nil then show ?case by simp
next
  case (Cons op ops)
  show ?case
  proof (cases op)
    case (QEnq a)
    obtain ok q1 where e: "enq a q = (ok, q1)" by (cases "enq a q")
    obtain o2 i2 q2 where r: "run_queue enq deq ops q1 = (o2, i2, q2)" by (cases "run_queue enq deq ops q1")
    show ?thesis using Cons.IH [OF _ r] enq [OF Cons.prems(1) e] Cons.prems(2) QEnq e r by auto
  next
    case QDeq
    obtain x q1 where e: "deq q = (x, q1)" by (cases "deq q")
    obtain o2 i2 q2 where r: "run_queue enq deq ops q1 = (o2, i2, q2)" by (cases "run_queue enq deq ops q1")
    show ?thesis using Cons.IH [OF _ r] deq [OF Cons.prems(1) e] Cons.prems(2) QDeq e r by (cases x) auto
  qed
qed

lemma drain_all: "inv q \<Longrightarrow> length (items q) \<le> n \<Longrightarrow> drain deq n q = (as, q') \<Longrightarrow> inv q' \<and> as = items q \<and> items q' = []"
proof (induction n arbitrary: q as q')
  case 0 then show ?case by simp
next
  case (Suc n)
  obtain x q1 where e: "deq q = (x, q1)" by (cases "deq q")
  show ?case
  proof (cases x)
    case None then show ?thesis using deq [OF Suc.prems(1) e] Suc.prems(3) e by simp
  next
    case (Some a)
    obtain bs q2 where r: "drain deq n q1 = (bs, q2)" by (cases "drain deq n q1")
    show ?thesis using Suc.IH [OF _ _ r] deq [OF Suc.prems(1) e] Suc.prems(2,3) Some e r by auto
  qed
qed

end

section \<open>The queues of the code are such queues\<close>

text \<open>A frame without its age: what a waiting descriptor stands for.\<close>

datatype ps_frame = PsData skb | PsMgmt "u8 list" u32 u32 u32 bool bool

definition frame_of :: "ps_buf_desc \<Rightarrow> ps_frame" where
  "frame_of d = (case psb_skb d of Some s \<Rightarrow> PsData s
     | None \<Rightarrow> PsMgmt (psb_buf d) (psb_id d) (psb_freq d) (psb_wait d) (psb_no_cck d) (psb_no_ack d))"

definition psq_frames :: "ps_buf_head \<Rightarrow> ps_frame list" where
  "psq_frames q = map frame_of (psq_list q)"

definition ps_enq :: "bool \<Rightarrow> ps_frame \<Rightarrow> ps_buf_head \<Rightarrow> bool \<times> ps_buf_head" where
  "ps_enq can f q = apfst (\<lambda>st. st = 0) (case f of
       PsData s \<Rightarrow> ath6kl_ps_queue_enqueue_data can q s
     | PsMgmt buf i freq w no_cck no_ack \<Rightarrow> ath6kl_ps_queue_enqueue_mgmt can q buf i freq w no_cck no_ack)"

definition ps_deq :: "ps_buf_head \<Rightarrow> ps_frame option \<times> ps_buf_head" where
  "ps_deq q = apfst (map_option frame_of) (ath6kl_ps_queue_dequeue q)"

definition young :: "ps_buf_head \<Rightarrow> ps_buf_desc \<Rightarrow> bool" where
  "young q d \<longleftrightarrow> psq_age_cycle q = 0 \<or> unat (psb_age d) < psq_age_cycle q"

definition psq_ok :: "ps_buf_head \<Rightarrow> bool" where
  "psq_ok q \<longleftrightarrow> psq_depth q = int (size q) \<and> psq_enqueued q - psq_dequeued q = of_nat (size q)
     \<and> (psq_max_depth q \<noteq> 0 \<longrightarrow> size q \<le> psq_max_depth q + 1) \<and> (\<forall>d\<in>set (psq_list q). young q d)"

lemma size_psq [simp]: "size (q :: ps_buf_head) = length (psq_list q)"
  by (simp add: size_ps_buf_head_ext_def)

lemma psq_init_ok: "psq_ok (ath6kl_ps_queue_init q ty ac md)"
  by (simp add: psq_ok_def ath6kl_ps_queue_init_def)

lemma psq_purge:
  assumes "psq_ok q" and "ath6kl_ps_queue_purge q = (fr, q')"
  shows "psq_ok q'" "psq_list q' = []" "fr = skbs_of (psq_list q)"
  using assms by (auto simp: ath6kl_ps_queue_purge_def psq_ok_def skbs_of_def split: if_split_asm)

lemma psq_push_cases:
  assumes ok: "psq_ok q" and age: "psb_age d = 0"
  shows "if psq_max_depth q \<noteq> 0 \<and> size q > psq_max_depth q then psq_push can q d = (- EBUSY, q\<lparr>psq_enqueued_err := psq_enqueued_err q + 1\<rparr>)
    else if \<not> can then psq_push can q d = (- ENOMEM, q\<lparr>psq_enqueued_err := psq_enqueued_err q + 1\<rparr>)
    else psq_push can q d = (0, q\<lparr>psq_list := psq_list q @ [d], psq_depth := psq_depth q + 1, psq_enqueued := psq_enqueued q + 1\<rparr>)"
  using assms by (auto simp: psq_push_def psq_ok_def psq_consts)

lemma psq_push_ok:
  assumes ok: "psq_ok q" and age: "psb_age d = 0" and p: "psq_push can q d = (st, q')"
  shows "psq_ok q'" "psq_list q' = psq_list q @ (if st = 0 then [d] else [])" "psq_max_depth q' = psq_max_depth q"
    "st = 0 \<longleftrightarrow> \<not> (psq_max_depth q \<noteq> 0 \<and> size q > psq_max_depth q) \<and> can" "psq_age_cycle q' = psq_age_cycle q"
proof -
  note c = psq_push_cases [OF ok age, of can]
  have e: "psq_enqueued q + 1 - psq_dequeued q = psq_enqueued q - psq_dequeued q + 1" by simp
  show "psq_ok q'" "psq_list q' = psq_list q @ (if st = 0 then [d] else [])" "psq_max_depth q' = psq_max_depth q"
    "st = 0 \<longleftrightarrow> \<not> (psq_max_depth q \<noteq> 0 \<and> size q > psq_max_depth q) \<and> can" "psq_age_cycle q' = psq_age_cycle q"
    using c p ok age by (auto simp: psq_ok_def e young_def split: if_split_asm)
qed

lemma dequeue_cases:
  assumes ok: "psq_ok q" and d: "ath6kl_ps_queue_dequeue q = (x, q')"
  shows "psq_ok q'" "case x of None \<Rightarrow> psq_list q = [] \<and> q' = q | Some d \<Rightarrow> psq_list q = d # psq_list q'"
    "psq_max_depth q' = psq_max_depth q" "psq_age_cycle q' = psq_age_cycle q"
proof -
  have e: "psq_enqueued q - (psq_dequeued q + 1) = psq_enqueued q - psq_dequeued q - 1" by simp
  show "psq_ok q'" "case x of None \<Rightarrow> psq_list q = [] \<and> q' = q | Some d \<Rightarrow> psq_list q = d # psq_list q'"
    "psq_max_depth q' = psq_max_depth q" "psq_age_cycle q' = psq_age_cycle q"
    using ok d by (auto simp: ath6kl_ps_queue_dequeue_def psq_ok_def e young_def split: if_split_asm list.splits)
qed

interpretation psq: fifo_queue "ps_enq can" ps_deq ath6kl_ps_queue_empty psq_frames psq_ok for can
proof unfold_locales
  fix q :: ps_buf_head
  assume ok: "psq_ok q"
  show "ath6kl_ps_queue_empty q = (psq_frames q = [])" using ok by (simp add: ath6kl_ps_queue_empty_def psq_frames_def psq_ok_def)
  fix a can b q'
  assume "ps_enq can a q = (b, q')"
  then obtain st d where p: "psq_push can q d = (st, q')" "b = (st = 0)" "psb_age d = 0" "frame_of d = a"
    by (cases a) (auto simp: ps_enq_def ath6kl_ps_queue_enqueue_data_def ath6kl_ps_queue_enqueue_mgmt_def frame_of_def apfst_def map_prod_def
      split: prod.splits)
  show "psq_ok q' \<and> psq_frames q' = psq_frames q @ (if b then [a] else [])"
    using psq_push_ok [OF ok p(3,1)] p(2,4) by (simp add: psq_frames_def)
next
  fix q x q'
  assume ok: "psq_ok q" and "ps_deq q = (x, q')"
  then obtain y where d: "ath6kl_ps_queue_dequeue q = (y, q')" "x = map_option frame_of y"
    by (cases "ath6kl_ps_queue_dequeue q") (auto simp: ps_deq_def)
  show "psq_ok q' \<and> (case x of None \<Rightarrow> psq_frames q = [] \<and> psq_frames q' = [] | Some a \<Rightarrow> psq_frames q = a # psq_frames q')"
    using dequeue_cases [OF ok d(1)] d(2) by (cases y) (auto simp: psq_frames_def)
qed

text \<open>The abstract queue: a list that refuses when it holds more than \<open>md\<close> frames.\<close>

definition list_enq :: "nat \<Rightarrow> bool \<Rightarrow> 'a \<Rightarrow> 'a list \<Rightarrow> bool \<times> 'a list" where
  "list_enq md can a xs = (if md \<noteq> 0 \<and> length xs > md \<or> \<not> can then (False, xs) else (True, xs @ [a]))"

definition list_deq :: "'a list \<Rightarrow> 'a option \<times> 'a list" where
  "list_deq xs = (case xs of [] \<Rightarrow> (None, []) | a # as \<Rightarrow> (Some a, as))"

lemma ps_enq_abs:
  assumes ok: "psq_ok q" and e: "ps_enq can a q = (b, q')"
  shows "list_enq (psq_max_depth q) can a (psq_frames q) = (b, psq_frames q')" "psq_max_depth q' = psq_max_depth q"
proof -
  obtain st d where p: "psq_push can q d = (st, q')" "b = (st = 0)" "psb_age d = 0" "frame_of d = a"
    using e by (cases a) (auto simp: ps_enq_def ath6kl_ps_queue_enqueue_data_def ath6kl_ps_queue_enqueue_mgmt_def frame_of_def apfst_def map_prod_def
      split: prod.splits)
  note P = psq_push_ok [OF ok p(3,1)]
  have "length (psq_frames q) = size q" by (simp add: psq_frames_def)
  then show "list_enq (psq_max_depth q) can a (psq_frames q) = (b, psq_frames q')"
    using P(2,4) p(2,4) unfolding list_enq_def by (cases "st = 0") (auto simp: psq_frames_def)
  show "psq_max_depth q' = psq_max_depth q" by (rule P(3))
qed

lemma ps_deq_abs:
  assumes ok: "psq_ok q" and e: "ps_deq q = (x, q')"
  shows "list_deq (psq_frames q) = (x, psq_frames q')" "psq_max_depth q' = psq_max_depth q"
proof -
  obtain y where d: "ath6kl_ps_queue_dequeue q = (y, q')" "x = map_option frame_of y"
    using e by (cases "ath6kl_ps_queue_dequeue q") (auto simp: ps_deq_def)
  show "list_deq (psq_frames q) = (x, psq_frames q')" "psq_max_depth q' = psq_max_depth q"
    using dequeue_cases [OF ok d(1)] d(2) by (cases y; simp add: psq_frames_def list_deq_def)+
qed

lemma run_abs:
  "psq_ok q \<Longrightarrow> run_queue (ps_enq can) ps_deq ops q = (outs, ins, q') \<Longrightarrow>
   run_queue (list_enq (psq_max_depth q) can) list_deq ops (psq_frames q) = (outs, ins, psq_frames q') \<and> psq_max_depth q' = psq_max_depth q"
proof (induction ops arbitrary: q outs ins q')
  case Nil then show ?case by simp
next
  case (Cons op ops)
  show ?case
  proof (cases op)
    case (QEnq a)
    obtain b q1 where e: "ps_enq can a q = (b, q1)" by (cases "ps_enq can a q")
    obtain o2 i2 q2 where r: "run_queue (ps_enq can) ps_deq ops q1 = (o2, i2, q2)" by (cases "run_queue (ps_enq can) ps_deq ops q1")
    show ?thesis
      using Cons.IH [OF _ r] psq.enq [OF Cons.prems(1) e] ps_enq_abs [OF Cons.prems(1) e] Cons.prems(2) QEnq e r by auto
  next
    case QDeq
    obtain x q1 where e: "ps_deq q = (x, q1)" by (cases "ps_deq q")
    obtain o2 i2 q2 where r: "run_queue (ps_enq can) ps_deq ops q1 = (o2, i2, q2)" by (cases "run_queue (ps_enq can) ps_deq ops q1")
    show ?thesis
      using Cons.IH [OF _ r] psq.deq [OF Cons.prems(1) e] ps_deq_abs [OF Cons.prems(1) e] Cons.prems(2) QDeq e r by auto
  qed
qed

text \<open>
  Property C11.  A power-save queue refines a bounded list.  Whatever is added to it and taken from
  it in whatever order, the queue of the code lets in, refuses and hands out exactly what a plain
  list does that refuses when it holds more than \<open>max_depth\<close> frames; so what was in it and what
  was let in comes out in that order, each frame once; its depth is the number of waiting frames,
  its counters differ by it, and it never exceeds \<open>max_depth + 1\<close>.
\<close>

theorem psq_refines_list:
  assumes "psq_ok q" and "run_queue (ps_enq can) ps_deq ops q = (outs, ins, q')"
  shows "run_queue (list_enq (psq_max_depth q) can) list_deq ops (psq_frames q) = (outs, ins, psq_frames q')
    \<and> psq_frames q @ ins = outs @ psq_frames q' \<and> ath6kl_ps_queue_depth q' = int (length (psq_frames q'))
    \<and> psq_enqueued q' - psq_dequeued q' = of_nat (length (psq_frames q'))
    \<and> (psq_max_depth q \<noteq> 0 \<longrightarrow> length (psq_frames q') \<le> psq_max_depth q + 1)"
  using run_abs [OF assms] psq.run_fifo [OF assms]
  by (auto simp: psq_ok_def psq_frames_def ath6kl_ps_queue_depth_def)

definition ex_psq :: ps_buf_head where
  "ex_psq = \<lparr>psq_list = [], psq_type = PS_QUEUE_TYPE_STA_UNICAST, psq_depth = 0, psq_age_cycle = 5, psq_max_depth = 1,
     psq_enqueued = 0, psq_enqueued_err = 0, psq_dequeued = 0, psq_aged = 0\<rparr>"

lemma psq_refines_list_witness:
  "case run_queue (ps_enq True) ps_deq [QEnq (PsData (ex_skb 1)), QEnq (PsData (ex_skb 2)), QEnq (PsData (ex_skb 3)), QDeq] ex_psq of
     (outs, ins, q') \<Rightarrow> outs = [PsData (ex_skb 1)] \<and> ins = [PsData (ex_skb 1), PsData (ex_skb 2)] \<and> psq_frames q' = [PsData (ex_skb 2)]"
proof -
  let ?ops = "[QEnq (PsData (ex_skb 1)), QEnq (PsData (ex_skb 2)), QEnq (PsData (ex_skb 3)), QDeq]"
  obtain outs ins q' where r: "run_queue (ps_enq True) ps_deq ?ops ex_psq = (outs, ins, q')" by (metis prod_cases3)
  have ok: "psq_ok ex_psq" "psq_max_depth ex_psq = 1" "psq_frames ex_psq = []" by (simp_all add: psq_ok_def ex_psq_def psq_frames_def)
  have "run_queue (list_enq 1 True) list_deq ?ops [] = (outs, ins, psq_frames q')"
    using psq_refines_list [OF ok(1) r] unfolding ok(2,3) by blast
  then have "[PsData (ex_skb 1)] = outs \<and> [PsData (ex_skb 1), PsData (ex_skb 2)] = ins \<and> [PsData (ex_skb 2)] = psq_frames q'"
    by (auto simp: list_enq_def list_deq_def)
  then show ?thesis unfolding r prod.case by metis
qed

section \<open>Ageing\<close>

definition grown_old :: "ps_buf_head \<Rightarrow> ps_buf_desc \<Rightarrow> bool" where
  "grown_old q d \<longleftrightarrow> psq_age_cycle q \<noteq> 0 \<and> unat (psb_age d + 1) \<ge> psq_age_cycle q"

definition older :: "ps_buf_desc \<Rightarrow> ps_buf_desc" where
  "older d = d\<lparr>psb_age := psb_age d + 1\<rparr>"

lemma older_simps [simp]: "frame_of (older d) = frame_of d" "psb_age (older d) = psb_age d + 1" "psb_skb (older d) = psb_skb d"
  by (simp_all add: older_def frame_of_def split: option.split)

lemma aging_loop:
  "aging_loop q ds = (skbs_of (filter (grown_old q) ds), map older (filter (\<lambda>d. \<not> grown_old q d) ds),
     q\<lparr>psq_aged := psq_aged q + of_nat (length (filter (grown_old q) ds)),
       psq_dequeued := psq_dequeued q + of_nat (length (filter (grown_old q) ds)),
       psq_depth := psq_depth q - int (length (filter (grown_old q) ds))\<rparr>)"
proof (induction ds arbitrary: q)
  case Nil then show ?case by (simp add: skbs_of_def)
next
  case (Cons d ds)
  have same: "grown_old (q\<lparr>psq_aged := a, psq_dequeued := b, psq_depth := c\<rparr>) = grown_old q" for a b c
    by (rule ext) (simp add: grown_old_def)
  show ?case
  proof (cases "grown_old q d")
    case True
    then have "psq_age_cycle q \<noteq> ATH6KL_PS_QUEUE_NO_AGE \<and> unat (ath6kl_ps_queue_get_age d + 1) \<ge> psq_age_cycle q"
      by (simp add: grown_old_def psq_consts ath6kl_ps_queue_get_age_def)
    then show ?thesis using True Cons.IH [of "q\<lparr>psq_aged := psq_aged q + 1, psq_dequeued := psq_dequeued q + 1, psq_depth := psq_depth q - 1\<rparr>"]
      by (simp add: Let_def same skbs_of_def add.assoc)
  next
    case False
    then have "\<not> (psq_age_cycle q \<noteq> ATH6KL_PS_QUEUE_NO_AGE \<and> unat (ath6kl_ps_queue_get_age d + 1) \<ge> psq_age_cycle q)"
      by (simp add: grown_old_def psq_consts ath6kl_ps_queue_get_age_def)
    then show ?thesis using False Cons.IH [of q]
      by (auto simp: Let_def ath6kl_ps_queue_set_age_def ath6kl_ps_queue_get_age_def older_def)
  qed
qed

lemma aging_eq:
  assumes ok: "psq_ok q" and r: "ath6kl_ps_queue_aging q = (e, fr, q')" and c: "psq_age_cycle q < 2 ^ 32"
  shows "psq_list q' = map older (filter (\<lambda>d. \<not> grown_old q d) (psq_list q))" "fr = skbs_of (filter (grown_old q) (psq_list q))"
    "psq_ok q'" "e \<longleftrightarrow> psq_list q' = []" "psq_age_cycle q' = psq_age_cycle q" "psq_max_depth q' = psq_max_depth q"
proof -
  let ?o = "filter (grown_old q) (psq_list q)" and ?k = "filter (\<lambda>d. \<not> grown_old q d) (psq_list q)"
  have sum: "length ?o + length ?k = length (psq_list q)" by (rule sum_length_filter_compl)
  have keep: "young q (older d)" if d: "d \<in> set (psq_list q)" "\<not> grown_old q d" for d
    using d(2) by (auto simp: grown_old_def young_def)
  show list: "psq_list q' = map older ?k" and "fr = skbs_of ?o"
    using r ok by (auto simp: ath6kl_ps_queue_aging_def aging_loop psq_ok_def skbs_of_def split: if_split_asm)
  have q': "psq_depth q' = psq_depth q - int (length ?o)" "psq_dequeued q' = psq_dequeued q + of_nat (length ?o)"
      "psq_enqueued q' = psq_enqueued q" "psq_max_depth q' = psq_max_depth q" "psq_age_cycle q' = psq_age_cycle q"
    using r ok by (auto simp: ath6kl_ps_queue_aging_def aging_loop psq_ok_def split: if_split_asm)
  have d: "psq_depth q' = int (length (psq_list q'))"
    using ok sum by (simp add: psq_ok_def q' list)
  have w: "psq_enqueued q' - psq_dequeued q' = of_nat (length (psq_list q'))"
  proof -
    have "psq_enqueued q - psq_dequeued q = of_nat (length ?o) + of_nat (length ?k)"
      using ok by (simp add: psq_ok_def sum [symmetric])
    then have "psq_enqueued q = psq_dequeued q + (of_nat (length ?o) + of_nat (length ?k))" by (simp add: diff_eq_eq add.commute)
    then show ?thesis unfolding q' list by simp
  qed
  have "length ?k \<le> length (psq_list q)" by simp
  then show "psq_ok q'" using ok d w keep by (auto simp: psq_ok_def q' list young_def)
  show "e \<longleftrightarrow> psq_list q' = []" using r ok d by (auto simp: ath6kl_ps_queue_aging_def aging_loop psq_ok_def split: if_split_asm)
  show "psq_age_cycle q' = psq_age_cycle q" "psq_max_depth q' = psq_max_depth q" by (rule q')+
qed

text \<open>Several turns of the ageing timer, with everything they free.\<close>

fun aging_turns :: "nat \<Rightarrow> ps_buf_head \<Rightarrow> skb list \<times> ps_buf_head" where
  "aging_turns 0 q = ([], q)"
| "aging_turns (Suc n) q = (case ath6kl_ps_queue_aging q of (_, fr, q1) \<Rightarrow> apfst (\<lambda>fr2. fr @ fr2) (aging_turns n q1))"

lemma skbs_of_append [simp]: "skbs_of (a @ b) = skbs_of a @ skbs_of b"
  by (simp add: skbs_of_def)

lemma skbs_of_older [simp]: "skbs_of (map older ds) = skbs_of ds"
  by (simp add: skbs_of_def o_def)

lemma skbs_of_split: "mset (skbs_of (filter P ds)) + mset (skbs_of (filter (\<lambda>d. \<not> P d) ds)) = mset (skbs_of ds)"
  by (induction ds) (auto simp: skbs_of_def)

lemma aging_turns:
  "psq_ok q \<Longrightarrow> psq_age_cycle q < 2 ^ 32 \<Longrightarrow> psq_age_cycle q \<noteq> 0 \<Longrightarrow> aging_turns n q = (fr, q') \<Longrightarrow>
   psq_ok q' \<and> mset fr + mset (skbs_of (psq_list q')) = mset (skbs_of (psq_list q))
   \<and> map frame_of (psq_list q') = map frame_of (filter (\<lambda>d. unat (psb_age d) + n < psq_age_cycle q) (psq_list q))"
proof (induction n arbitrary: q fr q')
  case 0
  then have "filter (\<lambda>d. unat (psb_age d) < psq_age_cycle q) (psq_list q) = psq_list q"
    by (simp add: psq_ok_def young_def filter_id_conv)
  then show ?case using 0 by simp
next
  case (Suc n)
  obtain e f1 q1 where a: "ath6kl_ps_queue_aging q = (e, f1, q1)" by (metis prod_cases3)
  obtain f2 q2 where t: "aging_turns n q1 = (f2, q2)" by (cases "aging_turns n q1")
  note A = aging_eq [OF Suc.prems(1) a Suc.prems(2)]
  note I = Suc.IH [OF A(3) _ _ t, unfolded A(5), OF Suc.prems(2,3)]
  have u: "unat (psb_age d + 1) = unat (psb_age d) + 1" if "d \<in> set (psq_list q)" for d
  proof -
    have "unat (psb_age d) < psq_age_cycle q" using that Suc.prems(1,3) by (auto simp: psq_ok_def young_def)
    then have "unat (psb_age d) + unat (1 :: u32) < 2 ^ LENGTH(32)" using Suc.prems(2) by simp
    then show ?thesis by (subst unat_add_lem [THEN iffD1]) simp_all
  qed
  have "map frame_of (filter (\<lambda>d. unat (psb_age d) + n < psq_age_cycle q) (psq_list q1))
      = map frame_of (filter (\<lambda>d. unat (psb_age d + 1) + n < psq_age_cycle q \<and> \<not> grown_old q d) (psq_list q))"
    by (simp add: A(1) filter_map o_def conj_commute)
  also have "filter (\<lambda>d. unat (psb_age d + 1) + n < psq_age_cycle q \<and> \<not> grown_old q d) (psq_list q)
      = filter (\<lambda>d. unat (psb_age d) + Suc n < psq_age_cycle q) (psq_list q)"
    by (rule filter_cong) (use u in \<open>auto simp: grown_old_def\<close>)
  finally have frames: "map frame_of (psq_list q2) = map frame_of (filter (\<lambda>d. unat (psb_age d) + Suc n < psq_age_cycle q) (psq_list q))"
    using I by simp
  have "mset f1 + mset (skbs_of (psq_list q1)) = mset (skbs_of (psq_list q))"
    using skbs_of_split [of "grown_old q" "psq_list q"] by (simp add: A(1,2))
  then have "mset (f1 @ f2) + mset (skbs_of (psq_list q2)) = mset (skbs_of (psq_list q))" using I by (simp add: add.assoc)
  moreover have "fr = f1 @ f2" "q' = q2" using Suc.prems(4) a t by simp_all
  ultimately show ?case using I frames by simp
qed

text \<open>
  Property C37.  Frames for a sleeping station do not wait for ever.  After \<open>n\<close> turns of the ageing
  timer with nothing added, exactly the frames whose age was still \<open>n\<close> turns short of the limit
  wait, in their order, and every other one has been freed once; so after \<open>age_cycle\<close> turns the
  queue is empty.  The depth and the counters stay right.
\<close>

theorem psq_ageing_empties:
  assumes "psq_ok q" and "0 < psq_age_cycle q" and "psq_age_cycle q < 2 ^ 32" and "aging_turns n q = (freed_skbs, q')"
  shows "psq_frames q' = map frame_of (filter (\<lambda>d. unat (psb_age d) + n < psq_age_cycle q) (psq_list q))
    \<and> mset freed_skbs + mset (skbs_of (psq_list q')) = mset (skbs_of (psq_list q)) \<and> psq_ok q'
    \<and> (psq_age_cycle q \<le> n \<longrightarrow> ath6kl_ps_queue_empty q')"
proof -
  have z: "psq_age_cycle q \<noteq> 0" using assms(2) by simp
  note T = aging_turns [OF assms(1,3) z assms(4)]
  have "psq_list q' = []" if "psq_age_cycle q \<le> n"
  proof -
    have "filter (\<lambda>d. unat (psb_age d) + n < psq_age_cycle q) (psq_list q) = []" using that by (simp add: filter_empty_conv)
    then show ?thesis using T by simp
  qed
  then show ?thesis using T by (auto simp: psq_frames_def ath6kl_ps_queue_empty_def psq_ok_def)
qed

lemma psq_ageing_empties_witness:
  "ath6kl_ps_queue_empty (snd (aging_turns 5 (snd (ath6kl_ps_queue_enqueue_data True ex_psq (ex_skb 1)))))"
proof -
  let ?q = "snd (ath6kl_ps_queue_enqueue_data True ex_psq (ex_skb 1))"
  have ok: "psq_ok ?q" "psq_age_cycle ?q = 5"
    by (simp_all add: psq_ok_def ath6kl_ps_queue_enqueue_data_def psq_push_def ex_psq_def psq_consts young_def)
  then show ?thesis using psq_ageing_empties [OF ok(1), of 5 "fst (aging_turns 5 ?q)" "snd (aging_turns 5 ?q)"] by simp
qed

text \<open>The depth is compared with \<open>>\<close>: a queue at its limit takes one more frame.\<close>

lemma full_queue_takes_one_more:
  assumes "psq_depth q = int (psq_max_depth q)"
  shows "fst (psq_push True q d) = 0" and "psq_depth (snd (psq_push True q d)) = int (psq_max_depth q) + 1"
  using assms by (simp_all add: psq_push_def)

end
