(* ===== verification/AmsduTx.thy ===== *)
theory AmsduTx
  imports RxReorder
begin

text \<open>
  Transmit aggregation (drivers/ath6kl/txrx.c: \<open>aggr_tx\<close> and its helpers \<open>aggr_tx_progressive\<close>,
  \<open>aggr_tx_reset_aggr\<close>, \<open>aggr_tx_delete_tid_state\<close>, \<open>aggr_tx_config\<close>, \<open>aggr_config\<close>, \<open>aggr_init\<close>).

  Small TCP frames of one traffic identifier are copied into one A-MSDU until there are enough of
  them, the buffer is full, or a timer fires.  This theory holds the state of one identifier and
  what happens to it; \<open>Station\<close> finds the station and the identifier a frame belongs to.

  A fresh buffer has its data pointer at address 0, six bytes of headroom used below it, and 1600
  bytes from there.
\<close>

section \<open>Data\<close>

definition AGGR_TX_MAX_AGGR_SIZE :: nat where "AGGR_TX_MAX_AGGR_SIZE = 1600"
definition AGGR_TX_MAX_PDU_SIZE :: nat where "AGGR_TX_MAX_PDU_SIZE = 120"
definition AGGR_TX_MIN_PDU_SIZE :: nat where "AGGR_TX_MIN_PDU_SIZE = 64"
definition AGGR_TX_MAX_NUM :: nat where "AGGR_TX_MAX_NUM = 16"
definition AGGR_TX_TIMEOUT :: nat where "AGGR_TX_TIMEOUT = 4"
definition AGGR_TX_PROG_HS_THRESH :: nat where "AGGR_TX_PROG_HS_THRESH = 1000"
definition AGGR_TX_PROG_HS_FACTOR :: nat where "AGGR_TX_PROG_HS_FACTOR = 2"
definition AGGR_TX_PROG_NS_THRESH :: nat where "AGGR_TX_PROG_NS_THRESH = 250"
definition AGGR_TX_PROG_NS_FACTOR :: nat where "AGGR_TX_PROG_NS_FACTOR = 4"
definition AGGR_TX_PROG_HS_MAX_NUM :: nat where "AGGR_TX_PROG_HS_MAX_NUM = 22"
definition AGGR_TX_PROG_HS_TIMEOUT :: nat where "AGGR_TX_PROG_HS_TIMEOUT = 8"

lemmas tx_aggr_consts = AGGR_TX_MAX_AGGR_SIZE_def AGGR_TX_MAX_PDU_SIZE_def AGGR_TX_MIN_PDU_SIZE_def AGGR_TX_MAX_NUM_def
  AGGR_TX_TIMEOUT_def AGGR_TX_PROG_HS_THRESH_def AGGR_TX_PROG_HS_FACTOR_def AGGR_TX_PROG_NS_THRESH_def
  AGGR_TX_PROG_NS_FACTOR_def AGGR_TX_PROG_HS_MAX_NUM_def AGGR_TX_PROG_HS_TIMEOUT_def

datatype aggr_tx_status = AGGR_TX_OK | AGGR_TX_DONE | AGGR_TX_BYPASS | AGGR_TX_DROP | AGGR_TX_UNKNOW

text \<open>\<open>sizeof(struct wmi_data_hdr)\<close>, and the fields of that header \<open>aggr_tx\<close> uses.\<close>

definition WMI_DATA_HDR_LEN :: nat where "WMI_DATA_HDR_LEN = 6"

definition wmi_data_hdr_get_up :: "u8 \<Rightarrow> nat" where
  "wmi_data_hdr_get_up info = unat (drop_bit 2 info AND 7)"

definition WMI_DATA_HDR_AMSDU :: u16 where "WMI_DATA_HDR_AMSDU = 0x1000"

text \<open>\<open>struct txtid\<close>; \<open>amsdu_start\<close> is an address in the buffer, \<open>tx_timer\<close> the delay of a pending timer.\<close>

record txtid =
  tx_aid :: nat
  max_aggr_sz :: nat
  tx_timer :: "nat option"
  amsdu_skb :: "skb option"
  amsdu_cnt :: nat
  amsdu_start :: int
  amsdu_len :: nat
  amsdu_lastpdu_len :: nat
  last_check_time :: nat
  last_num_amsdu :: u32
  last_num_timeout :: u32
  tx_num_pdu :: u32
  tx_num_amsdu :: u32
  tx_num_timeout :: u32
  tx_num_flush :: u32
  tx_num_null :: u32
  tx_num_overflow :: u32

record aggr_info =
  rx_aggr_timeout :: nat
  tx_amsdu_enable :: bool
  tx_amsdu_seq_pkt :: bool
  tx_amsdu_progressive :: bool
  tx_amsdu_progressive_hispeed :: bool
  tx_amsdu_max_aggr_num :: nat
  tx_amsdu_max_aggr_len :: nat
  tx_amsdu_max_pdu_len :: nat
  tx_amsdu_timeout :: nat

section \<open>Configuration\<close>

definition aggr_tx_config :: "aggr_info \<Rightarrow> bool \<Rightarrow> bool \<Rightarrow> nat \<Rightarrow> nat \<Rightarrow> nat \<Rightarrow> aggr_info" where
  "aggr_tx_config a seq prog num pdu tmo =
     (let t = (if tmo = 0 then AGGR_TX_TIMEOUT else tmo);
          p1 = (if pdu = 0 then AGGR_TX_MAX_PDU_SIZE else if pdu < AGGR_TX_MIN_PDU_SIZE then AGGR_TX_MIN_PDU_SIZE else pdu);
          p2 = (if p1 > tx_amsdu_max_aggr_len a div 2 then tx_amsdu_max_aggr_len a div 2 else p1);
          n = (if num = 0 then AGGR_TX_MAX_NUM else if num < 2 then 2 else num)
      in a\<lparr>tx_amsdu_seq_pkt := seq,
           tx_amsdu_progressive_hispeed := (if \<not> prog \<and> tx_amsdu_progressive a then False else tx_amsdu_progressive_hispeed a),
           tx_amsdu_progressive := prog, tx_amsdu_timeout := t, tx_amsdu_max_pdu_len := p2, tx_amsdu_max_aggr_num := n\<rparr>)"

definition aggr_config :: "aggr_info \<Rightarrow> nat \<Rightarrow> aggr_info" where
  "aggr_config a tmo = a\<lparr>rx_aggr_timeout := (if tmo = 0 then AGGR_RX_TIMEOUT else tmo)\<rparr>"

text \<open>\<open>aggr_init\<close>: the defaults.  Its free buffers are counted with the connections that use them.\<close>

definition aggr_init :: aggr_info where
  "aggr_init = \<lparr>rx_aggr_timeout = AGGR_RX_TIMEOUT, tx_amsdu_enable = True, tx_amsdu_seq_pkt = True, tx_amsdu_progressive = True,
     tx_amsdu_progressive_hispeed = False, tx_amsdu_max_aggr_num = AGGR_TX_MAX_NUM,
     tx_amsdu_max_aggr_len = AGGR_TX_MAX_AGGR_SIZE - 100, tx_amsdu_max_pdu_len = AGGR_TX_MAX_PDU_SIZE,
     tx_amsdu_timeout = AGGR_TX_TIMEOUT\<rparr>"

text \<open>
  \<open>aggr_tx_progressive\<close>: once a second the counters of the identifier decide whether to aggregate
  more.  \<open>infra\<close> says whether the interface is a station, \<open>now\<close> is \<open>jiffies\<close>, \<open>hz\<close> their number in a
  second (\<open>HZ\<close>, a build option).
\<close>

definition aggr_tx_progressive :: "nat \<Rightarrow> nat \<Rightarrow> bool \<Rightarrow> bool \<Rightarrow> aggr_info \<Rightarrow> txtid \<Rightarrow> aggr_info \<times> txtid" where
  "aggr_tx_progressive hz now infra tx_timeout a t =
     (if \<not> infra then (a, t)
      else
        let t1 = t\<lparr>last_num_amsdu := last_num_amsdu t + 1,
                   last_num_timeout := (if tx_timeout then last_num_timeout t + 1 else last_num_timeout t)\<rparr>
        in if tx_amsdu_progressive a \<and> (last_check_time t1 = 0 \<or> now - last_check_time t1 > hz) then
             let n = unat (last_num_amsdu t1); k = unat (last_num_timeout t1);
                 a1 = (if \<not> tx_amsdu_progressive_hispeed a then
                         if n > AGGR_TX_PROG_HS_THRESH \<and> k < n div 2 ^ AGGR_TX_PROG_HS_FACTOR
                         then aggr_tx_config (a\<lparr>tx_amsdu_progressive_hispeed := True\<rparr>) (tx_amsdu_seq_pkt a) True
                                AGGR_TX_PROG_HS_MAX_NUM AGGR_TX_MAX_PDU_SIZE AGGR_TX_PROG_HS_TIMEOUT
                         else a
                       else
                         if n < AGGR_TX_PROG_NS_THRESH \<and> k > n div 2 ^ AGGR_TX_PROG_NS_FACTOR
                         then aggr_tx_config (a\<lparr>tx_amsdu_progressive_hispeed := False\<rparr>) (tx_amsdu_seq_pkt a) True
                                AGGR_TX_MAX_NUM AGGR_TX_MAX_PDU_SIZE AGGR_TX_TIMEOUT
                         else a)
             in (a1, t1\<lparr>last_num_amsdu := 0, last_num_timeout := 0, last_check_time := now\<rparr>)
           else (a, t1))"

text \<open>\<open>aggr_tx_reset_aggr\<close>, with the buffers it frees, and \<open>aggr_tx_delete_tid_state\<close>.\<close>

definition aggr_tx_reset_aggr :: "txtid \<Rightarrow> bool \<Rightarrow> bool \<Rightarrow> skb list \<times> txtid" where
  "aggr_tx_reset_aggr t free_buf timer_stop =
     ((if free_buf then case amsdu_skb t of None \<Rightarrow> [] | Some s \<Rightarrow> [s] else []),
      t\<lparr>tx_timer := (if timer_stop then None else tx_timer t), amsdu_skb := None, amsdu_start := 0, amsdu_cnt := 0,
        amsdu_len := 0, amsdu_lastpdu_len := 0\<rparr>)"

definition aggr_tx_delete_tid_state :: "aggr_info \<Rightarrow> txtid \<Rightarrow> skb list \<times> aggr_info \<times> txtid" where
  "aggr_tx_delete_tid_state a t =
     (case aggr_tx_reset_aggr (t\<lparr>tx_aid := 0, max_aggr_sz := 0\<rparr>) True True of (fr, t1) \<Rightarrow>
        (fr,
         (if tx_amsdu_progressive_hispeed a
          then aggr_tx_config (a\<lparr>tx_amsdu_progressive_hispeed := False\<rparr>) (tx_amsdu_seq_pkt a) True
                 AGGR_TX_MAX_NUM AGGR_TX_MAX_PDU_SIZE AGGR_TX_TIMEOUT
          else a),
         t1\<lparr>tx_num_pdu := 0, tx_num_amsdu := 0, tx_num_timeout := 0, tx_num_flush := 0, tx_num_null := 0, tx_num_overflow := 0,
            last_check_time := 0, last_num_amsdu := 0, last_num_timeout := 0\<rparr>))"

section \<open>One aggregate\<close>

text \<open>
  Which frames are aggregated: not longer than the limit, to one receiver, IP (after LLC/SNAP) and
  TCP.  \<open>pdu_len\<close> is what follows the WMI header.
\<close>

definition pdu_len :: "skb \<Rightarrow> nat" where
  "pdu_len s = skb_len s - WMI_DATA_HDR_LEN"

definition is_multicast_ether_addr :: "u8 list \<Rightarrow> bool" where
  "is_multicast_ether_addr mac \<longleftrightarrow> mac ! 0 AND 1 \<noteq> 0"

definition skb_at :: "skb \<Rightarrow> nat \<Rightarrow> u8" where
  "skb_at s i = skb_mem s (skb_ptr s + int i)"

definition skb_range :: "skb \<Rightarrow> nat \<Rightarrow> nat \<Rightarrow> u8 list" where
  "skb_range s i n = read_bytes (skb_mem s) (skb_ptr s + int i) n"

definition tx_aggregatable :: "aggr_info \<Rightarrow> skb \<Rightarrow> bool" where
  "tx_aggregatable a s \<longleftrightarrow> \<not> pdu_len s > tx_amsdu_max_pdu_len a
     \<and> \<not> is_multicast_ether_addr (skb_range s WMI_DATA_HDR_LEN 6)
     \<and> le16 (skb_at s (WMI_DATA_HDR_LEN + ETH_HDR_LEN + 7)) (skb_at s (WMI_DATA_HDR_LEN + ETH_HDR_LEN + 6)) = 0x0800
     \<and> skb_at s (WMI_DATA_HDR_LEN + ETH_HDR_LEN + 8 + 9) = 6"

text \<open>The first frame: mark its WMI header as A-MSDU, clone it in front of a fresh buffer, start the timer.\<close>

definition mark_amsdu :: "skb \<Rightarrow> skb" where
  "mark_amsdu s =
     (let info2 = (of_nat (le16 (skb_at s 2) (skb_at s 3)) :: u16) OR WMI_DATA_HDR_AMSDU in
      s\<lparr>skb_mem := write_bytes (skb_mem s) (skb_ptr s + 2) [le16_lo (unat info2), le16_hi (unat info2)]\<rparr>)"

definition amsdu_open :: "aggr_info \<Rightarrow> txtid \<Rightarrow> skb \<Rightarrow> txtid" where
  "amsdu_open a t s =
     (let b = \<lparr>skb_id = None, skb_mem = write_bytes (\<lambda>_. 0) (- int WMI_DATA_HDR_LEN) (skb_range s 0 WMI_DATA_HDR_LEN),
               skb_ptr = int ETH_HDR_LEN, skb_len = 0, skb_head = - int NET_SKB_PAD, skb_protocol = 0, skb_cloned = False\<rparr>
      in (snd (aggr_tx_reset_aggr t False True))\<lparr>amsdu_skb := Some b, amsdu_start := 0, tx_timer := Some (tx_amsdu_timeout a)\<rparr>)"

text \<open>Zero padding, then the frame, then the lengths.\<close>

definition amsdu_append :: "txtid \<Rightarrow> skb \<Rightarrow> u8 list \<Rightarrow> txtid" where
  "amsdu_append t b pdu =
     (let sub = (length pdu + 3) div 4 * 4;
          m = write_bytes (write_bytes (skb_mem b) (skb_ptr b + int sub - 4) (replicate 4 0)) (skb_ptr b) pdu
      in t\<lparr>amsdu_skb := Some (b\<lparr>skb_mem := m, skb_len := skb_len b + sub, skb_ptr := skb_ptr b + int sub\<rparr>),
           amsdu_cnt := (amsdu_cnt t + 1) mod 256, amsdu_lastpdu_len := length pdu mod 65536,
           amsdu_len := (amsdu_len t + sub) mod 65536\<rparr>)"

text \<open>
  Closing: no padding after the last frame, the outer Ethernet header with the length, and the
  pointer back to the WMI header.
\<close>

definition amsdu_close :: "txtid \<Rightarrow> skb \<Rightarrow> nat \<Rightarrow> u8 list \<Rightarrow> u8 list \<Rightarrow> skb" where
  "amsdu_close t b lastlen dst src =
     (let l = skb_len b - (if lastlen mod 4 \<noteq> 0 then 4 - lastlen mod 4 else 0)
      in b\<lparr>skb_mem := write_bytes (skb_mem b) (amsdu_start t) (dst @ src @ [le16_hi l, le16_lo l]),
           skb_len := l + WMI_DATA_HDR_LEN + ETH_HDR_LEN, skb_ptr := amsdu_start t - int WMI_DATA_HDR_LEN\<rparr>)"

definition amsdu_sent :: "txtid \<Rightarrow> txtid" where
  "amsdu_sent t = t\<lparr>tx_num_amsdu := tx_num_amsdu t + 1, tx_num_pdu := tx_num_pdu t + of_nat (amsdu_cnt t)\<rparr>"

text \<open>
  The part of \<open>aggr_tx\<close> under the lock of the identifier: the status, what \<open>*skb\<close> points to
  afterwards, the buffers freed, and the new state.  \<open>can\<close> says whether a buffer can be had.
\<close>

definition aggr_tx_add ::
    "bool \<Rightarrow> nat \<Rightarrow> nat \<Rightarrow> bool \<Rightarrow> u8 list \<Rightarrow> u8 list \<Rightarrow> aggr_info \<Rightarrow> txtid \<Rightarrow> skb
      \<Rightarrow> aggr_tx_status \<times> skb option \<times> skb list \<times> aggr_info \<times> txtid" where
  "aggr_tx_add can hz now infra dst src a t s =
     (if max_aggr_sz t = 0 then (AGGR_TX_BYPASS, Some s, [], a, t)
      else
        let fresh = (amsdu_skb t = None);
            s1 = (if fresh then mark_amsdu s else s)
        in if fresh \<and> \<not> can then (AGGR_TX_BYPASS, Some s, [], a, t)
           else if \<not> fresh \<and> amsdu_len t + pdu_len s > tx_amsdu_max_aggr_len a
           then (AGGR_TX_BYPASS, Some s, [], a, t\<lparr>tx_num_overflow := tx_num_overflow t + 1\<rparr>)
           else
             let t1 = (if fresh then amsdu_open a t s1 else t);
                 t2 = amsdu_append t1 (the (amsdu_skb t1)) (skb_range s1 WMI_DATA_HDR_LEN (pdu_len s1))
             in if amsdu_cnt t2 \<ge> tx_amsdu_max_aggr_num a
                then
                  let b = amsdu_close t2 (the (amsdu_skb t2)) (pdu_len s1) dst src
                  in case aggr_tx_progressive hz now infra False a (snd (aggr_tx_reset_aggr (amsdu_sent t2) False True)) of
                       (a1, t3) \<Rightarrow> (AGGR_TX_DONE, Some b, [s1], a1, t3)
                else (AGGR_TX_OK, None, [s1], a, t2))"

section \<open>What an aggregate holds\<close>

definition pad4 :: "u8 list \<Rightarrow> u8 list" where
  "pad4 p = p @ replicate ((length p + 3) div 4 * 4 - length p) 0"

definition padded :: "u8 list list \<Rightarrow> u8 list" where
  "padded ps = concat (map pad4 ps)"

text \<open>What goes out: the last frame is not padded.\<close>

definition amsdu_body :: "u8 list list \<Rightarrow> u8 list" where
  "amsdu_body ps = padded (butlast ps) @ last ps"

lemma round4: "(n::nat) \<le> (n + 3) div 4 * 4" "(n + 3) div 4 * 4 < n + 4" "(n + 3) div 4 * 4 mod 4 = 0"
  by presburger+

lemma length_pad4 [simp]: "length (pad4 p) = (length p + 3) div 4 * 4"
  using round4(1) [of "length p"] by (simp add: pad4_def)

lemma padded_snoc: "padded (ps @ [p]) = padded ps @ pad4 p"
  by (simp add: padded_def)

lemma padded_mod4: "length (padded ps) mod 4 = 0"
  by (induction ps) (simp_all add: padded_def mod_simps)

text \<open>
  \<open>gathered hdr ps t\<close>: the identifier holds the frames \<open>ps\<close> behind a WMI header \<open>hdr\<close>, or nothing.
  Outside of the header and of what has been appended no byte of the buffer has been written.
\<close>

definition gathered :: "u8 list \<Rightarrow> u8 list list \<Rightarrow> txtid \<Rightarrow> bool" where
  "gathered hdr ps t \<longleftrightarrow>
     (case amsdu_skb t of
        None \<Rightarrow> ps = []
      | Some b \<Rightarrow> ps \<noteq> [] \<and> amsdu_start t = 0 \<and> skb_len b = length (padded ps) \<and> amsdu_len t = skb_len b
          \<and> skb_ptr b = 14 + int (skb_len b) \<and> amsdu_cnt t = length ps \<and> amsdu_lastpdu_len t = length (last ps)
          \<and> length hdr = 6 \<and> read_bytes (skb_mem b) (-6) 6 = hdr \<and> read_bytes (skb_mem b) 14 (skb_len b) = padded ps
          \<and> (\<forall>x. x < -6 \<or> 0 \<le> x \<and> x < 14 \<or> 14 + int (skb_len b) \<le> x \<longrightarrow> skb_mem b x = 0))"

lemma append_read:
  assumes "pdu \<noteq> []"
  shows "read_bytes (write_bytes (write_bytes m (a + int ((length pdu + 3) div 4 * 4) - 4) (replicate 4 0)) a pdu) a ((length pdu + 3) div 4 * 4) = pad4 pdu"
    "x < a \<or> a + int ((length pdu + 3) div 4 * 4) \<le> x \<Longrightarrow>
       write_bytes (write_bytes m (a + int ((length pdu + 3) div 4 * 4) - 4) (replicate 4 0)) a pdu x = m x"
proof -
  define s where "s = (length pdu + 3) div 4 * 4"
  have s: "length pdu \<le> s" "s < length pdu + 4" "4 \<le> s"
    using round4 [of "length pdu"] assms by (simp_all add: s_def) (cases pdu; simp)
  have "read_bytes (write_bytes (write_bytes m (a + int s - 4) (replicate 4 0)) a pdu) a s = pdu @ replicate (s - length pdu) 0"
  proof (rule nth_equalityI)
    show "length (read_bytes (write_bytes (write_bytes m (a + int s - 4) (replicate 4 0)) a pdu) a s) = length (pdu @ replicate (s - length pdu) 0)"
      using s by simp
    fix i assume "i < length (read_bytes (write_bytes (write_bytes m (a + int s - 4) (replicate 4 0)) a pdu) a s)"
    then have i: "i < s" by simp
    show "read_bytes (write_bytes (write_bytes m (a + int s - 4) (replicate 4 0)) a pdu) a s ! i = (pdu @ replicate (s - length pdu) 0) ! i"
    proof (cases "i < length pdu")
      case True
      then show ?thesis using i by (simp add: write_bytes_def nth_append)
    next
      case False
      then show ?thesis using i s by (simp add: write_bytes_def nth_append)
    qed
  qed
  then show "read_bytes (write_bytes (write_bytes m (a + int ((length pdu + 3) div 4 * 4) - 4) (replicate 4 0)) a pdu) a ((length pdu + 3) div 4 * 4) = pad4 pdu"
    by (simp only: s_def pad4_def)
  show "write_bytes (write_bytes m (a + int ((length pdu + 3) div 4 * 4) - 4) (replicate 4 0)) a pdu x = m x"
    if "x < a \<or> a + int ((length pdu + 3) div 4 * 4) \<le> x"
    using that s unfolding s_def [symmetric] by (auto simp: write_bytes_def)
qed

lemma append_gathered:
  assumes g: "gathered hdr ps t" and b: "amsdu_skb t = Some b" and p: "pdu \<noteq> []"
    and len: "length (padded (ps @ [pdu])) < 65536" and cnt: "length ps < 255"
  shows "gathered hdr (ps @ [pdu]) (amsdu_append t b pdu)"
proof -
  define s where "s = (length pdu + 3) div 4 * 4"
  note G = g [unfolded gathered_def b option.case]
  define m where "m = write_bytes (write_bytes (skb_mem b) (skb_ptr b + int s - 4) (replicate 4 0)) (skb_ptr b) pdu"
  have new: "read_bytes m (skb_ptr b) s = pad4 pdu" and old: "x < skb_ptr b \<or> skb_ptr b + int s \<le> x \<Longrightarrow> m x = skb_mem b x" for x
    using append_read [OF p, where m = "skb_mem b" and a = "skb_ptr b"] unfolding m_def s_def by blast+
  have same: "read_bytes m x n = read_bytes (skb_mem b) x n" if "x + int n \<le> skb_ptr b" for x n
    using that by (intro nth_equalityI) (simp_all add: old)
  have l: "length (padded (ps @ [pdu])) = skb_len b + s" "length pdu < 65536"
    using G len round4(1) [of "length pdu"] by (simp_all add: padded_snoc s_def)
  have "read_bytes m 14 (skb_len b + s) = padded (ps @ [pdu])"
  proof -
    have rp: "read_bytes (skb_mem b) 14 (skb_len b) = padded ps" and sp: "skb_ptr b = 14 + int (skb_len b)" using G by blast+
    have "read_bytes m 14 (skb_len b) = padded ps" using same [of 14 "skb_len b"] rp sp by simp
    then show ?thesis using new unfolding sp by (simp only: read_bytes_append padded_snoc)
  qed
  moreover have "read_bytes m (-6) 6 = hdr" using G same [of "-6" 6] by simp
  ultimately show ?thesis using G l cnt len old unfolding gathered_def amsdu_append_def Let_def s_def [symmetric] m_def [symmetric]
    by simp
qed

lemma open_gathered:
  assumes hdr: "hdr = skb_range s 0 6" and p: "pdu \<noteq> []" and len: "length (pad4 pdu) < 65536"
  shows "gathered hdr [pdu] (amsdu_append (amsdu_open a t s) (the (amsdu_skb (amsdu_open a t s))) pdu)"
    "amsdu_skb (amsdu_open a t s) \<noteq> None"
proof -
  define b where "b = the (amsdu_skb (amsdu_open a t s))"
  have b: "b = \<lparr>skb_id = None, skb_mem = write_bytes (\<lambda>_. 0) (- 6) (skb_range s 0 6), skb_ptr = 14, skb_len = 0,
      skb_head = - int NET_SKB_PAD, skb_protocol = 0, skb_cloned = False\<rparr>"
    by (simp add: b_def amsdu_open_def Let_def WMI_DATA_HDR_LEN_def rx_consts)
  have lh: "length (skb_range s 0 6) = 6" by (simp add: skb_range_def)
  define sz where "sz = (length pdu + 3) div 4 * 4"
  define m where "m = write_bytes (write_bytes (skb_mem b) (skb_ptr b + int sz - 4) (replicate 4 0)) (skb_ptr b) pdu"
  have new: "read_bytes m 14 sz = pad4 pdu" and old: "x < 14 \<or> 14 + int sz \<le> x \<Longrightarrow> m x = skb_mem b x" for x
    using append_read [OF p, where m = "skb_mem b" and a = "skb_ptr b"] unfolding m_def sz_def by (simp_all add: b)
  have "read_bytes m (-6) 6 = read_bytes (skb_mem b) (-6) 6" by (intro nth_equalityI) (simp_all add: old)
  also have "\<dots> = hdr" using read_write_same [of "\<lambda>_. 0" "-6" "skb_range s 0 6"] by (simp add: b lh hdr)
  finally have h: "read_bytes m (-6) 6 = hdr" .
  have z: "m x = 0" if "x < -6 \<or> 0 \<le> x \<and> x < 14 \<or> 14 + int sz \<le> x" for x
    using that old [of x] write_outside [of x "-6" "skb_range s 0 6" "\<lambda>_. 0"] by (auto simp: b lh)
  have t: "amsdu_cnt (amsdu_open a t s) = 0" "amsdu_len (amsdu_open a t s) = 0" "amsdu_start (amsdu_open a t s) = 0"
    by (simp_all add: amsdu_open_def Let_def aggr_tx_reset_aggr_def)
  have "length pdu < 65536" using len round4(1) [of "length pdu"] by simp
  moreover have "sz < 65536" "length (padded [pdu]) = sz" "padded [pdu] = pad4 pdu" using len by (simp_all add: sz_def padded_def)
  moreover have "skb_len b = 0" "skb_ptr b = 14" by (simp_all add: b)
  ultimately show "gathered hdr [pdu] (amsdu_append (amsdu_open a t s) (the (amsdu_skb (amsdu_open a t s))) pdu)"
    using h z new t lh hdr unfolding b_def [symmetric] gathered_def amsdu_append_def Let_def sz_def [symmetric] m_def [symmetric] by simp
  show "amsdu_skb (amsdu_open a t s) \<noteq> None" by (simp add: amsdu_open_def Let_def)
qed

lemma body_padded:
  assumes "ps \<noteq> []"
  shows "padded ps = amsdu_body ps @ replicate (length (padded ps) - length (amsdu_body ps)) 0"
    "length (amsdu_body ps) = length (padded ps) - (if length (last ps) mod 4 \<noteq> 0 then 4 - length (last ps) mod 4 else 0)"
proof -
  obtain qs q where ps: "ps = qs @ [q]" using assms by (metis append_butlast_last_id)
  have r: "(length q + 3) div 4 * 4 - length q = (if length q mod 4 \<noteq> 0 then 4 - length q mod 4 else 0)" by presburger
  have le: "length q \<le> (length q + 3) div 4 * 4" by (rule round4)
  show "padded ps = amsdu_body ps @ replicate (length (padded ps) - length (amsdu_body ps)) 0"
    by (simp add: ps amsdu_body_def padded_snoc) (simp add: pad4_def)
  have "length (padded ps) - ((length q + 3) div 4 * 4 - length q) = length (amsdu_body ps)"
    using le by (simp add: ps amsdu_body_def padded_snoc)
  then show "length (amsdu_body ps) = length (padded ps) - (if length (last ps) mod 4 \<noteq> 0 then 4 - length (last ps) mod 4 else 0)"
    unfolding r by (simp only: ps last_snoc)
qed

lemma close_bytes:
  assumes g: "gathered hdr ps t" and b: "amsdu_skb t = Some b" and l: "lastlen mod 4 = length (last ps) mod 4"
    and mac: "length dst = 6" "length src = 6"
  shows "skb_bytes (amsdu_close t b lastlen dst src)
    = hdr @ (dst @ src @ [le16_hi (length (amsdu_body ps)), le16_lo (length (amsdu_body ps))]) @ amsdu_body ps"
    "skb_len (amsdu_close t b lastlen dst src) = 20 + length (amsdu_body ps)"
proof -
  note G = g [unfolded gathered_def b option.case]
  define n where "n = length (amsdu_body ps)"
  have ps: "ps \<noteq> []" using G by blast
  note B = body_padded [OF ps]
  have n: "skb_len b - (if lastlen mod 4 \<noteq> 0 then 4 - lastlen mod 4 else 0) = n" using G B(2) l by (simp add: n_def)
  define h where "h = dst @ src @ [le16_hi n, le16_lo n]"
  have lh: "length h = 14" using mac by (simp add: h_def)
  have st: "amsdu_start t = 0" using G by blast
  define m where "m = write_bytes (skb_mem b) 0 h"
  have c: "amsdu_close t b lastlen dst src = b\<lparr>skb_mem := m, skb_len := n + 20, skb_ptr := -6\<rparr>"
    using n by (simp add: amsdu_close_def Let_def st m_def h_def WMI_DATA_HDR_LEN_def rx_consts)
  have r1: "read_bytes m (-6) 6 = hdr"
    using G read_write_apart [of "-6" 6 0 h "skb_mem b"] by (simp add: m_def)
  have r2: "read_bytes m 0 14 = h" using read_write_same [of "skb_mem b" 0 h] by (simp add: m_def lh)
  have le: "n \<le> skb_len b" using n by simp
  have "read_bytes m 14 n = read_bytes (skb_mem b) 14 n" using read_write_apart [of 14 n 0 h "skb_mem b"] by (simp add: m_def lh)
  also have "\<dots> = take n (read_bytes (skb_mem b) 14 (skb_len b))"
    using le by (intro nth_equalityI) simp_all
  also have "\<dots> = amsdu_body ps"
  proof -
    have "read_bytes (skb_mem b) 14 (skb_len b) = padded ps" using G by blast
    then show ?thesis using B(1) by (metis append_eq_conv_conj n_def)
  qed
  finally have r3: "read_bytes m 14 n = amsdu_body ps" .
  have "read_bytes m (-6) (6 + (14 + n)) = hdr @ h @ amsdu_body ps"
    unfolding read_bytes_append using r1 r2 r3 by simp
  then show "skb_bytes (amsdu_close t b lastlen dst src)
    = hdr @ (dst @ src @ [le16_hi (length (amsdu_body ps)), le16_lo (length (amsdu_body ps))]) @ amsdu_body ps"
    by (simp add: c skb_bytes_def h_def n_def add.commute)
  show "skb_len (amsdu_close t b lastlen dst src) = 20 + length (amsdu_body ps)" by (simp add: c n_def)
qed

section \<open>Adding a frame\<close>

definition aggr_ok :: "aggr_info \<Rightarrow> bool" where
  "aggr_ok a \<longleftrightarrow> tx_amsdu_max_pdu_len a \<le> tx_amsdu_max_aggr_len a \<and> tx_amsdu_max_aggr_len a \<le> 1580
     \<and> 2 \<le> tx_amsdu_max_aggr_num a \<and> tx_amsdu_max_aggr_num a < 256"

lemma aggr_init_ok: "aggr_ok aggr_init"
  by (simp add: aggr_ok_def aggr_init_def tx_aggr_consts)

lemma aggr_tx_config_ok: "aggr_ok a \<Longrightarrow> num < 256 \<Longrightarrow> aggr_ok (aggr_tx_config a seq prog num pdu tmo)"
  by (auto simp: aggr_ok_def aggr_tx_config_def Let_def tx_aggr_consts)

lemma aggr_ok_hispeed [simp]: "aggr_ok (a\<lparr>tx_amsdu_progressive_hispeed := b\<rparr>) = aggr_ok a"
  by (simp add: aggr_ok_def)

lemma progressive_ok:
  assumes "aggr_ok a" and p: "aggr_tx_progressive hz now infra tmo a t = (a', t')"
  shows "aggr_ok a'" "amsdu_skb t' = amsdu_skb t" "tx_timer t' = tx_timer t" "max_aggr_sz t' = max_aggr_sz t"
proof -
  have "aggr_ok (aggr_tx_config (a\<lparr>tx_amsdu_progressive_hispeed := b\<rparr>) s p n l m)" if "n < 256" for b s p n l m
    using assms(1) that by (intro aggr_tx_config_ok) simp_all
  then show "aggr_ok a'"
    using p assms(1) by (auto simp: aggr_tx_progressive_def Let_def tx_aggr_consts split: if_split_asm)
  show "amsdu_skb t' = amsdu_skb t" "tx_timer t' = tx_timer t" "max_aggr_sz t' = max_aggr_sz t"
    using p by (auto simp: aggr_tx_progressive_def Let_def split: if_split_asm)
qed

definition tx_inv :: "u8 list \<Rightarrow> u8 list list \<Rightarrow> txtid \<Rightarrow> bool" where
  "tx_inv hdr ps t \<longleftrightarrow> gathered hdr ps t \<and> length (padded ps) \<le> 1580 \<and> length ps < 255
     \<and> (amsdu_skb t \<noteq> None \<longrightarrow> tx_timer t \<noteq> None)"

lemma gathered_overflow: "gathered hdr ps (t\<lparr>tx_num_overflow := x\<rparr>) = gathered hdr ps t"
  unfolding gathered_def by (simp cong: option.case_cong)

lemma tx_inv_none: "tx_inv hdr ps t \<Longrightarrow> amsdu_skb t = None \<longleftrightarrow> ps = []"
  by (auto simp: tx_inv_def gathered_def split: option.splits)

lemma tx_inv_empty: "amsdu_skb t = None \<Longrightarrow> tx_inv hdr [] t"
  by (simp add: tx_inv_def gathered_def padded_def)

lemma mark_amsdu_simps [simp]:
  "skb_id (mark_amsdu s) = skb_id s" "pdu_len (mark_amsdu s) = pdu_len s"
  "skb_range (mark_amsdu s) 6 n = skb_range s 6 n"
  by (auto simp: mark_amsdu_def Let_def pdu_len_def skb_range_def intro!: read_write_apart)

definition wmi_hdr_of :: "u8 list list \<Rightarrow> u8 list \<Rightarrow> skb \<Rightarrow> u8 list" where
  "wmi_hdr_of ps hdr s = (if ps = [] then skb_range (mark_amsdu s) 0 6 else hdr)"

lemma padded_room:
  assumes "length (padded ps) + n \<le> 1580"
  shows "length (padded ps) + (n + 3) div 4 * 4 \<le> 1580"
  using assms padded_mod4 [of ps] by presburger

lemma append_inv:
  assumes t: "tx_inv hdr ps t" and a: "aggr_ok a" and s: "tx_aggregatable a s" "6 < skb_len s"
    and room: "ps \<noteq> [] \<Longrightarrow> amsdu_len t + pdu_len s \<le> tx_amsdu_max_aggr_len a"
    and t2: "t2 = (let s1 = (if amsdu_skb t = None then mark_amsdu s else s); t1 = (if amsdu_skb t = None then amsdu_open a t s1 else t)
               in amsdu_append t1 (the (amsdu_skb t1)) (skb_range s1 WMI_DATA_HDR_LEN (pdu_len s1)))"
  shows "gathered (wmi_hdr_of ps hdr s) (ps @ [skb_range s 6 (pdu_len s)]) t2"
    "length (padded (ps @ [skb_range s 6 (pdu_len s)])) \<le> 1580" "tx_timer t2 \<noteq> None" "amsdu_skb t2 \<noteq> None"
proof -
  define p where "p = skb_range s 6 (pdu_len s)"
  have lp: "length p = pdu_len s" by (simp add: p_def skb_range_def)
  have p: "p \<noteq> []" using s(2) lp by (auto simp: pdu_len_def WMI_DATA_HDR_LEN_def)
  have pl: "pdu_len s \<le> 1580" using s(1) a by (auto simp: tx_aggregatable_def aggr_ok_def)
  have room': "length (padded ps) + length p \<le> 1580"
  proof (cases "ps = []")
    case True then show ?thesis using pl lp by (simp add: padded_def)
  next
    case False
    then have "amsdu_len t = length (padded ps)" using t by (auto simp: tx_inv_def gathered_def split: option.splits)
    then show ?thesis using room [OF False] a lp by (simp add: aggr_ok_def)
  qed
  then show len: "length (padded (ps @ [skb_range s 6 (pdu_len s)])) \<le> 1580"
    using padded_room by (simp add: padded_snoc p_def [symmetric])
  have small: "length (padded (ps @ [p])) < 65536" using len by (simp add: p_def)
  show "gathered (wmi_hdr_of ps hdr s) (ps @ [skb_range s 6 (pdu_len s)]) t2"
  proof (cases "amsdu_skb t")
    case None
    then have ps: "ps = []" using tx_inv_none [OF t] by simp
    have "t2 = amsdu_append (amsdu_open a t (mark_amsdu s)) (the (amsdu_skb (amsdu_open a t (mark_amsdu s)))) p"
      using None by (simp add: t2 p_def WMI_DATA_HDR_LEN_def Let_def)
    then show ?thesis using open_gathered(1) [OF _ p, of "wmi_hdr_of ps hdr s" "mark_amsdu s" a t] small
      by (simp add: ps wmi_hdr_of_def padded_def p_def [symmetric])
  next
    case (Some b)
    then have ps: "ps \<noteq> []" using tx_inv_none [OF t] by simp
    have "t2 = amsdu_append t b p" using Some by (simp add: t2 p_def WMI_DATA_HDR_LEN_def)
    then show ?thesis using append_gathered [OF _ Some p small] t ps by (simp add: tx_inv_def wmi_hdr_of_def p_def [symmetric])
  qed
  show "tx_timer t2 \<noteq> None" "amsdu_skb t2 \<noteq> None"
    using t by (auto simp: t2 Let_def amsdu_append_def amsdu_open_def tx_inv_def)
qed

lemma gathered_cnt: "gathered hdr ps t \<Longrightarrow> ps \<noteq> [] \<Longrightarrow> amsdu_cnt t = length ps"
  by (auto simp: gathered_def split: option.splits)

text \<open>The three ways through adding a frame, the last one split by whether the aggregate is complete.\<close>

lemma tx_add_bypass:
  "max_aggr_sz t = 0 \<or> amsdu_skb t = None \<and> \<not> can
    \<Longrightarrow> aggr_tx_add can hz now infra dst src a t s = (AGGR_TX_BYPASS, Some s, [], a, t)"
  unfolding aggr_tx_add_def Let_def by (elim disjE) simp_all

lemma tx_add_overflow:
  "max_aggr_sz t \<noteq> 0 \<Longrightarrow> amsdu_skb t \<noteq> None \<Longrightarrow> amsdu_len t + pdu_len s > tx_amsdu_max_aggr_len a
    \<Longrightarrow> aggr_tx_add can hz now infra dst src a t s = (AGGR_TX_BYPASS, Some s, [], a, t\<lparr>tx_num_overflow := tx_num_overflow t + 1\<rparr>)"
  unfolding aggr_tx_add_def Let_def by (cases "amsdu_skb t") simp_all

definition tx_add_frame :: "aggr_info \<Rightarrow> txtid \<Rightarrow> skb \<Rightarrow> txtid" where
  "tx_add_frame a t s =
     (let s1 = (if amsdu_skb t = None then mark_amsdu s else s); t1 = (if amsdu_skb t = None then amsdu_open a t s1 else t)
      in amsdu_append t1 (the (amsdu_skb t1)) (skb_range s1 WMI_DATA_HDR_LEN (pdu_len s1)))"

lemma tx_add_taken:
  assumes "max_aggr_sz t \<noteq> 0" "amsdu_skb t = None \<Longrightarrow> can" "amsdu_skb t \<noteq> None \<Longrightarrow> amsdu_len t + pdu_len s \<le> tx_amsdu_max_aggr_len a"
  shows "aggr_tx_add can hz now infra dst src a t s =
    (let t2 = tx_add_frame a t s; s1 = (if amsdu_skb t = None then mark_amsdu s else s)
     in if amsdu_cnt t2 \<ge> tx_amsdu_max_aggr_num a
        then (case aggr_tx_progressive hz now infra False a (snd (aggr_tx_reset_aggr (amsdu_sent t2) False True)) of
            (a1, t3) \<Rightarrow> (AGGR_TX_DONE, Some (amsdu_close t2 (the (amsdu_skb t2)) (pdu_len s1) dst src), [s1], a1, t3))
        else (AGGR_TX_OK, None, [s1], a, t2))"
proof (cases "amsdu_skb t = None")
  case True
  then show ?thesis using assms(1,2) unfolding aggr_tx_add_def tx_add_frame_def Let_def by simp
next
  case False
  then obtain b where "amsdu_skb t = Some b" by blast
  then show ?thesis using assms(1,3) unfolding aggr_tx_add_def tx_add_frame_def Let_def by simp
qed

text \<open>
  Property C24.  Adding a frame to an aggregate.  A frame is passed by only when aggregation is off
  for the identifier, no buffer can be had, or it would not fit, and then nothing has changed for
  it; otherwise its bytes join the aggregate and it is freed.  When the aggregate has reached its
  number of frames it is handed back: the WMI header of the first frame marked as A-MSDU, an
  Ethernet header with the given addresses and the exact length, and the frames each padded to a
  word except the last.  It fits the buffer of 1600 bytes, and a waiting aggregate always has a
  timer running.
\<close>

theorem tx_add_outcome:
  assumes "aggr_ok a" and "tx_inv hdr ps t" and "tx_aggregatable a s" and "6 < skb_len s"
    and "length dst = 6" and "length src = 6"
    and "aggr_tx_add can hz now infra dst src a t s = (st, out, fr, a', t')"
    and "pdu = skb_range s 6 (pdu_len s)"
  shows "aggr_ok a' \<and> (case st of
      AGGR_TX_BYPASS \<Rightarrow> out = Some s \<and> fr = [] \<and> tx_inv hdr ps t' \<and> (max_aggr_sz t = 0 \<or> ps = [] \<and> \<not> can
        \<or> ps \<noteq> [] \<and> length (padded ps) + length pdu > tx_amsdu_max_aggr_len a)
    | AGGR_TX_OK \<Rightarrow> out = None \<and> map skb_id fr = [skb_id s] \<and> tx_inv (wmi_hdr_of ps hdr s) (ps @ [pdu]) t'
        \<and> length ps + 1 < tx_amsdu_max_aggr_num a
    | AGGR_TX_DONE \<Rightarrow> map skb_id fr = [skb_id s] \<and> tx_inv [] [] t' \<and> tx_timer t' = None \<and> tx_amsdu_max_aggr_num a \<le> length ps + 1
        \<and> (\<exists>b. out = Some b \<and> skb_bytes b = wmi_hdr_of ps hdr s
              @ (dst @ src @ [le16_hi (length (amsdu_body (ps @ [pdu]))), le16_lo (length (amsdu_body (ps @ [pdu])))])
              @ amsdu_body (ps @ [pdu]) \<and> skb_len b \<le> 1600)
    | _ \<Rightarrow> False)"
proof -
  have nn: "amsdu_skb t = None \<longleftrightarrow> ps = []" by (rule tx_inv_none [OF assms(2)])
  have al: "ps \<noteq> [] \<Longrightarrow> amsdu_len t = length (padded ps)" using assms(2) by (auto simp: tx_inv_def gathered_def split: option.splits)
  have lp: "length pdu = pdu_len s" by (simp add: assms(8) skb_range_def)
  define s1 where "s1 = (if amsdu_skb t = None then mark_amsdu s else s)"
  have ids: "skb_id s1 = skb_id s" "pdu_len s1 = pdu_len s" by (simp_all add: s1_def)
  consider (bypass) "max_aggr_sz t = 0 \<or> ps = [] \<and> \<not> can" | (over) "max_aggr_sz t \<noteq> 0" "ps \<noteq> []" "amsdu_len t + pdu_len s > tx_amsdu_max_aggr_len a"
    | (take) "max_aggr_sz t \<noteq> 0" "ps = [] \<Longrightarrow> can" "ps \<noteq> [] \<Longrightarrow> amsdu_len t + pdu_len s \<le> tx_amsdu_max_aggr_len a" by fastforce
  then show ?thesis
  proof cases
    case bypass
    note e = assms(7) [unfolded tx_add_bypass [OF bypass [folded nn]]]
    show ?thesis using bypass e assms(1,2) by auto
  next
    case over
    note e = assms(7) [unfolded tx_add_overflow [OF over(1) over(2) [folded nn] over(3)]]
    have "tx_inv hdr ps (t\<lparr>tx_num_overflow := x\<rparr>)" for x
      using assms(2) gathered_overflow [where hdr = hdr and ps = ps and t = t and x = x] by (simp add: tx_inv_def)
    then show ?thesis using over al lp e assms(1) by auto
  next
    case take
    define t2 where "t2 = tx_add_frame a t s"
    note ap = append_inv [OF assms(2,1,3,4) take(3) t2_def [unfolded tx_add_frame_def], folded assms(8)]
    have "aggr_tx_add can hz now infra dst src a t s = (let t2 = tx_add_frame a t s; s1 = (if amsdu_skb t = None then mark_amsdu s else s)
     in if amsdu_cnt t2 \<ge> tx_amsdu_max_aggr_num a
        then (case aggr_tx_progressive hz now infra False a (snd (aggr_tx_reset_aggr (amsdu_sent t2) False True)) of
            (a1, t3) \<Rightarrow> (AGGR_TX_DONE, Some (amsdu_close t2 (the (amsdu_skb t2)) (pdu_len s1) dst src), [s1], a1, t3))
        else (AGGR_TX_OK, None, [s1], a, t2))"
      by (rule tx_add_taken) (use take nn in auto)
    note e = assms(7) [unfolded this, folded t2_def s1_def, unfolded Let_def, folded s1_def t2_def]
    have cnt: "amsdu_cnt t2 = length ps + 1" using gathered_cnt [OF ap(1)] by simp
    show ?thesis
    proof (cases "amsdu_cnt t2 \<ge> tx_amsdu_max_aggr_num a")
      case True
      obtain a1 t3 where p: "aggr_tx_progressive hz now infra False a (snd (aggr_tx_reset_aggr (amsdu_sent t2) False True)) = (a1, t3)"
        by fastforce
      note P = progressive_ok [OF assms(1) p]
      have n: "amsdu_skb t3 = None" "tx_timer t3 = None" using P(2,3) by (simp_all add: aggr_tx_reset_aggr_def)
      obtain b where b: "amsdu_skb t2 = Some b" using ap(4) by blast
      have l: "pdu_len s1 mod 4 = length (last (ps @ [pdu])) mod 4" using lp by (simp add: ids)
      note B = close_bytes [OF ap(1) b l assms(5,6)]
      have le: "length (amsdu_body (ps @ [pdu])) \<le> 1580" using body_padded(2) [of "ps @ [pdu]"] ap(2) by simp
      have r: "st = AGGR_TX_DONE" "out = Some (amsdu_close t2 b (pdu_len s1) dst src)" "fr = [s1]" "a' = a1" "t' = t3"
        using e True p b by simp_all
      show ?thesis unfolding r using P(1) tx_inv_empty [OF n(1)] n(2) B le ids cnt True by simp
    next
      case F: False
      have "tx_inv (wmi_hdr_of ps hdr s) (ps @ [pdu]) t2"
        using ap F cnt assms(1) by (simp add: tx_inv_def aggr_ok_def)
      then show ?thesis using e F assms(1) cnt ids by auto
    qed
  qed
qed

lemma amsdu_body_msdus: "ms \<noteq> [] \<Longrightarrow> amsdu_body (map put_sub ms) = put_subs ms"
proof (induction ms rule: put_subs.induct)
  case 3
  then show ?case by (simp add: amsdu_body_def padded_def pad4_def)
qed (simp_all add: amsdu_body_def padded_def)

text \<open>The kernel's \<open>skb_pull\<close> leaves the buffer alone when it holds less than \<open>n\<close> bytes.\<close>

definition skb_pull :: "nat \<Rightarrow> skb \<Rightarrow> skb" where
  "skb_pull n s = (if n \<le> skb_len s then s\<lparr>skb_ptr := skb_ptr s + int n, skb_len := skb_len s - n\<rparr> else s)"


definition ex_pdu_skb :: "nat \<Rightarrow> skb" where
  "ex_pdu_skb i = (skb_of ([0, 8, 0, 0, 0, 0] @ replicate 6 2 @ replicate 6 4 @ [0, 37] @ replicate 6 0 @ [8, 0] @ replicate 9 0 @ [6] @ replicate 19 1))
     \<lparr>skb_id := Some i\<rparr>"

definition ex_txtid :: txtid where
  "ex_txtid = \<lparr>tx_aid = 1, max_aggr_sz = 1500, tx_timer = None, amsdu_skb = None, amsdu_cnt = 0, amsdu_start = 0, amsdu_len = 0,
     amsdu_lastpdu_len = 0, last_check_time = 0, last_num_amsdu = 0, last_num_timeout = 0, tx_num_pdu = 0, tx_num_amsdu = 0,
     tx_num_timeout = 0, tx_num_flush = 0, tx_num_null = 0, tx_num_overflow = 0\<rparr>"

lemma ex_pdu_aggregatable: "tx_aggregatable aggr_init (ex_pdu_skb i)" "skb_len (ex_pdu_skb i) = 57"
proof -
  have e: "skb_len (ex_pdu_skb i) = 57" "skb_ptr (ex_pdu_skb i) = 0"
    "skb_mem (ex_pdu_skb i) = write_bytes (\<lambda>_. 0) 0 ([0, 8, 0, 0, 0, 0] @ replicate 6 2 @ replicate 6 4 @ [0, 37] @ replicate 6 0 @ [8, 0] @ replicate 9 0 @ [6] @ replicate 19 1)"
    by (simp_all add: ex_pdu_skb_def skb_of_def)
  have u: "[0..<6] = [0, 1, 2, 3, 4, 5::nat]" by (simp add: upt_rec)
  show "skb_len (ex_pdu_skb i) = 57" by (rule e)
  show "tx_aggregatable aggr_init (ex_pdu_skb i)"
    by (simp add: tx_aggregatable_def pdu_len_def e WMI_DATA_HDR_LEN_def rx_consts is_multicast_ether_addr_def skb_range_def skb_at_def
      read_bytes_def u write_bytes_def nth_append nth_Cons' le16_def aggr_init_def tx_aggr_consts)
qed

lemma tx_add_outcome_witness:
  "\<exists>t'. aggr_tx_add True 100 1 True (replicate 6 1) (replicate 6 2) aggr_init ex_txtid (ex_pdu_skb 5)
      = (AGGR_TX_OK, None, [mark_amsdu (ex_pdu_skb 5)], aggr_init, t') \<and> (\<exists>hdr pdu. tx_inv hdr [pdu] t')"
proof -
  obtain st out fr a' t' where r: "aggr_tx_add True 100 1 True (replicate 6 1) (replicate 6 2) aggr_init ex_txtid (ex_pdu_skb 5) = (st, out, fr, a', t')"
    by (metis prod_cases5)
  have i: "tx_inv [] [] ex_txtid" by (rule tx_inv_empty) (simp add: ex_txtid_def)
  have shape: "st = AGGR_TX_OK \<and> out = None \<and> fr = [mark_amsdu (ex_pdu_skb 5)] \<and> a' = aggr_init"
    using r by (simp add: aggr_tx_add_def Let_def ex_txtid_def amsdu_append_def amsdu_open_def aggr_tx_reset_aggr_def aggr_init_def tx_aggr_consts)
  from tx_add_outcome [OF aggr_init_ok i ex_pdu_aggregatable(1) _ _ _ r refl] show ?thesis
    using shape r by (auto simp: ex_pdu_aggregatable(2))
qed


end
