(* ===== verification/WmiData.thy ===== *)
theory WmiData
  imports AmsduTx
begin

text \<open>
  The framing of data messages (drivers/ath6kl/wmi.c and the inline functions of wmi.h): an Ethernet
  frame from the network stack becomes an 802.3 frame with an LLC/SNAP header
  (\<open>ath6kl_wmi_dix_2_dot3\<close>), gets the data header of the WMI protocol in front
  (\<open>ath6kl_wmi_data_hdr_add\<close>, \<open>ath6kl_wmi_meta_add\<close>) and a user priority
  (\<open>ath6kl_wmi_determine_user_priority\<close>); the other way round \<open>ath6kl_wmi_dot3_2_dix\<close> and
  \<open>ath6kl_wmi_dot11_hdr_remove\<close> make an Ethernet frame of what the target delivers.

  The functions work in place on a socket buffer, so they are modelled on its memory.
\<close>

section \<open>Socket buffers\<close>

definition skb_push :: "nat \<Rightarrow> skb \<Rightarrow> skb" where
  "skb_push n s = s\<lparr>skb_ptr := skb_ptr s - int n, skb_len := skb_len s + n\<rparr>"

definition skb_headroom :: "skb \<Rightarrow> int" where
  "skb_headroom s = skb_ptr s - skb_head s"

definition skb_store :: "skb \<Rightarrow> nat \<Rightarrow> u8 list \<Rightarrow> skb" where
  "skb_store s i bs = s\<lparr>skb_mem := write_bytes (skb_mem s) (skb_ptr s + int i) bs\<rparr>"

text \<open>Fields in network order.\<close>

definition be16_at :: "skb \<Rightarrow> nat \<Rightarrow> nat" where
  "be16_at s i = le16 (skb_at s (i + 1)) (skb_at s i)"

definition be16_bytes :: "nat \<Rightarrow> u8 list" where
  "be16_bytes n = [le16_hi n, le16_lo n]"

text \<open>Fields in little-endian order.\<close>

definition le16_at :: "skb \<Rightarrow> nat \<Rightarrow> u16" where
  "le16_at s i = of_nat (le16 (skb_at s i) (skb_at s (i + 1)))"

definition le16_bytes :: "u16 \<Rightarrow> u8 list" where
  "le16_bytes w = [le16_lo (unat w), le16_hi (unat w)]"

section \<open>Ethernet and 802.3\<close>

definition LLC_SNAP_LEN :: nat where "LLC_SNAP_LEN = 8"

definition is_ethertype :: "nat \<Rightarrow> bool" where
  "is_ethertype t \<longleftrightarrow> t \<ge> 0x0600"

text \<open>
  \<open>ath6kl_wmi_dix_2_dot3\<close>.  The length is put into the old header first, then the header is copied
  8 bytes down (byte by byte from the front, as the ranges overlap), then the LLC header is written
  over the rest of the old one.  The length field keeps the low 16 bits.
\<close>

definition ath6kl_wmi_dix_2_dot3 :: "skb \<Rightarrow> int \<times> skb" where
  "ath6kl_wmi_dix_2_dot3 s =
     (if skb_headroom s < int (LLC_SNAP_LEN + WMI_DATA_HDR_LEN) then (- ENOMEM, s)
      else if \<not> is_ethertype (be16_at s 12) then (0, s)
      else
        let ty = skb_range s 12 2;
            new_len = nat ((int (skb_len s) - int ETH_HDR_LEN + int LLC_SNAP_LEN) mod 65536);
            s1 = skb_store (skb_push LLC_SNAP_LEN s) (LLC_SNAP_LEN + 12) (be16_bytes new_len);
            s2 = skb_store s1 0 (skb_range s1 LLC_SNAP_LEN ETH_HDR_LEN);
            s3 = skb_store s2 ETH_HDR_LEN ([0xAA, 0xAA, 3, 0, 0, 0] @ ty)
        in (0, s3))"

text \<open>
  \<open>ath6kl_wmi_dot3_2_dix\<close> on the buffer; on the bytes of the frame it is
  \<open>RxReorder.ath6kl_wmi_dot3_2_dix\<close>, see \<open>dot3_2_dix_bytes\<close>.
\<close>

definition dot3_2_dix_skb :: "skb \<Rightarrow> skb" where
  "dot3_2_dix_skb s =
     (let eth = skb_range s 0 12 @ skb_range s (ETH_HDR_LEN + 6) 2;
          s1 = skb_pull LLC_SNAP_LEN s
      in skb_store s1 0 eth)"

text \<open>
  \<open>ath6kl_wmi_dot11_hdr_remove\<close>.  The frame control field is little endian; the 802.11 header is
  stripped for data (24 bytes) and QoS data (26 rounded up to 28) only.
\<close>

definition ath6kl_wmi_dot11_hdr_remove :: "skb \<Rightarrow> int \<times> skb" where
  "ath6kl_wmi_dot11_hdr_remove s =
     (let fc = le16_at s 0;
          addr1 = skb_range s 4 6; addr2 = skb_range s 10 6; addr3 = skb_range s 16 6;
          s1 = (if fc AND 0xF0 = 0x80 then skb_pull 28 s else if fc AND 0xF0 = 0 then skb_pull 24 s else s);
          ty = skb_range s1 6 2;
          ds = fc AND 0x300;
          mac = (if ds = 0 then addr1 @ addr2
                 else if ds = 0x100 then addr3 @ addr2
                 else if ds = 0x200 then addr1 @ addr3
                 else replicate 12 0);
          s2 = skb_push ETH_HDR_LEN (skb_pull LLC_SNAP_LEN s1)
      in (0, skb_store s2 0 (mac @ ty)))"

section \<open>The WMI data header\<close>

text \<open>Bytes of \<open>struct wmi_data_hdr\<close>: rssi, info, info2 (2 bytes), info3 (2 bytes).\<close>

definition DATA_MSGTYPE :: nat where "DATA_MSGTYPE = 0"
definition CNTL_MSGTYPE :: nat where "CNTL_MSGTYPE = 1"
definition SYNC_MSGTYPE :: nat where "SYNC_MSGTYPE = 2"
definition OPT_MSGTYPE :: nat where "OPT_MSGTYPE = 3"

definition WMI_DATA_HDR_FLAGS_MORE :: u32 where "WMI_DATA_HDR_FLAGS_MORE = 1"
definition WMI_DATA_HDR_FLAGS_EOSP :: u32 where "WMI_DATA_HDR_FLAGS_EOSP = 2"
definition WMI_DATA_HDR_FLAGS_TRIGGERED :: u32 where "WMI_DATA_HDR_FLAGS_TRIGGERED = 4"
definition WMI_DATA_HDR_FLAGS_PSPOLLED :: u32 where "WMI_DATA_HDR_FLAGS_PSPOLLED = 8"

lemmas data_hdr_flags = WMI_DATA_HDR_FLAGS_MORE_def WMI_DATA_HDR_FLAGS_EOSP_def
  WMI_DATA_HDR_FLAGS_TRIGGERED_def WMI_DATA_HDR_FLAGS_PSPOLLED_def

definition WMI_MAX_TX_META_SZ :: nat where "WMI_MAX_TX_META_SZ = 12"
definition WMI_META_VERSION_1 :: nat where "WMI_META_VERSION_1 = 1"
definition WMI_META_VERSION_2 :: nat where "WMI_META_VERSION_2 = 2"

text \<open>The macros that read a header; \<open>wmi_data_hdr_get_up\<close> is in \<open>AmsduTx\<close>.\<close>

definition wmi_data_hdr_msg_type :: "skb \<Rightarrow> u8" where
  "wmi_data_hdr_msg_type s = skb_at s 1 AND 3"

definition wmi_data_hdr_get_dot11 :: "skb \<Rightarrow> bool" where
  "wmi_data_hdr_get_dot11 s \<longleftrightarrow> drop_bit 6 (skb_at s 1) AND 3 = 1"

definition wmi_data_hdr_get_seqno :: "skb \<Rightarrow> u16" where
  "wmi_data_hdr_get_seqno s = le16_at s 2 AND 0xFFF"

definition wmi_data_hdr_is_amsdu :: "skb \<Rightarrow> bool" where
  "wmi_data_hdr_is_amsdu s \<longleftrightarrow> drop_bit 12 (le16_at s 2) AND 1 = 1"

definition wmi_data_hdr_get_meta :: "skb \<Rightarrow> u16" where
  "wmi_data_hdr_get_meta s = drop_bit 13 (le16_at s 2) AND 7"

definition wmi_data_hdr_get_if_idx :: "skb \<Rightarrow> u16" where
  "wmi_data_hdr_get_if_idx s = le16_at s 4 AND 0xF"

definition wmi_data_hdr_has_more :: "skb \<Rightarrow> bool" where
  "wmi_data_hdr_has_more s \<longleftrightarrow> skb_at s 1 AND 0x20 \<noteq> 0"

definition wmi_data_hdr_has_eosp :: "skb \<Rightarrow> bool" where
  "wmi_data_hdr_has_eosp s \<longleftrightarrow> le16_at s 4 AND 0x10 \<noteq> 0"

definition wmi_data_hdr_has_triggered :: "skb \<Rightarrow> bool" where
  "wmi_data_hdr_has_triggered s \<longleftrightarrow> le16_at s 4 AND 0x40 \<noteq> 0"

definition wmi_data_hdr_has_pspolled :: "skb \<Rightarrow> bool" where
  "wmi_data_hdr_has_pspolled s \<longleftrightarrow> le16_at s 4 AND 0x80 \<noteq> 0"

definition wmi_data_hdr_set_up :: "skb \<Rightarrow> nat \<Rightarrow> skb" where
  "wmi_data_hdr_set_up s up = skb_store s 1 [(skb_at s 1 AND NOT 0x1C) OR (push_bit 2 (of_nat up))]"

text \<open>
  \<open>ath6kl_wmi_meta_add\<close>: version 1 clears the two bytes it has, version 2 copies the three bytes of
  \<open>tx_meta_info\<close>; any other version adds nothing.
\<close>

definition ath6kl_wmi_meta_add :: "skb \<Rightarrow> nat \<Rightarrow> u8 list \<Rightarrow> skb" where
  "ath6kl_wmi_meta_add s version info =
     (if version = WMI_META_VERSION_1 then skb_store (skb_push WMI_MAX_TX_META_SZ s) 0 [0, 0]
      else if version = WMI_META_VERSION_2 then skb_store (skb_push WMI_MAX_TX_META_SZ s) 0 (take 3 info)
      else s)"

definition data_hdr_bytes :: "nat \<Rightarrow> u32 \<Rightarrow> nat \<Rightarrow> nat \<Rightarrow> nat \<Rightarrow> u8 list" where
  "data_hdr_bytes msg_type flags data_type meta_ver if_idx =
     (let info = (of_nat msg_type :: u8) OR push_bit 6 (of_nat data_type)
                   OR (if has_flag flags WMI_DATA_HDR_FLAGS_MORE then 0x20 else 0);
          info2 = push_bit 13 (of_nat meta_ver) :: u16;
          info3 = ((of_nat if_idx :: u16) AND 0xF)
                   OR (if has_flag flags WMI_DATA_HDR_FLAGS_EOSP then 0x10 else 0)
                   OR (if has_flag flags WMI_DATA_HDR_FLAGS_TRIGGERED then 0x40 else 0)
                   OR (if has_flag flags WMI_DATA_HDR_FLAGS_PSPOLLED then 0x80 else 0)
      in [0, info] @ le16_bytes info2 @ le16_bytes info3)"

definition ath6kl_wmi_data_hdr_add ::
    "nat \<Rightarrow> skb \<Rightarrow> nat \<Rightarrow> u32 \<Rightarrow> nat \<Rightarrow> nat \<Rightarrow> u8 list option \<Rightarrow> nat \<Rightarrow> int \<times> skb" where
  "ath6kl_wmi_data_hdr_add vif_max s msg_type flags data_type meta_ver tx_meta_info if_idx =
     (if int if_idx > int vif_max - 1 then (- EINVAL, s)
      else
        let s1 = (case tx_meta_info of None \<Rightarrow> s | Some info \<Rightarrow> ath6kl_wmi_meta_add s meta_ver info)
        in (0, skb_store (skb_push WMI_DATA_HDR_LEN s1) 0 (data_hdr_bytes msg_type flags data_type meta_ver if_idx)))"

text \<open>The precedence of an IP packet at \<open>pkt\<close>, or the layer 2 priority when that is higher.\<close>

definition ath6kl_wmi_determine_user_priority :: "(int \<Rightarrow> u8) \<Rightarrow> int \<Rightarrow> nat \<Rightarrow> nat" where
  "ath6kl_wmi_determine_user_priority mem pkt layer2_pri =
     (let ip_pri = unat (drop_bit 5 (mem (pkt + 1)) AND 7)
      in if layer2_pri mod 8 > ip_pri then layer2_pri mod 8 else ip_pri)"

section \<open>Buffers as lists of bytes\<close>

lemma length_skb_bytes [simp]: "length (skb_bytes s) = skb_len s"
  by (simp add: skb_bytes_def)

lemma skb_at_bytes: "i < skb_len s \<Longrightarrow> skb_at s i = skb_bytes s ! i"
  by (simp add: skb_at_def skb_bytes_def)

lemma skb_range_bytes: "i + n \<le> skb_len s \<Longrightarrow> skb_range s i n = take n (drop i (skb_bytes s))"
  by (intro nth_equalityI) (simp_all add: skb_range_def skb_bytes_def add.assoc)

lemma skb_store_bytes:
  "i + length bs \<le> skb_len s \<Longrightarrow> skb_bytes (skb_store s i bs) = take i (skb_bytes s) @ bs @ drop (i + length bs) (skb_bytes s)"
  by (intro nth_equalityI) (auto simp: skb_store_def skb_bytes_def write_bytes_def nth_append add.assoc nat_diff_distrib' nat_add_distrib)

lemma skb_push_bytes: "skb_bytes (skb_push n s) = read_bytes (skb_mem s) (skb_ptr s - int n) n @ skb_bytes s"
  using read_bytes_append [of "skb_mem s" "skb_ptr s - int n" n "skb_len s"] by (simp add: skb_push_def skb_bytes_def add.commute)

lemma skb_pull_bytes: "n \<le> skb_len s \<Longrightarrow> skb_bytes (skb_pull n s) = drop n (skb_bytes s)"
  by (intro nth_equalityI) (simp_all add: skb_pull_def skb_bytes_def add.assoc)

lemma skb_len_ops [simp]:
  "skb_len (skb_push n s) = skb_len s + n" "skb_len (skb_store s i bs) = skb_len s" "n \<le> skb_len s \<Longrightarrow> skb_len (skb_pull n s) = skb_len s - n"
  by (simp_all add: skb_push_def skb_store_def skb_pull_def)

lemma skb_headroom_ops [simp]:
  "skb_headroom (skb_push n s) = skb_headroom s - int n" "skb_headroom (skb_store s i bs) = skb_headroom s"
  "n \<le> skb_len s \<Longrightarrow> skb_headroom (skb_pull n s) = skb_headroom s + int n"
  by (simp_all add: skb_push_def skb_store_def skb_pull_def skb_headroom_def)

lemma skb_id_ops [simp]:
  "skb_id (skb_push n s) = skb_id s" "skb_id (skb_store s i bs) = skb_id s" "skb_id (skb_pull n s) = skb_id s"
  by (simp_all add: skb_push_def skb_store_def skb_pull_def)

lemma be16_bytes_len [simp]: "length (be16_bytes n) = 2"
  by (simp add: be16_bytes_def)

lemma le16_bytes_len [simp]: "length (le16_bytes n) = 2"
  by (simp add: le16_bytes_def)

lemma be16_at_bytes: "i + 1 < skb_len s \<Longrightarrow> be16_at s i = le16 (skb_bytes s ! (i + 1)) (skb_bytes s ! i)"
  by (simp add: be16_at_def skb_at_bytes)

lemma le16_word: "(of_nat (le16 (le16_lo (unat w)) (le16_hi (unat w))) :: u16) = w"
proof -
  have "unat w < 65536" using unsigned_less [of w, where ?'a = nat] by simp
  then show ?thesis by (simp add: le16_round_trip)
qed

lemma le16_at_bytes:
  assumes "skb_bytes s = pre @ le16_bytes w @ post" and "length pre = i"
  shows "le16_at s i = w"
proof -
  have "length pre + 2 + length post = skb_len s" using arg_cong [OF assms(1), of length] by simp
  then show ?thesis using assms by (simp add: le16_at_def skb_at_bytes nth_append le16_bytes_def le16_word)
qed

text \<open>On the bytes of a frame that is long enough the two models of the decapsulation agree.\<close>

lemma dot3_2_dix_bytes:
  assumes "ETH_HDR_LEN + LLC_SNAP_LEN \<le> skb_len s"
  shows "skb_bytes (dot3_2_dix_skb s) = ath6kl_wmi_dot3_2_dix (skb_bytes s)"
proof -
  have "skb_bytes (dot3_2_dix_skb s) = (skb_range s 0 12 @ skb_range s 20 2) @ drop 14 (drop 8 (skb_bytes s))"
    unfolding dot3_2_dix_skb_def Let_def using assms
    by (subst skb_store_bytes) (simp_all add: skb_range_def LLC_SNAP_LEN_def rx_consts skb_pull_bytes)
  then show ?thesis using assms by (simp add: skb_range_bytes LLC_SNAP_LEN_def rx_consts ath6kl_wmi_dot3_2_dix_def)
qed

section \<open>Encapsulation\<close>

definition dix_bytes :: "u8 list \<Rightarrow> u8 list \<Rightarrow> nat \<Rightarrow> u8 list \<Rightarrow> u8 list" where
  "dix_bytes dst src ty payload = dst @ src @ be16_bytes ty @ payload"

definition dot3_bytes :: "u8 list \<Rightarrow> u8 list \<Rightarrow> nat \<Rightarrow> u8 list \<Rightarrow> u8 list" where
  "dot3_bytes dst src ty payload = dst @ src @ be16_bytes (length payload + 8) @ [0xAA, 0xAA, 3, 0, 0, 0] @ be16_bytes ty @ payload"

lemma dix_2_dot3_bytes:
  assumes b: "skb_bytes s = dix_bytes dst src ty payload" and l: "length dst = 6" "length src = 6"
    and ty: "0x600 \<le> ty" "ty < 65536" and p: "length payload + 8 < 65536" and room: "14 \<le> skb_headroom s"
  shows "fst (ath6kl_wmi_dix_2_dot3 s) = 0" "skb_bytes (snd (ath6kl_wmi_dix_2_dot3 s)) = dot3_bytes dst src ty payload"
    "skb_headroom (snd (ath6kl_wmi_dix_2_dot3 s)) = skb_headroom s - 8" "skb_id (snd (ath6kl_wmi_dix_2_dot3 s)) = skb_id s"
proof -
  have len: "skb_len s = 14 + length payload" using arg_cong [OF b, of length] l by (simp add: dix_bytes_def)
  have t: "be16_at s 12 = ty"
    using b l len ty by (simp add: be16_at_bytes dix_bytes_def nth_append be16_bytes_def le16_round_trip)
  have tr: "skb_range s 12 2 = be16_bytes ty"
    using l len b by (simp add: skb_range_bytes dix_bytes_def)
  define s1 where "s1 = skb_store (skb_push 8 s) 20 (be16_bytes (length payload + 8))"
  define s2 where "s2 = skb_store s1 0 (skb_range s1 8 14)"
  define s3 where "s3 = skb_store s2 14 ([0xAA, 0xAA, 3, 0, 0, 0] @ be16_bytes ty)"
  have nl: "nat ((int (skb_len s) - 14 + 8) mod 65536) = length payload + 8" using p by (simp add: len nat_mod_distrib)
  have e: "ath6kl_wmi_dix_2_dot3 s = (0, s3)"
    using room ty t tr nl unfolding ath6kl_wmi_dix_2_dot3_def s3_def s2_def s1_def
    by (simp add: Let_def LLC_SNAP_LEN_def WMI_DATA_HDR_LEN_def rx_consts is_ethertype_def)
  define x where "x = read_bytes (skb_mem s) (skb_ptr s - 8) 8"
  have lx: "length x = 8" by (simp add: x_def)
  have b1: "skb_bytes s1 = x @ dst @ src @ be16_bytes (length payload + 8) @ payload"
    unfolding s1_def using len l lx by (subst skb_store_bytes) (simp_all add: skb_push_bytes b dix_bytes_def x_def)
  have r: "skb_range s1 8 14 = dst @ src @ be16_bytes (length payload + 8)"
    using l lx len by (subst skb_range_bytes) (simp_all add: b1, simp add: s1_def)
  have b2: "skb_bytes s2 = dst @ src @ be16_bytes (length payload + 8) @ drop 14 (skb_bytes s1)"
    unfolding s2_def r using l len by (subst skb_store_bytes) (simp_all add: s1_def)
  have "skb_bytes s3 = take 14 (skb_bytes s2) @ ([0xAA, 0xAA, 3, 0, 0, 0] @ be16_bytes ty) @ drop 22 (skb_bytes s2)"
    unfolding s3_def using len by (subst skb_store_bytes) (simp_all add: s2_def s1_def)
  also have "\<dots> = dot3_bytes dst src ty payload"
    using l lx unfolding b2 b1 by (simp add: dot3_bytes_def)
  finally have b3: "skb_bytes s3 = dot3_bytes dst src ty payload" .
  show "fst (ath6kl_wmi_dix_2_dot3 s) = 0" "skb_bytes (snd (ath6kl_wmi_dix_2_dot3 s)) = dot3_bytes dst src ty payload"
    "skb_headroom (snd (ath6kl_wmi_dix_2_dot3 s)) = skb_headroom s - 8" "skb_id (snd (ath6kl_wmi_dix_2_dot3 s)) = skb_id s"
    using b3 by (simp_all add: e, simp_all add: s3_def s2_def s1_def)
qed

lemma dot3_2_dix_of_dot3: "length dst = 6 \<Longrightarrow> length src = 6 \<Longrightarrow> ath6kl_wmi_dot3_2_dix (dot3_bytes dst src ty payload) = dix_bytes dst src ty payload"
  by (simp add: ath6kl_wmi_dot3_2_dix_def dot3_bytes_def dix_bytes_def)

lemma data_hdr_add_bytes:
  assumes "if_idx < vif_max"
  shows "ath6kl_wmi_data_hdr_add vif_max s mt fl dt mv None if_idx
      = (0, skb_store (skb_push 6 s) 0 (data_hdr_bytes mt fl dt mv if_idx))"
    "skb_bytes (skb_store (skb_push 6 s) 0 (data_hdr_bytes mt fl dt mv if_idx)) = data_hdr_bytes mt fl dt mv if_idx @ skb_bytes s"
proof -
  show "ath6kl_wmi_data_hdr_add vif_max s mt fl dt mv None if_idx = (0, skb_store (skb_push 6 s) 0 (data_hdr_bytes mt fl dt mv if_idx))"
    using assms by (simp add: ath6kl_wmi_data_hdr_add_def Let_def WMI_DATA_HDR_LEN_def)
  have "length (data_hdr_bytes mt fl dt mv if_idx) = 6" by (simp add: data_hdr_bytes_def Let_def)
  then show "skb_bytes (skb_store (skb_push 6 s) 0 (data_hdr_bytes mt fl dt mv if_idx)) = data_hdr_bytes mt fl dt mv if_idx @ skb_bytes s"
    by (subst skb_store_bytes) (simp_all add: skb_push_bytes)
qed

section \<open>The header says what it was told\<close>

lemma data_hdr_fields:
  assumes b: "skb_bytes s = data_hdr_bytes mt fl dt mv if_idx @ rest" and "mt < 4" and "dt < 4" and "mv < 8" and "if_idx < 16"
  shows "wmi_data_hdr_msg_type s = of_nat mt" "wmi_data_hdr_get_dot11 s \<longleftrightarrow> dt = 1" "wmi_data_hdr_get_seqno s = 0"
    "\<not> wmi_data_hdr_is_amsdu s" "wmi_data_hdr_get_meta s = of_nat mv" "wmi_data_hdr_get_if_idx s = of_nat if_idx"
    "wmi_data_hdr_has_more s = has_flag fl WMI_DATA_HDR_FLAGS_MORE" "wmi_data_hdr_has_eosp s = has_flag fl WMI_DATA_HDR_FLAGS_EOSP"
    "wmi_data_hdr_has_triggered s = has_flag fl WMI_DATA_HDR_FLAGS_TRIGGERED"
    "wmi_data_hdr_has_pspolled s = has_flag fl WMI_DATA_HDR_FLAGS_PSPOLLED" "wmi_data_hdr_get_up (skb_at s 1) = 0"
proof -
  define info where "info = (of_nat mt :: u8) OR push_bit 6 (of_nat dt) OR (if has_flag fl WMI_DATA_HDR_FLAGS_MORE then 0x20 else 0)"
  define info2 where "info2 = (push_bit 13 (of_nat mv) :: u16)"
  define info3 where "info3 = ((of_nat if_idx :: u16) AND 0xF) OR (if has_flag fl WMI_DATA_HDR_FLAGS_EOSP then 0x10 else 0)
    OR (if has_flag fl WMI_DATA_HDR_FLAGS_TRIGGERED then 0x40 else 0) OR (if has_flag fl WMI_DATA_HDR_FLAGS_PSPOLLED then 0x80 else 0)"
  have d: "data_hdr_bytes mt fl dt mv if_idx = [0, info] @ le16_bytes info2 @ le16_bytes info3"
    by (simp add: data_hdr_bytes_def Let_def info_def info2_def info3_def)
  have "skb_len s = 6 + length rest" using arg_cong [OF b, of length] by (simp add: d)
  then have i1: "skb_at s 1 = info" using b by (simp add: skb_at_bytes d)
  have i2: "le16_at s 2 = info2" using b by (intro le16_at_bytes [where pre = "[0, info]"]) (simp_all add: d)
  have i3: "le16_at s 4 = info3" using b by (intro le16_at_bytes [where pre = "[0, info] @ le16_bytes info2"]) (simp_all add: d)
  have mt: "mt = 0 \<or> mt = 1 \<or> mt = 2 \<or> mt = 3" and dt: "dt = 0 \<or> dt = 1 \<or> dt = 2 \<or> dt = 3" using assms(2,3) by linarith+
  have mv: "mv = 0 \<or> mv = 1 \<or> mv = 2 \<or> mv = 3 \<or> mv = 4 \<or> mv = 5 \<or> mv = 6 \<or> mv = 7" using assms(4) by linarith
  show "wmi_data_hdr_msg_type s = of_nat mt" unfolding wmi_data_hdr_msg_type_def i1 info_def using mt dt by auto
  show "wmi_data_hdr_get_dot11 s \<longleftrightarrow> dt = 1" unfolding wmi_data_hdr_get_dot11_def i1 info_def using mt dt by auto
  show "wmi_data_hdr_has_more s = has_flag fl WMI_DATA_HDR_FLAGS_MORE"
    unfolding wmi_data_hdr_has_more_def i1 info_def using mt dt by auto
  show "wmi_data_hdr_get_up (skb_at s 1) = 0" unfolding wmi_data_hdr_get_up_def i1 info_def using mt dt by auto
  show "wmi_data_hdr_get_seqno s = 0" unfolding wmi_data_hdr_get_seqno_def i2 info2_def using mv by auto
  show "\<not> wmi_data_hdr_is_amsdu s" unfolding wmi_data_hdr_is_amsdu_def i2 info2_def using mv by auto
  show "wmi_data_hdr_get_meta s = of_nat mv" unfolding wmi_data_hdr_get_meta_def i2 info2_def using mv by auto
  have m: "(of_nat if_idx :: u16) AND 0xF = of_nat if_idx"
  proof -
    have "(of_nat if_idx :: u16) AND mask 4 = take_bit 4 (of_nat if_idx)" by (simp add: take_bit_eq_mask)
    also have "\<dots> = of_nat (take_bit 4 if_idx)" by (rule take_bit_of_nat)
    finally show ?thesis using assms(5) by (simp add: mask_eq_exp_minus_1 take_bit_eq_mod)
  qed
  show "wmi_data_hdr_get_if_idx s = of_nat if_idx"
    unfolding wmi_data_hdr_get_if_idx_def i3 info3_def by (simp add: word_ao_dist word_bw_assocs m)
  show "wmi_data_hdr_has_eosp s = has_flag fl WMI_DATA_HDR_FLAGS_EOSP"
    "wmi_data_hdr_has_triggered s = has_flag fl WMI_DATA_HDR_FLAGS_TRIGGERED"
    "wmi_data_hdr_has_pspolled s = has_flag fl WMI_DATA_HDR_FLAGS_PSPOLLED"
    unfolding wmi_data_hdr_has_eosp_def wmi_data_hdr_has_triggered_def wmi_data_hdr_has_pspolled_def i3 info3_def
    by (simp_all add: word_ao_dist word_bw_assocs)
qed

text \<open>
  Property C15.  Framing loses nothing.  An Ethernet frame that fits a length field, in a buffer with
  the headroom the function asks for, becomes exactly the 802.3 frame with its LLC/SNAP header and
  length; with the data header in front every field of that header reads back as it was given; and
  taking the header off and decapsulating, as the receive path does, yields the bytes of the frame.
\<close>

theorem data_frame_round_trip:
  assumes "skb_bytes s = dix_bytes dst src ty payload" and "length dst = 6" and "length src = 6"
    and "0x600 \<le> ty" and "ty < 65536" and "length payload + 8 < 65536" and "14 \<le> skb_headroom s"
    and "if_idx < vif_max" and "if_idx < 16" and "mt < 4" and "dt < 4"
    and "ath6kl_wmi_dix_2_dot3 s = (r1, s1)" and "ath6kl_wmi_data_hdr_add vif_max s1 mt fl dt 0 None if_idx = (r2, s2)"
  shows "r1 = 0 \<and> r2 = 0 \<and> 0 \<le> skb_headroom s2
    \<and> skb_bytes s2 = data_hdr_bytes mt fl dt 0 if_idx @ dot3_bytes dst src ty payload
    \<and> skb_bytes (dot3_2_dix_skb (skb_pull WMI_DATA_HDR_LEN s2)) = skb_bytes s
    \<and> wmi_data_hdr_msg_type s2 = of_nat mt \<and> wmi_data_hdr_get_dot11 s2 = (dt = 1) \<and> wmi_data_hdr_get_meta s2 = 0
    \<and> wmi_data_hdr_get_if_idx s2 = of_nat if_idx \<and> \<not> wmi_data_hdr_is_amsdu s2
    \<and> wmi_data_hdr_has_more s2 = has_flag fl WMI_DATA_HDR_FLAGS_MORE
    \<and> wmi_data_hdr_has_eosp s2 = has_flag fl WMI_DATA_HDR_FLAGS_EOSP
    \<and> wmi_data_hdr_has_triggered s2 = has_flag fl WMI_DATA_HDR_FLAGS_TRIGGERED
    \<and> wmi_data_hdr_has_pspolled s2 = has_flag fl WMI_DATA_HDR_FLAGS_PSPOLLED"
proof -
  note D = dix_2_dot3_bytes [OF assms(1-7), unfolded assms(12) fst_conv snd_conv]
  note A = data_hdr_add_bytes [OF assms(8), of s1 mt fl dt 0]
  have s2: "r2 = 0" "s2 = skb_store (skb_push 6 s1) 0 (data_hdr_bytes mt fl dt 0 if_idx)" using A(1) assms(13) by simp_all
  have b: "skb_bytes s2 = data_hdr_bytes mt fl dt 0 if_idx @ dot3_bytes dst src ty payload" unfolding s2(2) A(2) D(2) ..
  have h: "length (data_hdr_bytes mt fl dt 0 if_idx) = 6" by (simp add: data_hdr_bytes_def Let_def)
  have len: "skb_len s2 = 28 + length payload"
    using arg_cong [OF b, of length] assms(2,3) h by (simp add: dot3_bytes_def)
  have "skb_bytes (dot3_2_dix_skb (skb_pull WMI_DATA_HDR_LEN s2)) = ath6kl_wmi_dot3_2_dix (dot3_bytes dst src ty payload)"
    using len h by (subst dot3_2_dix_bytes) (simp_all add: skb_pull_bytes b WMI_DATA_HDR_LEN_def rx_consts LLC_SNAP_LEN_def)
  then have rt: "skb_bytes (dot3_2_dix_skb (skb_pull WMI_DATA_HDR_LEN s2)) = skb_bytes s"
    using dot3_2_dix_of_dot3 [OF assms(2,3)] assms(1) by simp
  have "0 \<le> skb_headroom s2" using D(3) assms(7) by (simp add: s2(2))
  then show ?thesis using D(1) s2(1) b rt data_hdr_fields [OF b assms(10,11) _ assms(9)] by simp
qed

definition ex_eth :: skb where
  "ex_eth = (skb_of (dix_bytes (replicate 6 2) (replicate 6 4) 0x0800 (replicate 20 7)))\<lparr>skb_id := Some 3\<rparr>"

lemma data_frame_round_trip_witness:
  "\<exists>s2. snd (ath6kl_wmi_data_hdr_add 4 (snd (ath6kl_wmi_dix_2_dot3 ex_eth)) DATA_MSGTYPE WMI_DATA_HDR_FLAGS_MORE 0 0 None 2) = s2
    \<and> skb_bytes (dot3_2_dix_skb (skb_pull WMI_DATA_HDR_LEN s2)) = skb_bytes ex_eth \<and> wmi_data_hdr_get_if_idx s2 = 2
    \<and> wmi_data_hdr_has_more s2 \<and> \<not> wmi_data_hdr_has_eosp s2"
proof -
  have b: "skb_bytes ex_eth = dix_bytes (replicate 6 2) (replicate 6 4) 0x0800 (replicate 20 7)"
    using skb_bytes_of [of "dix_bytes (replicate 6 2) (replicate 6 4) 0x0800 (replicate 20 7)"] by (simp add: ex_eth_def skb_bytes_def)
  have h: "14 \<le> skb_headroom ex_eth" by (simp add: ex_eth_def skb_of_def skb_headroom_def NET_SKB_PAD_def)
  obtain r1 s1 where 1: "ath6kl_wmi_dix_2_dot3 ex_eth = (r1, s1)" by fastforce
  obtain r2 s2 where 2: "ath6kl_wmi_data_hdr_add 4 s1 DATA_MSGTYPE WMI_DATA_HDR_FLAGS_MORE 0 0 None 2 = (r2, s2)" by fastforce
  have "skb_bytes (dot3_2_dix_skb (skb_pull WMI_DATA_HDR_LEN s2)) = skb_bytes ex_eth \<and> wmi_data_hdr_get_if_idx s2 = 2
    \<and> wmi_data_hdr_has_more s2 \<and> \<not> wmi_data_hdr_has_eosp s2"
    using data_frame_round_trip [OF b _ _ _ _ _ h _ _ _ _ 1 2] by (simp add: DATA_MSGTYPE_def data_hdr_flags has_flag_def)
  then show ?thesis unfolding 1 snd_conv 2 by blast
qed

end
