(* ===== verification/Station.thy ===== *)
theory Station
  imports PsQueue WmiData
begin

text \<open>
  Interfaces and the stations of an access point (drivers/ath6kl/main.c: \<open>ath6kl_find_sta\<close>,
  \<open>ath6kl_find_sta_by_aid\<close>, \<open>ath6kl_add_new_sta\<close>, \<open>ath6kl_sta_cleanup\<close>, \<open>ath6kl_remove_sta\<close>,
  \<open>ath6kl_connect_ap_mode_sta\<close>; drivers/ath6kl/txrx.c: \<open>aggr_init_conn\<close>, \<open>aggr_reset_state\<close> and the
  block ack events).  An interface has \<open>AP_MAX_NUM_STA\<close> slots; slot \<open>i\<close> is for the station with
  association identifier \<open>i + 1\<close>; outside access point mode slot 0 stands for the peer.
\<close>

section \<open>Data\<close>

definition AP_MAX_NUM_STA :: nat where "AP_MAX_NUM_STA = 10"
definition ATH6KL_MAX_IE :: nat where "ATH6KL_MAX_IE = 256"
definition MCAST_AID :: nat where "MCAST_AID = 0xFF"

definition STA_PS_AWAKE :: u16 where "STA_PS_AWAKE = 1"
definition STA_PS_SLEEP :: u16 where "STA_PS_SLEEP = 2"
definition STA_PS_POLLED :: u16 where "STA_PS_POLLED = 4"
definition STA_PS_APSD_TRIGGER :: u16 where "STA_PS_APSD_TRIGGER = 8"
definition STA_PS_APSD_EOSP :: u16 where "STA_PS_APSD_EOSP = 16"
definition STA_HT_SUPPORT :: u16 where "STA_HT_SUPPORT = 32"

lemmas sta_flag_defs = STA_PS_AWAKE_def STA_PS_SLEEP_def STA_PS_POLLED_def STA_PS_APSD_TRIGGER_def STA_PS_APSD_EOSP_def STA_HT_SUPPORT_def

datatype network_type = INFRA_NETWORK | ADHOC_NETWORK | ADHOC_CREATOR | AP_NETWORK

text \<open>
  \<open>struct ath6kl_sta\<close>.  \<open>sta_vif\<close> says whether the back pointer is set.  The two halves of the
  \<open>aggr_conn_info\<close> it points to are \<open>sta_rx\<close> and \<open>sta_tx\<close>; \<open>psq_age_timer\<close> is the delay of the
  pending timer.
\<close>

record ath6kl_sta =
  sta_flags :: u16
  sta_mac :: "u8 list"
  sta_aid :: nat
  sta_keymgmt :: u8
  sta_ucipher :: u8
  sta_auth :: u8
  wpa_ie :: "u8 list"
  sta_phymode :: u8
  sta_vif :: bool
  psq_data :: ps_buf_head
  psq_mgmt :: ps_buf_head
  psq_age_timer :: "nat option"
  psq_age_active :: bool
  apsd_info :: u8
  sta_rx :: aggr_conn
  sta_tx :: "nat \<Rightarrow> txtid"
  last_txrx_time_tgt :: nat
  last_txrx_time :: nat

text \<open>
  \<open>struct ath6kl_vif\<close>, the fields the modelled functions use.  The free receive buffers belong to the
  \<open>aggr_info\<close> of the interface; \<open>aggr_free_q\<close> counts them and \<open>aggr_allocs\<close> the allocations tried.
\<close>

record ath6kl_vif =
  fw_vif_idx :: nat
  nw_type :: network_type
  vif_bssid :: "u8 list"
  dev_addr :: "u8 list"
  vif_connected :: bool
  wmm_enabled :: bool
  dtim_expired :: bool
  amsdu_enabled :: bool
  netq_stopped :: bool
  aggr_cntxt :: aggr_info
  aggr_free_q :: nat
  aggr_allocs :: nat
  sta_list :: "nat \<Rightarrow> ath6kl_sta"
  sta_list_index :: u16
  sta_no_ht_num :: int
  ap_stats_aid :: "nat \<Rightarrow> nat"
  psq_mcast :: ps_buf_head
  needed_headroom :: int
  data_cookie_count :: u32
  net_tx_dropped :: nat
  net_tx_aborted :: nat
  net_tx_errors :: nat
  net_tx_packets :: nat
  net_tx_bytes :: nat
  net_rx_packets :: nat
  net_rx_bytes :: nat
  net_rx_errors :: nat
  net_rx_length_errors :: nat
  if_up :: bool
  intra_bss :: bool

definition upd_sta :: "ath6kl_vif \<Rightarrow> nat \<Rightarrow> (ath6kl_sta \<Rightarrow> ath6kl_sta) \<Rightarrow> ath6kl_vif" where
  "upd_sta v i f = v\<lparr>sta_list := (sta_list v)(i := f (sta_list v i))\<rparr>"

section \<open>Looking a station up\<close>

text \<open>Both loops return the first slot that matches.\<close>

fun first_slot :: "(nat \<Rightarrow> bool) \<Rightarrow> nat list \<Rightarrow> nat option" where
  "first_slot P [] = None"
| "first_slot P (i # is) = (if P i then Some i else first_slot P is)"

definition ath6kl_find_sta :: "ath6kl_vif \<Rightarrow> u8 list \<Rightarrow> nat option" where
  "ath6kl_find_sta v node_addr =
     (if nw_type v \<noteq> AP_NETWORK then Some 0
      else first_slot (\<lambda>i. node_addr = sta_mac (sta_list v i)) [0..<AP_MAX_NUM_STA])"

definition ath6kl_find_sta_by_aid :: "ath6kl_vif \<Rightarrow> nat \<Rightarrow> nat option" where
  "ath6kl_find_sta_by_aid v a =
     (if nw_type v \<noteq> AP_NETWORK then Some 0
      else first_slot (\<lambda>i. sta_aid (sta_list v i) = a) [0..<AP_MAX_NUM_STA])"

lemma first_slot_Some: "first_slot P is = Some i \<Longrightarrow> i \<in> set is \<and> P i"
  by (induction "is") (auto split: if_splits)

lemma first_slot_None: "first_slot P is = None \<longleftrightarrow> (\<forall>i\<in>set is. \<not> P i)"
  by (induction "is") auto

lemma first_slot_unique:
  assumes "i \<in> set is" and "P i" and "\<And>j. j \<in> set is \<Longrightarrow> P j \<Longrightarrow> j = i"
  shows "first_slot P is = Some i"
proof (cases "first_slot P is")
  case None
  then show ?thesis using first_slot_None [of P "is"] assms(1,2) by blast
next
  case (Some j)
  then show ?thesis using first_slot_Some [OF Some] assms(3) by blast
qed

section \<open>Aggregation state of a station\<close>

text \<open>
  The receive half works on the free buffers of the interface: they are lent to the connection for
  the operation.
\<close>

definition on_conn :: "ath6kl_vif \<Rightarrow> nat \<Rightarrow> (aggr_conn \<Rightarrow> aggr_conn option) \<Rightarrow> ath6kl_vif option" where
  "on_conn v i f =
     (case f ((sta_rx (sta_list v i))\<lparr>free_q := aggr_free_q v, n_alloc := aggr_allocs v\<rparr>) of
        None \<Rightarrow> None
      | Some c \<Rightarrow> Some ((upd_sta v i (\<lambda>s. s\<lparr>sta_rx := c\<rparr>))\<lparr>aggr_free_q := free_q c, aggr_allocs := n_alloc c\<rparr>))"

definition up_to_ac :: "nat list" where
  "up_to_ac = [0, 1, 1, 0, 2, 2, 3, 3]"

definition blank_rxtid :: rxtid where
  "blank_rxtid = \<lparr>aggr = False, win_sz = 0, seq_next = 0, hold_q_sz = 0, hold_q = [], rxq = [], timerwait_seq_num = 0,
     sync_next_seq = False, tid_timer = None, tid_timer_scheduled = False, issue_timer_seq = 0, continuous_count = 0\<rparr>"

definition blank_txtid :: txtid where
  "blank_txtid = \<lparr>tx_aid = 0, max_aggr_sz = 0, tx_timer = None, amsdu_skb = None, amsdu_cnt = 0, amsdu_start = 0, amsdu_len = 0,
     amsdu_lastpdu_len = 0, last_check_time = 0, last_num_amsdu = 0, last_num_timeout = 0, tx_num_pdu = 0, tx_num_amsdu = 0,
     tx_num_timeout = 0, tx_num_flush = 0, tx_num_null = 0, tx_num_overflow = 0\<rparr>"

text \<open>\<open>aggr_init_conn\<close>: zeroed memory, and the receive timeout by access category (3 is voice).\<close>

definition aggr_init_conn :: "aggr_conn \<times> (nat \<Rightarrow> txtid)" where
  "aggr_init_conn =
     (\<lparr>rx_tid = (\<lambda>_. blank_rxtid), rx_stat = (\<lambda>_. zero_rxstats),
       tid_timeout_setting = (\<lambda>i. if up_to_ac ! i = 3 then AGGR_RX_TIMEOUT_VO else AGGR_RX_TIMEOUT),
       free_q = 0, n_alloc = 0, rx_events = []\<rparr>, (\<lambda>_. blank_txtid))"

text \<open>One traffic identifier of \<open>aggr_reset_state\<close>; the socket buffers it frees come first.\<close>

definition reset_tid :: "(nat \<Rightarrow> bool) \<Rightarrow> ath6kl_vif \<Rightarrow> nat \<Rightarrow> nat \<Rightarrow> (skb list \<times> ath6kl_vif) option" where
  "reset_tid can v i tid =
     (case on_conn v i (\<lambda>c. aggr_delete_tid_state can c tid) of
        None \<Rightarrow> None
      | Some v1 \<Rightarrow>
          (case aggr_tx_delete_tid_state (aggr_cntxt v1) (sta_tx (sta_list v1 i) tid) of
             (fr, a, t) \<Rightarrow> Some (fr, (upd_sta v1 i (\<lambda>s. s\<lparr>sta_tx := (sta_tx s)(tid := t)\<rparr>))\<lparr>aggr_cntxt := a\<rparr>)))"

fun reset_tids :: "(nat \<Rightarrow> bool) \<Rightarrow> ath6kl_vif \<Rightarrow> nat \<Rightarrow> nat list \<Rightarrow> (skb list \<times> ath6kl_vif) option" where
  "reset_tids can v i [] = Some ([], v)"
| "reset_tids can v i (tid # tids) =
     (case reset_tid can v i tid of
        None \<Rightarrow> None
      | Some (fr, v1) \<Rightarrow> map_option (\<lambda>(fr', v2). (fr @ fr', v2)) (reset_tids can v1 i tids))"

definition aggr_reset_state :: "(nat \<Rightarrow> bool) \<Rightarrow> ath6kl_vif \<Rightarrow> nat \<Rightarrow> (skb list \<times> ath6kl_vif) option" where
  "aggr_reset_state can v i =
     map_option (\<lambda>(fr, v1). (fr, if nw_type v1 \<noteq> AP_NETWORK then v1\<lparr>aggr_cntxt := (aggr_cntxt v1)\<lparr>tx_amsdu_enable := False\<rparr>\<rparr> else v1))
       (reset_tids can v i [0..<NUM_OF_TIDS])"

text \<open>
  The block ack events for the station they name.  \<open>aggr_recv_delba_req_evt\<close> does not check the
  traffic identifier: beyond the arrays the result is \<open>None\<close>.
\<close>

definition sta_recv_addba_req_evt :: "(nat \<Rightarrow> bool) \<Rightarrow> bool \<Rightarrow> ath6kl_vif \<Rightarrow> nat \<Rightarrow> nat \<Rightarrow> nat \<Rightarrow> ath6kl_vif option" where
  "sta_recv_addba_req_evt can kz v tid seq_no winsz =
     (let conn_tid = AGGR_BA_EVT_GET_TID tid in
      if conn_tid \<ge> NUM_OF_TIDS then Some v
      else case ath6kl_find_sta_by_aid v (AGGR_BA_EVT_GET_CONNID tid) of
        None \<Rightarrow> Some v
      | Some i \<Rightarrow> on_conn v i (\<lambda>c. addba_setup can kz c conn_tid seq_no winsz))"

definition aggr_recv_addba_resp_evt :: "ath6kl_vif \<Rightarrow> nat \<Rightarrow> nat \<Rightarrow> nat \<Rightarrow> skb list \<times> ath6kl_vif" where
  "aggr_recv_addba_resp_evt v tid amsdu_sz st =
     (let conn_tid = AGGR_BA_EVT_GET_TID tid; conn_aid = AGGR_BA_EVT_GET_CONNID tid in
      if conn_tid \<ge> NUM_OF_TIDS then ([], v)
      else case ath6kl_find_sta_by_aid v conn_aid of
        None \<Rightarrow> ([], v)
      | Some i \<Rightarrow>
          let t = (sta_tx (sta_list v i) conn_tid)\<lparr>tx_aid := conn_aid, max_aggr_sz := (if st = 0 then amsdu_sz else 0)\<rparr>;
              (fr, t1) = (if max_aggr_sz t = 0 then aggr_tx_reset_aggr t True True else ([], t));
              v1 = upd_sta v i (\<lambda>s. s\<lparr>sta_tx := (sta_tx s)(conn_tid := t1)\<rparr>)
          in (fr, if nw_type v1 \<noteq> AP_NETWORK
                  then v1\<lparr>aggr_cntxt := (aggr_cntxt v1)\<lparr>tx_amsdu_enable :=
                         list_ex (\<lambda>k. max_aggr_sz (sta_tx (sta_list v1 i) k) \<noteq> 0) [0..<NUM_OF_TIDS]\<rparr>\<rparr>
                  else v1))"

definition aggr_recv_delba_req_evt :: "(nat \<Rightarrow> bool) \<Rightarrow> ath6kl_vif \<Rightarrow> nat \<Rightarrow> nat \<Rightarrow> (skb list \<times> ath6kl_vif) option" where
  "aggr_recv_delba_req_evt can v tid initiator =
     (let conn_tid = AGGR_BA_EVT_GET_TID tid in
      case ath6kl_find_sta_by_aid v (AGGR_BA_EVT_GET_CONNID tid) of
        None \<Rightarrow> Some ([], v)
      | Some i \<Rightarrow>
          if conn_tid \<ge> NUM_OF_TIDS then None
          else if initiator = 1 then
            (case aggr_tx_delete_tid_state (aggr_cntxt v) (sta_tx (sta_list v i) conn_tid) of
               (fr, a, t) \<Rightarrow> Some (fr, (upd_sta v i (\<lambda>s. s\<lparr>sta_tx := (sta_tx s)(conn_tid := t)\<rparr>))\<lparr>aggr_cntxt := a\<rparr>))
          else if aggr (rx_tid (sta_rx (sta_list v i)) conn_tid)
          then map_option (\<lambda>v1. ([], v1)) (on_conn v i (\<lambda>c. aggr_delete_tid_state can c conn_tid))
          else Some ([], v))"

text \<open>\<open>aggr_module_destroy_conn\<close>: the buffers freed.\<close>

definition aggr_module_destroy_conn :: "aggr_conn \<Rightarrow> (nat \<Rightarrow> txtid) \<Rightarrow> skb list" where
  "aggr_module_destroy_conn c tx =
     concat (map (\<lambda>i. concat (map (\<lambda>h. case hq_skb h of None \<Rightarrow> [] | Some s \<Rightarrow> [s]) (take (hold_q_sz (rx_tid c i)) (hold_q (rx_tid c i))))
                 @ rxq (rx_tid c i) @ fst (aggr_tx_reset_aggr (tx i) True True)) [0..<NUM_OF_TIDS])"

section \<open>Stations come and go\<close>

text \<open>
  \<open>ath6kl_add_new_sta\<close>.  The model gives no result for an identifier above the number of slots
  (\<open>BUG_ON\<close>) and for 0, where the code would use slot 255.  \<open>wpaie\<close> are the bytes at the pointer.
\<close>

definition ath6kl_add_new_sta ::
    "(nat \<Rightarrow> bool) \<Rightarrow> ath6kl_vif \<Rightarrow> u8 list \<Rightarrow> nat \<Rightarrow> u8 list \<Rightarrow> nat \<Rightarrow> u8 \<Rightarrow> u8 \<Rightarrow> u8 \<Rightarrow> u8 \<Rightarrow> bool \<Rightarrow> u8
      \<Rightarrow> (skb list \<times> ath6kl_vif) option" where
  "ath6kl_add_new_sta can v mac aid wpaie ielen keymgmt ucipher auth apsd ht_support phymode =
     (if aid > AP_MAX_NUM_STA \<or> aid = 0 then None
      else
        let i = aid - 1;
            v1 = upd_sta v i (\<lambda>s. s\<lparr>sta_mac := mac, wpa_ie := take ielen wpaie @ drop ielen (wpa_ie s), sta_aid := aid,
                   sta_keymgmt := keymgmt, sta_ucipher := ucipher, sta_auth := auth, apsd_info := apsd, sta_phymode := phymode,
                   sta_vif := True, psq_age_timer := (if psq_age_active s then psq_age_timer s else None), psq_age_active := True\<rparr>)
        in case aggr_reset_state can v1 i of
             None \<Rightarrow> None
           | Some (fr, v2) \<Rightarrow>
               let v3 = upd_sta v2 i (\<lambda>s. s\<lparr>last_txrx_time_tgt := 0, last_txrx_time := 0,
                          sta_flags := (if ht_support then set_flag (sta_flags s) STA_HT_SUPPORT else sta_flags s)\<rparr>)
               in Some (fr, v3\<lparr>sta_list_index := sta_list_index v3 OR push_bit i 1,
                               ap_stats_aid := (ap_stats_aid v3)(i := aid),
                               sta_no_ht_num := (if ht_support then sta_no_ht_num v3 else sta_no_ht_num v3 + 1)\<rparr>))"

text \<open>
  \<open>ath6kl_sta_cleanup\<close>, without the packets of the flow control for concurrent operation.  The
  statistics cleared are those of the slot the identifier names.
\<close>

definition ath6kl_sta_cleanup :: "(nat \<Rightarrow> bool) \<Rightarrow> ath6kl_vif \<Rightarrow> nat \<Rightarrow> (skb list \<times> ath6kl_vif) option" where
  "ath6kl_sta_cleanup can v i =
     (let s = sta_list v i;
          (fr1, q1) = ath6kl_ps_queue_purge (psq_data s);
          (fr2, q2) = ath6kl_ps_queue_purge (psq_mgmt s);
          ht = has_flag (sta_flags s) STA_HT_SUPPORT;
          v1 = (upd_sta v i (\<lambda>s. s\<lparr>psq_age_timer := (if psq_age_active s then None else psq_age_timer s), psq_age_active := False,
                  sta_vif := False, psq_data := q1, psq_mgmt := q2, sta_mac := replicate 6 0,
                  wpa_ie := replicate ATH6KL_MAX_IE 0, sta_aid := 0, sta_flags := 0\<rparr>))
                 \<lparr>ap_stats_aid := (if sta_aid s = 0 then ap_stats_aid v else (ap_stats_aid v)(sta_aid s - 1 := 0)),
                  sta_no_ht_num := (if ht then sta_no_ht_num v else sta_no_ht_num v - 1)\<rparr>
      in case aggr_reset_state can v1 i of
           None \<Rightarrow> None
         | Some (fr3, v2) \<Rightarrow> Some (fr1 @ fr2 @ fr3, v2\<lparr>sta_list_index := sta_list_index v2 AND NOT (push_bit i 1)\<rparr>))"

definition is_zero_ether_addr :: "u8 list \<Rightarrow> bool" where
  "is_zero_ether_addr mac \<longleftrightarrow> mac = replicate 6 0"

definition is_broadcast_ether_addr :: "u8 list \<Rightarrow> bool" where
  "is_broadcast_ether_addr mac \<longleftrightarrow> mac = replicate 6 0xFF"

fun remove_all :: "(nat \<Rightarrow> bool) \<Rightarrow> ath6kl_vif \<Rightarrow> nat list \<Rightarrow> (bool \<times> skb list \<times> ath6kl_vif) option" where
  "remove_all can v [] = Some (False, [], v)"
| "remove_all can v (i # is) =
     (if is_zero_ether_addr (sta_mac (sta_list v i)) then remove_all can v is
      else case ath6kl_sta_cleanup can v i of
        None \<Rightarrow> None
      | Some (fr, v1) \<Rightarrow> map_option (\<lambda>(_, fr', v2). (True, fr @ fr', v2)) (remove_all can v1 is))"

definition ath6kl_remove_sta :: "(nat \<Rightarrow> bool) \<Rightarrow> ath6kl_vif \<Rightarrow> u8 list \<Rightarrow> (bool \<times> skb list \<times> ath6kl_vif) option" where
  "ath6kl_remove_sta can v mac =
     (if is_zero_ether_addr mac then Some (False, [], v)
      else if is_broadcast_ether_addr mac then remove_all can v [0..<AP_MAX_NUM_STA]
      else case first_slot (\<lambda>i. sta_mac (sta_list v i) = mac) [0..<AP_MAX_NUM_STA] of
        None \<Rightarrow> Some (False, [], v)
      | Some i \<Rightarrow> map_option (\<lambda>(fr, v1). (True, fr, v1)) (ath6kl_sta_cleanup can v i))"

section \<open>The elements of an association request\<close>

text \<open>
  The loop of \<open>ath6kl_connect_ap_mode_sta\<close> over the information elements: the bytes from the element
  kept in \<open>wpa_ie\<close> on, and whether the station has HT capabilities.
\<close>

fun ie_walk :: "u8 list \<Rightarrow> u8 list option \<Rightarrow> bool \<Rightarrow> u8 list option \<times> bool" where
  "ie_walk (t # l # rest) wpa ht =
     (let pos = t # l # rest in
      if unat l > length rest then (wpa, ht)
      else if t = 48 then ie_walk (drop (unat l) rest) (Some pos) ht
      else if t = 221 \<and> unat l \<ge> 4 \<and> take 3 rest = [0, 0x50, 0xF2] then
        (if rest ! 3 = 1 then ie_walk (drop (unat l) rest) (Some pos) ht
         else if rest ! 3 = 4 then (Some pos, ht)
         else ie_walk (drop (unat l) rest) wpa ht)
      else if t = 45 \<and> unat l \<ge> 22 then ie_walk (drop (unat l) rest) wpa True
      else if t = 0x44 \<and> wpa = None then (Some pos, ht)
      else ie_walk (drop (unat l) rest) wpa ht)"
| "ie_walk _ wpa ht = (wpa, ht)"

text \<open>Where the elements start: after the fixed part of an association or reassociation request.\<close>

definition assoc_ies :: "u8 list \<Rightarrow> u8 list" where
  "assoc_ies req =
     (if length req > 24 then
        let fc = of_nat (le16 (req ! 0) (req ! 1)) :: u16 in
        if fc AND 0xFC = 0 \<and> length req \<ge> 24 + 4 then drop 28 req
        else if fc AND 0xFC = 0x10 \<and> length req \<ge> 24 + 10 then drop 34 req
        else []
      else [])"

text \<open>The length of the element goes through an 8-bit parameter.\<close>

definition ath6kl_connect_ap_mode_sta ::
    "(nat \<Rightarrow> bool) \<Rightarrow> ath6kl_vif \<Rightarrow> nat \<Rightarrow> u8 list \<Rightarrow> u8 \<Rightarrow> u8 \<Rightarrow> u8 \<Rightarrow> u8 list \<Rightarrow> u8 \<Rightarrow> u8 \<Rightarrow> (skb list \<times> ath6kl_vif) option" where
  "ath6kl_connect_ap_mode_sta can v aid mac keymgmt ucipher auth req apsd phymode =
     (case ie_walk (assoc_ies req) None False of
        (wpa, ht) \<Rightarrow>
          ath6kl_add_new_sta can v mac aid (case wpa of None \<Rightarrow> [] | Some p \<Rightarrow> p)
            (case wpa of None \<Rightarrow> 0 | Some p \<Rightarrow> (2 + unat (p ! 1)) mod 256) keymgmt ucipher auth apsd ht phymode)"

section \<open>The station table\<close>

definition conn_ok :: "aggr_conn \<Rightarrow> bool" where
  "conn_ok c \<longleftrightarrow> (\<forall>tid<NUM_OF_TIDS. (aggr (rx_tid c tid) \<longrightarrow> rx_inv (rx_tid c tid)) \<and> (\<not> aggr (rx_tid c tid) \<longrightarrow> rxq (rx_tid c tid) = [])
     \<and> (tid_timer_scheduled (rx_tid c tid) \<longrightarrow> tid_timer (rx_tid c tid) \<noteq> None))"

lemma conn_ok_cong: "rx_tid c' = rx_tid c \<Longrightarrow> conn_ok c' = conn_ok c"
  by (simp add: conn_ok_def)

definition no_ht :: "ath6kl_sta \<Rightarrow> int" where
  "no_ht s = (if sta_aid s \<noteq> 0 \<and> \<not> has_flag (sta_flags s) STA_HT_SUPPORT then 1 else 0)"

definition sta_ok :: "nat \<Rightarrow> ath6kl_sta \<Rightarrow> bool" where
  "sta_ok i s \<longleftrightarrow> (sta_aid s = 0 \<or> sta_aid s = i + 1) \<and> length (sta_mac s) = 6 \<and> length (wpa_ie s) = ATH6KL_MAX_IE
     \<and> psq_ok (psq_data s) \<and> psq_ok (psq_mgmt s) \<and> conn_ok (sta_rx s)
     \<and> (psq_age_active s \<longleftrightarrow> sta_aid s \<noteq> 0) \<and> (sta_vif s \<longleftrightarrow> sta_aid s \<noteq> 0) \<and> (is_zero_ether_addr (sta_mac s) \<longleftrightarrow> sta_aid s = 0)
     \<and> (sta_aid s = 0 \<longrightarrow> sta_flags s = 0 \<and> psq_list (psq_data s) = [] \<and> psq_list (psq_mgmt s) = [] \<and> psq_age_timer s = None)"

definition table_ok :: "ath6kl_vif \<Rightarrow> bool" where
  "table_ok v \<longleftrightarrow> (\<forall>i<AP_MAX_NUM_STA. sta_ok i (sta_list v i) \<and> ap_stats_aid v i = sta_aid (sta_list v i))
     \<and> (\<forall>i. bit (sta_list_index v) i \<longleftrightarrow> i < AP_MAX_NUM_STA \<and> sta_aid (sta_list v i) \<noteq> 0)
     \<and> sta_no_ht_num v = (\<Sum>i<AP_MAX_NUM_STA. no_ht (sta_list v i))"

lemma sum_update:
  fixes f g :: "nat \<Rightarrow> int"
  assumes "i < n" and "\<And>j. j \<noteq> i \<Longrightarrow> g j = f j"
  shows "(\<Sum>j<n. g j) = (\<Sum>j<n. f j) - f i + g i"
proof -
  have "(\<Sum>j<n. g j) = g i + (\<Sum>j\<in>{..<n} - {i}. g j)" using assms(1) by (simp add: sum.remove)
  also have "(\<Sum>j\<in>{..<n} - {i}. g j) = (\<Sum>j\<in>{..<n} - {i}. f j)" using assms(2) by (intro sum.cong) auto
  finally show ?thesis using assms(1) by (simp add: sum.remove [of "{..<n}" i f])
qed

text \<open>What resetting the aggregation of a station changes.\<close>

definition aggr_moved :: "ath6kl_vif \<Rightarrow> nat \<Rightarrow> aggr_conn \<Rightarrow> (nat \<Rightarrow> txtid) \<Rightarrow> ath6kl_vif \<Rightarrow> bool" where
  "aggr_moved v i c t v' \<longleftrightarrow> (\<exists>a n k. v' = v\<lparr>sta_list := (sta_list v)(i := (sta_list v i)\<lparr>sta_rx := c, sta_tx := t\<rparr>),
     aggr_cntxt := a, aggr_free_q := n, aggr_allocs := k\<rparr>)"

lemma aggr_moved_trans: "aggr_moved v i c t v1 \<Longrightarrow> aggr_moved v1 i c' t' v2 \<Longrightarrow> aggr_moved v i c' t' v2"
  unfolding aggr_moved_def by (elim exE) (simp, blast)

lemma aggr_moved_cntxt:
  assumes "aggr_moved v i c t v1"
  shows "aggr_moved v i c t (v1\<lparr>aggr_cntxt := a\<rparr>)"
proof -
  obtain a' n k where "v1 = v\<lparr>sta_list := (sta_list v)(i := (sta_list v i)\<lparr>sta_rx := c, sta_tx := t\<rparr>),
     aggr_cntxt := a', aggr_free_q := n, aggr_allocs := k\<rparr>" using assms unfolding aggr_moved_def by blast
  then show ?thesis unfolding aggr_moved_def by (intro exI [of _ a] exI [of _ n] exI [of _ k]) simp
qed

lemma aggr_moved_sta: "aggr_moved v i c t v' \<Longrightarrow> sta_list v' = (sta_list v)(i := (sta_list v i)\<lparr>sta_rx := c, sta_tx := t\<rparr>)"
  unfolding aggr_moved_def by (elim exE) simp

lemma aggr_moved_same:
  "aggr_moved v i c t v' \<Longrightarrow> sta_list_index v' = sta_list_index v \<and> ap_stats_aid v' = ap_stats_aid v \<and> sta_no_ht_num v' = sta_no_ht_num v
    \<and> nw_type v' = nw_type v \<and> psq_mcast v' = psq_mcast v"
  unfolding aggr_moved_def by (elim exE) simp

lemma delete_tid_conn_ok:
  assumes "conn_ok c" and "tid < NUM_OF_TIDS"
  shows "\<exists>c'. aggr_delete_tid_state can c tid = Some c' \<and> conn_ok c' \<and> \<not> aggr (rx_tid c' tid) \<and> (\<forall>x. x \<noteq> tid \<longrightarrow> rx_tid c' x = rx_tid c x)"
proof -
  have p: "aggr (rx_tid c tid) \<longrightarrow> rx_inv (rx_tid c tid)" "\<not> aggr (rx_tid c tid) \<longrightarrow> rxq (rx_tid c tid) = []"
    "tid_timer_scheduled (rx_tid c tid) \<longrightarrow> tid_timer (rx_tid c tid) \<noteq> None" using assms by (auto simp: conn_ok_def)
  obtain c' where c: "aggr_delete_tid_state can c tid = Some c'" "\<not> aggr (rx_tid c' tid)" "rxq (rx_tid c' tid) = []"
    "\<forall>x. x \<noteq> tid \<longrightarrow> rx_tid c' x = rx_tid c x" "tid_timer (rx_tid c' tid) = tid_timer (rx_tid c tid)"
    "tid_timer_scheduled (rx_tid c' tid) = tid_timer_scheduled (rx_tid c tid)"
    using delete_tid_state [OF p(1,2) assms(2), of can] by blast
  have "conn_ok c'"
    unfolding conn_ok_def
  proof (intro allI impI)
    fix x assume x: "x < NUM_OF_TIDS"
    show "(aggr (rx_tid c' x) \<longrightarrow> rx_inv (rx_tid c' x)) \<and> (\<not> aggr (rx_tid c' x) \<longrightarrow> rxq (rx_tid c' x) = [])
      \<and> (tid_timer_scheduled (rx_tid c' x) \<longrightarrow> tid_timer (rx_tid c' x) \<noteq> None)"
    proof (cases "x = tid")
      case True then show ?thesis using c p by simp
    next
      case False then show ?thesis using c(4) assms(1) x by (simp add: conn_ok_def)
    qed
  qed
  then show ?thesis using c by blast
qed

lemma reset_tid:
  assumes "conn_ok (sta_rx (sta_list v i))" and "tid < NUM_OF_TIDS"
  shows "\<exists>fr v' c t. reset_tid can v i tid = Some (fr, v') \<and> aggr_moved v i c t v' \<and> conn_ok c \<and> \<not> aggr (rx_tid c tid)
    \<and> (\<forall>x. x \<noteq> tid \<longrightarrow> rx_tid c x = rx_tid (sta_rx (sta_list v i)) x) \<and> amsdu_skb (t tid) = None \<and> max_aggr_sz (t tid) = 0
    \<and> (\<forall>x. x \<noteq> tid \<longrightarrow> t x = sta_tx (sta_list v i) x)"
proof -
  define c0 where "c0 = (sta_rx (sta_list v i))\<lparr>free_q := aggr_free_q v, n_alloc := aggr_allocs v\<rparr>"
  have k: "rx_tid c0 = rx_tid (sta_rx (sta_list v i))" by (simp add: c0_def)
  have "conn_ok c0" using assms(1) conn_ok_cong [OF k] by simp
  then obtain c where c: "aggr_delete_tid_state can c0 tid = Some c" "conn_ok c" "\<not> aggr (rx_tid c tid)" "\<forall>x. x \<noteq> tid \<longrightarrow> rx_tid c x = rx_tid c0 x"
    using delete_tid_conn_ok assms(2) by blast
  define v1 where "v1 = (upd_sta v i (\<lambda>s. s\<lparr>sta_rx := c\<rparr>))\<lparr>aggr_free_q := free_q c, aggr_allocs := n_alloc c\<rparr>"
  obtain fr a t where t: "aggr_tx_delete_tid_state (aggr_cntxt v1) (sta_tx (sta_list v1 i) tid) = (fr, a, t)" by (metis prod_cases3)
  have tt: "amsdu_skb t = None" "max_aggr_sz t = 0" using t by (auto simp: aggr_tx_delete_tid_state_def aggr_tx_reset_aggr_def)
  define v2 where "v2 = (upd_sta v1 i (\<lambda>s. s\<lparr>sta_tx := (sta_tx s)(tid := t)\<rparr>))\<lparr>aggr_cntxt := a\<rparr>"
  have "reset_tid can v i tid = Some (fr, v2)"
    using c(1) t unfolding reset_tid_def on_conn_def c0_def [symmetric] v2_def by (simp add: v1_def)
  moreover have "aggr_moved v i c ((sta_tx (sta_list v i))(tid := t)) v2"
    unfolding aggr_moved_def by (intro exI [of _ a] exI [of _ "free_q c"] exI [of _ "n_alloc c"]) (simp add: v2_def v1_def upd_sta_def)
  ultimately show ?thesis using c k tt by (intro exI [of _ fr] exI [of _ v2] exI [of _ c] exI [of _ "(sta_tx (sta_list v i))(tid := t)"]) simp
qed

lemma reset_tids:
  assumes "conn_ok (sta_rx (sta_list v i))" and "set tids \<subseteq> {..<NUM_OF_TIDS}"
  shows "\<exists>fr v' c t. reset_tids can v i tids = Some (fr, v') \<and> aggr_moved v i c t v' \<and> conn_ok c
    \<and> (\<forall>x. x \<in> set tids \<longrightarrow> \<not> aggr (rx_tid c x) \<and> amsdu_skb (t x) = None \<and> max_aggr_sz (t x) = 0)
    \<and> (\<forall>x. x \<notin> set tids \<longrightarrow> rx_tid c x = rx_tid (sta_rx (sta_list v i)) x \<and> t x = sta_tx (sta_list v i) x)"
  using assms
proof (induction tids arbitrary: v)
  case Nil
  have "aggr_moved v i (sta_rx (sta_list v i)) (sta_tx (sta_list v i)) v"
    unfolding aggr_moved_def by (intro exI [of _ "aggr_cntxt v"] exI [of _ "aggr_free_q v"] exI [of _ "aggr_allocs v"]) simp
  then show ?case using Nil by auto
next
  case (Cons tid tids)
  obtain fr1 v1 c1 t1 where 1: "reset_tid can v i tid = Some (fr1, v1)" "aggr_moved v i c1 t1 v1" "conn_ok c1" "\<not> aggr (rx_tid c1 tid)"
    "\<forall>x. x \<noteq> tid \<longrightarrow> rx_tid c1 x = rx_tid (sta_rx (sta_list v i)) x" "amsdu_skb (t1 tid) = None" "max_aggr_sz (t1 tid) = 0"
    "\<forall>x. x \<noteq> tid \<longrightarrow> t1 x = sta_tx (sta_list v i) x"
    using reset_tid [of v i tid can] Cons.prems by auto
  have s1: "sta_rx (sta_list v1 i) = c1" "sta_tx (sta_list v1 i) = t1" using aggr_moved_sta [OF 1(2)] by simp_all
  obtain fr2 v2 c2 t2 where 2: "reset_tids can v1 i tids = Some (fr2, v2)" "aggr_moved v1 i c2 t2 v2" "conn_ok c2"
    "\<forall>x. x \<in> set tids \<longrightarrow> \<not> aggr (rx_tid c2 x) \<and> amsdu_skb (t2 x) = None \<and> max_aggr_sz (t2 x) = 0"
    "\<forall>x. x \<notin> set tids \<longrightarrow> rx_tid c2 x = rx_tid c1 x \<and> t2 x = t1 x"
    using Cons.IH [of v1] 1(3) Cons.prems(2) s1 by auto
  have "aggr_moved v i c2 t2 v2" using aggr_moved_trans 1(2) 2(2) by blast
  moreover have "reset_tids can v i (tid # tids) = Some (fr1 @ fr2, v2)" using 1(1) 2(1) by simp
  moreover have "\<not> aggr (rx_tid c2 x) \<and> amsdu_skb (t2 x) = None \<and> max_aggr_sz (t2 x) = 0" if "x \<in> set (tid # tids)" for x
    using that 1(4,6,7) 2(4,5) by (cases "x \<in> set tids") auto
  moreover have "rx_tid c2 x = rx_tid (sta_rx (sta_list v i)) x \<and> t2 x = sta_tx (sta_list v i) x" if "x \<notin> set (tid # tids)" for x
    using that 1(5,8) 2(5) by simp
  ultimately show ?case using 2(3) by blast
qed

lemma reset_state:
  assumes "conn_ok (sta_rx (sta_list v i))"
  shows "\<exists>fr v' c t. aggr_reset_state can v i = Some (fr, v') \<and> aggr_moved v i c t v' \<and> conn_ok c
    \<and> (\<forall>x<NUM_OF_TIDS. \<not> aggr (rx_tid c x) \<and> amsdu_skb (t x) = None \<and> max_aggr_sz (t x) = 0)"
proof -
  obtain fr v1 c t where 1: "reset_tids can v i [0..<NUM_OF_TIDS] = Some (fr, v1)" "aggr_moved v i c t v1" "conn_ok c"
    "\<forall>x. x \<in> set [0..<NUM_OF_TIDS] \<longrightarrow> \<not> aggr (rx_tid c x) \<and> amsdu_skb (t x) = None \<and> max_aggr_sz (t x) = 0"
    using reset_tids [OF assms, of "[0..<NUM_OF_TIDS]" can] by fastforce
  define v2 where "v2 = (if nw_type v1 \<noteq> AP_NETWORK then v1\<lparr>aggr_cntxt := (aggr_cntxt v1)\<lparr>tx_amsdu_enable := False\<rparr>\<rparr> else v1)"
  have "aggr_moved v i c t v2" using 1(2) aggr_moved_cntxt [OF 1(2)] by (simp add: v2_def)
  moreover have "aggr_reset_state can v i = Some (fr, v2)" using 1(1) by (simp add: aggr_reset_state_def v2_def)
  ultimately show ?thesis using 1(3,4) by auto
qed

text \<open>
  Storing a station into a slot of a good table gives a good table when the slot, the bit map, the
  statistics and the counter agree on it.
\<close>

lemma table_store:
  assumes v: "table_ok v" and i: "i < AP_MAX_NUM_STA" and s: "sta_ok i s"
    and l: "sta_list v' = (sta_list v)(i := s)" and a: "ap_stats_aid v' = (ap_stats_aid v)(i := sta_aid s)"
    and b: "\<And>j. bit (sta_list_index v') j \<longleftrightarrow> (if j = i then sta_aid s \<noteq> 0 else bit (sta_list_index v) j)"
    and n: "sta_no_ht_num v' = sta_no_ht_num v - no_ht (sta_list v i) + no_ht s"
  shows "table_ok v'"
  unfolding table_ok_def
proof (intro conjI allI impI)
  fix j assume j: "j < AP_MAX_NUM_STA"
  show "sta_ok j (sta_list v' j)" using v j s by (cases "j = i") (simp_all add: l table_ok_def)
  show "ap_stats_aid v' j = sta_aid (sta_list v' j)" using v j by (cases "j = i") (simp_all add: l a table_ok_def)
next
  fix j show "bit (sta_list_index v') j \<longleftrightarrow> j < AP_MAX_NUM_STA \<and> sta_aid (sta_list v' j) \<noteq> 0"
    using v i by (cases "j = i") (simp_all add: l b table_ok_def)
next
  have "(\<Sum>j<AP_MAX_NUM_STA. no_ht (sta_list v' j)) = (\<Sum>j<AP_MAX_NUM_STA. no_ht (sta_list v j)) - no_ht (sta_list v i) + no_ht (sta_list v' i)"
    by (rule sum_update [OF i]) (simp add: l)
  then show "sta_no_ht_num v' = (\<Sum>j<AP_MAX_NUM_STA. no_ht (sta_list v' j))" using v n by (simp add: l table_ok_def)
qed

lemma index_bits:
  fixes w :: u16
  assumes "i < AP_MAX_NUM_STA"
  shows "bit (w OR push_bit i 1) j \<longleftrightarrow> (if j = i then True else bit w j)" "bit (w AND NOT (push_bit i 1)) j \<longleftrightarrow> (if j = i then False else bit w j)"
  using assms by (auto simp: bit_simps AP_MAX_NUM_STA_def dest: bit_imp_le_length)

lemma sta_cleanup:
  assumes v: "table_ok v" and i: "i < AP_MAX_NUM_STA" and used: "sta_aid (sta_list v i) \<noteq> 0"
  shows "\<exists>fr v'. ath6kl_sta_cleanup can v i = Some (fr, v') \<and> table_ok v' \<and> sta_aid (sta_list v' i) = 0
    \<and> (\<forall>j. j \<noteq> i \<longrightarrow> sta_list v' j = sta_list v j) \<and> nw_type v' = nw_type v"
proof -
  define s where "s = sta_list v i"
  have s0: "sta_ok i s" using v i by (simp add: table_ok_def s_def)
  then have s: "sta_ok i s" "sta_aid s = i + 1" using used by (simp_all add: sta_ok_def s_def [symmetric])
  obtain fr1 q1 where q1: "ath6kl_ps_queue_purge (psq_data s) = (fr1, q1)" by fastforce
  obtain fr2 q2 where q2: "ath6kl_ps_queue_purge (psq_mgmt s) = (fr2, q2)" by fastforce
  have pq: "psq_ok q1" "psq_list q1 = []" "psq_ok q2" "psq_list q2 = []"
    using psq_purge [OF _ q1] psq_purge [OF _ q2] s(1) by (simp_all add: sta_ok_def)
  define s1 where "s1 = s\<lparr>psq_age_timer := (if psq_age_active s then None else psq_age_timer s), psq_age_active := False,
                  sta_vif := False, psq_data := q1, psq_mgmt := q2, sta_mac := replicate 6 0,
                  wpa_ie := replicate ATH6KL_MAX_IE 0, sta_aid := 0, sta_flags := 0\<rparr>"
  define v1 where "v1 = v\<lparr>sta_list := (sta_list v)(i := s1), ap_stats_aid := (ap_stats_aid v)(i := 0),
      sta_no_ht_num := (if has_flag (sta_flags s) STA_HT_SUPPORT then sta_no_ht_num v else sta_no_ht_num v - 1)\<rparr>"
  have "conn_ok (sta_rx (sta_list v1 i))" using s(1) by (simp add: v1_def s1_def sta_ok_def)
  then obtain fr3 v2 c t where r: "aggr_reset_state can v1 i = Some (fr3, v2)" "aggr_moved v1 i c t v2" "conn_ok c"
    using reset_state [of v1 i can] by blast
  define v3 where "v3 = v2\<lparr>sta_list_index := sta_list_index v2 AND NOT (push_bit i 1)\<rparr>"
  have e: "ath6kl_sta_cleanup can v i = Some (fr1 @ fr2 @ fr3, v3)"
  proof -
    have a: "\<not> sta_aid s = 0" "sta_aid s - 1 = i" using s(2) by simp_all
    have u: "upd_sta v i (\<lambda>s. s\<lparr>psq_age_timer := (if psq_age_active s then None else psq_age_timer s), psq_age_active := False,
                  sta_vif := False, psq_data := q1, psq_mgmt := q2, sta_mac := replicate 6 0,
                  wpa_ie := replicate ATH6KL_MAX_IE 0, sta_aid := 0, sta_flags := 0\<rparr>) = v\<lparr>sta_list := (sta_list v)(i := s1)\<rparr>"
      unfolding upd_sta_def s1_def s_def by (rule refl)
    have w: "v\<lparr>sta_list := (sta_list v)(i := s1), ap_stats_aid := (if sta_aid s = 0 then ap_stats_aid v else (ap_stats_aid v)(sta_aid s - 1 := 0)),
        sta_no_ht_num := (if has_flag (sta_flags s) STA_HT_SUPPORT then sta_no_ht_num v else sta_no_ht_num v - 1)\<rparr> = v1"
      unfolding v1_def a(2) if_not_P [OF a(1)] by (rule refl)
    show ?thesis unfolding ath6kl_sta_cleanup_def s_def [symmetric] Let_def q1 q2 prod.case u w r(1) option.case v3_def by (rule refl)
  qed
  define s3 where "s3 = s1\<lparr>sta_rx := c, sta_tx := t\<rparr>"
  note same = aggr_moved_same [OF r(2)]
  have l: "sta_list v3 = (sta_list v)(i := s3)" using aggr_moved_sta [OF r(2)] by (simp add: v3_def v1_def s3_def)
  have ok: "sta_ok i s3" using s pq r(3) by (simp add: sta_ok_def s3_def s1_def is_zero_ether_addr_def)
  have "table_ok v3"
  proof (rule table_store [OF v i ok l])
    show "ap_stats_aid v3 = (ap_stats_aid v)(i := sta_aid s3)" using same by (simp add: v3_def v1_def s3_def s1_def)
    show "bit (sta_list_index v3) j \<longleftrightarrow> (if j = i then sta_aid s3 \<noteq> 0 else bit (sta_list_index v) j)" for j
      using same index_bits(2) [OF i] by (simp add: v3_def v1_def s3_def s1_def)
    show "sta_no_ht_num v3 = sta_no_ht_num v - no_ht (sta_list v i) + no_ht s3"
      using same s(2) by (simp add: v3_def v1_def s3_def s1_def no_ht_def s_def [symmetric])
  qed
  moreover have "sta_aid (sta_list v3 i) = 0" "\<forall>j. j \<noteq> i \<longrightarrow> sta_list v3 j = sta_list v j" by (simp_all add: l s3_def s1_def)
  moreover have "nw_type v3 = nw_type v" using same by (simp add: v3_def v1_def)
  ultimately show ?thesis using e by blast
qed

lemma add_new_sta:
  assumes v: "table_ok v" and i: "aid = i + 1" "i < AP_MAX_NUM_STA" and free: "sta_aid (sta_list v i) = 0"
    and mac: "length mac = 6" "\<not> is_zero_ether_addr mac" and ie: "ielen \<le> length wpaie" "ielen \<le> ATH6KL_MAX_IE"
  shows "\<exists>fr v'. ath6kl_add_new_sta can v mac aid wpaie ielen km uc au ap ht ph = Some (fr, v') \<and> table_ok v'
    \<and> sta_aid (sta_list v' i) = aid \<and> sta_mac (sta_list v' i) = mac \<and> has_flag (sta_flags (sta_list v' i)) STA_HT_SUPPORT = ht
    \<and> (\<forall>j. j \<noteq> i \<longrightarrow> sta_list v' j = sta_list v j) \<and> nw_type v' = nw_type v"
proof -
  define s where "s = sta_list v i"
  have s: "sta_ok i s" "sta_aid s = 0" using v i(2) free by (auto simp: table_ok_def s_def)
  define s1 where "s1 = s\<lparr>sta_mac := mac, wpa_ie := take ielen wpaie @ drop ielen (wpa_ie s), sta_aid := aid,
                   sta_keymgmt := km, sta_ucipher := uc, sta_auth := au, apsd_info := ap, sta_phymode := ph,
                   sta_vif := True, psq_age_timer := (if psq_age_active s then psq_age_timer s else None), psq_age_active := True\<rparr>"
  define v1 where "v1 = v\<lparr>sta_list := (sta_list v)(i := s1)\<rparr>"
  have "conn_ok (sta_rx (sta_list v1 i))" using s(1) by (simp add: v1_def s1_def sta_ok_def)
  then obtain fr v2 c t where r: "aggr_reset_state can v1 i = Some (fr, v2)" "aggr_moved v1 i c t v2" "conn_ok c"
    using reset_state [of v1 i can] by blast
  define s3 where "s3 = s1\<lparr>sta_rx := c, sta_tx := t, last_txrx_time_tgt := 0, last_txrx_time := 0,
     sta_flags := (if ht then set_flag (sta_flags s) STA_HT_SUPPORT else sta_flags s)\<rparr>"
  note same = aggr_moved_same [OF r(2)]
  define v3 where "v3 = (upd_sta v2 i (\<lambda>s. s\<lparr>last_txrx_time_tgt := 0, last_txrx_time := 0,
                          sta_flags := (if ht then set_flag (sta_flags s) STA_HT_SUPPORT else sta_flags s)\<rparr>))
      \<lparr>sta_list_index := sta_list_index v2 OR push_bit i 1, ap_stats_aid := (ap_stats_aid v2)(i := aid),
       sta_no_ht_num := (if ht then sta_no_ht_num v2 else sta_no_ht_num v2 + 1)\<rparr>"
  have e: "ath6kl_add_new_sta can v mac aid wpaie ielen km uc au ap ht ph = Some (fr, v3)"
  proof -
    have a: "aid - 1 = i" "\<not> (aid > AP_MAX_NUM_STA \<or> aid = 0)" using i by simp_all
    have "upd_sta v i (\<lambda>s. s\<lparr>sta_mac := mac, wpa_ie := take ielen wpaie @ drop ielen (wpa_ie s), sta_aid := aid,
                   sta_keymgmt := km, sta_ucipher := uc, sta_auth := au, apsd_info := ap, sta_phymode := ph,
                   sta_vif := True, psq_age_timer := (if psq_age_active s then psq_age_timer s else None), psq_age_active := True\<rparr>) = v1"
      unfolding upd_sta_def v1_def s1_def s_def by (rule refl)
    then show ?thesis using r(1) a unfolding ath6kl_add_new_sta_def Let_def v3_def by (simp add: upd_sta_def cong: if_cong split del: if_split)
  qed
  have l: "sta_list v3 = (sta_list v)(i := s3)" using aggr_moved_sta [OF r(2)] by (simp add: v3_def v1_def s3_def s1_def upd_sta_def)
  have f: "has_flag (sta_flags s3) STA_HT_SUPPORT = ht"
    using s by (simp add: s3_def sta_ok_def sta_flag_defs)
  have ok: "sta_ok i s3" using s r(3) mac ie i by (simp add: sta_ok_def s3_def s1_def ATH6KL_MAX_IE_def)
  have "table_ok v3"
  proof (rule table_store [OF v i(2) ok l])
    show "ap_stats_aid v3 = (ap_stats_aid v)(i := sta_aid s3)" using same by (simp add: v3_def v1_def s3_def s1_def)
    show "bit (sta_list_index v3) j \<longleftrightarrow> (if j = i then sta_aid s3 \<noteq> 0 else bit (sta_list_index v) j)" for j
      using same index_bits(1) [OF i(2)] i by (simp add: v3_def v1_def s3_def s1_def)
    show "sta_no_ht_num v3 = sta_no_ht_num v - no_ht (sta_list v i) + no_ht s3"
      using same s(2) f i by (simp add: no_ht_def s_def [symmetric]) (simp add: v3_def v1_def s3_def s1_def)
  qed
  moreover have "sta_aid (sta_list v3 i) = aid" "sta_mac (sta_list v3 i) = mac" "\<forall>j. j \<noteq> i \<longrightarrow> sta_list v3 j = sta_list v j"
    "has_flag (sta_flags (sta_list v3 i)) STA_HT_SUPPORT = ht" using f by (simp_all add: l) (simp_all add: s3_def s1_def)
  moreover have "nw_type v3 = nw_type v" using same by (simp add: v3_def v1_def upd_sta_def)
  ultimately show ?thesis using e by blast
qed

lemma sta_ok_free: "sta_ok i s \<Longrightarrow> is_zero_ether_addr (sta_mac s) \<longleftrightarrow> sta_aid s = 0"
  by (simp add: sta_ok_def)

lemma remove_all_ok:
  assumes "table_ok v" and "set is \<subseteq> {..<AP_MAX_NUM_STA}"
  shows "\<exists>b fr v'. remove_all can v is = Some (b, fr, v') \<and> table_ok v' \<and> (\<forall>i\<in>set is. sta_aid (sta_list v' i) = 0)
    \<and> (\<forall>j. j \<notin> set is \<longrightarrow> sta_list v' j = sta_list v j) \<and> (\<forall>j. sta_aid (sta_list v j) = 0 \<longrightarrow> sta_list v' j = sta_list v j)
    \<and> nw_type v' = nw_type v"
  using assms
proof (induction "is" arbitrary: v)
  case Nil
  then show ?case by auto
next
  case (Cons i "is")
  have i: "i < AP_MAX_NUM_STA" and iss: "set is \<subseteq> {..<AP_MAX_NUM_STA}" using Cons.prems by simp_all
  have z: "is_zero_ether_addr (sta_mac (sta_list v i)) \<longleftrightarrow> sta_aid (sta_list v i) = 0"
    by (rule sta_ok_free [where i = i]) (use Cons.prems(1) i in \<open>simp add: table_ok_def\<close>)
  show ?case
  proof (cases "sta_aid (sta_list v i) = 0")
    case True
    obtain b fr v' where r: "remove_all can v is = Some (b, fr, v')" "table_ok v'" "\<forall>i\<in>set is. sta_aid (sta_list v' i) = 0"
      "\<forall>j. j \<notin> set is \<longrightarrow> sta_list v' j = sta_list v j" "\<forall>j. sta_aid (sta_list v j) = 0 \<longrightarrow> sta_list v' j = sta_list v j" "nw_type v' = nw_type v"
      using Cons.IH [OF Cons.prems(1) iss] by blast
    have "remove_all can v (i # is) = Some (b, fr, v')" using r(1) z True by simp
    moreover have "\<forall>k\<in>set (i # is). sta_aid (sta_list v' k) = 0" using r(3,5) True by simp
    ultimately show ?thesis using r(2,4,5,6) by auto
  next
    case False
    obtain fr1 v1 where c: "ath6kl_sta_cleanup can v i = Some (fr1, v1)" "table_ok v1" "sta_aid (sta_list v1 i) = 0"
      "\<forall>j. j \<noteq> i \<longrightarrow> sta_list v1 j = sta_list v j" "nw_type v1 = nw_type v" using sta_cleanup [OF Cons.prems(1) i False] by blast
    obtain b fr v' where r: "remove_all can v1 is = Some (b, fr, v')" "table_ok v'" "\<forall>i\<in>set is. sta_aid (sta_list v' i) = 0"
      "\<forall>j. j \<notin> set is \<longrightarrow> sta_list v' j = sta_list v1 j" "\<forall>j. sta_aid (sta_list v1 j) = 0 \<longrightarrow> sta_list v' j = sta_list v1 j" "nw_type v' = nw_type v1"
      using Cons.IH [OF c(2) iss] by blast
    have "remove_all can v (i # is) = Some (True, fr1 @ fr, v')" using r(1) c(1) z False by simp
    moreover have "\<forall>k\<in>set (i # is). sta_aid (sta_list v' k) = 0" using r(3,5) c(3) by simp
    moreover have "sta_list v' j = sta_list v j" if "j \<notin> set (i # is)" for j using that r(4) c(4) by simp
    moreover have "sta_list v' j = sta_list v j" if "sta_aid (sta_list v j) = 0" for j
    proof -
      have "j \<noteq> i" using that False by auto
      then have "sta_list v1 j = sta_list v j" using c(4) by simp
      then show ?thesis using r(5) that by simp
    qed
    moreover have "nw_type v' = nw_type v" using r(6) c(5) by simp
    ultimately show ?thesis using r(2) by (intro exI [of _ True] exI [of _ "fr1 @ fr"] exI [of _ v'] conjI allI impI) blast+
  qed
qed

text \<open>Removal by address; the broadcast address stands for all stations, the zero address for none.\<close>

lemma remove_sta:
  assumes v: "table_ok v"
  shows "\<exists>b fr v'. ath6kl_remove_sta can v mac = Some (b, fr, v') \<and> table_ok v' \<and> nw_type v' = nw_type v
    \<and> (is_broadcast_ether_addr mac \<longrightarrow> (\<forall>i<AP_MAX_NUM_STA. sta_aid (sta_list v' i) = 0))
    \<and> (\<not> is_broadcast_ether_addr mac \<longrightarrow> (\<forall>j. sta_mac (sta_list v j) \<noteq> mac \<longrightarrow> sta_list v' j = sta_list v j))
    \<and> (\<not> is_broadcast_ether_addr mac \<and> \<not> is_zero_ether_addr mac \<longrightarrow>
        (case first_slot (\<lambda>i. sta_mac (sta_list v i) = mac) [0..<AP_MAX_NUM_STA] of None \<Rightarrow> \<not> b \<and> v' = v
         | Some i \<Rightarrow> b \<and> sta_aid (sta_list v' i) = 0))"
proof -
  consider (none) "is_zero_ether_addr mac" | (all) "is_broadcast_ether_addr mac" "\<not> is_zero_ether_addr mac"
    | (one) "\<not> is_broadcast_ether_addr mac" "\<not> is_zero_ether_addr mac" by blast
  then show ?thesis
  proof cases
    case none
    then have "\<not> is_broadcast_ether_addr mac" by (auto simp: is_zero_ether_addr_def is_broadcast_ether_addr_def)
    then show ?thesis using none v by (auto simp: ath6kl_remove_sta_def)
  next
    case all
    obtain b fr v' where "remove_all can v [0..<AP_MAX_NUM_STA] = Some (b, fr, v')" "table_ok v'" "\<forall>i\<in>set [0..<AP_MAX_NUM_STA]. sta_aid (sta_list v' i) = 0"
      "nw_type v' = nw_type v"
      using remove_all_ok [OF v, of "[0..<AP_MAX_NUM_STA]" can] by fastforce
    then show ?thesis using all by (simp add: ath6kl_remove_sta_def)
  next
    case one
    show ?thesis
    proof (cases "first_slot (\<lambda>i. sta_mac (sta_list v i) = mac) [0..<AP_MAX_NUM_STA]")
      case None
      then show ?thesis using one v by (auto simp: ath6kl_remove_sta_def)
    next
      case (Some i)
      then have i: "i < AP_MAX_NUM_STA" "sta_mac (sta_list v i) = mac" using first_slot_Some [OF Some] by simp_all
      have "sta_ok i (sta_list v i)" using v i(1) by (simp add: table_ok_def)
      then have "sta_aid (sta_list v i) \<noteq> 0" using sta_ok_free one(2) i(2) by blast
      then obtain fr v' where c: "ath6kl_sta_cleanup can v i = Some (fr, v')" "table_ok v'" "sta_aid (sta_list v' i) = 0"
        "\<forall>j. j \<noteq> i \<longrightarrow> sta_list v' j = sta_list v j" "nw_type v' = nw_type v" using sta_cleanup [OF v i(1)] by blast
      have "ath6kl_remove_sta can v mac = Some (True, fr, v')" using one Some c(1) by (simp add: ath6kl_remove_sta_def)
      then show ?thesis using one Some c(2-5) i(2) by auto
    qed
  qed
qed

section \<open>Which element is kept\<close>

lemma ie_walk_bytes:
  assumes "ie_walk bs wpa ht = (w, h)" and "\<And>p. wpa = Some p \<Longrightarrow> 2 + unat (p ! 1) \<le> length p"
  shows "\<forall>p. w = Some p \<longrightarrow> 2 + unat (p ! 1) \<le> length p"
  using assms
proof (induction bs wpa ht arbitrary: w h rule: ie_walk.induct)
  case (1 t l rest wpa ht)
  show ?case
  proof (cases "unat l > length rest")
    case True
    then show ?thesis using "1.prems" by (simp add: Let_def)
  next
    case False
    then have p: "2 + unat ((t # l # rest) ! 1) \<le> length (t # l # rest)" by simp
    show ?thesis
      using "1.prems" "1.IH" False p by (simp add: Let_def split: if_split_asm) (blast | force)+
  qed
qed auto

section \<open>Every reachable table is well formed\<close>

definition blank_sta :: ath6kl_sta where
  "blank_sta = \<lparr>sta_flags = 0, sta_mac = replicate 6 0, sta_aid = 0, sta_keymgmt = 0, sta_ucipher = 0, sta_auth = 0,
     wpa_ie = replicate ATH6KL_MAX_IE 0, sta_phymode = 0, sta_vif = False,
     psq_data = \<lparr>psq_list = [], psq_type = PS_QUEUE_TYPE_NONE, psq_depth = 0, psq_age_cycle = 0, psq_max_depth = 0,
       psq_enqueued = 0, psq_enqueued_err = 0, psq_dequeued = 0, psq_aged = 0\<rparr>,
     psq_mgmt = \<lparr>psq_list = [], psq_type = PS_QUEUE_TYPE_NONE, psq_depth = 0, psq_age_cycle = 0, psq_max_depth = 0,
       psq_enqueued = 0, psq_enqueued_err = 0, psq_dequeued = 0, psq_aged = 0\<rparr>,
     psq_age_timer = None, psq_age_active = False, apsd_info = 0, sta_rx = fst aggr_init_conn, sta_tx = snd aggr_init_conn,
     last_txrx_time_tgt = 0, last_txrx_time = 0\<rparr>"

text \<open>
  The part of \<open>ath6kl_init_control_info\<close> that sets up the stations and the power-save queues; the
  connections of \<open>aggr_init_conn\<close> follow when the interface is opened.
\<close>

definition init_stations :: "ath6kl_vif \<Rightarrow> ath6kl_vif" where
  "init_stations v = v\<lparr>
     sta_list := (\<lambda>_. blank_sta\<lparr>
       psq_data := ath6kl_ps_queue_init (psq_data blank_sta) PS_QUEUE_TYPE_STA_UNICAST ATH6KL_PS_QUEUE_MAX_AGE ATH6KL_PS_QUEUE_MAX_DEPTH,
       psq_mgmt := ath6kl_ps_queue_init (psq_mgmt blank_sta) PS_QUEUE_TYPE_STA_MGMT ATH6KL_PS_QUEUE_MAX_AGE ATH6KL_PS_QUEUE_NO_DEPTH\<rparr>),
     psq_mcast := ath6kl_ps_queue_init (psq_mcast v) PS_QUEUE_TYPE_AP_MULTICAST ATH6KL_PS_QUEUE_NO_AGE ATH6KL_PS_QUEUE_NO_DEPTH\<rparr>"

datatype sta_op =
  Join nat "u8 list" u8 u8 u8 "u8 list" u8 u8
| Leave "u8 list"
| AddbaReq nat nat nat bool
| AddbaResp nat nat nat
| Delba nat nat

definition sta_run :: "(nat \<Rightarrow> bool) \<Rightarrow> sta_op \<Rightarrow> ath6kl_vif \<Rightarrow> ath6kl_vif option" where
  "sta_run can p v =
     (case p of
        Join aid mac km uc au req apsd ph \<Rightarrow> map_option snd (ath6kl_connect_ap_mode_sta can v aid mac km uc au req apsd ph)
      | Leave mac \<Rightarrow> map_option (\<lambda>(b, fr, v'). v') (ath6kl_remove_sta can v mac)
      | AddbaReq tid seq_no winsz kz \<Rightarrow> sta_recv_addba_req_evt can kz v tid seq_no winsz
      | AddbaResp tid sz st \<Rightarrow> Some (snd (aggr_recv_addba_resp_evt v tid sz st))
      | Delba tid initiator \<Rightarrow> map_option snd (aggr_recv_delba_req_evt can v tid initiator))"

text \<open>
  What the target is relied on for: it gives an identifier in range to a station that has none, with
  a proper address, and asks for windows whose double divides the sequence space; a DELBA is for one
  of the identifiers.
\<close>

definition sta_allowed :: "sta_op \<Rightarrow> ath6kl_vif \<Rightarrow> bool" where
  "sta_allowed p v =
     (case p of
        Join aid mac km uc au req apsd ph \<Rightarrow> aid \<noteq> 0 \<and> aid \<le> AP_MAX_NUM_STA \<and> sta_aid (sta_list v (aid - 1)) = 0
          \<and> length mac = 6 \<and> \<not> is_zero_ether_addr mac
      | AddbaReq tid seq_no winsz kz \<Rightarrow> seq_no < 4096 \<and> 0 < winsz \<and> winsz \<le> 64 \<and> 2 * winsz dvd 4096
      | Delba tid initiator \<Rightarrow> tid mod 16 < NUM_OF_TIDS
      | _ \<Rightarrow> True)"

inductive sta_reach :: "(nat \<Rightarrow> bool) \<Rightarrow> ath6kl_vif \<Rightarrow> bool" for can where
  sta_init: "sta_list_index v = 0 \<Longrightarrow> sta_no_ht_num v = 0 \<Longrightarrow> (\<And>i. ap_stats_aid v i = 0) \<Longrightarrow> sta_reach can (init_stations v)"
| sta_step: "sta_reach can v \<Longrightarrow> sta_allowed p v \<Longrightarrow> sta_run can p v = Some v' \<Longrightarrow> sta_reach can v'"

lemma table_conn:
  assumes v: "table_ok v" and i: "i < AP_MAX_NUM_STA" and c: "conn_ok c" and m: "aggr_moved v i c t v'"
  shows "table_ok v'"
proof (rule table_store [OF v i _ aggr_moved_sta [OF m]])
  have s: "sta_ok i (sta_list v i)" and st: "ap_stats_aid v i = sta_aid (sta_list v i)" using v i by (simp_all add: table_ok_def)
  show "sta_ok i ((sta_list v i)\<lparr>sta_rx := c, sta_tx := t\<rparr>)" using s c by (simp add: sta_ok_def)
  note same = aggr_moved_same [OF m]
  show "ap_stats_aid v' = (ap_stats_aid v)(i := sta_aid ((sta_list v i)\<lparr>sta_rx := c, sta_tx := t\<rparr>))" using same st by (simp add: fun_eq_iff)
  show "bit (sta_list_index v') j = (if j = i then sta_aid ((sta_list v i)\<lparr>sta_rx := c, sta_tx := t\<rparr>) \<noteq> 0 else bit (sta_list_index v) j)" for j
    using same v i by (simp add: table_ok_def)
  show "sta_no_ht_num v' = sta_no_ht_num v - no_ht (sta_list v i) + no_ht ((sta_list v i)\<lparr>sta_rx := c, sta_tx := t\<rparr>)"
    using same by (simp add: no_ht_def)
qed

lemma on_conn_moved:
  assumes "f ((sta_rx (sta_list v i))\<lparr>free_q := aggr_free_q v, n_alloc := aggr_allocs v\<rparr>) = Some c"
  shows "\<exists>v'. on_conn v i f = Some v' \<and> aggr_moved v i c (sta_tx (sta_list v i)) v'"
proof -
  have "aggr_moved v i c (sta_tx (sta_list v i)) ((upd_sta v i (\<lambda>s. s\<lparr>sta_rx := c\<rparr>))\<lparr>aggr_free_q := free_q c, aggr_allocs := n_alloc c\<rparr>)"
    unfolding aggr_moved_def by (intro exI [of _ "aggr_cntxt v"] exI [of _ "free_q c"] exI [of _ "n_alloc c"]) (simp add: upd_sta_def)
  then show ?thesis using assms by (simp add: on_conn_def)
qed

lemma find_aid_bound: "ath6kl_find_sta_by_aid v a = Some i \<Longrightarrow> i < AP_MAX_NUM_STA"
  by (auto simp: ath6kl_find_sta_by_aid_def AP_MAX_NUM_STA_def dest!: first_slot_Some split: if_split_asm)

lemma conn_ok_borrow [simp]: "conn_ok (c\<lparr>free_q := n, n_alloc := k\<rparr>) = conn_ok c"
  by (simp add: conn_ok_def)

lemma init_conn_ok: "conn_ok (fst aggr_init_conn)"
  by (simp add: conn_ok_def aggr_init_conn_def blank_rxtid_def)

lemma init_table_ok:
  assumes "sta_list_index v = 0" and "sta_no_ht_num v = 0" and "\<And>i. ap_stats_aid v i = 0"
  shows "table_ok (init_stations v)"
  using assms init_conn_ok psq_init_ok
  by (simp add: table_ok_def init_stations_def sta_ok_def blank_sta_def no_ht_def is_zero_ether_addr_def ath6kl_ps_queue_init_def psq_ok_def)

lemma addba_conn_ok:
  assumes c: "conn_ok c" and "tid < NUM_OF_TIDS" and "seq_no < 4096" and "0 < winsz" and "winsz \<le> 64" and "2 * winsz dvd 4096"
  shows "\<exists>c'. addba_setup can kz c tid seq_no winsz = Some c' \<and> conn_ok c'"
proof -
  have p: "aggr (rx_tid c tid) \<longrightarrow> rx_inv (rx_tid c tid)" "\<not> aggr (rx_tid c tid) \<longrightarrow> rxq (rx_tid c tid) = []"
    "tid_timer_scheduled (rx_tid c tid) \<longrightarrow> tid_timer (rx_tid c tid) \<noteq> None" using c assms(2) by (auto simp: conn_ok_def)
  obtain c' where a: "addba_setup can kz c tid seq_no winsz = Some c'" "\<forall>x. x \<noteq> tid \<longrightarrow> rx_tid c' x = rx_tid c x"
    "let r' = rx_tid c' tid in (if kz then aggr r' \<and> rx_inv r' \<and> empty_win r' \<and> hold_q_sz r' = 2 * winsz \<and> seq_next r' = seq_no \<and> sync_next_seq r'
       else \<not> aggr r' \<and> hold_q r' = []) \<and> rxq r' = [] \<and> (tid_timer_scheduled r' \<longrightarrow> tid_timer r' \<noteq> None)"
    using addba_setup_run [OF assms(2-6) p, of can kz] by blast
  have "conn_ok c'"
    unfolding conn_ok_def
  proof (intro allI impI)
    fix x assume x: "x < NUM_OF_TIDS"
    show "(aggr (rx_tid c' x) \<longrightarrow> rx_inv (rx_tid c' x)) \<and> (\<not> aggr (rx_tid c' x) \<longrightarrow> rxq (rx_tid c' x) = [])
      \<and> (tid_timer_scheduled (rx_tid c' x) \<longrightarrow> tid_timer (rx_tid c' x) \<noteq> None)"
    proof (cases "x = tid")
      case True then show ?thesis using a(3) by (simp add: Let_def split: if_split_asm)
    next
      case False then show ?thesis using a(2) c x by (simp add: conn_ok_def)
    qed
  qed
  then show ?thesis using a(1) by blast
qed

lemma connect_ok:
  assumes "table_ok v" and "sta_allowed (Join aid mac km uc au req apsd ph) v"
  shows "\<exists>fr v'. ath6kl_connect_ap_mode_sta can v aid mac km uc au req apsd ph = Some (fr, v') \<and> table_ok v'
    \<and> sta_aid (sta_list v' (aid - 1)) = aid \<and> sta_mac (sta_list v' (aid - 1)) = mac
    \<and> has_flag (sta_flags (sta_list v' (aid - 1))) STA_HT_SUPPORT = snd (ie_walk (assoc_ies req) None False)
    \<and> (\<forall>j. j \<noteq> aid - 1 \<longrightarrow> sta_list v' j = sta_list v j)"
proof -
  obtain w h where w: "ie_walk (assoc_ies req) None False = (w, h)" by fastforce
  define bs where "bs = (case w of None \<Rightarrow> [] | Some p \<Rightarrow> p)"
  define n where "n = (case w of None \<Rightarrow> 0 | Some p \<Rightarrow> (2 + unat (p ! 1)) mod 256)"
  have "\<forall>p. w = Some p \<longrightarrow> 2 + unat (p ! 1) \<le> length p" by (rule ie_walk_bytes [OF w]) simp
  then have n: "n \<le> length bs" "n \<le> ATH6KL_MAX_IE"
    by (auto simp: n_def bs_def ATH6KL_MAX_IE_def split: option.splits intro: order_trans [OF mod_less_eq_dividend])
  have g: "aid = (aid - 1) + 1" "aid - 1 < AP_MAX_NUM_STA" "sta_aid (sta_list v (aid - 1)) = 0" "length mac = 6" "\<not> is_zero_ether_addr mac"
    using assms(2) by (auto simp: sta_allowed_def)
  have "ath6kl_connect_ap_mode_sta can v aid mac km uc au req apsd ph = ath6kl_add_new_sta can v mac aid bs n km uc au apsd h ph"
    by (simp add: ath6kl_connect_ap_mode_sta_def w bs_def n_def)
  then show ?thesis using add_new_sta [OF assms(1) g n, of can km uc au apsd h ph] w by auto
qed

lemma delba_ok:
  assumes v: "table_ok v" and t: "tid mod 16 < NUM_OF_TIDS"
  shows "\<exists>fr v'. aggr_recv_delba_req_evt can v tid initiator = Some (fr, v') \<and> table_ok v'"
proof (cases "ath6kl_find_sta_by_aid v (AGGR_BA_EVT_GET_CONNID tid)")
  case None
  then show ?thesis using v by (simp add: aggr_recv_delba_req_evt_def Let_def)
next
  case (Some i)
  define k where "k = AGGR_BA_EVT_GET_TID tid"
  have k: "k < NUM_OF_TIDS" using t by (simp add: k_def AGGR_BA_EVT_GET_TID_def)
  have i: "i < AP_MAX_NUM_STA" by (rule find_aid_bound [OF Some])
  have c: "conn_ok (sta_rx (sta_list v i))" using v i by (simp add: table_ok_def sta_ok_def)
  show ?thesis
  proof (cases "initiator = 1")
    case True
    obtain fr a t where d: "aggr_tx_delete_tid_state (aggr_cntxt v) (sta_tx (sta_list v i) k) = (fr, a, t)" by (metis prod_cases3)
    define v' where "v' = (upd_sta v i (\<lambda>s. s\<lparr>sta_tx := (sta_tx s)(k := t)\<rparr>))\<lparr>aggr_cntxt := a\<rparr>"
    have "aggr_moved v i (sta_rx (sta_list v i)) ((sta_tx (sta_list v i))(k := t)) v'"
      unfolding aggr_moved_def v'_def by (intro exI [of _ a] exI [of _ "aggr_free_q v"] exI [of _ "aggr_allocs v"]) (simp add: upd_sta_def)
    then have "table_ok v'" by (rule table_conn [OF v i c])
    moreover have "aggr_recv_delba_req_evt can v tid initiator = Some (fr, v')"
      using Some k d True by (simp add: aggr_recv_delba_req_evt_def Let_def k_def [symmetric] v'_def)
    ultimately show ?thesis by blast
  next
    case other: False
    show ?thesis
    proof (cases "aggr (rx_tid (sta_rx (sta_list v i)) k)")
      case True
      obtain c' where "aggr_delete_tid_state can ((sta_rx (sta_list v i))\<lparr>free_q := aggr_free_q v, n_alloc := aggr_allocs v\<rparr>) k = Some c'" "conn_ok c'"
        using delete_tid_conn_ok [OF _ k, of "(sta_rx (sta_list v i))\<lparr>free_q := aggr_free_q v, n_alloc := aggr_allocs v\<rparr>" can] c by auto
      then obtain v' where "on_conn v i (\<lambda>c. aggr_delete_tid_state can c k) = Some v'" "table_ok v'"
        using on_conn_moved [of "\<lambda>c. aggr_delete_tid_state can c k" v i c'] table_conn [OF v i] by blast
      then show ?thesis using Some k other True by (simp add: aggr_recv_delba_req_evt_def Let_def k_def [symmetric])
    next
      case False
      then show ?thesis using Some k other v by (simp add: aggr_recv_delba_req_evt_def Let_def k_def [symmetric])
    qed
  qed
qed

lemma addba_resp_ok:
  assumes v: "table_ok v"
  shows "table_ok (snd (aggr_recv_addba_resp_evt v tid sz st))"
proof (cases "AGGR_BA_EVT_GET_TID tid \<ge> NUM_OF_TIDS \<or> ath6kl_find_sta_by_aid v (AGGR_BA_EVT_GET_CONNID tid) = None")
  case True
  then show ?thesis using v by (auto simp: aggr_recv_addba_resp_evt_def Let_def)
next
  case False
  define k where "k = AGGR_BA_EVT_GET_TID tid"
  obtain i where i0: "ath6kl_find_sta_by_aid v (AGGR_BA_EVT_GET_CONNID tid) = Some i" using False by blast
  have i: "i < AP_MAX_NUM_STA" by (rule find_aid_bound [OF i0])
  have c: "conn_ok (sta_rx (sta_list v i))" using v i by (simp add: table_ok_def sta_ok_def)
  define t where "t = (sta_tx (sta_list v i) k)\<lparr>tx_aid := AGGR_BA_EVT_GET_CONNID tid, max_aggr_sz := (if st = 0 then sz else 0)\<rparr>"
  obtain fr t1 where t1: "(if max_aggr_sz t = 0 then aggr_tx_reset_aggr t True True else ([], t)) = (fr, t1)" by fastforce
  define v1 where "v1 = upd_sta v i (\<lambda>s. s\<lparr>sta_tx := (sta_tx s)(k := t1)\<rparr>)"
  have m: "aggr_moved v i (sta_rx (sta_list v i)) ((sta_tx (sta_list v i))(k := t1)) v1"
    unfolding aggr_moved_def v1_def by (intro exI [of _ "aggr_cntxt v"] exI [of _ "aggr_free_q v"] exI [of _ "aggr_allocs v"]) (simp add: upd_sta_def)
  have e: "snd (aggr_recv_addba_resp_evt v tid sz st) = (if nw_type v1 \<noteq> AP_NETWORK
                  then v1\<lparr>aggr_cntxt := (aggr_cntxt v1)\<lparr>tx_amsdu_enable := list_ex (\<lambda>k. max_aggr_sz (sta_tx (sta_list v1 i) k) \<noteq> 0) [0..<NUM_OF_TIDS]\<rparr>\<rparr>
                  else v1)"
    using False i0 t1 by (simp add: aggr_recv_addba_resp_evt_def Let_def k_def [symmetric] t_def [symmetric] v1_def)
  show ?thesis unfolding e using table_conn [OF v i c m] table_conn [OF v i c aggr_moved_cntxt [OF m]] by simp
qed

lemma sta_run_ok:
  assumes v: "table_ok v" and a: "sta_allowed p v"
  shows "\<exists>v'. sta_run can p v = Some v' \<and> table_ok v'"
proof (cases p)
  case (Join aid mac km uc au req apsd ph)
  then show ?thesis using connect_ok [OF v, of aid mac km uc au req apsd ph can] a by (auto simp: sta_run_def)
next
  case (Leave mac)
  then show ?thesis using remove_sta [OF v, of can mac] by (auto simp: sta_run_def)
next
  case (AddbaReq tid seq_no winsz kz)
  define k where "k = AGGR_BA_EVT_GET_TID tid"
  show ?thesis
  proof (cases "k \<ge> NUM_OF_TIDS \<or> ath6kl_find_sta_by_aid v (AGGR_BA_EVT_GET_CONNID tid) = None")
    case True
    then show ?thesis using v AddbaReq by (auto simp: sta_run_def sta_recv_addba_req_evt_def Let_def k_def)
  next
    case False
    then obtain i where i0: "ath6kl_find_sta_by_aid v (AGGR_BA_EVT_GET_CONNID tid) = Some i" by blast
    have i: "i < AP_MAX_NUM_STA" by (rule find_aid_bound [OF i0])
    have c: "conn_ok (sta_rx (sta_list v i))" using v i by (simp add: table_ok_def sta_ok_def)
    have "k < NUM_OF_TIDS" "seq_no < 4096" "0 < winsz" "winsz \<le> 64" "2 * winsz dvd 4096" using False a AddbaReq by (auto simp: sta_allowed_def)
    then obtain c' where "addba_setup can kz ((sta_rx (sta_list v i))\<lparr>free_q := aggr_free_q v, n_alloc := aggr_allocs v\<rparr>) k seq_no winsz = Some c'" "conn_ok c'"
      using addba_conn_ok [of "(sta_rx (sta_list v i))\<lparr>free_q := aggr_free_q v, n_alloc := aggr_allocs v\<rparr>" k seq_no winsz can kz] c by auto
    then obtain v' where "on_conn v i (\<lambda>c. addba_setup can kz c k seq_no winsz) = Some v'" "table_ok v'"
      using on_conn_moved [of "\<lambda>c. addba_setup can kz c k seq_no winsz" v i c'] table_conn [OF v i] by blast
    then show ?thesis using False i0 AddbaReq by (simp add: sta_run_def sta_recv_addba_req_evt_def Let_def k_def [symmetric])
  qed
next
  case (AddbaResp tid sz st)
  then show ?thesis using addba_resp_ok [OF v] by (simp add: sta_run_def)
next
  case (Delba tid initiator)
  then show ?thesis using delba_ok [OF v, of tid can initiator] a by (auto simp: sta_run_def sta_allowed_def)
qed

lemma find_aid_ok:
  assumes v: "table_ok v" and ap: "nw_type v = AP_NETWORK" and a: "0 < a"
  shows "ath6kl_find_sta_by_aid v a = (if a \<le> AP_MAX_NUM_STA \<and> sta_aid (sta_list v (a - 1)) = a then Some (a - 1) else None)"
proof -
  have s: "sta_aid (sta_list v j) = a \<Longrightarrow> j = a - 1" if "j < AP_MAX_NUM_STA" for j
  proof -
    have "sta_ok j (sta_list v j)" using v that by (simp add: table_ok_def)
    then have "sta_aid (sta_list v j) = 0 \<or> sta_aid (sta_list v j) = j + 1" by (simp add: sta_ok_def)
    then show "sta_aid (sta_list v j) = a \<Longrightarrow> j = a - 1" using a by auto
  qed
  show ?thesis
  proof (cases "a \<le> AP_MAX_NUM_STA \<and> sta_aid (sta_list v (a - 1)) = a")
    case True
    then have "first_slot (\<lambda>i. sta_aid (sta_list v i) = a) [0..<AP_MAX_NUM_STA] = Some (a - 1)"
      using a s by (intro first_slot_unique) auto
    then show ?thesis using ap True by (simp add: ath6kl_find_sta_by_aid_def)
  next
    case False
    have "sta_aid (sta_list v j) \<noteq> a" if j: "j < AP_MAX_NUM_STA" for j
    proof
      assume e: "sta_aid (sta_list v j) = a"
      then have "j = a - 1" using s j by blast
      then show False using False j a e by auto
    qed
    then have "first_slot (\<lambda>i. sta_aid (sta_list v i) = a) [0..<AP_MAX_NUM_STA] = None" by (simp add: first_slot_None)
    then show ?thesis using ap False by (simp add: ath6kl_find_sta_by_aid_def)
  qed
qed

interpretation sta_machine: step_relation "\<lambda>v v'. \<exists>p. sta_allowed p v \<and> sta_run can p v = Some v'" table_ok for can
proof unfold_locales
  show "table_ok v'" if "\<exists>p. sta_allowed p v \<and> sta_run can p v = Some v'" "table_ok v" for v v'
    using that sta_run_ok [of v _ can] by fastforce
qed

text \<open>
  Property C12.  The station table is well formed.  In every state an interface reaches from its
  initialisation through stations joining and leaving and block ack agreements set up and torn down,
  slot \<open>i\<close> is free or holds the station with identifier \<open>i + 1\<close>, the bit map, the statistics and the
  count of stations without HT say the same as the slots, a free slot has a zero address and no
  frames, timers or flags, and all queues and reordering windows are sound; each operation allowed
  in that state runs to its end; and looking up an identifier finds exactly the slot it belongs to.
\<close>

theorem station_table_type:
  assumes "sta_reach can v"
  shows "table_ok v \<and> (sta_allowed p v \<longrightarrow> (\<exists>v'. sta_run can p v = Some v'))
    \<and> (nw_type v = AP_NETWORK \<and> 0 < a \<longrightarrow>
        ath6kl_find_sta_by_aid v a = (if a \<le> AP_MAX_NUM_STA \<and> sta_aid (sta_list v (a - 1)) = a then Some (a - 1) else None))"
proof -
  have "table_ok v" using assms
  proof induction
    case (sta_init v)
    then show ?case by (rule init_table_ok)
  next
    case (sta_step v p v')
    then show ?case using sta_machine.step_keeps [of v can v'] by blast
  qed
  then show ?thesis using sta_run_ok [of v p can] find_aid_ok [of v a] by blast
qed

definition ex_vif :: ath6kl_vif where
  "ex_vif = \<lparr>fw_vif_idx = 0, nw_type = AP_NETWORK, vif_bssid = replicate 6 2, dev_addr = replicate 6 2, vif_connected = True,
     wmm_enabled = True, dtim_expired = False, amsdu_enabled = True, netq_stopped = False, aggr_cntxt = aggr_init,
     aggr_free_q = 0, aggr_allocs = 0, sta_list = (\<lambda>_. blank_sta), sta_list_index = 0, sta_no_ht_num = 0, ap_stats_aid = (\<lambda>_. 0),
     psq_mcast = psq_data blank_sta, needed_headroom = 0, data_cookie_count = 0, net_tx_dropped = 0, net_tx_aborted = 0,
     net_tx_errors = 0, net_tx_packets = 0, net_tx_bytes = 0, net_rx_packets = 0, net_rx_bytes = 0, net_rx_errors = 0,
     net_rx_length_errors = 0, if_up = True, intra_bss = True\<rparr>"

lemma station_table_type_witness:
  "table_ok (init_stations ex_vif) \<and> ath6kl_find_sta_by_aid (init_stations ex_vif) 3 = None
    \<and> (\<exists>v'. sta_run (\<lambda>_. True) (Join 3 [4, 0, 0, 0, 0, 1] 0 0 0 [] 0 0) (init_stations ex_vif) = Some v')"
proof -
  have r: "sta_reach (\<lambda>_. True) (init_stations ex_vif)" by (rule sta_init) (simp_all add: ex_vif_def)
  have a: "sta_allowed (Join 3 [4, 0, 0, 0, 0, 1] 0 0 0 [] 0 0) (init_stations ex_vif)"
    by (simp add: sta_allowed_def AP_MAX_NUM_STA_def init_stations_def blank_sta_def is_zero_ether_addr_def numeral_eq_Suc)
  have n: "nw_type (init_stations ex_vif) = AP_NETWORK" "sta_aid (sta_list (init_stations ex_vif) (3 - 1)) = 0"
    by (simp_all add: init_stations_def ex_vif_def blank_sta_def)
  show ?thesis using station_table_type [OF r, of "Join 3 [4, 0, 0, 0, 0, 1] 0 0 0 [] 0 0" 3] a n by simp
qed

text \<open>
  What goes wrong without the target's help: a station that joins a slot in use is counted again,
  and the identifier 0 finds a free slot.
\<close>

lemma rejoin_counted_twice:
  assumes v: "table_ok v" and i: "aid = i + 1" "i < AP_MAX_NUM_STA" and used: "sta_aid (sta_list v i) = aid"
  shows "\<exists>fr v'. ath6kl_add_new_sta can v mac aid [] 0 km uc au ap False ph = Some (fr, v') \<and> sta_no_ht_num v' = sta_no_ht_num v + 1
    \<and> (\<forall>j. sta_aid (sta_list v' j) = sta_aid (sta_list v j))"
proof -
  define v1 where "v1 = upd_sta v i (\<lambda>s. s\<lparr>sta_mac := mac, wpa_ie := take 0 [] @ drop 0 (wpa_ie s), sta_aid := aid,
                   sta_keymgmt := km, sta_ucipher := uc, sta_auth := au, apsd_info := ap, sta_phymode := ph,
                   sta_vif := True, psq_age_timer := (if psq_age_active s then psq_age_timer s else None), psq_age_active := True\<rparr>)"
  have "conn_ok (sta_rx (sta_list v1 i))" using v i by (simp add: v1_def upd_sta_def table_ok_def sta_ok_def)
  then obtain fr v2 c t where r: "aggr_reset_state can v1 i = Some (fr, v2)" "aggr_moved v1 i c t v2"
    using reset_state [of v1 i can] by blast
  have "sta_aid (sta_list v1 j) = sta_aid (sta_list v j)" for j using used by (simp add: v1_def upd_sta_def)
  then show ?thesis using r(1) i used aggr_moved_sta [OF r(2)] aggr_moved_same [OF r(2)]
    unfolding ath6kl_add_new_sta_def by (simp add: Let_def v1_def [symmetric]) (simp add: upd_sta_def v1_def)
qed

lemma aid_zero_finds_free_slot:
  assumes v: "table_ok v" and ap: "nw_type v = AP_NETWORK" and free: "sta_aid (sta_list v i) = 0" "i < AP_MAX_NUM_STA"
  shows "\<exists>j. ath6kl_find_sta_by_aid v 0 = Some j \<and> sta_aid (sta_list v j) = 0"
proof (cases "first_slot (\<lambda>i. sta_aid (sta_list v i) = 0) [0..<AP_MAX_NUM_STA]")
  case None
  then have "\<forall>i\<in>set [0..<AP_MAX_NUM_STA]. sta_aid (sta_list v i) \<noteq> 0" unfolding first_slot_None .
  then show ?thesis using free by force
next
  case (Some j)
  then show ?thesis using ap first_slot_Some [OF Some] by (simp add: ath6kl_find_sta_by_aid_def)
qed

end
