(* ===== verification/Cookie.thy ===== *)
theory Cookie
  imports Station HtcTx
begin

text \<open>
  The cookies of drivers/ath6kl/main.c: every packet given to HTC carries one, taken from the pool for
  data or the pool for control messages (\<open>ath6kl_cookie_pool_init\<close>, \<open>ath6kl_cookie_pool_cleanup\<close>,
  \<open>ath6kl_cookie_init\<close>, \<open>ath6kl_cookie_cleanup\<close>, \<open>ath6kl_alloc_cookie\<close>, \<open>ath6kl_free_cookie\<close>).

  A cookie is an index into the array of its pool.  The array may be missing or given back, and using
  it then has no result.
\<close>

section \<open>Data\<close>

definition MAX_COOKIE_DATA_NUM :: nat where "MAX_COOKIE_DATA_NUM = MAX_DEF_COOKIE_NUM + MAX_HI_COOKIE_NUM"
definition MAX_COOKIE_CTRL_NUM :: nat where "MAX_COOKIE_CTRL_NUM = 64 + 2"
definition MAX_VIF_COOKIE_NUM :: nat where "MAX_VIF_COOKIE_NUM = 200"

datatype cookie_type = COOKIE_TYPE_NONE | COOKIE_TYPE_DATA | COOKIE_TYPE_CTRL

text \<open>A cookie and the fields of its packet that are set before it is handed over.\<close>

record ath6kl_cookie =
  ck_skb :: "skb option"
  ck_map_no :: nat
  ck_eid :: int
  ck_tag :: nat

datatype mem_state = MemNull | MemFreed | MemValid

record cookie_pool =
  pool_type :: cookie_type
  cookie_num :: nat
  cookie_list :: "nat list"
  cookie_count :: nat
  cookie_mem :: "nat \<Rightarrow> ath6kl_cookie"
  cookie_mem_st :: mem_state
  cookie_alloc_cnt :: u32
  cookie_alloc_fail_cnt :: u32
  cookie_free_cnt :: u32
  cookie_peak_cnt :: nat

definition blank_cookie :: ath6kl_cookie where
  "blank_cookie = \<lparr>ck_skb = None, ck_map_no = 0, ck_eid = 0, ck_tag = 0\<rparr>"

definition zero_pool :: cookie_pool where
  "zero_pool = \<lparr>pool_type = COOKIE_TYPE_NONE, cookie_num = 0, cookie_list = [], cookie_count = 0, cookie_mem = (\<lambda>_. blank_cookie),
     cookie_mem_st = MemNull, cookie_alloc_cnt = 0, cookie_alloc_fail_cnt = 0, cookie_free_cnt = 0, cookie_peak_cnt = 0\<rparr>"

section \<open>Operations\<close>

text \<open>\<open>ath6kl_free_cookie\<close> and \<open>ath6kl_alloc_cookie\<close> on the pool the cookie belongs to.\<close>

definition ath6kl_free_cookie :: "cookie_pool \<Rightarrow> nat \<Rightarrow> cookie_pool" where
  "ath6kl_free_cookie p c =
     p\<lparr>cookie_list := c # cookie_list p, cookie_count := cookie_count p + 1, cookie_free_cnt := cookie_free_cnt p + 1\<rparr>"

definition ath6kl_alloc_cookie :: "cookie_pool \<Rightarrow> nat option \<times> cookie_pool" where
  "ath6kl_alloc_cookie p =
     (case cookie_list p of
        [] \<Rightarrow> (None, p\<lparr>cookie_alloc_fail_cnt := cookie_alloc_fail_cnt p + 1\<rparr>)
      | c # cs \<Rightarrow>
          let p1 = p\<lparr>cookie_list := cs, cookie_count := cookie_count p - 1\<rparr>;
              alloced = cookie_num p1 - cookie_count p1
          in (Some c, p1\<lparr>cookie_alloc_cnt := cookie_alloc_cnt p1 + 1,
                         cookie_peak_cnt := (if alloced > cookie_peak_cnt p1 then alloced else cookie_peak_cnt p1)\<rparr>))"

text \<open>
  \<open>ath6kl_cookie_pool_init\<close>: the loop that gives every cookie a packet and puts it on the free list.
  \<open>can i\<close> says whether the packet of cookie \<open>i\<close> can be allocated, \<open>mem_ok\<close> the array.  When a packet
  cannot be had the array is given back, but the free list still points into it.
\<close>

fun pool_fill :: "(nat \<Rightarrow> bool) \<Rightarrow> cookie_pool \<Rightarrow> nat list \<Rightarrow> bool \<times> cookie_pool" where
  "pool_fill can p [] = (True, p)"
| "pool_fill can p (i # is) = (if can i then pool_fill can (ath6kl_free_cookie p i) is else (False, p))"

definition ath6kl_cookie_pool_init :: "bool \<Rightarrow> (nat \<Rightarrow> bool) \<Rightarrow> cookie_pool \<Rightarrow> cookie_type \<Rightarrow> nat \<Rightarrow> int \<times> cookie_pool" where
  "ath6kl_cookie_pool_init mem_ok can p ty num =
     (let p1 = p\<lparr>cookie_num := num, pool_type := ty, cookie_list := [], cookie_count := 0\<rparr> in
      if \<not> mem_ok then (- ENOMEM, p1\<lparr>cookie_mem_st := MemNull\<rparr>)
      else case pool_fill can (p1\<lparr>cookie_mem := (\<lambda>_. blank_cookie), cookie_mem_st := MemValid\<rparr>) [0..<num] of
        (ok, p2) \<Rightarrow>
          if ok then (0, p2\<lparr>cookie_alloc_cnt := 0, cookie_alloc_fail_cnt := 0, cookie_free_cnt := 0, cookie_peak_cnt := 0\<rparr>)
          else (- ENOMEM, p2\<lparr>cookie_mem_st := MemFreed\<rparr>))"

definition ath6kl_cookie_pool_cleanup :: "cookie_pool \<Rightarrow> cookie_pool option" where
  "ath6kl_cookie_pool_cleanup p =
     (if cookie_num p \<noteq> 0 \<and> cookie_mem_st p \<noteq> MemValid then None
      else Some (p\<lparr>cookie_list := [], cookie_count := 0, cookie_mem_st := MemNull,
                   cookie_alloc_cnt := 0, cookie_alloc_fail_cnt := 0, cookie_free_cnt := 0, cookie_peak_cnt := 0\<rparr>))"

definition ath6kl_cookie_cleanup :: "cookie_pool \<times> cookie_pool \<Rightarrow> (cookie_pool \<times> cookie_pool) option" where
  "ath6kl_cookie_cleanup ps =
     (case ath6kl_cookie_pool_cleanup (fst ps) of
        None \<Rightarrow> None
      | Some d \<Rightarrow> map_option (\<lambda>c. (d, c)) (ath6kl_cookie_pool_cleanup (snd ps)))"

definition ath6kl_cookie_init ::
    "bool \<Rightarrow> (nat \<Rightarrow> bool) \<Rightarrow> bool \<Rightarrow> (nat \<Rightarrow> bool) \<Rightarrow> cookie_pool \<times> cookie_pool \<Rightarrow> (int \<times> cookie_pool \<times> cookie_pool) option" where
  "ath6kl_cookie_init mem1 can1 mem2 can2 ps =
     (case ath6kl_cookie_pool_init mem1 can1 (fst ps) COOKIE_TYPE_DATA MAX_COOKIE_DATA_NUM of
        (st1, d) \<Rightarrow>
          if st1 \<noteq> 0 then map_option (\<lambda>ps. (- ENOMEM, ps)) (ath6kl_cookie_cleanup (d, snd ps))
          else case ath6kl_cookie_pool_init mem2 can2 (snd ps) COOKIE_TYPE_CTRL MAX_COOKIE_CTRL_NUM of
            (st2, c) \<Rightarrow>
              if st2 \<noteq> 0 then map_option (\<lambda>ps. (- ENOMEM, ps)) (ath6kl_cookie_cleanup (d, c))
              else Some (0, d, c))"

section \<open>A pool and the cookies that are out\<close>

text \<open>\<open>pool_ok p out\<close>: every cookie of the pool is either free or one of \<open>out\<close>, once.\<close>

definition pool_ok :: "cookie_pool \<Rightarrow> nat list \<Rightarrow> bool" where
  "pool_ok p out \<longleftrightarrow> cookie_mem_st p = MemValid \<and> cookie_count p = length (cookie_list p)
     \<and> mset (cookie_list p) + mset out = mset [0..<cookie_num p]"

lemma pool_fill_all:
  "(\<And>i. i \<in> set is \<Longrightarrow> can i) \<Longrightarrow> pool_fill can p is
     = (True, p\<lparr>cookie_list := rev is @ cookie_list p, cookie_count := cookie_count p + length is,
               cookie_free_cnt := cookie_free_cnt p + of_nat (length is)\<rparr>)"
  by (induction "is" arbitrary: p) (simp_all add: ath6kl_free_cookie_def add.assoc)

lemma pool_fill_fails: "i \<in> set is \<Longrightarrow> \<not> can i \<Longrightarrow> \<exists>q. pool_fill can p is = (False, q) \<and> cookie_num q = cookie_num p"
proof (induction "is" arbitrary: p)
  case (Cons j "is")
  show ?case
  proof (cases "can j")
    case True
    then have "i \<in> set is" using Cons.prems by auto
    from Cons.IH [OF this Cons.prems(2), of "ath6kl_free_cookie p j"] show ?thesis using True by (simp add: ath6kl_free_cookie_def)
  qed simp
qed simp

lemma pool_init_ok:
  assumes "mem_ok" and "\<And>i. i < num \<Longrightarrow> can i"
  shows "\<exists>q. ath6kl_cookie_pool_init mem_ok can p ty num = (0, q) \<and> pool_ok q [] \<and> cookie_num q = num \<and> pool_type q = ty"
proof -
  have "pool_fill can q [0..<num] = (True, q\<lparr>cookie_list := rev [0..<num] @ cookie_list q,
      cookie_count := cookie_count q + length [0..<num], cookie_free_cnt := cookie_free_cnt q + of_nat (length [0..<num])\<rparr>)" for q
    by (rule pool_fill_all) (use assms(2) in simp)
  then show ?thesis using assms(1) by (simp add: ath6kl_cookie_pool_init_def Let_def pool_ok_def)
qed

lemma alloc_pool_ok:
  assumes "pool_ok p out" and "ath6kl_alloc_cookie p = (r, p')"
  shows "case r of
      None \<Rightarrow> cookie_list p = [] \<and> pool_ok p' out \<and> length out = cookie_num p
    | Some c \<Rightarrow> pool_ok p' (c # out) \<and> c < cookie_num p \<and> c \<notin> set out"
    and "cookie_num p' = cookie_num p" and "cookie_mem p' = cookie_mem p" and "pool_type p' = pool_type p"
proof -
  have m: "mset (cookie_list p) + mset out = mset [0..<cookie_num p]" using assms(1) by (simp add: pool_ok_def)
  have "distinct (cookie_list p @ out)"
    using m by (metis distinct_upt mset_append mset_eq_imp_distinct_iff)
  moreover have "set (cookie_list p @ out) = {0..<cookie_num p}"
    using m by (metis atLeast_upt mset_append mset_eq_setD set_upt)
  moreover have "size (mset (cookie_list p) + mset out) = cookie_num p" by (subst m) simp
  ultimately show "case r of
      None \<Rightarrow> cookie_list p = [] \<and> pool_ok p' out \<and> length out = cookie_num p
    | Some c \<Rightarrow> pool_ok p' (c # out) \<and> c < cookie_num p \<and> c \<notin> set out"
    using assms m by (cases "cookie_list p") (auto simp: ath6kl_alloc_cookie_def Let_def pool_ok_def)
  show "cookie_num p' = cookie_num p" "cookie_mem p' = cookie_mem p" "pool_type p' = pool_type p"
    using assms(2) by (cases "cookie_list p"; auto simp: ath6kl_alloc_cookie_def Let_def)+
qed

lemma free_pool_ok:
  assumes "pool_ok p out" and "c \<in> set out"
  shows "pool_ok (ath6kl_free_cookie p c) (remove1 c out)"
proof -
  have "mset out = add_mset c (mset (remove1 c out))" using assms(2) by simp
  then have "mset (cookie_list p) + add_mset c (mset (remove1 c out)) = mset [0..<cookie_num p]" using assms(1) by (simp add: pool_ok_def)
  then show ?thesis using assms(1) by (simp add: pool_ok_def ath6kl_free_cookie_def del: mset_remove1)
qed

lemma pool_ok_perm: "pool_ok p out \<Longrightarrow> mset out' = mset out \<Longrightarrow> pool_ok p out'"
  by (simp add: pool_ok_def)

lemma pool_ok_distinct:
  assumes "pool_ok p out"
  shows "distinct out"
proof -
  have "mset (cookie_list p @ out) = mset [0..<cookie_num p]" using assms by (simp add: pool_ok_def)
  then show ?thesis by (metis distinct_append distinct_upt mset_eq_imp_distinct_iff)
qed

interpretation cookies: object_pool ath6kl_alloc_cookie ath6kl_free_cookie pool_ok
proof unfold_locales
  show "pool_ok p' (c # out) \<and> c \<notin> set out" if "pool_ok p out" "ath6kl_alloc_cookie p = (Some c, p')" for p out c p'
    using alloc_pool_ok(1) [OF that] by simp
  show "pool_ok p' out" if "pool_ok p out" "ath6kl_alloc_cookie p = (None, p')" for p out p'
    using alloc_pool_ok(1) [OF that] by simp
qed (fact free_pool_ok pool_ok_perm pool_ok_distinct)+

text \<open>When a pool cannot be set up, the cleanup that follows works on memory that is not there.\<close>

lemma cookie_init_failure_crashes:
  assumes "\<not> mem1 \<or> (\<exists>i<MAX_COOKIE_DATA_NUM. \<not> can1 i)"
  shows "ath6kl_cookie_init mem1 can1 mem2 can2 ps = None"
proof -
  obtain d where d: "ath6kl_cookie_pool_init mem1 can1 (fst ps) COOKIE_TYPE_DATA MAX_COOKIE_DATA_NUM = (- ENOMEM, d)"
    "cookie_num d = MAX_COOKIE_DATA_NUM" "cookie_mem_st d \<noteq> MemValid"
  proof (cases mem1)
    case False
    then show ?thesis using that by (simp add: ath6kl_cookie_pool_init_def Let_def)
  next
    case True
    then obtain i where i: "i \<in> set [0..<MAX_COOKIE_DATA_NUM]" "\<not> can1 i" using assms by auto
    define p1 where "p1 = (fst ps)\<lparr>cookie_num := MAX_COOKIE_DATA_NUM, pool_type := COOKIE_TYPE_DATA, cookie_list := [], cookie_count := 0,
      cookie_mem := (\<lambda>_. blank_cookie), cookie_mem_st := MemValid\<rparr>"
    obtain q where q: "pool_fill can1 p1 [0..<MAX_COOKIE_DATA_NUM] = (False, q)" "cookie_num q = cookie_num p1"
      using pool_fill_fails [where can = can1 and p = p1, OF i] by blast
    show ?thesis
      by (rule that [of "q\<lparr>cookie_mem_st := MemFreed\<rparr>"]) (use True q in \<open>simp_all add: ath6kl_cookie_pool_init_def Let_def p1_def\<close>)
  qed
  then show ?thesis
    by (simp add: ath6kl_cookie_init_def ath6kl_cookie_cleanup_def ath6kl_cookie_pool_cleanup_def
        MAX_COOKIE_DATA_NUM_def MAX_DEF_COOKIE_NUM_def MAX_HI_COOKIE_NUM_def)
qed

end
