(* ===== verification/Driver.thy ===== *)
theory Driver
  imports Cookie
begin

text \<open>
  The driver between the network stack and HTC: the driver state \<open>struct ath6kl\<close>, control messages
  (\<open>ath6kl_control_tx\<close>), WMI commands and their synchronisation points (drivers/ath6kl/wmi.c), the
  priority streams and the activity they report (\<open>ath6kl_wmi_create_pstream_cmd\<close>,
  \<open>ath6kl_indicate_tx_activity\<close>), and what comes back from HTC (\<open>ath6kl_tx_complete\<close>,
  \<open>ath6kl_tx_queue_full\<close>) of drivers/ath6kl/txrx.c.

  Interfaces are kept by slot in \<open>vifs\<close>, and \<open>vif_list\<close> lists the slots in use.  HTC is reached by
  events in \<open>drv_log\<close>: a packet handed over is \<open>EvTx\<close>, and it comes back by \<open>ath6kl_tx_complete\<close>,
  after the operation that sent it.  \<open>can i\<close> says whether allocation number \<open>i\<close> succeeds.
\<close>

section \<open>Data\<close>

definition ENDPOINT_UNUSED :: int where "ENDPOINT_UNUSED = -1"
definition ENDPOINT_2 :: int where "ENDPOINT_2 = 2"
definition ENDPOINT_5 :: int where "ENDPOINT_5 = 5"
definition MAX_NODE_NUM :: nat where "MAX_NODE_NUM = 15"

definition HTC_TX_PACKET_TAG_USER_DEFINED :: nat where "HTC_TX_PACKET_TAG_USER_DEFINED = HTC_SERVICE_TX_PACKET_TAG + 9"
definition ATH6KL_CONTROL_PKT_TAG :: nat where "ATH6KL_CONTROL_PKT_TAG = HTC_TX_PACKET_TAG_USER_DEFINED"
definition ATH6KL_DATA_PKT_TAG :: nat where "ATH6KL_DATA_PKT_TAG = ATH6KL_CONTROL_PKT_TAG + 1"
definition ATH6KL_PRI_DATA_PKT_TAG :: nat where "ATH6KL_PRI_DATA_PKT_TAG = ATH6KL_CONTROL_PKT_TAG + 2"

lemmas pkt_tags = ATH6KL_CONTROL_PKT_TAG_def ATH6KL_DATA_PKT_TAG_def ATH6KL_PRI_DATA_PKT_TAG_def HTC_TX_PACKET_TAG_USER_DEFINED_def
  HTC_SERVICE_TX_PACKET_TAG_def

definition WMI_SYNCHRONIZE_CMDID :: u16 where "WMI_SYNCHRONIZE_CMDID = 4"
definition WMI_CREATE_PSTREAM_CMDID :: u16 where "WMI_CREATE_PSTREAM_CMDID = 5"
definition WMI_DELETE_PSTREAM_CMDID :: u16 where "WMI_DELETE_PSTREAM_CMDID = 6"
definition WMI_OPT_TX_FRAME_CMDID :: u16 where "WMI_OPT_TX_FRAME_CMDID = 0x26"
definition WMI_ABORT_SCAN_CMDID :: u16 where "WMI_ABORT_SCAN_CMDID = 0xF007"
definition WMI_AP_SET_PVB_CMDID :: u16 where "WMI_AP_SET_PVB_CMDID = 0xF011"
definition WMI_AP_APSD_BUFFERED_TRAFFIC_CMDID :: u16 where "WMI_AP_APSD_BUFFERED_TRAFFIC_CMDID = 0xF05A"
definition WMI_SEND_ACTION_CMDID :: u16 where "WMI_SEND_ACTION_CMDID = 0xF069"
definition WMI_SEND_PROBE_RESPONSE_CMDID :: u16 where "WMI_SEND_PROBE_RESPONSE_CMDID = 0xF06C"
definition WMI_SET_CREDIT_BYPASS_CMDID :: u16 where "WMI_SET_CREDIT_BYPASS_CMDID = 0xFFFE"

definition WMI_IMPLICIT_PSTREAM :: u8 where "WMI_IMPLICIT_PSTREAM = 0xFF"
definition WMI_MAX_THINSTREAM :: u8 where "WMI_MAX_THINSTREAM = 15"
definition WMI_IMPLICIT_PSTREAM_INACTIVITY_INT :: u32 where "WMI_IMPLICIT_PSTREAM_INACTIVITY_INT = 5000"
definition WMI_VOICE_USER_PRIORITY :: nat where "WMI_VOICE_USER_PRIORITY = 7"
definition WMI_TX_MGMT_RETRY_MAX :: nat where "WMI_TX_MGMT_RETRY_MAX = 3"
definition WMI_CMD_HDR_LEN :: nat where "WMI_CMD_HDR_LEN = 6"
definition WMI_CMD_HDR_IF_ID_MASK :: u16 where "WMI_CMD_HDR_IF_ID_MASK = 0xF"
definition WMM_AC_VI :: nat where "WMM_AC_VI = 2"
definition WMM_AC_VO :: nat where "WMM_AC_VO = 3"

datatype wmi_sync_flag = NO_SYNC_WMIFLAG | SYNC_BEFORE_WMIFLAG | SYNC_AFTER_WMIFLAG | SYNC_BOTH_WMIFLAG | END_WMIFLAG

text \<open>A management frame kept until its transmission is reported.\<close>

record wmi_mgmt_tx_frame =
  mgmt_vif :: "nat option"
  mgmt_frame :: "u8 list"
  mgmt_idx :: u32
  mgmt_freq :: u32
  mgmt_retry :: nat

record wmi =
  stream_exist_for_ac :: "nat \<Rightarrow> u16"
  fat_pipe_exist :: u8
  wmi_ep_id :: int
  wmi_traffic_class :: nat
  mgmt_tx_frame_list :: "wmi_mgmt_tx_frame list"

record ath6kl_node_mapping =
  nm_mac :: "u8 list"
  nm_ep_id :: nat
  nm_tx_pend :: u8

datatype cookie_ref = DataCookie nat | CtrlCookie nat

text \<open>
  What the driver does to the layers around it: hand a packet to HTC with the fields set in its
  cookie and the interface recorded in it, free a socket buffer, report activity to HTC, queue a
  packet with the flow control scheduler, stop and wake the queue of an interface, wake the waiters.
\<close>

datatype drv_event =
    EvTx cookie_ref ath6kl_cookie "nat option"
  | EvFree skb
  | EvActivity int bool
  | EvSchedule cookie_ref ath6kl_cookie
  | EvStopQueue nat
  | EvWakeQueue nat
  | EvNetifWake
  | EvWakeUp
  | EvCrashTrap
  | EvScanDone nat

text \<open>
  \<open>struct ath6kl\<close>.  \<open>buf_headroom\<close> is the head room the platform leaves in a buffer of the driver,
  \<open>go_noa\<close> the notice-of-absence element of an interface that is a group owner with that power save
  on, \<open>scan_req\<close> whether a scan is pending on an interface.
\<close>

record ath6kl =
  wmi_ready :: bool
  wmi_enabled :: bool
  wmi_ctrl_ep_full :: bool
  testmode_epping :: bool
  mcc_enabled :: bool
  eapol_protect :: bool
  conf_skb_dup :: bool
  conf_flowctrl :: bool
  conf_no_rx_drop :: bool
  skip_flowctrl_event :: bool
  low_cpu_power_tx_bundle_max :: nat
  buf_headroom :: nat
  drv_p2p :: bool
  p2p_frame_retry :: bool
  go_noa :: "nat \<Rightarrow> u8 list option"
  cookie_data :: cookie_pool
  cookie_ctrl :: cookie_pool
  tx_pending :: "int \<Rightarrow> int"
  total_tx_data_pend :: int
  ctrl_ep :: int
  ac2ep_map :: "nat \<Rightarrow> int"
  ep2ac_map :: "int \<Rightarrow> nat"
  ac_stream_active :: "nat \<Rightarrow> bool"
  ac_stream_pri_map :: "nat \<Rightarrow> nat"
  hiac_stream_active_pri :: nat
  ac_stream_active_num :: nat
  node_map :: "nat \<Rightarrow> ath6kl_node_mapping"
  node_num :: nat
  next_ep_id :: nat
  ibss_ps_enable :: bool
  tx_on_vif :: u32
  eapol_shprotect_vif :: u32
  vif_max :: nat
  vifs :: "nat \<Rightarrow> ath6kl_vif"
  vif_list :: "nat list"
  scan_req :: "nat \<Rightarrow> bool"
  drv_wmi :: wmi
  n_allocs :: nat
  drv_log :: "drv_event list"

definition drv_do :: "ath6kl \<Rightarrow> drv_event list \<Rightarrow> ath6kl" where
  "drv_do ar evs = ar\<lparr>drv_log := drv_log ar @ evs\<rparr>"

definition upd_vif :: "ath6kl \<Rightarrow> nat \<Rightarrow> (ath6kl_vif \<Rightarrow> ath6kl_vif) \<Rightarrow> ath6kl" where
  "upd_vif ar v f = ar\<lparr>vifs := (vifs ar)(v := f (vifs ar v))\<rparr>"

definition upd_wmi :: "ath6kl \<Rightarrow> (wmi \<Rightarrow> wmi) \<Rightarrow> ath6kl" where
  "upd_wmi ar f = ar\<lparr>drv_wmi := f (drv_wmi ar)\<rparr>"

section \<open>Interfaces\<close>

text \<open>\<open>vif_max - 1\<close> is unsigned, so with no interface at all no index is too large.\<close>

definition if_idx_bad :: "ath6kl \<Rightarrow> nat \<Rightarrow> bool" where
  "if_idx_bad ar if_idx \<longleftrightarrow> vif_max ar \<noteq> 0 \<and> if_idx > vif_max ar - 1"

definition ath6kl_get_vif_by_index :: "ath6kl \<Rightarrow> nat \<Rightarrow> nat option" where
  "ath6kl_get_vif_by_index ar if_idx =
     (if if_idx_bad ar if_idx then None else first_slot (\<lambda>v. fw_vif_idx (vifs ar v) = if_idx) (vif_list ar))"

definition ath6kl_vif_first :: "ath6kl \<Rightarrow> nat option" where
  "ath6kl_vif_first ar = (case vif_list ar of [] \<Rightarrow> None | v # _ \<Rightarrow> Some v)"

definition ath6kl_ac2_endpoint_id :: "ath6kl \<Rightarrow> nat \<Rightarrow> int" where
  "ath6kl_ac2_endpoint_id ar ac = ac2ep_map ar ac"

section \<open>Buffers and cookies\<close>

definition new_skb :: "nat \<Rightarrow> u8 list \<Rightarrow> skb" where
  "new_skb room bs = \<lparr>skb_id = None, skb_mem = write_bytes (\<lambda>_. 0) 0 bs, skb_ptr = 0, skb_len = length bs,
     skb_head = - int room, skb_protocol = 0, skb_cloned = False\<rparr>"

lemma skb_bytes_new [simp]: "skb_bytes (new_skb room bs) = bs"
  by (simp add: skb_bytes_def new_skb_def)

definition drv_alloc :: "(nat \<Rightarrow> bool) \<Rightarrow> ath6kl \<Rightarrow> bool \<times> ath6kl" where
  "drv_alloc can ar = (can (n_allocs ar), ar\<lparr>n_allocs := n_allocs ar + 1\<rparr>)"

text \<open>\<open>ath6kl_buf_alloc\<close> reserves head room; \<open>ath6kl_wmi_get_new_buf\<close> also puts zero bytes of data.\<close>

definition ath6kl_buf_alloc :: "(nat \<Rightarrow> bool) \<Rightarrow> ath6kl \<Rightarrow> skb option \<times> ath6kl" where
  "ath6kl_buf_alloc can ar =
     (case drv_alloc can ar of (ok, ar1) \<Rightarrow> (if ok then Some (new_skb (buf_headroom ar) []) else None, ar1))"

definition ath6kl_wmi_get_new_buf :: "(nat \<Rightarrow> bool) \<Rightarrow> ath6kl \<Rightarrow> nat \<Rightarrow> skb option \<times> ath6kl" where
  "ath6kl_wmi_get_new_buf can ar n =
     (case ath6kl_buf_alloc can ar of
        (None, ar1) \<Rightarrow> (None, ar1)
      | (Some s, ar1) \<Rightarrow> (Some (skb_store (s\<lparr>skb_len := n\<rparr>) 0 (replicate n 0)), ar1))"

definition fill_cookie :: "cookie_pool \<Rightarrow> nat \<Rightarrow> ath6kl_cookie \<Rightarrow> cookie_pool" where
  "fill_cookie p c ck = p\<lparr>cookie_mem := (cookie_mem p)(c := ck)\<rparr>"

section \<open>Control messages\<close>

text \<open>\<open>ath6kl_control_tx\<close>: a message to the full control endpoint, or without a cookie, is freed.\<close>

definition ath6kl_control_tx :: "ath6kl \<Rightarrow> skb \<Rightarrow> int \<Rightarrow> int \<times> ath6kl" where
  "ath6kl_control_tx ar s ep =
     (if wmi_ctrl_ep_full ar \<and> ep = ctrl_ep ar then (- ENOMEM, drv_do ar [EvFree s])
      else case ath6kl_alloc_cookie (cookie_ctrl ar) of
        (None, p) \<Rightarrow> (- ENOMEM, drv_do (ar\<lparr>cookie_ctrl := p\<rparr>) [EvFree s])
      | (Some c, p) \<Rightarrow>
          let ck = \<lparr>ck_skb = Some s, ck_map_no = 0, ck_eid = ep, ck_tag = ATH6KL_CONTROL_PKT_TAG\<rparr>
          in (0, drv_do (ar\<lparr>cookie_ctrl := fill_cookie p c ck,
                            tx_pending := (tx_pending ar)(ep := tx_pending ar ep + 1),
                            total_tx_data_pend := (if ep \<noteq> ctrl_ep ar then total_tx_data_pend ar + 1 else total_tx_data_pend ar)\<rparr>)
                        [EvTx (CtrlCookie c) ck None]))"

section \<open>WMI commands\<close>

text \<open>
  The command header in front of the payload; its third word keeps what was in the head room, which
  the allocator does not clear (0 in the model).
\<close>

definition cmd_hdr_push :: "skb \<Rightarrow> u16 \<Rightarrow> nat \<Rightarrow> skb" where
  "cmd_hdr_push s cmd_id if_idx =
     skb_store (skb_push WMI_CMD_HDR_LEN s) 0 (le16_bytes cmd_id @ le16_bytes (of_nat if_idx AND WMI_CMD_HDR_IF_ID_MASK))"

text \<open>
  \<open>ath6kl_wmi_cmd_send\<close> between its two synchronisation points.  \<open>WMI_OPT_TX_FRAME_CMDID\<close> goes out as
  data on the best effort endpoint.
\<close>

definition cmd_send_one :: "ath6kl \<Rightarrow> nat \<Rightarrow> skb \<Rightarrow> u16 \<Rightarrow> int \<times> ath6kl" where
  "cmd_send_one ar if_idx s cmd_id =
     (let s1 = cmd_hdr_push s cmd_id if_idx in
      if cmd_id = WMI_OPT_TX_FRAME_CMDID then
        (case ath6kl_wmi_data_hdr_add (vif_max ar) s1 OPT_MSGTYPE 0 0 0 None if_idx of
           (ret, s2) \<Rightarrow> if ret \<noteq> 0 then (ret, drv_do ar [EvFree s2])
                      else (0, snd (ath6kl_control_tx ar s2 (ath6kl_ac2_endpoint_id ar WMM_AC_BE))))
      else (0, snd (ath6kl_control_tx ar s1 (wmi_ep_id (drv_wmi ar)))))"

definition data_sync_hdr :: "nat \<Rightarrow> u8 list" where
  "data_sync_hdr if_idx = [0, of_nat SYNC_MSGTYPE, 0, 0] @ le16_bytes (of_nat if_idx AND WMI_CMD_HDR_IF_ID_MASK)"

definition ath6kl_wmi_data_sync_send :: "ath6kl \<Rightarrow> skb \<Rightarrow> int \<Rightarrow> nat \<Rightarrow> int \<times> ath6kl" where
  "ath6kl_wmi_data_sync_send ar s ep_id if_idx =
     (if ep_id = wmi_ep_id (drv_wmi ar) then (- EINVAL, drv_do ar [EvFree s])
      else ath6kl_control_tx ar (skb_store (skb_push WMI_DATA_HDR_LEN s) 0 (data_sync_hdr if_idx)) ep_id)"

text \<open>The data sync buffers: allocated one after the other until one fails, then sent one by one.\<close>

fun alloc_sync_bufs :: "(nat \<Rightarrow> bool) \<Rightarrow> ath6kl \<Rightarrow> nat list \<Rightarrow> bool \<times> skb list \<times> ath6kl" where
  "alloc_sync_bufs can ar [] = (True, [], ar)"
| "alloc_sync_bufs can ar (ac # acs) =
     (case ath6kl_buf_alloc can ar of
        (None, ar1) \<Rightarrow> (False, [], ar1)
      | (Some s, ar1) \<Rightarrow> (case alloc_sync_bufs can ar1 acs of (ok, ss, ar2) \<Rightarrow> (ok, s # ss, ar2)))"

fun send_syncs :: "ath6kl \<Rightarrow> nat \<Rightarrow> (nat \<times> skb) list \<Rightarrow> int \<times> ath6kl" where
  "send_syncs ar if_idx [] = (0, ar)"
| "send_syncs ar if_idx ((ac, s) # rest) =
     (case ath6kl_wmi_data_sync_send ar s (ath6kl_ac2_endpoint_id ar ac) if_idx of
        (ret, ar1) \<Rightarrow> if ret \<noteq> 0 then (ret, drv_do ar1 (map (EvFree \<circ> snd) rest)) else send_syncs ar1 if_idx rest)"

definition ath6kl_wmi_sync_point :: "(nat \<Rightarrow> bool) \<Rightarrow> ath6kl \<Rightarrow> nat \<Rightarrow> int \<times> ath6kl" where
  "ath6kl_wmi_sync_point can ar if_idx =
     (let acs = filter (\<lambda>ac. bit (fat_pipe_exist (drv_wmi ar)) ac) [0..<WMM_NUM_AC] in
      case ath6kl_wmi_get_new_buf can ar 1 of
        (None, ar1) \<Rightarrow> (- ENOMEM, ar1)
      | (Some s, ar1) \<Rightarrow>
          let s1 = skb_store s 0 [fat_pipe_exist (drv_wmi ar1)] in
          (case alloc_sync_bufs can ar1 acs of
             (ok, ss, ar2) \<Rightarrow>
               if \<not> ok then (- ENOMEM, drv_do ar2 (map EvFree (s1 # ss)))
               else if if_idx_bad ar2 if_idx then (- EINVAL, drv_do ar2 (map EvFree (s1 # ss)))
               else (case cmd_send_one ar2 if_idx s1 WMI_SYNCHRONIZE_CMDID of
                       (_, ar3) \<Rightarrow> send_syncs ar3 if_idx (zip acs ss))))"

definition ath6kl_wmi_cmd_send :: "(nat \<Rightarrow> bool) \<Rightarrow> ath6kl \<Rightarrow> nat \<Rightarrow> skb \<Rightarrow> u16 \<Rightarrow> wmi_sync_flag \<Rightarrow> int \<times> ath6kl" where
  "ath6kl_wmi_cmd_send can ar if_idx s cmd_id sync_flag =
     (if if_idx_bad ar if_idx then (- EINVAL, drv_do ar [EvFree s])
      else if sync_flag = END_WMIFLAG then (- EINVAL, drv_do ar [EvFree s])
      else
        let ar1 = (if sync_flag = SYNC_BEFORE_WMIFLAG \<or> sync_flag = SYNC_BOTH_WMIFLAG then snd (ath6kl_wmi_sync_point can ar if_idx) else ar)
        in case cmd_send_one ar1 if_idx s cmd_id of
             (ret, ar2) \<Rightarrow>
               if ret \<noteq> 0 then (ret, ar2)
               else (0, if sync_flag = SYNC_AFTER_WMIFLAG \<or> sync_flag = SYNC_BOTH_WMIFLAG
                        then snd (ath6kl_wmi_sync_point can ar2 if_idx) else ar2))"

text \<open>A command with a fixed payload: the buffer, its bytes, and the send.\<close>

definition wmi_cmd :: "(nat \<Rightarrow> bool) \<Rightarrow> ath6kl \<Rightarrow> nat \<Rightarrow> u16 \<Rightarrow> u8 list \<Rightarrow> int \<times> ath6kl" where
  "wmi_cmd can ar if_idx cmd_id body =
     (case ath6kl_wmi_get_new_buf can ar (length body) of
        (None, ar1) \<Rightarrow> (- ENOMEM, ar1)
      | (Some s, ar1) \<Rightarrow> ath6kl_wmi_cmd_send can ar1 if_idx (skb_store s 0 body) cmd_id NO_SYNC_WMIFLAG)"

definition le32_bytes :: "u32 \<Rightarrow> u8 list" where
  "le32_bytes w = le16_bytes (ucast w) @ le16_bytes (ucast (drop_bit 16 w))"

definition ath6kl_wmi_simple_cmd :: "(nat \<Rightarrow> bool) \<Rightarrow> ath6kl \<Rightarrow> nat \<Rightarrow> u16 \<Rightarrow> int \<times> ath6kl" where
  "ath6kl_wmi_simple_cmd can ar if_idx cmd_id = wmi_cmd can ar if_idx cmd_id []"

definition ath6kl_wmi_abort_scan_cmd :: "(nat \<Rightarrow> bool) \<Rightarrow> ath6kl \<Rightarrow> nat \<Rightarrow> int \<times> ath6kl" where
  "ath6kl_wmi_abort_scan_cmd can ar if_idx = ath6kl_wmi_simple_cmd can ar if_idx WMI_ABORT_SCAN_CMDID"

definition ath6kl_wmi_set_credit_bypass :: "(nat \<Rightarrow> bool) \<Rightarrow> ath6kl \<Rightarrow> nat \<Rightarrow> int \<Rightarrow> u8 \<Rightarrow> u16 \<Rightarrow> int \<times> ath6kl" where
  "ath6kl_wmi_set_credit_bypass can ar if_idx ep restore threshold =
     wmi_cmd can ar if_idx WMI_SET_CREDIT_BYPASS_CMDID ([of_int ep, restore] @ le16_bytes threshold)"

text \<open>The power-save indications always report success.\<close>

definition ath6kl_wmi_set_pvb_cmd :: "(nat \<Rightarrow> bool) \<Rightarrow> ath6kl \<Rightarrow> nat \<Rightarrow> nat \<Rightarrow> bool \<Rightarrow> int \<times> ath6kl" where
  "ath6kl_wmi_set_pvb_cmd can ar if_idx aid flag =
     (case ath6kl_wmi_get_new_buf can ar 8 of
        (None, ar1) \<Rightarrow> (- ENOMEM, ar1)
      | (Some s, ar1) \<Rightarrow>
          (0, snd (ath6kl_wmi_cmd_send can ar1 if_idx
                     (skb_store s 0 (le32_bytes (if flag then 1 else 0) @ le16_bytes 0 @ le16_bytes (of_nat aid)))
                     WMI_AP_SET_PVB_CMDID NO_SYNC_WMIFLAG)))"

text \<open>The fields are stored without conversion: the bytes of a little-endian host.\<close>

definition ath6kl_wmi_set_apsd_buffered_traffic_cmd :: "(nat \<Rightarrow> bool) \<Rightarrow> ath6kl \<Rightarrow> nat \<Rightarrow> nat \<Rightarrow> u16 \<Rightarrow> u32 \<Rightarrow> int \<times> ath6kl" where
  "ath6kl_wmi_set_apsd_buffered_traffic_cmd can ar if_idx aid bitmap flags =
     wmi_cmd can ar if_idx WMI_AP_APSD_BUFFERED_TRAFFIC_CMDID (le16_bytes (of_nat aid) @ le16_bytes bitmap @ le32_bytes flags)"

section \<open>Priority streams\<close>

text \<open>\<open>struct wmi_create_pstream_cmd\<close>, and its bytes on the wire.\<close>

record wmi_create_pstream_cmd =
  min_service_int :: u32
  max_service_int :: u32
  inactivity_int :: u32
  suspension_int :: u32
  service_start_time :: u32
  min_data_rate :: u32
  mean_data_rate :: u32
  peak_data_rate :: u32
  max_burst_size :: u32
  delay_bound :: u32
  min_phy_rate :: u32
  ps_sba :: u32
  medium_time :: u32
  nominal_msdu :: u16
  max_msdu :: u16
  traffic_class :: nat
  traffic_direc :: nat
  rx_queue_num :: u8
  traffic_type :: nat
  voice_psc_cap :: nat
  tsid :: u8
  user_pri :: nat
  nominal_phy :: u8

definition zero_pstream :: wmi_create_pstream_cmd where
  "zero_pstream = \<lparr>min_service_int = 0, max_service_int = 0, inactivity_int = 0, suspension_int = 0, service_start_time = 0,
     min_data_rate = 0, mean_data_rate = 0, peak_data_rate = 0, max_burst_size = 0, delay_bound = 0, min_phy_rate = 0, ps_sba = 0,
     medium_time = 0, nominal_msdu = 0, max_msdu = 0, traffic_class = 0, traffic_direc = 0, rx_queue_num = 0, traffic_type = 0,
     voice_psc_cap = 0, tsid = 0, user_pri = 0, nominal_phy = 0\<rparr>"

definition put_pstream :: "wmi_create_pstream_cmd \<Rightarrow> u8 list" where
  "put_pstream c =
     concat (map le32_bytes [min_service_int c, max_service_int c, inactivity_int c, suspension_int c, service_start_time c,
       min_data_rate c, mean_data_rate c, peak_data_rate c, max_burst_size c, delay_bound c, min_phy_rate c, ps_sba c, medium_time c])
     @ le16_bytes (nominal_msdu c) @ le16_bytes (max_msdu c)
     @ [of_nat (traffic_class c), of_nat (traffic_direc c), rx_queue_num c, of_nat (traffic_type c), of_nat (voice_psc_cap c),
        tsid c, of_nat (user_pri c), nominal_phy c]"

text \<open>
  \<open>ath6kl_indicate_tx_activity\<close>: the highest priority of an active stream is kept, and recomputed by
  a scan when a stream of that priority goes inactive; the background stream asks the target to
  bypass credits (HTC over the mailbox).
\<close>

definition scan_hiac :: "ath6kl \<Rightarrow> nat" where
  "scan_hiac ar = fold (\<lambda>i hi. if ac_stream_active ar i \<and> ac_stream_pri_map ar i > hi then ac_stream_pri_map ar i else hi) [0..<WMM_NUM_AC] 0"

definition count_active :: "ath6kl \<Rightarrow> nat" where
  "count_active ar = length (filter (ac_stream_active ar) [0..<WMM_NUM_AC])"

definition set_hiac :: "ath6kl \<Rightarrow> nat \<Rightarrow> bool \<Rightarrow> ath6kl" where
  "set_hiac ar tc active =
     (let ar1 = ar\<lparr>ac_stream_active := (ac_stream_active ar)(tc := active)\<rparr> in
      if active then
        (if ac_stream_pri_map ar1 tc > hiac_stream_active_pri ar1 then ar1\<lparr>hiac_stream_active_pri := ac_stream_pri_map ar1 tc\<rparr> else ar1)
      else if hiac_stream_active_pri ar1 = ac_stream_pri_map ar1 tc then ar1\<lparr>hiac_stream_active_pri := scan_hiac ar1\<rparr>
      else ar1)"

definition ath6kl_indicate_tx_activity :: "(nat \<Rightarrow> bool) \<Rightarrow> ath6kl \<Rightarrow> nat \<Rightarrow> bool \<Rightarrow> ath6kl" where
  "ath6kl_indicate_tx_activity can ar tc active =
     (let ep = ac2ep_map ar tc in
      if \<not> wmi_enabled ar then drv_do ar [EvActivity ep active]
      else
        let ar1 = set_hiac ar tc active;
            ar2 = (if ath6kl_htc_mbox_change_credit_bypass tc \<noteq> 0 then
                     (case ath6kl_vif_first ar1 of
                        None \<Rightarrow> ar1
                      | Some v \<Rightarrow> snd (ath6kl_wmi_set_credit_bypass can ar1 (fw_vif_idx (vifs ar1 v)) (ac2ep_map ar1 WMM_AC_BE)
                                      (if active then 0 else 1) (if active then 6 else 1)))
                   else ar1)
        in drv_do (ar2\<lparr>ac_stream_active_num := count_active ar2\<rparr>) [EvActivity ep active])"

text \<open>The parameters \<open>ath6kl_wmi_create_pstream_cmd\<close> accepts.\<close>

definition pstream_params_ok :: "wmi_create_pstream_cmd \<Rightarrow> bool" where
  "pstream_params_ok p \<longleftrightarrow> user_pri p < 8 \<and> user_pri p \<le> 7 \<and> up_to_ac ! (user_pri p mod 8) = traffic_class p
     \<and> traffic_direc p \<in> {0, 1, 2} \<and> traffic_type p \<in> {0, 1} \<and> voice_psc_cap p \<in> {0, 1, 2}
     \<and> (tsid p = WMI_IMPLICIT_PSTREAM \<or> tsid p \<le> WMI_MAX_THINSTREAM)"

text \<open>The nominal rate goes from Mbit/s to units of 500 kbit/s, in 8 bits.\<close>

definition pstream_phy :: "wmi_create_pstream_cmd \<Rightarrow> wmi_create_pstream_cmd" where
  "pstream_phy p = p\<lparr>nominal_phy :=
     (if unat (nominal_phy p) \<ge> unat (min_phy_rate p) div 1000 div 1000 then of_nat (unat (nominal_phy p) * 1000 div 500) else 0)\<rparr>"

definition ath6kl_wmi_create_pstream_cmd :: "(nat \<Rightarrow> bool) \<Rightarrow> ath6kl \<Rightarrow> nat \<Rightarrow> wmi_create_pstream_cmd \<Rightarrow> int \<times> ath6kl" where
  "ath6kl_wmi_create_pstream_cmd can ar if_idx params =
     (if \<not> pstream_params_ok params then (- EINVAL, ar)
      else
        let p = pstream_phy params; tc = traffic_class p in
        case ath6kl_wmi_get_new_buf can ar (length (put_pstream p)) of
          (None, ar1) \<Rightarrow> (- ENOMEM, ar1)
        | (Some s, ar1) \<Rightarrow>
            let existed = ac_stream_active ar1 tc;
                ar2 = upd_wmi ar1 (\<lambda>w. w\<lparr>
                  stream_exist_for_ac := (if tsid p = WMI_IMPLICIT_PSTREAM then stream_exist_for_ac w
                                          else (stream_exist_for_ac w)(tc := stream_exist_for_ac w tc OR push_bit (unat (tsid p)) 1)),
                  fat_pipe_exist := fat_pipe_exist w OR push_bit tc 1\<rparr>);
                ar3 = (if existed then ar2 else ath6kl_indicate_tx_activity can ar2 tc True)
            in ath6kl_wmi_cmd_send can ar3 if_idx (skb_store s 0 (put_pstream p)) WMI_CREATE_PSTREAM_CMDID NO_SYNC_WMIFLAG)"

definition ENODATA :: int where "ENODATA = 61"

definition IP_ETHERTYPE :: nat where "IP_ETHERTYPE = 0x0800"
definition ETH_P_PAE :: nat where "ETH_P_PAE = 0x888E"

text \<open>\<open>1 << tsid\<close> has no value from 32 on; up to 31 it meets a 16-bit map.\<close>

definition ath6kl_wmi_delete_pstream_cmd :: "(nat \<Rightarrow> bool) \<Rightarrow> ath6kl \<Rightarrow> nat \<Rightarrow> nat \<Rightarrow> u8 \<Rightarrow> (int \<times> ath6kl) option" where
  "ath6kl_wmi_delete_pstream_cmd can ar if_idx tc ts =
     (if tc > 3 then Some (- EINVAL, ar)
      else case ath6kl_wmi_get_new_buf can ar 5 of
        (None, ar1) \<Rightarrow> Some (- ENOMEM, ar1)
      | (Some s, ar1) \<Rightarrow>
          let s1 = skb_store s 3 [of_nat tc, ts]; m = push_bit (unat ts) (1 :: u16) in
          if unat ts \<ge> 32 then None
          else if stream_exist_for_ac (drv_wmi ar1) tc AND m = 0 then Some (- ENODATA, drv_do ar1 [EvFree s1])
          else case ath6kl_wmi_cmd_send can ar1 if_idx s1 WMI_DELETE_PSTREAM_CMDID SYNC_BEFORE_WMIFLAG of
            (ret, ar2) \<Rightarrow>
              let ar3 = upd_wmi ar2 (\<lambda>w. w\<lparr>stream_exist_for_ac := (stream_exist_for_ac w)(tc := stream_exist_for_ac w tc AND NOT m)\<rparr>)
              in Some (ret, if stream_exist_for_ac (drv_wmi ar3) tc = 0
                            then upd_wmi (ath6kl_indicate_tx_activity can ar3 tc False)
                                   (\<lambda>w. w\<lparr>fat_pipe_exist := fat_pipe_exist w AND NOT (push_bit tc 1)\<rparr>)
                            else ar3))"

text \<open>The event names the stream by its traffic class, which is not checked: beyond the arrays there is no result.\<close>

definition ath6kl_wmi_pstream_timeout_event_rx :: "(nat \<Rightarrow> bool) \<Rightarrow> ath6kl \<Rightarrow> u8 list \<Rightarrow> (int \<times> ath6kl) option" where
  "ath6kl_wmi_pstream_timeout_event_rx can ar datap =
     (case datap of
        [] \<Rightarrow> Some (- EINVAL, ar)
      | b # _ \<Rightarrow>
          let tc = unat b in
          if tc \<ge> WMM_NUM_AC then None
          else Some (0, ath6kl_indicate_tx_activity can
                 (upd_wmi ar (\<lambda>w. w\<lparr>stream_exist_for_ac := (stream_exist_for_ac w)(tc := 0),
                                    fat_pipe_exist := fat_pipe_exist w AND NOT (push_bit tc 1)\<rparr>)) tc False))"

definition ath6kl_wmi_reset :: "ath6kl \<Rightarrow> ath6kl" where
  "ath6kl_wmi_reset ar = upd_wmi ar (\<lambda>w. w\<lparr>fat_pipe_exist := 0, stream_exist_for_ac := (\<lambda>_. 0)\<rparr>)"

definition ath6kl_wmi_set_control_ep :: "ath6kl \<Rightarrow> int \<Rightarrow> ath6kl" where
  "ath6kl_wmi_set_control_ep ar ep =
     (if ep = ENDPOINT_UNUSED \<or> ep \<ge> int ENDPOINT_MAX then ar else upd_wmi ar (\<lambda>w. w\<lparr>wmi_ep_id := ep\<rparr>))"

text \<open>The map is changed only when HTC found the streams of the two services (\<open>changed\<close>).\<close>

definition ath6kl_indicate_wmm_schedule_change :: "ath6kl \<Rightarrow> bool \<Rightarrow> bool \<Rightarrow> ath6kl" where
  "ath6kl_indicate_wmm_schedule_change ar changed change =
     (if changed then ar\<lparr>ac_stream_pri_map := (ac_stream_pri_map ar)(WMM_AC_BE := (if change then 2 else 1), WMM_AC_VI := (if change then 1 else 2))\<rparr>
      else ar)"

text \<open>
  \<open>ath6kl_wmi_implicit_create_pstream\<close>: the priority of a data frame, written to its header; the
  first frame of a traffic class creates the stream.  The fat pipe is recorded before the command is
  built, and a failure of the command is not looked at.
\<close>

definition pstream_usr_pri :: "wmi \<Rightarrow> skb \<Rightarrow> nat \<Rightarrow> bool \<Rightarrow> nat" where
  "pstream_usr_pri w s layer2_priority wmm_on =
     (let meta_size = (if wmi_data_hdr_get_meta s \<noteq> 0 then WMI_MAX_TX_META_SZ else 0);
          llc = WMI_DATA_HDR_LEN + meta_size + ETH_HDR_LEN;
          up = (if \<not> wmm_on then 0
                else if skb_protocol s = ETH_P_PAE then WMI_VOICE_USER_PRIORITY
                else if be16_at s (llc + 6) = IP_ETHERTYPE
                then ath6kl_wmi_determine_user_priority (skb_mem s) (skb_ptr s + int (llc + LLC_SNAP_LEN)) layer2_priority
                else layer2_priority mod 8)
      in if wmi_traffic_class w = WMM_AC_VI \<and> (up = 5 \<or> up = 4) then 1 else up)"

definition ath6kl_wmi_implicit_create_pstream ::
    "(nat \<Rightarrow> bool) \<Rightarrow> ath6kl \<Rightarrow> nat \<Rightarrow> skb \<Rightarrow> nat \<Rightarrow> bool \<Rightarrow> nat \<Rightarrow> (nat \<times> nat \<times> skb) \<times> ath6kl" where
  "ath6kl_wmi_implicit_create_pstream can ar if_idx s layer2_priority wmm_on htc_tag =
     (let up = pstream_usr_pri (drv_wmi ar) s layer2_priority wmm_on;
          tc = up_to_ac ! (up mod 8);
          tg = (if wmm_on \<and> skb_protocol s = ETH_P_PAE then ATH6KL_PRI_DATA_PKT_TAG else htc_tag);
          s1 = wmi_data_hdr_set_up s up;
          ar1 = (if bit (fat_pipe_exist (drv_wmi ar)) tc then ar
                 else snd (ath6kl_wmi_create_pstream_cmd can
                        (upd_wmi ar (\<lambda>w. w\<lparr>fat_pipe_exist := fat_pipe_exist w OR push_bit tc 1\<rparr>)) if_idx
                        (zero_pstream\<lparr>traffic_class := tc, user_pri := up, inactivity_int := WMI_IMPLICIT_PSTREAM_INACTIVITY_INT,
                                      tsid := WMI_IMPLICIT_PSTREAM\<rparr>)))
      in ((tc, tg, s1), ar1))"

section \<open>What HTC reports\<close>

text \<open>
  A packet's \<open>pkt_cntxt\<close> is its cookie; 0 stands for the null pointer.
\<close>

definition cntxt_of :: "cookie_ref \<Rightarrow> nat" where
  "cntxt_of r = (case r of DataCookie c \<Rightarrow> 2 * c + 1 | CtrlCookie c \<Rightarrow> 2 * c + 2)"

definition cookie_of_cntxt :: "nat \<Rightarrow> cookie_ref option" where
  "cookie_of_cntxt n = (if n = 0 then None else if odd n then Some (DataCookie (n div 2)) else Some (CtrlCookie (n div 2 - 1)))"

lemma cookie_of_cntxt [simp]: "cookie_of_cntxt (cntxt_of r) = Some r"
  by (cases r) (simp_all add: cookie_of_cntxt_def cntxt_of_def)

definition read_cookie :: "ath6kl \<Rightarrow> cookie_ref \<Rightarrow> ath6kl_cookie" where
  "read_cookie ar r = (case r of DataCookie c \<Rightarrow> cookie_mem (cookie_data ar) c | CtrlCookie c \<Rightarrow> cookie_mem (cookie_ctrl ar) c)"

definition free_ref :: "ath6kl \<Rightarrow> cookie_ref \<Rightarrow> ath6kl" where
  "free_ref ar r = (case r of
       DataCookie c \<Rightarrow> ar\<lparr>cookie_data := ath6kl_free_cookie (cookie_data ar) c\<rparr>
     | CtrlCookie c \<Rightarrow> ar\<lparr>cookie_ctrl := ath6kl_free_cookie (cookie_ctrl ar) c\<rparr>)"

definition ATH6KL_P2P_FLOWCTRL_REQ_STEP :: nat where "ATH6KL_P2P_FLOWCTRL_REQ_STEP = 30"

text \<open>
  \<open>ath6kl_tx_queue_full\<close>: what to do with a packet that overflows the queue of its endpoint.
  \<open>drop_thr\<close> is the \<open>tx_drop_packet_threshold\<close> of that endpoint.
\<close>

definition stop_netq :: "ath6kl \<Rightarrow> nat \<Rightarrow> ath6kl" where
  "stop_netq ar v = drv_do (upd_vif ar v (\<lambda>x. x\<lparr>netq_stopped := True\<rparr>)) [EvStopQueue v]"

definition ongoing_tx :: "ath6kl \<Rightarrow> nat" where
  "ongoing_tx ar = length (filter (bit (tx_on_vif ar)) [0..<vif_max ar])"

definition stop_netqs :: "ath6kl \<Rightarrow> htc_send_full_action \<Rightarrow> ath6kl" where
  "stop_netqs ar action =
     fold (\<lambda>v a. if (nw_type (vifs a v) = ADHOC_NETWORK \<or> action \<noteq> HTC_SEND_FULL_DROP)
                    \<and> (nw_type (vifs a v) = INFRA_NETWORK \<or> ac_stream_active_num a = 1)
                 then stop_netq a v else a) (vif_list ar) ar"

definition ath6kl_tx_queue_full :: "ath6kl \<Rightarrow> nat \<Rightarrow> htc_packet \<Rightarrow> htc_send_full_action \<times> ath6kl" where
  "ath6kl_tx_queue_full ar drop_thr p =
     (let ep = int (endpoint_pkt p); ac = ep2ac_map ar ep in
      if testmode_epping ar then
        (if tag p = ATH6KL_CONTROL_PKT_TAG then (HTC_SEND_FULL_KEEP, ar)
         else if (ac_stream_active ar WMM_AC_VO \<or> ac_stream_active ar WMM_AC_BE) \<and> (ac = WMM_AC_BE \<or> ac = WMM_AC_BK)
         then (HTC_SEND_FULL_DROP, ar)
         else (HTC_SEND_FULL_KEEP, fold (\<lambda>v a. stop_netq a v) (vif_list ar) ar))
      else if ep = ctrl_ep ar then (HTC_SEND_FULL_KEEP, drv_do (ar\<lparr>wmi_ctrl_ep_full := True\<rparr>) [EvCrashTrap])
      else if tag p = ATH6KL_CONTROL_PKT_TAG \<or> tag p = ATH6KL_PRI_DATA_PKT_TAG then (HTC_SEND_FULL_KEEP, ar)
      else if ac_stream_pri_map ar ac < hiac_stream_active_pri ar \<and> cookie_count (cookie_data ar) \<le> drop_thr
      then (HTC_SEND_FULL_DROP, stop_netqs ar HTC_SEND_FULL_DROP)
      else if vif_max ar > 1 \<and> ongoing_tx ar > 1 then (HTC_SEND_FULL_KEEP, ar)
      else (HTC_SEND_FULL_KEEP, stop_netqs ar HTC_SEND_FULL_KEEP))"

text \<open>
  \<open>ath6kl_tx_clear_node_map\<close>: the peer of a frame in an independent network; peers at the end of the
  table without pending frames leave it.
\<close>

definition zero_node :: ath6kl_node_mapping where
  "zero_node = \<lparr>nm_mac = replicate 6 0, nm_ep_id = 0, nm_tx_pend = 0\<rparr>"

fun trim_nodes :: "ath6kl \<Rightarrow> nat \<Rightarrow> ath6kl" where
  "trim_nodes ar 0 = ar"
| "trim_nodes ar (Suc i) =
     (if nm_tx_pend (node_map ar i) \<noteq> 0 then ar
      else trim_nodes (ar\<lparr>node_map := (node_map ar)(i := zero_node), node_num := node_num ar - 1\<rparr>) i)"

definition ath6kl_tx_clear_node_map :: "ath6kl \<Rightarrow> nat \<Rightarrow> int \<Rightarrow> nat \<Rightarrow> ath6kl" where
  "ath6kl_tx_clear_node_map ar v ep map_no =
     (if nw_type (vifs ar v) \<noteq> ADHOC_NETWORK \<or> \<not> ibss_ps_enable ar \<or> ep = ctrl_ep ar \<or> map_no = 0 then ar
      else
        let m = map_no - 1;
            ar1 = ar\<lparr>node_map := (node_map ar)(m := (node_map ar m)\<lparr>nm_tx_pend := nm_tx_pend (node_map ar m) - 1\<rparr>)\<rparr>
        in if nm_tx_pend (node_map ar1 m) \<noteq> 0 \<or> int m \<noteq> int (node_num ar1) - 1 then ar1
           else trim_nodes ar1 (node_num ar1))"

text \<open>
  The loop of \<open>ath6kl_tx_complete\<close>: the socket buffers collected, the last endpoint and interface
  seen, the interfaces being flushed, and whether the waiters are to be woken.
\<close>

record reap =
  rp_skbs :: "skb list"
  rp_eid :: int
  rp_vif :: "nat option"
  rp_flush :: "nat \<Rightarrow> bool"
  rp_wake :: bool

definition done_if_idx :: "ath6kl \<Rightarrow> htc_packet \<Rightarrow> nat" where
  "done_if_idx ar p =
     (if testmode_epping ar then 0
      else if int (endpoint_pkt p) = ctrl_ep ar then unat (pkt_mem p (buf p + 2) AND 0xF)
      else unat (pkt_mem p (buf p + 4) AND 0xF))"

definition count_done :: "ath6kl_vif \<Rightarrow> int \<Rightarrow> skb \<Rightarrow> ath6kl_vif" where
  "count_done x st s =
     (if st \<noteq> 0 then x\<lparr>net_tx_errors := net_tx_errors x + 1\<rparr>
      else x\<lparr>net_tx_packets := net_tx_packets x + 1, net_tx_bytes := net_tx_bytes x + skb_len s\<rparr>)"

text \<open>One packet of the loop; \<open>None\<close> is the jump to \<open>fatal\<close>, which leaves the driver state as it is.\<close>

definition reap_one :: "ath6kl \<Rightarrow> reap \<Rightarrow> htc_packet \<Rightarrow> (ath6kl \<times> reap) option" where
  "reap_one ar r p =
     (case cookie_of_cntxt (pkt_cntxt p) of
        None \<Rightarrow> None
      | Some c \<Rightarrow>
          (case ck_skb (read_cookie ar c) of
             None \<Rightarrow> None
           | Some s \<Rightarrow>
               let ep = int (endpoint_pkt p); ck = read_cookie ar c; st = status p in
               if endpoint_pkt p = ENDPOINT_MAX then None
               else if st = 0 \<and> act_len p \<noteq> skb_len s then None
               else
                 let ar1 = ar\<lparr>tx_pending := (tx_pending ar)(ep := tx_pending ar ep - 1)\<rparr>;
                     ar2 = (if testmode_epping ar1 then ar1
                            else if ep \<noteq> ctrl_ep ar1 then ar1\<lparr>total_tx_data_pend := total_tx_data_pend ar1 - 1\<rparr>
                            else ar1\<lparr>wmi_ctrl_ep_full := False\<rparr>);
                     wake = (\<not> testmode_epping ar1 \<and> ep = ctrl_ep ar1 \<and> tx_pending ar2 ep = 0);
                     if_idx = done_if_idx ar2 p;
                     r1 = r\<lparr>rp_skbs := rp_skbs r @ [s], rp_eid := ep, rp_vif := ath6kl_get_vif_by_index ar2 if_idx,
                            rp_wake := rp_wake r \<or> wake\<rparr>
                 in case ath6kl_get_vif_by_index ar2 if_idx of
                      None \<Rightarrow> Some (free_ref ar2 c, r1)
                    | Some v \<Rightarrow>
                        let ar3 = upd_vif (ar2\<lparr>tx_on_vif := tx_on_vif ar2 AND NOT (push_bit if_idx 1)\<rparr>) v (\<lambda>x. count_done x st s);
                            r2 = (if st = 0 then r1\<lparr>rp_flush := (rp_flush r1)(if_idx := False)\<rparr>
                                  else if st = - ECANCELED then r1\<lparr>rp_flush := (rp_flush r1)(if_idx := True)\<rparr> else r1);
                            ar4 = ath6kl_tx_clear_node_map ar3 v ep (ck_map_no ck);
                            ar5 = (if ck_tag ck = ATH6KL_DATA_PKT_TAG
                                   then upd_vif ar4 v (\<lambda>x. x\<lparr>data_cookie_count := data_cookie_count x - 1\<rparr>) else ar4)
                        in Some (upd_vif (free_ref ar5 c) v (\<lambda>x. x\<lparr>netq_stopped := False\<rparr>), r2)))"

fun reap_loop :: "ath6kl \<Rightarrow> reap \<Rightarrow> htc_packet list \<Rightarrow> bool \<times> ath6kl \<times> reap" where
  "reap_loop ar r [] = (True, ar, r)"
| "reap_loop ar r (p # ps) =
     (case reap_one ar r p of None \<Rightarrow> (False, ar, r) | Some (ar1, r1) \<Rightarrow> reap_loop ar1 r1 ps)"

text \<open>
  \<open>ath6kl_tx_complete\<close>.  \<open>depth\<close> is the number of packets the queue of the last endpoint still
  holds.  After a fatal packet nothing more is done: the buffers collected so far are not freed.
\<close>

definition ath6kl_tx_complete :: "ath6kl \<Rightarrow> (int \<Rightarrow> nat) \<Rightarrow> htc_packet list \<Rightarrow> ath6kl" where
  "ath6kl_tx_complete ar depth ps =
     (case reap_loop ar \<lparr>rp_skbs = [], rp_eid = 0, rp_vif = None, rp_flush = (\<lambda>_. False), rp_wake = False\<rparr> ps of
        (ok, ar1, r) \<Rightarrow>
          if \<not> ok then ar1
          else
            let ar2 = drv_do ar1 (map EvFree (rp_skbs r));
                ar3 = (if mcc_enabled ar2 then
                         (case rp_vif r of
                            None \<Rightarrow> ar2
                          | Some v \<Rightarrow> if ps \<noteq> [] \<and> \<not> rp_flush r (fw_vif_idx (vifs ar2 v)) \<and> depth (rp_eid r) < ATH6KL_P2P_FLOWCTRL_REQ_STEP
                                      then drv_do ar2 [EvNetifWake] else ar2)
                       else drv_do ar2 (map EvWakeQueue (filter (\<lambda>v. (vif_connected (vifs ar2 v) \<or> testmode_epping ar2)
                                                              \<and> \<not> rp_flush r (fw_vif_idx (vifs ar2 v))) (vif_list ar2))))
            in if rp_wake r then drv_do ar3 [EvWakeUp] else ar3)"

end
