(* ===== verification/DataTx.thy ===== *)
theory DataTx
  imports Driver
begin

text \<open>
  The transmit path of drivers/ath6kl/txrx.c: power save of an access point on the way out
  (\<open>ath6kl_powersave_ap\<close>, \<open>ath6kl_mgmt_powersave_ap\<close>), \<open>ath6kl_data_tx\<close>, the aggregation around the
  A-MSDUs of \<open>AmsduTx\<close> (\<open>aggr_tx\<close>, \<open>aggr_tx_tid\<close>, \<open>aggr_tx_timeout\<close>, \<open>aggr_tx_flush\<close>), the endpoints
  of an independent network (\<open>ath6kl_ibss_map_epid\<close>) and the handshake protection.

  \<open>v\<close> is the slot of an interface, \<open>None\<close> as a result an access outside an array.
\<close>

text \<open>
  What the operations take from around them: which allocations succeed, \<open>HZ\<close>, \<open>jiffies\<close>, and what the
  flow control scheduler for concurrent operation says of a packet (p2p.c: 0 it keeps it, negative an
  error, positive the packet is to be sent now).
\<close>

record tx_env =
  te_can :: "nat \<Rightarrow> bool"
  te_hz :: nat
  te_now :: nat
  te_sched :: "cookie_ref \<Rightarrow> int"

section \<open>Power save on the way out\<close>

definition some_asleep :: "ath6kl_vif \<Rightarrow> bool" where
  "some_asleep x \<longleftrightarrow> list_ex (\<lambda>i. has_flag (sta_flags (sta_list x i)) STA_PS_SLEEP) [0..<AP_MAX_NUM_STA]"

text \<open>
  Each returns whether the frame was kept, the flags for its header, and the driver.  A multicast
  frame waits while a station sleeps, unless a DTIM has expired.
\<close>

definition powersave_ap_tx_multicast :: "tx_env \<Rightarrow> ath6kl \<Rightarrow> nat \<Rightarrow> skb \<Rightarrow> u32 \<Rightarrow> bool \<times> u32 \<times> ath6kl" where
  "powersave_ap_tx_multicast env ar v s fl =
     (let x = vifs ar v in
      if \<not> some_asleep x then (False, fl, ar)
      else if dtim_expired x then
        (False, if ath6kl_ps_queue_empty (psq_mcast x) then fl else set_flag fl WMI_DATA_HDR_FLAGS_MORE, ar)
      else
        let was_empty = ath6kl_ps_queue_empty (psq_mcast x) in
        case drv_alloc (te_can env) ar of (ok, ar1) \<Rightarrow>
        case ath6kl_ps_queue_enqueue_data ok (psq_mcast x) s of (ret, q) \<Rightarrow>
          let ar2 = upd_vif ar1 v (\<lambda>x. x\<lparr>psq_mcast := q\<rparr>) in
          (True, fl,
           if ret \<noteq> 0 then drv_do ar2 [EvFree s]
           else if was_empty then snd (ath6kl_wmi_set_pvb_cmd (te_can env) ar2 (fw_vif_idx x) MCAST_AID True)
           else ar2))"

definition upd_conn :: "ath6kl \<Rightarrow> nat \<Rightarrow> nat \<Rightarrow> (ath6kl_sta \<Rightarrow> ath6kl_sta) \<Rightarrow> ath6kl" where
  "upd_conn ar v i f = upd_vif ar v (\<lambda>x. upd_sta x i f)"

definition conn_of :: "ath6kl \<Rightarrow> nat \<Rightarrow> nat \<Rightarrow> ath6kl_sta" where
  "conn_of ar v i = sta_list (vifs ar v) i"

definition psqs_empty :: "ath6kl_sta \<Rightarrow> bool" where
  "psqs_empty c \<longleftrightarrow> ath6kl_ps_queue_empty (psq_data c) \<and> ath6kl_ps_queue_empty (psq_mgmt c)"

text \<open>The priority of a frame that is still in Ethernet or 802.3 format.\<close>

definition eth_user_priority :: "skb \<Rightarrow> nat" where
  "eth_user_priority s =
     (let ty = be16_at s 12;
          (ety, ip) = (if is_ethertype ty then (ty, ETH_HDR_LEN) else (be16_at s (ETH_HDR_LEN + 6), ETH_HDR_LEN + LLC_SNAP_LEN))
      in if ety = IP_ETHERTYPE then ath6kl_wmi_determine_user_priority (skb_mem s) (skb_ptr s + int ip) 0 else 0)"

definition apsd_trigger :: "ath6kl_vif \<Rightarrow> ath6kl_sta \<Rightarrow> skb \<Rightarrow> bool" where
  "apsd_trigger x c s \<longleftrightarrow> apsd_info c \<noteq> 0
     \<and> bit (apsd_info c) (up_to_ac ! ((if wmm_enabled x then eth_user_priority s else 0) mod 8))"

definition powersave_ap_tx_unicast_sleep :: "tx_env \<Rightarrow> ath6kl \<Rightarrow> nat \<Rightarrow> nat \<Rightarrow> skb \<Rightarrow> ath6kl" where
  "powersave_ap_tx_unicast_sleep env ar v i s =
     (let x = vifs ar v; c = conn_of ar v i;
          trigger = apsd_trigger x c s;
          was_empty = psqs_empty c in
      case drv_alloc (te_can env) ar of (ok, ar1) \<Rightarrow>
      case ath6kl_ps_queue_enqueue_data ok (psq_data c) s of (ret, q) \<Rightarrow>
        let ar2 = upd_conn ar1 v i (\<lambda>c. c\<lparr>psq_data := q\<rparr>) in
        if ret \<noteq> 0 then drv_do ar2 [EvFree s]
        else if was_empty then
          let ar3 = (if trigger then snd (ath6kl_wmi_set_apsd_buffered_traffic_cmd (te_can env) ar2 (fw_vif_idx x) (sta_aid c) 1 0) else ar2)
          in snd (ath6kl_wmi_set_pvb_cmd (te_can env) ar3 (fw_vif_idx x) (sta_aid c) True)
        else ar2)"

text \<open>A frame that goes out to a sleeping station because it polled or triggered.\<close>

definition powersave_ap_tx_unicast_awake :: "ath6kl_sta \<Rightarrow> u32 \<Rightarrow> u32" where
  "powersave_ap_tx_unicast_awake c fl =
     (let f1 = (if psqs_empty c then fl else set_flag fl WMI_DATA_HDR_FLAGS_MORE) in
      if has_flag (sta_flags c) STA_PS_POLLED then set_flag f1 WMI_DATA_HDR_FLAGS_PSPOLLED
      else
        let f2 = set_flag f1 WMI_DATA_HDR_FLAGS_TRIGGERED
        in if has_flag (sta_flags c) STA_PS_APSD_EOSP then set_flag f2 WMI_DATA_HDR_FLAGS_EOSP else f2)"

text \<open>The station found is returned as well.\<close>

definition powersave_ap_tx_unicast :: "tx_env \<Rightarrow> ath6kl \<Rightarrow> nat \<Rightarrow> skb \<Rightarrow> u32 \<Rightarrow> bool \<times> u32 \<times> nat option \<times> ath6kl" where
  "powersave_ap_tx_unicast env ar v s fl =
     (case ath6kl_find_sta (vifs ar v) (skb_range s 0 6) of
        None \<Rightarrow> (True, fl, None, drv_do ar [EvFree s])
      | Some i \<Rightarrow>
          let c = conn_of ar v i in
          if has_flag (sta_flags c) STA_PS_SLEEP then
            (if has_flag (sta_flags c) STA_PS_POLLED \<or> has_flag (sta_flags c) STA_PS_APSD_TRIGGER
             then (False, powersave_ap_tx_unicast_awake c fl, Some i, ar)
             else (True, fl, Some i, powersave_ap_tx_unicast_sleep env ar v i s))
          else (False, fl, Some i, ar))"

definition ath6kl_powersave_ap :: "tx_env \<Rightarrow> ath6kl \<Rightarrow> nat \<Rightarrow> skb \<Rightarrow> u32 \<Rightarrow> bool \<times> u32 \<times> nat option \<times> ath6kl" where
  "ath6kl_powersave_ap env ar v s fl =
     (if is_multicast_ether_addr (skb_range s 0 6)
      then (case powersave_ap_tx_multicast env ar v s fl of (kept, f, ar1) \<Rightarrow> (kept, f, None, ar1))
      else powersave_ap_tx_unicast env ar v s fl)"

text \<open>\<open>ath6kl_mgmt_powersave_ap\<close>: the receiver of a management frame is its first address, at byte 4.\<close>

definition ath6kl_mgmt_powersave_ap ::
    "tx_env \<Rightarrow> ath6kl \<Rightarrow> nat \<Rightarrow> u32 \<Rightarrow> u32 \<Rightarrow> u32 \<Rightarrow> u8 list \<Rightarrow> bool \<Rightarrow> bool \<Rightarrow> u32 \<Rightarrow> bool \<times> u32 \<times> ath6kl" where
  "ath6kl_mgmt_powersave_ap env ar v frame_id freq wt fr no_cck no_ack fl =
     (let da = take 6 (drop 4 fr); x = vifs ar v in
      if is_multicast_ether_addr da then (False, fl, ar)
      else case ath6kl_find_sta x da of
        None \<Rightarrow> (False, fl, ar)
      | Some i \<Rightarrow>
          let c = conn_of ar v i in
          if \<not> has_flag (sta_flags c) STA_PS_SLEEP then (False, fl, ar)
          else if has_flag (sta_flags c) STA_PS_POLLED then
            (False, if psqs_empty c then fl else set_flag fl WMI_DATA_HDR_FLAGS_MORE, ar)
          else
            let was_empty = psqs_empty c in
            case drv_alloc (te_can env) ar of (ok, ar1) \<Rightarrow>
            case ath6kl_ps_queue_enqueue_mgmt ok (psq_mgmt c) fr frame_id freq wt no_cck no_ack of (ret, q) \<Rightarrow>
              let ar2 = upd_conn ar1 v i (\<lambda>c. c\<lparr>psq_mgmt := q\<rparr>) in
              (True, fl, if ret = 0 \<and> was_empty
                         then snd (ath6kl_wmi_set_pvb_cmd (te_can env) ar2 (fw_vif_idx x) (sta_aid c) True) else ar2))"

section \<open>The endpoints of an independent network\<close>

text \<open>The scan for the receiver: \<open>Inl\<close> its entry, or \<open>Inr\<close> the first entry without pending frames.\<close>

fun ibss_scan :: "(nat \<Rightarrow> ath6kl_node_mapping) \<Rightarrow> u8 list \<Rightarrow> nat list \<Rightarrow> nat option \<Rightarrow> nat + nat option" where
  "ibss_scan nm mac [] free = Inr free"
| "ibss_scan nm mac (i # is) free =
     (if nm_mac (nm i) = mac then Inl i
      else ibss_scan nm mac is (if free = None \<and> nm_tx_pend (nm i) = 0 then Some i else free))"

definition upd_node :: "ath6kl \<Rightarrow> nat \<Rightarrow> (ath6kl_node_mapping \<Rightarrow> ath6kl_node_mapping) \<Rightarrow> ath6kl" where
  "upd_node ar i f = ar\<lparr>node_map := (node_map ar)(i := f (node_map ar i))\<rparr>"

text \<open>An idle endpoint of 2 to 5, or the next one in turn.\<close>

definition ibss_pick_ep :: "ath6kl \<Rightarrow> nat \<times> ath6kl" where
  "ibss_pick_ep ar =
     (case first_slot (\<lambda>e. tx_pending ar (int e) = 0) [2..<6] of
        Some e \<Rightarrow> (e, ar)
      | None \<Rightarrow> (next_ep_id ar, ar\<lparr>next_ep_id := (if (next_ep_id ar + 1) mod 256 > 5 then 2 else (next_ep_id ar + 1) mod 256)\<rparr>))"

text \<open>
  \<open>ath6kl_ibss_map_epid\<close>: the endpoint, in 8 bits, the number of the peer's entry plus one, and the
  driver.  A full table returns \<open>ENDPOINT_UNUSED\<close>, which becomes 255.
\<close>

definition ath6kl_ibss_map_epid :: "ath6kl \<Rightarrow> skb \<Rightarrow> nat \<times> nat \<times> ath6kl" where
  "ath6kl_ibss_map_epid ar s =
     (let mac = skb_range s WMI_DATA_HDR_LEN 6 in
      if is_multicast_ether_addr mac then (2, 0, ar)
      else
        let use = (\<lambda>i a. (nm_ep_id (node_map a i), i + 1, upd_node a i (\<lambda>n. n\<lparr>nm_tx_pend := nm_tx_pend n + 1\<rparr>)));
            fresh = (\<lambda>i a. case ibss_pick_ep a of (e, a1) \<Rightarrow> use i (upd_node a1 i (\<lambda>n. n\<lparr>nm_mac := mac, nm_ep_id := e\<rparr>)))
        in case ibss_scan (node_map ar) mac [0..<node_num ar] None of
             Inl i \<Rightarrow> use i ar
           | Inr (Some i) \<Rightarrow> fresh i ar
           | Inr None \<Rightarrow>
               let ar1 = ar\<lparr>node_num := (node_num ar + 1) mod 256\<rparr>
               in if node_num ar1 > MAX_NODE_NUM then (255, 0, ar1) else fresh (node_num ar) ar1)"

section \<open>Protection of the handshake\<close>

text \<open>\<open>ath6kl_eapol_handshake_protect\<close>: scans of all interfaces are aborted while EAPOL frames go back and forth.\<close>

definition abort_scan :: "tx_env \<Rightarrow> nat \<Rightarrow> ath6kl \<Rightarrow> ath6kl" where
  "abort_scan env i ar =
     (case ath6kl_get_vif_by_index ar i of
        None \<Rightarrow> ar
      | Some v \<Rightarrow>
          if \<not> scan_req ar v then ar
          else
            let ar1 = snd (ath6kl_wmi_abort_scan_cmd (te_can env) ar (fw_vif_idx (vifs ar v)))
            in drv_do (ar1\<lparr>scan_req := (scan_req ar1)(v := False)\<rparr>) [EvScanDone v])"

definition ath6kl_eapol_handshake_protect :: "tx_env \<Rightarrow> ath6kl \<Rightarrow> nat \<Rightarrow> ath6kl" where
  "ath6kl_eapol_handshake_protect env ar v =
     fold (abort_scan env) [0..<vif_max ar]
       (ar\<lparr>eapol_protect := True, eapol_shprotect_vif := eapol_shprotect_vif ar OR push_bit (fw_vif_idx (vifs ar v)) 1\<rparr>)"

section \<open>Handing a data frame over\<close>

definition fail_tx :: "ath6kl \<Rightarrow> nat \<Rightarrow> skb \<Rightarrow> ath6kl" where
  "fail_tx ar v s =
     drv_do (upd_vif ar v (\<lambda>x. x\<lparr>net_tx_dropped := net_tx_dropped x + 1, net_tx_aborted := net_tx_aborted x + 1\<rparr>)) [EvFree s]"

definition fill_ref :: "ath6kl \<Rightarrow> cookie_ref \<Rightarrow> ath6kl_cookie \<Rightarrow> ath6kl" where
  "fill_ref ar r ck = (case r of
       DataCookie c \<Rightarrow> ar\<lparr>cookie_data := fill_cookie (cookie_data ar) c ck\<rparr>
     | CtrlCookie c \<Rightarrow> ar\<lparr>cookie_ctrl := fill_cookie (cookie_ctrl ar) c ck\<rparr>)"

text \<open>
  The end of \<open>ath6kl_data_tx\<close> and of \<open>aggr_tx_tid\<close>, once there is a cookie: the flow control may keep
  the packet, or refuse it; the jump to \<open>fail_tx\<close> then leaves the cookie and the counts as they are.
\<close>

definition send_cookie :: "tx_env \<Rightarrow> ath6kl \<Rightarrow> nat \<Rightarrow> cookie_ref \<Rightarrow> ath6kl_cookie \<Rightarrow> skb \<Rightarrow> int \<times> ath6kl" where
  "send_cookie env ar v r ck s =
     (let ar1 = fill_ref ar r ck;
          sent = drv_do (ar1\<lparr>tx_on_vif := tx_on_vif ar1 OR push_bit (fw_vif_idx (vifs ar1 v)) 1\<rparr>) [EvTx r ck (Some v)]
      in if conf_flowctrl ar1 then
           (if te_sched env r = 0 then (0, drv_do ar1 [EvSchedule r ck])
            else if te_sched env r < 0 then (- EINVAL, fail_tx ar1 v s)
            else (0, sent))
         else (0, sent))"

definition count_pending :: "ath6kl \<Rightarrow> int \<Rightarrow> ath6kl" where
  "count_pending ar ep = ar\<lparr>tx_pending := (tx_pending ar)(ep := tx_pending ar ep + 1), total_tx_data_pend := total_tx_data_pend ar + 1\<rparr>"

definition ep_ok :: "int \<Rightarrow> bool" where
  "ep_ok ep \<longleftrightarrow> 0 \<le> ep \<and> ep < int ENDPOINT_MAX"

section \<open>Aggregation around a frame\<close>

definition upd_txtid :: "ath6kl \<Rightarrow> nat \<Rightarrow> nat \<Rightarrow> nat \<Rightarrow> aggr_info \<Rightarrow> txtid \<Rightarrow> ath6kl" where
  "upd_txtid ar v i k a t = upd_vif ar v (\<lambda>x. (upd_sta x i (\<lambda>c. c\<lparr>sta_tx := (sta_tx c)(k := t)\<rparr>))\<lparr>aggr_cntxt := a\<rparr>)"

text \<open>
  \<open>aggr_tx\<close>: the status and what \<open>*skb\<close> is afterwards.  The buffer for a new aggregate is allocated
  only when there is none and the peer agreed to aggregation.
\<close>

definition aggr_tx :: "tx_env \<Rightarrow> ath6kl \<Rightarrow> nat \<Rightarrow> nat option \<Rightarrow> skb \<Rightarrow> aggr_tx_status \<times> skb option \<times> ath6kl" where
  "aggr_tx env ar v sta s =
     (let x = vifs ar v; a = aggr_cntxt x in
      if \<not> tx_aggregatable a s then (AGGR_TX_BYPASS, Some s, ar)
      else case (case sta of None \<Rightarrow> ath6kl_find_sta x (skb_range s WMI_DATA_HDR_LEN 6) | Some i \<Rightarrow> Some i) of
        None \<Rightarrow> (AGGR_TX_DROP, Some s, ar)
      | Some i \<Rightarrow>
          let c = conn_of ar v i; k = wmi_data_hdr_get_up (skb_at s 1); t = sta_tx c k in
          if nw_type x = AP_NETWORK \<and> sta_flags c AND (STA_PS_SLEEP OR STA_PS_POLLED OR STA_PS_APSD_TRIGGER) \<noteq> 0
          then (AGGR_TX_BYPASS, Some s, ar)
          else
            let (ok, ar1) = (if max_aggr_sz t \<noteq> 0 \<and> amsdu_skb t = None then drv_alloc (te_can env) ar else (True, ar))
            in case aggr_tx_add ok (te_hz env) (te_now env) (nw_type x = INFRA_NETWORK)
                      (if nw_type x = INFRA_NETWORK then vif_bssid x else sta_mac c) (dev_addr x) a t s of
                 (st, s1, fr, a1, t1) \<Rightarrow> (st, s1, drv_do (upd_txtid ar1 v i k a1 t1) (map EvFree fr)))"

text \<open>
  \<open>aggr_tx_tid\<close>: an incomplete aggregate of identifier \<open>k\<close> of station \<open>i\<close> goes out, because of the timer or
  before a frame that is not aggregated.
\<close>

definition aggr_tx_tid :: "tx_env \<Rightarrow> ath6kl \<Rightarrow> nat \<Rightarrow> nat \<Rightarrow> nat \<Rightarrow> bool \<Rightarrow> (int \<times> ath6kl) option" where
  "aggr_tx_tid env ar v i k timer_stop =
     (let x = vifs ar v; a = aggr_cntxt x; t0 = sta_tx (conn_of ar v i) k in
      case amsdu_skb t0 of
        None \<Rightarrow> Some (- EINVAL, upd_txtid ar v i k a (t0\<lparr>tx_num_null := tx_num_null t0 + 1\<rparr>))
      | Some b \<Rightarrow>
          let t1 = (if timer_stop then t0\<lparr>tx_num_flush := tx_num_flush t0 + 1\<rparr> else t0\<lparr>tx_num_timeout := tx_num_timeout t0 + 1\<rparr>) in
          case (if nw_type x = INFRA_NETWORK then Some (vif_bssid x)
                else map_option (\<lambda>j. sta_mac (conn_of ar v j)) (ath6kl_find_sta_by_aid x (tx_aid t1))) of
            None \<Rightarrow> (case aggr_tx_reset_aggr t1 True timer_stop of
                       (fr, t2) \<Rightarrow> Some (- EINVAL, drv_do (upd_txtid ar v i k a t2) (map EvFree fr)))
          | Some dst \<Rightarrow>
              let s = amsdu_close t1 b (amsdu_lastpdu_len t1) dst (dev_addr x) in
              (case aggr_tx_progressive (te_hz env) (te_now env) (nw_type x = INFRA_NETWORK) (\<not> timer_stop) a
                      (snd (aggr_tx_reset_aggr (amsdu_sent t1) False timer_stop)) of
                 (a1, t2) \<Rightarrow>
                   let ar1 = upd_txtid ar v i k a1 t2;
                       ep = ac2ep_map ar1 (up_to_ac ! (wmi_data_hdr_get_up (skb_at s 1)))
                   in if ep = 0 \<or> ep = ENDPOINT_UNUSED then Some (- EINVAL, fail_tx ar1 v s)
                      else if \<not> ep_ok ep then None
                      else (case ath6kl_alloc_cookie (cookie_data ar1) of
                              (None, p) \<Rightarrow> Some (- EINVAL, fail_tx (ar1\<lparr>cookie_data := p\<rparr>) v s)
                            | (Some c, p) \<Rightarrow>
                                Some (send_cookie env
                                  (count_pending (upd_vif (ar1\<lparr>cookie_data := p\<rparr>) v (\<lambda>x. x\<lparr>data_cookie_count := data_cookie_count x + 1\<rparr>)) ep)
                                  v (DataCookie c) \<lparr>ck_skb = Some s, ck_map_no = 0, ck_eid = ep, ck_tag = ATH6KL_DATA_PKT_TAG\<rparr> s))))"

definition aggr_tx_timeout :: "tx_env \<Rightarrow> ath6kl \<Rightarrow> nat \<Rightarrow> nat \<Rightarrow> nat \<Rightarrow> ath6kl option" where
  "aggr_tx_timeout env ar v i k = map_option snd (aggr_tx_tid env ar v i k False)"

fun flush_tids :: "tx_env \<Rightarrow> ath6kl \<Rightarrow> nat \<Rightarrow> nat \<Rightarrow> nat list \<Rightarrow> ath6kl option" where
  "flush_tids env ar v i [] = Some ar"
| "flush_tids env ar v i (k # ks) =
     (case aggr_tx_tid env ar v i k True of None \<Rightarrow> None | Some (_, ar1) \<Rightarrow> flush_tids env ar1 v i ks)"

text \<open>Without a station: the access point itself, or the only peer; on another network \<open>BUG_ON\<close>.\<close>

definition aggr_tx_flush :: "tx_env \<Rightarrow> ath6kl \<Rightarrow> nat \<Rightarrow> nat option \<Rightarrow> ath6kl option" where
  "aggr_tx_flush env ar v sta =
     (case sta of
        Some i \<Rightarrow> flush_tids env ar v i (rev [0..<NUM_OF_TIDS])
      | None \<Rightarrow> if nw_type (vifs ar v) = INFRA_NETWORK then flush_tids env ar v 0 (rev [0..<NUM_OF_TIDS])
                else if nw_type (vifs ar v) = AP_NETWORK then Some ar
                else None)"

section \<open>A data frame\<close>

definition EPPING_ALIGNMENT_PAD :: nat where "EPPING_ALIGNMENT_PAD = 2"
definition HCI_TRANSPORT_STREAM_NUM :: nat where "HCI_TRANSPORT_STREAM_NUM = 16"

definition IS_EPPING_PACKET :: "skb \<Rightarrow> bool" where
  "IS_EPPING_PACKET s \<longleftrightarrow> skb_range s 12 4 = [0xAA, 0x55, 0xCE, 0xEC]"

definition IS_EPING_PACKET_NO_DROP :: "skb \<Rightarrow> bool" where
  "IS_EPING_PACKET_NO_DROP s \<longleftrightarrow> bit (skb_at s 42) 2"

text \<open>
  Head room for the headers: a frame without enough is copied to a buffer of the driver, which has no
  protocol.  On failure the frame is counted as dropped here and again at \<open>fail_tx\<close>.
\<close>

definition data_room :: "tx_env \<Rightarrow> ath6kl \<Rightarrow> nat \<Rightarrow> skb \<Rightarrow> bool \<times> skb \<times> ath6kl" where
  "data_room env ar v s =
     (if skb_headroom s < needed_headroom (vifs ar v) then
        (case ath6kl_buf_alloc (te_can env) ar of
           (None, ar1) \<Rightarrow> (False, s, upd_vif ar1 v (\<lambda>x. x\<lparr>net_tx_dropped := net_tx_dropped x + 1\<rparr>))
         | (Some b, ar1) \<Rightarrow> (True, skb_store (b\<lparr>skb_len := skb_len s\<rparr>) 0 (skb_bytes s), drv_do ar1 [EvFree s]))
      else (True, s, ar))"

text \<open>
  The headers of a frame: the frame to free when it cannot be sent, or the frame, its access
  category (99 when not known), its tag, and whether the endpoint is chosen by the peer.
\<close>

definition data_encap ::
    "tx_env \<Rightarrow> ath6kl \<Rightarrow> nat \<Rightarrow> skb \<Rightarrow> u32 \<Rightarrow> (skb + skb \<times> nat \<times> nat \<times> bool) \<times> ath6kl" where
  "data_encap env ar v s fl =
     (let x = vifs ar v in
      if wmi_enabled ar then
        (case data_room env ar v s of (ok, s1, ar1) \<Rightarrow>
           if \<not> ok then (Inl s1, ar1)
           else case ath6kl_wmi_dix_2_dot3 s1 of (ret, s2) \<Rightarrow>
             if ret \<noteq> 0 then (Inl s2, ar1)
             else case ath6kl_wmi_data_hdr_add (vif_max ar1) s2 DATA_MSGTYPE fl 0 0 None (fw_vif_idx x) of (ret, s3) \<Rightarrow>
               if ret \<noteq> 0 then (Inl s3, ar1)
               else if nw_type x = ADHOC_NETWORK \<and> ibss_ps_enable ar1 \<and> vif_connected x
               then (Inr (s3, 99, ATH6KL_DATA_PKT_TAG, True), ar1)
               else (case ath6kl_wmi_implicit_create_pstream (te_can env) ar1 (fw_vif_idx x) s3 0 (wmm_enabled x) ATH6KL_DATA_PKT_TAG of
                       ((ac, tg, s4), ar2) \<Rightarrow> (Inr (s4, ac, tg, False), ar2)))
      else if testmode_epping ar then
        (if IS_EPPING_PACKET s \<and> unat (skb_at s 11) \<noteq> HCI_TRANSPORT_STREAM_NUM
         then (Inr (skb_push EPPING_ALIGNMENT_PAD s, unat (skb_at s 11),
                    if IS_EPING_PACKET_NO_DROP s then ATH6KL_CONTROL_PKT_TAG else ATH6KL_DATA_PKT_TAG, False), ar)
         else (Inl s, ar))
      else (Inl s, ar))"

text \<open>
  The endpoint of the frame, then a cookie: of the data pool for the data tag, unless channels are
  shared and the interface has too many; of the control pool otherwise.  An access category outside
  the map reads what lies there.
\<close>

definition data_endpoint :: "ath6kl \<Rightarrow> skb \<Rightarrow> nat \<Rightarrow> bool \<Rightarrow> int option \<times> nat \<times> ath6kl" where
  "data_endpoint ar s ac by_peer =
     (case (if by_peer then (case ath6kl_ibss_map_epid ar s of (e, m, a) \<Rightarrow> (int e, m, a)) else (ac2ep_map ar ac, 0, ar)) of
        (ep, map_no, ar1) \<Rightarrow>
          (if ep = 0 \<or> ep = ENDPOINT_UNUSED
           then (if ac = WMM_NUM_AC \<and> testmode_epping ar1 then (Some (ctrl_ep ar1), map_no, ar1) else (None, map_no, ar1))
           else (Some ep, map_no, ar1)))"

definition data_cookie :: "ath6kl \<Rightarrow> nat \<Rightarrow> nat \<Rightarrow> cookie_ref option \<times> ath6kl" where
  "data_cookie ar v tg =
     (if tg = ATH6KL_DATA_PKT_TAG then
        (if mcc_enabled ar \<and> unat (data_cookie_count (vifs ar v)) > MAX_VIF_COOKIE_NUM then (None, ar)
         else case ath6kl_alloc_cookie (cookie_data ar) of (c, p) \<Rightarrow> (map_option DataCookie c, ar\<lparr>cookie_data := p\<rparr>))
      else case ath6kl_alloc_cookie (cookie_ctrl ar) of (c, p) \<Rightarrow> (map_option CtrlCookie c, ar\<lparr>cookie_ctrl := p\<rparr>))"

text \<open>A cloned frame whose header would not be aligned is copied on USB; without memory the cookie is lost.\<close>

definition data_align :: "tx_env \<Rightarrow> ath6kl \<Rightarrow> skb \<Rightarrow> skb option \<times> ath6kl" where
  "data_align env ar s =
     (if low_cpu_power_tx_bundle_max ar = 0 \<and> (skb_ptr s - int HTC_HDR_LENGTH) mod 4 \<noteq> 0 \<and> skb_cloned s then
        (case drv_alloc (te_can env) ar of (ok, ar1) \<Rightarrow>
           if ok then (Some (s\<lparr>skb_id := None, skb_head := skb_ptr s - int HTC_HDR_LENGTH, skb_cloned := False\<rparr>), drv_do ar1 [EvFree s])
           else (None, ar1))
      else (Some s, ar))"

definition data_send :: "tx_env \<Rightarrow> ath6kl \<Rightarrow> nat \<Rightarrow> skb \<Rightarrow> nat \<Rightarrow> nat \<Rightarrow> bool \<Rightarrow> ath6kl option" where
  "data_send env ar v s ac tg by_peer =
     (case data_endpoint ar s ac by_peer of
        (None, _, ar1) \<Rightarrow> Some (fail_tx ar1 v s)
      | (Some ep, map_no, ar1) \<Rightarrow>
          (case data_cookie ar1 v tg of
             (None, ar2) \<Rightarrow> Some (fail_tx ar2 v s)
           | (Some r, ar2) \<Rightarrow>
               if \<not> ep_ok ep then None
               else
                 let ar3 = (if tg = ATH6KL_DATA_PKT_TAG then upd_vif ar2 v (\<lambda>x. x\<lparr>data_cookie_count := data_cookie_count x + 1\<rparr>) else ar2)
                 in case data_align env (count_pending ar3 ep) s of
                      (None, ar4) \<Rightarrow> Some (fail_tx ar4 v s)
                    | (Some s1, ar4) \<Rightarrow>
                        Some (snd (send_cookie env ar4 v r \<lparr>ck_skb = Some s1, ck_map_no = map_no, ck_eid = ep, ck_tag = tg\<rparr> s1))))"

text \<open>The transmit aggregation of \<open>ath6kl_data_tx\<close>, and the rest.\<close>

definition data_aggr :: "tx_env \<Rightarrow> ath6kl \<Rightarrow> nat \<Rightarrow> nat option \<Rightarrow> bool \<Rightarrow> skb \<Rightarrow> nat \<Rightarrow> nat \<Rightarrow> bool \<Rightarrow> ath6kl option" where
  "data_aggr env ar v sta bypass s ac tg by_peer =
     (let x = vifs ar v in
      if amsdu_enabled x \<and> \<not> bypass \<and> tx_amsdu_enable (aggr_cntxt x) \<and> \<not> by_peer \<and> (nw_type x = INFRA_NETWORK \<or> nw_type x = AP_NETWORK) then
        (case aggr_tx env ar v sta s of
           (st, so, ar1) \<Rightarrow>
             if st = AGGR_TX_OK then Some ar1
             else if st = AGGR_TX_DROP then Some (fail_tx ar1 v s)
             else case so of
               None \<Rightarrow> None
             | Some s1 \<Rightarrow>
                 if tx_amsdu_seq_pkt (aggr_cntxt (vifs ar1 v)) \<and> st = AGGR_TX_BYPASS
                 then (case aggr_tx_flush env ar1 v sta of None \<Rightarrow> None | Some ar2 \<Rightarrow> data_send env ar2 v s1 ac tg by_peer)
                 else data_send env ar1 v s1 ac tg by_peer)
      else data_send env ar v s ac tg by_peer)"

definition data_out :: "tx_env \<Rightarrow> ath6kl \<Rightarrow> nat \<Rightarrow> nat option \<Rightarrow> bool \<Rightarrow> skb \<Rightarrow> u32 \<Rightarrow> ath6kl option" where
  "data_out env ar v sta bypass s fl =
     (case data_encap env ar v s fl of
        (Inl s1, ar1) \<Rightarrow> Some (fail_tx ar1 v s1)
      | (Inr (s1, ac, tg, by_peer), ar1) \<Rightarrow>
          let ar2 = (if vif_connected (vifs ar1 v) \<and> skb_protocol s1 = ETH_P_PAE then ath6kl_eapol_handshake_protect env ar1 v else ar1)
          in data_aggr env ar2 v sta bypass s1 ac tg by_peer)"

definition ath6kl_data_tx :: "tx_env \<Rightarrow> ath6kl \<Rightarrow> nat \<Rightarrow> skb \<Rightarrow> bool \<Rightarrow> ath6kl option" where
  "ath6kl_data_tx env ar v s bypass =
     (let x = vifs ar v in
      if \<not> vif_connected x \<and> \<not> testmode_epping ar then Some (drv_do ar [EvFree s])
      else if \<not> wmi_ready ar \<and> \<not> testmode_epping ar then Some (fail_tx ar v s)
      else
        let (ok, s1, ar1) =
          (if conf_skb_dup ar \<and> skb_cloned s
           then (case drv_alloc (te_can env) ar of (ok, a) \<Rightarrow> if ok then (True, s\<lparr>skb_id := None, skb_cloned := False\<rparr>, drv_do a [EvFree s]) else (False, s, a))
           else (True, s, ar))
        in if \<not> ok then Some (fail_tx ar1 v s1)
           else if nw_type x = AP_NETWORK then
             (case ath6kl_powersave_ap env ar1 v s1 0 of
                (kept, fl, sta, ar2) \<Rightarrow> if kept then Some ar2 else data_out env ar2 v sta bypass s1 fl)
           else data_out env ar1 v None bypass s1 0)"

definition ath6kl_start_tx :: "tx_env \<Rightarrow> ath6kl \<Rightarrow> nat \<Rightarrow> skb \<Rightarrow> ath6kl option" where
  "ath6kl_start_tx env ar v s = ath6kl_data_tx env ar v s False"

end
