(* ===== verification/ApPowerSave.thy ===== *)
theory ApPowerSave
  imports DataTx
begin

text \<open>
  Delivery to stations that slept (drivers/ath6kl/txrx.c: \<open>ath6kl_uapsd_trigger_frame_rx\<close>,
  \<open>_powersave_ap_rx\<close>; drivers/ath6kl/main.c: \<open>ath6kl_pspoll_event\<close>, \<open>ath6kl_dtimexpiry_event\<close>,
  \<open>ath6kl_ps_queue_age_handler\<close>), with the commands that carry management frames
  (drivers/ath6kl/wmi.c: \<open>ath6kl_wmi_send_action_cmd\<close>, \<open>ath6kl_wmi_send_probe_response_cmd\<close>,
  \<open>ath6kl_wmi_send_go_probe_response_cmd\<close>).

  The loops that run until a queue is empty are \<open>partial_function (option)\<close>, so that not ending is the
  result \<open>None\<close>; that they end is proved below.
\<close>

section \<open>Management frames\<close>

definition frame_control :: "u8 list \<Rightarrow> u16" where
  "frame_control fr = of_nat (le16 (fr ! 0) (fr ! 1))"

definition ieee80211_is_action :: "u8 list \<Rightarrow> bool" where
  "ieee80211_is_action fr \<longleftrightarrow> frame_control fr AND 0xFC = 0xD0"

definition ieee80211_is_probe_resp :: "u8 list \<Rightarrow> bool" where
  "ieee80211_is_probe_resp fr \<longleftrightarrow> frame_control fr AND 0xFC = 0x50"

text \<open>\<open>ath6kl_p2p_frame_retry\<close>: a P2P public action frame that confirms a negotiation; \<open>frm\<close> starts at the category.\<close>

definition ath6kl_p2p_frame_retry :: "ath6kl \<Rightarrow> u8 list \<Rightarrow> bool" where
  "ath6kl_p2p_frame_retry ar frm \<longleftrightarrow> p2p_frame_retry ar \<and> length frm \<ge> 8 \<and> take 7 frm = [4, 9, 0x50, 0x6F, 0x9A, 9, 2]"

text \<open>
  \<open>ath6kl_wmi_send_action_cmd\<close>: a frame that asks to wait is refused.  A P2P action frame is kept until
  its status arrives.
\<close>

definition ath6kl_wmi_send_action_cmd :: "(nat \<Rightarrow> bool) \<Rightarrow> ath6kl \<Rightarrow> nat \<Rightarrow> u32 \<Rightarrow> u32 \<Rightarrow> u32 \<Rightarrow> u8 list \<Rightarrow> int \<times> ath6kl" where
  "ath6kl_wmi_send_action_cmd can ar if_idx frame_id freq wt dat =
     (if wt \<noteq> 0 then (- EINVAL, ar)
      else
        let keep = (drv_p2p ar \<and> ieee80211_is_action dat);
            (ok1, ar1) = (if keep then drv_alloc can ar else (True, ar));
            (ok2, ar2) = (if keep \<and> ok1 then drv_alloc can ar1 else (ok1, ar1))
        in if \<not> ok2 then (- ENOMEM, ar2)
           else
             let fr = \<lparr>mgmt_vif = ath6kl_get_vif_by_index ar2 if_idx, mgmt_frame = dat, mgmt_idx = frame_id, mgmt_freq = freq,
                       mgmt_retry = (if ath6kl_p2p_frame_retry ar2 (drop 24 dat) then WMI_TX_MGMT_RETRY_MAX else 0)\<rparr>;
                 ar3 = (if keep then upd_wmi ar2 (\<lambda>w. w\<lparr>mgmt_tx_frame_list := mgmt_tx_frame_list w @ [fr]\<rparr>) else ar2);
                 body = le32_bytes frame_id @ le32_bytes freq @ le32_bytes wt @ le16_bytes (of_nat (length dat)) @ dat
             in case ath6kl_wmi_get_new_buf can ar3 (length body) of
                  (None, ar4) \<Rightarrow> (- ENOMEM, if keep then upd_wmi ar4 (\<lambda>w. w\<lparr>mgmt_tx_frame_list := butlast (mgmt_tx_frame_list w)\<rparr>) else ar4)
                | (Some s, ar4) \<Rightarrow> ath6kl_wmi_cmd_send can ar4 if_idx (skb_store s 0 body) WMI_SEND_ACTION_CMDID NO_SYNC_WMIFLAG)"

text \<open>An empty probe response is sent with one byte, for a minimum length of the target.\<close>

definition ath6kl_wmi_send_probe_response_cmd :: "(nat \<Rightarrow> bool) \<Rightarrow> ath6kl \<Rightarrow> nat \<Rightarrow> u32 \<Rightarrow> u8 list \<Rightarrow> u8 list \<Rightarrow> int \<times> ath6kl" where
  "ath6kl_wmi_send_probe_response_cmd can ar if_idx freq dst dat =
     wmi_cmd can ar if_idx WMI_SEND_PROBE_RESPONSE_CMDID
       (le32_bytes freq @ dst @ le16_bytes (of_nat (length dat)) @ (if dat = [] then [0] else dat))"

definition ath6kl_is_p2p_ie :: "u8 list \<Rightarrow> bool" where
  "ath6kl_is_p2p_ie pos \<longleftrightarrow> pos ! 0 = 221 \<and> pos ! 1 \<ge> 4 \<and> take 4 (drop 2 pos) = [0x50, 0x6F, 0x9A, 9]"

definition ath6kl_is_wfd_ie :: "u8 list \<Rightarrow> bool" where
  "ath6kl_is_wfd_ie pos \<longleftrightarrow> pos ! 0 = 221 \<and> pos ! 1 \<ge> 4 \<and> take 4 (drop 2 pos) = [0x50, 0x6F, 0x9A, 10]"

text \<open>The P2P and the WFD elements of a frame, in order, up to the first that does not fit.\<close>

fun vendor_ies :: "u8 list \<Rightarrow> u8 list \<times> u8 list" where
  "vendor_ies (t # l # rest) =
     (let pos = t # l # rest; ie = take (2 + unat l) pos in
      if unat l > length rest then ([], [])
      else case vendor_ies (drop (unat l) rest) of (p, w) \<Rightarrow>
        if ath6kl_is_p2p_ie pos then (ie @ p, w) else if ath6kl_is_wfd_ie pos then (p, ie @ w) else (p, w))"
| "vendor_ies _ = ([], [])"

text \<open>\<open>ath6kl_p2p_ps_user_app_ie\<close> for a probe response: the notice of absence is appended when there is memory.\<close>

definition ath6kl_p2p_ps_user_app_ie :: "(nat \<Rightarrow> bool) \<Rightarrow> ath6kl \<Rightarrow> nat \<Rightarrow> u8 list \<Rightarrow> u8 list \<times> ath6kl" where
  "ath6kl_p2p_ps_user_app_ie can ar v ie =
     (case go_noa ar v of
        None \<Rightarrow> (ie, ar)
      | Some noa \<Rightarrow> if ie = [] then (ie, ar) else (case drv_alloc can ar of (ok, ar1) \<Rightarrow> (if ok then ie @ noa else ie, ar1)))"

definition ath6kl_wmi_send_go_probe_response_cmd :: "(nat \<Rightarrow> bool) \<Rightarrow> ath6kl \<Rightarrow> nat \<Rightarrow> u8 list \<Rightarrow> u32 \<Rightarrow> int \<times> ath6kl" where
  "ath6kl_wmi_send_go_probe_response_cmd can ar v fr freq =
     (case drv_alloc can ar of (ok1, ar1) \<Rightarrow>
        if \<not> ok1 then (- ENOMEM, ar1)
        else case drv_alloc can ar1 of (ok2, ar2) \<Rightarrow>
          if \<not> ok2 then (- ENOMEM, ar2)
          else case vendor_ies (drop 36 fr) of (p, w) \<Rightarrow>
            case ath6kl_p2p_ps_user_app_ie can ar2 v p of (p1, ar3) \<Rightarrow>
              let (ok3, ar4) = (if w \<noteq> [] then drv_alloc can ar3 else (True, ar3))
              in if \<not> ok3 then (- ENOMEM, ar4)
                 else ath6kl_wmi_send_probe_response_cmd can ar4 (fw_vif_idx (vifs ar4 v)) freq (take 6 (drop 4 fr)) (p1 @ w))"

text \<open>What all delivery routines do with a management frame that waited.\<close>

definition send_mgmt :: "(nat \<Rightarrow> bool) \<Rightarrow> ath6kl \<Rightarrow> nat \<Rightarrow> ps_buf_desc \<Rightarrow> ath6kl" where
  "send_mgmt can ar v d =
     (if psb_len d \<ge> 36 \<and> ieee80211_is_probe_resp (psb_buf d)
      then snd (ath6kl_wmi_send_go_probe_response_cmd can ar v (psb_buf d) (psb_freq d))
      else snd (ath6kl_wmi_send_action_cmd can ar (fw_vif_idx (vifs ar v)) (psb_id d) (psb_freq d) (psb_wait d) (psb_buf d)))"

section \<open>Ageing\<close>

text \<open>The management queue ages only when no data frames wait.\<close>

definition ath6kl_ps_queue_age_handler :: "(nat \<Rightarrow> bool) \<Rightarrow> ath6kl \<Rightarrow> nat \<Rightarrow> nat \<Rightarrow> ath6kl" where
  "ath6kl_ps_queue_age_handler can ar v i =
     (let c = conn_of ar v i in
      case ath6kl_ps_queue_aging (psq_data c) of (e1, fr1, q1) \<Rightarrow>
        let (e2, fr2, q2) = (if e1 then ath6kl_ps_queue_aging (psq_mgmt c) else (False, [], psq_mgmt c));
            ar1 = drv_do (upd_conn ar v i (\<lambda>c. c\<lparr>psq_data := q1, psq_mgmt := q2\<rparr>)) (map EvFree (fr1 @ fr2));
            ar2 = (if e2 then snd (ath6kl_wmi_set_pvb_cmd can ar1 (fw_vif_idx (vifs ar v)) (sta_aid c) False) else ar1)
        in if psq_age_active c then upd_conn ar2 v i (\<lambda>c. c\<lparr>psq_age_timer := Some ATH6KL_PS_QUEUE_CHECK_AGE\<rparr>) else ar2)"

definition ath6kl_ps_queue_age_start :: "ath6kl_sta \<Rightarrow> ath6kl_sta" where
  "ath6kl_ps_queue_age_start c = (if psq_age_active c then c\<lparr>psq_age_timer := Some ATH6KL_PS_QUEUE_CHECK_AGE\<rparr> else c)"

definition ath6kl_ps_queue_age_stop :: "ath6kl_sta \<Rightarrow> ath6kl_sta" where
  "ath6kl_ps_queue_age_stop c = (if psq_age_active c then c\<lparr>psq_age_timer := None\<rparr> else c)"

section \<open>u-APSD\<close>

definition WMI_AP_APSD_NO_DELIVERY_FRAMES_FOR_THIS_TRIGGER :: u32 where "WMI_AP_APSD_NO_DELIVERY_FRAMES_FOR_THIS_TRIGGER = 1"

definition sta_set :: "ath6kl \<Rightarrow> nat \<Rightarrow> nat \<Rightarrow> u16 \<Rightarrow> ath6kl" where
  "sta_set ar v i f = upd_conn ar v i (\<lambda>c. c\<lparr>sta_flags := set_flag (sta_flags c) f\<rparr>)"

definition sta_clear :: "ath6kl \<Rightarrow> nat \<Rightarrow> nat \<Rightarrow> u16 \<Rightarrow> ath6kl" where
  "sta_clear ar v i f = upd_conn ar v i (\<lambda>c. c\<lparr>sta_flags := clear_flag (sta_flags c) f\<rparr>)"

definition set_mgmtq :: "ath6kl \<Rightarrow> nat \<Rightarrow> nat \<Rightarrow> ps_buf_head \<Rightarrow> ath6kl" where
  "set_mgmtq ar v i q = upd_conn ar v i (\<lambda>c. c\<lparr>psq_mgmt := q\<rparr>)"

definition set_dataq :: "ath6kl \<Rightarrow> nat \<Rightarrow> nat \<Rightarrow> ps_buf_head \<Rightarrow> ath6kl" where
  "set_dataq ar v i q = upd_conn ar v i (\<lambda>c. c\<lparr>psq_data := q\<rparr>)"

text \<open>The flags of the station around one frame of a service period; \<open>fin\<close> marks its end.\<close>

definition triggered :: "ath6kl \<Rightarrow> nat \<Rightarrow> nat \<Rightarrow> bool \<Rightarrow> ath6kl" where
  "triggered ar v i fin =
     (let ar1 = sta_set ar v i STA_PS_APSD_TRIGGER in if fin then sta_set ar1 v i STA_PS_APSD_EOSP else ar1)"

definition untriggered :: "ath6kl \<Rightarrow> nat \<Rightarrow> nat \<Rightarrow> ath6kl" where
  "untriggered ar v i = sta_clear (sta_clear ar v i STA_PS_APSD_TRIGGER) v i STA_PS_APSD_EOSP"

text \<open>
  The loop of a service period with \<open>n\<close> frames to go: whether the queues were empty after the last
  frame was taken, and the driver.  A turn that takes no frame would repeat for ever; a frame without
  a socket buffer has no result.
\<close>

fun uapsd_loop :: "tx_env \<Rightarrow> ath6kl \<Rightarrow> nat \<Rightarrow> nat \<Rightarrow> bool \<Rightarrow> nat \<Rightarrow> (bool \<times> ath6kl) option" where
  "uapsd_loop env ar v i is_empty 0 = Some (is_empty, ar)"
| "uapsd_loop env ar v i is_empty (Suc n) =
     (if is_empty then Some (is_empty, ar)
      else
        let c = conn_of ar v i in
        if \<not> ath6kl_ps_queue_empty (psq_mgmt c) then
          (case ath6kl_ps_queue_dequeue (psq_mgmt c) of
             (None, _) \<Rightarrow> None
           | (Some d, q) \<Rightarrow>
               let ar1 = set_mgmtq ar v i q;
                   e = psqs_empty (conn_of ar1 v i)
               in uapsd_loop env (untriggered (send_mgmt (te_can env) (triggered ar1 v i (e \<or> n = 0)) v d) v i) v i e n)
        else
          (case ath6kl_ps_queue_dequeue (psq_data c) of
             (None, _) \<Rightarrow> None
           | (Some d, q) \<Rightarrow>
               let ar1 = set_dataq ar v i q;
                   e = psqs_empty (conn_of ar1 v i)
               in case psb_skb d of
                    None \<Rightarrow> None
                  | Some s \<Rightarrow>
                      (case ath6kl_data_tx env (triggered ar1 v i (e \<or> n = 0)) v s True of
                         None \<Rightarrow> None
                       | Some ar2 \<Rightarrow> uapsd_loop env (untriggered ar2 v i) v i e n)))"

definition uapsd_frames :: "u8 \<Rightarrow> nat" where
  "uapsd_frames info = (let n = unat (drop_bit 4 info AND 0xF) in if n = 0 then 0xFFFF else n)"

definition ath6kl_uapsd_trigger_frame_rx :: "tx_env \<Rightarrow> ath6kl \<Rightarrow> nat \<Rightarrow> nat \<Rightarrow> ath6kl option" where
  "ath6kl_uapsd_trigger_frame_rx env ar v i =
     (let at_start = psqs_empty (conn_of ar v i) in
      case uapsd_loop env ar v i at_start (uapsd_frames (apsd_info (conn_of ar v i))) of
        None \<Rightarrow> None
      | Some (e, ar1) \<Rightarrow>
          let idx = fw_vif_idx (vifs ar1 v); aid = sta_aid (conn_of ar1 v i) in
          Some (if e then
                  snd (ath6kl_wmi_set_apsd_buffered_traffic_cmd (te_can env)
                         (snd (ath6kl_wmi_set_pvb_cmd (te_can env) ar1 idx aid False)) idx aid 0
                         (if at_start then WMI_AP_APSD_NO_DELIVERY_FRAMES_FOR_THIS_TRIGGER else 0))
                else ar1))"

section \<open>Waking up, polling and DTIM\<close>

partial_function (option) drain_mgmt :: "(nat \<Rightarrow> bool) \<Rightarrow> ath6kl \<Rightarrow> nat \<Rightarrow> nat \<Rightarrow> ath6kl option" where
  "drain_mgmt can ar v i =
     (case ath6kl_ps_queue_dequeue (psq_mgmt (conn_of ar v i)) of
        (None, _) \<Rightarrow> Some ar
      | (Some d, q) \<Rightarrow> drain_mgmt can (send_mgmt can (set_mgmtq ar v i q) v d) v i)"

definition send_data :: "tx_env \<Rightarrow> ath6kl \<Rightarrow> nat \<Rightarrow> ps_buf_desc \<Rightarrow> ath6kl option" where
  "send_data env ar v d = (case psb_skb d of None \<Rightarrow> None | Some s \<Rightarrow> ath6kl_data_tx env ar v s True)"

partial_function (option) drain_data :: "tx_env \<Rightarrow> ath6kl \<Rightarrow> nat \<Rightarrow> nat \<Rightarrow> ath6kl option" where
  "drain_data env ar v i =
     (case ath6kl_ps_queue_dequeue (psq_data (conn_of ar v i)) of
        (None, _) \<Rightarrow> Some ar
      | (Some d, q) \<Rightarrow> Option.bind (send_data env (set_dataq ar v i q) v d) (\<lambda>ar1. drain_data env ar1 v i))"

definition set_mcastq :: "ath6kl \<Rightarrow> nat \<Rightarrow> ps_buf_head \<Rightarrow> ath6kl" where
  "set_mcastq ar v q = upd_vif ar v (\<lambda>x. x\<lparr>psq_mcast := q\<rparr>)"

partial_function (option) drain_mcast :: "tx_env \<Rightarrow> ath6kl \<Rightarrow> nat \<Rightarrow> ath6kl option" where
  "drain_mcast env ar v =
     (case ath6kl_ps_queue_dequeue (psq_mcast (vifs ar v)) of
        (None, _) \<Rightarrow> Some ar
      | (Some d, q) \<Rightarrow> Option.bind (send_data env (set_mcastq ar v q) v d) (\<lambda>ar1. drain_mcast env ar1 v))"

definition ps_wake :: "tx_env \<Rightarrow> ath6kl \<Rightarrow> nat \<Rightarrow> nat \<Rightarrow> ath6kl option" where
  "ps_wake env ar v i =
     (let at_start = psqs_empty (conn_of ar v i) in
      case drain_mgmt (te_can env) ar v i of
        None \<Rightarrow> None
      | Some ar1 \<Rightarrow> (case drain_data env ar1 v i of
          None \<Rightarrow> None
        | Some ar2 \<Rightarrow>
            let idx = fw_vif_idx (vifs ar2 v); aid = sta_aid (conn_of ar2 v i);
                ar3 = (if at_start then ar2 else snd (ath6kl_wmi_set_apsd_buffered_traffic_cmd (te_can env) ar2 idx aid 0 0))
            in Some (snd (ath6kl_wmi_set_pvb_cmd (te_can env) ar3 idx aid False))))"

definition WMI_MAX_AMSDU_RX_DATA_FRAME_LENGTH :: nat where "WMI_MAX_AMSDU_RX_DATA_FRAME_LENGTH = 3840 + WMI_DATA_HDR_LEN + ETH_HDR_LEN + LLC_SNAP_LEN"

text \<open>\<open>_powersave_ap_rx\<close>: the station the frame is from, when the frame goes on.\<close>

definition powersave_ap_rx :: "tx_env \<Rightarrow> ath6kl \<Rightarrow> nat \<Rightarrow> skb \<Rightarrow> nat \<Rightarrow> bool \<Rightarrow> bool \<Rightarrow> (nat option \<times> ath6kl) option" where
  "powersave_ap_rx env ar v s len ps_state trigger_state =
     (case ath6kl_find_sta (vifs ar v) (skb_range s 6 6) of
        None \<Rightarrow> Some (None, drv_do ar [EvFree s])
      | Some i \<Rightarrow>
          let prev_ps = has_flag (sta_flags (conn_of ar v i)) STA_PS_SLEEP in
          case (if ps_state then
                  (let ar1 = sta_set ar v i STA_PS_SLEEP in
                   if prev_ps then Some ar1
                   else map_option (\<lambda>a. upd_conn a v i ath6kl_ps_queue_age_start) (aggr_tx_flush env ar1 v (Some i)))
                else
                  (let ar1 = sta_clear ar v i STA_PS_SLEEP in
                   Some (if prev_ps then upd_conn ar1 v i ath6kl_ps_queue_age_stop else ar1))) of
            None \<Rightarrow> None
          | Some ar2 \<Rightarrow>
              (case (if ps_state \<and> trigger_state then ath6kl_uapsd_trigger_frame_rx env ar2 v i else Some ar2) of
                 None \<Rightarrow> None
               | Some ar3 \<Rightarrow>
                   (case (if prev_ps \<and> \<not> has_flag (sta_flags (conn_of ar3 v i)) STA_PS_SLEEP then ps_wake env ar3 v i else Some ar3) of
                      None \<Rightarrow> None
                    | Some ar4 \<Rightarrow>
                        if len < ETH_HDR_LEN + WMI_DATA_HDR_LEN + LLC_SNAP_LEN \<or> len > WMI_MAX_AMSDU_RX_DATA_FRAME_LENGTH
                        then Some (None, drv_do ar4 [EvFree s])
                        else Some (Some i, ar4))))"

definition ath6kl_pspoll_event :: "tx_env \<Rightarrow> ath6kl \<Rightarrow> nat \<Rightarrow> nat \<Rightarrow> ath6kl option" where
  "ath6kl_pspoll_event env ar v aid =
     (case ath6kl_find_sta_by_aid (vifs ar v) aid of
        None \<Rightarrow> Some ar
      | Some i \<Rightarrow>
          let c = conn_of ar v i in
          if psqs_empty c then Some ar
          else
            case (if \<not> ath6kl_ps_queue_empty (psq_mgmt c) then
                    (case ath6kl_ps_queue_dequeue (psq_mgmt c) of
                       (None, _) \<Rightarrow> None
                     | (Some d, q) \<Rightarrow> Some (sta_clear (send_mgmt (te_can env) (sta_set (set_mgmtq ar v i q) v i STA_PS_POLLED) v d) v i STA_PS_POLLED))
                  else
                    (case ath6kl_ps_queue_dequeue (psq_data c) of
                       (None, q) \<Rightarrow> Some (set_dataq ar v i q)
                     | (Some d, q) \<Rightarrow>
                         (case psb_skb d of
                            None \<Rightarrow> Some (set_dataq ar v i q)
                          | Some s \<Rightarrow> map_option (\<lambda>a. sta_clear a v i STA_PS_POLLED)
                                        (ath6kl_data_tx env (sta_set (set_dataq ar v i q) v i STA_PS_POLLED) v s True)))) of
              None \<Rightarrow> None
            | Some ar1 \<Rightarrow>
                Some (if psqs_empty (conn_of ar1 v i)
                      then snd (ath6kl_wmi_set_pvb_cmd (te_can env) ar1 (fw_vif_idx (vifs ar1 v)) (sta_aid (conn_of ar1 v i)) False)
                      else ar1))"

definition set_dtim :: "ath6kl \<Rightarrow> nat \<Rightarrow> bool \<Rightarrow> ath6kl" where
  "set_dtim ar v b = upd_vif ar v (\<lambda>x. x\<lparr>dtim_expired := b\<rparr>)"

definition ath6kl_dtimexpiry_event :: "tx_env \<Rightarrow> ath6kl \<Rightarrow> nat \<Rightarrow> ath6kl option" where
  "ath6kl_dtimexpiry_event env ar v =
     (if sta_list_index (vifs ar v) = 0 \<or> ath6kl_ps_queue_empty (psq_mcast (vifs ar v)) then Some ar
      else map_option (\<lambda>a. let a1 = set_dtim a v False in snd (ath6kl_wmi_set_pvb_cmd (te_can env) a1 (fw_vif_idx (vifs a1 v)) MCAST_AID False))
             (drain_mcast env (set_dtim ar v True) v))"

text \<open>The events of the target: the identifier of a poll passes through 8 bits.\<close>

definition ath6kl_wmi_pspoll_event_rx :: "tx_env \<Rightarrow> ath6kl \<Rightarrow> nat \<Rightarrow> u8 list \<Rightarrow> int \<times> ath6kl option" where
  "ath6kl_wmi_pspoll_event_rx env ar v dat =
     (if length dat < 2 then (- EINVAL, Some ar) else (0, ath6kl_pspoll_event env ar v (le16 (dat ! 0) (dat ! 1) mod 256)))"

end
