(* ===== verification/DriverInv.thy ===== *)
theory DriverInv
  imports DataTx
begin

text \<open>
  What every operation of the driver keeps: the accounting of cookies and pending packets against the
  packets that are out with HTC, the bookkeeping of active streams, and the frames that are handed over or
  freed.  The effects of commands (\<open>ctl_step\<close>) and of data frames (\<open>op_step\<close>) are relations that
  compose, with one lemma per operation.
\<close>

section \<open>Packets that are out\<close>

text \<open>The packets handed over by a list of events, and the identities of the frames in it.\<close>

fun sent :: "drv_event list \<Rightarrow> (cookie_ref \<times> ath6kl_cookie) list" where
  "sent [] = []"
| "sent (EvTx r ck v # evs) = (r, ck) # sent evs"
| "sent (EvSchedule r ck # evs) = (r, ck) # sent evs"
| "sent (_ # evs) = sent evs"

fun ev_frame :: "drv_event \<Rightarrow> nat multiset" where
  "ev_frame (EvTx r ck v) = (case ck_skb ck of None \<Rightarrow> {#} | Some s \<Rightarrow> id_ms s)"
| "ev_frame (EvSchedule r ck) = (case ck_skb ck of None \<Rightarrow> {#} | Some s \<Rightarrow> id_ms s)"
| "ev_frame (EvFree s) = id_ms s"
| "ev_frame _ = {#}"

definition frames_of :: "drv_event list \<Rightarrow> nat multiset" where
  "frames_of evs = \<Sum>\<^sub># (mset (map ev_frame evs))"

lemma frames_of_simps [simp]: "frames_of [] = {#}" "frames_of (e # evs) = ev_frame e + frames_of evs"
  "frames_of (xs @ ys) = frames_of xs + frames_of ys"
  by (simp_all add: frames_of_def)

lemma sent_append [simp]: "sent (xs @ ys) = sent xs @ sent ys"
  by (induction xs rule: sent.induct) auto

lemma sent_free [simp]: "sent (map EvFree ss) = []"
  by (induction ss) auto

lemma frames_of_free: "frames_of (map EvFree ss) = \<Sum>\<^sub># (mset (map id_ms ss))"
  by (induction ss) auto

fun data_ids :: "(cookie_ref \<times> ath6kl_cookie) list \<Rightarrow> nat list" where
  "data_ids [] = []"
| "data_ids ((DataCookie c, _) # out) = c # data_ids out"
| "data_ids (_ # out) = data_ids out"

fun ctrl_ids :: "(cookie_ref \<times> ath6kl_cookie) list \<Rightarrow> nat list" where
  "ctrl_ids [] = []"
| "ctrl_ids ((CtrlCookie c, _) # out) = c # ctrl_ids out"
| "ctrl_ids (_ # out) = ctrl_ids out"

lemma data_ids_append [simp]: "data_ids (xs @ ys) = data_ids xs @ data_ids ys"
  by (induction xs rule: data_ids.induct) auto

lemma ctrl_ids_append [simp]: "ctrl_ids (xs @ ys) = ctrl_ids xs @ ctrl_ids ys"
  by (induction xs rule: ctrl_ids.induct) auto

lemma mem_data_ids: "(DataCookie c, ck) \<in> set out \<Longrightarrow> c \<in> set (data_ids out)"
  by (induction out rule: data_ids.induct) auto

lemma mem_ctrl_ids: "(CtrlCookie c, ck) \<in> set out \<Longrightarrow> c \<in> set (ctrl_ids out)"
  by (induction out rule: ctrl_ids.induct) auto

definition eid_count :: "int \<Rightarrow> (cookie_ref \<times> ath6kl_cookie) list \<Rightarrow> int" where
  "eid_count ep out = int (length (filter (\<lambda>(r, ck). ck_eid ck = ep) out))"

definition data_count :: "int \<Rightarrow> (cookie_ref \<times> ath6kl_cookie) list \<Rightarrow> int" where
  "data_count ctl out = int (length (filter (\<lambda>(r, ck). ck_eid ck \<noteq> ctl) out))"

lemma count_simps [simp]:
  "eid_count ep [] = 0" "eid_count ep ((r, ck) # out) = eid_count ep out + (if ck_eid ck = ep then 1 else 0)"
  "eid_count ep (xs @ ys) = eid_count ep xs + eid_count ep ys"
  "data_count ep [] = 0" "data_count ep ((r, ck) # out) = data_count ep out + (if ck_eid ck = ep then 0 else 1)"
  "data_count ep (xs @ ys) = data_count ep xs + data_count ep ys"
  by (simp_all add: eid_count_def data_count_def)

text \<open>
  \<open>eps_ok\<close>: data frames and commands have different endpoints.  Endpoint ping mode and the
  independent network with power save are left out: there data frames may go to the control endpoint.
\<close>

definition eps_ok :: "ath6kl \<Rightarrow> bool" where
  "eps_ok ar \<longleftrightarrow> \<not> testmode_epping ar \<and> \<not> ibss_ps_enable ar \<and> (\<forall>ac. ac2ep_map ar ac \<noteq> ctrl_ep ar)"

lemma eps_ok_update [simp]:
  "eps_ok (ar\<lparr>cookie_ctrl := x0\<rparr>) = eps_ok ar" "eps_ok (ar\<lparr>cookie_data := x1\<rparr>) = eps_ok ar"
  "eps_ok (ar\<lparr>tx_pending := x2\<rparr>) = eps_ok ar" "eps_ok (ar\<lparr>total_tx_data_pend := x3\<rparr>) = eps_ok ar"
  "eps_ok (ar\<lparr>n_allocs := x4\<rparr>) = eps_ok ar" "eps_ok (ar\<lparr>drv_log := x5\<rparr>) = eps_ok ar"
  "eps_ok (ar\<lparr>ac_stream_active := x6\<rparr>) = eps_ok ar" "eps_ok (ar\<lparr>hiac_stream_active_pri := x7\<rparr>) = eps_ok ar"
  "eps_ok (ar\<lparr>ac_stream_active_num := x8\<rparr>) = eps_ok ar" "eps_ok (ar\<lparr>node_map := x9\<rparr>) = eps_ok ar"
  "eps_ok (ar\<lparr>node_num := x10\<rparr>) = eps_ok ar" "eps_ok (ar\<lparr>next_ep_id := x11\<rparr>) = eps_ok ar"
  "eps_ok (ar\<lparr>tx_on_vif := x12\<rparr>) = eps_ok ar" "eps_ok (ar\<lparr>eapol_protect := x13\<rparr>) = eps_ok ar"
  "eps_ok (ar\<lparr>eapol_shprotect_vif := x14\<rparr>) = eps_ok ar" "eps_ok (ar\<lparr>scan_req := x15\<rparr>) = eps_ok ar"
  "eps_ok (ar\<lparr>vifs := x16\<rparr>) = eps_ok ar" "eps_ok (ar\<lparr>drv_wmi := x17\<rparr>) = eps_ok ar"
  "eps_ok (ar\<lparr>wmi_ctrl_ep_full := x18\<rparr>) = eps_ok ar"
  by (simp_all add: eps_ok_def)

text \<open>
  \<open>acct ar out lost\<close>: every cookie is free, out with a packet whose fields it holds, or lost; the
  pending counts are those of the packets out and lost.
\<close>

definition acct :: "ath6kl \<Rightarrow> (cookie_ref \<times> ath6kl_cookie) list \<Rightarrow> (cookie_ref \<times> ath6kl_cookie) list \<Rightarrow> bool" where
  "acct ar out lost \<longleftrightarrow> pool_ok (cookie_data ar) (data_ids (out @ lost)) \<and> pool_ok (cookie_ctrl ar) (ctrl_ids (out @ lost))
     \<and> (\<forall>(r, ck)\<in>set out. read_cookie ar r = ck \<and> ck_skb ck \<noteq> None)
     \<and> (\<forall>ep. tx_pending ar ep = eid_count ep (out @ lost))
     \<and> (eps_ok ar \<longrightarrow> total_tx_data_pend ar = data_count (ctrl_ep ar) (out @ lost))"

section \<open>Effects of commands\<close>

definition ctl_core :: "ath6kl \<Rightarrow> ath6kl" where
  "ctl_core ar = ar\<lparr>cookie_ctrl := zero_pool, tx_pending := (\<lambda>_. 0), total_tx_data_pend := 0, n_allocs := 0, drv_log := []\<rparr>"

definition ctl_step :: "ath6kl \<Rightarrow> ath6kl \<Rightarrow> nat multiset \<Rightarrow> bool" where
  "ctl_step ar ar' ids \<longleftrightarrow> ctl_core ar' = ctl_core ar
     \<and> (\<exists>evs. drv_log ar' = drv_log ar @ evs \<and> frames_of evs = ids
            \<and> (\<forall>out lost. acct ar out lost \<longrightarrow> acct ar' (out @ sent evs) lost))"

lemma ctl_step_refl [simp]: "ctl_step ar ar {#}"
  by (simp add: ctl_step_def)

lemma ctl_step_trans:
  assumes "ctl_step a b m" and "ctl_step b c n"
  shows "ctl_step a c (m + n)"
proof -
  obtain e1 where 1: "drv_log b = drv_log a @ e1" "frames_of e1 = m" "\<And>out lost. acct a out lost \<Longrightarrow> acct b (out @ sent e1) lost"
    using assms(1) unfolding ctl_step_def by blast
  obtain e2 where 2: "drv_log c = drv_log b @ e2" "frames_of e2 = n" "\<And>out lost. acct b out lost \<Longrightarrow> acct c (out @ sent e2) lost"
    using assms(2) unfolding ctl_step_def by blast
  have "ctl_core c = ctl_core a" using assms by (simp add: ctl_step_def)
  moreover have "drv_log c = drv_log a @ (e1 @ e2)" using 1 2 by simp
  moreover have "frames_of (e1 @ e2) = m + n" using 1 2 by simp
  moreover have "acct c (out @ sent (e1 @ e2)) lost" if "acct a out lost" for out lost
    using 2(3) [OF 1(3) [OF that]] by simp
  ultimately show ?thesis unfolding ctl_step_def by blast
qed

lemma ctl_step_trans0: "ctl_step a b {#} \<Longrightarrow> ctl_step b c n \<Longrightarrow> ctl_step a c n"
  using ctl_step_trans [of a b "{#}" c n] by simp

lemma ctl_step_fields:
  assumes "ctl_step ar ar' ids"
  shows "vifs ar' = vifs ar" "vif_list ar' = vif_list ar" "vif_max ar' = vif_max ar" "drv_wmi ar' = drv_wmi ar"
    "ac_stream_active ar' = ac_stream_active ar" "ac_stream_pri_map ar' = ac_stream_pri_map ar"
    "hiac_stream_active_pri ar' = hiac_stream_active_pri ar" "ac_stream_active_num ar' = ac_stream_active_num ar"
    "ac2ep_map ar' = ac2ep_map ar" "wmi_enabled ar' = wmi_enabled ar" "ctrl_ep ar' = ctrl_ep ar"
    "testmode_epping ar' = testmode_epping ar" "cookie_data ar' = cookie_data ar" "node_map ar' = node_map ar" "node_num ar' = node_num ar"
proof -
  have e: "ctl_core ar' = ctl_core ar" using assms by (simp add: ctl_step_def)
  show "vifs ar' = vifs ar" using arg_cong [OF e, of vifs] by (simp add: ctl_core_def)
  show "vif_list ar' = vif_list ar" using arg_cong [OF e, of vif_list] by (simp add: ctl_core_def)
  show "vif_max ar' = vif_max ar" using arg_cong [OF e, of vif_max] by (simp add: ctl_core_def)
  show "drv_wmi ar' = drv_wmi ar" using arg_cong [OF e, of drv_wmi] by (simp add: ctl_core_def)
  show "ac_stream_active ar' = ac_stream_active ar" using arg_cong [OF e, of ac_stream_active] by (simp add: ctl_core_def)
  show "ac_stream_pri_map ar' = ac_stream_pri_map ar" using arg_cong [OF e, of ac_stream_pri_map] by (simp add: ctl_core_def)
  show "hiac_stream_active_pri ar' = hiac_stream_active_pri ar" using arg_cong [OF e, of hiac_stream_active_pri] by (simp add: ctl_core_def)
  show "ac_stream_active_num ar' = ac_stream_active_num ar" using arg_cong [OF e, of ac_stream_active_num] by (simp add: ctl_core_def)
  show "ac2ep_map ar' = ac2ep_map ar" using arg_cong [OF e, of ac2ep_map] by (simp add: ctl_core_def)
  show "wmi_enabled ar' = wmi_enabled ar" using arg_cong [OF e, of wmi_enabled] by (simp add: ctl_core_def)
  show "ctrl_ep ar' = ctrl_ep ar" using arg_cong [OF e, of ctrl_ep] by (simp add: ctl_core_def)
  show "testmode_epping ar' = testmode_epping ar" using arg_cong [OF e, of testmode_epping] by (simp add: ctl_core_def)
  show "cookie_data ar' = cookie_data ar" using arg_cong [OF e, of cookie_data] by (simp add: ctl_core_def)
  show "node_map ar' = node_map ar" using arg_cong [OF e, of node_map] by (simp add: ctl_core_def)
  show "node_num ar' = node_num ar" using arg_cong [OF e, of node_num] by (simp add: ctl_core_def)
qed

lemma ctl_step_free: "ctl_step ar (drv_do ar (map EvFree ss)) (\<Sum>\<^sub># (mset (map id_ms ss)))"
  unfolding ctl_step_def
proof (intro conjI exI [of _ "map EvFree ss"] allI impI)
  show "ctl_core (drv_do ar (map EvFree ss)) = ctl_core ar" by (simp add: ctl_core_def drv_do_def)
  show "drv_log (drv_do ar (map EvFree ss)) = drv_log ar @ map EvFree ss" by (simp add: drv_do_def)
  show "frames_of (map EvFree ss) = \<Sum>\<^sub># (mset (map id_ms ss))" by (rule frames_of_free)
  show "acct (drv_do ar (map EvFree ss)) (out @ sent (map EvFree ss)) lost" if "acct ar out lost" for out lost
    using that by (simp add: acct_def drv_do_def read_cookie_def cong: cookie_ref.case_cong)
qed

lemma ctl_step_free1: "ctl_step ar (drv_do ar [EvFree s]) (id_ms s)"
  using ctl_step_free [of ar "[s]"] by simp

lemma ctl_step_alloc: "drv_alloc can ar = (ok, ar') \<Longrightarrow> ctl_step ar ar' {#}"
  unfolding ctl_step_def by (rule conjI, (auto simp: drv_alloc_def ctl_core_def)[1], rule exI [of _ "[]"])
    (auto simp: drv_alloc_def acct_def read_cookie_def split: cookie_ref.splits)

text \<open>A fresh cookie of either pool joins the packets that are out.\<close>

lemma pool_ok_fill [simp]: "pool_ok (fill_cookie p c ck) out = pool_ok p out"
  by (simp add: pool_ok_def fill_cookie_def)

lemma fill_cookie_mem [simp]: "cookie_mem (fill_cookie p c ck) = (cookie_mem p)(c := ck)"
  by (simp add: fill_cookie_def)

lemma alloc_none_ok: "pool_ok p out \<Longrightarrow> ath6kl_alloc_cookie p = (None, p') \<Longrightarrow> pool_ok p' out \<and> cookie_mem p' = cookie_mem p"
  using alloc_pool_ok [of p out None p'] by simp

lemma acct_ctrl_send:
  assumes a: "acct ar out lost" and al: "ath6kl_alloc_cookie (cookie_ctrl ar) = (Some c, p)" and s: "ck_skb ck \<noteq> None"
    and ar': "cookie_data ar' = cookie_data ar" "cookie_ctrl ar' = fill_cookie p c ck"
      "tx_pending ar' = (tx_pending ar)(ck_eid ck := tx_pending ar (ck_eid ck) + 1)"
      "total_tx_data_pend ar' = (if ck_eid ck \<noteq> ctrl_ep ar then total_tx_data_pend ar + 1 else total_tx_data_pend ar)"
      "ctrl_ep ar' = ctrl_ep ar" "eps_ok ar' = eps_ok ar"
  shows "acct ar' (out @ [(CtrlCookie c, ck)]) lost"
proof -
  have pool: "pool_ok (cookie_ctrl ar) (ctrl_ids (out @ lost))" using a by (simp add: acct_def)
  have p: "pool_ok p (c # ctrl_ids (out @ lost))" "c \<notin> set (ctrl_ids (out @ lost))" "cookie_mem p = cookie_mem (cookie_ctrl ar)"
    using alloc_pool_ok [OF pool al] by auto
  have "pool_ok p (ctrl_ids ((out @ [(CtrlCookie c, ck)]) @ lost))"
    by (rule cookies.owes_perm [OF p(1)]) simp
  moreover have "read_cookie ar' r = k" if "(r, k) \<in> set out" for r k
  proof -
    have "read_cookie ar r = k" using a that by (auto simp: acct_def)
    moreover have "r \<noteq> CtrlCookie c" using mem_ctrl_ids [of c k out] that p(2) by auto
    ultimately show ?thesis using ar'(1,2) p(3) by (cases r) (auto simp: read_cookie_def)
  qed
  ultimately show ?thesis using a s ar' by (auto simp: acct_def read_cookie_def)
qed

lemma control_tx_step: "ctl_step ar (snd (ath6kl_control_tx ar s ep)) (id_ms s)"
proof (cases "wmi_ctrl_ep_full ar \<and> ep = ctrl_ep ar")
  case True
  then show ?thesis using ctl_step_free1 [of ar s] by (simp add: ath6kl_control_tx_def)
next
  case False
  obtain co p where al: "ath6kl_alloc_cookie (cookie_ctrl ar) = (co, p)" by (cases "ath6kl_alloc_cookie (cookie_ctrl ar)")
  show ?thesis
  proof (cases co)
    case None
    have "acct (ar\<lparr>cookie_ctrl := p\<rparr>) out lost" if "acct ar out lost" for out lost
      using that alloc_none_ok [of "cookie_ctrl ar" _ p] al None by (auto simp: acct_def read_cookie_def split: cookie_ref.splits)
    then have "ctl_step ar (ar\<lparr>cookie_ctrl := p\<rparr>) {#}"
      unfolding ctl_step_def by (intro conjI exI [of _ "[]"]) (simp_all add: ctl_core_def)
    from ctl_step_trans0 [OF this ctl_step_free1 [of _ s]] show ?thesis using False al None by (auto simp: ath6kl_control_tx_def)
  next
    case (Some c)
    define ck where "ck = \<lparr>ck_skb = Some s, ck_map_no = 0, ck_eid = ep, ck_tag = ATH6KL_CONTROL_PKT_TAG\<rparr>"
    have e: "snd (ath6kl_control_tx ar s ep) = drv_do (ar\<lparr>cookie_ctrl := fill_cookie p c ck,
          tx_pending := (tx_pending ar)(ep := tx_pending ar ep + 1),
          total_tx_data_pend := (if ep \<noteq> ctrl_ep ar then total_tx_data_pend ar + 1 else total_tx_data_pend ar)\<rparr>)
        [EvTx (CtrlCookie c) ck None]" (is "_ = ?ar'")
      using False al Some by (auto simp: ath6kl_control_tx_def Let_def ck_def)
    have "acct ?ar' (out @ [(CtrlCookie c, ck)]) lost" if a: "acct ar out lost" for out lost
      by (rule acct_ctrl_send [OF a al [unfolded Some]]) (simp_all add: ck_def drv_do_def)
    then show ?thesis unfolding e ctl_step_def
      by (intro conjI exI [of _ "[EvTx (CtrlCookie c) ck None]"]) (simp_all add: ctl_core_def drv_do_def ck_def)
  qed
qed

lemma skb_id_keeps [simp]: "skb_id (skb_store s i bs) = skb_id s" "skb_id (skb_push n s) = skb_id s" "skb_id (new_skb r bs) = None"
  "skb_id (cmd_hdr_push s c i) = skb_id s" "skb_id (wmi_data_hdr_set_up s up) = skb_id s"
  by (simp_all add: skb_store_def skb_push_def new_skb_def cmd_hdr_push_def wmi_data_hdr_set_up_def)

lemma data_hdr_add_id: "ath6kl_wmi_data_hdr_add m s t f d mv None i = (r, s') \<Longrightarrow> skb_id s' = skb_id s"
  by (auto simp: ath6kl_wmi_data_hdr_add_def Let_def split: if_splits)

lemma id_ms_cong: "skb_id s = skb_id t \<Longrightarrow> id_ms s = id_ms t"
  by (simp add: id_ms_def)

lemma id_ms_none [simp]: "skb_id s = None \<Longrightarrow> id_ms s = {#}"
  by (simp add: id_ms_def)

lemma cmd_send_one_step:
  assumes "cmd_send_one ar if_idx s cmd_id = (ret, ar')"
  shows "ctl_step ar ar' (id_ms s)"
proof (cases "cmd_id = WMI_OPT_TX_FRAME_CMDID")
  case True
  obtain r s2 where h: "ath6kl_wmi_data_hdr_add (vif_max ar) (cmd_hdr_push s cmd_id if_idx) OPT_MSGTYPE 0 0 0 None if_idx = (r, s2)"
    by (cases "ath6kl_wmi_data_hdr_add (vif_max ar) (cmd_hdr_push s cmd_id if_idx) OPT_MSGTYPE 0 0 0 None if_idx")
  have "id_ms s2 = id_ms s" using data_hdr_add_id [OF h] by (intro id_ms_cong) simp
  then show ?thesis
    using assms True h ctl_step_free1 [of ar s2] control_tx_step [of ar s2 "ath6kl_ac2_endpoint_id ar WMM_AC_BE"]
    by (auto simp: cmd_send_one_def split: if_splits)
next
  case False
  have "id_ms (cmd_hdr_push s cmd_id if_idx) = id_ms s" by (rule id_ms_cong) simp
  then show ?thesis using assms False control_tx_step [of ar "cmd_hdr_push s cmd_id if_idx" "wmi_ep_id (drv_wmi ar)"]
    by (auto simp: cmd_send_one_def)
qed

lemma data_sync_step:
  assumes "ath6kl_wmi_data_sync_send ar s ep if_idx = (r, ar')"
  shows "ctl_step ar ar' (id_ms s)"
proof -
  have i: "id_ms (skb_store (skb_push WMI_DATA_HDR_LEN s) 0 (data_sync_hdr if_idx)) = id_ms s" by (rule id_ms_cong) simp
  show ?thesis using assms ctl_step_free1 [of ar s] control_tx_step [of ar "skb_store (skb_push WMI_DATA_HDR_LEN s) 0 (data_sync_hdr if_idx)" ep, unfolded i]
    by (auto simp: ath6kl_wmi_data_sync_send_def split: if_splits)
qed

lemma buf_alloc_step: "ath6kl_buf_alloc can ar = (so, ar') \<Longrightarrow> ctl_step ar ar' {#} \<and> (case so of None \<Rightarrow> True | Some s \<Rightarrow> skb_id s = None)"
  using ctl_step_alloc [of can ar "fst (drv_alloc can ar)" "snd (drv_alloc can ar)"]
  by (auto simp: ath6kl_buf_alloc_def split: prod.splits if_splits)

lemma new_buf_step: "ath6kl_wmi_get_new_buf can ar n = (so, ar') \<Longrightarrow> ctl_step ar ar' {#} \<and> (case so of None \<Rightarrow> True | Some s \<Rightarrow> skb_id s = None)"
proof -
  assume a: "ath6kl_wmi_get_new_buf can ar n = (so, ar')"
  obtain b ar1 where b: "ath6kl_buf_alloc can ar = (b, ar1)" by (cases "ath6kl_buf_alloc can ar")
  show ?thesis using a b buf_alloc_step [OF b] by (cases b) (auto simp: ath6kl_wmi_get_new_buf_def skb_store_def)
qed

lemma sync_bufs_step:
  "alloc_sync_bufs can ar acs = (ok, ss, ar') \<Longrightarrow> ctl_step ar ar' {#} \<and> (\<forall>s\<in>set ss. skb_id s = None)"
proof (induction acs arbitrary: ar ok ss ar')
  case (Cons ac acs)
  obtain b ar1 where b: "ath6kl_buf_alloc can ar = (b, ar1)" by (cases "ath6kl_buf_alloc can ar")
  obtain ok2 ss2 ar2 where r: "alloc_sync_bufs can ar1 acs = (ok2, ss2, ar2)" by (cases "alloc_sync_bufs can ar1 acs")
  show ?case using Cons.prems b r buf_alloc_step [OF b] Cons.IH [OF r] ctl_step_trans0 [of ar ar1 ar2 "{#}"] by (cases b) auto
qed simp

lemma sum_none: "\<forall>s\<in>set ss. skb_id s = None \<Longrightarrow> \<Sum>\<^sub># (mset (map id_ms ss)) = {#}"
  by (induction ss) auto

lemma send_syncs_step:
  "send_syncs ar if_idx xs = (r, ar') \<Longrightarrow> (\<forall>(ac, s)\<in>set xs. skb_id s = None) \<Longrightarrow> ctl_step ar ar' {#}"
proof (induction xs arbitrary: ar)
  case (Cons x xs)
  obtain ac s where x: "x = (ac, s)" by (cases x)
  obtain q ar1 where d: "ath6kl_wmi_data_sync_send ar s (ath6kl_ac2_endpoint_id ar ac) if_idx = (q, ar1)"
    by (cases "ath6kl_wmi_data_sync_send ar s (ath6kl_ac2_endpoint_id ar ac) if_idx")
  have 1: "ctl_step ar ar1 {#}" using data_sync_step [OF d] Cons.prems(2) x by simp
  have 2: "ctl_step ar1 (drv_do ar1 (map (EvFree \<circ> snd) xs)) {#}"
  proof -
    have n: "\<forall>s\<in>set (map snd xs). skb_id s = None" using Cons.prems(2) by auto
    show ?thesis using ctl_step_free [of ar1 "map snd xs"] unfolding sum_none [OF n] by (simp only: map_map)
  qed
  show ?case
  proof (cases "q = 0")
    case True
    then show ?thesis using Cons.IH [of ar1] Cons.prems x d ctl_step_trans0 [OF 1] by auto
  next
    case False
    then show ?thesis using Cons.prems(1) x d ctl_step_trans0 [OF 1 2] by auto
  qed
qed simp

lemma sync_point_step: "ctl_step ar (snd (ath6kl_wmi_sync_point can ar if_idx)) {#}"
proof -
  define acs where "acs = filter (\<lambda>ac. bit (fat_pipe_exist (drv_wmi ar)) ac) [0..<WMM_NUM_AC]"
  obtain so ar1 where b: "ath6kl_wmi_get_new_buf can ar 1 = (so, ar1)" by (cases "ath6kl_wmi_get_new_buf can ar 1")
  note b' = new_buf_step [OF b]
  show ?thesis
  proof (cases so)
    case None
    then show ?thesis using b b' by (simp add: ath6kl_wmi_sync_point_def Let_def)
  next
    case (Some s)
    define s1 where "s1 = skb_store s 0 [fat_pipe_exist (drv_wmi ar1)]"
    obtain ok ss ar2 where r: "alloc_sync_bufs can ar1 acs = (ok, ss, ar2)" by (cases "alloc_sync_bufs can ar1 acs")
    note r' = sync_bufs_step [OF r]
    have s1: "skb_id s1 = None" using b' Some by (simp add: s1_def)
    have 1: "ctl_step ar ar2 {#}" by (rule ctl_step_trans0 [of _ ar1]) (use b' r' in simp_all)
    have n: "\<forall>s\<in>set (s1 # ss). skb_id s = None" using s1 r' by simp
    have 2: "ctl_step ar (drv_do ar2 (map EvFree (s1 # ss))) {#}"
      using ctl_step_trans0 [OF 1 ctl_step_free [of ar2 "s1 # ss"]] unfolding sum_none [OF n] .
    obtain q ar3 where c: "cmd_send_one ar2 if_idx s1 WMI_SYNCHRONIZE_CMDID = (q, ar3)" by (cases "cmd_send_one ar2 if_idx s1 WMI_SYNCHRONIZE_CMDID")
    have 3: "ctl_step ar ar3 {#}" using ctl_step_trans0 [OF 1 cmd_send_one_step [OF c]] s1 by simp
    obtain q2 ar4 where d: "send_syncs ar3 if_idx (zip acs ss) = (q2, ar4)" by (cases "send_syncs ar3 if_idx (zip acs ss)")
    have "\<forall>(ac, s)\<in>set (zip acs ss). skb_id s = None" using r' by (auto dest: set_zip_rightD)
    from ctl_step_trans0 [OF 3 send_syncs_step [OF d this]]
    show ?thesis using b Some r 2 c d by (auto simp: ath6kl_wmi_sync_point_def Let_def acs_def [symmetric] s1_def [symmetric])
  qed
qed

lemma cmd_send_step: "ctl_step ar (snd (ath6kl_wmi_cmd_send can ar if_idx s cmd_id fl)) (id_ms s)"
proof (cases "if_idx_bad ar if_idx \<or> fl = END_WMIFLAG")
  case True
  then show ?thesis using ctl_step_free1 [of ar s] by (auto simp: ath6kl_wmi_cmd_send_def)
next
  case False
  define ar1 where "ar1 = (if fl = SYNC_BEFORE_WMIFLAG \<or> fl = SYNC_BOTH_WMIFLAG then snd (ath6kl_wmi_sync_point can ar if_idx) else ar)"
  have 1: "ctl_step ar ar1 {#}" using sync_point_step by (simp add: ar1_def)
  obtain q ar2 where c: "cmd_send_one ar1 if_idx s cmd_id = (q, ar2)" by (cases "cmd_send_one ar1 if_idx s cmd_id")
  have 2: "ctl_step ar ar2 (id_ms s)" by (rule ctl_step_trans0 [OF 1 cmd_send_one_step [OF c]])
  have 3: "ctl_step ar (snd (ath6kl_wmi_sync_point can ar2 if_idx)) (id_ms s)" using ctl_step_trans [OF 2 sync_point_step] by simp
  show ?thesis using False c 2 3 by (auto simp: ath6kl_wmi_cmd_send_def Let_def ar1_def [symmetric])
qed

lemma wmi_cmd_step: "ctl_step ar (snd (wmi_cmd can ar if_idx cmd_id body)) {#}"
proof -
  obtain so ar1 where b: "ath6kl_wmi_get_new_buf can ar (length body) = (so, ar1)" by (cases "ath6kl_wmi_get_new_buf can ar (length body)")
  show ?thesis
  proof (cases so)
    case None
    then show ?thesis using b new_buf_step [OF b] by (simp add: wmi_cmd_def)
  next
    case (Some s)
    then have i: "id_ms (skb_store s 0 body) = {#}" and 1: "ctl_step ar ar1 {#}" using new_buf_step [OF b] by simp_all
    from ctl_step_trans0 [OF 1 cmd_send_step [of ar1 can if_idx "skb_store s 0 body" cmd_id NO_SYNC_WMIFLAG, unfolded i]]
    show ?thesis using b Some by (simp add: wmi_cmd_def)
  qed
qed

lemma set_pvb_step: "ctl_step ar (snd (ath6kl_wmi_set_pvb_cmd can ar if_idx aid fl)) {#}"
proof -
  obtain so ar1 where b: "ath6kl_wmi_get_new_buf can ar 8 = (so, ar1)" by (cases "ath6kl_wmi_get_new_buf can ar 8")
  define body where "body = le32_bytes (if fl then 1 else 0) @ le16_bytes 0 @ le16_bytes (of_nat aid)"
  show ?thesis
  proof (cases so)
    case None
    then show ?thesis using b new_buf_step [OF b] by (simp add: ath6kl_wmi_set_pvb_cmd_def)
  next
    case (Some s)
    then have i: "id_ms (skb_store s 0 body) = {#}" and 1: "ctl_step ar ar1 {#}" using new_buf_step [OF b] by simp_all
    from ctl_step_trans0 [OF 1 cmd_send_step [of ar1 can if_idx "skb_store s 0 body" WMI_AP_SET_PVB_CMDID NO_SYNC_WMIFLAG, unfolded i]]
    show ?thesis using b Some by (simp add: ath6kl_wmi_set_pvb_cmd_def body_def)
  qed
qed

lemma credit_bypass_step: "ctl_step ar (snd (ath6kl_wmi_set_credit_bypass can ar if_idx ep re th)) {#}"
  by (simp add: ath6kl_wmi_set_credit_bypass_def wmi_cmd_step)

lemma apsd_traffic_step: "ctl_step ar (snd (ath6kl_wmi_set_apsd_buffered_traffic_cmd can ar if_idx aid bm fl)) {#}"
  by (simp add: ath6kl_wmi_set_apsd_buffered_traffic_cmd_def wmi_cmd_step)

lemma abort_scan_cmd_step: "ctl_step ar (snd (ath6kl_wmi_abort_scan_cmd can ar if_idx)) {#}"
  by (simp add: ath6kl_wmi_abort_scan_cmd_def ath6kl_wmi_simple_cmd_def wmi_cmd_step)

section \<open>Effects of data frames and streams\<close>

text \<open>
  \<open>act_ok\<close>: the highest priority and the number of the active streams are what a recomputation would
  give, and a stream that is active, or has a thin stream, has its fat pipe.
\<close>

definition active_acs :: "ath6kl \<Rightarrow> nat set" where
  "active_acs ar = {i. i < WMM_NUM_AC \<and> ac_stream_active ar i}"

definition act_ok :: "ath6kl \<Rightarrow> bool" where
  "act_ok ar \<longleftrightarrow> wmi_enabled ar \<and> hiac_stream_active_pri ar = Max (insert 0 (ac_stream_pri_map ar ` active_acs ar))
     \<and> ac_stream_active_num ar = card (active_acs ar)
     \<and> (\<forall>i<WMM_NUM_AC. ac_stream_active ar i \<or> stream_exist_for_ac (drv_wmi ar) i \<noteq> 0 \<longrightarrow> bit (fat_pipe_exist (drv_wmi ar)) i)"

text \<open>What data frames do not touch: the state without queues of packets, statistics, streams and aggregates.\<close>

definition sta_core :: "ath6kl_sta \<Rightarrow> ath6kl_sta" where
  "sta_core c = c\<lparr>sta_tx := (\<lambda>_. blank_txtid)\<rparr>"

definition vif_core :: "ath6kl_vif \<Rightarrow> ath6kl_vif" where
  "vif_core x = x\<lparr>aggr_cntxt := aggr_init, data_cookie_count := 0, net_tx_dropped := 0, net_tx_aborted := 0, net_tx_errors := 0,
     net_tx_packets := 0, net_tx_bytes := 0, netq_stopped := False, sta_list := (\<lambda>i. sta_core (sta_list x i))\<rparr>"

definition wmi_core :: "wmi \<Rightarrow> wmi" where
  "wmi_core w = w\<lparr>stream_exist_for_ac := (\<lambda>_. 0), fat_pipe_exist := 0, mgmt_tx_frame_list := []\<rparr>"

definition op_core :: "ath6kl \<Rightarrow> ath6kl" where
  "op_core ar = ar\<lparr>cookie_ctrl := zero_pool, cookie_data := zero_pool, tx_pending := (\<lambda>_. 0), total_tx_data_pend := 0, n_allocs := 0,
     drv_log := [], ac_stream_active := (\<lambda>_. False), hiac_stream_active_pri := 0, ac_stream_active_num := 0,
     node_map := (\<lambda>_. zero_node), node_num := 0, next_ep_id := 0, tx_on_vif := 0, eapol_protect := False, eapol_shprotect_vif := 0,
     scan_req := (\<lambda>_. False), vifs := (\<lambda>v. vif_core (vifs ar v)), drv_wmi := wmi_core (drv_wmi ar)\<rparr>"

text \<open>A cookie is lost only by the flow control refusing a packet or a failed copy on USB.\<close>

definition no_leak :: "ath6kl \<Rightarrow> bool" where
  "no_leak ar \<longleftrightarrow> \<not> conf_flowctrl ar \<and> low_cpu_power_tx_bundle_max ar \<noteq> 0"

text \<open>The buffers of aggregates are the driver's own.\<close>

definition anon :: "ath6kl \<Rightarrow> bool" where
  "anon ar \<longleftrightarrow> (\<forall>v i k. case amsdu_skb (sta_tx (sta_list (vifs ar v) i) k) of None \<Rightarrow> True | Some b \<Rightarrow> skb_id b = None)"

lemma anon_cong: "vifs ar' = vifs ar \<Longrightarrow> anon ar' = anon ar"
  by (simp add: anon_def)

definition op_step :: "ath6kl \<Rightarrow> ath6kl \<Rightarrow> nat multiset \<Rightarrow> bool" where
  "op_step ar ar' ids \<longleftrightarrow> op_core ar' = op_core ar \<and> (act_ok ar \<longrightarrow> act_ok ar') \<and> (anon ar \<longrightarrow> anon ar')
     \<and> (\<exists>evs lost. drv_log ar' = drv_log ar @ evs \<and> (anon ar \<longrightarrow> frames_of evs = ids) \<and> (no_leak ar \<longrightarrow> lost = [])
            \<and> (\<forall>out l0. acct ar out l0 \<longrightarrow> acct ar' (out @ sent evs) (l0 @ lost)))"

lemma op_core_simps:
  assumes "op_core ar' = op_core ar"
  shows "vif_core (vifs ar' v) = vif_core (vifs ar v)" "wmi_core (drv_wmi ar') = wmi_core (drv_wmi ar)" "vif_list ar' = vif_list ar" "vif_max ar' = vif_max ar"
    "wmi_ready ar' = wmi_ready ar" "wmi_enabled ar' = wmi_enabled ar" "testmode_epping ar' = testmode_epping ar"
    "ac2ep_map ar' = ac2ep_map ar" "ac_stream_pri_map ar' = ac_stream_pri_map ar" "ctrl_ep ar' = ctrl_ep ar"
    "conf_flowctrl ar' = conf_flowctrl ar" "low_cpu_power_tx_bundle_max ar' = low_cpu_power_tx_bundle_max ar" "conf_skb_dup ar' = conf_skb_dup ar"
  using arg_cong [OF assms, of "\<lambda>a. vifs a v"] arg_cong [OF assms, of drv_wmi] arg_cong [OF assms, of vif_list] arg_cong [OF assms, of vif_max]
    arg_cong [OF assms, of wmi_ready] arg_cong [OF assms, of wmi_enabled] arg_cong [OF assms, of testmode_epping]
    arg_cong [OF assms, of ac2ep_map] arg_cong [OF assms, of ac_stream_pri_map] arg_cong [OF assms, of ctrl_ep]
    arg_cong [OF assms, of conf_flowctrl] arg_cong [OF assms, of low_cpu_power_tx_bundle_max] arg_cong [OF assms, of conf_skb_dup]
  by (simp_all add: op_core_def)

lemma vif_core_simps:
  assumes "vif_core x' = vif_core x"
  shows "fw_vif_idx x' = fw_vif_idx x" "nw_type x' = nw_type x" "vif_connected x' = vif_connected x" "dtim_expired x' = dtim_expired x"
    "psq_mcast x' = psq_mcast x" "sta_list_index x' = sta_list_index x" "sta_core (sta_list x' i) = sta_core (sta_list x i)"
  using arg_cong [OF assms, of fw_vif_idx] arg_cong [OF assms, of nw_type] arg_cong [OF assms, of vif_connected] arg_cong [OF assms, of dtim_expired]
    arg_cong [OF assms, of psq_mcast] arg_cong [OF assms, of sta_list_index] arg_cong [OF assms, of "\<lambda>x. sta_list x i"]
  by (simp_all add: vif_core_def)

lemma sta_core_simps:
  assumes "sta_core c' = sta_core c"
  shows "sta_flags c' = sta_flags c" "sta_mac c' = sta_mac c" "sta_aid c' = sta_aid c" "psq_data c' = psq_data c" "psq_mgmt c' = psq_mgmt c"
    "apsd_info c' = apsd_info c"
  using arg_cong [OF assms, of sta_flags] arg_cong [OF assms, of sta_mac] arg_cong [OF assms, of sta_aid] arg_cong [OF assms, of psq_data]
    arg_cong [OF assms, of psq_mgmt] arg_cong [OF assms, of apsd_info]
  by (simp_all add: sta_core_def)

lemma no_leak_core:
  assumes "op_core ar' = op_core ar" shows "no_leak ar' = no_leak ar"
  by (simp add: no_leak_def op_core_simps [OF assms])

lemma op_step_refl [simp]: "op_step ar ar {#}"
  unfolding op_step_def by (intro conjI exI [of _ "[]"]) simp_all

lemma op_step_trans:
  assumes "op_step a b m" and "op_step b c n"
  shows "op_step a c (m + n)"
proof -
  obtain e1 l1 where 1: "drv_log b = drv_log a @ e1" "anon a \<Longrightarrow> frames_of e1 = m" "no_leak a \<Longrightarrow> l1 = []"
      "\<And>out l0. acct a out l0 \<Longrightarrow> acct b (out @ sent e1) (l0 @ l1)"
    using assms(1) unfolding op_step_def by blast
  obtain e2 l2 where 2: "drv_log c = drv_log b @ e2" "anon b \<Longrightarrow> frames_of e2 = n" "no_leak b \<Longrightarrow> l2 = []"
      "\<And>out l0. acct b out l0 \<Longrightarrow> acct c (out @ sent e2) (l0 @ l2)"
    using assms(2) unfolding op_step_def by blast
  have b: "op_core b = op_core a" and c: "op_core c = op_core b" and an: "anon a \<Longrightarrow> anon b" using assms by (simp_all add: op_step_def)
  have "drv_log c = drv_log a @ (e1 @ e2)" "anon a \<longrightarrow> frames_of (e1 @ e2) = m + n" "no_leak a \<longrightarrow> l1 @ l2 = []"
    using 1(1-3) 2(1-3) no_leak_core [OF b] an by auto
  moreover have "acct c (out @ sent (e1 @ e2)) (l0 @ (l1 @ l2))" if "acct a out l0" for out l0
    using 2(4) [OF 1(4) [OF that]] by simp
  moreover have "act_ok a \<longrightarrow> act_ok c" "anon a \<longrightarrow> anon c" using assms by (auto simp: op_step_def)
  ultimately show ?thesis unfolding op_step_def
    by (intro conjI exI [of _ "e1 @ e2"] exI [of _ "l1 @ l2"]) (simp_all only: b c, simp_all)
qed

lemma op_step_trans0: "op_step a b {#} \<Longrightarrow> op_step b c n \<Longrightarrow> op_step a c n"
  using op_step_trans [of a b "{#}" c n] by simp

text \<open>An update that reaches neither packets, streams nor the log.\<close>

definition acct_part :: "ath6kl \<Rightarrow> cookie_pool \<times> cookie_pool \<times> (int \<Rightarrow> int) \<times> int \<times> int \<times> bool" where
  "acct_part ar = (cookie_data ar, cookie_ctrl ar, tx_pending ar, total_tx_data_pend ar, ctrl_ep ar, eps_ok ar)"

definition act_part :: "ath6kl \<Rightarrow> bool \<times> (nat \<Rightarrow> nat) \<times> (nat \<Rightarrow> bool) \<times> nat \<times> nat \<times> (nat \<Rightarrow> u16) \<times> u8" where
  "act_part ar = (wmi_enabled ar, ac_stream_pri_map ar, ac_stream_active ar, hiac_stream_active_pri ar, ac_stream_active_num ar,
     stream_exist_for_ac (drv_wmi ar), fat_pipe_exist (drv_wmi ar))"

lemma acct_cong: "acct_part ar' = acct_part ar \<Longrightarrow> acct ar' out lost = acct ar out lost"
proof -
  assume a: "acct_part ar' = acct_part ar"
  have "read_cookie ar' r = read_cookie ar r" for r using a by (cases r) (simp_all add: acct_part_def read_cookie_def)
  then have "read_cookie ar' = read_cookie ar" by blast
  then show ?thesis using a by (simp add: acct_part_def acct_def)
qed

lemma act_cong: "act_part ar' = act_part ar \<Longrightarrow> act_ok ar' = act_ok ar"
  by (simp add: act_part_def act_ok_def active_acs_def)

lemma op_step_quiet:
  assumes "op_core ar' = op_core ar" "acct_part ar' = acct_part ar" "act_part ar' = act_part ar" "drv_log ar' = drv_log ar"
    and "anon ar \<Longrightarrow> anon ar'"
  shows "op_step ar ar' {#}"
proof -
  have "act_ok ar' = act_ok ar" and "\<And>out lost. acct ar' out lost = acct ar out lost" by (rule act_cong [OF assms(3)]) (rule acct_cong [OF assms(2)])
  then show ?thesis unfolding op_step_def using assms(1,4,5) by (intro conjI exI [of _ "[]"]) simp_all
qed

lemma ctl_op_step:
  assumes "ctl_step ar ar' ids" shows "op_step ar ar' ids"
proof -
  have e: "ctl_core ar' = ctl_core ar" using assms by (simp add: ctl_step_def)
  have core: "op_core (ctl_core a) = op_core a" for a by (simp add: op_core_def ctl_core_def)
  have "op_core ar' = op_core ar" using core [of ar'] core [of ar] e by argo
  moreover have "act_ok ar' = act_ok ar" by (rule act_cong) (simp add: act_part_def ctl_step_fields [OF assms])
  moreover have "anon ar' = anon ar" by (rule anon_cong) (rule ctl_step_fields [OF assms])
  moreover obtain evs where "drv_log ar' = drv_log ar @ evs" "frames_of evs = ids" "\<And>out lost. acct ar out lost \<Longrightarrow> acct ar' (out @ sent evs) lost"
    using assms unfolding ctl_step_def by blast
  ultimately show ?thesis unfolding op_step_def by (intro conjI exI [of _ evs] exI [of _ "[]"]) simp_all
qed

section \<open>Streams and their activity\<close>

lemma fold_hi_Max:
  "fold (\<lambda>i hi. if P i \<and> f i > hi then f i else hi) xs h = Max (insert h (f ` {i \<in> set xs. P i}))" for f :: "nat \<Rightarrow> nat"
proof (induction xs arbitrary: h)
  case (Cons x xs)
  have fin: "finite (f ` {i \<in> set xs. P i})" by simp
  have e: "{i \<in> set (x # xs). P i} = (if P x then insert x {i \<in> set xs. P i} else {i \<in> set xs. P i})" by auto
  show ?case
  proof (cases "P x \<and> f x > h")
    case True
    have "Max (insert h (f ` {i \<in> set (x # xs). P i})) = Max (insert h (insert (f x) (f ` {i \<in> set xs. P i})))" using e True by simp
    also have "\<dots> = max h (Max (insert (f x) (f ` {i \<in> set xs. P i})))" by (rule Max_insert) (use fin in auto)
    also have "\<dots> = Max (insert (f x) (f ` {i \<in> set xs. P i}))" proof -
      have "f x \<le> Max (insert (f x) (f ` {i \<in> set xs. P i}))" by (rule Max_ge) (use fin in auto)
      then have "h \<le> Max (insert (f x) (f ` {i \<in> set xs. P i}))" using True by linarith
      then show ?thesis by (rule max_absorb2)
    qed
    finally show ?thesis using Cons.IH True by simp
  next
    case False
    have "Max (insert h (f ` {i \<in> set (x # xs). P i})) = Max (insert h (f ` {i \<in> set xs. P i}))"
    proof (cases "P x")
      case True
      then have "f x \<le> h" using False by auto
      have "Max (insert h (f ` {i \<in> set (x # xs). P i})) = Max (insert (f x) (insert h (f ` {i \<in> set xs. P i})))" using e True by (simp add: insert_commute)
      also have "\<dots> = max (f x) (Max (insert h (f ` {i \<in> set xs. P i})))" by (rule Max_insert) (use fin in auto)
      also have "\<dots> = Max (insert h (f ` {i \<in> set xs. P i}))" proof -
        have "h \<le> Max (insert h (f ` {i \<in> set xs. P i}))" by (rule Max_ge) (use fin in auto)
        then have "f x \<le> Max (insert h (f ` {i \<in> set xs. P i}))" using \<open>f x \<le> h\<close> by linarith
        then show ?thesis by (rule max_absorb2)
      qed
      finally show ?thesis .
    qed (use e in simp)
    moreover have "fold (\<lambda>i hi. if P i \<and> f i > hi then f i else hi) (x # xs) h = fold (\<lambda>i hi. if P i \<and> f i > hi then f i else hi) xs h"
      using False by auto
    ultimately show ?thesis using Cons.IH [of h] by simp
  qed
qed simp

lemma scan_hiac_Max: "scan_hiac ar = Max (insert 0 (ac_stream_pri_map ar ` active_acs ar))"
proof -
  have "{i \<in> set [0..<WMM_NUM_AC]. ac_stream_active ar i} = active_acs ar" by (auto simp: active_acs_def)
  then show ?thesis unfolding scan_hiac_def fold_hi_Max by simp
qed

lemma count_active_card: "count_active ar = card (active_acs ar)"
proof -
  have "count_active ar = card (set (filter (ac_stream_active ar) [0..<WMM_NUM_AC]))" unfolding count_active_def
    by (rule distinct_card [symmetric]) simp
  also have "set (filter (ac_stream_active ar) [0..<WMM_NUM_AC]) = active_acs ar" by (auto simp: active_acs_def)
  finally show ?thesis .
qed

lemma set_hiac_fields:
  "ac_stream_active (set_hiac ar tc b) = (ac_stream_active ar)(tc := b)" "ac_stream_pri_map (set_hiac ar tc b) = ac_stream_pri_map ar"
  "drv_wmi (set_hiac ar tc b) = drv_wmi ar" "drv_log (set_hiac ar tc b) = drv_log ar" "op_core (set_hiac ar tc b) = op_core ar"
  "acct_part (set_hiac ar tc b) = acct_part ar" "vifs (set_hiac ar tc b) = vifs ar"
  by (simp_all add: set_hiac_def Let_def op_core_def acct_part_def)

text \<open>The incremental update of the highest active priority agrees with a recomputation.\<close>

lemma set_hiac_exact:
  assumes hi: "hiac_stream_active_pri ar = Max (insert 0 (ac_stream_pri_map ar ` active_acs ar))" and tc: "tc < WMM_NUM_AC"
  shows "hiac_stream_active_pri (set_hiac ar tc b) = Max (insert 0 (ac_stream_pri_map ar ` active_acs (set_hiac ar tc b)))"
proof -
  define f where "f = ac_stream_pri_map ar"
  have fin: "finite (active_acs a)" for a by (simp add: active_acs_def)
  have act: "active_acs (set_hiac ar tc b) = (if b then insert tc (active_acs ar) else active_acs ar - {tc})"
    using tc by (auto simp: active_acs_def set_hiac_fields)
  show ?thesis
  proof (cases b)
    case True
    have "Max (insert 0 (f ` insert tc (active_acs ar))) = max (f tc) (Max (insert 0 (f ` active_acs ar)))"
      using Max_insert [of "insert 0 (f ` active_acs ar)" "f tc"] fin by (simp add: insert_commute)
    moreover have "hiac_stream_active_pri (set_hiac ar tc b) = max (f tc) (hiac_stream_active_pri ar)"
      using True by (simp add: set_hiac_def Let_def f_def max_def)
    moreover have "active_acs (set_hiac ar tc b) = insert tc (active_acs ar)" using True act by simp
    ultimately show ?thesis using hi unfolding f_def by presburger
  next
    case False
    define ar1 where "ar1 = ar\<lparr>ac_stream_active := (ac_stream_active ar)(tc := False)\<rparr>"
    have a1: "active_acs ar1 = active_acs ar - {tc}" by (auto simp: active_acs_def ar1_def)
    show ?thesis
    proof (cases "hiac_stream_active_pri ar = f tc")
      case True
      then have "hiac_stream_active_pri (set_hiac ar tc b) = scan_hiac ar1" using False by (simp add: set_hiac_def Let_def f_def ar1_def)
      then show ?thesis using False scan_hiac_Max [of ar1] a1 act by (simp add: f_def ar1_def)
    next
      case ne: False
      have same: "hiac_stream_active_pri (set_hiac ar tc b) = hiac_stream_active_pri ar"
        using False ne by (simp add: set_hiac_def Let_def f_def ar1_def)
      have "Max (insert 0 (f ` (active_acs ar - {tc}))) = Max (insert 0 (f ` active_acs ar))"
      proof (cases "tc \<in> active_acs ar")
        case True
        have "insert 0 (f ` active_acs ar) = insert (f tc) (insert 0 (f ` (active_acs ar - {tc})))" using True by auto
        then have "Max (insert 0 (f ` active_acs ar)) = max (f tc) (Max (insert 0 (f ` (active_acs ar - {tc}))))"
          using Max_insert [of "insert 0 (f ` (active_acs ar - {tc}))" "f tc"] fin by simp
        then show ?thesis using ne hi by (auto simp: f_def max_def split: if_splits)
      qed simp
      then show ?thesis using same hi False act by (simp add: f_def)
    qed
  qed
qed

lemma op_step_event: "sent [e] = [] \<Longrightarrow> op_step ar (drv_do ar [e]) (ev_frame e)"
  unfolding op_step_def
proof (intro conjI exI [of _ "[e]"] exI [of _ "[]"] allI impI)
  assume s: "sent [e] = []"
  show "op_core (drv_do ar [e]) = op_core ar" by (simp add: op_core_def drv_do_def)
  show "act_ok (drv_do ar [e])" if "act_ok ar" using that act_cong [of "drv_do ar [e]" ar] by (simp add: act_part_def drv_do_def)
  show "drv_log (drv_do ar [e]) = drv_log ar @ [e]" by (simp add: drv_do_def)
  show "acct (drv_do ar [e]) (out @ sent [e]) (l0 @ [])" if "acct ar out l0" for out l0
    using that s acct_cong [of "drv_do ar [e]" ar out l0] by (simp only: append_Nil2) (simp add: acct_part_def drv_do_def)
qed (use anon_cong [of "drv_do ar [e]" ar] in \<open>simp_all add: drv_do_def\<close>)

text \<open>
  The activity report, from a state \<open>ar\<close> that differs from \<open>ar0\<close> in its streams only.
\<close>

lemma tx_activity_from:
  assumes tc: "tc < WMM_NUM_AC" and core: "op_core ar = op_core ar0" and part: "acct_part ar = acct_part ar0" and log: "drv_log ar = drv_log ar0" and vs: "vifs ar = vifs ar0"
    and hi: "act_ok ar0 \<Longrightarrow> hiac_stream_active_pri ar = Max (insert 0 (ac_stream_pri_map ar ` active_acs ar))"
    and fat: "\<And>i. act_ok ar0 \<Longrightarrow> i < WMM_NUM_AC \<Longrightarrow> (if i = tc then b else ac_stream_active ar i) \<or> stream_exist_for_ac (drv_wmi ar) i \<noteq> 0
           \<Longrightarrow> bit (fat_pipe_exist (drv_wmi ar)) i"
  shows "op_step ar0 (ath6kl_indicate_tx_activity can ar tc b) {#}"
proof (cases "wmi_enabled ar")
  case False
  then have n: "\<not> act_ok ar0" using op_core_simps(6) [OF core] by (simp add: act_ok_def)
  have "op_step ar0 (drv_do ar [EvActivity (ac2ep_map ar tc) b]) {#}" unfolding op_step_def
  proof (intro conjI exI [of _ "[EvActivity (ac2ep_map ar tc) b]"] exI [of _ "[]"] allI impI)
    show "op_core (drv_do ar [EvActivity (ac2ep_map ar tc) b]) = op_core ar0" using core by (simp add: op_core_def drv_do_def)
    show "acct (drv_do ar [EvActivity (ac2ep_map ar tc) b]) (out @ sent [EvActivity (ac2ep_map ar tc) b]) (l0 @ [])" if "acct ar0 out l0" for out l0
      using that acct_cong [of "drv_do ar [EvActivity (ac2ep_map ar tc) b]" ar0 out l0] part by (simp add: acct_part_def drv_do_def)
  qed (use n log anon_cong [of "drv_do ar [EvActivity (ac2ep_map ar tc) b]" ar0] vs in \<open>simp_all add: drv_do_def\<close>)
  then show ?thesis using False by (simp add: ath6kl_indicate_tx_activity_def Let_def)
next
  case True
  define ar1 where "ar1 = set_hiac ar tc b"
  define ar2 where "ar2 = (if ath6kl_htc_mbox_change_credit_bypass tc \<noteq> 0 then
       (case ath6kl_vif_first ar1 of None \<Rightarrow> ar1
        | Some v \<Rightarrow> snd (ath6kl_wmi_set_credit_bypass can ar1 (fw_vif_idx (vifs ar1 v)) (ac2ep_map ar1 WMM_AC_BE) (if b then 0 else 1) (if b then 6 else 1)))
       else ar1)"
  define ar3 where "ar3 = ar2\<lparr>ac_stream_active_num := count_active ar2\<rparr>"
  have c12: "ctl_step ar1 ar2 {#}" unfolding ar2_def using credit_bypass_step ctl_step_refl by (simp split: option.split)
  note f12 = ctl_step_fields [OF c12]
  have v1: "anon ar1 = anon ar0" by (rule anon_cong) (simp add: ar1_def set_hiac_fields vs)
  obtain evs lost where 2: "drv_log ar2 = drv_log ar1 @ evs" "anon ar1 \<longrightarrow> frames_of evs = {#}" "no_leak ar1 \<longrightarrow> lost = []"
     "\<And>out l0. acct ar1 out l0 \<Longrightarrow> acct ar2 (out @ sent evs) (l0 @ lost)" and c2: "op_core ar2 = op_core ar1"
    using ctl_op_step [OF c12] unfolding op_step_def by blast
  have c3: "op_core ar3 = op_core ar0" using c2 core by (simp add: ar3_def ar1_def set_hiac_fields) (simp add: op_core_def)
  have aa: "active_acs ar2 = active_acs ar1" using f12 by (simp add: active_acs_def)
  have "op_step ar0 ar3 {#}" unfolding op_step_def
  proof (intro conjI exI [of _ evs] exI [of _ lost] allI impI)
    show "op_core ar3 = op_core ar0" by (rule c3)
    show "act_ok ar3" if a: "act_ok ar0"
      unfolding act_ok_def
    proof (intro conjI allI impI)
      show "wmi_enabled ar3" using True op_core_simps(6) [OF c3] op_core_simps(6) [OF core] by simp
      have "hiac_stream_active_pri ar1 = Max (insert 0 (ac_stream_pri_map ar ` active_acs ar1))"
        unfolding ar1_def by (rule set_hiac_exact) (use hi a tc in simp_all)
      then show "hiac_stream_active_pri ar3 = Max (insert 0 (ac_stream_pri_map ar3 ` active_acs ar3))"
        using f12 aa by (simp add: ar3_def active_acs_def ar1_def set_hiac_fields)
      show "ac_stream_active_num ar3 = card (active_acs ar3)" by (simp add: ar3_def count_active_card active_acs_def)
      fix i assume i: "i < WMM_NUM_AC" and h: "ac_stream_active ar3 i \<or> stream_exist_for_ac (drv_wmi ar3) i \<noteq> 0"
      have "drv_wmi ar3 = drv_wmi ar" "ac_stream_active ar3 = (ac_stream_active ar)(tc := b)"
        using f12 by (simp_all add: ar3_def ar1_def set_hiac_fields)
      then show "bit (fat_pipe_exist (drv_wmi ar3)) i" using fat [OF a i] h by (auto split: if_splits)
    qed
    show "drv_log ar3 = drv_log ar0 @ evs" using 2 log by (simp add: ar3_def ar1_def set_hiac_fields)
    show "acct ar3 (out @ sent evs) (l0 @ lost)" if "acct ar0 out l0" for out l0
    proof -
      have "acct ar1 out l0" using that acct_cong [of ar1 ar0] part by (simp add: ar1_def set_hiac_fields)
      from 2(4) [OF this] show ?thesis using acct_cong [of ar3 ar2] by (simp add: ar3_def acct_part_def)
    qed
    assume "no_leak ar0" then show "lost = []" using 2(3) no_leak_core [of ar1 ar0] core by (simp add: ar1_def set_hiac_fields)
  next
    show "anon ar3" if "anon ar0" using that v1 anon_cong [of ar3 ar1] f12 by (simp add: ar3_def)
    show "frames_of evs = {#}" if "anon ar0" using that v1 2(2) by simp
  qed
  from op_step_trans [OF this op_step_event [of "EvActivity (ac2ep_map ar tc) b" ar3]]
  show ?thesis using True by (simp add: ath6kl_indicate_tx_activity_def Let_def ar1_def [symmetric] ar2_def [symmetric] ar3_def)
qed

lemma tx_activity_step:
  assumes "tc < WMM_NUM_AC" and "b \<Longrightarrow> bit (fat_pipe_exist (drv_wmi ar)) tc"
  shows "op_step ar (ath6kl_indicate_tx_activity can ar tc b) {#}"
  by (rule tx_activity_from [OF assms(1)]) (use assms in \<open>auto simp: act_ok_def split: if_splits\<close>)

lemma tx_activity_fields:
  shows "drv_wmi (ath6kl_indicate_tx_activity can ar tc b) = drv_wmi ar"
    and "wmi_enabled ar \<Longrightarrow> ac_stream_active (ath6kl_indicate_tx_activity can ar tc b) = (ac_stream_active ar)(tc := b)"
  by (simp_all add: ath6kl_indicate_tx_activity_def Let_def drv_do_def ctl_step_fields [OF credit_bypass_step] set_hiac_fields split: option.split)

lemma wmi_upd_step:
  assumes "wmi_core (f (drv_wmi ar)) = wmi_core (drv_wmi ar)"
    and "\<And>i. act_ok ar \<Longrightarrow> i < WMM_NUM_AC \<Longrightarrow> ac_stream_active ar i \<or> stream_exist_for_ac (f (drv_wmi ar)) i \<noteq> 0 \<Longrightarrow> bit (fat_pipe_exist (f (drv_wmi ar))) i"
  shows "op_step ar (upd_wmi ar f) {#}"
  unfolding op_step_def
proof (intro conjI exI [of _ "[]"] allI impI)
  show "op_core (upd_wmi ar f) = op_core ar" using assms(1) by (simp add: op_core_def upd_wmi_def)
  show "act_ok (upd_wmi ar f)" if "act_ok ar"
    using assms(2) [OF that] that by (simp add: act_ok_def upd_wmi_def active_acs_def)
  show "acct (upd_wmi ar f) (out @ sent []) (l0 @ [])" if "acct ar out l0" for out l0
    using that acct_cong [of "upd_wmi ar f" ar] by (simp add: acct_part_def upd_wmi_def)
qed (use anon_cong [of "upd_wmi ar f" ar] in \<open>simp_all add: upd_wmi_def\<close>)

lemma up_to_ac_bound: "up_to_ac ! (n mod 8) < WMM_NUM_AC"
proof -
  have "length up_to_ac = 8" "\<forall>x\<in>set up_to_ac. x < WMM_NUM_AC" by (simp_all add: up_to_ac_def WMM_NUM_AC_def)
  then show ?thesis using nth_mem [of "n mod 8" up_to_ac] by simp
qed

lemma bit_set_fat: "tc < WMM_NUM_AC \<Longrightarrow> bit ((w :: u8) OR 2 ^ tc) i \<longleftrightarrow> bit w i \<or> i = tc"
  by (auto simp: bit_or_iff bit_exp_iff WMM_NUM_AC_def)

lemma bit_clear_fat: "tc < WMM_NUM_AC \<Longrightarrow> bit ((w :: u8) AND NOT (2 ^ tc)) i \<longleftrightarrow> bit w i \<and> i \<noteq> tc"
  by (auto simp: bit_and_iff bit_not_iff bit_exp_iff WMM_NUM_AC_def dest: bit_imp_le_length)

lemma create_pstream_step: "op_step ar (snd (ath6kl_wmi_create_pstream_cmd can ar if_idx params)) {#}"
proof (cases "pstream_params_ok params")
  case False
  then show ?thesis by (simp add: ath6kl_wmi_create_pstream_cmd_def)
next
  case True
  define p where "p = pstream_phy params"
  define tc where "tc = traffic_class p"
  have tc: "tc < WMM_NUM_AC" using True up_to_ac_bound [of "user_pri params"] by (auto simp: tc_def p_def pstream_phy_def pstream_params_ok_def)
  obtain so ar1 where b: "ath6kl_wmi_get_new_buf can ar (length (put_pstream p)) = (so, ar1)"
    by (cases "ath6kl_wmi_get_new_buf can ar (length (put_pstream p))")
  have 1: "op_step ar ar1 {#}" using new_buf_step [OF b] ctl_op_step by blast
  show ?thesis
  proof (cases so)
    case None
    then show ?thesis using True b 1 by (simp add: ath6kl_wmi_create_pstream_cmd_def p_def Let_def)
  next
    case (Some s)
    define f where "f = (\<lambda>w :: wmi. w\<lparr>stream_exist_for_ac := (if tsid p = WMI_IMPLICIT_PSTREAM then stream_exist_for_ac w
                                else (stream_exist_for_ac w)(tc := stream_exist_for_ac w tc OR push_bit (unat (tsid p)) 1)),
                  fat_pipe_exist := fat_pipe_exist w OR push_bit tc 1\<rparr>)"
    define ar2 where "ar2 = upd_wmi ar1 f"
    have 2: "op_step ar1 ar2 {#}" unfolding ar2_def
    proof (rule wmi_upd_step)
      show "bit (fat_pipe_exist (f (drv_wmi ar1))) i"
        if "act_ok ar1" "i < WMM_NUM_AC" "ac_stream_active ar1 i \<or> stream_exist_for_ac (f (drv_wmi ar1)) i \<noteq> 0" for i
        using that tc by (cases "i = tc") (auto simp: f_def act_ok_def bit_set_fat split: if_splits)
    qed (simp add: f_def wmi_core_def)
    have fat: "bit (fat_pipe_exist (drv_wmi ar2)) tc" using tc by (simp add: ar2_def f_def upd_wmi_def bit_set_fat)
    define ar3 where "ar3 = (if ac_stream_active ar1 tc then ar2 else ath6kl_indicate_tx_activity can ar2 tc True)"
    have 3: "op_step ar2 ar3 {#}" unfolding ar3_def using tx_activity_step [OF tc fat] by simp
    have i: "id_ms (skb_store s 0 (put_pstream p)) = {#}" using new_buf_step [OF b] Some by simp
    have 4: "op_step ar3 (snd (ath6kl_wmi_cmd_send can ar3 if_idx (skb_store s 0 (put_pstream p)) WMI_CREATE_PSTREAM_CMDID NO_SYNC_WMIFLAG)) {#}"
      using ctl_op_step [OF cmd_send_step] i by metis
    have "snd (ath6kl_wmi_create_pstream_cmd can ar if_idx params)
        = snd (ath6kl_wmi_cmd_send can ar3 if_idx (skb_store s 0 (put_pstream p)) WMI_CREATE_PSTREAM_CMDID NO_SYNC_WMIFLAG)"
      using True b Some unfolding ar3_def ar2_def f_def tc_def by (simp add: ath6kl_wmi_create_pstream_cmd_def Let_def p_def [symmetric])
    then show ?thesis using op_step_trans0 [OF op_step_trans0 [OF 1 2] op_step_trans0 [OF 3 4]] by simp
  qed
qed

lemma remove_thin_step: "op_step ar (upd_wmi ar (\<lambda>w. w\<lparr>stream_exist_for_ac := (stream_exist_for_ac w)(tc := stream_exist_for_ac w tc AND NOT m)\<rparr>)) {#}"
proof (rule wmi_upd_step)
  fix i assume a: "act_ok ar" "i < WMM_NUM_AC"
    and h: "ac_stream_active ar i \<or> stream_exist_for_ac (drv_wmi ar\<lparr>stream_exist_for_ac := (stream_exist_for_ac (drv_wmi ar))
        (tc := stream_exist_for_ac (drv_wmi ar) tc AND NOT m)\<rparr>) i \<noteq> 0"
  have "ac_stream_active ar i \<or> stream_exist_for_ac (drv_wmi ar) i \<noteq> 0" using h by (cases "i = tc") auto
  then have "bit (fat_pipe_exist (drv_wmi ar)) i" using a unfolding act_ok_def by blast
  then show "bit (fat_pipe_exist (drv_wmi ar\<lparr>stream_exist_for_ac := (stream_exist_for_ac (drv_wmi ar))
        (tc := stream_exist_for_ac (drv_wmi ar) tc AND NOT m)\<rparr>)) i" by simp
qed (simp add: wmi_core_def)

lemma remove_fat_step:
  assumes tc: "tc < WMM_NUM_AC" and n: "act_ok ar \<Longrightarrow> \<not> ac_stream_active ar tc \<and> stream_exist_for_ac (drv_wmi ar) tc = 0"
  shows "op_step ar (upd_wmi ar (\<lambda>w. w\<lparr>fat_pipe_exist := fat_pipe_exist w AND NOT (push_bit tc 1)\<rparr>)) {#}"
proof (rule wmi_upd_step)
  fix i assume a: "act_ok ar" "i < WMM_NUM_AC"
    and "ac_stream_active ar i \<or> stream_exist_for_ac (drv_wmi ar\<lparr>fat_pipe_exist := fat_pipe_exist (drv_wmi ar) AND NOT (push_bit tc 1)\<rparr>) i \<noteq> 0"
  then have h: "ac_stream_active ar i \<or> stream_exist_for_ac (drv_wmi ar) i \<noteq> 0" by simp
  have "i \<noteq> tc" using h n [OF a(1)] by auto
  moreover have "bit (fat_pipe_exist (drv_wmi ar)) i" using a h unfolding act_ok_def by blast
  ultimately show "bit (fat_pipe_exist (drv_wmi ar\<lparr>fat_pipe_exist := fat_pipe_exist (drv_wmi ar) AND NOT (push_bit tc 1)\<rparr>)) i"
    using bit_clear_fat [OF tc] by simp
qed (simp add: wmi_core_def)

lemma pipe_gone_step:
  assumes tc: "tc < WMM_NUM_AC" and z: "stream_exist_for_ac (drv_wmi ar) tc = 0"
  shows "op_step ar (upd_wmi (ath6kl_indicate_tx_activity can ar tc False) (\<lambda>w. w\<lparr>fat_pipe_exist := fat_pipe_exist w AND NOT (push_bit tc 1)\<rparr>)) {#}"
proof -
  define ar4 where "ar4 = ath6kl_indicate_tx_activity can ar tc False"
  have 4: "op_step ar ar4 {#}" unfolding ar4_def by (rule tx_activity_step [OF tc]) simp
  have "op_core ar4 = op_core ar" using 4 by (simp add: op_step_def)
  from op_core_simps(6) [OF this] have w: "act_ok ar4 \<Longrightarrow> wmi_enabled ar" by (simp add: act_ok_def)
  show ?thesis unfolding ar4_def [symmetric]
    by (rule op_step_trans0 [OF 4 remove_fat_step [OF tc]]) (use w z in \<open>simp add: ar4_def tx_activity_fields\<close>)
qed

lemma delete_pstream_step:
  assumes "ath6kl_wmi_delete_pstream_cmd can ar if_idx tc ts = Some (r, ar')"
  shows "op_step ar ar' {#}"
proof (cases "tc > 3")
  case True
  then show ?thesis using assms by (simp add: ath6kl_wmi_delete_pstream_cmd_def)
next
  case False
  then have tc: "tc < WMM_NUM_AC" by (simp add: WMM_NUM_AC_def)
  obtain so ar1 where b: "ath6kl_wmi_get_new_buf can ar 5 = (so, ar1)" by (cases "ath6kl_wmi_get_new_buf can ar 5")
  have 1: "op_step ar ar1 {#}" using new_buf_step [OF b] ctl_op_step by blast
  show ?thesis
  proof (cases so)
    case None
    then show ?thesis using assms False b 1 by (simp add: ath6kl_wmi_delete_pstream_cmd_def)
  next
    case (Some s)
    define s1 where "s1 = skb_store s 3 [of_nat tc, ts]"
    define m where "m = push_bit (unat ts) (1 :: u16)"
    have i: "id_ms s1 = {#}" using new_buf_step [OF b] Some by (simp add: s1_def)
    obtain q ar2 where c: "ath6kl_wmi_cmd_send can ar1 if_idx s1 WMI_DELETE_PSTREAM_CMDID SYNC_BEFORE_WMIFLAG = (q, ar2)"
      by (cases "ath6kl_wmi_cmd_send can ar1 if_idx s1 WMI_DELETE_PSTREAM_CMDID SYNC_BEFORE_WMIFLAG")
    have 2: "op_step ar1 ar2 {#}" using ctl_op_step [OF cmd_send_step [of ar1 can if_idx s1 WMI_DELETE_PSTREAM_CMDID SYNC_BEFORE_WMIFLAG]] unfolding i c by simp
    define ar3 where "ar3 = upd_wmi ar2 (\<lambda>w. w\<lparr>stream_exist_for_ac := (stream_exist_for_ac w)(tc := stream_exist_for_ac w tc AND NOT m)\<rparr>)"
    have 3: "op_step ar2 ar3 {#}" unfolding ar3_def by (rule remove_thin_step)
    define ar5 where "ar5 = upd_wmi (ath6kl_indicate_tx_activity can ar3 tc False) (\<lambda>w. w\<lparr>fat_pipe_exist := fat_pipe_exist w AND NOT (push_bit tc 1)\<rparr>)"
    have 5: "op_step ar3 ar5 {#}" if z: "stream_exist_for_ac (drv_wmi ar3) tc = 0" unfolding ar5_def by (rule pipe_gone_step [OF tc z])
    have 6: "op_step ar1 (drv_do ar1 [EvFree s1]) {#}" using ctl_op_step [OF ctl_step_free1 [of ar1 s1]] i by simp
    have e: "ar' = drv_do ar1 [EvFree s1] \<or> ar' = (if stream_exist_for_ac (drv_wmi ar3) tc = 0 then ar5 else ar3)"
    proof -
      have "ath6kl_wmi_delete_pstream_cmd can ar if_idx tc ts = (if unat ts \<ge> 32 then None
          else if stream_exist_for_ac (drv_wmi ar1) tc AND m = 0 then Some (- ENODATA, drv_do ar1 [EvFree s1])
          else Some (q, if stream_exist_for_ac (drv_wmi ar3) tc = 0 then ar5 else ar3))"
        unfolding ath6kl_wmi_delete_pstream_cmd_def b Some Let_def s1_def [symmetric] m_def [symmetric] c prod.case option.case
          ar3_def [symmetric] ar5_def [symmetric] using False by (simp only: if_False)
      then show ?thesis using assms by (simp split: if_splits)
    qed
    have 123: "op_step ar ar3 {#}" by (rule op_step_trans0 [OF op_step_trans0 [OF 1 2] 3])
    from e show ?thesis
    proof
      assume "ar' = drv_do ar1 [EvFree s1]"
      then show ?thesis using op_step_trans0 [OF 1 6] by simp
    next
      assume a: "ar' = (if stream_exist_for_ac (drv_wmi ar3) tc = 0 then ar5 else ar3)"
      show ?thesis
      proof (cases "stream_exist_for_ac (drv_wmi ar3) tc = 0")
        case True
        from op_step_trans0 [OF 123 5 [OF True]] show ?thesis unfolding a using True by simp
      next
        case False
        then show ?thesis using 123 by (simp only: a if_False)
      qed
    qed
  qed
qed

lemma pstream_timeout_step:
  assumes "ath6kl_wmi_pstream_timeout_event_rx can ar dat = Some (r, ar')"
  shows "op_step ar ar' {#}"
proof (cases dat)
  case Nil
  then show ?thesis using assms by (simp add: ath6kl_wmi_pstream_timeout_event_rx_def)
next
  case (Cons b rest)
  define tc where "tc = unat b"
  have tc: "tc < WMM_NUM_AC" using assms Cons by (simp add: ath6kl_wmi_pstream_timeout_event_rx_def Let_def tc_def split: if_splits)
  define f where "f = (\<lambda>w :: wmi. w\<lparr>stream_exist_for_ac := (stream_exist_for_ac w)(tc := 0), fat_pipe_exist := fat_pipe_exist w AND NOT (push_bit tc 1)\<rparr>)"
  have e: "ar' = ath6kl_indicate_tx_activity can (upd_wmi ar f) tc False"
    using assms Cons tc by (simp add: ath6kl_wmi_pstream_timeout_event_rx_def Let_def f_def tc_def)
  have w: "drv_wmi (upd_wmi ar f) = f (drv_wmi ar)" by (simp add: upd_wmi_def)
  show ?thesis unfolding e
  proof (rule tx_activity_from [OF tc])
    show "op_core (upd_wmi ar f) = op_core ar" by (simp add: op_core_def upd_wmi_def f_def wmi_core_def)
    show "bit (fat_pipe_exist (drv_wmi (upd_wmi ar f))) i"
      if a: "act_ok ar" "i < WMM_NUM_AC" and h: "(if i = tc then False else ac_stream_active (upd_wmi ar f) i) \<or> stream_exist_for_ac (drv_wmi (upd_wmi ar f)) i \<noteq> 0" for i
    proof -
      have n: "i \<noteq> tc" using h unfolding w by (auto simp: f_def)
      then have "ac_stream_active ar i \<or> stream_exist_for_ac (drv_wmi ar) i \<noteq> 0" using h unfolding w by (simp add: f_def upd_wmi_def)
      then have "bit (fat_pipe_exist (drv_wmi ar)) i" using a unfolding act_ok_def by blast
      then show ?thesis unfolding w using n bit_clear_fat [OF tc] by (simp add: f_def)
    qed
  qed (simp_all add: acct_part_def upd_wmi_def act_ok_def active_acs_def)
qed

lemma implicit_pstream_step:
  assumes "ath6kl_wmi_implicit_create_pstream can ar if_idx s l2 wmm tg = ((tc, tg', s'), ar')"
  shows "op_step ar ar' {#}" and "skb_id s' = skb_id s"
proof -
  define w where "w = drv_wmi ar"
  define up where "up = pstream_usr_pri w s l2 wmm"
  define k where "k = up_to_ac ! (up mod 8)"
  have k: "k < WMM_NUM_AC" by (simp add: k_def up_to_ac_bound)
  define f where "f = (\<lambda>w :: wmi. w\<lparr>fat_pipe_exist := fat_pipe_exist w OR push_bit k 1\<rparr>)"
  have "op_step ar (upd_wmi ar f) {#}"
    by (rule wmi_upd_step) (use k in \<open>auto simp: f_def wmi_core_def act_ok_def bit_set_fat\<close>)
  from op_step_trans0 [OF this create_pstream_step]
  have 1: "op_step ar (snd (ath6kl_wmi_create_pstream_cmd can (upd_wmi ar f) if_idx p)) {#}" for p .
  show "op_step ar ar' {#}"
    using assms 1 unfolding ath6kl_wmi_implicit_create_pstream_def Let_def w_def [symmetric] up_def [symmetric] k_def [symmetric] f_def
    by (auto split: if_splits)
  show "skb_id s' = skb_id s" using assms by (auto simp: ath6kl_wmi_implicit_create_pstream_def Let_def)
qed

end
