(* ===== verification/DataTxInv.thy ===== *)
theory DataTxInv
  imports DriverInv
begin

text \<open>
  The effects of the transmit path (\<open>op_step\<close>): every stage of \<open>ath6kl_data_tx\<close> and of the flush of an
  aggregate hands a frame over, frees it or passes it on, and keeps the accounting of cookies, pending
  packets and streams.
\<close>

section \<open>Updates without effect\<close>

lemma op_step_ids: "op_step a b m \<Longrightarrow> (anon a \<Longrightarrow> m = n) \<Longrightarrow> op_step a b n"
  unfolding op_step_def by blast

lemma op_step_anon: "op_step a b m \<Longrightarrow> anon a \<Longrightarrow> anon b"
  by (simp add: op_step_def)

lemma op_step_core: "op_step a b m \<Longrightarrow> op_core b = op_core a"
  by (simp add: op_step_def)

lemma op_core_env:
  assumes "op_core ar' = op_core ar"
  shows "ibss_ps_enable ar' = ibss_ps_enable ar" "eps_ok ar' = eps_ok ar"
proof -
  show "ibss_ps_enable ar' = ibss_ps_enable ar" using arg_cong [OF assms, of ibss_ps_enable] by (simp add: op_core_def)
  then show "eps_ok ar' = eps_ok ar" using op_core_simps [OF assms] by (simp add: eps_ok_def)
qed

lemma upd_vif_step:
  assumes "vif_core (f (vifs ar v)) = vif_core (vifs ar v)"
    and "\<And>i k b. anon ar \<Longrightarrow> amsdu_skb (sta_tx (sta_list (f (vifs ar v)) i) k) = Some b \<Longrightarrow> skb_id b = None"
  shows "op_step ar (upd_vif ar v f) {#}"
proof (rule op_step_quiet)
  have "(\<lambda>w. vif_core (vifs (upd_vif ar v f) w)) = (\<lambda>w. vif_core (vifs ar w))" using assms(1) by (auto simp: upd_vif_def)
  then show "op_core (upd_vif ar v f) = op_core ar" by (simp add: op_core_def upd_vif_def)
  show "anon (upd_vif ar v f)" if "anon ar"
    using that assms(2) [OF that] by (auto simp: anon_def upd_vif_def split: option.split)
qed (simp_all add: acct_part_def act_part_def upd_vif_def)

lemma anonD: "anon ar \<Longrightarrow> amsdu_skb (sta_tx (sta_list (vifs ar v) i) k) = Some b \<Longrightarrow> skb_id b = None"
proof -
  assume "anon ar" and b: "amsdu_skb (sta_tx (sta_list (vifs ar v) i) k) = Some b"
  then have "case amsdu_skb (sta_tx (sta_list (vifs ar v) i) k) of None \<Rightarrow> True | Some b \<Rightarrow> skb_id b = None" unfolding anon_def by blast
  then show "skb_id b = None" using b by simp
qed

lemma upd_stat_step:
  assumes "\<And>x. vif_core (f x) = vif_core x" "\<And>x. sta_list (f x) = sta_list x"
  shows "op_step ar (upd_vif ar v f) {#}"
proof (rule upd_vif_step [of f ar v, OF assms(1)])
  show "skb_id b = None" if "anon ar" "amsdu_skb (sta_tx (sta_list (f (vifs ar v)) i) k) = Some b" for i k b
    using that(2) unfolding assms(2) by (rule anonD [OF that(1)])
qed

lemma op_free_step: "op_step ar (drv_do ar (map EvFree ss)) (\<Sum>\<^sub># (mset (map id_ms ss)))"
  by (rule ctl_op_step [OF ctl_step_free])

lemma op_free1_step: "op_step ar (drv_do ar [EvFree s]) (id_ms s)"
  by (rule ctl_op_step [OF ctl_step_free1])

lemma op_alloc_step: "drv_alloc can ar = (ok, ar') \<Longrightarrow> op_step ar ar' {#}"
  by (rule ctl_op_step [OF ctl_step_alloc])

lemma fail_tx_step: "op_step ar (fail_tx ar v s) (id_ms s)"
  unfolding fail_tx_def
  by (rule op_step_trans0 [OF upd_stat_step op_free1_step]) (simp_all add: vif_core_def)

lemma op_step_fold: "(\<And>x a. op_step a (f x a) {#}) \<Longrightarrow> op_step ar (fold f xs ar) {#}"
proof (induction xs arbitrary: ar)
  case (Cons x xs)
  from op_step_trans0 [OF Cons.prems Cons.IH [OF Cons.prems]] show ?case by simp
qed simp

lemma abort_scan_step: "op_step ar (abort_scan env i ar) {#}"
proof -
  have "op_step ar (drv_do ((snd (ath6kl_wmi_abort_scan_cmd (te_can env) ar n))\<lparr>scan_req := g\<rparr>) [EvScanDone v]) {#}" for n g v
  proof -
    define a where "a = snd (ath6kl_wmi_abort_scan_cmd (te_can env) ar n)"
    have 1: "op_step ar a {#}" unfolding a_def by (rule ctl_op_step [OF abort_scan_cmd_step])
    have 2: "op_step a (a\<lparr>scan_req := g\<rparr>) {#}"
      by (rule op_step_quiet) (simp_all add: op_core_def acct_part_def act_part_def anon_def)
    have 3: "op_step (a\<lparr>scan_req := g\<rparr>) (drv_do (a\<lparr>scan_req := g\<rparr>) [EvScanDone v]) {#}"
      using op_step_event [of "EvScanDone v"] by simp
    show ?thesis using op_step_trans0 [OF op_step_trans0 [OF 1 2] 3] by (simp add: a_def)
  qed
  then show ?thesis by (simp add: abort_scan_def Let_def split: option.split)
qed

lemma eapol_protect_step: "op_step ar (ath6kl_eapol_handshake_protect env ar v) {#}"
proof -
  have "op_step ar (ar\<lparr>eapol_protect := b, eapol_shprotect_vif := n\<rparr>) {#}" for b n
    by (rule op_step_quiet) (simp_all add: op_core_def acct_part_def act_part_def anon_def)
  from op_step_trans0 [OF this op_step_fold [OF abort_scan_step]]
  show ?thesis by (simp add: ath6kl_eapol_handshake_protect_def)
qed

section \<open>A cookie reserved, then handed over or lost\<close>

lemma reserve_data:
  assumes a: "acct ar out lost" and al: "ath6kl_alloc_cookie (cookie_data ar) = (Some c, p)" and ep: "eps_ok ar \<Longrightarrow> ck_eid ck \<noteq> ctrl_ep ar"
  shows "acct (count_pending (ar\<lparr>cookie_data := p\<rparr>) (ck_eid ck)) out (lost @ [(DataCookie c, ck)])"
proof -
  have pool: "pool_ok (cookie_data ar) (data_ids (out @ lost))" using a by (simp add: acct_def)
  have p: "pool_ok p (data_ids (out @ lost @ [(DataCookie c, ck)]))" using cookies.take_last [OF pool al] by simp
  moreover have "read_cookie (count_pending (ar\<lparr>cookie_data := p\<rparr>) n) r = read_cookie ar r" for r n
    using alloc_pool_ok(3) [OF pool al] by (cases r) (simp_all add: read_cookie_def count_pending_def)
  ultimately show ?thesis using a ep by (auto simp: acct_def count_pending_def)
qed

lemma reserve_ctrl:
  assumes a: "acct ar out lost" and al: "ath6kl_alloc_cookie (cookie_ctrl ar) = (Some c, p)" and ep: "eps_ok ar \<Longrightarrow> ck_eid ck \<noteq> ctrl_ep ar"
  shows "acct (count_pending (ar\<lparr>cookie_ctrl := p\<rparr>) (ck_eid ck)) out (lost @ [(CtrlCookie c, ck)])"
proof -
  have pool: "pool_ok (cookie_ctrl ar) (ctrl_ids (out @ lost))" using a by (simp add: acct_def)
  have p: "pool_ok p (ctrl_ids (out @ lost @ [(CtrlCookie c, ck)]))" using cookies.take_last [OF pool al] by simp
  moreover have "read_cookie (count_pending (ar\<lparr>cookie_ctrl := p\<rparr>) n) r = read_cookie ar r" for r n
    using alloc_pool_ok(3) [OF pool al] by (cases r) (simp_all add: read_cookie_def count_pending_def)
  ultimately show ?thesis using a ep by (auto simp: acct_def count_pending_def)
qed

text \<open>Writing a reserved cookie touches no packet that is out.\<close>

lemma fill_reserved:
  assumes a: "acct ar out (lost @ [(r, ck)])"
  shows "acct (fill_ref ar r ck') out (lost @ [(r, ck)])" and "(r', k) \<in> set out \<Longrightarrow> read_cookie (fill_ref ar r ck') r' = k"
proof -
  have "pool_ok (cookie_data ar) (data_ids (out @ lost @ [(r, ck)]))" "pool_ok (cookie_ctrl ar) (ctrl_ids (out @ lost @ [(r, ck)]))"
    using a unfolding acct_def by blast+
  then have d: "distinct (data_ids (out @ lost @ [(r, ck)]))" "distinct (ctrl_ids (out @ lost @ [(r, ck)]))"
    using cookies.owes_distinct by blast+
  have ne: "r' \<noteq> r" if "(r', k) \<in> set out" for r' k
    using d mem_data_ids [of _ k out] mem_ctrl_ids [of _ k out] that by (cases r) auto
  show rd: "read_cookie (fill_ref ar r ck') r' = k" if "(r', k) \<in> set out" for r' k
  proof -
    have "read_cookie ar r' = k" using a that by (auto simp: acct_def)
    then show ?thesis using ne [OF that] by (cases r; cases r') (auto simp: read_cookie_def fill_ref_def)
  qed
  show "acct (fill_ref ar r ck') out (lost @ [(r, ck)])"
    using a rd by (cases r) (auto simp: acct_def fill_ref_def)
qed

lemma hand_reserved:
  assumes a: "acct ar out (lost @ [(r, ck)])" and s: "ck_skb ck \<noteq> None"
  shows "acct (fill_ref ar r ck) (out @ [(r, ck)]) lost"
proof -
  define ar1 where "ar1 = fill_ref ar r ck"
  have b: "acct ar1 out (lost @ [(r, ck)])" "\<And>r' k. (r', k) \<in> set out \<Longrightarrow> read_cookie ar1 r' = k"
    unfolding ar1_def by (rule fill_reserved [OF a])+
  have "pool_ok (cookie_data ar1) (data_ids ((out @ [(r, ck)]) @ lost))"
    by (rule cookies.owes_perm [of _ "data_ids (out @ lost @ [(r, ck)])"]) (use b(1) data_ids_append [of "[(r, ck)]" lost] ctrl_ids_append [of "[(r, ck)]" lost] in \<open>simp_all add: acct_def\<close>)
  moreover have "pool_ok (cookie_ctrl ar1) (ctrl_ids ((out @ [(r, ck)]) @ lost))"
    by (rule cookies.owes_perm [of _ "ctrl_ids (out @ lost @ [(r, ck)])"]) (use b(1) data_ids_append [of "[(r, ck)]" lost] ctrl_ids_append [of "[(r, ck)]" lost] in \<open>simp_all add: acct_def\<close>)
  moreover have "read_cookie ar1 r = ck" by (cases r) (simp_all add: ar1_def fill_ref_def read_cookie_def)
  moreover have "ck_skb k \<noteq> None" if "(q, k) \<in> set out" for q k using a that by (auto simp: acct_def)
  ultimately show ?thesis using b s unfolding ar1_def [symmetric] by (auto simp: acct_def)
qed

lemma fill_ref_parts: "op_core (fill_ref ar r ck) = op_core ar" "act_part (fill_ref ar r ck) = act_part ar"
  "vifs (fill_ref ar r ck) = vifs ar" "drv_log (fill_ref ar r ck) = drv_log ar" "conf_flowctrl (fill_ref ar r ck) = conf_flowctrl ar"
  by (cases r; simp add: fill_ref_def op_core_def act_part_def)+

text \<open>
  \<open>reserved ar0 ar1 r ck m\<close>: between \<open>ar0\<close> and \<open>ar1\<close> a cookie was reserved and counted, and the frames
  \<open>m\<close> were freed.
\<close>

definition reserved :: "ath6kl \<Rightarrow> ath6kl \<Rightarrow> cookie_ref \<Rightarrow> ath6kl_cookie \<Rightarrow> nat multiset \<Rightarrow> bool" where
  "reserved ar0 ar1 r ck m \<longleftrightarrow> op_core ar1 = op_core ar0 \<and> act_part ar1 = act_part ar0 \<and> (anon ar0 \<longrightarrow> anon ar1)
     \<and> (\<exists>evs. drv_log ar1 = drv_log ar0 @ evs \<and> frames_of evs = m \<and> sent evs = [])
     \<and> (\<forall>out l0. acct ar0 out l0 \<longrightarrow> acct ar1 out (l0 @ [(r, ck)]))"

lemma reserved_drop:
  assumes R: "reserved ar0 ar1 r ck m" and leak: "\<not> no_leak ar0"
  shows "op_step ar0 ar1 m" and "op_step ar0 (fill_ref ar1 r ck') m"
proof -
  obtain evs where e: "drv_log ar1 = drv_log ar0 @ evs" "frames_of evs = m" "sent evs = []"
    using R by (auto simp: reserved_def)
  have act: "act_ok ar1 = act_ok ar0" by (rule act_cong) (use R in \<open>simp add: reserved_def\<close>)
  show "op_step ar0 ar1 m" unfolding op_step_def
    by (intro conjI exI [of _ evs] exI [of _ "[(r, ck)]"]) (use R e act leak in \<open>simp_all add: reserved_def\<close>)
  have act2: "act_ok (fill_ref ar1 r ck') = act_ok ar1" by (rule act_cong) (rule fill_ref_parts)
  have an: "anon (fill_ref ar1 r ck') = anon ar1" by (rule anon_cong) (rule fill_ref_parts)
  have ac: "acct (fill_ref ar1 r ck') out (l0 @ [(r, ck)])" if "acct ar0 out l0" for out l0
    by (rule fill_reserved) (use R that in \<open>simp add: reserved_def\<close>)
  show "op_step ar0 (fill_ref ar1 r ck') m" unfolding op_step_def
    by (intro conjI exI [of _ evs] exI [of _ "[(r, ck)]"])
      (use R e act act2 an leak ac in \<open>simp_all add: reserved_def fill_ref_parts\<close>)
qed

lemma reserved_sent:
  assumes R: "reserved ar0 ar1 r ck m" and s: "ck_skb ck = Some s" and ev: "sent [e] = [(r, ck)]" "ev_frame e = id_ms s"
    and b: "op_core ar2 = op_core (fill_ref ar1 r ck)" "acct_part ar2 = acct_part (fill_ref ar1 r ck)"
      "act_part ar2 = act_part (fill_ref ar1 r ck)" "vifs ar2 = vifs (fill_ref ar1 r ck)" "drv_log ar2 = drv_log (fill_ref ar1 r ck)"
  shows "op_step ar0 (drv_do ar2 [e]) (m + id_ms s)"
proof -
  obtain evs where e: "drv_log ar1 = drv_log ar0 @ evs" "frames_of evs = m" "sent evs = []"
    using R by (auto simp: reserved_def)
  define ar3 where "ar3 = drv_do ar2 [e]"
  have 3: "op_core ar3 = op_core ar2" "acct_part ar3 = acct_part ar2" "act_part ar3 = act_part ar2" "vifs ar3 = vifs ar2" "drv_log ar3 = drv_log ar2 @ [e]"
    by (simp_all add: ar3_def drv_do_def op_core_def acct_part_def act_part_def)
  have "op_core ar3 = op_core ar0" using R 3(1) b(1) by (simp add: reserved_def fill_ref_parts)
  moreover have "act_part ar3 = act_part ar0" using R 3(3) b(3) by (simp add: reserved_def fill_ref_parts)
  then have "act_ok ar3 = act_ok ar0" by (rule act_cong)
  moreover have "vifs ar3 = vifs ar1" using 3(4) b(4) by (simp add: fill_ref_parts)
  then have "anon ar3 = anon ar1" by (rule anon_cong)
  moreover have "drv_log ar3 = drv_log ar0 @ (evs @ [e])" using 3(5) b(5) e(1) by (simp add: fill_ref_parts)
  moreover have "frames_of (evs @ [e]) = m + id_ms s" using e(2) ev(2) by simp
  moreover have "acct ar3 (out @ sent (evs @ [e])) (l0 @ [])" if a: "acct ar0 out l0" for out l0
  proof -
    have "acct ar1 out (l0 @ [(r, ck)])" using R a by (simp add: reserved_def)
    then have "acct (fill_ref ar1 r ck) (out @ [(r, ck)]) l0" by (rule hand_reserved) (simp add: s)
    moreover have "acct_part ar3 = acct_part (fill_ref ar1 r ck)" using b(2) 3(2) by simp
    then have "acct ar3 (out @ [(r, ck)]) l0 = acct (fill_ref ar1 r ck) (out @ [(r, ck)]) l0" by (rule acct_cong)
    ultimately show ?thesis using e(3) ev(1) by (simp only: sent_append append_Nil append_Nil2)
  qed
  moreover have "anon ar0 \<longrightarrow> anon ar1" using R by (simp add: reserved_def)
  ultimately show ?thesis unfolding op_step_def ar3_def [symmetric]
    by (intro conjI exI [of _ "evs @ [e]"] exI [of _ "[]"]) simp_all
qed

lemma send_cookie_step:
  assumes R: "reserved ar0 ar1 r ck m" and s: "ck_skb ck = Some s"
  shows "op_step ar0 (snd (send_cookie env ar1 v r ck s)) (m + id_ms s)"
proof -
  define ar2 where "ar2 = fill_ref ar1 r ck"
  define ar3 where "ar3 = ar2\<lparr>tx_on_vif := tx_on_vif ar2 OR push_bit (fw_vif_idx (vifs ar2 v)) 1\<rparr>"
  have tx: "op_step ar0 (drv_do ar3 [EvTx r ck (Some v)]) (m + id_ms s)"
    by (rule reserved_sent [OF R s]) (simp_all add: s ar3_def ar2_def op_core_def acct_part_def act_part_def)
  have sched: "op_step ar0 (drv_do ar2 [EvSchedule r ck]) (m + id_ms s)"
    by (rule reserved_sent [OF R s]) (simp_all add: s ar2_def)
  have fail: "op_step ar0 (fail_tx ar2 v s) (m + id_ms s)" if "conf_flowctrl ar2"
  proof -
    have "conf_flowctrl ar0" using that R op_core_simps(11) [of ar1 ar0] by (simp add: ar2_def fill_ref_parts reserved_def)
    then have "\<not> no_leak ar0" by (simp add: no_leak_def)
    from op_step_trans [OF reserved_drop(2) [OF R this] fail_tx_step] show ?thesis by (simp add: ar2_def)
  qed
  show ?thesis using tx sched fail unfolding send_cookie_def Let_def ar2_def [symmetric] ar3_def [symmetric] by simp
qed

section \<open>The stages of a data frame\<close>

text \<open>The tables of an independent network play no part.\<close>

definition no_nodes :: "ath6kl \<Rightarrow> ath6kl" where
  "no_nodes ar = ar\<lparr>node_map := (\<lambda>_. zero_node), node_num := 0, next_ep_id := 0\<rparr>"

definition same_but_nodes :: "ath6kl \<Rightarrow> ath6kl \<Rightarrow> bool" where
  "same_but_nodes ar ar' \<longleftrightarrow> no_nodes ar' = no_nodes ar"

lemma same_but_nodesI:
  "same_but_nodes ar ar" "same_but_nodes ar a \<Longrightarrow> same_but_nodes ar (upd_node a i g)"
  "same_but_nodes ar a \<Longrightarrow> same_but_nodes ar (a\<lparr>node_num := n\<rparr>)" "same_but_nodes ar a \<Longrightarrow> same_but_nodes ar (a\<lparr>next_ep_id := e\<rparr>)"
  by (simp_all add: same_but_nodes_def no_nodes_def upd_node_def)

lemma same_but_nodes_step:
  assumes "same_but_nodes ar a" shows "op_step ar a {#}"
proof -
  have e: "no_nodes a = no_nodes ar" using assms by (simp add: same_but_nodes_def)
  have f: "op_core (no_nodes x) = op_core x" "acct_part (no_nodes x) = acct_part x" "act_part (no_nodes x) = act_part x"
    "drv_log (no_nodes x) = drv_log x" "vifs (no_nodes x) = vifs x" for x
    by (simp_all add: no_nodes_def op_core_def acct_part_def act_part_def)
  have v: "vifs a = vifs ar" using f(5) [of a] f(5) [of ar] e by simp
  show ?thesis
    by (rule op_step_quiet) (use f(1) [of a] f(1) [of ar] f(2) [of a] f(2) [of ar] f(3) [of a] f(3) [of ar] f(4) [of a] f(4) [of ar] anon_cong [OF v] e in simp_all)
qed

lemma ibss_pick_nodes: "same_but_nodes ar a \<Longrightarrow> ibss_pick_ep a = (n, a') \<Longrightarrow> same_but_nodes ar a'"
  by (auto simp: ibss_pick_ep_def split: option.splits intro: same_but_nodesI)

lemma ibss_map_step:
  assumes "ath6kl_ibss_map_epid ar s = (e, m, ar')"
  shows "op_step ar ar' {#}"
proof -
  have "same_but_nodes ar ar'"
    using assms by (auto simp: ath6kl_ibss_map_epid_def Let_def split: if_splits sum.splits option.splits prod.splits
        intro!: same_but_nodesI intro: ibss_pick_nodes [OF same_but_nodesI(1)] ibss_pick_nodes [OF same_but_nodesI(3) [OF same_but_nodesI(1)]])
  then show ?thesis by (rule same_but_nodes_step)
qed

lemma endpoint_step:
  assumes "data_endpoint ar s ac by_peer = (eo, m, ar')"
  shows "op_step ar ar' {#}" and "eo = Some ep \<Longrightarrow> eps_ok ar \<Longrightarrow> \<not> by_peer \<Longrightarrow> ep \<noteq> ctrl_ep ar"
proof -
  obtain e n a where i: "ath6kl_ibss_map_epid ar s = (e, n, a)" by (cases "ath6kl_ibss_map_epid ar s")
  show "op_step ar ar' {#}" using assms ibss_map_step [OF i] by (auto simp: data_endpoint_def i split: if_splits)
  assume "eo = Some ep" "eps_ok ar" "\<not> by_peer"
  then show "ep \<noteq> ctrl_ep ar" using assms by (auto simp: data_endpoint_def eps_ok_def split: if_splits)
qed

lemma data_alloc_step:
  assumes al: "ath6kl_alloc_cookie (cookie_data ar) = (co, p)"
  shows "co = None \<Longrightarrow> op_step ar (ar\<lparr>cookie_data := p\<rparr>) {#}"
    and "co = Some c \<Longrightarrow> (eps_ok ar \<Longrightarrow> ck_eid ck \<noteq> ctrl_ep ar) \<Longrightarrow> reserved ar (count_pending (ar\<lparr>cookie_data := p\<rparr>) (ck_eid ck)) (DataCookie c) ck {#}"
proof -
  assume "co = None"
  then have "acct (ar\<lparr>cookie_data := p\<rparr>) out lost" if "acct ar out lost" for out lost
    using that alloc_none_ok [of "cookie_data ar" _ p] al by (auto simp: acct_def read_cookie_def split: cookie_ref.splits)
  then show "op_step ar (ar\<lparr>cookie_data := p\<rparr>) {#}" unfolding op_step_def
    by (intro conjI exI [of _ "[]"]) (simp_all add: op_core_def act_ok_def active_acs_def anon_def)
next
  assume "co = Some c" and ep: "eps_ok ar \<Longrightarrow> ck_eid ck \<noteq> ctrl_ep ar"
  then have "acct (count_pending (ar\<lparr>cookie_data := p\<rparr>) (ck_eid ck)) out (l0 @ [(DataCookie c, ck)])" if "acct ar out l0" for out l0
    using reserve_data [OF that _ ep] al by simp
  then show "reserved ar (count_pending (ar\<lparr>cookie_data := p\<rparr>) (ck_eid ck)) (DataCookie c) ck {#}" unfolding reserved_def
    by (intro conjI exI [of _ "[]"]) (auto simp: count_pending_def op_core_def act_part_def anon_def)
qed

lemma ctrl_alloc_step:
  assumes al: "ath6kl_alloc_cookie (cookie_ctrl ar) = (co, p)"
  shows "co = None \<Longrightarrow> op_step ar (ar\<lparr>cookie_ctrl := p\<rparr>) {#}"
    and "co = Some c \<Longrightarrow> (eps_ok ar \<Longrightarrow> ck_eid ck \<noteq> ctrl_ep ar) \<Longrightarrow> reserved ar (count_pending (ar\<lparr>cookie_ctrl := p\<rparr>) (ck_eid ck)) (CtrlCookie c) ck {#}"
proof -
  assume "co = None"
  then have "acct (ar\<lparr>cookie_ctrl := p\<rparr>) out lost" if "acct ar out lost" for out lost
    using that alloc_none_ok [of "cookie_ctrl ar" _ p] al by (auto simp: acct_def read_cookie_def split: cookie_ref.splits)
  then show "op_step ar (ar\<lparr>cookie_ctrl := p\<rparr>) {#}" unfolding op_step_def
    by (intro conjI exI [of _ "[]"]) (simp_all add: op_core_def act_ok_def active_acs_def anon_def)
next
  assume "co = Some c" and ep: "eps_ok ar \<Longrightarrow> ck_eid ck \<noteq> ctrl_ep ar"
  then have "acct (count_pending (ar\<lparr>cookie_ctrl := p\<rparr>) (ck_eid ck)) out (l0 @ [(CtrlCookie c, ck)])" if "acct ar out l0" for out l0
    using reserve_ctrl [OF that _ ep] al by simp
  then show "reserved ar (count_pending (ar\<lparr>cookie_ctrl := p\<rparr>) (ck_eid ck)) (CtrlCookie c) ck {#}" unfolding reserved_def
    by (intro conjI exI [of _ "[]"]) (auto simp: count_pending_def op_core_def act_part_def anon_def)
qed

lemma cookie_step:
  assumes "data_cookie ar v tg = (ro, ar')"
  shows "ro = None \<Longrightarrow> op_step ar ar' {#}"
    and "ro = Some r \<Longrightarrow> (eps_ok ar \<Longrightarrow> ck_eid ck \<noteq> ctrl_ep ar) \<Longrightarrow> reserved ar (count_pending ar' (ck_eid ck)) r ck {#}"
proof -
  obtain c1 p1 where d: "ath6kl_alloc_cookie (cookie_data ar) = (c1, p1)" by (cases "ath6kl_alloc_cookie (cookie_data ar)")
  obtain c2 p2 where c: "ath6kl_alloc_cookie (cookie_ctrl ar) = (c2, p2)" by (cases "ath6kl_alloc_cookie (cookie_ctrl ar)")
  have e: "(ro, ar') = (if tg = ATH6KL_DATA_PKT_TAG then
        (if mcc_enabled ar \<and> unat (data_cookie_count (vifs ar v)) > MAX_VIF_COOKIE_NUM then (None, ar)
         else (map_option DataCookie c1, ar\<lparr>cookie_data := p1\<rparr>))
      else (map_option CtrlCookie c2, ar\<lparr>cookie_ctrl := p2\<rparr>))"
    using assms d c by (auto simp: data_cookie_def)
  show "op_step ar ar' {#}" if "ro = None"
    using that e data_alloc_step(1) [OF d] ctrl_alloc_step(1) [OF c] by (auto split: if_splits)
  show "reserved ar (count_pending ar' (ck_eid ck)) r ck {#}" if "ro = Some r" "eps_ok ar \<Longrightarrow> ck_eid ck \<noteq> ctrl_ep ar"
    using that e data_alloc_step(2) [OF d _ that(2)] ctrl_alloc_step(2) [OF c _ that(2)] by (cases c1; cases c2) (auto split: if_splits)
qed

text \<open>A reserved cookie survives what does not touch packets.\<close>

lemma reserved_then:
  assumes R: "reserved ar0 ar1 r ck m" and c: "op_core ar2 = op_core ar1" and p: "acct_part ar2 = acct_part ar1" "act_part ar2 = act_part ar1"
    and a: "anon ar1 \<Longrightarrow> anon ar2" and l: "drv_log ar2 = drv_log ar1 @ evs" "sent evs = []"
  shows "reserved ar0 ar2 r ck (m + frames_of evs)"
proof -
  obtain e where e: "drv_log ar1 = drv_log ar0 @ e" "frames_of e = m" "sent e = []" using R by (auto simp: reserved_def)
  have "acct ar2 out l0 = acct ar1 out l0" for out l0 by (rule acct_cong [OF p(1)])
  then show ?thesis unfolding reserved_def
    by (intro conjI exI [of _ "e @ evs"]) (use R e c p a l in \<open>simp_all add: reserved_def\<close>)
qed

text \<open>The interface counts its cookies as well.\<close>

lemma counted_reserved:
  assumes R: "reserved ar0 (count_pending ar1 ep) r ck {#}"
  shows "reserved ar0 (count_pending (upd_vif ar1 v (\<lambda>x. x\<lparr>data_cookie_count := data_cookie_count x + 1\<rparr>)) ep) r ck {#}"
proof -
  define a where "a = count_pending ar1 ep"
  define f where "f = (\<lambda>x :: ath6kl_vif. x\<lparr>data_cookie_count := data_cookie_count x + 1\<rparr>)"
  have "op_step a (upd_vif a v f) {#}" by (rule upd_stat_step) (simp_all add: vif_core_def f_def)
  then have "reserved ar0 (upd_vif a v f) r ck ({#} + frames_of [])"
    by (intro reserved_then [OF R [folded a_def]]) (simp_all add: op_step_def upd_vif_def acct_part_def act_part_def)
  moreover have "upd_vif a v f = count_pending (upd_vif ar1 v f) ep" by (simp add: a_def upd_vif_def count_pending_def)
  ultimately show ?thesis by (simp add: f_def)
qed

lemma align_parts:
  assumes "data_align env ar s = (so, ar')"
  shows "op_core ar' = op_core ar" "acct_part ar' = acct_part ar" "act_part ar' = act_part ar" "anon ar' = anon ar"
    and "case so of None \<Rightarrow> drv_log ar' = drv_log ar \<and> \<not> no_leak ar
         | Some s1 \<Rightarrow> \<exists>evs. drv_log ar' = drv_log ar @ evs \<and> sent evs = [] \<and> frames_of evs + id_ms s1 = id_ms s"
proof -
  obtain ok a where al: "drv_alloc (te_can env) ar = (ok, a)" by (cases "drv_alloc (te_can env) ar")
  have a: "op_core a = op_core ar" "acct_part a = acct_part ar" "act_part a = act_part ar" "vifs a = vifs ar" "drv_log a = drv_log ar"
    using al by (auto simp: drv_alloc_def op_core_def acct_part_def act_part_def)
  have d: "op_core (drv_do a es) = op_core a" "acct_part (drv_do a es) = acct_part a" "act_part (drv_do a es) = act_part a"
    "vifs (drv_do a es) = vifs a" for es
    by (simp_all add: drv_do_def op_core_def acct_part_def act_part_def)
  have k: "ar' = ar \<or> ar' = a \<or> ar' = drv_do a [EvFree s]"
    using assms al by (auto simp: data_align_def split: if_splits)
  show "op_core ar' = op_core ar" "acct_part ar' = acct_part ar" "act_part ar' = act_part ar" using k a d by auto
  show "anon ar' = anon ar" by (rule anon_cong) (use k a d in auto)
  show "case so of None \<Rightarrow> drv_log ar' = drv_log ar \<and> \<not> no_leak ar
         | Some s1 \<Rightarrow> \<exists>evs. drv_log ar' = drv_log ar @ evs \<and> sent evs = [] \<and> frames_of evs + id_ms s1 = id_ms s"
  proof (cases "low_cpu_power_tx_bundle_max ar = 0 \<and> (skb_ptr s - int HTC_HDR_LENGTH) mod 4 \<noteq> 0 \<and> skb_cloned s")
    case True
    show ?thesis
    proof (cases ok)
      case True
      then have "so = Some (s\<lparr>skb_id := None, skb_head := skb_ptr s - int HTC_HDR_LENGTH, skb_cloned := False\<rparr>)" "ar' = drv_do a [EvFree s]"
        using assms al \<open>low_cpu_power_tx_bundle_max ar = 0 \<and> _\<close> by (auto simp: data_align_def)
      then show ?thesis using a(5) by (auto simp: drv_do_def intro!: exI [of _ "[EvFree s]"])
    next
      case False
      then have "so = None" "ar' = a" using assms al \<open>low_cpu_power_tx_bundle_max ar = 0 \<and> _\<close> by (auto simp: data_align_def)
      then show ?thesis using a(5) True by (simp add: no_leak_def)
    qed
  next
    case False
    then have "so = Some s" "ar' = ar" using assms by (auto simp: data_align_def split: if_splits)
    then show ?thesis by simp
  qed
qed

lemma data_send_step:
  assumes r: "data_send env ar v s ac tg by_peer = Some ar'" and peer: "by_peer \<Longrightarrow> ibss_ps_enable ar"
  shows "op_step ar ar' (id_ms s)"
proof -
  obtain eo m ar1 where e: "data_endpoint ar s ac by_peer = (eo, m, ar1)" by (cases "data_endpoint ar s ac by_peer")
  have 1: "op_step ar ar1 {#}" by (rule endpoint_step [OF e])
  obtain co ar2 where c: "data_cookie ar1 v tg = (co, ar2)" by (cases "data_cookie ar1 v tg")
  note core1 = op_step_core [OF 1]
  show ?thesis
  proof (cases eo)
    case None
    then show ?thesis using r e op_step_trans0 [OF 1 fail_tx_step] by (auto simp: data_send_def)
  next
    case (Some ep)
    show ?thesis
    proof (cases co)
      case None
      from op_step_trans0 [OF op_step_trans0 [OF 1 cookie_step(1) [OF c None]] fail_tx_step]
      show ?thesis using r e c Some None by (auto simp: data_send_def)
    next
      case (Some rf)
      have ep: "ep_ok ep" using r e c \<open>eo = Some ep\<close> Some by (auto simp: data_send_def split: if_splits)
      define ar3 where "ar3 = (if tg = ATH6KL_DATA_PKT_TAG then upd_vif ar2 v (\<lambda>x. x\<lparr>data_cookie_count := data_cookie_count x + 1\<rparr>) else ar2)"
      obtain so ar4 where al: "data_align env (count_pending ar3 ep) s = (so, ar4)" by (cases "data_align env (count_pending ar3 ep) s")
      note A = align_parts [OF al]
      have R: "reserved ar1 (count_pending ar3 ep) rf ck {#}" if "ck_eid ck = ep" for ck
      proof -
        have ne: "eps_ok ar1 \<Longrightarrow> ck_eid ck \<noteq> ctrl_ep ar1"
          using endpoint_step(2) [OF e \<open>eo = Some ep\<close>] peer that op_core_env(2) [OF core1] op_core_simps(10) [OF core1] by (auto simp: eps_ok_def)
        have R1: "reserved ar1 (count_pending ar2 ep) rf ck {#}" using cookie_step(2) [OF c Some ne] that by simp
        show ?thesis using R1 counted_reserved [OF R1] by (simp add: ar3_def)
      qed
      show ?thesis
      proof (cases so)
        case None
        have "reserved ar1 ar4 rf ck ({#} + frames_of [])" if "ck_eid ck = ep" for ck
          by (rule reserved_then [OF R [OF that]]) (use A None in simp_all)
        then have R4: "reserved ar1 ar4 rf \<lparr>ck_skb = None, ck_map_no = 0, ck_eid = ep, ck_tag = 0\<rparr> {#}" by simp
        have k: "op_core (count_pending ar3 ep) = op_core ar1" using R [of "\<lparr>ck_skb = None, ck_map_no = 0, ck_eid = ep, ck_tag = 0\<rparr>"] by (simp add: reserved_def)
        then have leak: "\<not> no_leak ar1" using A(5) None no_leak_core [OF k] by simp
        have "ar' = fail_tx ar4 v s"
          using r e c \<open>eo = Some ep\<close> \<open>co = Some rf\<close> ep al None by (simp add: data_send_def Let_def ar3_def [symmetric])
        then show ?thesis using op_step_trans0 [OF op_step_trans0 [OF 1 reserved_drop(1) [OF R4 leak]] fail_tx_step, of v s] by (simp only:)
      next
        case (Some s1)
        define ck where "ck = \<lparr>ck_skb = Some s1, ck_map_no = m, ck_eid = ep, ck_tag = tg\<rparr>"
        obtain evs where ev: "drv_log ar4 = drv_log (count_pending ar3 ep) @ evs" "sent evs = []" "frames_of evs + id_ms s1 = id_ms s"
          using A(5) Some by auto
        have R4: "reserved ar1 ar4 rf ck ({#} + frames_of evs)"
          by (rule reserved_then [OF R]) (use A ev in \<open>simp_all add: ck_def\<close>)
        have "op_step ar1 (snd (send_cookie env ar4 v rf ck s1)) ({#} + frames_of evs + id_ms s1)"
          by (rule send_cookie_step [OF R4]) (simp add: ck_def)
        from op_step_trans0 [OF 1 this] have o: "op_step ar (snd (send_cookie env ar4 v rf ck s1)) (id_ms s)" by (simp only: add_0 ev(3))
        have "ar' = snd (send_cookie env ar4 v rf ck s1)"
          using r e c \<open>eo = Some ep\<close> \<open>co = Some rf\<close> ep al Some by (simp add: data_send_def Let_def ar3_def [symmetric] ck_def)
        then show ?thesis using o by (simp only:)
      qed
    qed
  qed
qed

section \<open>Aggregates\<close>

lemma upd_txtid_step:
  assumes "\<And>b. anon ar \<Longrightarrow> amsdu_skb t = Some b \<Longrightarrow> skb_id b = None"
  shows "op_step ar (upd_txtid ar v i k a t) {#}"
  unfolding upd_txtid_def
proof (rule upd_vif_step)
  define x where "x = vifs ar v"
  have "(\<lambda>j. sta_core (((sta_list x)(i := (sta_list x i)\<lparr>sta_tx := (sta_tx (sta_list x i))(k := t)\<rparr>)) j)) = (\<lambda>j. sta_core (sta_list x j))"
    by (auto simp: sta_core_def)
  then show "vif_core ((upd_sta (vifs ar v) i (\<lambda>c. c\<lparr>sta_tx := (sta_tx c)(k := t)\<rparr>))\<lparr>aggr_cntxt := a\<rparr>) = vif_core (vifs ar v)"
    by (simp add: vif_core_def upd_sta_def x_def)
  fix j l b
  assume an: "anon ar" and b: "amsdu_skb (sta_tx (sta_list ((upd_sta (vifs ar v) i (\<lambda>c. c\<lparr>sta_tx := (sta_tx c)(k := t)\<rparr>))\<lparr>aggr_cntxt := a\<rparr>) j) l) = Some b"
  show "skb_id b = None"
  proof (cases "j = i \<and> l = k")
    case True
    then show ?thesis using assms [OF an] b by (simp add: upd_sta_def)
  next
    case False
    then have "amsdu_skb (sta_tx (sta_list (vifs ar v) j) l) = Some b" using b by (auto simp: upd_sta_def split: if_splits)
    then show ?thesis by (rule anonD [OF an])
  qed
qed

lemma progressive_skb: "aggr_tx_progressive hz now infra b a t = (a', t') \<Longrightarrow> amsdu_skb t' = amsdu_skb t"
  by (auto simp: aggr_tx_progressive_def Let_def split: if_splits)

lemma amsdu_close_id [simp]: "skb_id (amsdu_close t b n dst src) = skb_id b"
  by (simp add: amsdu_close_def Let_def)

lemma aggr_tx_tid_step:
  assumes r: "aggr_tx_tid env ar v i k stop = Some (q, ar')"
  shows "op_step ar ar' {#}"
proof -
  define x where "x = vifs ar v"
  define t0 where "t0 = sta_tx (conn_of ar v i) k"
  note D = aggr_tx_tid_def Let_def x_def [symmetric] t0_def [symmetric]
  show ?thesis
  proof (cases "amsdu_skb t0")
    case None
    have "op_step ar (upd_txtid ar v i k (aggr_cntxt x) (t0\<lparr>tx_num_null := tx_num_null t0 + 1\<rparr>)) {#}"
      by (rule upd_txtid_step) (simp add: None)
    then show ?thesis using r None by (auto simp: D)
  next
    case (Some b)
    have b: "skb_id b = None" if "anon ar" using Some anonD [OF that] by (simp add: t0_def conn_of_def)
    define t1 where "t1 = (if stop then t0\<lparr>tx_num_flush := tx_num_flush t0 + 1\<rparr> else t0\<lparr>tx_num_timeout := tx_num_timeout t0 + 1\<rparr>)"
    have t1: "amsdu_skb t1 = Some b" by (simp add: t1_def Some)
    define dst where "dst = (if nw_type x = INFRA_NETWORK then Some (vif_bssid x)
                else map_option (\<lambda>j. sta_mac (conn_of ar v j)) (ath6kl_find_sta_by_aid x (tx_aid t1)))"
    show ?thesis
    proof (cases dst)
      case None
      define t2 where "t2 = snd (aggr_tx_reset_aggr t1 True stop)"
      have e: "ar' = drv_do (upd_txtid ar v i k (aggr_cntxt x) t2) (map EvFree [b])"
        using r Some None t1 unfolding D t1_def [symmetric] dst_def [symmetric] by (simp add: aggr_tx_reset_aggr_def t2_def)
      have "op_step ar (upd_txtid ar v i k (aggr_cntxt x) t2) {#}"
        by (rule upd_txtid_step) (simp add: t2_def aggr_tx_reset_aggr_def)
      from op_step_trans0 [OF this op_free_step [of _ "[b]"]] have "op_step ar ar' (id_ms b)" unfolding e by simp
      then show ?thesis by (rule op_step_ids) (simp add: b)
    next
      case (Some d)
      define s where "s = amsdu_close t1 b (amsdu_lastpdu_len t1) d (dev_addr x)"
      have s: "id_ms s = {#}" if "anon ar" using b [OF that] by (simp add: s_def)
      obtain a1 t2 where p: "aggr_tx_progressive (te_hz env) (te_now env) (nw_type x = INFRA_NETWORK) (\<not> stop) (aggr_cntxt x)
                      (snd (aggr_tx_reset_aggr (amsdu_sent t1) False stop)) = (a1, t2)" by fastforce
      define ar1 where "ar1 = upd_txtid ar v i k a1 t2"
      have 1: "op_step ar ar1 {#}" unfolding ar1_def
        by (rule upd_txtid_step) (use progressive_skb [OF p] in \<open>simp add: aggr_tx_reset_aggr_def\<close>)
      define ac where "ac = up_to_ac ! (wmi_data_hdr_get_up (skb_at s 1))"
      define ep where "ep = ac2ep_map ar1 ac"
      obtain co p' where al: "ath6kl_alloc_cookie (cookie_data ar1) = (co, p')" by (cases "ath6kl_alloc_cookie (cookie_data ar1)")
      define ar2 where "ar2 = upd_vif (ar1\<lparr>cookie_data := p'\<rparr>) v (\<lambda>x. x\<lparr>data_cookie_count := data_cookie_count x + 1\<rparr>)"
      have E: "Some (q, ar') = (if ep = 0 \<or> ep = ENDPOINT_UNUSED then Some (- EINVAL, fail_tx ar1 v s)
                      else if \<not> ep_ok ep then None
                      else (case co of
                              None \<Rightarrow> Some (- EINVAL, fail_tx (ar1\<lparr>cookie_data := p'\<rparr>) v s)
                            | Some c \<Rightarrow> Some (send_cookie env (count_pending ar2 ep) v (DataCookie c) \<lparr>ck_skb = Some s, ck_map_no = 0, ck_eid = ep, ck_tag = ATH6KL_DATA_PKT_TAG\<rparr> s)))"
        using r unfolding D \<open>amsdu_skb t0 = Some b\<close> option.case t1_def [symmetric] dst_def [symmetric] Some p prod.case s_def [symmetric]
          ar1_def [symmetric] ac_def [symmetric] ep_def [symmetric] al prod.case ar2_def [symmetric] by simp
      have f: "op_step ar (fail_tx ar1 v s) {#}" by (rule op_step_ids [OF op_step_trans0 [OF 1 fail_tx_step]]) (rule s)
      show ?thesis
      proof (cases "ep = 0 \<or> ep = ENDPOINT_UNUSED \<or> \<not> ep_ok ep")
        case True
        then show ?thesis using E f by (auto split: if_splits)
      next
        case False
        show ?thesis
        proof (cases co)
          case None
          from op_step_trans0 [OF op_step_trans0 [OF 1 data_alloc_step(1) [OF al None]] fail_tx_step]
          have "op_step ar (fail_tx (ar1\<lparr>cookie_data := p'\<rparr>) v s) {#}" by (rule op_step_ids) (rule s)
          then show ?thesis using E False None by simp
        next
          case (Some c)
          define ck where "ck = \<lparr>ck_skb = Some s, ck_map_no = 0, ck_eid = ep, ck_tag = ATH6KL_DATA_PKT_TAG\<rparr>"
          have ne: "eps_ok ar1 \<Longrightarrow> ck_eid ck \<noteq> ctrl_ep ar1" by (simp add: ck_def ep_def eps_ok_def)
          have R: "reserved ar1 (count_pending (ar1\<lparr>cookie_data := p'\<rparr>) ep) (DataCookie c) ck {#}"
            using data_alloc_step(2) [OF al Some ne] by (simp add: ck_def)
          have "op_step ar1 (snd (send_cookie env (count_pending ar2 ep) v (DataCookie c) ck s)) ({#} + id_ms s)"
          proof (rule send_cookie_step)
            show "reserved ar1 (count_pending ar2 ep) (DataCookie c) ck {#}" using counted_reserved [OF R] by (simp add: ar2_def)
          qed (simp add: ck_def)
          from op_step_trans0 [OF 1 this] have o: "op_step ar (snd (send_cookie env (count_pending ar2 ep) v (DataCookie c) ck s)) {#}"
            by (rule op_step_ids) (simp add: s)
          have "ar' = snd (send_cookie env (count_pending ar2 ep) v (DataCookie c) ck s)"
            using E False Some unfolding ck_def by (auto dest: arg_cong [where f = snd])
          then show ?thesis using o by (simp only:)
        qed
      qed
    qed
  qed
qed

lemma flush_tids_step: "flush_tids env ar v i ks = Some ar' \<Longrightarrow> op_step ar ar' {#}"
proof (induction ks arbitrary: ar)
  case (Cons k ks)
  obtain q a where t: "aggr_tx_tid env ar v i k True = Some (q, a)" "flush_tids env a v i ks = Some ar'"
    using Cons.prems by (auto split: option.splits)
  show ?case by (rule op_step_trans0 [OF aggr_tx_tid_step [OF t(1)] Cons.IH [OF t(2)]])
qed simp

lemma aggr_tx_flush_step: "aggr_tx_flush env ar v sta = Some ar' \<Longrightarrow> op_step ar ar' {#}"
  by (auto simp: aggr_tx_flush_def flush_tids_step split: option.splits if_splits)

text \<open>
  A stage takes a frame on (\<open>moves\<close>): what it frees and what it passes on is the frame it was given.
\<close>

definition moves :: "ath6kl \<Rightarrow> skb \<Rightarrow> ath6kl \<Rightarrow> skb \<Rightarrow> bool" where
  "moves ar s ar' s' \<longleftrightarrow> (\<exists>m. op_step ar ar' m \<and> (anon ar \<longrightarrow> m + id_ms s' = id_ms s))"

lemma moves_same: "op_step ar ar' {#} \<Longrightarrow> skb_id s' = skb_id s \<Longrightarrow> moves ar s ar' s'"
  using id_ms_cong [of s' s] by (auto simp: moves_def)

lemma moves_then:
  assumes "moves ar s ar1 s1" and "op_step ar1 ar2 (id_ms s1)"
  shows "op_step ar ar2 (id_ms s)"
proof -
  obtain m where m: "op_step ar ar1 m" "anon ar \<longrightarrow> m + id_ms s1 = id_ms s" using assms(1) by (auto simp: moves_def)
  show ?thesis by (rule op_step_ids [OF op_step_trans [OF m(1) assms(2)]]) (use m(2) in simp)
qed

lemma moves_trans:
  assumes "moves ar s ar1 s1" and "moves ar1 s1 ar2 s2"
  shows "moves ar s ar2 s2"
proof -
  obtain m where m: "op_step ar ar1 m" "anon ar \<longrightarrow> m + id_ms s1 = id_ms s" using assms(1) by (auto simp: moves_def)
  obtain n where n: "op_step ar1 ar2 n" "anon ar1 \<longrightarrow> n + id_ms s2 = id_ms s1" using assms(2) by (auto simp: moves_def)
  have "op_step ar ar2 (m + n)" by (rule op_step_trans [OF m(1) n(1)])
  moreover have "anon ar \<longrightarrow> (m + n) + id_ms s2 = id_ms s"
    using m(2) n(2) op_step_anon [OF m(1)] by (auto simp: add.assoc)
  ultimately show ?thesis unfolding moves_def by blast
qed

lemma mark_amsdu_id [simp]: "skb_id (mark_amsdu s) = skb_id s"
  by (simp add: mark_amsdu_def Let_def)

lemma amsdu_append_id: "amsdu_skb (amsdu_append t b p) = Some b' \<Longrightarrow> skb_id b' = skb_id b"
  by (auto simp: amsdu_append_def Let_def)

lemma amsdu_open_id: "skb_id (the (amsdu_skb (amsdu_open a t s))) = None"
  by (simp add: amsdu_open_def Let_def)

text \<open>The frame added to an aggregate is freed, an aggregate that is complete is passed on.\<close>

lemma aggr_tx_add_cases:
  assumes r: "aggr_tx_add can hz now infra dst src a t s = (st, so, fr, a', t')"
  obtains "st = AGGR_TX_BYPASS" "so = Some s" "fr = []" "amsdu_skb t' = amsdu_skb t"
  | b s1 where "st = AGGR_TX_DONE" "so = Some b" "fr = [s1]" "amsdu_skb t' = None" "skb_id s1 = skb_id s"
      "skb_id b = (case amsdu_skb t of None \<Rightarrow> None | Some b0 \<Rightarrow> skb_id b0)"
  | b s1 where "st = AGGR_TX_OK" "so = None" "fr = [s1]" "amsdu_skb t' = Some b" "skb_id s1 = skb_id s"
      "skb_id b = (case amsdu_skb t of None \<Rightarrow> None | Some b0 \<Rightarrow> skb_id b0)"
proof -
  consider (none) "max_aggr_sz t = 0 \<or> amsdu_skb t = None \<and> \<not> can"
    | (over) "max_aggr_sz t \<noteq> 0" "amsdu_skb t \<noteq> None" "amsdu_len t + pdu_len s > tx_amsdu_max_aggr_len a"
    | (add) "max_aggr_sz t \<noteq> 0" "amsdu_skb t = None \<Longrightarrow> can" "amsdu_skb t \<noteq> None \<Longrightarrow> amsdu_len t + pdu_len s \<le> tx_amsdu_max_aggr_len a"
    by linarith
  then show thesis
  proof cases
    case none
    then show thesis using r tx_add_bypass that(1) by simp
  next
    case over
    have "st = AGGR_TX_BYPASS" "so = Some s" "fr = []" "amsdu_skb t' = amsdu_skb t"
      using r unfolding tx_add_overflow [OF over] by auto
    then show thesis by (rule that(1))
  next
    case add
    define s1 where "s1 = (if amsdu_skb t = None then mark_amsdu s else s)"
    define t2 where "t2 = tx_add_frame a t s"
    define b0 where "b0 = the (amsdu_skb (if amsdu_skb t = None then amsdu_open a t s1 else t))"
    have s1: "skb_id s1 = skb_id s" by (simp add: s1_def)
    have b0: "skb_id b0 = (case amsdu_skb t of None \<Rightarrow> None | Some b0 \<Rightarrow> skb_id b0)"
      using amsdu_open_id by (cases "amsdu_skb t") (simp_all add: b0_def)
    obtain b where b: "amsdu_skb t2 = Some b" "skb_id b = skb_id b0"
      by (simp add: t2_def tx_add_frame_def Let_def s1_def [symmetric] b0_def [symmetric] amsdu_append_def)
    obtain a3 t3 where p: "aggr_tx_progressive hz now infra False a (snd (aggr_tx_reset_aggr (amsdu_sent t2) False True)) = (a3, t3)"
      by fastforce
    have t3: "amsdu_skb t3 = None" using progressive_skb [OF p] by (simp add: aggr_tx_reset_aggr_def)
    have "(st, so, fr, a', t') = (if amsdu_cnt t2 \<ge> tx_amsdu_max_aggr_num a
        then (AGGR_TX_DONE, Some (amsdu_close t2 b (pdu_len s1) dst src), [s1], a3, t3) else (AGGR_TX_OK, None, [s1], a, t2))"
    proof -
      have "aggr_tx_add can hz now infra dst src a t s = (if amsdu_cnt t2 \<ge> tx_amsdu_max_aggr_num a
        then (AGGR_TX_DONE, Some (amsdu_close t2 b (pdu_len s1) dst src), [s1], a3, t3) else (AGGR_TX_OK, None, [s1], a, t2))"
      proof (subst tx_add_taken)
        show "max_aggr_sz t \<noteq> 0" by (rule add)
        show "can" if "amsdu_skb t = None" using that by (rule add)
        show "amsdu_len t + pdu_len s \<le> tx_amsdu_max_aggr_len a" if "amsdu_skb t \<noteq> None" using that by (rule add)
      qed (simp only: Let_def s1_def [symmetric] t2_def [symmetric] p prod.case b option.sel)
      then show ?thesis using r by simp
    qed
    then show thesis using that(2) [of "amsdu_close t2 b (pdu_len s1) dst src" s1] that(3) [of s1 b] s1 b b0 t3
      by (simp split: if_splits)
  qed
qed

lemma aggr_tx_add_ids:
  assumes r: "aggr_tx_add can hz now infra dst src a t s = (st, so, fr, a', t')"
  shows "st \<noteq> AGGR_TX_DROP" and "st = AGGR_TX_OK \<longleftrightarrow> so = None"
    and "(\<And>b. amsdu_skb t = Some b \<Longrightarrow> skb_id b = None) \<Longrightarrow> amsdu_skb t' = Some b' \<Longrightarrow> skb_id b' = None"
    and "(\<And>b. amsdu_skb t = Some b \<Longrightarrow> skb_id b = None) \<Longrightarrow>
       \<Sum>\<^sub># (mset (map id_ms fr)) + (case so of None \<Rightarrow> {#} | Some s' \<Rightarrow> id_ms s') = id_ms s"
  by (rule aggr_tx_add_cases [OF r]; simp add: id_ms_def split: option.splits)+

lemma aggr_tx_step:
  assumes r: "aggr_tx env ar v sta s = (st, so, ar')"
  shows "st = AGGR_TX_OK \<Longrightarrow> op_step ar ar' (id_ms s)"
    and "st = AGGR_TX_DROP \<Longrightarrow> op_step ar ar' {#}"
    and "st \<noteq> AGGR_TX_OK \<Longrightarrow> st \<noteq> AGGR_TX_DROP \<Longrightarrow> so = Some s' \<Longrightarrow> moves ar s ar' s'"
    and "st \<noteq> AGGR_TX_OK \<Longrightarrow> st \<noteq> AGGR_TX_DROP \<Longrightarrow> so \<noteq> None"
proof -
  define x where "x = vifs ar v"
  define io where "io = (case sta of None \<Rightarrow> ath6kl_find_sta x (skb_range s WMI_DATA_HDR_LEN 6) | Some i \<Rightarrow> Some i)"
  have "st = AGGR_TX_BYPASS \<and> so = Some s \<and> ar' = ar \<or> st = AGGR_TX_DROP \<and> ar' = ar
     \<or> (\<exists>i k ok ar1 fr a1 t1 dst. op_step ar ar1 {#} \<and> ar' = drv_do (upd_txtid ar1 v i k a1 t1) (map EvFree fr)
          \<and> vifs ar1 = vifs ar \<and> aggr_tx_add ok (te_hz env) (te_now env) (nw_type x = INFRA_NETWORK) dst (dev_addr x) (aggr_cntxt x)
              (sta_tx (sta_list x i) k) s = (st, so, fr, a1, t1))" (is "?A \<or> ?B \<or> ?C")
  proof (cases "tx_aggregatable (aggr_cntxt x) s")
    case False
    then show ?thesis using r by (simp add: aggr_tx_def Let_def x_def)
  next
    case agg: True
    show ?thesis
    proof (cases io)
      case None
      then show ?thesis using r agg by (simp add: aggr_tx_def Let_def x_def [symmetric] io_def [symmetric])
    next
      case (Some i)
      define k where "k = wmi_data_hdr_get_up (skb_at s 1)"
      define t where "t = sta_tx (sta_list x i) k"
      define dst where "dst = (if nw_type x = INFRA_NETWORK then vif_bssid x else sta_mac (sta_list x i))"
      obtain ok ar1 where al: "(if max_aggr_sz t \<noteq> 0 \<and> amsdu_skb t = None then drv_alloc (te_can env) ar else (True, ar)) = (ok, ar1)"
        by (cases "if max_aggr_sz t \<noteq> 0 \<and> amsdu_skb t = None then drv_alloc (te_can env) ar else (True, ar)")
      have 1: "op_step ar ar1 {#}" "vifs ar1 = vifs ar" using al op_alloc_step by (auto simp: drv_alloc_def split: if_splits)
      obtain st0 so0 fr a1 t1 where ad: "aggr_tx_add ok (te_hz env) (te_now env) (nw_type x = INFRA_NETWORK) dst (dev_addr x) (aggr_cntxt x) t s = (st0, so0, fr, a1, t1)"
        by (cases "aggr_tx_add ok (te_hz env) (te_now env) (nw_type x = INFRA_NETWORK) dst (dev_addr x) (aggr_cntxt x) t s")
      have "aggr_tx env ar v sta s = (if nw_type x = AP_NETWORK \<and> sta_flags (sta_list x i) AND (STA_PS_SLEEP OR STA_PS_POLLED OR STA_PS_APSD_TRIGGER) \<noteq> 0
          then (AGGR_TX_BYPASS, Some s, ar) else (st0, so0, drv_do (upd_txtid ar1 v i k a1 t1) (map EvFree fr)))"
        unfolding aggr_tx_def Let_def x_def [symmetric] io_def [symmetric] Some option.case conn_of_def k_def [symmetric] t_def [symmetric]
          dst_def [symmetric] al prod.case ad using agg by (simp only: not_True_eq_False if_False)
      then have "?A \<or> ar' = drv_do (upd_txtid ar1 v i k a1 t1) (map EvFree fr) \<and> st = st0 \<and> so = so0" using r by (auto split: if_splits)
      then show ?thesis using 1 ad unfolding t_def by blast
    qed
  qed
  moreover have o: "op_step ar ar' (\<Sum>\<^sub># (mset (map id_ms fr)))"
    if "op_step ar ar1 {#}" "vifs ar1 = vifs ar" and e: "ar' = drv_do (upd_txtid ar1 v i k a1 t1) (map EvFree fr)"
      and ad: "aggr_tx_add ok hz now infra dst src a (sta_tx (sta_list x i) k) s = (st, so, fr, a1, t1)" for i k ok ar1 fr a1 t1 dst hz now infra src a
  proof -
    have "op_step ar1 (upd_txtid ar1 v i k a1 t1) {#}"
    proof (rule upd_txtid_step)
      fix b assume an: "anon ar1" and b: "amsdu_skb t1 = Some b"
      show "skb_id b = None"
        by (rule aggr_tx_add_ids(3) [OF ad _ b]) (use anonD [OF an] that(2) in \<open>simp add: x_def\<close>)
    qed
    from op_step_trans0 [OF op_step_trans0 [OF that(1) this] op_free_step] show ?thesis by (simp only: e)
  qed
  ultimately have K: "?A \<or> ?B \<or> (\<exists>m. op_step ar ar' m \<and> st \<noteq> AGGR_TX_DROP \<and> (st = AGGR_TX_OK \<longleftrightarrow> so = None)
      \<and> (anon ar \<longrightarrow> m + (case so of None \<Rightarrow> {#} | Some s' \<Rightarrow> id_ms s') = id_ms s))"
  proof (elim disjE)
    assume ?C
    then obtain i k ok ar1 fr a1 t1 dst where c: "op_step ar ar1 {#}" "ar' = drv_do (upd_txtid ar1 v i k a1 t1) (map EvFree fr)" "vifs ar1 = vifs ar"
      and ad: "aggr_tx_add ok (te_hz env) (te_now env) (nw_type x = INFRA_NETWORK) dst (dev_addr x) (aggr_cntxt x) (sta_tx (sta_list x i) k) s
          = (st, so, fr, a1, t1)" by blast
    have own: "skb_id b = None" if "anon ar" "amsdu_skb (sta_tx (sta_list x i) k) = Some b" for b
      using anonD [OF that(1)] that(2) by (simp add: x_def)
    have "op_step ar ar' (\<Sum>\<^sub># (mset (map id_ms fr)))" by (rule o [OF c(1,3,2) ad])
    moreover have "anon ar \<longrightarrow> \<Sum>\<^sub># (mset (map id_ms fr)) + (case so of None \<Rightarrow> {#} | Some s' \<Rightarrow> id_ms s') = id_ms s"
      by (intro impI aggr_tx_add_ids(4) [OF ad]) (rule own)
    ultimately show ?thesis using aggr_tx_add_ids(1,2) [OF ad] by (intro disjI2 exI conjI) assumption+
  next
    assume ?A then show ?thesis by (rule disjI1)
  next
    assume ?B then show ?thesis by (rule disjI2 [OF disjI1])
  qed
  then consider (same) "st = AGGR_TX_BYPASS" "so = Some s" "ar' = ar" | (drop) "st = AGGR_TX_DROP" "ar' = ar"
    | (took) m where "op_step ar ar' m" "st \<noteq> AGGR_TX_DROP" "st = AGGR_TX_OK \<longleftrightarrow> so = None"
        "anon ar \<longrightarrow> m + (case so of None \<Rightarrow> {#} | Some s' \<Rightarrow> id_ms s') = id_ms s"
    by (elim disjE exE conjE) assumption+
  note K = this
  show "op_step ar ar' (id_ms s)" if "st = AGGR_TX_OK"
  proof (rule K)
    fix m
    assume m: "op_step ar ar' m" "st = AGGR_TX_OK \<longleftrightarrow> so = None" "anon ar \<longrightarrow> m + (case so of None \<Rightarrow> {#} | Some s' \<Rightarrow> id_ms s') = id_ms s"
    show "op_step ar ar' (id_ms s)" by (rule op_step_ids [OF m(1)]) (use m(2,3) that in simp)
  qed (simp_all add: that)
  show "op_step ar ar' {#}" if "st = AGGR_TX_DROP" by (rule K) (simp_all add: that)
  show "so \<noteq> None" if "st \<noteq> AGGR_TX_OK" "st \<noteq> AGGR_TX_DROP" by (rule K) (simp_all add: that)
  show "moves ar s ar' s'" if h: "st \<noteq> AGGR_TX_OK" "st \<noteq> AGGR_TX_DROP" "so = Some s'"
  proof (rule K)
    assume "so = Some s" "ar' = ar"
    then show ?thesis using h(3) moves_same [OF op_step_refl] by simp
  next
    fix m
    assume "op_step ar ar' m" "anon ar \<longrightarrow> m + (case so of None \<Rightarrow> {#} | Some s' \<Rightarrow> id_ms s') = id_ms s"
    then have "op_step ar ar' m" "anon ar \<longrightarrow> m + id_ms s' = id_ms s" unfolding h(3) option.case by blast+
    then show ?thesis unfolding moves_def by blast
  qed (simp add: h)
qed

section \<open>From the headers to the hand-over\<close>

lemma buf_alloc_op: "ath6kl_buf_alloc can ar = (so, ar') \<Longrightarrow> op_step ar ar' {#} \<and> (case so of None \<Rightarrow> True | Some b \<Rightarrow> skb_id b = None)"
  using buf_alloc_step ctl_op_step by blast

lemma room_step:
  assumes "data_room env ar v s = (ok, s', ar')"
  shows "moves ar s ar' s'"
proof -
  obtain so a where b: "ath6kl_buf_alloc (te_can env) ar = (so, a)" by (cases "ath6kl_buf_alloc (te_can env) ar")
  note B = buf_alloc_op [OF b]
  have 1: "op_step ar (upd_vif a v (\<lambda>x. x\<lparr>net_tx_dropped := net_tx_dropped x + 1\<rparr>)) {#}"
    by (rule op_step_trans0 [OF _ upd_stat_step]) (use B in \<open>simp_all add: vif_core_def\<close>)
  have 2: "op_step ar (drv_do a [EvFree s]) (id_ms s)" by (rule op_step_trans0 [OF _ op_free1_step]) (use B in simp)
  show ?thesis
  proof (cases "skb_headroom s < needed_headroom (vifs ar v)")
    case False
    then have "s' = s" "ar' = ar" using assms by (auto simp: data_room_def)
    then show ?thesis by (simp add: moves_same)
  next
    case True
    show ?thesis
    proof (cases so)
      case None
      then have "s' = s" "ar' = upd_vif a v (\<lambda>x. x\<lparr>net_tx_dropped := net_tx_dropped x + 1\<rparr>)" using assms True b by (auto simp: data_room_def)
      then show ?thesis using moves_same [OF 1] by simp
    next
      case (Some n)
      then have "skb_id s' = None" "ar' = drv_do a [EvFree s]" using assms True b B by (auto simp: data_room_def)
      then show ?thesis using 2 unfolding moves_def by (intro exI [of _ "id_ms s"]) simp
    qed
  qed
qed

lemma dix_id: "ath6kl_wmi_dix_2_dot3 s = (r, s') \<Longrightarrow> skb_id s' = skb_id s"
  by (auto simp: ath6kl_wmi_dix_2_dot3_def Let_def split: if_splits)

lemma encap_step:
  assumes e: "data_encap env ar v s fl = (res, ar')"
  shows "case res of Inl s' \<Rightarrow> moves ar s ar' s' | Inr (s', ac, tg, by_peer) \<Rightarrow> moves ar s ar' s' \<and> (by_peer \<longrightarrow> ibss_ps_enable ar')"
proof -
  define x where "x = vifs ar v"
  obtain ok s1 ar1 where r: "data_room env ar v s = (ok, s1, ar1)" by (cases "data_room env ar v s")
  have 1: "moves ar s ar1 s1" by (rule room_step [OF r])
  obtain q2 s2 where d: "ath6kl_wmi_dix_2_dot3 s1 = (q2, s2)" by (cases "ath6kl_wmi_dix_2_dot3 s1")
  obtain q3 s3 where h: "ath6kl_wmi_data_hdr_add (vif_max ar1) s2 DATA_MSGTYPE fl 0 0 None (fw_vif_idx x) = (q3, s3)"
    by (cases "ath6kl_wmi_data_hdr_add (vif_max ar1) s2 DATA_MSGTYPE fl 0 0 None (fw_vif_idx x)")
  obtain ac tg s4 ar2 where p: "ath6kl_wmi_implicit_create_pstream (te_can env) ar1 (fw_vif_idx x) s3 0 (wmm_enabled x) ATH6KL_DATA_PKT_TAG = ((ac, tg, s4), ar2)"
    by (cases "ath6kl_wmi_implicit_create_pstream (te_can env) ar1 (fw_vif_idx x) s3 0 (wmm_enabled x) ATH6KL_DATA_PKT_TAG") auto
  have i: "skb_id s2 = skb_id s1" "skb_id s3 = skb_id s1" "skb_id s4 = skb_id s1"
    using dix_id [OF d] data_hdr_add_id [OF h] implicit_pstream_step(2) [OF p] by simp_all
  have 2: "moves ar s ar1 t" if "skb_id t = skb_id s1" for t
    by (rule moves_trans [OF 1 moves_same]) (simp_all add: that)
  have 4: "moves ar s ar2 s4"
    by (rule moves_trans [OF 1 moves_same]) (simp_all add: i implicit_pstream_step(1) [OF p])
  have 0: "moves ar s ar t" if "skb_id t = skb_id s" for t by (rule moves_same) (simp_all add: that)
  note D = data_encap_def Let_def x_def [symmetric] r d h p prod.case
  show ?thesis
  proof (cases "wmi_enabled ar")
    case True
    have E: "data_encap env ar v s fl = (if \<not> ok then (Inl s1, ar1) else if q2 \<noteq> 0 then (Inl s2, ar1) else if q3 \<noteq> 0 then (Inl s3, ar1)
        else if nw_type x = ADHOC_NETWORK \<and> ibss_ps_enable ar1 \<and> vif_connected x then (Inr (s3, 99, ATH6KL_DATA_PKT_TAG, True), ar1)
        else (Inr (s4, ac, tg, False), ar2))"
      unfolding D using True by (simp only: if_True)
    show ?thesis
      using e [symmetric] unfolding E using 1 2 [OF i(1)] 2 [OF i(2)] 4 by (simp split: if_splits)
  next
    case False
    then show ?thesis using e 0 [of s] 0 [of "skb_push EPPING_ALIGNMENT_PAD s"] unfolding data_encap_def Let_def
      by (auto split: if_splits)
  qed
qed

lemma data_aggr_step:
  assumes r: "data_aggr env ar v sta bypass s ac tg by_peer = Some ar'" and peer: "by_peer \<Longrightarrow> ibss_ps_enable ar"
  shows "op_step ar ar' (id_ms s)"
proof (cases "amsdu_enabled (vifs ar v) \<and> \<not> bypass \<and> tx_amsdu_enable (aggr_cntxt (vifs ar v)) \<and> \<not> by_peer
    \<and> (nw_type (vifs ar v) = INFRA_NETWORK \<or> nw_type (vifs ar v) = AP_NETWORK)")
  case False
  then have "data_send env ar v s ac tg by_peer = Some ar'" using r by (auto simp: data_aggr_def Let_def)
  then show ?thesis by (rule data_send_step [OF _ peer])
next
  case True
  obtain st so ar1 where a: "aggr_tx env ar v sta s = (st, so, ar1)" by (cases "aggr_tx env ar v sta s")
  note A = aggr_tx_step [OF a]
  have R: "(if st = AGGR_TX_OK then Some ar1 else if st = AGGR_TX_DROP then Some (fail_tx ar1 v s)
      else case so of None \<Rightarrow> None | Some s1 \<Rightarrow>
         if tx_amsdu_seq_pkt (aggr_cntxt (vifs ar1 v)) \<and> st = AGGR_TX_BYPASS
         then (case aggr_tx_flush env ar1 v sta of None \<Rightarrow> None | Some ar2 \<Rightarrow> data_send env ar2 v s1 ac tg by_peer)
         else data_send env ar1 v s1 ac tg by_peer) = Some ar'"
    using r True unfolding data_aggr_def Let_def a prod.case by (simp only: if_True simp_thms)
  show ?thesis
  proof (cases "st = AGGR_TX_OK \<or> st = AGGR_TX_DROP")
    case True
    then show ?thesis using R A(1) op_step_trans0 [OF A(2) fail_tx_step [of ar1 v s]] by (auto split: if_splits)
  next
    case False
    then obtain s1 where s1: "so = Some s1" using R by (auto split: option.splits)
    have m: "moves ar s ar1 s1" by (rule A(3)) (use False s1 in auto)
    have np: "\<not> by_peer" using \<open>amsdu_enabled _ \<and> _\<close> by blast
    have "op_step ar1 ar' (id_ms s1)"
    proof (cases "tx_amsdu_seq_pkt (aggr_cntxt (vifs ar1 v)) \<and> st = AGGR_TX_BYPASS")
      case True
      then obtain ar2 where f: "aggr_tx_flush env ar1 v sta = Some ar2" "data_send env ar2 v s1 ac tg by_peer = Some ar'"
        using R False s1 by (auto split: option.splits)
      show ?thesis by (rule op_step_trans0 [OF aggr_tx_flush_step [OF f(1)] data_send_step [OF f(2)]]) (use np in simp)
    next
      case n: False
      have "data_send env ar1 v s1 ac tg by_peer = Some ar'" using R False s1 n by auto
      then show ?thesis by (rule data_send_step) (use np in simp)
    qed
    then show ?thesis by (rule moves_then [OF m])
  qed
qed

lemma data_out_step:
  assumes r: "data_out env ar v sta bypass s fl = Some ar'"
  shows "op_step ar ar' (id_ms s)"
proof -
  obtain res ar1 where e: "data_encap env ar v s fl = (res, ar1)" by (cases "data_encap env ar v s fl")
  note E = encap_step [OF e]
  show ?thesis
  proof (cases res)
    case (Inl s1)
    then have "ar' = fail_tx ar1 v s1" using r e by (simp add: data_out_def)
    then show ?thesis using moves_then [OF _ fail_tx_step] E Inl by simp
  next
    case (Inr z)
    obtain s1 ac tg by_peer where z: "z = (s1, ac, tg, by_peer)" by (cases z)
    define ar2 where "ar2 = (if vif_connected (vifs ar1 v) \<and> skb_protocol s1 = ETH_P_PAE then ath6kl_eapol_handshake_protect env ar1 v else ar1)"
    have 2: "op_step ar1 ar2 {#}" by (simp add: ar2_def eapol_protect_step)
    have a: "data_aggr env ar2 v sta bypass s1 ac tg by_peer = Some ar'" using r e Inr z by (simp add: data_out_def Let_def ar2_def)
    have "op_step ar2 ar' (id_ms s1)"
      by (rule data_aggr_step [OF a]) (use E Inr z op_core_env(1) [OF op_step_core [OF 2]] in simp)
    from op_step_trans0 [OF 2 this] show ?thesis by (rule moves_then [rotated]) (use E Inr z in simp)
  qed
qed

section \<open>Frames that wait for a sleeping station\<close>

text \<open>\<open>drv_step\<close> is \<open>op_step\<close> for operations that also change queues, tables and modes.\<close>

definition drv_step :: "ath6kl \<Rightarrow> ath6kl \<Rightarrow> nat multiset \<Rightarrow> bool" where
  "drv_step ar ar' ids \<longleftrightarrow> no_leak ar' = no_leak ar \<and> (act_ok ar \<longrightarrow> act_ok ar') \<and> (anon ar \<longrightarrow> anon ar')
     \<and> (\<exists>evs lost. drv_log ar' = drv_log ar @ evs \<and> (anon ar \<longrightarrow> frames_of evs = ids) \<and> (no_leak ar \<longrightarrow> lost = [])
            \<and> (\<forall>out l0. acct ar out l0 \<longrightarrow> acct ar' (out @ sent evs) (l0 @ lost)))"

lemma op_drv_step: "op_step ar ar' ids \<Longrightarrow> drv_step ar ar' ids"
proof -
  assume o: "op_step ar ar' ids"
  have "no_leak ar' = no_leak ar" by (rule no_leak_core [OF op_step_core [OF o]])
  then show ?thesis using o unfolding drv_step_def op_step_def by blast
qed

lemma drv_step_trans:
  assumes "drv_step a b m" and "drv_step b c n"
  shows "drv_step a c (m + n)"
proof -
  obtain e1 l1 where 1: "drv_log b = drv_log a @ e1" "anon a \<Longrightarrow> frames_of e1 = m" "no_leak a \<Longrightarrow> l1 = []"
      "\<And>out l0. acct a out l0 \<Longrightarrow> acct b (out @ sent e1) (l0 @ l1)"
    using assms(1) unfolding drv_step_def by blast
  obtain e2 l2 where 2: "drv_log c = drv_log b @ e2" "anon b \<Longrightarrow> frames_of e2 = n" "no_leak b \<Longrightarrow> l2 = []"
      "\<And>out l0. acct b out l0 \<Longrightarrow> acct c (out @ sent e2) (l0 @ l2)"
    using assms(2) unfolding drv_step_def by blast
  have s: "no_leak b = no_leak a" "no_leak c = no_leak a" "anon a \<Longrightarrow> anon b" "act_ok a \<longrightarrow> act_ok c" "anon a \<longrightarrow> anon c"
    using assms by (auto simp: drv_step_def)
  have "drv_log c = drv_log a @ (e1 @ e2)" "anon a \<longrightarrow> frames_of (e1 @ e2) = m + n" "no_leak a \<longrightarrow> l1 @ l2 = []"
    using 1(1-3) 2(1-3) s by auto
  moreover have "acct c (out @ sent (e1 @ e2)) (l0 @ (l1 @ l2))" if "acct a out l0" for out l0
    using 2(4) [OF 1(4) [OF that]] by simp
  ultimately show ?thesis unfolding drv_step_def
    by (intro conjI exI [of _ "e1 @ e2"] exI [of _ "l1 @ l2"]) (use s in simp_all)
qed

lemma drv_step_trans0: "drv_step a b {#} \<Longrightarrow> drv_step b c n \<Longrightarrow> drv_step a c n"
  using drv_step_trans [of a b "{#}" c n] by simp

lemma drv_step_quiet:
  assumes "acct_part ar' = acct_part ar" "act_part ar' = act_part ar" "drv_log ar' = drv_log ar" "no_leak ar' = no_leak ar"
    and "anon ar \<Longrightarrow> anon ar'"
  shows "drv_step ar ar' {#}"
proof -
  have "act_ok ar' = act_ok ar" and "\<And>out lost. acct ar' out lost = acct ar out lost"
    by (rule act_cong [OF assms(2)]) (rule acct_cong [OF assms(1)])
  then show ?thesis unfolding drv_step_def using assms(3,4,5) by (intro conjI exI [of _ "[]"]) simp_all
qed

lemma upd_vif_drv_step:
  assumes "\<And>i. sta_tx (sta_list (f (vifs ar v)) i) = sta_tx (sta_list (vifs ar v) i)"
  shows "drv_step ar (upd_vif ar v f) {#}"
proof (rule drv_step_quiet)
  show "anon (upd_vif ar v f)" if "anon ar" using that assms by (simp add: anon_def upd_vif_def)
qed (simp_all add: acct_part_def act_part_def no_leak_def upd_vif_def)

definition waiting :: "ath6kl \<Rightarrow> nat \<Rightarrow> nat option \<Rightarrow> ps_frame list" where
  "waiting ar v io = psq_frames (case io of None \<Rightarrow> psq_mcast (vifs ar v) | Some i \<Rightarrow> psq_data (sta_list (vifs ar v) i))"

lemma op_step_waiting: "op_step ar ar' m \<Longrightarrow> waiting ar' = waiting ar"
proof (intro ext)
  fix w io
  assume "op_step ar ar' m"
  from op_core_simps(1) [OF op_step_core [OF this]] have v: "vif_core (vifs ar' w) = vif_core (vifs ar w)" .
  have "psq_data (sta_list (vifs ar' w) i) = psq_data (sta_list (vifs ar w) i)" for i
    by (rule sta_core_simps(4)) (rule vif_core_simps(7) [OF v])
  then show "waiting ar' w io = waiting ar w io" using vif_core_simps(5) [OF v] by (simp add: waiting_def split: option.split)
qed

lemma enqueue_frames:
  assumes "ath6kl_ps_queue_enqueue_data ok q s = (ret, q')"
  shows "psq_frames q' = psq_frames q @ (if ret = 0 then [PsData s] else [])"
  using assms by (auto simp: ath6kl_ps_queue_enqueue_data_def psq_push_def psq_frames_def frame_of_def Let_def split: if_splits)

text \<open>The frame is in a queue, or freed because the queue is full or has no memory.\<close>

definition kept_as :: "ath6kl \<Rightarrow> ath6kl \<Rightarrow> skb \<Rightarrow> bool" where
  "kept_as ar ar' s \<longleftrightarrow> (\<exists>w io ok. drv_step ar ar' (if ok then {#} else id_ms s)
     \<and> waiting ar' = (waiting ar)(w := (waiting ar w)(io := waiting ar w io @ (if ok then [PsData s] else []))))"

lemma kept_multicast:
  assumes "powersave_ap_tx_multicast env ar v s fl = (kept, f, ar')"
  shows "if kept then kept_as ar ar' s else ar' = ar"
proof -
  define x where "x = vifs ar v"
  obtain ok a where al: "drv_alloc (te_can env) ar = (ok, a)" by (cases "drv_alloc (te_can env) ar")
  obtain ret q where en: "ath6kl_ps_queue_enqueue_data ok (psq_mcast x) s = (ret, q)" by (cases "ath6kl_ps_queue_enqueue_data ok (psq_mcast x) s")
  define a2 where "a2 = upd_vif a v (\<lambda>x. x\<lparr>psq_mcast := q\<rparr>)"
  define a3 where "a3 = (if ret \<noteq> 0 then drv_do a2 [EvFree s]
           else if ath6kl_ps_queue_empty (psq_mcast x) then snd (ath6kl_wmi_set_pvb_cmd (te_can env) a2 (fw_vif_idx x) MCAST_AID True)
           else a2)"
  have va: "vifs a = vifs ar" using al by (auto simp: drv_alloc_def)
  have 1: "drv_step ar a2 {#}" unfolding a2_def
    by (rule drv_step_trans0 [OF op_drv_step [OF op_alloc_step [OF al]] upd_vif_drv_step]) simp
  have 2: "op_step a2 a3 (if ret = 0 then {#} else id_ms s)"
    using op_free1_step [of a2 s] ctl_op_step [OF set_pvb_step] by (simp add: a3_def)
  have w2: "waiting a2 = (waiting ar)(v := (waiting ar v)(None := waiting ar v None @ (if ret = 0 then [PsData s] else [])))"
    using enqueue_frames [OF en] by (auto simp: waiting_def a2_def upd_vif_def va x_def fun_eq_iff split: option.split)
  have "kept_as ar a3 s" unfolding kept_as_def
    by (intro exI [of _ v] exI [of _ None] exI [of _ "ret = 0"] conjI drv_step_trans0 [OF 1 op_drv_step [OF 2]])
      (simp add: op_step_waiting [OF 2] w2)
  moreover have "powersave_ap_tx_multicast env ar v s fl = (if \<not> some_asleep x then (False, fl, ar) else if dtim_expired x
      then (False, if ath6kl_ps_queue_empty (psq_mcast x) then fl else set_flag fl WMI_DATA_HDR_FLAGS_MORE, ar) else (True, fl, a3))"
    unfolding powersave_ap_tx_multicast_def Let_def x_def [symmetric] al prod.case en a2_def [symmetric] a3_def [symmetric] ..
  ultimately show ?thesis using assms by (auto split: if_splits)
qed

lemma kept_unicast:
  assumes "powersave_ap_tx_unicast env ar v s fl = (kept, f, sta, ar')"
  shows "if kept then kept_as ar ar' s else ar' = ar"
proof -
  have sleep: "kept_as ar (powersave_ap_tx_unicast_sleep env ar v i s) s" for i
  proof -
    define x where "x = vifs ar v"
    define c where "c = conn_of ar v i"
    obtain ok a where al: "drv_alloc (te_can env) ar = (ok, a)" by (cases "drv_alloc (te_can env) ar")
    obtain ret q where en: "ath6kl_ps_queue_enqueue_data ok (psq_data c) s = (ret, q)" by (cases "ath6kl_ps_queue_enqueue_data ok (psq_data c) s")
    define a2 where "a2 = upd_conn a v i (\<lambda>c. c\<lparr>psq_data := q\<rparr>)"
    define a3 where "a3 = (if apsd_trigger x c s then snd (ath6kl_wmi_set_apsd_buffered_traffic_cmd (te_can env) a2 (fw_vif_idx x) (sta_aid c) 1 0) else a2)"
    define a4 where "a4 = (if ret \<noteq> 0 then drv_do a2 [EvFree s]
        else if psqs_empty c then snd (ath6kl_wmi_set_pvb_cmd (te_can env) a3 (fw_vif_idx x) (sta_aid c) True) else a2)"
    have va: "vifs a = vifs ar" using al by (auto simp: drv_alloc_def)
    have 1: "drv_step ar a2 {#}" unfolding a2_def upd_conn_def
      by (rule drv_step_trans0 [OF op_drv_step [OF op_alloc_step [OF al]] upd_vif_drv_step]) (simp add: upd_sta_def)
    have 3: "op_step a2 a3 {#}" using ctl_op_step [OF apsd_traffic_step] by (simp add: a3_def)
    have 2: "op_step a2 a4 (if ret = 0 then {#} else id_ms s)"
      using op_free1_step [of a2 s] op_step_trans0 [OF 3 ctl_op_step [OF set_pvb_step]] by (simp add: a4_def)
    have w2: "waiting a2 = (waiting ar)(v := (waiting ar v)(Some i := waiting ar v (Some i) @ (if ret = 0 then [PsData s] else [])))"
      using enqueue_frames [OF en]
      by (auto simp: waiting_def a2_def upd_conn_def upd_sta_def upd_vif_def va c_def conn_of_def fun_eq_iff split: option.split)
    have "kept_as ar a4 s" unfolding kept_as_def
      by (intro exI [of _ v] exI [of _ "Some i"] exI [of _ "ret = 0"] conjI drv_step_trans0 [OF 1 op_drv_step [OF 2]])
        (simp add: op_step_waiting [OF 2] w2)
    moreover have "powersave_ap_tx_unicast_sleep env ar v i s = a4"
      unfolding powersave_ap_tx_unicast_sleep_def Let_def x_def [symmetric] c_def [symmetric] al prod.case en
        a2_def [symmetric] a3_def [symmetric] a4_def [symmetric] ..
    ultimately show ?thesis by simp
  qed
  have free: "kept_as ar (drv_do ar [EvFree s]) s" unfolding kept_as_def
    by (intro exI [of _ 0] exI [of _ None] exI [of _ False] conjI)
      (use op_drv_step [OF op_free1_step] op_step_waiting [OF op_free1_step] in simp_all)
  show ?thesis using assms sleep free by (auto simp: powersave_ap_tx_unicast_def Let_def split: option.splits if_splits)
qed

text \<open>What a transmit request does: the queue the frame (or its copy) waits in, if any, and its effects.\<close>

definition queued_as :: "ath6kl \<Rightarrow> ath6kl \<Rightarrow> (nat \<times> nat option \<times> skb) option \<Rightarrow> bool" where
  "queued_as ar ar' q \<longleftrightarrow> (\<forall>w io. waiting ar' w io = waiting ar w io @ (case q of None \<Rightarrow> [] | Some (v, jo, s) \<Rightarrow> if w = v \<and> io = jo then [PsData s] else []))"

definition queued_ids :: "(nat \<times> nat option \<times> skb) option \<Rightarrow> nat multiset" where
  "queued_ids q = (case q of None \<Rightarrow> {#} | Some (v, io, s) \<Rightarrow> id_ms s)"

lemma powersave_effect:
  assumes "ath6kl_powersave_ap env ar v s fl = (kept, f, sta, ar')"
  shows "if kept then kept_as ar ar' s else ar' = ar"
proof (cases "is_multicast_ether_addr (skb_range s 0 6)")
  case True
  obtain k g a where m: "powersave_ap_tx_multicast env ar v s fl = (k, g, a)" by (cases "powersave_ap_tx_multicast env ar v s fl")
  show ?thesis using assms True m kept_multicast [OF m] by (auto simp: ath6kl_powersave_ap_def)
next
  case False
  then have "powersave_ap_tx_unicast env ar v s fl = (kept, f, sta, ar')" using assms by (simp add: ath6kl_powersave_ap_def)
  then show ?thesis by (rule kept_unicast)
qed

lemma kept_queued:
  assumes "kept_as ar ar' s"
  shows "\<exists>q m. drv_step ar ar' m \<and> queued_as ar ar' q \<and> m + queued_ids q = id_ms s"
proof -
  obtain w io ok where k: "drv_step ar ar' (if ok then {#} else id_ms s)"
      "waiting ar' = (waiting ar)(w := (waiting ar w)(io := waiting ar w io @ (if ok then [PsData s] else [])))"
    using assms by (auto simp: kept_as_def)
  show ?thesis
    by (intro exI [of _ "if ok then Some (w, io, s) else None"] exI [of _ "if ok then {#} else id_ms s"] conjI k(1))
      (simp_all add: queued_as_def queued_ids_def k(2))
qed

text \<open>The transmit request after the copy of a shared frame.\<close>

lemma data_tx_shape:
  obtains ok ar1 s1 where "moves ar s ar1 s1" "vifs ar1 = vifs ar" "skb_mem s1 = skb_mem s" "skb_ptr s1 = skb_ptr s"
    "\<And>bypass. ath6kl_data_tx env ar v s bypass =
      (if \<not> vif_connected (vifs ar v) \<and> \<not> testmode_epping ar then Some (drv_do ar [EvFree s])
       else if \<not> wmi_ready ar \<and> \<not> testmode_epping ar then Some (fail_tx ar v s)
       else if \<not> ok then Some (fail_tx ar1 v s1)
       else if nw_type (vifs ar v) = AP_NETWORK
       then (case ath6kl_powersave_ap env ar1 v s1 0 of (kept, fl, sta, ar2) \<Rightarrow> if kept then Some ar2 else data_out env ar2 v sta bypass s1 fl)
       else data_out env ar1 v None bypass s1 0)"
proof -
  obtain ok a where al: "drv_alloc (te_can env) ar = (ok, a)" by (cases "drv_alloc (te_can env) ar")
  define d where "d = (if conf_skb_dup ar \<and> skb_cloned s
     then (if ok then (True, s\<lparr>skb_id := None, skb_cloned := False\<rparr>, drv_do a [EvFree s]) else (False, s, a)) else (True, s, ar))"
  obtain ok1 s1 ar1 where d': "d = (ok1, s1, ar1)" by (cases d)
  have va: "vifs a = vifs ar" using al by (auto simp: drv_alloc_def)
  have "op_step ar (drv_do a [EvFree s]) (id_ms s)" by (rule op_step_trans0 [OF op_alloc_step [OF al] op_free1_step])
  then have 1: "moves ar s (drv_do a [EvFree s]) (s\<lparr>skb_id := None, skb_cloned := False\<rparr>)" unfolding moves_def by (intro exI [of _ "id_ms s"]) simp
  have 2: "moves ar s a s" by (rule moves_same [OF op_alloc_step [OF al]]) simp
  have 3: "moves ar s ar s" by (rule moves_same) simp_all
  have E: "ath6kl_data_tx env ar v s bypass =
      (if \<not> vif_connected (vifs ar v) \<and> \<not> testmode_epping ar then Some (drv_do ar [EvFree s])
       else if \<not> wmi_ready ar \<and> \<not> testmode_epping ar then Some (fail_tx ar v s)
       else if \<not> ok1 then Some (fail_tx ar1 v s1)
       else if nw_type (vifs ar v) = AP_NETWORK
       then (case ath6kl_powersave_ap env ar1 v s1 0 of (kept, fl, sta, ar2) \<Rightarrow> if kept then Some ar2 else data_out env ar2 v sta bypass s1 fl)
       else data_out env ar1 v None bypass s1 0)" for bypass
    unfolding ath6kl_data_tx_def Let_def al prod.case d_def [symmetric] d' ..
  show thesis
    by (rule that [OF _ _ _ _ E]) (use d' 1 2 3 va in \<open>auto simp: d_def drv_do_def split: if_splits\<close>)
qed

lemma data_tx_effect:
  assumes r: "ath6kl_data_tx env ar v s bypass = Some ar'"
  shows "\<exists>q m. drv_step ar ar' m \<and> queued_as ar ar' q \<and> (anon ar \<longrightarrow> m + queued_ids q = id_ms s)"
proof -
  have out: ?thesis if "op_step ar ar' (id_ms s)"
    by (intro exI [of _ None] exI [of _ "id_ms s"] conjI op_drv_step [OF that])
      (simp_all add: queued_as_def queued_ids_def op_step_waiting [OF that])
  obtain ok ar1 s1 where m: "moves ar s ar1 s1" and E: "ath6kl_data_tx env ar v s bypass =
      (if \<not> vif_connected (vifs ar v) \<and> \<not> testmode_epping ar then Some (drv_do ar [EvFree s])
       else if \<not> wmi_ready ar \<and> \<not> testmode_epping ar then Some (fail_tx ar v s)
       else if \<not> ok then Some (fail_tx ar1 v s1)
       else if nw_type (vifs ar v) = AP_NETWORK
       then (case ath6kl_powersave_ap env ar1 v s1 0 of (kept, fl, sta, ar2) \<Rightarrow> if kept then Some ar2 else data_out env ar2 v sta bypass s1 fl)
       else data_out env ar1 v None bypass s1 0)"
    by (rule data_tx_shape [of ar s env v]) blast
  obtain kept fl sta ar2 where p: "ath6kl_powersave_ap env ar1 v s1 0 = (kept, fl, sta, ar2)" by (cases "ath6kl_powersave_ap env ar1 v s1 0")
  note P = powersave_effect [OF p]
  have "op_step ar ar' (id_ms s) \<or> kept \<and> ar' = ar2"
  proof -
    have f: "op_step ar (fail_tx ar1 v s1) (id_ms s)" by (rule moves_then [OF m fail_tx_step])
    have o: "op_step ar ar' (id_ms s)" if "data_out env ar1 v sta' bypass s1 fl' = Some ar'" for sta' fl'
      by (rule moves_then [OF m data_out_step [OF that]])
    show ?thesis using r [unfolded E p prod.case] f o P op_free1_step [of ar s] fail_tx_step [of ar v s]
      by (auto split: if_splits)
  qed
  then show ?thesis
  proof
    assume k: "kept \<and> ar' = ar2"
    then obtain q n where q: "drv_step ar1 ar' n" "queued_as ar1 ar' q" "n + queued_ids q = id_ms s1"
      using kept_queued [of ar1 ar2 s1] P by auto
    obtain l where l: "op_step ar ar1 l" "anon ar \<longrightarrow> l + id_ms s1 = id_ms s" using m by (auto simp: moves_def)
    show ?thesis
      by (intro exI [of _ q] exI [of _ "l + n"] conjI drv_step_trans [OF op_drv_step [OF l(1)] q(1)])
        (use q l op_step_waiting [OF l(1)] in \<open>simp_all add: queued_as_def add.assoc\<close>)
  qed (rule out)
qed


text \<open>
  A frame that the flow control refuses is dropped, its cookie is not: the cookie stays out of the
  list, the pending count stays up, and no packet leaves that would bring either back.
\<close>

lemma refused_keeps_cookie:
  assumes "conf_flowctrl ar" and "te_sched env (DataCookie c) < 0"
  shows "fst (send_cookie env ar v (DataCookie c) ck s) < 0 \<and>
         cookie_list (cookie_data (snd (send_cookie env ar v (DataCookie c) ck s))) = cookie_list (cookie_data ar) \<and>
         tx_pending (snd (send_cookie env ar v (DataCookie c) ck s)) = tx_pending ar \<and>
         sent (drv_log (snd (send_cookie env ar v (DataCookie c) ck s))) = sent (drv_log ar)"
  using assms by (simp add: send_cookie_def fill_ref_def fill_cookie_def fail_tx_def upd_vif_def drv_do_def)

end
