(* ===== verification/DriverRun.thy ===== *)
theory DriverRun
  imports DataTxInv
begin

text \<open>
  Runs of the driver: data frames, commands, synchronisation points, priority streams, aggregate timers,
  and packets that come back from HTC, in any order.  Each operation keeps the accounting of
  \<open>DriverInv\<close>; what is out with HTC is followed along the run.
\<close>

section \<open>Packets that come back\<close>

lemma clear_node_same: "same_but_nodes ar (ath6kl_tx_clear_node_map ar v ep m)"
proof -
  have t: "same_but_nodes ar (trim_nodes a n)" if "same_but_nodes ar a" for a n
    using that by (induction a n rule: trim_nodes.induct) (simp_all add: same_but_nodes_def no_nodes_def)
  have "same_but_nodes ar (ar\<lparr>node_map := f\<rparr>)" for f by (simp add: same_but_nodes_def no_nodes_def)
  then show ?thesis using t same_but_nodesI(1) by (simp add: ath6kl_tx_clear_node_map_def Let_def)
qed

lemma same_nodes_parts:
  assumes "same_but_nodes ar a"
  shows "acct_part a = acct_part ar" "act_part a = act_part ar" "drv_log a = drv_log ar" "vifs a = vifs ar" "no_leak a = no_leak ar"
proof -
  have f: "acct_part (no_nodes x) = acct_part x" "act_part (no_nodes x) = act_part x" "drv_log (no_nodes x) = drv_log x"
    "vifs (no_nodes x) = vifs x" "no_leak (no_nodes x) = no_leak x" for x
    by (simp_all add: no_nodes_def acct_part_def act_part_def no_leak_def)
  have e: "no_nodes a = no_nodes ar" using assms by (simp add: same_but_nodes_def)
  show "acct_part a = acct_part ar" using f(1) [of a] f(1) [of ar] e by argo
  show "act_part a = act_part ar" using f(2) [of a] f(2) [of ar] e by argo
  show "drv_log a = drv_log ar" using f(3) [of a] f(3) [of ar] e by argo
  show "vifs a = vifs ar" using f(4) [of a] f(4) [of ar] e by argo
  show "no_leak a = no_leak ar" using f(5) [of a] f(5) [of ar] e by argo
qed

text \<open>A packet that answers for one that is out: its context, its endpoint and, on success, its length.\<close>

fun answers :: "htc_packet \<Rightarrow> cookie_ref \<times> ath6kl_cookie \<Rightarrow> bool" where
  "answers p (r, ck) \<longleftrightarrow> pkt_cntxt p = cntxt_of r \<and> int (endpoint_pkt p) = ck_eid ck \<and> endpoint_pkt p \<noteq> ENDPOINT_MAX
     \<and> (case ck_skb ck of None \<Rightarrow> False | Some s \<Rightarrow> status p = 0 \<longrightarrow> act_len p = skb_len s)"

inductive returned :: "(cookie_ref \<times> ath6kl_cookie) list \<Rightarrow> htc_packet list \<Rightarrow> (cookie_ref \<times> ath6kl_cookie) list \<Rightarrow> bool" where
  returned_nil: "returned out [] out"
| returned_cons: "e \<in> set out \<Longrightarrow> answers p e \<Longrightarrow> returned (remove1 e out) ps out' \<Longrightarrow> returned out (p # ps) out'"

inductive_simps returned_Nil [simp]: "returned out [] out'"

text \<open>Counting a packet down and giving its cookie back.\<close>

definition settle :: "ath6kl \<Rightarrow> cookie_ref \<Rightarrow> int \<Rightarrow> ath6kl" where
  "settle ar r ep = free_ref (ar\<lparr>tx_pending := (tx_pending ar)(ep := tx_pending ar ep - 1),
      total_tx_data_pend := (if \<not> testmode_epping ar \<and> ep \<noteq> ctrl_ep ar then total_tx_data_pend ar - 1 else total_tx_data_pend ar)\<rparr>) r"

lemma acct_settle:
  assumes a: "acct ar out lost" and m: "(r, ck) \<in> set out"
  shows "acct (settle ar r (ck_eid ck)) (remove1 (r, ck) out) lost"
proof -
  obtain xs ys where out: "out = xs @ (r, ck) # ys" "(r, ck) \<notin> set xs" using split_list_first [OF m] by blast
  have rm: "remove1 (r, ck) out = xs @ ys" using out by (simp add: remove1_append)
  have d: "pool_ok (cookie_data (settle ar r (ck_eid ck))) (data_ids ((xs @ ys) @ lost))"
  proof (cases r)
    case (DataCookie c)
    have p: "pool_ok (cookie_data ar) (data_ids (out @ lost))" using a by (simp add: acct_def)
    have "pool_ok (ath6kl_free_cookie (cookie_data ar) c) (remove1 c (data_ids (out @ lost)))"
      by (rule cookies.give_owes [OF p]) (simp add: out DataCookie)
    moreover have "cookie_data (settle ar r (ck_eid ck)) = ath6kl_free_cookie (cookie_data ar) c" by (simp add: settle_def free_ref_def DataCookie)
    ultimately show ?thesis using cookies.owes_perm [of _ "remove1 c (data_ids (out @ lost))" "data_ids ((xs @ ys) @ lost)"] by (simp add: out DataCookie)
  next
    case (CtrlCookie c)
    then show ?thesis using a out by (simp add: acct_def settle_def free_ref_def)
  qed
  have c: "pool_ok (cookie_ctrl (settle ar r (ck_eid ck))) (ctrl_ids ((xs @ ys) @ lost))"
  proof (cases r)
    case (CtrlCookie c)
    have p: "pool_ok (cookie_ctrl ar) (ctrl_ids (out @ lost))" using a by (simp add: acct_def)
    have "pool_ok (ath6kl_free_cookie (cookie_ctrl ar) c) (remove1 c (ctrl_ids (out @ lost)))"
      by (rule cookies.give_owes [OF p]) (simp add: out CtrlCookie)
    moreover have "cookie_ctrl (settle ar r (ck_eid ck)) = ath6kl_free_cookie (cookie_ctrl ar) c" by (simp add: settle_def free_ref_def CtrlCookie)
    ultimately show ?thesis using cookies.owes_perm [of _ "remove1 c (ctrl_ids (out @ lost))" "ctrl_ids ((xs @ ys) @ lost)"] by (simp add: out CtrlCookie)
  next
    case (DataCookie c)
    then show ?thesis using a out by (simp add: acct_def settle_def free_ref_def)
  qed
  have "read_cookie (settle ar r (ck_eid ck)) q = read_cookie ar q" for q
    by (cases q; cases r) (simp_all add: read_cookie_def settle_def free_ref_def ath6kl_free_cookie_def)
  moreover have "tx_pending (settle ar r (ck_eid ck)) = (tx_pending ar)(ck_eid ck := tx_pending ar (ck_eid ck) - 1)"
    "ctrl_ep (settle ar r (ck_eid ck)) = ctrl_ep ar" "eps_ok (settle ar r (ck_eid ck)) = eps_ok ar"
    "eps_ok ar \<Longrightarrow> total_tx_data_pend (settle ar r (ck_eid ck)) = (if ck_eid ck \<noteq> ctrl_ep ar then total_tx_data_pend ar - 1 else total_tx_data_pend ar)"
    by (cases r; simp add: settle_def free_ref_def eps_ok_def)+
  ultimately show ?thesis using a d c unfolding rm by (auto simp: acct_def out)
qed

lemma free_ref_cong: "acct_part a = acct_part b \<Longrightarrow> acct_part (free_ref a r) = acct_part (free_ref b r)"
  by (cases r) (simp_all add: free_ref_def acct_part_def)

lemma free_ref_keeps: "act_part (free_ref a r) = act_part a" "drv_log (free_ref a r) = drv_log a" "no_leak (free_ref a r) = no_leak a"
  "vifs (free_ref a r) = vifs a"
  by (cases r; simp add: free_ref_def act_part_def no_leak_def)+

lemma upd_vif_keeps: "acct_part (upd_vif a v f) = acct_part a" "act_part (upd_vif a v f) = act_part a" "drv_log (upd_vif a v f) = drv_log a"
  "no_leak (upd_vif a v f) = no_leak a"
  by (simp_all add: upd_vif_def acct_part_def act_part_def no_leak_def)

text \<open>What a completed packet leaves as it is.\<close>

definition bystand :: "ath6kl \<Rightarrow> ath6kl \<Rightarrow> bool" where
  "bystand ar ar' \<longleftrightarrow> act_part ar' = act_part ar \<and> drv_log ar' = drv_log ar \<and> no_leak ar' = no_leak ar
     \<and> (\<forall>v i. sta_tx (sta_list (vifs ar' v) i) = sta_tx (sta_list (vifs ar v) i))"

lemma bystand_trans: "bystand a b \<Longrightarrow> bystand b c \<Longrightarrow> bystand a c"
  by (simp add: bystand_def)

lemma bystand_refl [simp]: "bystand a a"
  by (simp add: bystand_def)

lemma bystand_anon: "bystand a b \<Longrightarrow> anon b = anon a"
  by (simp add: bystand_def anon_def)

lemma bystand_upd_vif: "(\<And>x. sta_list (f x) = sta_list x) \<Longrightarrow> bystand a b \<Longrightarrow> bystand a (upd_vif b v f)"
  by (simp add: bystand_def upd_vif_keeps) (simp add: upd_vif_def)

lemma reap_one_settles:
  assumes a: "acct ar out lost" and m: "e \<in> set out" and p: "answers p e"
  shows "\<exists>ar' rp'. reap_one ar rp p = Some (ar', rp') \<and> acct ar' (remove1 e out) lost \<and> bystand ar ar'"
proof -
  obtain r ck where e: "e = (r, ck)" by (cases e)
  obtain s where s: "ck_skb ck = Some s" using p e by (auto split: option.splits)
  have rd: "read_cookie ar r = ck" using a m e by (auto simp: acct_def)
  have q: "pkt_cntxt p = cntxt_of r" "int (endpoint_pkt p) = ck_eid ck" "endpoint_pkt p \<noteq> ENDPOINT_MAX" "\<not> (status p = 0 \<and> act_len p \<noteq> skb_len s)"
    using p e s by auto
  define ep where "ep = ck_eid ck"
  define ar1 where "ar1 = ar\<lparr>tx_pending := (tx_pending ar)(ep := tx_pending ar ep - 1)\<rparr>"
  define ar2 where "ar2 = (if testmode_epping ar1 then ar1
                            else if ep \<noteq> ctrl_ep ar1 then ar1\<lparr>total_tx_data_pend := total_tx_data_pend ar1 - 1\<rparr>
                            else ar1\<lparr>wmi_ctrl_ep_full := False\<rparr>)"
  have 2: "acct_part ar2 = acct_part (ar\<lparr>tx_pending := (tx_pending ar)(ep := tx_pending ar ep - 1),
      total_tx_data_pend := (if \<not> testmode_epping ar \<and> ep \<noteq> ctrl_ep ar then total_tx_data_pend ar - 1 else total_tx_data_pend ar)\<rparr>)"
    by (simp add: ar2_def ar1_def acct_part_def)
  have b2: "bystand ar ar2" by (simp add: ar2_def ar1_def bystand_def act_part_def no_leak_def)
  define if_idx where "if_idx = done_if_idx ar2 p"
  define vo where "vo = ath6kl_get_vif_by_index ar2 if_idx"
  define ar3 where "ar3 v = upd_vif (ar2\<lparr>tx_on_vif := tx_on_vif ar2 AND NOT (push_bit if_idx 1)\<rparr>) v (\<lambda>x. count_done x (status p) s)" for v
  define ar4 where "ar4 v = ath6kl_tx_clear_node_map (ar3 v) v ep (ck_map_no ck)" for v
  define ar5 where "ar5 v = (if ck_tag ck = ATH6KL_DATA_PKT_TAG
                                   then upd_vif (ar4 v) v (\<lambda>x. x\<lparr>data_cookie_count := data_cookie_count x - 1\<rparr>) else ar4 v)" for v
  define ar6 where "ar6 = (case vo of None \<Rightarrow> free_ref ar2 r | Some v \<Rightarrow> upd_vif (free_ref (ar5 v) r) v (\<lambda>x. x\<lparr>netq_stopped := False\<rparr>))"
  have cd: "sta_list (count_done x st t) = sta_list x" for x st t by (simp add: count_done_def)
  have p3: "acct_part (ar3 v) = acct_part ar2" for v by (simp add: ar3_def upd_vif_keeps) (simp add: acct_part_def)
  have b3: "bystand ar (ar3 v)" for v unfolding ar3_def
    by (rule bystand_upd_vif [OF cd]) (use b2 in \<open>simp add: bystand_def act_part_def no_leak_def\<close>)
  have n4: "acct_part (ar4 v) = acct_part (ar3 v)" "act_part (ar4 v) = act_part (ar3 v)" "drv_log (ar4 v) = drv_log (ar3 v)"
    "vifs (ar4 v) = vifs (ar3 v)" "no_leak (ar4 v) = no_leak (ar3 v)" for v
    unfolding ar4_def by (rule same_nodes_parts [OF clear_node_same])+
  have p5: "acct_part (ar5 v) = acct_part ar2" for v by (simp add: ar5_def upd_vif_keeps n4 p3)
  have b4: "bystand ar (ar4 v)" for v using b3 [of v] by (simp add: bystand_def n4)
  have b5: "bystand ar (ar5 v)" for v using b4 bystand_upd_vif [OF _ b4] by (simp add: ar5_def)
  have b6: "bystand ar (free_ref (ar5 v) r)" "bystand ar (free_ref ar2 r)" for v
    using b5 [of v] b2 by (simp_all add: bystand_def free_ref_keeps)
  have "acct_part (free_ref ar2 r) = acct_part (settle ar r ep)" unfolding settle_def by (rule free_ref_cong [OF 2])
  moreover have "acct_part (free_ref (ar5 v) r) = acct_part (free_ref ar2 r)" for v by (rule free_ref_cong [OF p5])
  ultimately have "acct_part ar6 = acct_part (settle ar r ep)" by (simp add: ar6_def upd_vif_keeps split: option.split)
  then have "acct ar6 (remove1 e out) lost = acct (settle ar r ep) (remove1 e out) lost" by (rule acct_cong)
  then have "acct ar6 (remove1 e out) lost" using acct_settle [OF a m [unfolded e]] e by (simp add: ep_def)
  moreover have "bystand ar ar6" unfolding ar6_def using b6 bystand_upd_vif [OF _ b6(1)] by (simp split: option.split)
  moreover have "\<exists>rp'. reap_one ar rp p = Some (ar6, rp')"
    unfolding reap_one_def q(1) cookie_of_cntxt option.case rd s q(2) Let_def ep_def [symmetric] ar1_def [symmetric] ar2_def [symmetric]
      if_idx_def [symmetric] vo_def [symmetric] ar3_def [symmetric] ar4_def [symmetric] ar5_def [symmetric]
    using q(3,4) by (cases vo) (simp_all add: ar6_def)
  ultimately show ?thesis by blast
qed

lemma reap_loop_settles:
  assumes "returned out ps out'" and "acct ar out lost"
  shows "\<exists>ar' rp'. reap_loop ar rp ps = (True, ar', rp') \<and> acct ar' out' lost \<and> bystand ar ar'"
  using assms
proof (induction arbitrary: ar rp)
  case (returned_cons e out p ps out')
  obtain ar1 rp1 where 1: "reap_one ar rp p = Some (ar1, rp1)" "acct ar1 (remove1 e out) lost" "bystand ar ar1"
    using reap_one_settles [OF returned_cons.prems returned_cons.hyps(1,2)] by blast
  obtain ar2 rp2 where "reap_loop ar1 rp1 ps = (True, ar2, rp2)" "acct ar2 out' lost" "bystand ar1 ar2"
    using returned_cons.IH [OF 1(2)] by blast
  then show ?case using 1 bystand_trans by auto
qed auto

text \<open>\<open>remarks\<close>: events that neither hand packets over nor change anything.\<close>

definition remarks :: "ath6kl \<Rightarrow> ath6kl \<Rightarrow> bool" where
  "remarks ar ar' \<longleftrightarrow> (\<exists>evs. ar' = drv_do ar evs \<and> sent evs = [])"

lemma remarks_refl [simp]: "remarks ar ar"
  by (auto simp: remarks_def drv_do_def intro: exI [of _ "[]"])

lemma remarks_do: "remarks ar a \<Longrightarrow> sent evs = [] \<Longrightarrow> remarks ar (drv_do a evs)"
proof -
  assume "remarks ar a" "sent evs = []"
  then obtain es where "a = drv_do ar es" "sent es = []" by (auto simp: remarks_def)
  then show "remarks ar (drv_do a evs)" unfolding remarks_def using \<open>sent evs = []\<close>
    by (intro exI [of _ "es @ evs"]) (simp add: drv_do_def)
qed

lemma sent_wake [simp]: "sent (map EvWakeQueue vs) = []"
  by (induction vs) auto

lemma complete_remarks:
  assumes "reap_loop ar \<lparr>rp_skbs = [], rp_eid = 0, rp_vif = None, rp_flush = (\<lambda>_. False), rp_wake = False\<rparr> ps = (True, ar1, r)"
  shows "remarks ar1 (ath6kl_tx_complete ar depth ps)"
proof -
  define a2 where "a2 = drv_do ar1 (map EvFree (rp_skbs r))"
  define a3 where "a3 = (if mcc_enabled a2 then
                         (case rp_vif r of
                            None \<Rightarrow> a2
                          | Some v \<Rightarrow> if ps \<noteq> [] \<and> \<not> rp_flush r (fw_vif_idx (vifs a2 v)) \<and> depth (rp_eid r) < ATH6KL_P2P_FLOWCTRL_REQ_STEP
                                      then drv_do a2 [EvNetifWake] else a2)
                       else drv_do a2 (map EvWakeQueue (filter (\<lambda>v. (vif_connected (vifs a2 v) \<or> testmode_epping a2)
                                                              \<and> \<not> rp_flush r (fw_vif_idx (vifs a2 v))) (vif_list a2))))"
  have 2: "remarks ar1 a2" unfolding a2_def by (rule remarks_do) simp_all
  have 3: "remarks ar1 a3" unfolding a3_def using 2 remarks_do [OF 2] by (simp split: option.split)
  have "ath6kl_tx_complete ar depth ps = (if rp_wake r then drv_do a3 [EvWakeUp] else a3)"
    unfolding ath6kl_tx_complete_def assms prod.case Let_def a2_def [symmetric] a3_def [symmetric] by simp
  then show ?thesis using 3 remarks_do [OF 3] by simp
qed

lemma remarks_step:
  assumes "remarks ar ar'"
  shows "act_part ar' = act_part ar" "acct_part ar' = acct_part ar" "no_leak ar' = no_leak ar" "vifs ar' = vifs ar"
    and "\<exists>evs. drv_log ar' = drv_log ar @ evs \<and> sent evs = []"
  using assms by (auto simp: remarks_def drv_do_def act_part_def acct_part_def no_leak_def)

section \<open>Runs\<close>

text \<open>
  One operation, with the packets that are out with HTC before and after.  Every operation has its own
  circumstances \<open>env\<close>: allocations, the time, the decisions of the flow control.
\<close>

definition handed :: "ath6kl \<Rightarrow> ath6kl \<Rightarrow> (cookie_ref \<times> ath6kl_cookie) list" where
  "handed ar ar' = sent (drop (length (drv_log ar)) (drv_log ar'))"

inductive drv_op :: "ath6kl \<times> (cookie_ref \<times> ath6kl_cookie) list \<Rightarrow> ath6kl \<times> (cookie_ref \<times> ath6kl_cookie) list \<Rightarrow> bool" where
  op_data: "ath6kl_data_tx env ar v s bypass = Some ar' \<Longrightarrow> drv_op (ar, out) (ar', out @ handed ar ar')"
| op_command: "ar' = snd (wmi_cmd can ar if_idx cmd_id body) \<Longrightarrow> drv_op (ar, out) (ar', out @ handed ar ar')"
| op_sync: "ar' = snd (ath6kl_wmi_sync_point can ar if_idx) \<Longrightarrow> drv_op (ar, out) (ar', out @ handed ar ar')"
| op_create: "ar' = snd (ath6kl_wmi_create_pstream_cmd can ar if_idx params) \<Longrightarrow> drv_op (ar, out) (ar', out @ handed ar ar')"
| op_delete: "ath6kl_wmi_delete_pstream_cmd can ar if_idx tc ts = Some (r, ar') \<Longrightarrow> drv_op (ar, out) (ar', out @ handed ar ar')"
| op_timeout: "ath6kl_wmi_pstream_timeout_event_rx can ar dat = Some (r, ar') \<Longrightarrow> drv_op (ar, out) (ar', out @ handed ar ar')"
| op_timer: "aggr_tx_timeout env ar v i k = Some ar' \<Longrightarrow> drv_op (ar, out) (ar', out @ handed ar ar')"
| op_flush: "aggr_tx_flush env ar v sta = Some ar' \<Longrightarrow> drv_op (ar, out) (ar', out @ handed ar ar')"
| op_full: "ar' = snd (ath6kl_tx_queue_full ar thr p) \<Longrightarrow> drv_op (ar, out) (ar', out @ handed ar ar')"
| op_complete: "returned out ps out' \<Longrightarrow> ar' = ath6kl_tx_complete ar depth ps \<Longrightarrow> drv_op (ar, out) (ar', out')"

text \<open>The accounting along a run: nothing is lost unless \<open>no_leak\<close> fails.\<close>

definition run_ok :: "ath6kl \<times> (cookie_ref \<times> ath6kl_cookie) list \<Rightarrow> bool" where
  "run_ok = (\<lambda>(ar, out). \<exists>lost. acct ar out lost \<and> (no_leak ar \<longrightarrow> lost = []))"

lemma drv_step_run:
  assumes "drv_step ar ar' m"
  shows "act_ok ar \<Longrightarrow> act_ok ar'" and "run_ok (ar, out) \<Longrightarrow> run_ok (ar', out @ handed ar ar')" and "no_leak ar' = no_leak ar"
proof -
  obtain evs lost where e: "drv_log ar' = drv_log ar @ evs" "no_leak ar \<longrightarrow> lost = []"
      "\<And>out l0. acct ar out l0 \<Longrightarrow> acct ar' (out @ sent evs) (l0 @ lost)"
    using assms unfolding drv_step_def by blast
  show "act_ok ar \<Longrightarrow> act_ok ar'" using assms by (simp add: drv_step_def)
  show nl: "no_leak ar' = no_leak ar" using assms by (simp add: drv_step_def)
  assume "run_ok (ar, out)"
  then obtain l0 where l0: "acct ar out l0" "no_leak ar \<longrightarrow> l0 = []" by (auto simp: run_ok_def)
  have "acct ar' (out @ handed ar ar') (l0 @ lost)" using e(3) [OF l0(1)] by (simp add: handed_def e(1))
  then show "run_ok (ar', out @ handed ar ar')" unfolding run_ok_def prod.case
    by (intro exI [of _ "l0 @ lost"]) (use l0(2) e(2) nl in simp)
qed

lemma queue_full_step: "drv_step ar (snd (ath6kl_tx_queue_full ar thr p)) {#}"
proof -
  have stop: "drv_step a (stop_netq a v) {#}" for a v
  proof -
    have "drv_step a (upd_vif a v (\<lambda>x. x\<lparr>netq_stopped := True\<rparr>)) {#}" by (rule upd_vif_drv_step) simp
    from drv_step_trans0 [OF this op_drv_step [OF op_step_event [of "EvStopQueue v"]]] show ?thesis by (simp add: stop_netq_def)
  qed
  have many: "drv_step a (fold (\<lambda>v a. if P v a then stop_netq a v else a) vs a) {#}" for P vs a
  proof (induction vs arbitrary: a)
    case (Cons v vs)
    have "drv_step a (if P v a then stop_netq a v else a) {#}" using stop op_drv_step [OF op_step_refl] by simp
    from drv_step_trans0 [OF this Cons.IH] show ?case by simp
  qed (simp add: op_drv_step)
  have trap: "drv_step ar (drv_do (ar\<lparr>wmi_ctrl_ep_full := True\<rparr>) [EvCrashTrap]) {#}"
  proof -
    have "drv_step ar (ar\<lparr>wmi_ctrl_ep_full := True\<rparr>) {#}"
      by (rule drv_step_quiet) (simp_all add: acct_part_def act_part_def no_leak_def anon_def)
    from drv_step_trans0 [OF this op_drv_step [OF op_step_event [of EvCrashTrap]]] show ?thesis by simp
  qed
  show ?thesis
    using trap many [of _ "\<lambda>_ _. True"] many op_drv_step [OF op_step_refl [of ar]]
    by (auto simp: ath6kl_tx_queue_full_def Let_def stop_netqs_def)
qed

lemma complete_run:
  assumes "returned out ps out'" and "acct ar out lost"
  shows "acct (ath6kl_tx_complete ar depth ps) out' lost" and "no_leak (ath6kl_tx_complete ar depth ps) = no_leak ar"
    and "act_ok (ath6kl_tx_complete ar depth ps) = act_ok ar"
proof -
  obtain a r where l: "reap_loop ar \<lparr>rp_skbs = [], rp_eid = 0, rp_vif = None, rp_flush = (\<lambda>_. False), rp_wake = False\<rparr> ps = (True, a, r)"
      "acct a out' lost" "bystand ar a"
    using reap_loop_settles [OF assms] by blast
  note N = remarks_step [OF complete_remarks [OF l(1), of depth]]
  show "acct (ath6kl_tx_complete ar depth ps) out' lost" using l(2) acct_cong [OF N(2)] by simp
  show "no_leak (ath6kl_tx_complete ar depth ps) = no_leak ar" using N(3) l(3) by (simp add: bystand_def)
  show "act_ok (ath6kl_tx_complete ar depth ps) = act_ok ar" using act_cong [OF N(1)] act_cong [of a ar] l(3) by (simp add: bystand_def)
qed

lemma drv_op_keeps:
  assumes "drv_op c c'"
  shows "run_ok c \<Longrightarrow> run_ok c'" and "run_ok c \<Longrightarrow> act_ok (fst c) \<Longrightarrow> act_ok (fst c')" and "run_ok c \<Longrightarrow> no_leak (fst c') = no_leak (fst c)"
proof -
  have K: "(run_ok c \<longrightarrow> run_ok c') \<and> (run_ok c \<longrightarrow> act_ok (fst c) \<longrightarrow> act_ok (fst c')) \<and> (run_ok c \<longrightarrow> no_leak (fst c') = no_leak (fst c))"
    using assms
  proof cases
    case (op_complete out ps out' ar' ar depth)
    show ?thesis
    proof (intro conjI impI)
      assume "run_ok c"
      then obtain l0 where l0: "acct ar out l0" "no_leak ar \<longrightarrow> l0 = []" using op_complete by (auto simp: run_ok_def)
      note C = complete_run [OF op_complete(3) l0(1), of depth]
      show "run_ok c'" using C l0(2) op_complete by (auto simp: run_ok_def)
      show "no_leak (fst c') = no_leak (fst c)" using C op_complete by simp
      show "act_ok (fst c')" if "act_ok (fst c)" using C that op_complete by simp
    qed
  next
    case (op_data env ar v s bypass ar' out)
    obtain m where "drv_step ar ar' m" using data_tx_effect [OF op_data(3)] by blast
    from drv_step_run [OF this] show ?thesis unfolding op_data(1,2) fst_conv by blast
  next
    case (op_command ar' can ar if_idx cmd_id body out)
    from drv_step_run [OF op_drv_step [OF ctl_op_step [OF wmi_cmd_step]]] show ?thesis unfolding op_command fst_conv by blast
  next
    case (op_sync ar' can ar if_idx out)
    from drv_step_run [OF op_drv_step [OF ctl_op_step [OF sync_point_step]]] show ?thesis unfolding op_sync fst_conv by blast
  next
    case (op_create ar' can ar if_idx params out)
    from drv_step_run [OF op_drv_step [OF create_pstream_step]] show ?thesis unfolding op_create fst_conv by blast
  next
    case (op_delete can ar if_idx tc ts r ar' out)
    from drv_step_run [OF op_drv_step [OF delete_pstream_step [OF op_delete(3)]]] show ?thesis unfolding op_delete(1,2) fst_conv by blast
  next
    case (op_timeout can ar dat r ar' out)
    from drv_step_run [OF op_drv_step [OF pstream_timeout_step [OF op_timeout(3)]]] show ?thesis unfolding op_timeout(1,2) fst_conv by blast
  next
    case (op_timer env ar v i k ar' out)
    then obtain q where "aggr_tx_tid env ar v i k False = Some (q, ar')" by (auto simp: aggr_tx_timeout_def)
    from drv_step_run [OF op_drv_step [OF aggr_tx_tid_step [OF this]]] show ?thesis unfolding op_timer(1,2) fst_conv by blast
  next
    case (op_flush env ar v sta ar' out)
    from drv_step_run [OF op_drv_step [OF aggr_tx_flush_step [OF op_flush(3)]]] show ?thesis unfolding op_flush(1,2) fst_conv by blast
  next
    case (op_full ar' ar thr p out)
    from drv_step_run [OF queue_full_step] show ?thesis unfolding op_full fst_conv by blast
  qed
  then show "run_ok c \<Longrightarrow> run_ok c'" and "run_ok c \<Longrightarrow> act_ok (fst c) \<Longrightarrow> act_ok (fst c')" and "run_ok c \<Longrightarrow> no_leak (fst c') = no_leak (fst c)"
    by blast+
qed

interpretation drv_machine: step_relation drv_op "\<lambda>c. run_ok c \<and> (a \<longrightarrow> act_ok (fst c)) \<and> no_leak (fst c) = l" for a l
  by unfold_locales (use drv_op_keeps in blast)

lemma drv_run_keeps:
  assumes "drv_op\<^sup>*\<^sup>* c c'" and "run_ok c"
  shows "run_ok c' \<and> (act_ok (fst c) \<longrightarrow> act_ok (fst c')) \<and> no_leak (fst c') = no_leak (fst c)"
  using drv_machine.steps_keep [OF assms(1), of "act_ok (fst c)" "no_leak (fst c)"] assms(2) by simp

section \<open>A transmit request returns\<close>

text \<open>
  Every endpoint the driver may choose is one of the array, and the independent network does not use
  power save: its table may run full, which the code does not notice.
\<close>

definition valid_eps :: "ath6kl \<Rightarrow> bool" where
  "valid_eps ar \<longleftrightarrow> \<not> ibss_ps_enable ar \<and> ep_ok (ctrl_ep ar)
     \<and> (\<forall>ac. ac2ep_map ar ac = 0 \<or> ac2ep_map ar ac = ENDPOINT_UNUSED \<or> ep_ok (ac2ep_map ar ac))"

lemma valid_eps_core: "op_core ar' = op_core ar \<Longrightarrow> valid_eps ar' = valid_eps ar"
  unfolding valid_eps_def using op_core_env(1) [of ar' ar] op_core_simps(8,10) [of ar' ar] by metis

lemma data_send_returns:
  assumes v: "valid_eps ar" and p: "\<not> by_peer"
  shows "data_send env ar w s ac tg by_peer \<noteq> None"
proof -
  have ok: "ep_ok ep" if "data_endpoint ar s ac by_peer = (Some ep, m, a)" for ep m a
    using that p v by (auto simp: data_endpoint_def valid_eps_def split: if_splits)
  then show ?thesis by (auto simp: data_send_def Let_def split: option.split prod.split)
qed

lemma aggr_tx_tid_returns:
  assumes v: "valid_eps ar" shows "aggr_tx_tid env ar w i k stop \<noteq> None"
proof -
  have "ac2ep_map (upd_txtid ar w i k a t) = ac2ep_map ar" for a t by (simp add: upd_txtid_def upd_vif_def)
  then show ?thesis using v by (auto simp: aggr_tx_tid_def Let_def valid_eps_def split: option.split prod.split)
qed

lemma flush_tids_returns: "valid_eps ar \<Longrightarrow> flush_tids env ar w i ks \<noteq> None"
proof (induction ks arbitrary: ar)
  case (Cons k ks)
  have "aggr_tx_tid env ar w i k True \<noteq> None" by (rule aggr_tx_tid_returns [OF Cons.prems])
  then obtain q a where t: "aggr_tx_tid env ar w i k True = Some (q, a)" by auto
  have "valid_eps a" using valid_eps_core [OF op_step_core [OF aggr_tx_tid_step [OF t]]] Cons.prems by simp
  then show ?case using t Cons.IH by simp
qed simp

lemma op_step_nw_type: "op_step ar ar' m \<Longrightarrow> nw_type (vifs ar' w) = nw_type (vifs ar w)"
  by (rule vif_core_simps(2) [OF op_core_simps(1) [OF op_step_core]])

lemma data_aggr_returns:
  assumes v: "valid_eps ar" and p: "\<not> by_peer"
  shows "data_aggr env ar w sta bypass s ac tg by_peer \<noteq> None"
proof -
  obtain st so ar1 where a: "aggr_tx env ar w sta s = (st, so, ar1)" by (cases "aggr_tx env ar w sta s")
  have so: "so \<noteq> None" if "st \<noteq> AGGR_TX_OK" "st \<noteq> AGGR_TX_DROP" by (rule aggr_tx_step(4) [OF a that])
  have n: "nw_type (vifs ar1 w) = nw_type (vifs ar w)" and v1: "valid_eps ar1" if "st \<noteq> AGGR_TX_OK" "st \<noteq> AGGR_TX_DROP"
  proof -
    have "so \<noteq> None" by (rule so [OF that])
    then obtain s1 where "so = Some s1" by auto
    from aggr_tx_step(3) [OF a that this] obtain m where "op_step ar ar1 m" by (auto simp: moves_def)
    then show "nw_type (vifs ar1 w) = nw_type (vifs ar w)" "valid_eps ar1"
      using op_step_nw_type valid_eps_core [OF op_step_core] v by blast+
  qed
  have f: "\<exists>a. aggr_tx_flush env ar1 w sta = Some a \<and> valid_eps a"
    if "st \<noteq> AGGR_TX_OK" "st \<noteq> AGGR_TX_DROP" "nw_type (vifs ar w) = INFRA_NETWORK \<or> nw_type (vifs ar w) = AP_NETWORK"
  proof -
    have "aggr_tx_flush env ar1 w sta \<noteq> None"
      using flush_tids_returns [OF v1 [OF that(1,2)]] n [OF that(1,2)] that(3) by (auto simp: aggr_tx_flush_def split: option.split)
    then obtain a where a: "aggr_tx_flush env ar1 w sta = Some a" by blast
    then show ?thesis using valid_eps_core [OF op_step_core [OF aggr_tx_flush_step [OF a]]] v1 [OF that(1,2)] by simp
  qed
  show ?thesis
  proof (cases "amsdu_enabled (vifs ar w) \<and> \<not> bypass \<and> tx_amsdu_enable (aggr_cntxt (vifs ar w)) \<and> \<not> by_peer
    \<and> (nw_type (vifs ar w) = INFRA_NETWORK \<or> nw_type (vifs ar w) = AP_NETWORK)")
    case False
    then show ?thesis using data_send_returns [OF v p] by (auto simp: data_aggr_def Let_def)
  next
    case True
    show ?thesis
    proof (cases "st = AGGR_TX_OK \<or> st = AGGR_TX_DROP")
      case False
      then obtain s1 a2 where "so = Some s1" "aggr_tx_flush env ar1 w sta = Some a2" "valid_eps a2" using so f True by auto
      then show ?thesis using True a False data_send_returns [OF _ p] v1 by (simp add: data_aggr_def Let_def)
    qed (use True a in \<open>auto simp: data_aggr_def Let_def\<close>)
  qed
qed

lemma data_out_returns:
  assumes v: "valid_eps ar"
  shows "data_out env ar w sta bypass s fl \<noteq> None"
proof -
  obtain res ar1 where e: "data_encap env ar w s fl = (res, ar1)" by (cases "data_encap env ar w s fl")
  note E = encap_step [OF e]
  show ?thesis
  proof (cases res)
    case (Inr z)
    obtain s1 ac tg by_peer where z: "z = (s1, ac, tg, by_peer)" by (cases z)
    obtain m where m: "op_step ar ar1 m" using E Inr z by (auto simp: moves_def)
    have v1: "valid_eps ar1" using valid_eps_core [OF op_step_core [OF m]] v by simp
    have p: "\<not> by_peer" using E Inr z v1 by (auto simp: valid_eps_def)
    define ar2 where "ar2 = (if vif_connected (vifs ar1 w) \<and> skb_protocol s1 = ETH_P_PAE then ath6kl_eapol_handshake_protect env ar1 w else ar1)"
    have 2: "op_step ar1 ar2 {#}" by (simp add: ar2_def eapol_protect_step)
    have "valid_eps ar2" using valid_eps_core [OF op_step_core [OF 2]] v1 by simp
    from data_aggr_returns [OF this p] show ?thesis using e Inr z by (simp add: data_out_def Let_def ar2_def)
  qed (use e in \<open>simp add: data_out_def\<close>)
qed

lemma data_tx_returns:
  assumes v: "valid_eps ar"
  shows "ath6kl_data_tx env ar w s bypass \<noteq> None"
proof -
  obtain ok ar1 s1 where m: "moves ar s ar1 s1" and E: "ath6kl_data_tx env ar w s bypass =
      (if \<not> vif_connected (vifs ar w) \<and> \<not> testmode_epping ar then Some (drv_do ar [EvFree s])
       else if \<not> wmi_ready ar \<and> \<not> testmode_epping ar then Some (fail_tx ar w s)
       else if \<not> ok then Some (fail_tx ar1 w s1)
       else if nw_type (vifs ar w) = AP_NETWORK
       then (case ath6kl_powersave_ap env ar1 w s1 0 of (kept, fl, sta, ar2) \<Rightarrow> if kept then Some ar2 else data_out env ar2 w sta bypass s1 fl)
       else data_out env ar1 w None bypass s1 0)"
    by (rule data_tx_shape [of ar s env w]) blast
  obtain n where "op_step ar ar1 n" using m by (auto simp: moves_def)
  then have v1: "valid_eps ar1" using valid_eps_core [OF op_step_core] v by blast
  obtain kept fl sta ar2 where p: "ath6kl_powersave_ap env ar1 w s1 0 = (kept, fl, sta, ar2)" by (cases "ath6kl_powersave_ap env ar1 w s1 0")
  have k: "ar2 = ar1" if "\<not> kept" using powersave_effect [OF p] that by simp
  show ?thesis unfolding E p prod.case using data_out_returns [OF v1] k by auto
qed

section \<open>A driver to run\<close>

definition fresh_pool :: "cookie_type \<Rightarrow> nat \<Rightarrow> cookie_pool" where
  "fresh_pool ty n = snd (ath6kl_cookie_pool_init True (\<lambda>_. True) zero_pool ty n)"

text \<open>A station that is connected, with four cookies of each kind, commands on endpoint 1 and data on 2 to 5.\<close>

definition ex_driver :: ath6kl where
  "ex_driver = \<lparr>wmi_ready = True, wmi_enabled = True, wmi_ctrl_ep_full = False, testmode_epping = False, mcc_enabled = False,
     eapol_protect = False, conf_skb_dup = False, conf_flowctrl = False, conf_no_rx_drop = False, skip_flowctrl_event = False, low_cpu_power_tx_bundle_max = 1, buf_headroom = 64,
     drv_p2p = False, p2p_frame_retry = False, go_noa = (\<lambda>_. None), cookie_data = fresh_pool COOKIE_TYPE_DATA 4,
     cookie_ctrl = fresh_pool COOKIE_TYPE_CTRL 4, tx_pending = (\<lambda>_. 0), total_tx_data_pend = 0, ctrl_ep = 1,
     ac2ep_map = (\<lambda>ac. if ac < 4 then int ac + 2 else 0), ep2ac_map = (\<lambda>ep. nat (ep - 2)), ac_stream_active = (\<lambda>_. False),
     ac_stream_pri_map = (\<lambda>ac. if ac = WMM_AC_BK then 0 else if ac = WMM_AC_BE then 1 else ac), hiac_stream_active_pri = 0, ac_stream_active_num = 0, node_map = (\<lambda>_. zero_node), node_num = 0, next_ep_id = 2,
     ibss_ps_enable = False, tx_on_vif = 0, eapol_shprotect_vif = 0, vif_max = 1,
     vifs = (\<lambda>_. ex_vif\<lparr>nw_type := INFRA_NETWORK, vif_connected := True\<rparr>), vif_list = [0], scan_req = (\<lambda>_. False),
     drv_wmi = \<lparr>stream_exist_for_ac = (\<lambda>_. 0), fat_pipe_exist = 0, wmi_ep_id = 1, wmi_traffic_class = 0, mgmt_tx_frame_list = []\<rparr>,
     n_allocs = 0, drv_log = []\<rparr>"

definition ex_env :: tx_env where
  "ex_env = \<lparr>te_can = (\<lambda>_. True), te_hz = 100, te_now = 0, te_sched = (\<lambda>_. 1)\<rparr>"

definition ex_frame :: skb where
  "ex_frame = \<lparr>skb_id = Some 7, skb_mem = write_bytes (\<lambda>_. 0) 0 ([2,0,0,0,0,1, 2,0,0,0,0,2, 8,0, 0x45,0] @ replicate 18 0), skb_ptr = 0,
     skb_len = 34, skb_head = -64, skb_protocol = 0x0008, skb_cloned = False\<rparr>"

lemma fresh_pool_ok: "pool_ok (fresh_pool ty n) []" "cookie_num (fresh_pool ty n) = n"
  using pool_init_ok [of True n "\<lambda>_. True" zero_pool ty] by (auto simp: fresh_pool_def)

lemma ex_driver_ok: "acct ex_driver [] []" "act_ok ex_driver" "anon ex_driver" "valid_eps ex_driver" "no_leak ex_driver" "run_ok (ex_driver, [])"
proof -
  show a: "acct ex_driver [] []" by (simp add: acct_def ex_driver_def fresh_pool_ok)
  show "act_ok ex_driver" by (simp add: act_ok_def ex_driver_def active_acs_def)
  show "anon ex_driver" by (simp add: anon_def ex_driver_def ex_vif_def blank_sta_def aggr_init_conn_def blank_txtid_def)
  show "valid_eps ex_driver" by (simp add: valid_eps_def ex_driver_def ep_ok_def ENDPOINT_MAX_def)
  show "no_leak ex_driver" by (simp add: no_leak_def ex_driver_def)
  show "run_ok (ex_driver, [])" using a by (auto simp: run_ok_def)
qed

section \<open>Properties\<close>

text \<open>
  Property C2.  A transmit request returns, and the frame given to it ends in one place: handed over or
  freed, once, in the log, or (it or its copy) as the last frame of one power-save queue, while all
  other queues stay as they are.
\<close>

theorem data_tx_once:
  assumes "anon ar" and "valid_eps ar"
  shows "\<exists>ar' evs q. ath6kl_data_tx env ar v s bypass = Some ar' \<and> drv_log ar' = drv_log ar @ evs
    \<and> queued_as ar ar' q \<and> frames_of evs + queued_ids q = id_ms s"
proof -
  obtain ar' where r: "ath6kl_data_tx env ar v s bypass = Some ar'" using data_tx_returns [OF assms(2)] by blast
  obtain q m where q: "drv_step ar ar' m" "queued_as ar ar' q" "anon ar \<longrightarrow> m + queued_ids q = id_ms s"
    using data_tx_effect [OF r] by blast
  obtain evs where "drv_log ar' = drv_log ar @ evs" "anon ar \<longrightarrow> frames_of evs = m" using q(1) unfolding drv_step_def by blast
  then show ?thesis using r q assms(1) by blast
qed

lemma data_tx_once_witness:
  "\<exists>ar' evs q. ath6kl_data_tx ex_env ex_driver 0 ex_frame False = Some ar' \<and> drv_log ar' = evs
    \<and> queued_as ex_driver ar' q \<and> frames_of evs + queued_ids q = {#7#}"
proof -
  have "drv_log ex_driver = []" "id_ms ex_frame = {#7#}" by (simp_all add: ex_driver_def ex_frame_def id_ms_def)
  then show ?thesis using data_tx_once [OF ex_driver_ok(3,4), of ex_env 0 ex_frame False] by simp
qed






text \<open>
  A change of the WMM schedule is not among the operations of a run: it swaps the priorities of the
  access categories and leaves the highest active priority as it was.
\<close>

lemma schedule_change_stale:
  assumes "active_acs ar = {WMM_AC_VI}" and "hiac_stream_active_pri ar = 2"
  shows "scan_hiac (ath6kl_indicate_wmm_schedule_change ar True True) = 1 \<and> hiac_stream_active_pri (ath6kl_indicate_wmm_schedule_change ar True True) = 2"
proof -
  have "active_acs (ath6kl_indicate_wmm_schedule_change ar True True) = {WMM_AC_VI}"
    using assms(1) by (simp add: ath6kl_indicate_wmm_schedule_change_def active_acs_def)
  moreover have "ac_stream_pri_map (ath6kl_indicate_wmm_schedule_change ar True True) WMM_AC_VI = 1"
    and "hiac_stream_active_pri (ath6kl_indicate_wmm_schedule_change ar True True) = 2"
    using assms(2) by (simp_all add: ath6kl_indicate_wmm_schedule_change_def)
  ultimately show ?thesis by (simp add: scan_hiac_Max)
qed

end
