(* ===== verification/ApPowerInv.thy ===== *)
theory ApPowerInv
  imports ApPowerSave DriverRun
begin

text \<open>
  Delivery to stations that slept comes to an end: the loops that empty the queues of a station that
  wakes up, the queue of multicast frames at a DTIM, and the service period of a station with u-APSD.
  Each is proved apart from the frames it delivers, by the length of the queues.
\<close>

section \<open>Management frames\<close>

lemma wmi_mgmt_step:
  assumes "\<And>w. wmi_core (f w) = wmi_core w" "\<And>w. stream_exist_for_ac (f w) = stream_exist_for_ac w" "\<And>w. fat_pipe_exist (f w) = fat_pipe_exist w"
  shows "op_step ar (upd_wmi ar f) {#}"
  by (rule wmi_upd_step) (use assms in \<open>auto simp: act_ok_def\<close>)

lemma send_action_step: "op_step ar (snd (ath6kl_wmi_send_action_cmd can ar if_idx fid freq wt dat)) {#}"
proof (cases "wt \<noteq> 0")
  case True
  then show ?thesis by (simp add: ath6kl_wmi_send_action_cmd_def)
next
  case False
  define keep where "keep = (drv_p2p ar \<and> ieee80211_is_action dat)"
  obtain ok1 ar1 where a1: "(if keep then drv_alloc can ar else (True, ar)) = (ok1, ar1)" by (cases "if keep then drv_alloc can ar else (True, ar)")
  obtain ok2 ar2 where a2: "(if keep \<and> ok1 then drv_alloc can ar1 else (ok1, ar1)) = (ok2, ar2)"
    by (cases "if keep \<and> ok1 then drv_alloc can ar1 else (ok1, ar1)")
  have 1: "op_step ar ar1 {#}" using a1 op_alloc_step by (auto split: if_splits)
  have 2: "op_step ar1 ar2 {#}" using a2 op_alloc_step by (auto split: if_splits)
  define fr where "fr = \<lparr>mgmt_vif = ath6kl_get_vif_by_index ar2 if_idx, mgmt_frame = dat, mgmt_idx = fid, mgmt_freq = freq,
                       mgmt_retry = (if ath6kl_p2p_frame_retry ar2 (drop 24 dat) then WMI_TX_MGMT_RETRY_MAX else 0)\<rparr>"
  define ar3 where "ar3 = (if keep then upd_wmi ar2 (\<lambda>w. w\<lparr>mgmt_tx_frame_list := mgmt_tx_frame_list w @ [fr]\<rparr>) else ar2)"
  have 3: "op_step ar2 ar3 {#}" unfolding ar3_def using wmi_mgmt_step by (simp add: wmi_core_def)
  define body where "body = le32_bytes fid @ le32_bytes freq @ le32_bytes wt @ le16_bytes (of_nat (length dat)) @ dat"
  obtain so ar4 where b: "ath6kl_wmi_get_new_buf can ar3 (length body) = (so, ar4)" by (cases "ath6kl_wmi_get_new_buf can ar3 (length body)")
  have 4: "op_step ar3 ar4 {#}" using new_buf_step [OF b] ctl_op_step by blast
  have 24: "op_step ar ar2 {#}" "op_step ar ar4 {#}" using op_step_trans0 [OF 1 2] op_step_trans0 [OF op_step_trans0 [OF 1 2] op_step_trans0 [OF 3 4]] by simp_all
  define ar5 where "ar5 = (if keep then upd_wmi ar4 (\<lambda>w. w\<lparr>mgmt_tx_frame_list := butlast (mgmt_tx_frame_list w)\<rparr>) else ar4)"
  have 5: "op_step ar4 ar5 {#}" unfolding ar5_def using wmi_mgmt_step by (simp add: wmi_core_def)
  have E: "snd (ath6kl_wmi_send_action_cmd can ar if_idx fid freq wt dat) = (if \<not> ok2 then ar2 else case so of None \<Rightarrow> ar5
      | Some s \<Rightarrow> snd (ath6kl_wmi_cmd_send can ar4 if_idx (skb_store s 0 body) WMI_SEND_ACTION_CMDID NO_SYNC_WMIFLAG))"
    unfolding ath6kl_wmi_send_action_cmd_def Let_def keep_def [symmetric] a1 prod.case a2 fr_def [symmetric] ar3_def [symmetric]
      body_def [symmetric] b ar5_def [symmetric]
    using False by (simp split: option.split)
  show ?thesis
  proof (cases so)
    case None
    then show ?thesis unfolding E using 24(1) op_step_trans0 [OF 24(2) 5] by simp
  next
    case (Some s)
    have i: "id_ms (skb_store s 0 body) = {#}" using new_buf_step [OF b] Some by simp
    from op_step_trans0 [OF 24(2) ctl_op_step [OF cmd_send_step [of ar4 can if_idx "skb_store s 0 body" WMI_SEND_ACTION_CMDID NO_SYNC_WMIFLAG, unfolded i]]]
    show ?thesis unfolding E using 24(1) Some by simp
  qed
qed

lemma go_probe_step: "op_step ar (snd (ath6kl_wmi_send_go_probe_response_cmd can ar v fr freq)) {#}"
proof -
  obtain ok1 ar1 where a1: "drv_alloc can ar = (ok1, ar1)" by (cases "drv_alloc can ar")
  obtain ok2 ar2 where a2: "drv_alloc can ar1 = (ok2, ar2)" by (cases "drv_alloc can ar1")
  obtain p w where ie: "vendor_ies (drop 36 fr) = (p, w)" by (cases "vendor_ies (drop 36 fr)")
  obtain p1 ar3 where u: "ath6kl_p2p_ps_user_app_ie can ar2 v p = (p1, ar3)" by (cases "ath6kl_p2p_ps_user_app_ie can ar2 v p")
  obtain ok3 ar4 where a3: "(if w \<noteq> [] then drv_alloc can ar3 else (True, ar3)) = (ok3, ar4)" by (cases "if w \<noteq> [] then drv_alloc can ar3 else (True, ar3)")
  have 1: "op_step ar ar1 {#}" and 2: "op_step ar1 ar2 {#}" using op_alloc_step a1 a2 by blast+
  have 3: "op_step ar2 ar3 {#}" using u op_alloc_step by (auto simp: ath6kl_p2p_ps_user_app_ie_def split: option.splits if_splits prod.splits)
  have 4: "op_step ar3 ar4 {#}" using a3 op_alloc_step by (auto split: if_splits)
  have 12: "op_step ar ar2 {#}" by (rule op_step_trans0 [OF 1 2])
  have 14: "op_step ar ar4 {#}" by (rule op_step_trans0 [OF op_step_trans0 [OF 12 3] 4])
  have 5: "op_step ar (snd (ath6kl_wmi_send_probe_response_cmd can ar4 n freq d b)) {#}" for n d b
    unfolding ath6kl_wmi_send_probe_response_cmd_def by (rule op_step_trans0 [OF 14 ctl_op_step [OF wmi_cmd_step]])
  show ?thesis unfolding ath6kl_wmi_send_go_probe_response_cmd_def a1 prod.case a2 ie u a3 Let_def using 1 12 14 5 by simp
qed

lemma send_mgmt_step: "op_step ar (send_mgmt can ar v d) {#}"
  using go_probe_step send_action_step by (simp add: send_mgmt_def)

section \<open>Frames that are not held back\<close>

definition not_held :: "ath6kl \<Rightarrow> nat \<Rightarrow> skb \<Rightarrow> bool" where
  "not_held ar v s \<longleftrightarrow>
     (if is_multicast_ether_addr (skb_range s 0 6) then \<not> some_asleep (vifs ar v) \<or> dtim_expired (vifs ar v)
      else case ath6kl_find_sta (vifs ar v) (skb_range s 0 6) of None \<Rightarrow> False
        | Some i \<Rightarrow> \<not> has_flag (sta_flags (conn_of ar v i)) STA_PS_SLEEP \<or> has_flag (sta_flags (conn_of ar v i)) STA_PS_POLLED
            \<or> has_flag (sta_flags (conn_of ar v i)) STA_PS_APSD_TRIGGER)"

lemma not_held_powersave:
  assumes "not_held ar v s" shows "\<exists>fl' sta. ath6kl_powersave_ap env ar v s fl = (False, fl', sta, ar)"
  using assms
  by (auto simp: not_held_def ath6kl_powersave_ap_def powersave_ap_tx_multicast_def powersave_ap_tx_unicast_def conn_of_def Let_def
      split: if_splits option.splits)

text \<open>Such a frame is handed over or freed at once.\<close>

lemma data_tx_direct:
  assumes v: "valid_eps ar" and h: "not_held ar w s"
  shows "\<exists>ar'. ath6kl_data_tx env ar w s bypass = Some ar' \<and> op_step ar ar' (id_ms s)"
proof -
  obtain ok ar1 s1 where m: "moves ar s ar1 s1" and same: "vifs ar1 = vifs ar" "skb_mem s1 = skb_mem s" "skb_ptr s1 = skb_ptr s"
    and E: "ath6kl_data_tx env ar w s bypass =
      (if \<not> vif_connected (vifs ar w) \<and> \<not> testmode_epping ar then Some (drv_do ar [EvFree s])
       else if \<not> wmi_ready ar \<and> \<not> testmode_epping ar then Some (fail_tx ar w s)
       else if \<not> ok then Some (fail_tx ar1 w s1)
       else if nw_type (vifs ar w) = AP_NETWORK
       then (case ath6kl_powersave_ap env ar1 w s1 0 of (kept, fl, sta, ar2) \<Rightarrow> if kept then Some ar2 else data_out env ar2 w sta bypass s1 fl)
       else data_out env ar1 w None bypass s1 0)"
    by (rule data_tx_shape [of ar s env w]) blast
  have "skb_range s1 0 6 = skb_range s 0 6" using same by (simp add: skb_range_def)
  then have "not_held ar1 w s1 = not_held ar w s" using same(1) by (simp add: not_held_def conn_of_def cong: option.case_cong)
  then have "not_held ar1 w s1" using h by simp
  then obtain fl sta where p: "ath6kl_powersave_ap env ar1 w s1 0 = (False, fl, sta, ar1)" using not_held_powersave by blast
  obtain ar' where r: "ath6kl_data_tx env ar w s bypass = Some ar'" using data_tx_returns [OF v] by blast
  have f: "op_step ar (fail_tx ar1 w s1) (id_ms s)" by (rule moves_then [OF m fail_tx_step])
  have o: "op_step ar ar' (id_ms s)" if "data_out env ar1 w sta' bypass s1 fl' = Some ar'" for sta' fl'
    by (rule moves_then [OF m data_out_step [OF that]])
  have "op_step ar ar' (id_ms s)" using r [unfolded E p prod.case if_False] f o op_free1_step [of ar s] fail_tx_step [of ar w s]
    by (auto split: if_splits)
  then show ?thesis using r by blast
qed

section \<open>What delivery leaves alone\<close>

text \<open>The stations of an interface: addresses, modes and the queues other than the one that is emptied.\<close>

definition same_peers :: "nat \<Rightarrow> ath6kl \<Rightarrow> ath6kl \<Rightarrow> bool" where
  "same_peers v ar ar' \<longleftrightarrow> nw_type (vifs ar' v) = nw_type (vifs ar v) \<and> valid_eps ar' = valid_eps ar
     \<and> (\<forall>j. sta_mac (conn_of ar' v j) = sta_mac (conn_of ar v j) \<and> sta_flags (conn_of ar' v j) = sta_flags (conn_of ar v j))
     \<and> dtim_expired (vifs ar' v) = dtim_expired (vifs ar v) \<and> (anon ar \<longrightarrow> anon ar')"

lemma same_peers_refl [simp]: "same_peers v ar ar"
  by (simp add: same_peers_def)

lemma same_peers_trans: "same_peers v a b \<Longrightarrow> same_peers v b c \<Longrightarrow> same_peers v a c"
  by (simp add: same_peers_def)

lemma op_core_conn: "op_core ar' = op_core ar \<Longrightarrow> sta_core (conn_of ar' v i) = sta_core (conn_of ar v i)"
  unfolding conn_of_def by (rule vif_core_simps(7) [OF op_core_simps(1)])

lemma op_step_queues:
  assumes "op_step ar ar' m"
  shows "psq_data (conn_of ar' v i) = psq_data (conn_of ar v i)" "psq_mgmt (conn_of ar' v i) = psq_mgmt (conn_of ar v i)"
    "psq_mcast (vifs ar' v) = psq_mcast (vifs ar v)"
proof -
  note c = op_core_conn [OF op_step_core [OF assms], of v i]
  show "psq_data (conn_of ar' v i) = psq_data (conn_of ar v i)" "psq_mgmt (conn_of ar' v i) = psq_mgmt (conn_of ar v i)"
    by (rule sta_core_simps [OF c])+
  show "psq_mcast (vifs ar' v) = psq_mcast (vifs ar v)" by (rule vif_core_simps [OF op_core_simps(1) [OF op_step_core [OF assms]]])
qed

lemma op_step_peers: "op_step ar ar' m \<Longrightarrow> same_peers v ar ar'"
proof -
  assume o: "op_step ar ar' m"
  note c = op_core_conn [OF op_step_core [OF o], of v]
  have "sta_mac (conn_of ar' v j) = sta_mac (conn_of ar v j)" "sta_flags (conn_of ar' v j) = sta_flags (conn_of ar v j)" for j
    by (rule sta_core_simps [OF c])+
  moreover have "dtim_expired (vifs ar' v) = dtim_expired (vifs ar v)" by (rule vif_core_simps [OF op_core_simps(1) [OF op_step_core [OF o]]])
  ultimately show ?thesis using op_step_nw_type [OF o] valid_eps_core [OF op_step_core [OF o]] op_step_anon [OF o] by (simp add: same_peers_def)
qed

lemma set_queue_fields:
  "conn_of (set_dataq ar v i q) v j = (if j = i then (conn_of ar v i)\<lparr>psq_data := q\<rparr> else conn_of ar v j)"
  "conn_of (set_mgmtq ar v i q) v j = (if j = i then (conn_of ar v i)\<lparr>psq_mgmt := q\<rparr> else conn_of ar v j)"
  "drv_log (set_dataq ar v i q) = drv_log ar" "drv_log (set_mgmtq ar v i q) = drv_log ar" "drv_log (set_mcastq ar v q) = drv_log ar"
  by (simp_all add: set_dataq_def set_mgmtq_def set_mcastq_def conn_of_def upd_conn_def upd_vif_def upd_sta_def)

lemma set_queue_peers: "same_peers v ar (set_dataq ar v i q)" "same_peers v ar (set_mgmtq ar v i q)" "same_peers v ar (set_mcastq ar v q)"
  by (simp_all add: same_peers_def set_dataq_def set_mgmtq_def set_mcastq_def conn_of_def upd_conn_def upd_vif_def upd_sta_def valid_eps_def anon_def)

lemma find_sta_peers: "same_peers v ar ar' \<Longrightarrow> ath6kl_find_sta (vifs ar' v) mac = ath6kl_find_sta (vifs ar v) mac"
  by (simp add: same_peers_def ath6kl_find_sta_def conn_of_def)

lemma not_held_peers: "same_peers v ar ar' \<Longrightarrow> not_held ar' v s = not_held ar v s"
proof -
  assume p: "same_peers v ar ar'"
  have "sta_flags (conn_of ar' v j) = sta_flags (conn_of ar v j)" for j using p by (simp add: same_peers_def)
  moreover have "some_asleep (vifs ar' v) = some_asleep (vifs ar v)" using p by (simp add: same_peers_def some_asleep_def conn_of_def)
  moreover have "dtim_expired (vifs ar' v) = dtim_expired (vifs ar v)" using p by (simp add: same_peers_def)
  ultimately show ?thesis using find_sta_peers [OF p] by (simp add: not_held_def split: option.splits)
qed

section \<open>Emptying a queue\<close>

text \<open>Management frames go out as commands, so no socket buffer is involved.\<close>

lemma drain_mgmt_ends:
  assumes "psq_ok (psq_mgmt (conn_of ar v i))"
  shows "\<exists>ar' evs. drain_mgmt can ar v i = Some ar' \<and> psq_ok (psq_mgmt (conn_of ar' v i)) \<and> psq_list (psq_mgmt (conn_of ar' v i)) = []
    \<and> same_peers v ar ar' \<and> psq_data (conn_of ar' v i) = psq_data (conn_of ar v i)
    \<and> drv_log ar' = drv_log ar @ evs \<and> (anon ar \<longrightarrow> frames_of evs = {#})"
  using assms
proof (induction "length (psq_list (psq_mgmt (conn_of ar v i)))" arbitrary: ar rule: less_induct)
  case less
  obtain x q where d: "ath6kl_ps_queue_dequeue (psq_mgmt (conn_of ar v i)) = (x, q)" by (cases "ath6kl_ps_queue_dequeue (psq_mgmt (conn_of ar v i))")
  note D = dequeue_cases [OF less.prems d]
  show ?case
  proof (cases x)
    case None
    then have "drain_mgmt can ar v i = Some ar" by (simp add: drain_mgmt.simps d)
    then show ?thesis using None D less.prems by (intro exI [of _ ar] exI [of _ "[]"]) simp
  next
    case (Some y)
    define ar1 where "ar1 = set_mgmtq ar v i q"
    define ar2 where "ar2 = send_mgmt can ar1 v y"
    have s: "op_step ar1 ar2 {#}" unfolding ar2_def by (rule send_mgmt_step)
    have q2: "psq_mgmt (conn_of ar2 v i) = q" "psq_data (conn_of ar2 v i) = psq_data (conn_of ar v i)"
      using op_step_queues(1,2) [OF s, of v i] by (simp_all add: ar1_def set_queue_fields)
    have p2: "same_peers v ar ar2" by (rule same_peers_trans [OF _ op_step_peers [OF s]]) (simp add: ar1_def set_queue_peers)
    obtain e where e: "drv_log ar2 = drv_log ar1 @ e" "anon ar1 \<longrightarrow> frames_of e = {#}" using s unfolding op_step_def by blast
    have "length (psq_list (psq_mgmt (conn_of ar2 v i))) < length (psq_list (psq_mgmt (conn_of ar v i)))" using D Some q2 by simp
    from less.hyps [OF this] obtain ar' evs where r: "drain_mgmt can ar2 v i = Some ar'" "psq_ok (psq_mgmt (conn_of ar' v i))"
        "psq_list (psq_mgmt (conn_of ar' v i)) = []" "same_peers v ar2 ar'" "psq_data (conn_of ar' v i) = psq_data (conn_of ar2 v i)"
        "drv_log ar' = drv_log ar2 @ evs" "anon ar2 \<longrightarrow> frames_of evs = {#}" using D q2 by auto
    have "drain_mgmt can ar v i = Some ar'" using r(1) Some by (simp add: drain_mgmt.simps [of _ ar] d ar1_def ar2_def)
    moreover have "anon ar \<longrightarrow> anon ar1" "anon ar \<longrightarrow> anon ar2" using set_queue_peers(2) [of v ar i q] p2 by (simp_all add: same_peers_def ar1_def)
    ultimately show ?thesis using r e q2 same_peers_trans [OF p2 r(4)]
      by (intro exI [of _ ar'] exI [of _ "e @ evs"]) (simp add: ar1_def set_queue_fields)
  qed
qed

text \<open>Frame by frame, in order; \<open>evss\<close> are the events of the single frames.\<close>

definition delivers :: "drv_event list list \<Rightarrow> ps_buf_desc list \<Rightarrow> bool" where
  "delivers evss ds \<longleftrightarrow> list_all2 (\<lambda>evs d. frames_of evs = id_ms (the (psb_skb d))) evss ds"

lemma drain_data_ends:
  assumes "psq_ok (psq_data (conn_of ar v i))" and "valid_eps ar" and "anon ar"
    and "\<forall>d\<in>set (psq_list (psq_data (conn_of ar v i))). case psb_skb d of None \<Rightarrow> False | Some s \<Rightarrow> not_held ar v s"
  shows "\<exists>ar' evss. drain_data env ar v i = Some ar' \<and> psq_ok (psq_data (conn_of ar' v i)) \<and> psq_list (psq_data (conn_of ar' v i)) = []
    \<and> same_peers v ar ar' \<and> psq_mgmt (conn_of ar' v i) = psq_mgmt (conn_of ar v i)
    \<and> drv_log ar' = drv_log ar @ concat evss \<and> delivers evss (psq_list (psq_data (conn_of ar v i)))"
  using assms
proof (induction "length (psq_list (psq_data (conn_of ar v i)))" arbitrary: ar rule: less_induct)
  case less
  obtain x q where d: "ath6kl_ps_queue_dequeue (psq_data (conn_of ar v i)) = (x, q)" by (cases "ath6kl_ps_queue_dequeue (psq_data (conn_of ar v i))")
  note D = dequeue_cases [OF less.prems(1) d]
  show ?case
  proof (cases x)
    case None
    then have "drain_data env ar v i = Some ar" by (simp add: drain_data.simps d)
    then show ?thesis using None D less.prems(1) by (intro exI [of _ ar] exI [of _ "[]"]) (simp add: delivers_def)
  next
    case (Some y)
    then have qs: "psq_list (psq_data (conn_of ar v i)) = y # psq_list q" using D(2) by simp
    obtain s where y: "psb_skb y = Some s" "not_held ar v s" using less.prems(4) qs by (auto split: option.splits)
    define ar1 where "ar1 = set_dataq ar v i q"
    have p1: "same_peers v ar ar1" by (simp add: ar1_def set_queue_peers)
    have v1: "valid_eps ar1" "anon ar1" using p1 less.prems(2,3) by (simp_all add: same_peers_def)
    obtain ar2 where t: "ath6kl_data_tx env ar1 v s True = Some ar2" "op_step ar1 ar2 (id_ms s)"
      using data_tx_direct [OF v1(1)] not_held_peers [OF p1] y(2) by blast
    have q2: "psq_data (conn_of ar2 v i) = q" "psq_mgmt (conn_of ar2 v i) = psq_mgmt (conn_of ar v i)"
      using op_step_queues(1,2) [OF t(2), of v i] by (simp_all add: ar1_def set_queue_fields)
    have p2: "same_peers v ar ar2" by (rule same_peers_trans [OF p1 op_step_peers [OF t(2)]])
    obtain e where e: "drv_log ar2 = drv_log ar1 @ e" "frames_of e = id_ms s" using t(2) v1(2) unfolding op_step_def by blast
    have len: "length (psq_list (psq_data (conn_of ar2 v i))) < length (psq_list (psq_data (conn_of ar v i)))" using qs q2 by simp
    have v2: "valid_eps ar2" "anon ar2" using p2 less.prems(2,3) by (simp_all add: same_peers_def)
    have all2: "\<forall>d\<in>set (psq_list (psq_data (conn_of ar2 v i))). case psb_skb d of None \<Rightarrow> False | Some s \<Rightarrow> not_held ar2 v s"
      using less.prems(4) qs q2 not_held_peers [OF p2] by (auto split: option.splits)
    obtain ar' evss where r: "drain_data env ar2 v i = Some ar'" "psq_ok (psq_data (conn_of ar' v i))" "psq_list (psq_data (conn_of ar' v i)) = []"
        "same_peers v ar2 ar'" "psq_mgmt (conn_of ar' v i) = psq_mgmt (conn_of ar2 v i)" "drv_log ar' = drv_log ar2 @ concat evss"
        "delivers evss (psq_list (psq_data (conn_of ar2 v i)))"
      using less.hyps [OF len _ v2 all2] D(1) q2 by auto
    have "drain_data env ar v i = Some ar'" using r(1) Some t(1) y(1) by (simp add: drain_data.simps [of _ ar] d ar1_def [symmetric] send_data_def)
    then show ?thesis using r e q2 qs y(1) same_peers_trans [OF p2 r(4)]
      by (intro exI [of _ ar'] exI [of _ "e # evss"]) (simp add: ar1_def set_queue_fields delivers_def)
  qed
qed

lemma drain_mcast_ends:
  assumes "psq_ok (psq_mcast (vifs ar v))" and "valid_eps ar" and "anon ar"
    and "\<forall>d\<in>set (psq_list (psq_mcast (vifs ar v))). case psb_skb d of None \<Rightarrow> False | Some s \<Rightarrow> not_held ar v s"
  shows "\<exists>ar' evss. drain_mcast env ar v = Some ar' \<and> psq_ok (psq_mcast (vifs ar' v)) \<and> psq_list (psq_mcast (vifs ar' v)) = []
    \<and> same_peers v ar ar' \<and> drv_log ar' = drv_log ar @ concat evss \<and> delivers evss (psq_list (psq_mcast (vifs ar v)))"
  using assms
proof (induction "length (psq_list (psq_mcast (vifs ar v)))" arbitrary: ar rule: less_induct)
  case less
  obtain x q where d: "ath6kl_ps_queue_dequeue (psq_mcast (vifs ar v)) = (x, q)" by (cases "ath6kl_ps_queue_dequeue (psq_mcast (vifs ar v))")
  note D = dequeue_cases [OF less.prems(1) d]
  show ?case
  proof (cases x)
    case None
    then have "drain_mcast env ar v = Some ar" by (simp add: drain_mcast.simps d)
    then show ?thesis using None D less.prems(1) by (intro exI [of _ ar] exI [of _ "[]"]) (simp add: delivers_def)
  next
    case (Some y)
    then have qs: "psq_list (psq_mcast (vifs ar v)) = y # psq_list q" using D(2) by simp
    obtain s where y: "psb_skb y = Some s" "not_held ar v s" using less.prems(4) qs by (auto split: option.splits)
    define ar1 where "ar1 = set_mcastq ar v q"
    have p1: "same_peers v ar ar1" by (simp add: ar1_def set_queue_peers)
    have v1: "valid_eps ar1" "anon ar1" using p1 less.prems(2,3) by (simp_all add: same_peers_def)
    obtain ar2 where t: "ath6kl_data_tx env ar1 v s True = Some ar2" "op_step ar1 ar2 (id_ms s)"
      using data_tx_direct [OF v1(1)] not_held_peers [OF p1] y(2) by blast
    have q2: "psq_mcast (vifs ar2 v) = q" using op_step_queues(3) [OF t(2)] by (simp add: ar1_def set_mcastq_def upd_vif_def)
    have p2: "same_peers v ar ar2" by (rule same_peers_trans [OF p1 op_step_peers [OF t(2)]])
    obtain e where e: "drv_log ar2 = drv_log ar1 @ e" "frames_of e = id_ms s" using t(2) v1(2) unfolding op_step_def by blast
    have len: "length (psq_list (psq_mcast (vifs ar2 v))) < length (psq_list (psq_mcast (vifs ar v)))" using qs q2 by simp
    have v2: "valid_eps ar2" "anon ar2" using p2 less.prems(2,3) by (simp_all add: same_peers_def)
    have all2: "\<forall>d\<in>set (psq_list (psq_mcast (vifs ar2 v))). case psb_skb d of None \<Rightarrow> False | Some s \<Rightarrow> not_held ar2 v s"
      using less.prems(4) qs q2 not_held_peers [OF p2] by (auto split: option.splits)
    obtain ar' evss where r: "drain_mcast env ar2 v = Some ar'" "psq_ok (psq_mcast (vifs ar' v))" "psq_list (psq_mcast (vifs ar' v)) = []"
        "same_peers v ar2 ar'" "drv_log ar' = drv_log ar2 @ concat evss" "delivers evss (psq_list (psq_mcast (vifs ar2 v)))"
      using less.hyps [OF len _ v2 all2] D(1) q2 by auto
    have "drain_mcast env ar v = Some ar'" using r(1) Some t(1) y(1) by (simp add: drain_mcast.simps [of _ ar] d ar1_def [symmetric] send_data_def)
    then show ?thesis using r e q2 qs y(1) same_peers_trans [OF p2 r(4)]
      by (intro exI [of _ ar'] exI [of _ "e # evss"]) (simp add: ar1_def set_queue_fields delivers_def)
  qed
qed

lemma empty_by_list: "psq_ok q \<Longrightarrow> ath6kl_ps_queue_empty q \<longleftrightarrow> psq_list q = []"
  by (simp add: ath6kl_ps_queue_empty_def psq_ok_def)

lemma ctl_log: "ctl_step a b m \<Longrightarrow> \<exists>e. drv_log b = drv_log a @ e \<and> frames_of e = m"
  by (auto simp: ctl_step_def)

lemma dtim_drains:
  assumes q: "psq_ok (psq_mcast (vifs ar v))" and v: "valid_eps ar" and a: "anon ar"
    and h: "\<forall>d\<in>set (psq_list (psq_mcast (vifs ar v))). case psb_skb d of None \<Rightarrow> False | Some s \<Rightarrow> is_multicast_ether_addr (skb_range s 0 6)"
    and s: "sta_list_index (vifs ar v) \<noteq> 0"
  shows "\<exists>ar' evss post. ath6kl_dtimexpiry_event env ar v = Some ar' \<and> psq_list (psq_mcast (vifs ar' v)) = []
    \<and> drv_log ar' = drv_log ar @ concat evss @ post \<and> frames_of post = {#} \<and> delivers evss (psq_list (psq_mcast (vifs ar v)))"
proof (cases "psq_list (psq_mcast (vifs ar v)) = []")
  case True
  then have "ath6kl_dtimexpiry_event env ar v = Some ar" using empty_by_list [OF q] by (simp add: ath6kl_dtimexpiry_event_def)
  then show ?thesis using True by (intro exI [of _ ar] exI [of _ "[]"]) (simp add: delivers_def)
next
  case False
  define ar1 where "ar1 = set_dtim ar v True"
  have 1: "psq_mcast (vifs ar1 v) = psq_mcast (vifs ar v)" "dtim_expired (vifs ar1 v)" "drv_log ar1 = drv_log ar"
    by (simp_all add: ar1_def set_dtim_def upd_vif_def)
  have v1: "valid_eps ar1" "anon ar1" using v a by (simp_all add: ar1_def set_dtim_def upd_vif_def valid_eps_def anon_def)
  have h1: "\<forall>d\<in>set (psq_list (psq_mcast (vifs ar1 v))). case psb_skb d of None \<Rightarrow> False | Some s \<Rightarrow> not_held ar1 v s"
    using h 1 by (auto simp: not_held_def split: option.splits)
  obtain ar2 evss where d: "drain_mcast env ar1 v = Some ar2" "psq_list (psq_mcast (vifs ar2 v)) = []"
      "drv_log ar2 = drv_log ar1 @ concat evss" "delivers evss (psq_list (psq_mcast (vifs ar1 v)))"
    using drain_mcast_ends [OF _ v1 h1, of env] q 1 by auto
  define ar3 where "ar3 = set_dtim ar2 v False"
  define ar4 where "ar4 = snd (ath6kl_wmi_set_pvb_cmd (te_can env) ar3 (fw_vif_idx (vifs ar3 v)) MCAST_AID False)"
  have 4: "ctl_step ar3 ar4 {#}" unfolding ar4_def by (rule set_pvb_step)
  obtain post where post: "drv_log ar4 = drv_log ar3 @ post" "frames_of post = {#}" using ctl_log [OF 4] by blast
  have "psq_list (psq_mcast (vifs ar4 v)) = []" using op_step_queues(3) [OF ctl_op_step [OF 4]] d(2) by (simp add: ar3_def set_dtim_def upd_vif_def)
  moreover have "ath6kl_dtimexpiry_event env ar v = Some ar4"
    unfolding ath6kl_dtimexpiry_event_def ar1_def [symmetric] d(1) option.map ar3_def [symmetric] Let_def ar4_def [symmetric]
    using s False empty_by_list [OF q] by simp
  moreover have "drv_log ar3 = drv_log ar2" by (simp add: ar3_def set_dtim_def upd_vif_def)
  ultimately show ?thesis using d 1 post
    by (intro exI [of _ ar4] exI [of _ evss] exI [of _ post]) simp
qed

section \<open>A service period\<close>

text \<open>The flags of a service period are off outside of it; around one frame they come and go.\<close>

definition no_period :: "ath6kl \<Rightarrow> nat \<Rightarrow> nat \<Rightarrow> bool" where
  "no_period ar v i \<longleftrightarrow> sta_flags (conn_of ar v i) AND (STA_PS_APSD_TRIGGER OR STA_PS_APSD_EOSP) = 0"

lemma period_flags:
  assumes "f AND (STA_PS_APSD_TRIGGER OR STA_PS_APSD_EOSP) = 0"
  shows "clear_flag (clear_flag (set_flag f STA_PS_APSD_TRIGGER) STA_PS_APSD_TRIGGER) STA_PS_APSD_EOSP = f"
    "clear_flag (clear_flag (set_flag (set_flag f STA_PS_APSD_TRIGGER) STA_PS_APSD_EOSP) STA_PS_APSD_TRIGGER) STA_PS_APSD_EOSP = f"
proof -
  define t e where "t = STA_PS_APSD_TRIGGER" and "e = STA_PS_APSD_EOSP"
  have k: "\<not> (bit f n \<and> (bit t n \<or> bit e n))" for n
  proof -
    have z: "f AND (t OR e) = 0" using assms by (simp only: t_def e_def)
    have "\<not> bit (f AND (t OR e)) n" unfolding z by simp
    then show ?thesis by (simp add: bit_and_iff bit_or_iff)
  qed
  have b: "bit f n \<Longrightarrow> n < 16" for n using bit_imp_le_length [of f n] by simp
  show "clear_flag (clear_flag (set_flag f STA_PS_APSD_TRIGGER) STA_PS_APSD_TRIGGER) STA_PS_APSD_EOSP = f"
    "clear_flag (clear_flag (set_flag (set_flag f STA_PS_APSD_TRIGGER) STA_PS_APSD_EOSP) STA_PS_APSD_TRIGGER) STA_PS_APSD_EOSP = f"
    unfolding t_def [symmetric] e_def [symmetric] clear_flag_def set_flag_def
    by (intro bit_eqI; use k b in \<open>auto simp: bit_and_iff bit_or_iff bit_not_iff\<close>)+
qed

lemma sta_set_conn: "conn_of (sta_set ar v i f) v j = (if j = i then (conn_of ar v i)\<lparr>sta_flags := set_flag (sta_flags (conn_of ar v i)) f\<rparr> else conn_of ar v j)"
  "conn_of (sta_clear ar v i f) v j = (if j = i then (conn_of ar v i)\<lparr>sta_flags := clear_flag (sta_flags (conn_of ar v i)) f\<rparr> else conn_of ar v j)"
  by (simp_all add: sta_set_def sta_clear_def conn_of_def upd_conn_def upd_vif_def upd_sta_def)

lemma sta_set_rest:
  "nw_type (vifs (sta_set ar v i f) v) = nw_type (vifs ar v)" "nw_type (vifs (sta_clear ar v i f) v) = nw_type (vifs ar v)"
  "valid_eps (sta_set ar v i f) = valid_eps ar" "valid_eps (sta_clear ar v i f) = valid_eps ar"
  "dtim_expired (vifs (sta_set ar v i f) v) = dtim_expired (vifs ar v)" "dtim_expired (vifs (sta_clear ar v i f) v) = dtim_expired (vifs ar v)"
  "drv_log (sta_set ar v i f) = drv_log ar" "drv_log (sta_clear ar v i f) = drv_log ar"
  by (simp_all add: sta_set_def sta_clear_def conn_of_def upd_conn_def upd_vif_def upd_sta_def valid_eps_def)

lemma sta_set_anon: "anon (sta_set ar v i f) = anon ar" "anon (sta_clear ar v i f) = anon ar"
proof -
  have "sta_tx (sta_list (vifs (sta_set ar v i f) w) j) = sta_tx (sta_list (vifs ar w) j)"
    "sta_tx (sta_list (vifs (sta_clear ar v i f) w) j) = sta_tx (sta_list (vifs ar w) j)" for w j
    by (simp_all add: sta_set_def sta_clear_def upd_conn_def upd_vif_def upd_sta_def)
  then show "anon (sta_set ar v i f) = anon ar" "anon (sta_clear ar v i f) = anon ar" by (simp_all add: anon_def)
qed

lemma triggered_conn:
  "conn_of (triggered ar v i b) v j = (if j = i then (conn_of ar v i)\<lparr>sta_flags := (if b then set_flag (set_flag (sta_flags (conn_of ar v i)) STA_PS_APSD_TRIGGER) STA_PS_APSD_EOSP
      else set_flag (sta_flags (conn_of ar v i)) STA_PS_APSD_TRIGGER)\<rparr> else conn_of ar v j)"
  by (simp add: triggered_def Let_def sta_set_conn)

lemma turn_facts:
  assumes n: "no_period ar v i" and o: "op_step (triggered ar v i b) a m"
  shows "same_peers v ar (untriggered a v i)" "psq_data (conn_of (untriggered a v i) v i) = psq_data (conn_of ar v i)"
    "psq_mgmt (conn_of (untriggered a v i) v i) = psq_mgmt (conn_of ar v i)" "no_period (untriggered a v i) v i"
    "\<exists>e. drv_log (untriggered a v i) = drv_log ar @ e \<and> (anon ar \<longrightarrow> frames_of e = m)"
proof -
  define t where "t = triggered ar v i b"
  note o' = o [folded t_def]
  note P = op_step_peers [OF o', of v]
  have tr: "nw_type (vifs t v) = nw_type (vifs ar v)" "valid_eps t = valid_eps ar" "dtim_expired (vifs t v) = dtim_expired (vifs ar v)"
    "anon t = anon ar" "drv_log t = drv_log ar" by (simp_all add: t_def triggered_def Let_def sta_set_rest sta_set_anon)
  have fl: "sta_flags (conn_of a v j) = sta_flags (conn_of t v j)" "sta_mac (conn_of a v j) = sta_mac (conn_of t v j)" for j
    using P by (simp_all add: same_peers_def)
  have kept_fl: "sta_flags (conn_of (untriggered a v i) v j) = sta_flags (conn_of ar v j)" "sta_mac (conn_of (untriggered a v i) v j) = sta_mac (conn_of ar v j)" for j
    using n period_flags [of "sta_flags (conn_of ar v i)"] by (simp_all add: untriggered_def sta_set_conn fl t_def triggered_conn no_period_def)
  show "same_peers v ar (untriggered a v i)" using P tr kept_fl by (simp add: same_peers_def untriggered_def sta_set_rest sta_set_anon)
  show "psq_data (conn_of (untriggered a v i) v i) = psq_data (conn_of ar v i)" "psq_mgmt (conn_of (untriggered a v i) v i) = psq_mgmt (conn_of ar v i)"
    using op_step_queues(1,2) [OF o', of v i] by (simp_all add: untriggered_def sta_set_conn t_def triggered_conn)
  show "no_period (untriggered a v i) v i" using n kept_fl by (simp add: no_period_def)
  obtain e where "drv_log a = drv_log t @ e" "anon t \<longrightarrow> frames_of e = m" using o' unfolding op_step_def by blast
  then show "\<exists>e. drv_log (untriggered a v i) = drv_log ar @ e \<and> (anon ar \<longrightarrow> frames_of e = m)"
    using tr by (simp add: untriggered_def sta_set_rest sta_set_anon)
qed

text \<open>A frame that waits for the station: with a buffer, and addressed to it.\<close>

definition meant_for :: "ath6kl \<Rightarrow> nat \<Rightarrow> nat \<Rightarrow> ps_buf_desc \<Rightarrow> bool" where
  "meant_for ar v i d \<longleftrightarrow> (case psb_skb d of None \<Rightarrow> False
     | Some s \<Rightarrow> \<not> is_multicast_ether_addr (skb_range s 0 6) \<and> ath6kl_find_sta (vifs ar v) (skb_range s 0 6) = Some i)"

lemma meant_for_peers: "same_peers v ar ar' \<Longrightarrow> meant_for ar' v i d = meant_for ar v i d"
  by (simp add: meant_for_def find_sta_peers split: option.split)

lemma triggered_not_held:
  assumes "meant_for ar v i d" and "psb_skb d = Some s"
  shows "not_held (triggered ar v i b) v s"
proof -
  have "ath6kl_find_sta (vifs (triggered ar v i b) v) mac = ath6kl_find_sta (vifs ar v) mac" for mac
  proof -
    have "sta_mac (conn_of (triggered ar v i b) v j) = sta_mac (conn_of ar v j)" for j by (simp add: triggered_conn)
    moreover have "nw_type (vifs (triggered ar v i b) v) = nw_type (vifs ar v)" by (simp add: triggered_def Let_def sta_set_rest)
    ultimately show ?thesis by (simp add: ath6kl_find_sta_def conn_of_def)
  qed
  moreover have "has_flag (sta_flags (conn_of (triggered ar v i b) v i)) STA_PS_APSD_TRIGGER"
  proof -
    have "bit (sta_flags (conn_of (triggered ar v i b) v i)) 3"
      by (simp add: triggered_conn set_flag_def bit_or_iff STA_PS_APSD_TRIGGER_def STA_PS_APSD_EOSP_def)
    then have "bit (sta_flags (conn_of (triggered ar v i b) v i) AND STA_PS_APSD_TRIGGER) 3"
      by (simp add: bit_and_iff STA_PS_APSD_TRIGGER_def)
    then show ?thesis by (auto simp: has_flag_def)
  qed
  ultimately show ?thesis using assms by (simp add: not_held_def meant_for_def)
qed

lemma uapsd_loop_ends:
  assumes "psq_ok (psq_mgmt (conn_of ar v i))" "psq_ok (psq_data (conn_of ar v i))" "valid_eps ar" "anon ar" "no_period ar v i"
    and "\<forall>d\<in>set (psq_list (psq_data (conn_of ar v i))). meant_for ar v i d"
  shows "\<exists>ar' pre evss. uapsd_loop env ar v i (psqs_empty (conn_of ar v i)) n = Some (psqs_empty (conn_of ar' v i), ar')
    \<and> psq_list (psq_mgmt (conn_of ar' v i)) = drop n (psq_list (psq_mgmt (conn_of ar v i)))
    \<and> psq_list (psq_data (conn_of ar' v i)) = drop (n - length (psq_list (psq_mgmt (conn_of ar v i)))) (psq_list (psq_data (conn_of ar v i)))
    \<and> psq_ok (psq_mgmt (conn_of ar' v i)) \<and> psq_ok (psq_data (conn_of ar' v i)) \<and> same_peers v ar ar'
    \<and> drv_log ar' = drv_log ar @ pre @ concat evss \<and> frames_of pre = {#}
    \<and> delivers evss (take (n - length (psq_list (psq_mgmt (conn_of ar v i)))) (psq_list (psq_data (conn_of ar v i))))"
  using assms
proof (induction n arbitrary: ar)
  case 0
  then show ?case by (intro exI [of _ ar] exI [of _ "[]"]) (simp add: delivers_def)
next
  case (Suc n)
  define c where "c = conn_of ar v i"
  note ok = Suc.prems(1,2) [folded c_def]
  show ?case
  proof (cases "psqs_empty c")
    case True
    then have "psq_list (psq_mgmt c) = []" "psq_list (psq_data c) = []" using ok empty_by_list by (simp_all add: psqs_empty_def)
    then show ?thesis using True ok
      by (intro exI [of _ ar] exI [of _ "[]"]) (simp add: delivers_def c_def [symmetric])
  next
    case ne: False
    show ?thesis
    proof (cases "ath6kl_ps_queue_empty (psq_mgmt c)")
      case False
      then have m: "psq_list (psq_mgmt c) \<noteq> []" using empty_by_list [OF ok(1)] by simp
      obtain x q where d: "ath6kl_ps_queue_dequeue (psq_mgmt c) = (x, q)" by (cases "ath6kl_ps_queue_dequeue (psq_mgmt c)")
      note D = dequeue_cases [OF ok(1) d]
      obtain y where x: "x = Some y" and qs: "psq_list (psq_mgmt c) = y # psq_list q" using D(2) m by (cases x) auto
      define ar1 where "ar1 = set_mgmtq ar v i q"
      define e1 where "e1 = psqs_empty (conn_of ar1 v i)"
      define a where "a = send_mgmt (te_can env) (triggered ar1 v i (e1 \<or> n = 0)) v y"
      define ar2 where "ar2 = untriggered a v i"
      have p1: "same_peers v ar ar1" by (simp add: ar1_def set_queue_peers)
      have n1: "no_period ar1 v i" using Suc.prems(5) by (simp add: no_period_def ar1_def set_queue_fields)
      have c1: "psq_mgmt (conn_of ar1 v i) = q" "psq_data (conn_of ar1 v i) = psq_data c" by (simp_all add: ar1_def set_queue_fields c_def)
      have o: "op_step (triggered ar1 v i (e1 \<or> n = 0)) a {#}" unfolding a_def by (rule send_mgmt_step)
      note T = turn_facts [OF n1 o, folded ar2_def]
      have p2: "same_peers v ar ar2" by (rule same_peers_trans [OF p1 T(1)])
      have v2: "valid_eps ar2" "anon ar2" "anon ar1" using p1 p2 Suc.prems(3,4) by (simp_all add: same_peers_def)
      obtain e where e: "drv_log ar2 = drv_log ar1 @ e" "frames_of e = {#}" using T(5) v2(3) by auto
      have e2: "e1 = psqs_empty (conn_of ar2 v i)" using T(2,3) by (simp add: e1_def psqs_empty_def)
      have h2: "\<forall>d\<in>set (psq_list (psq_data (conn_of ar2 v i))). meant_for ar2 v i d"
        using Suc.prems(6) meant_for_peers [OF p2] T(2) c1 by (simp add: c_def)
      obtain ar' pre evss where r: "uapsd_loop env ar2 v i e1 n = Some (psqs_empty (conn_of ar' v i), ar')"
          "psq_list (psq_mgmt (conn_of ar' v i)) = drop n (psq_list q)"
          "psq_list (psq_data (conn_of ar' v i)) = drop (n - length (psq_list q)) (psq_list (psq_data c))"
          "psq_ok (psq_mgmt (conn_of ar' v i))" "psq_ok (psq_data (conn_of ar' v i))" "same_peers v ar2 ar'"
          "drv_log ar' = drv_log ar2 @ pre @ concat evss" "frames_of pre = {#}"
          "delivers evss (take (n - length (psq_list q)) (psq_list (psq_data c)))"
        using Suc.IH [OF _ _ v2(1,2) T(4) h2] D(1) ok(2) T(2,3) c1 unfolding e2 by auto
      have "uapsd_loop env ar v i (psqs_empty (conn_of ar v i)) (Suc n) = Some (psqs_empty (conn_of ar' v i), ar')"
        using ne False d x r(1) unfolding uapsd_loop.simps Let_def c_def [symmetric] ar1_def a_def ar2_def e1_def by simp
      then show ?thesis using r e qs same_peers_trans [OF p2 r(6)]
        by (intro exI [of _ ar'] exI [of _ "e @ pre"] exI [of _ evss]) (simp add: c_def [symmetric] ar1_def set_queue_fields)
    next
      case True
      then have m: "psq_list (psq_mgmt c) = []" using empty_by_list [OF ok(1)] by simp
      then have "psq_list (psq_data c) \<noteq> []" using ne ok empty_by_list True by (simp add: psqs_empty_def)
      obtain x q where d: "ath6kl_ps_queue_dequeue (psq_data c) = (x, q)" by (cases "ath6kl_ps_queue_dequeue (psq_data c)")
      note D = dequeue_cases [OF ok(2) d]
      obtain y where x: "x = Some y" and qs: "psq_list (psq_data c) = y # psq_list q" using D(2) \<open>psq_list (psq_data c) \<noteq> []\<close> by (cases x) auto
      have my: "meant_for ar v i y" using Suc.prems(6) qs by (simp add: c_def)
      obtain s where s: "psb_skb y = Some s" using my by (auto simp: meant_for_def split: option.splits)
      define ar1 where "ar1 = set_dataq ar v i q"
      define e1 where "e1 = psqs_empty (conn_of ar1 v i)"
      have p1: "same_peers v ar ar1" by (simp add: ar1_def set_queue_peers)
      have n1: "no_period ar1 v i" using Suc.prems(5) by (simp add: no_period_def ar1_def set_queue_fields)
      have c1: "psq_data (conn_of ar1 v i) = q" "psq_mgmt (conn_of ar1 v i) = psq_mgmt c" by (simp_all add: ar1_def set_queue_fields c_def)
      have vt: "valid_eps (triggered ar1 v i (e1 \<or> n = 0))" using p1 Suc.prems(3) by (simp add: triggered_def Let_def sta_set_rest same_peers_def)
      have my1: "meant_for ar1 v i y" using my meant_for_peers [OF p1] by simp
      obtain a where t: "ath6kl_data_tx env (triggered ar1 v i (e1 \<or> n = 0)) v s True = Some a" "op_step (triggered ar1 v i (e1 \<or> n = 0)) a (id_ms s)"
        using data_tx_direct [OF vt triggered_not_held [OF my1 s]] by blast
      define ar2 where "ar2 = untriggered a v i"
      note T = turn_facts [OF n1 t(2), folded ar2_def]
      have p2: "same_peers v ar ar2" by (rule same_peers_trans [OF p1 T(1)])
      have v2: "valid_eps ar2" "anon ar2" "anon ar1" using p1 p2 Suc.prems(3,4) by (simp_all add: same_peers_def)
      obtain e where e: "drv_log ar2 = drv_log ar1 @ e" "frames_of e = id_ms s" using T(5) v2(3) by auto
      have e2: "e1 = psqs_empty (conn_of ar2 v i)" using T(2,3) by (simp add: e1_def psqs_empty_def)
      have h2: "\<forall>d\<in>set (psq_list (psq_data (conn_of ar2 v i))). meant_for ar2 v i d"
        using Suc.prems(6) meant_for_peers [OF p2] T(2) c1 qs by (simp add: c_def)
      obtain ar' pre evss where r: "uapsd_loop env ar2 v i e1 n = Some (psqs_empty (conn_of ar' v i), ar')"
          "psq_list (psq_mgmt (conn_of ar' v i)) = []" "psq_list (psq_data (conn_of ar' v i)) = drop n (psq_list q)"
          "psq_ok (psq_mgmt (conn_of ar' v i))" "psq_ok (psq_data (conn_of ar' v i))" "same_peers v ar2 ar'"
          "drv_log ar' = drv_log ar2 @ pre @ concat evss" "frames_of pre = {#}" "delivers evss (take n (psq_list q))"
        using Suc.IH [OF _ _ v2(1,2) T(4) h2] D(1) ok(1) T(2,3) c1 m unfolding e2 by auto
      have "uapsd_loop env ar v i (psqs_empty (conn_of ar v i)) (Suc n) = Some (psqs_empty (conn_of ar' v i), ar')"
        using ne True d x s t(1) r(1) unfolding uapsd_loop.simps Let_def c_def [symmetric] ar1_def ar2_def e1_def by simp
      then show ?thesis using r e qs m s same_peers_trans [OF p2 r(6)]
        by (intro exI [of _ ar'] exI [of _ "[]"] exI [of _ "(e @ pre) # evss"])
          (simp add: c_def [symmetric] ar1_def set_queue_fields delivers_def)
    qed
  qed
qed

section \<open>A station with a frame that waits\<close>

definition ex_dataq :: ps_buf_head where
  "ex_dataq = snd (ath6kl_ps_queue_enqueue_data True
     (ath6kl_ps_queue_init (psq_data blank_sta) PS_QUEUE_TYPE_STA_UNICAST ATH6KL_PS_QUEUE_MAX_AGE ATH6KL_PS_QUEUE_MAX_DEPTH) ex_frame)"

definition ex_ap :: ath6kl where
  "ex_ap = ex_driver\<lparr>vifs := (\<lambda>_. ex_vif\<lparr>sta_list := (\<lambda>_. blank_sta\<lparr>psq_data := ath6kl_ps_queue_init (psq_data blank_sta) PS_QUEUE_TYPE_STA_UNICAST 0 0,
       psq_mgmt := ath6kl_ps_queue_init (psq_mgmt blank_sta) PS_QUEUE_TYPE_STA_MGMT 0 0\<rparr>)
       (0 := blank_sta\<lparr>sta_mac := [2,0,0,0,0,1], sta_aid := 1, apsd_info := 0x2F, psq_data := ex_dataq,
             psq_mgmt := ath6kl_ps_queue_init (psq_mgmt blank_sta) PS_QUEUE_TYPE_STA_MGMT 0 0\<rparr>)\<rparr>)\<rparr>"

lemma ex_dataq_ok: "psq_ok ex_dataq" "\<exists>d. psq_list ex_dataq = [d] \<and> psb_skb d = Some ex_frame"
proof -
  define q where "q = ath6kl_ps_queue_init (psq_data blank_sta) PS_QUEUE_TYPE_STA_UNICAST ATH6KL_PS_QUEUE_MAX_AGE ATH6KL_PS_QUEUE_MAX_DEPTH"
  have q: "psq_ok q" "psq_list q = []" by (simp_all add: q_def psq_init_ok) (simp add: ath6kl_ps_queue_init_def)
  obtain st q' where p: "ath6kl_ps_queue_enqueue_data True q ex_frame = (st, q')" by fastforce
  note P = psq_push_ok [OF q(1) _ p [unfolded ath6kl_ps_queue_enqueue_data_def]]
  have "ex_dataq = q'" using p by (simp add: ex_dataq_def q_def)
  then show "psq_ok ex_dataq" "\<exists>d. psq_list ex_dataq = [d] \<and> psb_skb d = Some ex_frame" using P(1,2,4) q by simp_all
qed

lemma ex_ap_ok: "psq_ok (psq_mgmt (conn_of ex_ap 0 0))" "psq_ok (psq_data (conn_of ex_ap 0 0))" "valid_eps ex_ap" "anon ex_ap" "no_period ex_ap 0 0"
  "psq_list (psq_mgmt (conn_of ex_ap 0 0)) = []" "psq_data (conn_of ex_ap 0 0) = ex_dataq"
  and ex_ap_meant: "\<forall>d\<in>set (psq_list (psq_data (conn_of ex_ap 0 0))). meant_for ex_ap 0 0 d"
  and ex_ap_awake: "\<forall>d\<in>set (psq_list (psq_data (conn_of ex_ap 0 0))). case psb_skb d of None \<Rightarrow> False | Some s \<Rightarrow> not_held ex_ap 0 s"
proof -
  show "psq_ok (psq_mgmt (conn_of ex_ap 0 0))" by (simp add: ex_ap_def conn_of_def psq_init_ok)
  show c: "psq_data (conn_of ex_ap 0 0) = ex_dataq" by (simp add: ex_ap_def conn_of_def)
  then show "psq_ok (psq_data (conn_of ex_ap 0 0))" using ex_dataq_ok by simp
  show "valid_eps ex_ap" using ex_driver_ok(4) by (simp add: ex_ap_def valid_eps_def)
  show "anon ex_ap" by (simp add: anon_def ex_ap_def ex_vif_def blank_sta_def aggr_init_conn_def blank_txtid_def)
  show "no_period ex_ap 0 0" by (simp add: no_period_def ex_ap_def conn_of_def blank_sta_def)
  show "psq_list (psq_mgmt (conn_of ex_ap 0 0)) = []" by (simp add: ex_ap_def conn_of_def ath6kl_ps_queue_init_def)
  have r: "skb_range ex_frame 0 6 = [2,0,0,0,0,1]"
    by (simp add: skb_range_def ex_frame_def read_bytes_def write_bytes_def numeral_eq_Suc)
  have f: "ath6kl_find_sta (vifs ex_ap 0) (skb_range ex_frame 0 6) = Some 0"
    by (simp add: r ath6kl_find_sta_def ex_ap_def ex_vif_def AP_MAX_NUM_STA_def upt_rec)
  have z: "sta_flags (conn_of ex_ap 0 0) = 0" by (simp add: ex_ap_def conn_of_def blank_sta_def)
  have m: "\<not> is_multicast_ether_addr (skb_range ex_frame 0 6)" by (simp add: r is_multicast_ether_addr_def)
  obtain d where d: "psq_list ex_dataq = [d]" "psb_skb d = Some ex_frame" using ex_dataq_ok(2) by blast
  show "\<forall>d\<in>set (psq_list (psq_data (conn_of ex_ap 0 0))). meant_for ex_ap 0 0 d" using d f m by (simp add: c meant_for_def)
  show "\<forall>d\<in>set (psq_list (psq_data (conn_of ex_ap 0 0))). case psb_skb d of None \<Rightarrow> False | Some s \<Rightarrow> not_held ex_ap 0 s"
    using d f m z by (simp add: c not_held_def has_flag_def)
qed

section \<open>Properties\<close>





end
