(* ===== verification/DataRx.thy ===== *)
theory DataRx
  imports ApPowerSave HtcSetup
begin

text \<open>
  The receive path above HTC (drivers/ath6kl/txrx.c: \<open>ath6kl_rx\<close>,
  \<open>ath6kl_deliver_frames_to_nw_stack\<close>, and the buffers it gives to HTC: \<open>ath6kl_rx_refill\<close>,
  \<open>ath6kl_refill_amsdu_rxbufs\<close>, \<open>ath6kl_alloc_amsdu_rxbuf\<close>, \<open>ath6kl_cleanup_amsdu_rxbufs\<close>).

  A message becomes an Ethernet frame, tells whether its sender sleeps, is forwarded within the network of
  an access point, and passes the reordering window of its station on its way up.  What goes up
  is returned in order; what is freed or sent is in the log of the driver.  The build has no
  \<open>CONFIG_ANDROID\<close> (core.h takes it back), \<open>DIRECT_AUDIO_SUPPORT\<close>, \<open>ATHTST_SUPPORT\<close> or
  \<open>CONFIG_ATH6KL_UDP_TPUT_WAR\<close>; the mark a checksum of the target leaves on a buffer is not modelled.
\<close>

section \<open>Delivery\<close>

text \<open>Up to the network stack, to the WMI layer, and the check that ends a sleep of the host.\<close>

datatype rx_up = UpNet nat skb | UpControl skb | UpWowCheck

definition ETH_P_802_3 :: nat where "ETH_P_802_3 = 1"
definition ETH_P_802_2 :: nat where "ETH_P_802_2 = 4"

text \<open>The kernel's \<open>eth_type_trans\<close>: the protocol, and the header is taken off.\<close>

definition eth_type_trans :: "skb \<Rightarrow> skb" where
  "eth_type_trans s =
     (let t = be16_at s 12; s1 = skb_pull ETH_HDR_LEN s in
      s1\<lparr>skb_protocol := (if is_ethertype t then t else if skb_range s1 0 2 = [0xFF, 0xFF] then ETH_P_802_3 else ETH_P_802_2)\<rparr>)"

definition ath6kl_deliver_frames_to_nw_stack :: "tx_env \<Rightarrow> ath6kl \<Rightarrow> nat \<Rightarrow> skb \<Rightarrow> (rx_up list \<times> ath6kl) option" where
  "ath6kl_deliver_frames_to_nw_stack env ar v s =
     (let x = vifs ar v in
      if \<not> if_up x then Some ([], drv_do ar [EvFree s])
      else if nw_type x = AP_NETWORK \<and> ath6kl_find_sta x (skb_range s 0 6) \<noteq> None then
        (if intra_bss x then map_option (Pair []) (ath6kl_data_tx env ar v s True)
         else Some ([], drv_do ar [EvFree s]))
      else
        let s1 = eth_type_trans s;
            ar1 = (if skb_protocol s1 = ETH_P_PAE \<and> vif_connected x then ath6kl_eapol_handshake_protect env ar v else ar)
        in Some ([UpNet v s1], ar1))"

text \<open>
  The reordering code works on the state of one station and logs what it hands up and frees; both
  are carried out here, in the order of the log.
\<close>

fun deliver_events :: "tx_env \<Rightarrow> ath6kl \<Rightarrow> nat \<Rightarrow> rx_event list \<Rightarrow> (rx_up list \<times> ath6kl) option" where
  "deliver_events env ar v [] = Some ([], ar)"
| "deliver_events env ar v (RxFree s # es) = deliver_events env (drv_do ar [EvFree s]) v es"
| "deliver_events env ar v (RxUp s # es) =
     (case ath6kl_deliver_frames_to_nw_stack env ar v s of
        None \<Rightarrow> None
      | Some (up, ar1) \<Rightarrow> map_option (\<lambda>(up', ar2). (up @ up', ar2)) (deliver_events env ar1 v es))"

definition set_rx_conn :: "ath6kl \<Rightarrow> nat \<Rightarrow> nat \<Rightarrow> aggr_conn \<Rightarrow> ath6kl" where
  "set_rx_conn ar v i c = upd_vif ar v (\<lambda>x. (upd_sta x i (\<lambda>y. y\<lparr>sta_rx := c\<rparr>))\<lparr>aggr_free_q := free_q c, aggr_allocs := n_alloc c\<rparr>)"

definition rx_conn_of :: "ath6kl \<Rightarrow> nat \<Rightarrow> nat \<Rightarrow> aggr_conn" where
  "rx_conn_of ar v i = (sta_rx (conn_of ar v i))\<lparr>free_q := aggr_free_q (vifs ar v), n_alloc := aggr_allocs (vifs ar v)\<rparr>"

definition on_rx_conn :: "tx_env \<Rightarrow> ath6kl \<Rightarrow> nat \<Rightarrow> nat \<Rightarrow> (aggr_conn \<Rightarrow> ('a \<times> aggr_conn) option) \<Rightarrow> ('a \<times> rx_up list \<times> ath6kl) option" where
  "on_rx_conn env ar v i f =
     (let c = rx_conn_of ar v i in
      case f c of
        None \<Rightarrow> None
      | Some (r, c') \<Rightarrow> map_option (Pair r) (deliver_events env (set_rx_conn ar v i c') v (drop (length (rx_events c)) (rx_events c'))))"

section \<open>A received message\<close>

definition wmi_data_hdr_pad :: "skb \<Rightarrow> nat" where
  "wmi_data_hdr_pad s = unat (drop_bit 8 (le16_at s 4) AND 0xFF)"

definition wmi_data_hdr_is_trigger :: "skb \<Rightarrow> bool" where
  "wmi_data_hdr_is_trigger s \<longleftrightarrow> drop_bit 4 (le16_at s 4) AND 1 = 1"

text \<open>
  The header and the meta data (6 or 3 bytes) are taken off, then the frame is brought into Ethernet
  form.  \<open>rx_hdr\<close> is the header read again through its old pointer.
\<close>

definition rx_strip :: "skb \<Rightarrow> skb" where
  "rx_strip s =
     (let s1 = skb_pull WMI_DATA_HDR_LEN s;
          meta = wmi_data_hdr_get_meta s;
          s2 = (if meta = of_nat WMI_META_VERSION_1 then skb_pull 6 s1 else if meta = of_nat WMI_META_VERSION_2 then skb_pull 3 s1 else s1)
      in skb_pull (wmi_data_hdr_pad s) s2)"

definition rx_convert :: "skb \<Rightarrow> int \<times> skb" where
  "rx_convert s =
     (if wmi_data_hdr_get_dot11 s then ath6kl_wmi_dot11_hdr_remove (rx_strip s)
      else if \<not> wmi_data_hdr_is_amsdu s then (0, dot3_2_dix_skb (rx_strip s))
      else (0, rx_strip s))"

definition rx_hdr :: "skb \<Rightarrow> skb \<Rightarrow> skb" where
  "rx_hdr s s1 = s1\<lparr>skb_ptr := skb_ptr s\<rparr>"

text \<open>
  Forwarding within the network: the frame that still goes up, if any.  A group frame is sent as a copy,
  when there is memory for it; an aggregate is taken apart first.
\<close>

definition rx_forward :: "tx_env \<Rightarrow> ath6kl \<Rightarrow> nat \<Rightarrow> skb \<Rightarrow> bool \<Rightarrow> (skb option \<times> ath6kl) option" where
  "rx_forward env ar v s is_amsdu =
     (if is_multicast_ether_addr (skb_range s 0 6) then
        (case drv_alloc (te_can env) ar of
           (ok, ar1) \<Rightarrow> if ok then map_option (Pair (Some s)) (ath6kl_data_tx env ar1 v (s\<lparr>skb_id := None, skb_cloned := False\<rparr>) True)
                        else Some (Some s, ar1))
      else if is_amsdu then Some (Some s, ar)
      else
        (case ath6kl_find_sta (vifs ar v) (skb_range s 0 6) of
           None \<Rightarrow> Some (Some s, ar)
         | Some j \<Rightarrow>
             if intra_bss (vifs ar v) then map_option (Pair None) (ath6kl_data_tx env ar v s True)
             else Some (None, drv_do ar [EvFree s])))"

text \<open>The last part, from the label \<open>rx_aggr_process\<close> on.\<close>

definition rx_aggr_process ::
    "(nat \<Rightarrow> bool) \<Rightarrow> tx_env \<Rightarrow> ath6kl \<Rightarrow> nat \<Rightarrow> nat \<Rightarrow> nat \<Rightarrow> nat \<Rightarrow> bool \<Rightarrow> skb \<Rightarrow> (rx_up list \<times> ath6kl) option" where
  "rx_aggr_process can env ar v i tid seq_no is_amsdu s =
     (if \<not> is_multicast_ether_addr (skb_range s 0 6) \<or> nw_type (vifs ar v) = AP_NETWORK then
        (case on_rx_conn env ar v i (\<lambda>c. aggr_process_recv_frm can (conf_no_rx_drop ar) c tid seq_no is_amsdu s) of
           None \<Rightarrow> None
         | Some (queued, up, ar1) \<Rightarrow>
             if queued then Some (up, ar1)
             else map_option (\<lambda>(up', ar2). (up @ up', ar2)) (ath6kl_deliver_frames_to_nw_stack env ar1 v s))
      else ath6kl_deliver_frames_to_nw_stack env ar v s)"

text \<open>
  A data message \<open>s\<close> of an interface in operation.  \<open>act_len\<close> is the length HTC reported, less the padding,
  which is unsigned: below zero it is as large as too large.
\<close>

definition rx_data :: "(nat \<Rightarrow> bool) \<Rightarrow> tx_env \<Rightarrow> ath6kl \<Rightarrow> nat \<Rightarrow> nat \<Rightarrow> skb \<Rightarrow> (rx_up list \<times> ath6kl) option" where
  "rx_data can env ar v act s =
     (let act_len = int act - int (wmi_data_hdr_pad s);
          tid = wmi_data_hdr_get_up (skb_at s 1); seq_no = unat (wmi_data_hdr_get_seqno s); is_amsdu = wmi_data_hdr_is_amsdu s;
          ap = (nw_type (vifs ar v) = AP_NETWORK)
      in if \<not> ap \<and> (act_len < int (ETH_HDR_LEN + WMI_DATA_HDR_LEN + LLC_SNAP_LEN) \<or> act_len > int WMI_MAX_AMSDU_RX_DATA_FRAME_LENGTH)
         then Some ([], drv_do (upd_vif ar v (\<lambda>x. x\<lparr>net_rx_errors := net_rx_errors x + 1, net_rx_length_errors := net_rx_length_errors x + 1\<rparr>)) [EvFree s])
         else
           case rx_convert s of (st, s1) \<Rightarrow>
             if st \<noteq> 0 then Some ([], drv_do ar [EvFree s1])
             else
               case (if ap then powersave_ap_rx env ar v s1 (nat act_len) (wmi_data_hdr_has_more (rx_hdr s s1)) (wmi_data_hdr_is_trigger (rx_hdr s s1))
                     else Some (Some 0, ar)) of
                 None \<Rightarrow> None
               | Some (None, ar1) \<Rightarrow> Some ([], ar1)
               | Some (Some i, ar1) \<Rightarrow>
                   if \<not> if_up (vifs ar1 v) then Some ([], drv_do ar1 [EvFree s1])
                   else
                     (case (if ap then rx_forward env ar1 v s1 is_amsdu else Some (Some s1, ar1)) of
                        None \<Rightarrow> None
                      | Some (None, ar2) \<Rightarrow> Some ([], ar2)
                      | Some (Some s2, ar2) \<Rightarrow> rx_aggr_process can env ar2 v i tid seq_no is_amsdu s2))"

text \<open>
  \<open>ath6kl_rx\<close>: HTC has filled the buffer with the frame header and \<open>act_len\<close> bytes behind it.
\<close>

definition rx_if_idx :: "ath6kl \<Rightarrow> int \<Rightarrow> skb \<Rightarrow> nat" where
  "rx_if_idx ar ept s =
     (if testmode_epping ar then 0 else if ept = ctrl_ep ar then unat (le16_at s 2 AND WMI_CMD_HDR_IF_ID_MASK)
      else unat (wmi_data_hdr_get_if_idx s))"

definition rx_message :: "nat \<Rightarrow> skb \<Rightarrow> skb" where
  "rx_message act s = skb_pull HTC_HDR_LENGTH (s\<lparr>skb_len := skb_len s + act + HTC_HDR_LENGTH\<rparr>)"

definition ath6kl_rx :: "(nat \<Rightarrow> bool) \<Rightarrow> tx_env \<Rightarrow> ath6kl \<Rightarrow> int \<Rightarrow> int \<Rightarrow> nat \<Rightarrow> skb \<Rightarrow> (rx_up list \<times> ath6kl) option" where
  "ath6kl_rx can env ar ept st act s =
     (if st \<noteq> 0 then Some ([], drv_do ar [EvFree s])
      else
        let s1 = rx_message act s in
        case ath6kl_get_vif_by_index ar (rx_if_idx ar ept s1) of
          None \<Rightarrow> Some ([], drv_do ar [EvFree s1])
        | Some v \<Rightarrow>
            let ar1 = upd_vif ar v (\<lambda>x. x\<lparr>net_rx_packets := net_rx_packets x + 1, net_rx_bytes := net_rx_bytes x + act\<rparr>)
            in if \<not> wmi_enabled ar then ath6kl_deliver_frames_to_nw_stack env ar1 v (skb_pull EPPING_ALIGNMENT_PAD s1)
               else if ept = ctrl_ep ar then Some ([UpWowCheck, UpControl s1], ar1)
               else map_option (\<lambda>(up, ar2). (UpWowCheck # up, ar2)) (rx_data can env ar1 v act s1))"

section \<open>Buffers for HTC\<close>

definition ATH6KL_MAX_RX_BUFFERS :: nat where "ATH6KL_MAX_RX_BUFFERS = 16"
definition ATH6KL_MAX_AMSDU_RX_BUFFERS :: nat where "ATH6KL_MAX_AMSDU_RX_BUFFERS = 4"
definition ATH6KL_AMSDU_REFILL_THRESHOLD :: nat where "ATH6KL_AMSDU_REFILL_THRESHOLD = 3"

text \<open>
  A socket buffer is the packet at its head and the data behind it.  \<open>rb_addr n\<close> is the address of
  the data of the \<open>n\<close>-th allocation, if that succeeds; it is rounded down to a multiple of 4.
\<close>

record rx_bufs =
  rb_addr :: "nat \<Rightarrow> int option"
  rb_allocs :: nat
  amsdu_rx_buffer_queue :: "htc_packet list"

definition new_rx_packet :: "rx_bufs \<Rightarrow> nat \<Rightarrow> nat \<Rightarrow> htc_packet option \<times> rx_bufs" where
  "new_rx_packet d len e =
     (map_option (\<lambda>a. set_htc_rxpkt_info (zero_pkt (rb_allocs d) a) (rb_allocs d) (a - a mod 4) len e) (rb_addr d (rb_allocs d)), d\<lparr>rb_allocs := rb_allocs d + 1\<rparr>)"

text \<open>Both loops end at the first allocation that fails.\<close>

fun new_rx_packets :: "rx_bufs \<Rightarrow> nat \<Rightarrow> nat \<Rightarrow> nat \<Rightarrow> htc_packet list \<times> rx_bufs" where
  "new_rx_packets d len e 0 = ([], d)"
| "new_rx_packets d len e (Suc n) =
     (case new_rx_packet d len e of
        (None, d1) \<Rightarrow> ([], d1)
      | (Some p, d1) \<Rightarrow> (case new_rx_packets d1 len e n of (ps, d2) \<Rightarrow> (p # ps, d2)))"

definition ath6kl_rx_refill :: "'d htc_target \<Rightarrow> rx_bufs \<Rightarrow> nat \<Rightarrow> 'd htc_target \<times> rx_bufs" where
  "ath6kl_rx_refill t d e =
     (let n = int ATH6KL_MAX_RX_BUFFERS - int (ath6kl_htc_mbox_get_rxbuf_num t e) in
      if n \<le> 0 then (t, d)
      else case new_rx_packets d ATH6KL_BUFFER_SIZE e (nat n) of
        (ps, d1) \<Rightarrow> (if ps = [] then t else snd (ath6kl_htc_mbox_add_rxbuf_multiple t ps), d1))"

definition ath6kl_refill_amsdu_rxbufs :: "rx_bufs \<Rightarrow> nat \<Rightarrow> rx_bufs" where
  "ath6kl_refill_amsdu_rxbufs d n =
     (case new_rx_packets d ATH6KL_AMSDU_BUFFER_SIZE 0 n of
        (ps, d1) \<Rightarrow> d1\<lparr>amsdu_rx_buffer_queue := amsdu_rx_buffer_queue d1 @ ps\<rparr>)"

definition ath6kl_alloc_amsdu_rxbuf :: "rx_bufs \<Rightarrow> nat \<Rightarrow> int \<Rightarrow> htc_packet option \<times> rx_bufs" where
  "ath6kl_alloc_amsdu_rxbuf d e len =
     (if len \<le> int ATH6KL_BUFFER_SIZE \<or> len > int ATH6KL_AMSDU_BUFFER_SIZE then (None, d)
      else
        let (po, q) = (case amsdu_rx_buffer_queue d of [] \<Rightarrow> (None, []) | p # q \<Rightarrow> (Some (p\<lparr>endpoint_pkt := e\<rparr>), q));
            n = int ATH6KL_MAX_AMSDU_RX_BUFFERS - int (length q);
            d1 = d\<lparr>amsdu_rx_buffer_queue := q\<rparr>
        in (po, if n \<ge> int ATH6KL_AMSDU_REFILL_THRESHOLD then ath6kl_refill_amsdu_rxbufs d1 (nat n) else d1))"

text \<open>The packets whose buffers are freed.\<close>

definition ath6kl_cleanup_amsdu_rxbufs :: "rx_bufs \<Rightarrow> htc_packet list \<times> rx_bufs" where
  "ath6kl_cleanup_amsdu_rxbufs d = (amsdu_rx_buffer_queue d, d\<lparr>amsdu_rx_buffer_queue := []\<rparr>)"

end
