(* ===== verification/DataRxInv.thy ===== *)
theory DataRxInv
  imports DataRx ApPowerInv
begin

text \<open>
  The receive path loses nothing: every frame goes up, is sent, is freed, waits for a sleeping station or
  waits in a reordering window, once.  \<open>rx_step\<close> is the account of a part of the path that leaves the
  windows alone; the windows come in with the lemmas of \<open>RxReorder\<close>.
\<close>

section \<open>Accounts\<close>

definition rx_same :: "ath6kl \<Rightarrow> ath6kl \<Rightarrow> bool" where
  "rx_same ar ar' \<longleftrightarrow> (\<forall>w j. sta_rx (conn_of ar' w j) = sta_rx (conn_of ar w j)) \<and> valid_eps ar' = valid_eps ar
     \<and> conf_no_rx_drop ar' = conf_no_rx_drop ar"

lemma rx_same_refl [simp]: "rx_same ar ar"
  by (simp add: rx_same_def)

lemma rx_same_trans: "rx_same a b \<Longrightarrow> rx_same b c \<Longrightarrow> rx_same a c"
  by (simp add: rx_same_def)

lemma op_step_rx_same: "op_step ar ar' m \<Longrightarrow> rx_same ar ar'"
proof -
  assume o: "op_step ar ar' m"
  have "sta_rx (conn_of ar' w j) = sta_rx (conn_of ar w j)" for w j
    using arg_cong [OF op_core_conn [OF op_step_core [OF o], of w j], of sta_rx] by (simp add: sta_core_def)
  moreover have "conf_no_rx_drop ar' = conf_no_rx_drop ar"
    using arg_cong [OF op_step_core [OF o], of conf_no_rx_drop] by (simp add: op_core_def)
  ultimately show ?thesis using valid_eps_core [OF op_step_core [OF o]] by (simp add: rx_same_def)
qed

definition queued_all :: "ath6kl \<Rightarrow> ath6kl \<Rightarrow> (nat \<times> nat option \<times> skb) list \<Rightarrow> bool" where
  "queued_all ar ar' qs \<longleftrightarrow> (\<forall>w io. waiting ar' w io = waiting ar w io @ [PsData s. (v, jo, s) \<leftarrow> qs, w = v \<and> io = jo])"

definition skb_ids :: "skb list \<Rightarrow> nat multiset" where
  "skb_ids ss = (\<Sum>s\<leftarrow>ss. id_ms s)"

definition up_ids :: "rx_up list \<Rightarrow> nat multiset" where
  "up_ids us = (\<Sum>u\<leftarrow>us. case u of UpNet v s \<Rightarrow> id_ms s | UpControl s \<Rightarrow> id_ms s | UpWowCheck \<Rightarrow> {#})"

lemma up_ids_simps [simp]: "up_ids [] = {#}" "up_ids (us @ vs) = up_ids us + up_ids vs" "up_ids (UpNet v s # us) = id_ms s + up_ids us"
  "up_ids (UpControl s # us) = id_ms s + up_ids us" "up_ids (UpWowCheck # us) = up_ids us"
  by (simp_all add: up_ids_def)

lemma skb_ids_simps [simp]: "skb_ids [] = {#}" "skb_ids (s # ss) = id_ms s + skb_ids ss" "skb_ids (ss @ ts) = skb_ids ss + skb_ids ts"
  by (simp_all add: skb_ids_def)

definition rx_step :: "ath6kl \<Rightarrow> rx_up list \<Rightarrow> ath6kl \<Rightarrow> nat multiset \<Rightarrow> bool" where
  "rx_step ar up ar' ids \<longleftrightarrow> rx_same ar ar'
     \<and> (\<exists>m qs. drv_step ar ar' m \<and> queued_all ar ar' qs \<and> (anon ar \<longrightarrow> m + skb_ids (map (snd \<circ> snd) qs) + up_ids up = ids))"

lemma queued_all_Nil: "waiting ar' = waiting ar \<Longrightarrow> queued_all ar ar' []"
  by (simp add: queued_all_def)

lemma queued_all_trans: "queued_all a b qs \<Longrightarrow> queued_all b c rs \<Longrightarrow> queued_all a c (qs @ rs)"
  by (simp add: queued_all_def)

lemma drv_step_anon: "drv_step a b m \<Longrightarrow> anon a \<Longrightarrow> anon b"
  by (simp add: drv_step_def)

lemma rx_step_refl [simp]: "rx_step ar [] ar {#}"
  using op_drv_step [OF op_step_refl, of ar] queued_all_Nil [of ar ar] unfolding rx_step_def
  by (intro conjI exI [of _ "{#}"] exI [of _ "[]"]) simp_all

lemma rx_step_trans:
  assumes "rx_step a us b m" and "rx_step b vs c n"
  shows "rx_step a (us @ vs) c (m + n)"
proof -
  obtain d1 q1 where 1: "drv_step a b d1" "queued_all a b q1" "anon a \<longrightarrow> d1 + skb_ids (map (snd \<circ> snd) q1) + up_ids us = m"
    using assms(1) by (auto simp: rx_step_def)
  obtain d2 q2 where 2: "drv_step b c d2" "queued_all b c q2" "anon b \<longrightarrow> d2 + skb_ids (map (snd \<circ> snd) q2) + up_ids vs = n"
    using assms(2) by (auto simp: rx_step_def)
  have "anon a \<longrightarrow> (d1 + d2) + skb_ids (map (snd \<circ> snd) (q1 @ q2)) + up_ids (us @ vs) = m + n"
    using 1(3) 2(3) drv_step_anon [OF 1(1)] by (auto simp: ac_simps)
  then show ?thesis
    using drv_step_trans [OF 1(1) 2(1)] queued_all_trans [OF 1(2) 2(2)] assms rx_same_trans [of a b c]
    unfolding rx_step_def by blast
qed

lemma rx_step_op:
  assumes "op_step ar ar' m"
  shows "rx_step ar [] ar' m"
  unfolding rx_step_def using op_step_rx_same [OF assms] op_drv_step [OF assms] queued_all_Nil [OF op_step_waiting [OF assms]]
  by (intro conjI exI [of _ m] exI [of _ "[]"]) simp_all

lemma rx_step_up:
  assumes "rx_step ar [] ar' m"
  shows "rx_step ar us ar' (m + up_ids us)"
proof -
  obtain d q where "rx_same ar ar'" "drv_step ar ar' d" "queued_all ar ar' q" "anon ar \<longrightarrow> d + skb_ids (map (snd \<circ> snd) q) = m"
    using assms by (auto simp: rx_step_def)
  then show ?thesis unfolding rx_step_def by (intro conjI exI [of _ d] exI [of _ q]) auto
qed

lemma rx_step_ids: "rx_step ar us ar' m \<Longrightarrow> m = n \<Longrightarrow> rx_step ar us ar' n"
  by simp


section \<open>A frame sent on its way\<close>

lemma rx_same_fields:
  assumes "\<And>w. sta_list (vifs ar' w) = sta_list (vifs ar w) \<or> (\<forall>j. sta_rx (sta_list (vifs ar' w) j) = sta_rx (sta_list (vifs ar w) j))"
    and "ibss_ps_enable ar' = ibss_ps_enable ar" "ctrl_ep ar' = ctrl_ep ar" "ac2ep_map ar' = ac2ep_map ar" "conf_no_rx_drop ar' = conf_no_rx_drop ar"
  shows "rx_same ar ar'"
proof -
  have "sta_rx (conn_of ar' w j) = sta_rx (conn_of ar w j)" for w j using assms(1) [of w] by (auto simp: conn_of_def)
  then show ?thesis using assms(2-5) by (simp add: rx_same_def valid_eps_def)
qed

lemma multicast_rx_same: "powersave_ap_tx_multicast env ar v s fl = (kept, f, ar') \<Longrightarrow> rx_same ar ar'"
proof -
  assume a: "powersave_ap_tx_multicast env ar v s fl = (kept, f, ar')"
  define x where "x = vifs ar v"
  obtain ok a1 where al: "drv_alloc (te_can env) ar = (ok, a1)" by (cases "drv_alloc (te_can env) ar")
  obtain ret q where en: "ath6kl_ps_queue_enqueue_data ok (psq_mcast x) s = (ret, q)" by (cases "ath6kl_ps_queue_enqueue_data ok (psq_mcast x) s")
  define a2 where "a2 = upd_vif a1 v (\<lambda>x. x\<lparr>psq_mcast := q\<rparr>)"
  have 2: "rx_same ar a2" using al by (intro rx_same_fields) (auto simp: a2_def upd_vif_def drv_alloc_def)
  have 3: "rx_same a2 (drv_do a2 [EvFree s])" by (rule op_step_rx_same [OF op_free1_step])
  have 4: "rx_same a2 (snd (ath6kl_wmi_set_pvb_cmd (te_can env) a2 n m b))" for n m b
    by (rule op_step_rx_same [OF ctl_op_step [OF set_pvb_step]])
  show ?thesis
    using a 2 rx_same_trans [OF 2 3] rx_same_trans [OF 2 4]
    unfolding powersave_ap_tx_multicast_def Let_def x_def [symmetric] al prod.case en a2_def [symmetric]
    by (auto split: if_splits)
qed

lemma sleep_rx_same: "rx_same ar (powersave_ap_tx_unicast_sleep env ar v i s)"
proof -
  define x where "x = vifs ar v"
  define c where "c = conn_of ar v i"
  obtain ok a1 where al: "drv_alloc (te_can env) ar = (ok, a1)" by (cases "drv_alloc (te_can env) ar")
  obtain ret q where en: "ath6kl_ps_queue_enqueue_data ok (psq_data c) s = (ret, q)" by (cases "ath6kl_ps_queue_enqueue_data ok (psq_data c) s")
  define a2 where "a2 = upd_conn a1 v i (\<lambda>c. c\<lparr>psq_data := q\<rparr>)"
  have 2: "rx_same ar a2" using al by (intro rx_same_fields) (auto simp: a2_def upd_conn_def upd_sta_def upd_vif_def drv_alloc_def)
  have 3: "rx_same a2 (drv_do a2 [EvFree s])" by (rule op_step_rx_same [OF op_free1_step])
  have 4: "rx_same a (snd (ath6kl_wmi_set_pvb_cmd (te_can env) a n m b))" for a n m b
    by (rule op_step_rx_same [OF ctl_op_step [OF set_pvb_step]])
  have 5: "rx_same a (snd (ath6kl_wmi_set_apsd_buffered_traffic_cmd (te_can env) a n m b k))" for a n m b k
    by (rule op_step_rx_same [OF ctl_op_step [OF apsd_traffic_step]])
  show ?thesis
    using 2 rx_same_trans [OF 2 3] rx_same_trans [OF 2 4] rx_same_trans [OF rx_same_trans [OF 2 5] 4]
    unfolding powersave_ap_tx_unicast_sleep_def Let_def x_def [symmetric] c_def [symmetric] al prod.case en a2_def [symmetric]
    by (simp split: if_split)
qed

lemma powersave_rx_same:
  assumes "ath6kl_powersave_ap env ar v s fl = (kept, f, sta, ar')"
  shows "rx_same ar ar'"
proof (cases "is_multicast_ether_addr (skb_range s 0 6)")
  case True
  obtain k g a where m: "powersave_ap_tx_multicast env ar v s fl = (k, g, a)" by (cases "powersave_ap_tx_multicast env ar v s fl")
  show ?thesis using assms True m multicast_rx_same [OF m] by (auto simp: ath6kl_powersave_ap_def)
next
  case False
  have free: "rx_same ar (drv_do ar [EvFree s])" by (rule op_step_rx_same [OF op_free1_step])
  have "powersave_ap_tx_unicast env ar v s fl = (kept, f, sta, ar')" using assms False by (simp add: ath6kl_powersave_ap_def)
  then show ?thesis using sleep_rx_same free by (auto simp: powersave_ap_tx_unicast_def Let_def split: option.splits if_splits)
qed

lemma data_tx_rx_same:
  assumes r: "ath6kl_data_tx env ar v s bypass = Some ar'"
  shows "rx_same ar ar'"
proof -
  obtain ok ar1 s1 where m: "moves ar s ar1 s1" and E: "ath6kl_data_tx env ar v s bypass =
      (if \<not> vif_connected (vifs ar v) \<and> \<not> testmode_epping ar then Some (drv_do ar [EvFree s])
       else if \<not> wmi_ready ar \<and> \<not> testmode_epping ar then Some (fail_tx ar v s)
       else if \<not> ok then Some (fail_tx ar1 v s1)
       else if nw_type (vifs ar v) = AP_NETWORK
       then (case ath6kl_powersave_ap env ar1 v s1 0 of (kept, fl, sta, ar2) \<Rightarrow> if kept then Some ar2 else data_out env ar2 v sta bypass s1 fl)
       else data_out env ar1 v None bypass s1 0)"
    by (rule data_tx_shape [of ar s env v]) blast
  obtain kept fl sta ar2 where p: "ath6kl_powersave_ap env ar1 v s1 0 = (kept, fl, sta, ar2)" by (cases "ath6kl_powersave_ap env ar1 v s1 0")
  have 1: "rx_same ar ar1" using m op_step_rx_same by (auto simp: moves_def)
  have 2: "rx_same ar ar2" by (rule rx_same_trans [OF 1 powersave_rx_same [OF p]])
  have f: "rx_same a (fail_tx a v q)" for a q by (rule op_step_rx_same [OF fail_tx_step])
  have d: "rx_same a b" if "data_out env a v sta' bypass q fl' = Some b" for a b sta' q fl'
    by (rule op_step_rx_same [OF data_out_step [OF that]])
  show ?thesis
    using r op_step_rx_same [OF op_free1_step [of ar s]] f [of ar s] rx_same_trans [OF 1 f] rx_same_trans [OF 2 d] rx_same_trans [OF 1 d] 2
    unfolding E p prod.case by (auto split: if_splits)
qed

lemma data_tx_rx_step:
  assumes "valid_eps ar"
  shows "\<exists>ar'. ath6kl_data_tx env ar v s bypass = Some ar' \<and> rx_step ar [] ar' (id_ms s)"
proof -
  obtain ar' where r: "ath6kl_data_tx env ar v s bypass = Some ar'" using data_tx_returns [OF assms] by blast
  obtain q m where q: "drv_step ar ar' m" "queued_as ar ar' q" "anon ar \<longrightarrow> m + queued_ids q = id_ms s"
    using data_tx_effect [OF r] by blast
  have "queued_all ar ar' (case q of None \<Rightarrow> [] | Some x \<Rightarrow> [x])"
    using q(2) by (auto simp: queued_as_def queued_all_def split: option.splits)
  moreover have "skb_ids (map (snd \<circ> snd) (case q of None \<Rightarrow> [] | Some x \<Rightarrow> [x])) = queued_ids q"
    by (auto simp: queued_ids_def split: option.split)
  ultimately have "rx_step ar [] ar' (id_ms s)"
    unfolding rx_step_def using data_tx_rx_same [OF r] q(1,3) by (metis add.right_neutral up_ids_simps(1))
  then show ?thesis using r by blast
qed

section \<open>Delivery\<close>

lemma eth_type_trans_id [simp]: "id_ms (eth_type_trans s) = id_ms s"
  by (simp add: eth_type_trans_def Let_def id_ms_def skb_pull_def)

lemma deliver_rx_step:
  assumes "valid_eps ar"
  shows "\<exists>up ar'. ath6kl_deliver_frames_to_nw_stack env ar v s = Some (up, ar') \<and> rx_step ar up ar' (id_ms s)"
proof -
  obtain ar' where t: "ath6kl_data_tx env ar v s True = Some ar'" "rx_step ar [] ar' (id_ms s)"
    using data_tx_rx_step [OF assms] by blast
  have f: "rx_step ar [] (drv_do ar [EvFree s]) (id_ms s)" by (rule rx_step_op [OF op_free1_step])
  define a where "a = (if skb_protocol (eth_type_trans s) = ETH_P_PAE \<and> vif_connected (vifs ar v) then ath6kl_eapol_handshake_protect env ar v else ar)"
  have "rx_step ar [] a {#}" unfolding a_def using rx_step_op [OF eapol_protect_step, of ar env v] by simp
  from rx_step_up [OF this, of "[UpNet v (eth_type_trans s)]"] have u: "rx_step ar [UpNet v (eth_type_trans s)] a (id_ms s)" by simp
  show ?thesis
    unfolding ath6kl_deliver_frames_to_nw_stack_def Let_def a_def [symmetric] using t f u by (auto split: if_split)
qed

lemma deliver_events_rx_step:
  assumes "valid_eps ar"
  shows "\<exists>up ar'. deliver_events env ar v es = Some (up, ar') \<and> rx_step ar up ar' (ev_ids es)"
  using assms
proof (induction es arbitrary: ar)
  case (Cons e es)
  have keep: "valid_eps b" if "rx_step ar us b m" for us b m using that Cons.prems by (simp add: rx_step_def rx_same_def)
  show ?case
  proof (cases e)
    case (RxUp s)
    obtain us a where d: "ath6kl_deliver_frames_to_nw_stack env ar v s = Some (us, a)" "rx_step ar us a (id_ms s)"
      using deliver_rx_step [OF Cons.prems] by blast
    obtain vs b where r: "deliver_events env a v es = Some (vs, b)" "rx_step a vs b (ev_ids es)"
      using Cons.IH [OF keep [OF d(2)]] by blast
    show ?thesis using RxUp d(1) r(1) rx_step_trans [OF d(2) r(2)] by simp
  next
    case (RxFree s)
    have f: "rx_step ar [] (drv_do ar [EvFree s]) (id_ms s)" by (rule rx_step_op [OF op_free1_step])
    obtain vs b where r: "deliver_events env (drv_do ar [EvFree s]) v es = Some (vs, b)" "rx_step (drv_do ar [EvFree s]) vs b (ev_ids es)"
      using Cons.IH [OF keep [OF f]] by blast
    show ?thesis using RxFree r(1) rx_step_trans [OF f r(2)] by simp
  qed
qed simp


section \<open>The reordering window on the way\<close>

text \<open>A traffic identifier with an agreement has a sound window, one without has nothing queued.\<close>

definition rx_ok :: "rxtid \<Rightarrow> bool" where
  "rx_ok r \<longleftrightarrow> (if aggr r then rx_inv r else rxq r = [])"

lemma passed_events: "passed can tid n os c c' \<Longrightarrow> \<exists>es. rx_events c' = rx_events c @ es"
  using passedD(8) by blast

lemma recv_events:
  assumes "synced tid cur c c0"
    and "if b then recv_drops can tid cur frame c0 c' else recv_keeps can tid cur am frame c0 c'"
  shows "\<exists>es. rx_events c' = rx_events c @ es"
proof -
  have s: "rx_events c0 = rx_events c" using assms(1) unfolding synced_def by blast
  show ?thesis
  proof (cases b)
    case True
    then obtain n os c1 where "passed can tid n os c0 c1" "rx_events c' = rx_events c1 @ [RxFree frame]"
      using assms(2) by (auto simp: recv_drops_def)
    then show ?thesis using passed_events [of can tid n os c0 c1] s by auto
  next
    case False
    then obtain n os c1 d c2 ps c3 m where "passed can tid n os c0 c1" "passed can tid m ps c2 c3" "rx_events c' = rx_events c3"
       "rx_events c2 = rx_events c1 @ (case hq_skb (win (rx_tid c1 tid) ! d) of None \<Rightarrow> [] | Some x \<Rightarrow> [RxFree x])"
      using assms(2) unfolding recv_keeps_def by auto
    then show ?thesis using passed_events [of can tid n os c0 c1] passed_events [of can tid m ps c2 c3] s by auto
  qed
qed

lemma recv_aggr_effect:
  assumes "rx_inv (rx_tid c tid)" and "aggr (rx_tid c tid)" and "cur < 4096" and "am \<longrightarrow> (\<exists>fs. slices_of frame fs)"
  shows "\<exists>c' es. aggr_process_recv_frm can False c tid cur am frame = Some (True, c') \<and> rx_ok (rx_tid c' tid)
    \<and> (\<forall>x. x \<noteq> tid \<longrightarrow> rx_tid c' x = rx_tid c x) \<and> rx_events c' = rx_events c @ es
    \<and> ev_ids es + held_ids (win (rx_tid c' tid)) = held_ids (win (rx_tid c tid)) + id_ms frame"
proof -
  have inv: "win_inv (rx_tid c tid)" and t: "tid_timer_scheduled (rx_tid c tid) \<longrightarrow> tid_timer (rx_tid c tid) \<noteq> None"
    using assms(1) by (simp_all add: rx_inv_def timer_ok_def)
  have nd: "node_ok (held_node frame am cur)" using assms(4) by (auto simp: node_ok_def held_node_def)
  obtain c0 c' where sy: "synced tid cur c c0" and pr: "aggr_process_recv_frm can False c tid cur am frame = Some (True, c')"
    and how: "if 2 * hold_q_sz (rx_tid c0 tid) \<le> seq_dist (seq_next (rx_tid c0 tid)) cur
       then recv_drops can tid cur frame c0 c' else recv_keeps can tid cur am frame c0 c'"
    using process_chain [OF inv assms(2,3) nd t] by blast
  have "rx_inv (rx_tid c' tid) \<and> aggr (rx_tid c' tid) \<and> (\<forall>x. x \<noteq> tid \<longrightarrow> rx_tid c' x = rx_tid c x)
    \<and> ev_ids (rx_events c') + held_ids (win (rx_tid c' tid)) = ev_ids (rx_events c) + held_ids (win (rx_tid c tid)) + id_ms frame"
    using how recv_drops_inv [OF sy assms(1,2)] recv_keeps_inv [OF sy assms(1,2)] by (auto split: if_splits)
  moreover obtain es where "rx_events c' = rx_events c @ es" using recv_events [OF sy how] by blast
  ultimately show ?thesis using pr by (auto simp: rx_ok_def add.assoc)
qed

lemma recv_plain_effect:
  assumes "rxq (rx_tid c tid) = []" and "\<not> aggr (rx_tid c tid)" and "am \<longrightarrow> (\<exists>fs. slices_of frame fs)"
  shows "\<exists>c' es. aggr_process_recv_frm can nd c tid cur am frame = Some (am, c') \<and> rx_tid c' = rx_tid c
    \<and> rx_events c' = rx_events c @ es \<and> ev_ids es = (if am then id_ms frame else {#})"
proof (cases am)
  case False
  then show ?thesis using assms(2) by (auto simp: aggr_process_recv_frm_def Let_def)
next
  case True
  define c0 where "c0 = upd_rxst c tid (\<lambda>s. s\<lparr>num_into_aggr := num_into_aggr s + 1\<rparr>)"
  obtain fs where fs: "slices_of frame fs" using assms(3) True by blast
  obtain m c1 where s: "aggr_slice_amsdu can c0 tid frame = Some c1"
      "c1 = rx_log (upd_rx c0 tid (\<lambda>r. r\<lparr>rxq := rxq r @ take m fs\<rparr>)) [RxFree frame]\<lparr>free_q := free_q c1, n_alloc := n_alloc c1\<rparr>"
    using slice_amsdu [OF fs, of can c0 tid] by blast
  have none: "\<forall>x\<in>set (take m fs). skb_id x = None" using fs by (auto simp: slices_of_def dest: slices_no_id in_set_takeD)
  have e: "rx_events c1 = rx_events c @ [RxFree frame]" "rx_tid c1 = (rx_tid c)(tid := (rx_tid c tid)\<lparr>rxq := take m fs\<rparr>)"
    using assms(1) by (subst s(2); simp add: c0_def rx_log_def)+
  have r: "(rx_tid c tid)\<lparr>rxq := []\<rparr> = rx_tid c tid" using assms(1) by simp
  define c2 where "c2 = deliver_rxq (upd_rxst c1 tid (\<lambda>s. s\<lparr>num_amsdu := num_amsdu s + 1\<rparr>)) tid"
  have "\<not> aggr (rx_tid c0 tid)" using assms(2) by (simp add: c0_def)
  then have E: "aggr_process_recv_frm can nd c tid cur am frame = Some (am, c2)"
    using True s(1) by (simp add: aggr_process_recv_frm_def Let_def c0_def [symmetric] c2_def)
  have "rx_tid c2 = rx_tid c" using r by (auto simp: c2_def deliver_rxq_def e(2) fun_eq_iff)
  moreover have "rx_events c2 = rx_events c @ [RxFree frame] @ map RxUp (take m fs)" by (simp add: c2_def deliver_rxq_def e)
  ultimately show ?thesis using E True no_ids [OF none]
    by (intro exI [of _ c2] exI [of _ "[RxFree frame] @ map RxUp (take m fs)"]) simp
qed

definition windows_ok :: "ath6kl \<Rightarrow> bool" where
  "windows_ok ar \<longleftrightarrow> (\<forall>v i t. rx_ok (rx_tid (sta_rx (conn_of ar v i)) t))"

definition rx_window :: "ath6kl \<Rightarrow> nat \<Rightarrow> nat \<Rightarrow> nat \<Rightarrow> skb_hold_q list" where
  "rx_window ar v i t = win (rx_tid (sta_rx (conn_of ar v i)) t)"

lemma rx_same_windows: "rx_same ar ar' \<Longrightarrow> windows_ok ar' = windows_ok ar" "rx_same ar ar' \<Longrightarrow> rx_window ar' = rx_window ar"
  by (simp_all add: rx_same_def windows_ok_def rx_window_def fun_eq_iff)

lemma set_rx_conn_fields:
  "sta_rx (conn_of (set_rx_conn ar v i c) w j) = (if w = v \<and> j = i then c else sta_rx (conn_of ar w j))"
  "valid_eps (set_rx_conn ar v i c) = valid_eps ar" "waiting (set_rx_conn ar v i c) = waiting ar"
  "drv_step ar (set_rx_conn ar v i c) {#}"
proof -
  show "sta_rx (conn_of (set_rx_conn ar v i c) w j) = (if w = v \<and> j = i then c else sta_rx (conn_of ar w j))"
    by (simp add: set_rx_conn_def conn_of_def upd_vif_def upd_sta_def)
  show "valid_eps (set_rx_conn ar v i c) = valid_eps ar" by (simp add: set_rx_conn_def valid_eps_def upd_vif_def)
  show "waiting (set_rx_conn ar v i c) = waiting ar"
    by (auto simp: set_rx_conn_def waiting_def upd_vif_def upd_sta_def fun_eq_iff split: option.split)
  show "drv_step ar (set_rx_conn ar v i c) {#}" unfolding set_rx_conn_def by (rule upd_vif_drv_step) (simp add: upd_sta_def)
qed


text \<open>\<open>rx_flow\<close>: the account of a part of the path that may change one window.\<close>

definition rx_flow :: "ath6kl \<Rightarrow> rx_up list \<Rightarrow> ath6kl \<Rightarrow> nat \<times> nat \<times> nat \<Rightarrow> nat multiset \<Rightarrow> bool" where
  "rx_flow ar up ar' k ids \<longleftrightarrow> windows_ok ar' \<and> valid_eps ar'
     \<and> (\<forall>w j t. (w, j, t) \<noteq> k \<longrightarrow> rx_window ar' w j t = rx_window ar w j t)
     \<and> (\<exists>m qs. drv_step ar ar' m \<and> queued_all ar ar' qs
          \<and> (anon ar \<longrightarrow> m + skb_ids (map (snd \<circ> snd) qs) + up_ids up + held_ids ((\<lambda>(v, i, t). rx_window ar' v i t) k)
                          = held_ids ((\<lambda>(v, i, t). rx_window ar v i t) k) + ids))"

lemma rx_step_flow:
  assumes "rx_step ar up ar' m" and "windows_ok ar" and "valid_eps ar"
  shows "rx_flow ar up ar' k m"
proof -
  obtain d qs where d: "drv_step ar ar' d" "queued_all ar ar' qs" "anon ar \<longrightarrow> d + skb_ids (map (snd \<circ> snd) qs) + up_ids up = m"
    and s: "rx_same ar ar'" using assms(1) by (auto simp: rx_step_def)
  note w = rx_same_windows [OF s]
  show ?thesis unfolding rx_flow_def
    by (intro conjI exI [of _ d] exI [of _ qs]) (use assms(2,3) d s w in \<open>auto simp: rx_same_def\<close>)
qed

lemma rx_step_then_flow:
  assumes "rx_step a us b m" and "rx_flow b vs c k n"
  shows "rx_flow a (us @ vs) c k (m + n)"
proof -
  obtain d1 q1 where 1: "drv_step a b d1" "queued_all a b q1" "anon a \<longrightarrow> d1 + skb_ids (map (snd \<circ> snd) q1) + up_ids us = m"
    and s: "rx_same a b" using assms(1) by (auto simp: rx_step_def)
  obtain d2 q2 where 2: "drv_step b c d2" "queued_all b c q2" "anon b \<longrightarrow> d2 + skb_ids (map (snd \<circ> snd) q2) + up_ids vs
      + held_ids ((\<lambda>(v, i, t). rx_window c v i t) k) = held_ids ((\<lambda>(v, i, t). rx_window b v i t) k) + n"
    using assms(2) by (auto simp: rx_flow_def)
  have w: "rx_window b = rx_window a" by (rule rx_same_windows(2) [OF s])
  have "anon a \<longrightarrow> (d1 + d2) + skb_ids (map (snd \<circ> snd) (q1 @ q2)) + up_ids (us @ vs) + held_ids ((\<lambda>(v, i, t). rx_window c v i t) k)
      = held_ids ((\<lambda>(v, i, t). rx_window a v i t) k) + (m + n)"
    using 1(3) 2(3) drv_step_anon [OF 1(1)] w by (auto simp: ac_simps)
  moreover have "windows_ok c" "valid_eps c" "\<forall>w j t. (w, j, t) \<noteq> k \<longrightarrow> rx_window c w j t = rx_window a w j t"
    using assms(2) unfolding rx_flow_def w by blast+
  ultimately show ?thesis using drv_step_trans [OF 1(1) 2(1)] queued_all_trans [OF 1(2) 2(2)] unfolding rx_flow_def by blast
qed

lemma rx_flow_then_step:
  assumes "rx_flow a us b k m" and "rx_step b vs c n"
  shows "rx_flow a (us @ vs) c k (m + n)"
proof -
  obtain d1 q1 where 1: "drv_step a b d1" "queued_all a b q1" "anon a \<longrightarrow> d1 + skb_ids (map (snd \<circ> snd) q1) + up_ids us
      + held_ids ((\<lambda>(v, i, t). rx_window b v i t) k) = held_ids ((\<lambda>(v, i, t). rx_window a v i t) k) + m"
    using assms(1) by (auto simp: rx_flow_def)
  obtain d2 q2 where 2: "drv_step b c d2" "queued_all b c q2" "anon b \<longrightarrow> d2 + skb_ids (map (snd \<circ> snd) q2) + up_ids vs = n"
    and s: "rx_same b c" using assms(2) by (auto simp: rx_step_def)
  note w = rx_same_windows [OF s]
  have "anon a \<longrightarrow> (d1 + d2) + skb_ids (map (snd \<circ> snd) (q1 @ q2)) + up_ids (us @ vs) + held_ids ((\<lambda>(v, i, t). rx_window c v i t) k)
      = held_ids ((\<lambda>(v, i, t). rx_window a v i t) k) + (m + n)"
    using 1(3) 2(3) drv_step_anon [OF 1(1)] w by (auto simp: ac_simps)
  moreover have "windows_ok c" "valid_eps c" "\<forall>w j t. (w, j, t) \<noteq> k \<longrightarrow> rx_window c w j t = rx_window a w j t"
    using assms(1) s unfolding rx_flow_def rx_same_def w by blast+
  ultimately show ?thesis using drv_step_trans [OF 1(1) 2(1)] queued_all_trans [OF 1(2) 2(2)] unfolding rx_flow_def by blast
qed

lemma on_rx_conn_flow:
  assumes f: "f (rx_conn_of ar v i) = Some (r, c)" and ev: "rx_events c = rx_events (rx_conn_of ar v i) @ es"
    and ok: "windows_ok ar" "valid_eps ar" "rx_ok (rx_tid c tid)" and oth: "\<And>t. t \<noteq> tid \<Longrightarrow> rx_tid c t = rx_tid (rx_conn_of ar v i) t"
    and ids: "ev_ids es + held_ids (win (rx_tid c tid)) = held_ids (win (rx_tid (rx_conn_of ar v i) tid)) + n"
  shows "\<exists>up ar'. on_rx_conn env ar v i f = Some (r, up, ar') \<and> rx_flow ar up ar' (v, i, tid) n"
proof -
  define a where "a = set_rx_conn ar v i c"
  note A = set_rx_conn_fields [of ar v i c, folded a_def]
  have c0: "rx_tid (rx_conn_of ar v i) = rx_tid (sta_rx (conn_of ar v i))" by (simp add: rx_conn_of_def)
  have "valid_eps a" using A(2) ok(2) by simp
  then obtain up ar' where d: "deliver_events env a v es = Some (up, ar')" "rx_step a up ar' (ev_ids es)"
    using deliver_events_rx_step by blast
  obtain m qs where s: "drv_step a ar' m" "queued_all a ar' qs" "anon a \<longrightarrow> m + skb_ids (map (snd \<circ> snd) qs) + up_ids up = ev_ids es"
    and same: "rx_same a ar'" using d(2) by (auto simp: rx_step_def)
  have tids: "rx_tid (sta_rx (conn_of a w j)) t = (if (w, j, t) = (v, i, tid) then rx_tid c tid else rx_tid (sta_rx (conn_of ar w j)) t)" for w j t
    using A(1) oth c0 by auto
  have wa: "windows_ok a" using ok(1,3) tids by (simp add: windows_ok_def)
  note W = rx_same_windows [OF same]
  have win: "rx_window ar' w j t = (if (w, j, t) = (v, i, tid) then win (rx_tid c tid) else rx_window ar w j t)" for w j t
    by (simp only: W(2) rx_window_def tids split: if_split) auto
  have "drv_step ar ar' m" by (rule drv_step_trans0 [OF A(4) s(1)])
  moreover have "queued_all ar ar' qs" using s(2) A(3) by (simp add: queued_all_def)
  moreover have "anon ar \<longrightarrow> m + skb_ids (map (snd \<circ> snd) qs) + up_ids up + held_ids (rx_window ar' v i tid) = held_ids (rx_window ar v i tid) + n"
  proof
    assume "anon ar"
    then have "m + skb_ids (map (snd \<circ> snd) qs) + up_ids up = ev_ids es" using s(3) drv_step_anon [OF A(4)] by simp
    then show "m + skb_ids (map (snd \<circ> snd) qs) + up_ids up + held_ids (rx_window ar' v i tid) = held_ids (rx_window ar v i tid) + n"
      using ids by (simp add: win) (simp add: rx_window_def c0)
  qed
  ultimately have "rx_flow ar up ar' (v, i, tid) n"
    unfolding rx_flow_def using W(1) wa same A(2) ok(2) win by (auto simp: rx_same_def)
  then show ?thesis using f d(1) ev by (auto simp: on_rx_conn_def Let_def a_def)
qed


lemma rx_aggr_process_flow:
  assumes ok: "windows_ok ar" "valid_eps ar" and d: "\<not> conf_no_rx_drop ar" and sq: "seq < 4096" and am: "am \<longrightarrow> (\<exists>fs. slices_of s fs)"
  shows "\<exists>up ar'. rx_aggr_process can env ar v i tid seq am s = Some (up, ar') \<and> rx_flow ar up ar' (v, i, tid) (id_ms s)"
proof -
  define c where "c = rx_conn_of ar v i"
  obtain us b where dl: "ath6kl_deliver_frames_to_nw_stack env ar v s = Some (us, b)" "rx_step ar us b (id_ms s)"
    using deliver_rx_step [OF ok(2)] by blast
  have direct: ?thesis if "rx_aggr_process can env ar v i tid seq am s = ath6kl_deliver_frames_to_nw_stack env ar v s"
    using that dl rx_step_flow [OF dl(2) ok] by auto
  have r: "rx_ok (rx_tid c tid)" using ok(1) by (simp add: windows_ok_def c_def rx_conn_of_def)
  show ?thesis
  proof (cases "\<not> is_multicast_ether_addr (skb_range s 0 6) \<or> nw_type (vifs ar v) = AP_NETWORK")
    case False
    then show ?thesis by (intro direct) (simp add: rx_aggr_process_def)
  next
    case thru: True
    show ?thesis
    proof (cases "aggr (rx_tid c tid)")
      case True
      then have "rx_inv (rx_tid c tid)" using r by (simp add: rx_ok_def)
      from recv_aggr_effect [OF this True sq am, of can] obtain c' es where e:
        "aggr_process_recv_frm can False c tid seq am s = Some (True, c')" "rx_ok (rx_tid c' tid)"
        "\<forall>x. x \<noteq> tid \<longrightarrow> rx_tid c' x = rx_tid c x" "rx_events c' = rx_events c @ es"
        "ev_ids es + held_ids (win (rx_tid c' tid)) = held_ids (win (rx_tid c tid)) + id_ms s" by blast
      from on_rx_conn_flow [of "\<lambda>c. aggr_process_recv_frm can (conf_no_rx_drop ar) c tid seq am s" ar v i, folded c_def,
          OF _ e(4) ok e(2) _ e(5), of True env]
      show ?thesis using thru d e(1,3) by (auto simp: rx_aggr_process_def)
    next
      case False
      then have q: "rxq (rx_tid c tid) = []" using r by (simp add: rx_ok_def)
      from recv_plain_effect [OF q False am, of can "conf_no_rx_drop ar" seq] obtain c' es where e:
        "aggr_process_recv_frm can (conf_no_rx_drop ar) c tid seq am s = Some (am, c')" "rx_tid c' = rx_tid c"
        "rx_events c' = rx_events c @ es" "ev_ids es = (if am then id_ms s else {#})" by blast
      have "\<exists>up a. on_rx_conn env ar v i (\<lambda>c. aggr_process_recv_frm can (conf_no_rx_drop ar) c tid seq am s) = Some (am, up, a)
          \<and> rx_flow ar up a (v, i, tid) (if am then id_ms s else {#})"
        by (rule on_rx_conn_flow [of "\<lambda>c. aggr_process_recv_frm can (conf_no_rx_drop ar) c tid seq am s" ar v i, folded c_def, OF e(1,3) ok])
          (use e(2,4) r in auto)
      then obtain up a where o: "on_rx_conn env ar v i (\<lambda>c. aggr_process_recv_frm can (conf_no_rx_drop ar) c tid seq am s) = Some (am, up, a)"
          "rx_flow ar up a (v, i, tid) (if am then id_ms s else {#})" by blast
      have "valid_eps a" using o(2) by (simp add: rx_flow_def)
      then obtain us' b' where dl': "ath6kl_deliver_frames_to_nw_stack env a v s = Some (us', b')" "rx_step a us' b' (id_ms s)"
        using deliver_rx_step by blast
      show ?thesis
      proof (cases am)
        case True
        then show ?thesis using thru o by (auto simp: rx_aggr_process_def)
      next
        case notam: False
        have "rx_flow ar (up @ us') b' (v, i, tid) (id_ms s)" using notam
          rx_flow_then_step [OF o(2) dl'(2)] by simp
        then show ?thesis using thru o(1) dl'(1) notam by (simp add: rx_aggr_process_def)
      qed
    qed
  qed
qed

section \<open>Forwarding and the state of the sender\<close>

lemma rx_forward_step:
  assumes "valid_eps ar"
  shows "\<exists>so ar'. rx_forward env ar v s am = Some (so, ar') \<and> (so = None \<or> so = Some s)
    \<and> rx_step ar [] ar' (if so = None then id_ms s else {#})"
proof -
  obtain ok a where al: "drv_alloc (te_can env) ar = (ok, a)" by (cases "drv_alloc (te_can env) ar")
  have 1: "op_step ar a {#}" by (rule op_alloc_step [OF al])
  have va: "valid_eps a" using op_step_rx_same [OF 1] assms by (simp add: rx_same_def)
  obtain b where b: "ath6kl_data_tx env a v (s\<lparr>skb_id := None, skb_cloned := False\<rparr>) True = Some b" "rx_step a [] b {#}"
    using data_tx_rx_step [OF va, of env v "s\<lparr>skb_id := None, skb_cloned := False\<rparr>" True] by (auto simp: id_ms_def)
  obtain c where c: "ath6kl_data_tx env ar v s True = Some c" "rx_step ar [] c (id_ms s)" using data_tx_rx_step [OF assms] by blast
  have f: "rx_step ar [] (drv_do ar [EvFree s]) (id_ms s)" by (rule rx_step_op [OF op_free1_step])
  have ab: "rx_step ar [] b {#}" using rx_step_trans [OF rx_step_op [OF 1] b(2)] by simp
  show ?thesis unfolding rx_forward_def al prod.case
    using b(1) c f ab rx_step_op [OF 1] by (auto split: if_split option.split)
qed

lemma upd_conn_rx_step:
  assumes "\<And>c. sta_rx (f c) = sta_rx c" "\<And>c. sta_tx (f c) = sta_tx c" "\<And>c. psq_data (f c) = psq_data c"
  shows "rx_step ar [] (upd_conn ar v i f) {#}"
proof -
  have d: "drv_step ar (upd_conn ar v i f) {#}" unfolding upd_conn_def by (rule upd_vif_drv_step) (simp add: upd_sta_def assms(2))
  have s: "rx_same ar (upd_conn ar v i f)" by (rule rx_same_fields) (auto simp: upd_conn_def upd_vif_def upd_sta_def assms(1))
  have "waiting (upd_conn ar v i f) = waiting ar"
    by (auto simp: waiting_def upd_conn_def upd_vif_def upd_sta_def assms(3) fun_eq_iff split: option.split)
  from queued_all_Nil [OF this] show ?thesis unfolding rx_step_def using d s
    by (intro conjI exI [of _ "{#}"] exI [of _ "[]"]) simp_all
qed

lemma flush_rx_step:
  assumes "valid_eps ar"
  shows "\<exists>ar'. aggr_tx_flush env ar v (Some i) = Some ar' \<and> rx_step ar [] ar' {#}"
proof -
  obtain ar' where "aggr_tx_flush env ar v (Some i) = Some ar'" using flush_tids_returns [OF assms, of env v i "rev [0..<NUM_OF_TIDS]"] by (auto simp: aggr_tx_flush_def)
  then show ?thesis using rx_step_op [OF aggr_tx_flush_step] by blast
qed

text \<open>A frame that does not wake its sender and triggers no service period.\<close>

definition rx_calm :: "ath6kl \<Rightarrow> nat \<Rightarrow> skb \<Rightarrow> bool \<Rightarrow> bool \<Rightarrow> bool" where
  "rx_calm ar v s ps_state trigger \<longleftrightarrow> \<not> (ps_state \<and> trigger)
     \<and> (\<forall>i. ath6kl_find_sta (vifs ar v) (skb_range s 6 6) = Some i \<and> has_flag (sta_flags (conn_of ar v i)) STA_PS_SLEEP \<longrightarrow> ps_state)"

lemma powersave_rx_step:
  assumes v: "valid_eps ar" and calm: "rx_calm ar v s ps tr"
  shows "\<exists>so ar'. powersave_ap_rx env ar v s len ps tr = Some (so, ar') \<and> rx_step ar [] ar' (if so = None then id_ms s else {#})"
proof (cases "ath6kl_find_sta (vifs ar v) (skb_range s 6 6)")
  case None
  then show ?thesis using rx_step_op [OF op_free1_step [of ar s]] by (simp add: powersave_ap_rx_def)
next
  case (Some i)
  define prev where "prev = has_flag (sta_flags (conn_of ar v i)) STA_PS_SLEEP"
  have set: "rx_step ar [] (sta_set ar v i f) {#}" "rx_step ar [] (sta_clear ar v i f) {#}" for f
    unfolding sta_set_def sta_clear_def by (rule upd_conn_rx_step; simp)+
  have age: "rx_step a [] (upd_conn a v i ath6kl_ps_queue_age_start) {#}" "rx_step a [] (upd_conn a v i ath6kl_ps_queue_age_stop) {#}" for a
    by (rule upd_conn_rx_step; simp add: ath6kl_ps_queue_age_start_def ath6kl_ps_queue_age_stop_def)+
  define a1 where "a1 = sta_set ar v i STA_PS_SLEEP"
  have "valid_eps a1" using set(1) v by (simp add: a1_def rx_step_def rx_same_def)
  then obtain a2 where fl: "aggr_tx_flush env a1 v (Some i) = Some a2" "rx_step a1 [] a2 {#}" using flush_rx_step by blast
  define a where "a = (if ps then if prev then a1 else upd_conn a2 v i ath6kl_ps_queue_age_start else sta_clear ar v i STA_PS_SLEEP)"
  have "rx_step ar [] (upd_conn a2 v i ath6kl_ps_queue_age_start) {#}"
    using rx_step_trans [OF rx_step_trans [OF set(1) [of STA_PS_SLEEP, folded a1_def] fl(2)] age(1)] by simp
  then have a: "rx_step ar [] a {#}" using set by (simp add: a_def a1_def)
  have np: "\<not> (\<not> ps \<and> prev)" "\<not> (ps \<and> tr)" using calm Some by (auto simp: rx_calm_def prev_def)
  have aw: "\<not> (prev \<and> \<not> has_flag (sta_flags (conn_of a v i)) STA_PS_SLEEP)"
    using np by (auto simp: a_def a1_def sta_set_def conn_of_def upd_conn_def upd_vif_def upd_sta_def STA_PS_SLEEP_def)
  have E: "powersave_ap_rx env ar v s len ps tr = (if len < ETH_HDR_LEN + WMI_DATA_HDR_LEN + LLC_SNAP_LEN \<or> len > WMI_MAX_AMSDU_RX_DATA_FRAME_LENGTH
      then Some (None, drv_do a [EvFree s]) else Some (Some i, a))"
    unfolding powersave_ap_rx_def Some option.case Let_def prev_def [symmetric]
    using np aw fl(1) by (auto simp: a_def a1_def)
  have "rx_step ar [] (drv_do a [EvFree s]) (id_ms s)" using rx_step_trans [OF a rx_step_op [OF op_free1_step [of a s]]] by simp
  then show ?thesis unfolding E using a by simp
qed


section \<open>A received message\<close>

lemma convert_id [simp]: "id_ms (snd (rx_convert s)) = id_ms s"
  by (simp add: rx_convert_def rx_strip_def dot3_2_dix_skb_def ath6kl_wmi_dot11_hdr_remove_def Let_def id_ms_def)

lemma message_id [simp]: "id_ms (rx_message act s) = id_ms s"
  by (simp add: rx_message_def id_ms_def)

lemma convert_status [simp]: "fst (rx_convert s) = 0"
  by (simp add: rx_convert_def ath6kl_wmi_dot11_hdr_remove_def Let_def)

text \<open>The frame neither wakes its sender nor triggers delivery, and an aggregate can be taken apart.\<close>

definition rx_fair :: "ath6kl \<Rightarrow> nat \<Rightarrow> skb \<Rightarrow> bool" where
  "rx_fair ar v s \<longleftrightarrow>
     (nw_type (vifs ar v) = AP_NETWORK \<longrightarrow>
        rx_calm ar v (snd (rx_convert s)) (wmi_data_hdr_has_more (rx_hdr s (snd (rx_convert s))))
          (wmi_data_hdr_is_trigger (rx_hdr s (snd (rx_convert s)))))
     \<and> (wmi_data_hdr_is_amsdu s \<longrightarrow> (\<exists>fs. slices_of (snd (rx_convert s)) fs))"

lemma count_rx_step:
  assumes "\<And>x. sta_list (f x) = sta_list x" "\<And>x. psq_mcast (f x) = psq_mcast x"
  shows "rx_step ar [] (upd_vif ar v f) {#}"
proof -
  have d: "drv_step ar (upd_vif ar v f) {#}" by (rule upd_vif_drv_step) (simp add: assms(1))
  have s: "rx_same ar (upd_vif ar v f)" by (rule rx_same_fields) (auto simp: upd_vif_def assms(1))
  have "waiting (upd_vif ar v f) = waiting ar" by (auto simp: waiting_def upd_vif_def assms fun_eq_iff split: option.split)
  from queued_all_Nil [OF this] show ?thesis unfolding rx_step_def using d s
    by (intro conjI exI [of _ "{#}"] exI [of _ "[]"]) simp_all
qed

lemma seqno_bound: "unat (wmi_data_hdr_get_seqno s) < 4096"
proof -
  have "le16_at s 2 AND 0xFFF \<le> 0xFFF" by (rule word_and_le1)
  then show ?thesis by (simp add: wmi_data_hdr_get_seqno_def word_le_nat_alt)
qed

lemma rx_tail_flow:
  assumes ok: "windows_ok a" "valid_eps a" and d: "\<not> conf_no_rx_drop a" and sl: "am \<longrightarrow> (\<exists>fs. slices_of s fs)" and sq: "seq < 4096"
  shows "\<exists>up ar'. (if \<not> if_up (vifs a v) then Some ([], drv_do a [EvFree s])
        else (case (if ap then rx_forward env a v s am else Some (Some s, a)) of
                None \<Rightarrow> None | Some (None, b) \<Rightarrow> Some ([], b)
              | Some (Some s2, b) \<Rightarrow> rx_aggr_process can env b v i tid seq am s2)) = Some (up, ar')
    \<and> rx_flow a up ar' (v, i, tid) (id_ms s)"
proof -
  have fr: "rx_flow a [] (drv_do a [EvFree s]) (v, i, tid) (id_ms s)" by (rule rx_step_flow [OF rx_step_op [OF op_free1_step] ok])
  obtain fo b where f: "(if ap then rx_forward env a v s am else Some (Some s, a)) = Some (fo, b)" "fo = None \<or> fo = Some s"
      "rx_step a [] b (if fo = None then id_ms s else {#})"
    using rx_forward_step [OF ok(2), of env v s am] by (cases ap) auto
  have kb: "windows_ok b" "valid_eps b" "\<not> conf_no_rx_drop b" using f(3) ok d rx_same_windows(1) [of a b] by (auto simp: rx_step_def rx_same_def)
  from rx_aggr_process_flow [OF kb sq sl] obtain up ar' where
    r: "rx_aggr_process can env b v i tid seq am s = Some (up, ar')" "rx_flow b up ar' (v, i, tid) (id_ms s)" by blast
  show ?thesis
  proof (cases fo)
    case None
    then show ?thesis using f(1) fr rx_step_flow [OF f(3) ok, of "(v, i, tid)"] by auto
  next
    case (Some s2)
    then have "rx_flow a up ar' (v, i, tid) (id_ms s)" using rx_step_then_flow [OF f(3) r(2)] by simp
    then show ?thesis using f(1,2) fr r(1) Some by auto
  qed
qed

lemma rx_data_flow:
  assumes ok: "windows_ok ar" "valid_eps ar" and d: "\<not> conf_no_rx_drop ar" and fair: "rx_fair ar v s"
  shows "\<exists>i up ar'. rx_data can env ar v act s = Some (up, ar') \<and> rx_flow ar up ar' (v, i, wmi_data_hdr_get_up (skb_at s 1)) (id_ms s)"
proof -
  define s1 where "s1 = snd (rx_convert s)"
  define ap where "ap = (nw_type (vifs ar v) = AP_NETWORK)"
  define am where "am = wmi_data_hdr_is_amsdu s"
  define ps where "ps = wmi_data_hdr_has_more (rx_hdr s s1)"
  define tr where "tr = wmi_data_hdr_is_trigger (rx_hdr s s1)"
  define len where "len = nat (int act - int (wmi_data_hdr_pad s))"
  let ?tid = "wmi_data_hdr_get_up (skb_at s 1)"
  have c: "rx_convert s = (0, s1)" and i1: "id_ms s1 = id_ms s" by (simp_all add: s1_def prod_eq_iff)
  have sl: "am \<longrightarrow> (\<exists>fs. slices_of s1 fs)" using fair by (simp add: rx_fair_def am_def s1_def)
  have short: ?thesis if "rx_data can env ar v act s = Some ([], drv_do (upd_vif ar v f) [EvFree s])"
      "\<And>x. sta_list (f x) = sta_list x" "\<And>x. psq_mcast (f x) = psq_mcast x" for f
    using that(1) rx_step_flow [OF rx_step_trans [OF count_rx_step [OF that(2,3)] rx_step_op [OF op_free1_step]] ok] by fastforce
  obtain so a where p: "(if ap then powersave_ap_rx env ar v s1 len ps tr else Some (Some 0, ar)) = Some (so, a)"
      "rx_step ar [] a (if so = None then id_ms s else {#})"
  proof (cases ap)
    case True
    then have "rx_calm ar v s1 ps tr" using fair by (simp add: rx_fair_def ap_def s1_def ps_def tr_def)
    from powersave_rx_step [OF ok(2) this, of env len, unfolded i1] show thesis using that True by auto
  next
    case False
    then show thesis using that [of "Some 0" ar] by simp
  qed
  have ka: "windows_ok a" "valid_eps a" "\<not> conf_no_rx_drop a" using p(2) ok d rx_same_windows(1) by (auto simp: rx_step_def rx_same_def)
  show ?thesis
  proof (cases "\<not> ap \<and> (int act - int (wmi_data_hdr_pad s) < int (ETH_HDR_LEN + WMI_DATA_HDR_LEN + LLC_SNAP_LEN)
      \<or> int act - int (wmi_data_hdr_pad s) > int WMI_MAX_AMSDU_RX_DATA_FRAME_LENGTH)")
    case True
    then show ?thesis
      by (intro short [of "\<lambda>x. x\<lparr>net_rx_errors := net_rx_errors x + 1, net_rx_length_errors := net_rx_length_errors x + 1\<rparr>"])
        (simp_all add: rx_data_def Let_def ap_def)
  next
    case False
    then have E: "rx_data can env ar v act s = (case so of None \<Rightarrow> Some ([], a) | Some i \<Rightarrow>
        if \<not> if_up (vifs a v) then Some ([], drv_do a [EvFree s1])
        else (case (if ap then rx_forward env a v s1 am else Some (Some s1, a)) of
                None \<Rightarrow> None | Some (None, b) \<Rightarrow> Some ([], b)
              | Some (Some s2, b) \<Rightarrow> rx_aggr_process can env b v i ?tid (unat (wmi_data_hdr_get_seqno s)) am s2))"
      unfolding rx_data_def Let_def c prod.case ap_def [symmetric] am_def [symmetric] ps_def [symmetric] tr_def [symmetric] len_def [symmetric] p(1) if_not_P [OF False]
      by (simp split: option.split)
    show ?thesis
    proof (cases so)
      case None
      then show ?thesis using E rx_step_flow [OF p(2) ok] by auto
    next
      case (Some i)
      from rx_tail_flow [OF ka sl seqno_bound, where v = v and ap = ap and env = env and can = can and i = i and tid = ?tid] obtain up ar' where
        r: "rx_data can env ar v act s = Some (up, ar')" "rx_flow a up ar' (v, i, ?tid) (id_ms s1)" unfolding E Some option.case by blast
      then show ?thesis using rx_step_then_flow [OF p(2) r(2)] Some i1 by auto
    qed
  qed
qed


definition ex_rx_skb :: skb where
  "ex_rx_skb = \<lparr>skb_id = Some 9, skb_mem = (\<lambda>_. 0), skb_ptr = 0, skb_len = 0, skb_head = -64, skb_protocol = 0, skb_cloned = False\<rparr>"



section \<open>Buffers for HTC\<close>

text \<open>
  The queue of large buffers never holds more than \<open>ATH6KL_MAX_AMSDU_RX_BUFFERS\<close>; a buffer it gives out is
  aligned, belongs to the endpoint that asked, and holds the message.
\<close>

definition rxb_ok :: "rx_bufs \<Rightarrow> bool" where
  "rxb_ok d \<longleftrightarrow> length (amsdu_rx_buffer_queue d) \<le> ATH6KL_MAX_AMSDU_RX_BUFFERS
     \<and> (\<forall>p\<in>set (amsdu_rx_buffer_queue d). buf_len p = ATH6KL_AMSDU_BUFFER_SIZE \<and> 4 dvd buf p)"

lemma new_rx_packets_bound:
  "new_rx_packets d len e n = (ps, d') \<Longrightarrow> length ps \<le> n \<and> amsdu_rx_buffer_queue d' = amsdu_rx_buffer_queue d
    \<and> (\<forall>p\<in>set ps. buf_len p = len \<and> endpoint_pkt p = e \<and> 4 dvd buf p)"
proof (induction n arbitrary: d ps d')
  case (Suc n)
  obtain po d1 where p: "new_rx_packet d len e = (po, d1)" by (cases "new_rx_packet d len e")
  obtain qs d2 where q: "new_rx_packets d1 len e n = (qs, d2)" by (cases "new_rx_packets d1 len e n")
  have "4 dvd a - a mod 4" for a :: int by (simp add: minus_mod_eq_mult_div)
  then show ?case using Suc.prems Suc.IH [OF q] p q
    by (auto simp: new_rx_packet_def set_htc_rxpkt_info_def zero_pkt_def split: option.splits)
qed simp

lemma refill_amsdu_ok:
  assumes "rxb_ok d" and "length (amsdu_rx_buffer_queue d) + n \<le> ATH6KL_MAX_AMSDU_RX_BUFFERS"
  shows "rxb_ok (ath6kl_refill_amsdu_rxbufs d n)"
proof -
  obtain ps d1 where n: "new_rx_packets d ATH6KL_AMSDU_BUFFER_SIZE 0 n = (ps, d1)" by (cases "new_rx_packets d ATH6KL_AMSDU_BUFFER_SIZE 0 n")
  show ?thesis using assms new_rx_packets_bound [OF n] by (auto simp: ath6kl_refill_amsdu_rxbufs_def n rxb_ok_def)
qed

lemma alloc_amsdu_fits:
  assumes "rxb_ok d" and "ath6kl_alloc_amsdu_rxbuf d e len = (po, d')"
  shows "rxb_ok d'" and "po = Some p \<Longrightarrow> len \<le> int (buf_len p) \<and> endpoint_pkt p = e \<and> 4 dvd buf p"
proof -
  have t: "rxb_ok (d\<lparr>amsdu_rx_buffer_queue := q\<rparr>)" if "amsdu_rx_buffer_queue d = p # q" for p q using assms(1) that by (simp add: rxb_ok_def)
  have e: "rxb_ok (d\<lparr>amsdu_rx_buffer_queue := []\<rparr>)" by (simp add: rxb_ok_def)
  have r: "rxb_ok (ath6kl_refill_amsdu_rxbufs d1 (nat (int ATH6KL_MAX_AMSDU_RX_BUFFERS - int (length (amsdu_rx_buffer_queue d1)))))"
    if "rxb_ok d1" for d1 using that by (intro refill_amsdu_ok) (auto simp: rxb_ok_def)
  show "rxb_ok d'"
    using assms t e r [OF e] r [OF t] by (auto simp: ath6kl_alloc_amsdu_rxbuf_def Let_def split: list.splits if_splits)
  show "len \<le> int (buf_len p) \<and> endpoint_pkt p = e \<and> 4 dvd buf p" if "po = Some p"
    using assms that by (auto simp: ath6kl_alloc_amsdu_rxbuf_def Let_def rxb_ok_def split: list.splits if_splits)
qed

text \<open>A refill never brings a queue of HTC above \<open>ATH6KL_MAX_RX_BUFFERS\<close>.\<close>

lemma rx_refill_amount:
  assumes "ath6kl_rx_refill t d e = (t', d')" and "t' \<noteq> t"
  shows "\<exists>ps st. ath6kl_htc_mbox_add_rxbuf_multiple t ps = (st, t') \<and> length (rx_bufq (endpoint t e)) + length ps \<le> ATH6KL_MAX_RX_BUFFERS
    \<and> (\<forall>p\<in>set ps. endpoint_pkt p = e \<and> buf_len p = ATH6KL_BUFFER_SIZE)"
proof -
  define n where "n = nat (int ATH6KL_MAX_RX_BUFFERS - int (ath6kl_htc_mbox_get_rxbuf_num t e))"
  obtain ps d1 where b: "new_rx_packets d ATH6KL_BUFFER_SIZE e n = (ps, d1)" by (cases "new_rx_packets d ATH6KL_BUFFER_SIZE e n")
  have "snd (ath6kl_htc_mbox_add_rxbuf_multiple t ps) = t'" "0 < n"
    using assms by (auto simp: ath6kl_rx_refill_def Let_def n_def [symmetric] b split: if_splits) (simp add: n_def)
  then show ?thesis using new_rx_packets_bound [OF b]
    by (intro exI [of _ ps] exI [of _ "fst (ath6kl_htc_mbox_add_rxbuf_multiple t ps)"]) (auto simp: n_def ath6kl_htc_mbox_get_rxbuf_num_def prod_eq_iff)
qed

section \<open>Isolation of stations\<close>

text \<open>
  Without \<open>intra_bss\<close> no frame for a station is sent on; a group frame is, whatever \<open>intra_bss\<close> says.
\<close>

lemma isolated_frame_freed:
  assumes "\<not> intra_bss (vifs ar v)" and "\<not> is_multicast_ether_addr (skb_range s 0 6)" and "ath6kl_find_sta (vifs ar v) (skb_range s 0 6) = Some j"
  shows "rx_forward env ar v s False = Some (None, drv_do ar [EvFree s])"
  using assms by (simp add: rx_forward_def)

lemma group_frame_ignores_isolation:
  assumes "is_multicast_ether_addr (skb_range s 0 6)" and "drv_alloc (te_can env) ar = (True, ar1)"
  shows "rx_forward env ar v s am = map_option (Pair (Some s)) (ath6kl_data_tx env ar1 v (s\<lparr>skb_id := None, skb_cloned := False\<rparr>) True)"
  using assms by (simp add: rx_forward_def)

end
