(* ===== verification/Spec2Isabelle.thy ===== *)
theory Spec2Isabelle
  imports Prelude HtcCredit HtcTarget HtcTx HtcRx HtcSetup HtcSystem RxReorder PsQueue AmsduTx WmiData Station Cookie Driver DataTx ApPowerSave DriverInv DataTxInv DriverRun ApPowerInv DataRx DataRxInv
begin

text \<open>
  The core of the ath6kl driver (src/drivers/ath6kl): the host side of an Atheros AR600x wireless
  adapter.  This development models the path of a frame and of a command through the driver, in both
  directions, and proves what makes it correct.

  \<^bold>\<open>The program and its parts.\<close>  The network stack hands a frame to \<open>ath6kl_data_tx\<close> (txrx.c).  For an
  access point the frame may wait in the power save queue of its station (main.c); it may be packed
  into an aggregate (txrx.c); it is turned into an 802.3 message with a data header (wmi.c), gets a
  cookie (main.c) and an endpoint, and goes to the mailbox layer HTC (htc.c).  HTC queues it on the
  endpoint, pays for it with credits the target has given out, bundles messages, and passes them to
  the bus.  A completed packet comes back by \<open>ath6kl_tx_complete\<close>, which returns the cookie.  On
  the way in HTC learns from a look-ahead what the target holds, fetches messages into buffers,
  checks their headers, takes credits and further look-aheads from their trailers and passes them
  up; data frames go through the reordering window of their station and traffic identifier.
  Commands to the target take the way of a control message; streams of priorities are opened by
  commands and tell HTC which endpoints are active.

  \<^bold>\<open>Theories.\<close>  In the order of their imports:
  \<^item> \<open>Prelude\<close>: C integer types, error codes, flags, byte buffers, lemmas on lists and stores, and the
    interfaces that components share: \<open>step_invariant\<close>, \<open>step_conserves\<close> and \<open>step_relation\<close> (what every
    step keeps, every run keeps) and \<open>object_pool\<close> (objects taken from a pool and given back).
  \<^item> \<open>HtcCredit\<close>: \<open>ath6kl_credit_init\<close>, \<open>_seek\<close>, \<open>_distribute\<close>, \<open>_update\<close>, \<open>_redistribute\<close> of htc.c, over
    the list of endpoint distributions in order of priority.  The step machine of all of them is an
    instance of \<open>step_conserves\<close>: no credit is made or lost.
  \<^item> \<open>HtcTarget\<close>: \<open>struct htc_target\<close>, endpoints, packets, frame headers, the event log and the
    surroundings \<open>htc_env\<close> of the mailbox layer (htc.h).
  \<^item> \<open>HtcTx\<close>: from \<open>ath6kl_htc_tx_buf_align\<close> to \<open>ath6kl_htc_mbox_flush_txep\<close>: header, padding, credit
    checks, taking packets from a queue, scatter lists and bundles, issue, completion, flushing.
  \<^item> \<open>HtcRx\<close>: look-aheads, buffers, fetching, bundles, trailers, credit reports, the pending message
    loop, and adding buffers.
  \<^item> \<open>HtcSetup\<close>: the handshake with the target, service connections, start, stop, create, cleanup.
  \<^item> \<open>HtcSystem\<close>: all operations of the layer in any order, as an inductive step relation.
  \<^item> \<open>RxReorder\<close>: the reordering window (\<open>aggr_process_recv_frm\<close>, \<open>aggr_deque_frms\<close>, \<open>aggr_timeout\<close>), block
    ack agreements and the slicing of received aggregates (\<open>aggr_slice_amsdu\<close>), of txrx.c.
  \<^item> \<open>PsQueue\<close>: the power save queues of main.c, an instance of the interface \<open>fifo_queue\<close>.
  \<^item> \<open>AmsduTx\<close>: aggregates on the way out (\<open>aggr_tx_add\<close> and what it calls).
  \<^item> \<open>WmiData\<close>: Ethernet to 802.3 and back, and the data header (wmi.c, wmi.h).
  \<^item> \<open>Station\<close>: interfaces and the table of stations of an access point (main.c, txrx.c).
  \<^item> \<open>Cookie\<close>: the two cookie pools of main.c, an instance of \<open>object_pool\<close>.
  \<^item> \<open>Driver\<close>: \<open>struct ath6kl\<close>, control messages, WMI commands, streams, activity and completion.
  \<^item> \<open>DataTx\<close>: \<open>ath6kl_data_tx\<close> stage by stage.
  \<^item> \<open>ApPowerSave\<close>: PS-Poll, u-APSD triggers, DTIM, and stations that fall asleep and wake up.
  \<^item> \<open>DataRx\<close>: \<open>ath6kl_rx\<close> from a message of HTC to the network stack, \<open>ath6kl_deliver_frames_to_nw_stack\<close>, and
    the buffers for HTC (\<open>ath6kl_rx_refill\<close>, \<open>ath6kl_alloc_amsdu_rxbuf\<close> and what they call).
  \<^item> \<open>DataRxInv\<close>: the account of received frames and the bounds of the buffers.
  \<^item> \<open>DriverInv\<close>, \<open>DataTxInv\<close>, \<open>DriverRun\<close>, \<open>ApPowerInv\<close>: the accounts the driver keeps over these operations
    and the runs made of them.

  \<^bold>\<open>How the model corresponds to the code.\<close>  A definition has the name of its function; a long
  function is cut into definitions in the order of its code, named in the text above them, and the
  manifest gives the lines of each.  A structure is a record with the fields the modelled code reads or
  writes.  Machine words keep their width (\<open>u8\<close>, \<open>u16\<close>, \<open>u32\<close>, wrapping) wherever the code counts with
  them or stores them; \<open>int\<close> stands for signed counters that stay far below their bounds, and an
  index is a \<open>nat\<close>.  A function that changes the state returns the new state; one that the code leaves by
  \<open>goto\<close> is a case distinction.  Error codes are negative integers, as in the code.  The value \<open>None\<close> of an
  operation means that the C code would not return properly: it would access memory outside an
  array or behind a NULL pointer, divide by zero, or not end.  The theorems then state that the
  result is not \<open>None\<close>, under conditions that are spelled out.
  Effects on the world outside are events: \<open>events\<close> of the HTC target (bus requests,
  completions, timers), \<open>rx_events\<close> of a station (frames handed up or freed), \<open>drv_log\<close> of the driver
  (packets handed to HTC, frames freed, activity reports).  The packet that the driver hands to
  HTC is such an event, and it comes back by \<open>ath6kl_tx_complete\<close> in a later operation; the
  mailbox layer itself is the other half of the development.

  \<^bold>\<open>Parameters.\<close>  What the code gets from elsewhere is an argument: whether an allocation succeeds
  (\<open>can\<close>, \<open>te_can\<close>), the clock (\<open>te_now\<close>, \<open>te_hz\<close>), the verdict of the P2P flow control on a cookie
  (\<open>te_sched\<close>), what the bus delivers and whether it fails (\<open>htc_env\<close>).  Nothing is assumed of them beyond what
  a theorem states.  Locks are not modelled: an operation runs from its start to its end, and the
  runs interleave whole operations.  Debug output is left out.

  \<^bold>\<open>Loops.\<close>  A loop over a list or an array is structural recursion.  A loop whose end depends on what it
  does is a \<open>partial_function (option)\<close>: \<open>aggr_deque_loop\<close>, \<open>aggr_slice_loop\<close>, \<open>rx_pending_loop\<close>,
  \<open>start_push_loop\<close>, \<open>drain_mgmt\<close>, \<open>drain_data\<close> and \<open>drain_mcast\<close>; not ending is the value \<open>None\<close>.  That they end is proved: by
  the distance the window moves, the bytes left of an aggregate, the look-aheads that remain, the
  buffers and credits, the length of a queue.  No definition has fuel.  The service period of u-APSD counts its
  frames down from at most 0xFFFF, the largest number its 16 bit counter holds.

  \<^bold>\<open>What the lemmas show.\<close>
  \<^item> Credits (\<open>HtcCredit\<close>, \<open>HtcTx\<close>, \<open>HtcRx\<close>, \<open>HtcSystem\<close>): the ledger of credits, host and target together, is
    constant over every run; a message is only sent when paid for; a queue stalls only for lack of credits.
  \<^item> Order and completeness of HTC: packets leave in the order they were queued; a packet is sent, completed
    or still queued, once; buffers are passed up or back in their pools; trailers and headers are read as written.
  \<^item> Set-up: endpoints, sizes and credits after the handshake are those the target announced; every error is listed.
  \<^item> Reordering: the invariant of the window, its refinement by a list of slots, delivery in order and
    exactly once, the timer, and the outcome of a request for an agreement.
  \<^item> Framing: slicing inverts aggregation, on the receive side and for the aggregates sent here;
    a transmitted frame is read back from its message.
  \<^item> Power save: a queue is a first-in first-out list, ageing empties it, waking drains it and a service
    period ends.
  \<^item> Stations, cookies and streams: the station table is consistent; every cookie is free, out with HTC or
    reported lost; each frame is sent, kept or freed exactly once; the active streams are
    exactly those the commands opened.
  \<^item> Reception: a received message is handed up, freed, forwarded, queued or held in its window, once, and so
    are the frames it releases; the buffers given to HTC fit and are bounded.

  \<^bold>\<open>Not modelled.\<close>  The other functions of wmi.c copy fields between a message and a structure;
  cfg80211.c, most of main.c, ap.c and init.c are glue to the kernel wireless stack, ioctls and
  firmware parameters.  p2p.c is used here only through the verdict above.  hif.c, sdio.c, usb.c and
  bmi.c do device input and output; htc_pipe.c is a second HTC for USB pipes.  debug.c, testmode.c and
  diag.c are text interfaces and tests.  src/drivers/cfg80211, src/apps and the firmware are third
  party code.  Of \<open>ath6kl_rx\<close> the mark for a checksum and the branches for Android, direct audio, factory
  tests and the UDP throughput workaround, which the build leaves out, are not modelled.  Of htc.c the text output \<open>ath6kl_htc_mbox_stat\<close>, the empty
  \<open>ath6kl_htc_mbox_stop_netif_queue_full\<close> and the table of functions are left out.
\<close>

end
